(* ===== verification/Prelude.thy ===== *)
theory Prelude
  imports Main "HOL-Library.Word"
begin

text \<open>
  Shared ground of the development: Python exceptions as values of a sum type and the
  sequencing of computations that may raise, Python's shifts on unbounded integers, and
  the facts about \<^const>\<open>take_bit\<close>, \<^const>\<open>bit\<close> and powers of two that the bit-vector
  components share. The collections declared here drive the component proofs:
  \<open>res_simps\<close> evaluates sequencing, \<open>bv_simps\<close> evaluates bit-vector operations on
  operands of equal width, \<open>flag_simps\<close> evaluates operations on one-bit flags.
\<close>

unbundle bit_operations_syntax

named_theorems res_simps
named_theorems bv_simps
named_theorems flag_simps

section \<open>Exceptions as values\<close>

text \<open>The exception classes that the modelled code raises.\<close>

datatype py_error =
    ClaripyTypeError
  | ClaripyOperationError
  | ClaripyZeroDivisionError
  | ZeroDivisionError
  | AttributeError
  | ValueError
  | KeyError
  | TypeError
  | UnboundLocalError
  | AssertionError
  | SimCCallError
  | SimError
  | AngrError
  | IndexError
  | SimMemoryError
  | SimHeapError
  | SimMergeError
  | SimSolverError
  | BackendError
  | ClaripyReplacementError

type_synonym 'a res = "py_error + 'a"

definition bind_res :: "'a res \<Rightarrow> ('a \<Rightarrow> 'b res) \<Rightarrow> 'b res" where
  "bind_res m f = (case m of Inl e \<Rightarrow> Inl e | Inr x \<Rightarrow> f x)"

definition map_res :: "('a \<Rightarrow> 'b) \<Rightarrow> 'a res \<Rightarrow> 'b res" where
  "map_res f m = bind_res m (\<lambda>x. Inr (f x))"

fun list_res :: "'a res list \<Rightarrow> 'a list res" where
  "list_res [] = Inr []"
| "list_res (m # ms) = bind_res m (\<lambda>x. bind_res (list_res ms) (\<lambda>xs. Inr (x # xs)))"

lemma bind_res_Inr [simp, res_simps]: "bind_res (Inr x) f = f x"
  by (simp add: bind_res_def)

lemma bind_res_Inl [simp, res_simps]: "bind_res (Inl e) f = Inl e"
  by (simp add: bind_res_def)

lemma map_res_Inr [simp, res_simps]: "map_res f (Inr x) = Inr (f x)"
  by (simp add: map_res_def)

lemma map_res_Inl [simp, res_simps]: "map_res f (Inl e) = Inl e"
  by (simp add: map_res_def)

lemma bind_res_assoc: "bind_res (bind_res m f) g = bind_res m (\<lambda>x. bind_res (f x) g)"
  by (cases m) simp_all

lemma bind_res_eq_Inr [simp]:
  "bind_res m f = Inr y \<longleftrightarrow> (\<exists>x. m = Inr x \<and> f x = Inr y)"
  by (cases m) simp_all

lemma map_res_eq_Inr [simp]:
  "map_res f m = Inr y \<longleftrightarrow> (\<exists>x. m = Inr x \<and> y = f x)"
  by (cases m) auto

section \<open>Python integers\<close>

text \<open>
  Python's \<open><<\<close> and \<open>>>\<close> on unbounded integers raise \<open>ValueError\<close> on a negative count.
\<close>

definition py_shl :: "int \<Rightarrow> int \<Rightarrow> int res" where
  "py_shl a k = (if k < 0 then Inl ValueError else Inr (push_bit (nat k) a))"

definition py_shr :: "int \<Rightarrow> int \<Rightarrow> int res" where
  "py_shr a k = (if k < 0 then Inl ValueError else Inr (drop_bit (nat k) a))"

lemma py_shl_int [simp]: "py_shl a (int k) = Inr (push_bit k a)"
  by (simp add: py_shl_def)

lemma py_shr_int [simp]: "py_shr a (int k) = Inr (drop_bit k a)"
  by (simp add: py_shr_def)

lemma py_shl_nonneg: "0 \<le> k \<Longrightarrow> py_shl a k = Inr (push_bit (nat k) a)"
  by (simp add: py_shl_def)

lemma py_shr_nonneg: "0 \<le> k \<Longrightarrow> py_shr a k = Inr (drop_bit (nat k) a)"
  by (simp add: py_shr_def)

section \<open>Powers of two and bits of integers\<close>

lemma and_mod_minus_1 [simp]: "v AND (push_bit n 1 - 1) = take_bit n (v :: int)"
  by (simp add: take_bit_eq_mask mask_eq_exp_minus_1 push_bit_eq_mult)

lemma and_exp_minus_1 [simp]: "v AND (2 ^ n - 1) = take_bit n (v :: int)"
  by (simp add: take_bit_eq_mask mask_eq_exp_minus_1)

lemma half_power: "0 < n \<Longrightarrow> (2 :: int) ^ n = 2 * 2 ^ (n - 1)"
  by (cases n) simp_all

lemma take_bit_range: "0 \<le> take_bit n (v :: int) \<and> take_bit n v < 2 ^ n"
  by simp

lemma int_div_less_iff:
  assumes "0 < (k :: int)"
  shows "a div k < b \<longleftrightarrow> a < b * k"
proof
  assume "a div k < b"
  then show "a < b * k" using zdiv_mono1 [of "b * k" a k] assms by (force simp: not_less [symmetric])
next
  assume "a < b * k"
  moreover have "a div k * k = a - a mod k" by (simp add: minus_mod_eq_div_mult)
  moreover have "0 \<le> a mod k" using assms by simp
  ultimately have "a div k * k < b * k" by linarith
  then show "a div k < b" using assms by (simp add: mult_less_cancel_right)
qed

lemma bit_top_iff:
  assumes "0 < n" and "0 \<le> v" and "v < 2 ^ n"
  shows "bit (v :: int) (n - 1) \<longleftrightarrow> 2 ^ (n - 1) \<le> v"
proof -
  define t where "t = take_bit (n - 1) v"
  have "take_bit n v = 2 ^ (n - 1) * of_bool (bit v (n - 1)) + t"
    using assms(1) take_bit_Suc_from_most [of "n - 1" v] by (simp add: t_def)
  moreover have "take_bit n v = v"
    using assms(2,3) by (simp add: take_bit_int_eq_self)
  moreover have "0 \<le> t" "t < 2 ^ (n - 1)"
    by (simp_all add: t_def)
  ultimately show ?thesis by (cases "bit v (n - 1)") simp_all
qed

lemma take_bit_wrap:
  assumes "0 \<le> x" and "x < 2 * 2 ^ n"
  shows "take_bit n (x :: int) = (if x < 2 ^ n then x else x - 2 ^ n)"
proof (cases "x < 2 ^ n")
  case True
  with assms show ?thesis by (simp add: take_bit_int_eq_self)
next
  case False
  have "take_bit n x = take_bit n (x - 2 ^ n)"
    by (simp add: take_bit_eq_mod mod_diff_right_eq [of x "2 ^ n", symmetric])
  also have "\<dots> = x - 2 ^ n" using False assms by (intro take_bit_int_eq_self) simp_all
  finally show ?thesis using False by simp
qed

lemma take_bit_wrap_neg:
  assumes "- (2 ^ n) \<le> x" and "x < 2 ^ n"
  shows "take_bit n (x :: int) = (if x < 0 then x + 2 ^ n else x)"
  using take_bit_wrap [of "x + 2 ^ n" n] assms
  by (simp add: take_bit_eq_mod)

lemma take_bit_add_exp: "take_bit n (take_bit n a + b) = take_bit n (a + (b :: int))"
  by (simp add: take_bit_eq_mod mod_simps)

lemma take_bit_add3: "take_bit n (a + b + c) = take_bit n (take_bit n a + take_bit n b + (c :: int))"
  unfolding take_bit_eq_mod by (intro mod_add_cong) simp_all

lemma take_bit_diff3: "take_bit n (a - b - c) = take_bit n (take_bit n a - take_bit n b - (c :: int))"
  unfolding take_bit_eq_mod by (intro mod_diff_cong) simp_all

section \<open>Carries, borrows and signed overflow\<close>

text \<open>
  The integer facts behind the flag computations. \<open>u\<close> is the unsigned and \<open>s\<close> the signed
  reading of an \<open>n\<close>-bit value; \<open>c\<close> is a carry or borrow that comes in.
\<close>

lemma bit_top_take_bit:
  "0 < n \<Longrightarrow> bit (a :: int) (n - 1) \<longleftrightarrow> 2 ^ (n - 1) \<le> take_bit n a"
  using bit_top_iff [of n "take_bit n a"] by (simp add: bit_take_bit_iff)

lemma signed_take_bit_top:
  assumes "0 < n"
  shows "signed_take_bit (n - 1) (a :: int) =
           (if 2 ^ (n - 1) \<le> take_bit n a then take_bit n a - 2 ^ n else take_bit n a)"
  using assms bit_top_take_bit [OF assms, of a]
  by (simp add: signed_take_bit_eq_take_bit_minus bit_take_bit_iff)

lemma carry_iff:
  assumes "c = 0 \<or> c = (1 :: int)"
  shows "(if c = 0 then take_bit n (a + b) < take_bit n a
          else take_bit n (a + b + c) \<le> take_bit n a) \<longleftrightarrow>
         2 ^ n \<le> take_bit n a + take_bit n b + c"
proof -
  define ua ub where "ua = take_bit n a" and "ub = take_bit n b"
  have rng: "0 \<le> ua" "ua < 2 ^ n" "0 \<le> ub" "ub < 2 ^ n"
    by (simp_all add: ua_def ub_def)
  have "take_bit n (a + b + c) = (if ua + ub + c < 2 ^ n then ua + ub + c else ua + ub + c - 2 ^ n)"
    unfolding take_bit_add3 [of n a b] ua_def [symmetric] ub_def [symmetric]
    using assms rng by (intro take_bit_wrap) linarith+
  then show ?thesis using assms rng
    unfolding ua_def [symmetric] ub_def [symmetric] by auto
qed

lemma add_overflow_iff:
  assumes "0 < n" and "c = 0 \<or> c = (1 :: int)"
  shows "(bit a (n - 1) = bit b (n - 1)) \<and> bit (a + b + c) (n - 1) \<noteq> bit a (n - 1) \<longleftrightarrow>
         \<not> (- (2 ^ (n - 1)) \<le> signed_take_bit (n - 1) a + signed_take_bit (n - 1) b + c \<and>
            signed_take_bit (n - 1) a + signed_take_bit (n - 1) b + c < 2 ^ (n - 1))"
proof -
  define M ua ub where "M = (2 :: int) ^ (n - 1)" and "ua = take_bit n a" and "ub = take_bit n b"
  have M: "2 ^ n = 2 * M" "0 < M" using assms(1) half_power [of n] by (simp_all add: M_def)
  have rng: "0 \<le> ua" "ua < 2 * M" "0 \<le> ub" "ub < 2 * M"
    by (simp_all add: ua_def ub_def flip: M(1))
  have "take_bit n (a + b + c) = (if ua + ub + c < 2 * M then ua + ub + c else ua + ub + c - 2 * M)"
    unfolding take_bit_add3 [of n a b] ua_def [symmetric] ub_def [symmetric] M(1) [symmetric]
    using assms(2) rng M by (intro take_bit_wrap) linarith+
  then show ?thesis
    using assms(2) rng M(2)
    unfolding bit_top_take_bit [OF assms(1)] signed_take_bit_top [OF assms(1)] M_def [symmetric]
      ua_def [symmetric] ub_def [symmetric] M(1)
    by auto
qed

lemma sub_overflow_iff:
  assumes "0 < n" and "c = 0 \<or> c = (1 :: int)"
  shows "(bit a (n - 1) \<noteq> bit b (n - 1)) \<and> bit (a - b - c) (n - 1) \<noteq> bit a (n - 1) \<longleftrightarrow>
         \<not> (- (2 ^ (n - 1)) \<le> signed_take_bit (n - 1) a - signed_take_bit (n - 1) b - c \<and>
            signed_take_bit (n - 1) a - signed_take_bit (n - 1) b - c < 2 ^ (n - 1))"
proof -
  define M ua ub where "M = (2 :: int) ^ (n - 1)" and "ua = take_bit n a" and "ub = take_bit n b"
  have M: "2 ^ n = 2 * M" "0 < M" using assms(1) half_power [of n] by (simp_all add: M_def)
  have rng: "0 \<le> ua" "ua < 2 * M" "0 \<le> ub" "ub < 2 * M"
    by (simp_all add: ua_def ub_def flip: M(1))
  have "take_bit n (a - b - c) = (if ua - ub - c < 0 then ua - ub - c + 2 * M else ua - ub - c)"
    unfolding take_bit_diff3 [of n a b] ua_def [symmetric] ub_def [symmetric] M(1) [symmetric]
    using assms(2) rng M by (intro take_bit_wrap_neg) linarith+
  then show ?thesis
    using assms(2) rng M(2)
    unfolding bit_top_take_bit [OF assms(1)] signed_take_bit_top [OF assms(1)] M_def [symmetric]
      ua_def [symmetric] ub_def [symmetric] M(1)
    by auto
qed

end
