(* ===== verification/Concrete_BV.thy ===== *)
theory Concrete_BV
  imports Prelude "HOL-Library.Signed_Division"
begin

text \<open>
  The concrete bit-vectors of claripy (\<open>claripy/backends/backend_concrete/bv.py\<close>): the class
  \<open>BVV\<close> with its decorators and operators, and the module-level operations that the concrete
  backend dispatches to. Every operation is total on the model: a Python exception is an
  \<open>Inl\<close>. The checks of the constructor under \<open>_d._DEBUG\<close>, which is on by default, are part of
  the model; the value \<open>None\<close>, which claripy uses for the empty strided interval only, is not.
\<close>

section \<open>The class BVV\<close>

record BVV =
  bits :: nat
  bv_value :: int

text \<open>The attribute \<open>mod\<close>, and \<open>BVV(value, bits)\<close> with the setter of \<open>value\<close>.\<close>

definition bv_mod :: "BVV \<Rightarrow> int" where
  "bv_mod a = push_bit (bits a) 1"

definition BVV_init :: "int \<Rightarrow> int \<Rightarrow> BVV res" where
  "BVV_init v n =
     (if n < 0 then Inl ClaripyOperationError
      else if n = 0 \<and> v \<noteq> 0 then Inl ClaripyOperationError
      else bind_res (py_shl 1 n) (\<lambda>m. Inr \<lparr>bits = nat n, bv_value = v AND (m - 1)\<rparr>))"

text \<open>The property \<open>signed\<close>; on a zero-length vector it computes \<open>0 % 0\<close>.\<close>

definition BVV_signed :: "BVV \<Rightarrow> int res" where
  "BVV_signed a =
     (if bv_value a < bv_mod a div 2 then Inr (bv_value a)
      else if bv_mod a div 2 = 0 then Inl ZeroDivisionError
      else Inr (bv_value a mod (bv_mod a div 2) - bv_mod a div 2))"

definition set_signed :: "int \<Rightarrow> BVV \<Rightarrow> BVV" where
  "set_signed v a = a\<lparr>bv_value := v mod - bv_mod a\<rparr>"

definition BVV_getstate :: "BVV \<Rightarrow> nat \<times> int" where
  "BVV_getstate a = (bits a, bv_value a)"

definition BVV_setstate :: "nat \<times> int \<Rightarrow> BVV" where
  "BVV_setstate s = \<lparr>bits = fst s, bv_value = snd s AND (push_bit (fst s) 1 - 1)\<rparr>"

section \<open>Decorators\<close>

definition compare_bits :: "(BVV \<Rightarrow> BVV \<Rightarrow> 'a res) \<Rightarrow> BVV \<Rightarrow> BVV \<Rightarrow> 'a res" where
  "compare_bits f a b =
     (if bits a = 0 \<or> bits b = 0 then Inl ClaripyTypeError
      else if bits a \<noteq> bits b then Inl ClaripyTypeError
      else f a b)"

definition compare_bits_0_length :: "(BVV \<Rightarrow> BVV \<Rightarrow> 'a res) \<Rightarrow> BVV \<Rightarrow> BVV \<Rightarrow> 'a res" where
  "compare_bits_0_length f a b =
     (if bits a \<noteq> bits b then Inl ClaripyTypeError else f a b)"

text \<open>
  An operand is a bit-vector or a Python number. \<open>normalize_types\<close> turns a number on the right
  into a bit-vector of the width of \<open>self\<close>; a number as \<open>self\<close> has no attribute \<open>bits\<close>.
\<close>

datatype operand = Num int | Bv BVV

definition normalize_types :: "(BVV \<Rightarrow> BVV \<Rightarrow> 'a res) \<Rightarrow> operand \<Rightarrow> operand \<Rightarrow> 'a res" where
  "normalize_types f x y =
     (case x of
        Num _ \<Rightarrow> Inl AttributeError
      | Bv a \<Rightarrow>
          (case y of
             Num k \<Rightarrow> bind_res (BVV_init k (int (bits a))) (f a)
           | Bv b \<Rightarrow> f a b))"

section \<open>Arithmetic\<close>

definition BVV_add :: "operand \<Rightarrow> operand \<Rightarrow> BVV res" where
  "BVV_add = normalize_types (compare_bits (\<lambda>a b.
     BVV_init (bv_value a + bv_value b) (int (bits a))))"

definition BVV_sub :: "operand \<Rightarrow> operand \<Rightarrow> BVV res" where
  "BVV_sub = normalize_types (compare_bits (\<lambda>a b.
     BVV_init (bv_value a - bv_value b) (int (bits a))))"

definition BVV_mul :: "operand \<Rightarrow> operand \<Rightarrow> BVV res" where
  "BVV_mul = normalize_types (compare_bits (\<lambda>a b.
     BVV_init (bv_value a * bv_value b) (int (bits a))))"

definition BVV_mod :: "operand \<Rightarrow> operand \<Rightarrow> BVV res" where
  "BVV_mod = normalize_types (compare_bits (\<lambda>a b.
     if bv_value b = 0 then Inl ClaripyZeroDivisionError
     else BVV_init (bv_value a mod bv_value b) (int (bits a))))"

definition BVV_floordiv :: "operand \<Rightarrow> operand \<Rightarrow> BVV res" where
  "BVV_floordiv = normalize_types (compare_bits (\<lambda>a b.
     if bv_value b = 0 then Inl ClaripyZeroDivisionError
     else BVV_init (bv_value a div bv_value b) (int (bits a))))"

definition BVV_truediv :: "operand \<Rightarrow> operand \<Rightarrow> BVV res" where
  "BVV_truediv = BVV_floordiv"

definition BVV_radd :: "operand \<Rightarrow> operand \<Rightarrow> BVV res" where
  "BVV_radd = normalize_types (compare_bits (\<lambda>a b.
     BVV_init (bv_value a + bv_value b) (int (bits a))))"

definition BVV_rsub :: "operand \<Rightarrow> operand \<Rightarrow> BVV res" where
  "BVV_rsub = normalize_types (compare_bits (\<lambda>a b.
     BVV_init (bv_value b - bv_value a) (int (bits a))))"

definition BVV_rmul :: "operand \<Rightarrow> operand \<Rightarrow> BVV res" where
  "BVV_rmul = normalize_types (compare_bits (\<lambda>a b.
     BVV_init (bv_value a * bv_value b) (int (bits a))))"

definition BVV_rmod :: "operand \<Rightarrow> operand \<Rightarrow> BVV res" where
  "BVV_rmod = normalize_types (compare_bits (\<lambda>a b.
     if bv_value a = 0 then Inl ClaripyZeroDivisionError
     else BVV_init (bv_value b mod bv_value a) (int (bits a))))"

definition BVV_rfloordiv :: "operand \<Rightarrow> operand \<Rightarrow> BVV res" where
  "BVV_rfloordiv = normalize_types (compare_bits (\<lambda>a b.
     if bv_value a = 0 then Inl ClaripyZeroDivisionError
     else BVV_init (bv_value b div bv_value a) (int (bits a))))"

definition BVV_rtruediv :: "operand \<Rightarrow> operand \<Rightarrow> BVV res" where
  "BVV_rtruediv = BVV_rfloordiv"

section \<open>Bit operations\<close>

definition BVV_and :: "operand \<Rightarrow> operand \<Rightarrow> BVV res" where
  "BVV_and = normalize_types (compare_bits (\<lambda>a b.
     BVV_init (bv_value a AND bv_value b) (int (bits a))))"

definition BVV_or :: "operand \<Rightarrow> operand \<Rightarrow> BVV res" where
  "BVV_or = normalize_types (compare_bits (\<lambda>a b.
     BVV_init (bv_value a OR bv_value b) (int (bits a))))"

definition BVV_xor :: "operand \<Rightarrow> operand \<Rightarrow> BVV res" where
  "BVV_xor = normalize_types (compare_bits (\<lambda>a b.
     BVV_init (bv_value a XOR bv_value b) (int (bits a))))"

definition BVV_lshift :: "operand \<Rightarrow> operand \<Rightarrow> BVV res" where
  "BVV_lshift = normalize_types (compare_bits (\<lambda>a b.
     bind_res (py_shl (bv_value a) (bv_value b)) (\<lambda>v. BVV_init v (int (bits a)))))"

text \<open>The operator \<open>>>\<close> is the arithmetic shift: it shifts the signed value.\<close>

definition BVV_rshift :: "operand \<Rightarrow> operand \<Rightarrow> BVV res" where
  "BVV_rshift = normalize_types (compare_bits (\<lambda>a b.
     bind_res (BVV_signed a) (\<lambda>s.
     bind_res (py_shr s (bv_value b)) (\<lambda>v. BVV_init v (int (bits a))))))"

definition BVV_invert :: "BVV \<Rightarrow> BVV res" where
  "BVV_invert a = BVV_init (bv_value a XOR (bv_mod a - 1)) (int (bits a))"

definition BVV_neg :: "BVV \<Rightarrow> BVV res" where
  "BVV_neg a = BVV_init (- bv_value a mod bv_mod a) (int (bits a))"

definition BVV_rand :: "operand \<Rightarrow> operand \<Rightarrow> BVV res" where
  "BVV_rand = normalize_types (compare_bits (\<lambda>a b.
     BVV_init (bv_value a AND bv_value b) (int (bits a))))"

definition BVV_ror :: "operand \<Rightarrow> operand \<Rightarrow> BVV res" where
  "BVV_ror = normalize_types (compare_bits (\<lambda>a b.
     BVV_init (bv_value a OR bv_value b) (int (bits a))))"

definition BVV_rxor :: "operand \<Rightarrow> operand \<Rightarrow> BVV res" where
  "BVV_rxor = normalize_types (compare_bits (\<lambda>a b.
     BVV_init (bv_value a XOR bv_value b) (int (bits a))))"

text \<open>The reflected shifts take the shift count from the signed value of \<open>self\<close>.\<close>

definition BVV_rlshift :: "operand \<Rightarrow> operand \<Rightarrow> BVV res" where
  "BVV_rlshift = normalize_types (compare_bits (\<lambda>a b.
     bind_res (BVV_signed a) (\<lambda>s.
     bind_res (py_shl (bv_value b) s) (\<lambda>v. BVV_init v (int (bits a))))))"

definition BVV_rrshift :: "operand \<Rightarrow> operand \<Rightarrow> BVV res" where
  "BVV_rrshift = normalize_types (compare_bits (\<lambda>a b.
     bind_res (BVV_signed b) (\<lambda>sb.
     bind_res (BVV_signed a) (\<lambda>sa.
     bind_res (py_shr sb sa) (\<lambda>v. BVV_init v (int (bits a)))))))"

section \<open>Comparisons\<close>

definition BVV_eq :: "operand \<Rightarrow> operand \<Rightarrow> bool res" where
  "BVV_eq = normalize_types (compare_bits_0_length (\<lambda>a b. Inr (bv_value a = bv_value b)))"

definition BVV_ne :: "operand \<Rightarrow> operand \<Rightarrow> bool res" where
  "BVV_ne = normalize_types (compare_bits_0_length (\<lambda>a b. Inr (bv_value a \<noteq> bv_value b)))"

definition ULT :: "operand \<Rightarrow> operand \<Rightarrow> bool res" where
  "ULT = normalize_types (compare_bits (\<lambda>a b. Inr (bv_value a < bv_value b)))"

definition UGT :: "operand \<Rightarrow> operand \<Rightarrow> bool res" where
  "UGT = normalize_types (compare_bits (\<lambda>a b. Inr (bv_value a > bv_value b)))"

definition ULE :: "operand \<Rightarrow> operand \<Rightarrow> bool res" where
  "ULE = normalize_types (compare_bits (\<lambda>a b. Inr (bv_value a \<le> bv_value b)))"

definition UGE :: "operand \<Rightarrow> operand \<Rightarrow> bool res" where
  "UGE = normalize_types (compare_bits (\<lambda>a b. Inr (bv_value a \<ge> bv_value b)))"

definition signed_cmp :: "(int \<Rightarrow> int \<Rightarrow> 'a res) \<Rightarrow> BVV \<Rightarrow> BVV \<Rightarrow> 'a res" where
  "signed_cmp f a b = bind_res (BVV_signed a) (\<lambda>x. bind_res (BVV_signed b) (f x))"

definition SLT :: "operand \<Rightarrow> operand \<Rightarrow> bool res" where
  "SLT = normalize_types (compare_bits (signed_cmp (\<lambda>x y. Inr (x < y))))"

definition SGT :: "operand \<Rightarrow> operand \<Rightarrow> bool res" where
  "SGT = normalize_types (compare_bits (signed_cmp (\<lambda>x y. Inr (x > y))))"

definition SLE :: "operand \<Rightarrow> operand \<Rightarrow> bool res" where
  "SLE = normalize_types (compare_bits (signed_cmp (\<lambda>x y. Inr (x \<le> y))))"

definition SGE :: "operand \<Rightarrow> operand \<Rightarrow> bool res" where
  "SGE = normalize_types (compare_bits (signed_cmp (\<lambda>x y. Inr (x \<ge> y))))"

section \<open>Signed division\<close>

text \<open>
  \<open>a // b if a * b > 0 else (a + (-a % b)) // b\<close>: Python's floor division corrected to
  round towards zero.
\<close>

definition trunc_quot :: "int \<Rightarrow> int \<Rightarrow> int" where
  "trunc_quot a b = (if a * b > 0 then a div b else (a + (- a mod b)) div b)"

definition SDiv :: "operand \<Rightarrow> operand \<Rightarrow> BVV res" where
  "SDiv = normalize_types (compare_bits (\<lambda>x y. signed_cmp (\<lambda>a b.
     if b = 0 then Inl ClaripyZeroDivisionError
     else BVV_init (trunc_quot a b) (int (bits x))) x y))"

definition SMod :: "operand \<Rightarrow> operand \<Rightarrow> BVV res" where
  "SMod = normalize_types (compare_bits (\<lambda>x y. signed_cmp (\<lambda>a b.
     if b = 0 then Inl ClaripyZeroDivisionError
     else BVV_init (a - trunc_quot a b * b) (int (bits x))) x y))"

section \<open>Width changes, shifts and rotations\<close>

definition ZeroExt :: "int \<Rightarrow> BVV \<Rightarrow> BVV res" where
  "ZeroExt k a = BVV_init (bv_value a) (int (bits a) + k)"

definition SignExt :: "int \<Rightarrow> BVV \<Rightarrow> BVV res" where
  "SignExt k a = bind_res (BVV_signed a) (\<lambda>s. BVV_init s (int (bits a) + k))"

definition Extract :: "int \<Rightarrow> int \<Rightarrow> BVV \<Rightarrow> BVV res" where
  "Extract f t a =
     bind_res (py_shr (bv_value a) t) (\<lambda>v.
     bind_res (py_shl 1 (f + 2 - t)) (\<lambda>m.
     BVV_init (v AND (m - 1)) (f + 1 - t)))"

fun Concat_loop :: "int \<Rightarrow> nat \<Rightarrow> BVV list \<Rightarrow> BVV res" where
  "Concat_loop total_value total_bits [] = BVV_init total_value (int total_bits)"
| "Concat_loop total_value total_bits (a # as) =
     Concat_loop (push_bit (bits a) total_value OR bv_value a) (total_bits + bits a) as"

definition Concat :: "BVV list \<Rightarrow> BVV res" where
  "Concat as = Concat_loop 0 0 as"

definition LShR :: "operand \<Rightarrow> operand \<Rightarrow> BVV res" where
  "LShR = normalize_types (compare_bits (\<lambda>a b.
     bind_res (py_shr (bv_value a) (bv_value b)) (\<lambda>v. BVV_init v (int (bits a)))))"

definition RotateRight :: "BVV \<Rightarrow> BVV \<Rightarrow> BVV res" where
  "RotateRight a k =
     bind_res (BVV_mod (Bv k) (Num (int (bits a)))) (\<lambda>bits_smaller.
     bind_res (LShR (Bv a) (Bv bits_smaller)) (\<lambda>lo.
     bind_res (BVV_rsub (Bv bits_smaller) (Num (int (bits a)))) (\<lambda>rest.
     bind_res (BVV_lshift (Bv a) (Bv rest)) (\<lambda>hi.
     BVV_or (Bv lo) (Bv hi)))))"

definition RotateLeft :: "BVV \<Rightarrow> BVV \<Rightarrow> BVV res" where
  "RotateLeft a k =
     bind_res (BVV_mod (Bv k) (Num (int (bits a)))) (\<lambda>bits_smaller.
     bind_res (BVV_lshift (Bv a) (Bv bits_smaller)) (\<lambda>hi.
     bind_res (BVV_rsub (Bv bits_smaller) (Num (int (bits a)))) (\<lambda>rest.
     bind_res (LShR (Bv a) (Bv rest)) (\<lambda>lo.
     BVV_or (Bv hi) (Bv lo)))))"

definition reverse_16 :: "int \<Rightarrow> int" where
  "reverse_16 v = push_bit 8 (v AND 0xFF) OR drop_bit 8 (v AND 0xFF00)"

definition reverse_32 :: "int \<Rightarrow> int" where
  "reverse_32 v =
     push_bit 24 (v AND 0xFF) OR push_bit 8 (v AND 0xFF00)
     OR drop_bit 8 (v AND 0xFF0000) OR drop_bit 24 (v AND 0xFF000000)"

definition reverse_64 :: "int \<Rightarrow> int" where
  "reverse_64 v =
     push_bit 56 (v AND 0xFF)
     OR push_bit 40 (v AND 0xFF00)
     OR push_bit 24 (v AND 0xFF0000)
     OR push_bit 8 (v AND 0xFF000000)
     OR drop_bit 8 (v AND 0xFF00000000)
     OR drop_bit 24 (v AND 0xFF0000000000)
     OR drop_bit 40 (v AND 0xFF000000000000)
     OR drop_bit 56 (v AND 0xFF00000000000000)"

text \<open>The loop \<open>for i in range(0, size, 8)\<close> over the byte offsets.\<close>

fun reverse_loop :: "nat \<Rightarrow> int \<Rightarrow> int \<Rightarrow> nat list \<Rightarrow> int" where
  "reverse_loop size_n v out [] = out"
| "reverse_loop size_n v out (i # is) =
     reverse_loop size_n v
       (out OR push_bit (size_n - 8 - i) (drop_bit i (v AND push_bit i 0xFF))) is"

definition Reverse :: "BVV \<Rightarrow> BVV res" where
  "Reverse a =
     (if bits a = 8 then Inr a
      else if bits a mod 8 \<noteq> 0 then Inl ClaripyOperationError
      else
        let v = bv_value a;
            out = (if bits a = 64 then reverse_64 v
                   else if bits a = 32 then reverse_32 v
                   else if bits a = 16 then reverse_16 v
                   else reverse_loop (bits a) v 0 (map (\<lambda>j. 8 * j) [0..<bits a div 8]))
        in BVV_init out (int (bits a)))"

section \<open>Booleans and If\<close>

definition BoolV :: "bool \<Rightarrow> bool" where
  "BoolV b = b"

definition And_all :: "bool list \<Rightarrow> bool" where
  "And_all bs = list_all (\<lambda>b. b) bs"

definition Or_any :: "bool list \<Rightarrow> bool" where
  "Or_any bs = list_ex (\<lambda>b. b) bs"

definition Not_bool :: "bool \<Rightarrow> bool" where
  "Not_bool b = (\<not> b)"

definition normalizer :: "operand \<Rightarrow> operand \<Rightarrow> (BVV \<times> BVV) res" where
  "normalizer = normalize_types (\<lambda>a b. Inr (a, b))"

definition If_bv :: "bool \<Rightarrow> operand \<Rightarrow> operand \<Rightarrow> BVV res" where
  "If_bv c t f = map_res (\<lambda>p. if c then fst p else snd p) (normalizer t f)"

section \<open>The invariant of BVV and a normal form\<close>

text \<open>
  Every \<open>BVV\<close> that the constructor builds holds a value below \<open>2 ^ bits\<close>. \<open>bvv n v\<close> is the
  bit-vector of width \<open>n\<close> that the constructor makes from the integer \<open>v\<close>; results of all
  operations are given in this form.
\<close>

definition wf_BVV :: "BVV \<Rightarrow> bool" where
  "wf_BVV a \<longleftrightarrow> 0 \<le> bv_value a \<and> bv_value a < 2 ^ bits a"

definition bvv :: "nat \<Rightarrow> int \<Rightarrow> BVV" where
  "bvv n v = \<lparr>bits = n, bv_value = take_bit n v\<rparr>"

lemma bits_bvv [simp]: "bits (bvv n v) = n"
  by (simp add: bvv_def)

lemma bv_value_bvv [simp]: "bv_value (bvv n v) = take_bit n v"
  by (simp add: bvv_def)

lemma bv_mod_bvv [simp]: "bv_mod (bvv n v) = 2 ^ n"
  by (simp add: bv_mod_def push_bit_eq_mult)

lemma wf_bvv [simp]: "wf_BVV (bvv n v)"
  by (simp add: wf_BVV_def)

lemma bvv_eqI: "take_bit n v = take_bit n w \<Longrightarrow> bvv n v = bvv n w"
  by (simp add: bvv_def)

lemma bvv_eq_iff: "bvv n v = bvv m w \<longleftrightarrow> n = m \<and> take_bit n v = take_bit m w"
  by (auto simp: bvv_def)

lemma bvv_take_bit [simp]: "bvv n (take_bit n v) = bvv n v"
  by (rule bvv_eqI) simp

lemma wf_BVV_eq_bvv: "wf_BVV a \<Longrightarrow> a = bvv (bits a) (bv_value a)"
  by (simp add: wf_BVV_def bvv_def take_bit_int_eq_self)

lemma wf_BVV_obtain:
  assumes "wf_BVV a"
  obtains v where "a = bvv (bits a) v" "0 \<le> v" "v < 2 ^ bits a" "bv_value a = v"
  using assms wf_BVV_eq_bvv [OF assms] by (auto simp: wf_BVV_def)

lemma BVV_init_int [simp]: "0 < n \<or> v = 0 \<Longrightarrow> BVV_init v (int n) = Inr (bvv n v)"
  by (auto simp: BVV_init_def bvv_def)

lemma BVV_init_empty [simp]: "BVV_init 0 0 = Inr (bvv 0 v)"
  by (simp add: BVV_init_def bvv_def py_shl_def)

lemma BVV_init_pos: "0 < n \<Longrightarrow> BVV_init v n = Inr (bvv (nat n) v)"
  using BVV_init_int [of "nat n" v] by simp

lemma BVV_init_eq_Inr:
  "BVV_init v n = Inr a \<longleftrightarrow> (0 < n \<or> n = 0 \<and> v = 0) \<and> a = bvv (nat n) v"
  by (auto simp: BVV_init_def bvv_def py_shl_nonneg)

lemma BVV_signed_bvv:
  assumes "0 < n"
  shows "BVV_signed (bvv n v) = Inr (signed_take_bit (n - 1) v)"
proof -
  define t where "t = take_bit n v"
  have t: "0 \<le> t" "t < 2 ^ n" by (simp_all add: t_def)
  have half: "(2 :: int) ^ n div 2 = 2 ^ (n - 1)"
    using assms by (simp add: half_power)
  have sgn: "signed_take_bit (n - 1) v = (if bit t (n - 1) then t - 2 ^ n else t)"
    using assms by (simp add: t_def signed_take_bit_eq_take_bit_minus bit_take_bit_iff)
  show ?thesis
  proof (cases "t < 2 ^ (n - 1)")
    case True
    then have "\<not> bit t (n - 1)" using assms t bit_top_iff [of n t] by simp
    with True sgn half show ?thesis
      by (simp add: BVV_signed_def flip: t_def)
  next
    case False
    then have "bit t (n - 1)" using assms t bit_top_iff [of n t] by simp
    moreover have "t mod 2 ^ (n - 1) = t - 2 ^ (n - 1)"
    proof -
      have "(t - 2 ^ (n - 1)) mod 2 ^ (n - 1) = t - 2 ^ (n - 1)"
        using False t assms half_power [of n] by (intro mod_pos_pos_trivial) linarith+
      then show ?thesis by simp
    qed
    ultimately show ?thesis
      using False assms sgn half half_power [of n]
      by (simp add: BVV_signed_def flip: t_def)
  qed
qed

section \<open>The operations on normal forms\<close>

lemma normalize_types_Bv [simp]: "normalize_types f (Bv a) (Bv b) = f a b"
  by (simp add: normalize_types_def)

lemma normalize_types_Num [simp]:
  "0 < bits a \<or> k = 0 \<Longrightarrow> normalize_types f (Bv a) (Num k) = f a (bvv (bits a) k)"
  by (simp add: normalize_types_def)

lemma normalize_types_self [simp]: "normalize_types f (Num k) y = Inl AttributeError"
  by (simp add: normalize_types_def)

lemma compare_bits_bvv: "0 < n \<Longrightarrow> compare_bits f (bvv n a) (bvv n b) = f (bvv n a) (bvv n b)"
  by (simp add: compare_bits_def)

lemma compare_bits_0_length_bvv:
  "compare_bits_0_length f (bvv n a) (bvv n b) = f (bvv n a) (bvv n b)"
  by (simp add: compare_bits_0_length_def)

lemma signed_cmp_bvv:
  "0 < n \<Longrightarrow> signed_cmp f (bvv n a) (bvv n b) =
     f (signed_take_bit (n - 1) a) (signed_take_bit (n - 1) b)"
  by (simp add: signed_cmp_def BVV_signed_bvv)

lemma bvv_add [simp]: "bvv n (take_bit n a + take_bit n b) = bvv n (a + b)"
  by (rule bvv_eqI) (simp add: take_bit_add)

lemma bvv_diff [simp]: "bvv n (take_bit n a - take_bit n b) = bvv n (a - b)"
  by (rule bvv_eqI) (simp add: take_bit_diff)

lemma bvv_mult [simp]: "bvv n (take_bit n a * take_bit n b) = bvv n (a * b)"
  by (rule bvv_eqI) (simp add: take_bit_mult)

lemma bvv_and [simp]: "bvv n (take_bit n a AND take_bit n b) = bvv n (a AND b)"
  by (rule bvv_eqI) simp

lemma bvv_or [simp]: "bvv n (take_bit n a OR take_bit n b) = bvv n (a OR b)"
  by (rule bvv_eqI) simp

lemma bvv_xor [simp]: "bvv n (take_bit n a XOR take_bit n b) = bvv n (a XOR b)"
  by (rule bvv_eqI) simp

lemma bvv_push_bit [simp]: "bvv n (push_bit k (take_bit n a)) = bvv n (push_bit k a)"
  by (rule bvv_eqI) (rule bit_eqI, auto simp: bit_simps)

lemmas bv_op_defs = BVV_add_def BVV_sub_def BVV_mul_def BVV_and_def BVV_or_def BVV_xor_def
  BVV_radd_def BVV_rsub_def BVV_rmul_def BVV_rand_def BVV_ror_def BVV_rxor_def

lemma BVV_ring_bvv [bv_simps]:
  assumes "0 < n"
  shows "BVV_add (Bv (bvv n a)) (Bv (bvv n b)) = Inr (bvv n (a + b))"
    and "BVV_sub (Bv (bvv n a)) (Bv (bvv n b)) = Inr (bvv n (a - b))"
    and "BVV_mul (Bv (bvv n a)) (Bv (bvv n b)) = Inr (bvv n (a * b))"
    and "BVV_rsub (Bv (bvv n a)) (Bv (bvv n b)) = Inr (bvv n (b - a))"
  using assms by (simp_all add: bv_op_defs compare_bits_bvv)

lemma BVV_bitwise_bvv [bv_simps]:
  assumes "0 < n"
  shows "BVV_and (Bv (bvv n a)) (Bv (bvv n b)) = Inr (bvv n (a AND b))"
    and "BVV_or (Bv (bvv n a)) (Bv (bvv n b)) = Inr (bvv n (a OR b))"
    and "BVV_xor (Bv (bvv n a)) (Bv (bvv n b)) = Inr (bvv n (a XOR b))"
  using assms by (simp_all add: bv_op_defs compare_bits_bvv flip: take_bit_and take_bit_or take_bit_xor)

lemma BVV_invert_bvv [bv_simps]: "BVV_invert (bvv n a) = Inr (bvv n (NOT a))"
proof -
  have "take_bit n (take_bit n a XOR (2 ^ n - 1)) = take_bit n (NOT a)"
    by (rule bit_eqI) (auto simp: bit_simps simp flip: mask_eq_exp_minus_1)
  then show ?thesis by (cases "n = 0") (simp_all add: BVV_invert_def bvv_eq_iff)
qed

lemma BVV_neg_bvv [bv_simps]: "BVV_neg (bvv n a) = Inr (bvv n (- a))"
  by (cases "n = 0") (simp_all add: BVV_neg_def bvv_eq_iff take_bit_minus flip: take_bit_eq_mod)

lemma BVV_div_bvv [bv_simps]:
  assumes "0 < n"
  shows "BVV_floordiv (Bv (bvv n a)) (Bv (bvv n b)) =
           (if take_bit n b = 0 then Inl ClaripyZeroDivisionError
            else Inr (bvv n (take_bit n a div take_bit n b)))"
    and "BVV_mod (Bv (bvv n a)) (Bv (bvv n b)) =
           (if take_bit n b = 0 then Inl ClaripyZeroDivisionError
            else Inr (bvv n (take_bit n a mod take_bit n b)))"
  using assms by (simp_all add: BVV_floordiv_def BVV_mod_def compare_bits_bvv)

lemma BVV_shift_bvv [bv_simps]:
  assumes "0 < n"
  shows "BVV_lshift (Bv (bvv n a)) (Bv (bvv n b)) = Inr (bvv n (push_bit (nat (take_bit n b)) a))"
    and "BVV_rshift (Bv (bvv n a)) (Bv (bvv n b)) =
           Inr (bvv n (drop_bit (nat (take_bit n b)) (signed_take_bit (n - 1) a)))"
    and "LShR (Bv (bvv n a)) (Bv (bvv n b)) =
           Inr (bvv n (drop_bit (nat (take_bit n b)) (take_bit n a)))"
  using assms BVV_signed_bvv [OF assms, of a]
  by (simp_all add: BVV_lshift_def BVV_rshift_def LShR_def compare_bits_bvv py_shl_nonneg py_shr_nonneg)

lemma BVV_cmp_bvv [bv_simps]:
  "BVV_eq (Bv (bvv n a)) (Bv (bvv n b)) = Inr (take_bit n a = take_bit n b)"
  "BVV_ne (Bv (bvv n a)) (Bv (bvv n b)) = Inr (take_bit n a \<noteq> take_bit n b)"
  "0 < n \<Longrightarrow> ULT (Bv (bvv n a)) (Bv (bvv n b)) = Inr (take_bit n a < take_bit n b)"
  "0 < n \<Longrightarrow> UGT (Bv (bvv n a)) (Bv (bvv n b)) = Inr (take_bit n a > take_bit n b)"
  "0 < n \<Longrightarrow> ULE (Bv (bvv n a)) (Bv (bvv n b)) = Inr (take_bit n a \<le> take_bit n b)"
  "0 < n \<Longrightarrow> UGE (Bv (bvv n a)) (Bv (bvv n b)) = Inr (take_bit n a \<ge> take_bit n b)"
  by (simp_all add: BVV_eq_def BVV_ne_def ULT_def UGT_def ULE_def UGE_def
      compare_bits_bvv compare_bits_0_length_bvv)

lemma BVV_scmp_bvv [bv_simps]:
  assumes "0 < n"
  shows "SLT (Bv (bvv n a)) (Bv (bvv n b)) =
           Inr (signed_take_bit (n - 1) a < signed_take_bit (n - 1) b)"
    and "SGT (Bv (bvv n a)) (Bv (bvv n b)) =
           Inr (signed_take_bit (n - 1) a > signed_take_bit (n - 1) b)"
    and "SLE (Bv (bvv n a)) (Bv (bvv n b)) =
           Inr (signed_take_bit (n - 1) a \<le> signed_take_bit (n - 1) b)"
    and "SGE (Bv (bvv n a)) (Bv (bvv n b)) =
           Inr (signed_take_bit (n - 1) a \<ge> signed_take_bit (n - 1) b)"
  using assms
  by (simp_all add: SLT_def SGT_def SLE_def SGE_def compare_bits_bvv signed_cmp_bvv)

lemma ZeroExt_bvv [bv_simps]:
  "0 < int n + k \<or> n = 0 \<and> k = 0 \<Longrightarrow> ZeroExt k (bvv n a) = Inr (bvv (nat (int n + k)) (take_bit n a))"
  by (auto simp: ZeroExt_def BVV_init_pos)

lemma SignExt_bvv [bv_simps]:
  "0 < n \<Longrightarrow> 0 < int n + k \<Longrightarrow>
     SignExt k (bvv n a) = Inr (bvv (nat (int n + k)) (signed_take_bit (n - 1) a))"
  using BVV_signed_bvv [of n a] by (simp add: SignExt_def BVV_init_pos)

lemma Extract_bvv [bv_simps]:
  assumes "0 \<le> t" and "t \<le> f"
  shows "Extract f t (bvv n a) = Inr (bvv (nat (f + 1 - t)) (drop_bit (nat t) (take_bit n a)))"
proof -
  have "nat (f + 2 - t) = Suc (nat (f + 1 - t))" using assms by simp
  then have "bvv (nat (f + 1 - t)) (take_bit (nat (f + 2 - t)) w) = bvv (nat (f + 1 - t)) w" for w
    by (intro bvv_eqI) (simp del: Suc_nat_eq_nat_zadd1 take_bit_Suc)
  then show ?thesis
    using assms by (simp add: Extract_def py_shr_nonneg py_shl_nonneg BVV_init_pos)
qed

section \<open>Signed division rounds towards zero\<close>

lemma trunc_quot_neg:
  fixes a b :: int
  assumes "\<not> a * b > 0" and "b \<noteq> 0"
  shows "(a + (- a mod b)) div b = - ((- a) div b)"
proof -
  have "a + (- a mod b) = b * - ((- a) div b)"
    using mult_div_mod_eq [of b "- a"] unfolding mult_minus_right by linarith
  then show ?thesis using assms(2) by (metis nonzero_mult_div_cancel_left)
qed

lemma trunc_quot_eq_sdiv: "b \<noteq> 0 \<Longrightarrow> trunc_quot a b = a sdiv b"
proof -
  assume b: "b \<noteq> 0"
  show ?thesis
  proof (cases "a * b > 0")
    case True
    then have "(a > 0 \<and> b > 0) \<or> (a < 0 \<and> b < 0)" by (simp add: zero_less_mult_iff)
    with True show ?thesis
      by (auto simp: trunc_quot_def signed_divide_int_def div_minus_minus)
  next
    case False
    then have "a = 0 \<or> (a > 0 \<and> b < 0) \<or> (a < 0 \<and> b > 0)"
      using b by (auto simp: zero_less_mult_iff)
    with False b show ?thesis
      by (auto simp: trunc_quot_def trunc_quot_neg signed_divide_int_def div_minus_right)
  qed
qed

lemma BVV_sdiv_bvv [bv_simps]:
  assumes "0 < n"
  shows "SDiv (Bv (bvv n a)) (Bv (bvv n b)) =
           (if signed_take_bit (n - 1) b = 0 then Inl ClaripyZeroDivisionError
            else Inr (bvv n (signed_take_bit (n - 1) a sdiv signed_take_bit (n - 1) b)))"
    and "SMod (Bv (bvv n a)) (Bv (bvv n b)) =
           (if signed_take_bit (n - 1) b = 0 then Inl ClaripyZeroDivisionError
            else Inr (bvv n (signed_take_bit (n - 1) a smod signed_take_bit (n - 1) b)))"
  using assms
  by (simp_all add: SDiv_def SMod_def compare_bits_bvv signed_cmp_bvv trunc_quot_eq_sdiv
      minus_sdiv_mult_eq_smod)

section \<open>Concatenation\<close>

text \<open>The value of a list of vectors, most significant first, as the loop accumulates it.\<close>

fun concat_value :: "int \<Rightarrow> BVV list \<Rightarrow> int" where
  "concat_value acc [] = acc"
| "concat_value acc (a # as) = concat_value (push_bit (bits a) acc OR bv_value a) as"

lemma Concat_loop_eq: "Concat_loop v n as = BVV_init (concat_value v as) (int (n + sum_list (map bits as)))"
  by (induction v n as rule: Concat_loop.induct) (simp_all add: add.assoc)

lemma Concat_init: "Concat as = BVV_init (concat_value 0 as) (int (sum_list (map bits as)))"
  by (simp add: Concat_def Concat_loop_eq)

lemma Concat_eq:
  "0 < sum_list (map bits as) \<Longrightarrow> Concat as = Inr (bvv (sum_list (map bits as)) (concat_value 0 as))"
  by (simp only: Concat_init BVV_init_int simp_thms)

lemma Concat_pair [bv_simps]:
  "Concat [bvv n a, bvv m b] = Inr (bvv (n + m) (push_bit m a OR take_bit m b))"
proof -
  have "take_bit (n + m) (push_bit m (take_bit n a) OR take_bit m b) =
        take_bit (n + m) (push_bit m a OR take_bit m b)"
    by (rule bit_eqI) (auto simp: bit_simps)
  then show ?thesis
    by (cases "n + m = 0") (simp_all add: Concat_eq bvv_eq_iff, simp add: Concat_init BVV_init_empty [of 0])
qed

section \<open>Byte reversal\<close>

lemma bit_reverse_loop:
  "bit (reverse_loop n v out is) j \<longleftrightarrow>
     bit out j \<or> (\<exists>i\<in>set is. n - 8 - i \<le> j \<and> j < n - 8 - i + 8 \<and> bit v (j - (n - 8 - i) + i))"
proof (induction n v out "is" rule: reverse_loop.induct)
  case (2 n v out i "is")
  have byte: "(0xFF :: int) = mask 8" by (simp add: mask_eq_exp_minus_1)
  have "bit (push_bit (n - 8 - i) (drop_bit i (v AND push_bit i 0xFF))) j \<longleftrightarrow>
        n - 8 - i \<le> j \<and> j < n - 8 - i + 8 \<and> bit v (j - (n - 8 - i) + i)"
    unfolding byte by (auto simp: bit_simps add.commute)
  with 2 show ?case by (auto simp: bit_or_iff)
qed simp

lemma byte_down:
  "push_bit (m + i) (drop_bit i (v AND push_bit i 0xFF)) = push_bit m (v AND push_bit i (0xFF :: int))"
  by (rule bit_eqI) (auto simp: bit_simps)

lemma byte_up:
  "push_bit m (drop_bit (m + k) (v AND push_bit (m + k) 0xFF)) =
   drop_bit k (v AND push_bit (m + k) (0xFF :: int))"
  by (rule bit_eqI) (auto simp: bit_simps add.commute add.left_commute)

section \<open>Properties\<close>

text \<open>
  A value survives pickling: \<open>__setstate__\<close> on what \<open>__getstate__\<close> returned gives the value
  back, for each value in range for its width.
\<close>

lemma state_roundtrip:
  assumes "wf_BVV a"
  shows "BVV_setstate (BVV_getstate a) = a"
  using assms by (cases a) (simp add: BVV_setstate_def BVV_getstate_def wf_BVV_def bv_mod_def take_bit_int_eq_self)

end
