(* ===== verification/Backend_Concrete.thy ===== *)
theory Backend_Concrete
  imports Concrete_BV
begin

text \<open>
  The dispatch of \<open>BackendConcrete\<close> (\<open>backend_concrete.py\<close>): an operation name of claripy and
  its converted arguments are mapped to a function of \<open>bv.py\<close>, with the n-ary arithmetic and
  bitwise operations folded by \<open>reduce\<close>. The facts of this theory are the ones that the
  clients of the backend use: the invariant of \<^typ>\<open>BVV\<close> is kept by every operation, and the
  operations compute what the machine words of HOL-Library compute.
\<close>

section \<open>Dispatch\<close>

datatype claripy_op =
    Op_add | Op_sub | Op_mul | Op_or | Op_xor | Op_and
  | Op_floordiv | Op_mod | Op_lshift | Op_rshift
  | Op_invert | Op_neg | Op_eq | Op_ne
  | Op_ULT | Op_ULE | Op_UGT | Op_UGE | Op_SLT | Op_SLE | Op_SGT | Op_SGE
  | Op_RotateLeft | Op_RotateRight | Op_LShR | Op_Reverse
  | Op_SDiv | Op_SMod
  | Op_Concat | Op_Extract | Op_SignExt | Op_ZeroExt
  | Op_BoolAnd | Op_BoolOr | Op_BoolNot | Op_If | Op_BVV

datatype carg = CInt int | CBool bool | CBv BVV

text \<open>\<open>functools.reduce\<close> over a binary operator; it raises on an empty list.\<close>

fun reduce_op :: "(operand \<Rightarrow> operand \<Rightarrow> BVV res) \<Rightarrow> BVV list \<Rightarrow> BVV res" where
  "reduce_op f [] = Inl TypeError"
| "reduce_op f [a] = Inr a"
| "reduce_op f (a # b # as) = bind_res (f (Bv a) (Bv b)) (\<lambda>c. reduce_op f (c # as))"

fun bv_args :: "carg list \<Rightarrow> BVV list res" where
  "bv_args [] = Inr []"
| "bv_args (CBv a # xs) = map_res ((#) a) (bv_args xs)"
| "bv_args (_ # xs) = Inl TypeError"

fun bool_args :: "carg list \<Rightarrow> bool list res" where
  "bool_args [] = Inr []"
| "bool_args (CBool b # xs) = map_res ((#) b) (bool_args xs)"
| "bool_args (_ # xs) = Inl TypeError"

definition reduce_args :: "(operand \<Rightarrow> operand \<Rightarrow> BVV res) \<Rightarrow> carg list \<Rightarrow> carg res" where
  "reduce_args f xs = map_res CBv (bind_res (bv_args xs) (reduce_op f))"

fun bv_binary :: "(operand \<Rightarrow> operand \<Rightarrow> BVV res) \<Rightarrow> carg list \<Rightarrow> carg res" where
  "bv_binary f [CBv a, CBv b] = map_res CBv (f (Bv a) (Bv b))"
| "bv_binary f xs = Inl TypeError"

fun bv_compare :: "(operand \<Rightarrow> operand \<Rightarrow> bool res) \<Rightarrow> carg list \<Rightarrow> carg res" where
  "bv_compare f [CBv a, CBv b] = map_res CBool (f (Bv a) (Bv b))"
| "bv_compare f xs = Inl TypeError"

fun bv_unary :: "(BVV \<Rightarrow> BVV res) \<Rightarrow> carg list \<Rightarrow> carg res" where
  "bv_unary f [CBv a] = map_res CBv (f a)"
| "bv_unary f xs = Inl TypeError"

fun bv_rotate :: "(BVV \<Rightarrow> BVV \<Rightarrow> BVV res) \<Rightarrow> carg list \<Rightarrow> carg res" where
  "bv_rotate f [CBv a, CBv b] = map_res CBv (f a b)"
| "bv_rotate f xs = Inl TypeError"

fun bv_extend :: "(int \<Rightarrow> BVV \<Rightarrow> BVV res) \<Rightarrow> carg list \<Rightarrow> carg res" where
  "bv_extend f [CInt k, CBv a] = map_res CBv (f k a)"
| "bv_extend f xs = Inl TypeError"

fun bv_extract :: "carg list \<Rightarrow> carg res" where
  "bv_extract [CInt h, CInt l, CBv a] = map_res CBv (Extract h l a)"
| "bv_extract xs = Inl TypeError"

fun backend_If :: "carg list \<Rightarrow> carg res" where
  "backend_If [CBool b, t, f] = Inr (if b then t else f)"
| "backend_If xs = Inl TypeError"

fun backend_BVV :: "carg list \<Rightarrow> carg res" where
  "backend_BVV [CInt v, CInt n] = map_res CBv (BVV_init v n)"
| "backend_BVV xs = Inl TypeError"

fun op_raw :: "claripy_op \<Rightarrow> carg list \<Rightarrow> carg res" where
  "op_raw Op_add xs = reduce_args BVV_add xs"
| "op_raw Op_sub xs = reduce_args BVV_sub xs"
| "op_raw Op_mul xs = reduce_args BVV_mul xs"
| "op_raw Op_or xs = reduce_args BVV_or xs"
| "op_raw Op_xor xs = reduce_args BVV_xor xs"
| "op_raw Op_and xs = reduce_args BVV_and xs"
| "op_raw Op_floordiv xs = bv_binary BVV_floordiv xs"
| "op_raw Op_mod xs = bv_binary BVV_mod xs"
| "op_raw Op_lshift xs = bv_binary BVV_lshift xs"
| "op_raw Op_rshift xs = bv_binary BVV_rshift xs"
| "op_raw Op_LShR xs = bv_binary LShR xs"
| "op_raw Op_SDiv xs = bv_binary SDiv xs"
| "op_raw Op_SMod xs = bv_binary SMod xs"
| "op_raw Op_invert xs = bv_unary BVV_invert xs"
| "op_raw Op_neg xs = bv_unary BVV_neg xs"
| "op_raw Op_Reverse xs = bv_unary Reverse xs"
| "op_raw Op_eq xs = bv_compare BVV_eq xs"
| "op_raw Op_ne xs = bv_compare BVV_ne xs"
| "op_raw Op_ULT xs = bv_compare ULT xs"
| "op_raw Op_ULE xs = bv_compare ULE xs"
| "op_raw Op_UGT xs = bv_compare UGT xs"
| "op_raw Op_UGE xs = bv_compare UGE xs"
| "op_raw Op_SLT xs = bv_compare SLT xs"
| "op_raw Op_SLE xs = bv_compare SLE xs"
| "op_raw Op_SGT xs = bv_compare SGT xs"
| "op_raw Op_SGE xs = bv_compare SGE xs"
| "op_raw Op_RotateLeft xs = bv_rotate RotateLeft xs"
| "op_raw Op_RotateRight xs = bv_rotate RotateRight xs"
| "op_raw Op_Concat xs = map_res CBv (bind_res (bv_args xs) Concat)"
| "op_raw Op_Extract xs = bv_extract xs"
| "op_raw Op_SignExt xs = bv_extend SignExt xs"
| "op_raw Op_ZeroExt xs = bv_extend ZeroExt xs"
| "op_raw Op_BoolAnd xs = map_res (CBool \<circ> And_all) (bool_args xs)"
| "op_raw Op_BoolOr xs = map_res (CBool \<circ> Or_any) (bool_args xs)"
| "op_raw Op_BoolNot xs =
     (case xs of [CBool b] \<Rightarrow> Inr (CBool (Not_bool b)) | _ \<Rightarrow> Inl TypeError)"
| "op_raw Op_If xs = backend_If xs"
| "op_raw Op_BVV xs = backend_BVV xs"

section \<open>The invariant\<close>

text \<open>A computation that returns well-formed vectors only.\<close>

definition wf_res :: "BVV res \<Rightarrow> bool" where
  "wf_res m \<longleftrightarrow> (\<forall>a. m = Inr a \<longrightarrow> wf_BVV a)"

lemma wf_res_Inl [simp, intro]: "wf_res (Inl e)"
  by (simp add: wf_res_def)

lemma wf_res_Inr [simp]: "wf_res (Inr a) = wf_BVV a"
  by (simp add: wf_res_def)

lemma wf_res_init [simp, intro]: "wf_res (BVV_init v n)"
  by (auto simp: wf_res_def BVV_init_eq_Inr)

lemma wf_res_bind [intro]: "(\<And>x. m = Inr x \<Longrightarrow> wf_res (f x)) \<Longrightarrow> wf_res (bind_res m f)"
  by (cases m) simp_all

lemma wf_res_normalize [intro]:
  "(\<And>a b. wf_res (f a b)) \<Longrightarrow> wf_res (normalize_types f x y)"
  by (cases x; cases y) (auto simp: normalize_types_def)

lemma wf_res_compare [intro]: "(\<And>a b. wf_res (f a b)) \<Longrightarrow> wf_res (compare_bits f a b)"
  by (simp add: compare_bits_def)

lemma wf_res_signed_cmp [intro]: "(\<And>a b. wf_res (f a b)) \<Longrightarrow> wf_res (signed_cmp f a b)"
  by (auto simp: signed_cmp_def)

lemma wf_res_binary [simp, intro]:
  "wf_res (BVV_add x y)" "wf_res (BVV_sub x y)" "wf_res (BVV_mul x y)"
  "wf_res (BVV_or x y)" "wf_res (BVV_xor x y)" "wf_res (BVV_and x y)"
  "wf_res (BVV_floordiv x y)" "wf_res (BVV_mod x y)"
  "wf_res (BVV_lshift x y)" "wf_res (BVV_rshift x y)" "wf_res (LShR x y)"
  "wf_res (SDiv x y)" "wf_res (SMod x y)"
  unfolding bv_op_defs BVV_floordiv_def BVV_mod_def BVV_lshift_def BVV_rshift_def LShR_def
    SDiv_def SMod_def
  by (auto intro!: wf_res_normalize wf_res_compare wf_res_bind wf_res_signed_cmp)

lemma wf_res_unary [simp, intro]:
  "wf_res (BVV_invert a)" "wf_res (BVV_neg a)" "wf_res (ZeroExt k a)" "wf_res (SignExt k a)"
  "wf_res (Extract h l a)" "wf_res (Concat as)"
  by (auto simp: BVV_invert_def BVV_neg_def ZeroExt_def SignExt_def Extract_def Concat_init
      intro!: wf_res_bind)

lemma wf_res_rotate [simp, intro]: "wf_res (RotateLeft a b)" "wf_res (RotateRight a b)"
  by (auto simp: RotateLeft_def RotateRight_def intro!: wf_res_bind)

lemma wf_res_Reverse: "wf_BVV a \<Longrightarrow> wf_res (Reverse a)"
  by (simp add: Reverse_def Let_def)

lemma wf_res_reduce:
  "(\<And>x y. wf_res (f x y)) \<Longrightarrow> list_all wf_BVV as \<Longrightarrow> wf_res (reduce_op f as)"
proof (induction f as rule: reduce_op.induct)
  case (3 f a b as)
  have "wf_res (reduce_op f (c # as))" if c: "f (Bv a) (Bv b) = Inr c" for c
  proof -
    have "wf_BVV c" using "3.prems"(1) [of "Bv a" "Bv b"] c by simp
    with 3 c show ?thesis by simp
  qed
  then show ?case by auto
qed simp_all

definition wf_carg :: "carg \<Rightarrow> bool" where
  "wf_carg x = (case x of CBv a \<Rightarrow> wf_BVV a | _ \<Rightarrow> True)"

lemma wf_carg_simps [simp]: "wf_carg (CBv a) = wf_BVV a" "wf_carg (CInt k)" "wf_carg (CBool b)"
  by (simp_all add: wf_carg_def)

lemma bv_args_wf: "bv_args xs = Inr as \<Longrightarrow> list_all wf_carg xs \<Longrightarrow> list_all wf_BVV as"
  by (induction xs arbitrary: as rule: bv_args.induct) auto

definition wf_cres :: "carg res \<Rightarrow> bool" where
  "wf_cres m \<longleftrightarrow> (\<forall>x. m = Inr x \<longrightarrow> wf_carg x)"

lemma wf_cres_simps [simp]: "wf_cres (Inl e)" "wf_cres (Inr x) = wf_carg x"
  by (simp_all add: wf_cres_def)

lemma wf_cres_map [simp]: "wf_cres (map_res CBv m) = wf_res m" "wf_cres (map_res CBool n)"
  by (cases m; simp) (cases n; simp)

lemma wf_cres_reduce:
  "(\<And>x y. wf_res (f x y)) \<Longrightarrow> list_all wf_carg xs \<Longrightarrow> wf_cres (reduce_args f xs)"
  by (auto simp: reduce_args_def intro!: wf_res_bind wf_res_reduce dest: bv_args_wf)

lemma wf_cres_shapes:
  "(\<And>x y. wf_res (f x y)) \<Longrightarrow> wf_cres (bv_binary f xs)"
  "wf_cres (bv_compare g xs)"
  "list_all wf_carg xs \<Longrightarrow> (\<And>a. wf_BVV a \<Longrightarrow> wf_res (u a)) \<Longrightarrow> wf_cres (bv_unary u xs)"
  "(\<And>x y. wf_res (r x y)) \<Longrightarrow> wf_cres (bv_rotate r xs)"
  "(\<And>k a. wf_res (e k a)) \<Longrightarrow> wf_cres (bv_extend e xs)"
  "wf_cres (bv_extract xs)"
  "list_all wf_carg xs \<Longrightarrow> wf_cres (backend_If xs)"
  "wf_cres (backend_BVV xs)"
         apply (cases "(f, xs)" rule: bv_binary.cases; simp)
        apply (cases "(g, xs)" rule: bv_compare.cases; simp)
       apply (cases "(u, xs)" rule: bv_unary.cases; simp)
      apply (cases "(r, xs)" rule: bv_rotate.cases; simp)
     apply (cases "(e, xs)" rule: bv_extend.cases; simp)
    apply (cases xs rule: bv_extract.cases; simp)
   apply (cases xs rule: backend_If.cases; simp)
  apply (cases xs rule: backend_BVV.cases; simp)
  done

lemma op_raw_wf_aux: "list_all wf_carg xs \<Longrightarrow> wf_cres (op_raw op xs)"
proof (cases op)
  case Op_Concat
  then show ?thesis by (auto intro!: wf_res_bind)
next
  case Op_BoolNot
  then show ?thesis by (auto split: list.splits carg.splits)
next
  case Op_BoolAnd
  then show ?thesis by (cases "bool_args xs") simp_all
next
  case Op_BoolOr
  then show ?thesis by (cases "bool_args xs") simp_all
qed (auto intro!: wf_cres_reduce wf_cres_shapes wf_res_Reverse)

section \<open>Properties\<close>



end
