(* ===== verification/Backend_Word.thy ===== *)
theory Backend_Word
  imports Backend_Concrete
begin

text \<open>
  The reference semantics of the concrete backend: a machine word of HOL-Library and the
  \<^typ>\<open>BVV\<close> that represents it. Each operation of \<open>bv.py\<close> refines the word operation of the
  same meaning, whatever the width; rotations and the byte reversal are characterised bit by
  bit, and the unrolled byte reversals for 16, 32 and 64 bits agree with the loop.
\<close>

section \<open>Words as bit-vectors\<close>

definition bv_of_word :: "'a::len word \<Rightarrow> BVV" where
  "bv_of_word w = \<lparr>bits = LENGTH('a), bv_value = uint w\<rparr>"

lemma bv_of_word_bvv: "bv_of_word (w :: 'a::len word) = bvv LENGTH('a) (uint w)"
  by (simp add: bv_of_word_def bvv_def take_bit_int_eq_self)

lemma bv_of_word_of_int: "bvv LENGTH('a) k = bv_of_word (word_of_int k :: 'a::len word)"
  by (simp add: bv_of_word_def bvv_def uint_word_of_int take_bit_eq_mod)

lemma bv_of_word_eqI:
  "take_bit LENGTH('a) k = uint w \<Longrightarrow> bvv LENGTH('a) k = bv_of_word (w :: 'a::len word)"
  by (simp add: bv_of_word_def bvv_def)

lemma wf_bv_of_word [simp]: "wf_BVV (bv_of_word w)"
  by (simp add: bv_of_word_bvv)

lemma take_bit_uint [simp]: "take_bit LENGTH('a) (uint (w :: 'a::len word)) = uint w"
  by (simp add: take_bit_int_eq_self)

lemma signed_take_bit_uint: "signed_take_bit (LENGTH('a) - 1) (uint (w :: 'a::len word)) = sint w"
  by (simp add: sint_uint)

lemmas word_refine_simps = bv_of_word_bvv bv_simps bvv_eq_iff

lemma word_add: "BVV_add (Bv (bv_of_word a)) (Bv (bv_of_word b)) = Inr (bv_of_word (a + b))"
  for a b :: "'a::len word"
  by (simp add: word_refine_simps) (simp add: uint_word_ariths take_bit_eq_mod)

lemma word_sub: "BVV_sub (Bv (bv_of_word a)) (Bv (bv_of_word b)) = Inr (bv_of_word (a - b))"
  for a b :: "'a::len word"
  by (simp add: word_refine_simps) (simp add: uint_word_ariths take_bit_eq_mod)

lemma word_mul: "BVV_mul (Bv (bv_of_word a)) (Bv (bv_of_word b)) = Inr (bv_of_word (a * b))"
  for a b :: "'a::len word"
  by (simp add: word_refine_simps) (simp add: uint_word_ariths take_bit_eq_mod)

lemma word_udiv:
  "b \<noteq> 0 \<Longrightarrow> BVV_floordiv (Bv (bv_of_word a)) (Bv (bv_of_word b)) = Inr (bv_of_word (a div b))"
  for a b :: "'a::len word"
  by (simp add: word_refine_simps uint_div unsigned_eq_0_iff)

lemma word_umod:
  "b \<noteq> 0 \<Longrightarrow> BVV_mod (Bv (bv_of_word a)) (Bv (bv_of_word b)) = Inr (bv_of_word (a mod b))"
  for a b :: "'a::len word"
  by (simp add: word_refine_simps uint_mod unsigned_eq_0_iff)

lemma word_bitwise_ops:
  fixes a b :: "'a::len word"
  shows "BVV_and (Bv (bv_of_word a)) (Bv (bv_of_word b)) = Inr (bv_of_word (a AND b))"
    and "BVV_or (Bv (bv_of_word a)) (Bv (bv_of_word b)) = Inr (bv_of_word (a OR b))"
    and "BVV_xor (Bv (bv_of_word a)) (Bv (bv_of_word b)) = Inr (bv_of_word (a XOR b))"
    and "BVV_invert (bv_of_word a) = Inr (bv_of_word (NOT a))"
  by (simp_all add: word_refine_simps unsigned_and_eq unsigned_or_eq unsigned_xor_eq
      unsigned_not_eq)

lemma word_neg: "BVV_neg (bv_of_word a) = Inr (bv_of_word (- a))"
  for a :: "'a::len word"
  by (simp add: word_refine_simps) (simp add: uint_word_ariths take_bit_eq_mod)

lemma word_shifts:
  fixes a k :: "'a::len word"
  shows "BVV_lshift (Bv (bv_of_word a)) (Bv (bv_of_word k)) = Inr (bv_of_word (push_bit (unat k) a))"
    and "LShR (Bv (bv_of_word a)) (Bv (bv_of_word k)) = Inr (bv_of_word (drop_bit (unat k) a))"
    and "BVV_rshift (Bv (bv_of_word a)) (Bv (bv_of_word k)) =
           Inr (bv_of_word (signed_drop_bit (unat k) a))"
proof -
  have "take_bit LENGTH('a) (drop_bit (unat k) (sint a)) = uint (signed_drop_bit (unat k) a)"
    by (metis sint_signed_drop_bit_eq uint_sint)
  then show "BVV_rshift (Bv (bv_of_word a)) (Bv (bv_of_word k)) =
      Inr (bv_of_word (signed_drop_bit (unat k) a))"
    using signed_take_bit_uint [of a] by (simp add: word_refine_simps)
qed (simp_all add: word_refine_simps unsigned_push_bit_eq unsigned_drop_bit_eq)

lemma word_comparisons:
  fixes a b :: "'a::len word"
  shows "BVV_eq (Bv (bv_of_word a)) (Bv (bv_of_word b)) = Inr (a = b)"
    and "ULT (Bv (bv_of_word a)) (Bv (bv_of_word b)) = Inr (a < b)"
    and "ULE (Bv (bv_of_word a)) (Bv (bv_of_word b)) = Inr (a \<le> b)"
    and "SLT (Bv (bv_of_word a)) (Bv (bv_of_word b)) = Inr (a <s b)"
    and "SLE (Bv (bv_of_word a)) (Bv (bv_of_word b)) = Inr (a \<le>s b)"
  using signed_take_bit_uint [of a] signed_take_bit_uint [of b]
  by (simp_all add: word_refine_simps word_uint_eq_iff word_less_def word_le_def word_sless_alt word_sle_eq)

lemma word_signed_division:
  fixes a b :: "'a::len word"
  assumes "b \<noteq> 0"
  shows "SDiv (Bv (bv_of_word a)) (Bv (bv_of_word b)) = Inr (bv_of_word (word_of_int (sint a sdiv sint b) :: 'a word))"
    and "SMod (Bv (bv_of_word a)) (Bv (bv_of_word b)) = Inr (bv_of_word (word_of_int (sint a smod sint b) :: 'a word))"
  using assms signed_take_bit_uint [of a] signed_take_bit_uint [of b]
  by (simp_all add: word_refine_simps uint_word_of_int_eq signed_eq_0_iff)

section \<open>Rotations\<close>

lemma nat_lt_pow: "int n < 2 ^ n"
  by (metis less_exp of_nat_less_iff of_nat_numeral of_nat_power)

lemma take_bit_self_width [simp]: "take_bit n (int n) = int n"
  by (simp add: take_bit_int_eq_self nat_lt_pow)

definition rotl_value :: "nat \<Rightarrow> nat \<Rightarrow> int \<Rightarrow> int" where
  "rotl_value n k a = push_bit k a OR drop_bit (n - k) (take_bit n a)"

lemma bit_rotl_value:
  assumes "k < n" and "i < n"
  shows "bit (rotl_value n k a) i \<longleftrightarrow> bit a ((i + (n - k)) mod n)"
proof (cases "k \<le> i")
  case True
  have "(i + (n - k)) mod n = ((i - k) + n) mod n"
    using True assms by (intro arg_cong [where f = "\<lambda>x. x mod n"]) simp
  also have "\<dots> = i - k" using assms by simp
  finally have h: "(i + (n - k)) mod n = i - k" .
  show ?thesis
    unfolding h rotl_value_def bit_or_iff bit_push_bit_iff_int bit_drop_bit_eq o_def bit_take_bit_iff
    using True assms by auto
next
  case False
  then have h: "(i + (n - k)) mod n = n - k + i" using assms by simp
  show ?thesis
    unfolding h rotl_value_def bit_or_iff bit_push_bit_iff_int bit_drop_bit_eq o_def bit_take_bit_iff
    using False assms by auto
qed

text \<open>A rotation to the right by \<open>k\<close> is one to the left by \<open>n - k\<close>, up to the width.\<close>

lemma bvv_rotl_0: "bvv n (rotl_value n 0 a) = bvv n a"
proof -
  have "drop_bit n (take_bit n a) = 0"
    by (rule bit_eqI) (simp add: bit_simps)
  then show ?thesis by (simp add: rotl_value_def)
qed

lemma take_bit_le_width:
  "m \<le> n \<Longrightarrow> nat (take_bit n (int m)) = m"
  "m \<le> n \<Longrightarrow> nat (take_bit n (int n - int m)) = n - m"
proof -
  have small: "take_bit n (int j) = int j" if "j \<le> n" for j
    using that less_exp [of n] by (intro take_bit_int_eq_self) (auto intro: le_less_trans)
  show "m \<le> n \<Longrightarrow> nat (take_bit n (int m)) = m" by (simp add: small)
  show "nat (take_bit n (int n - int m)) = n - m" if "m \<le> n"
    using small [of "n - m"] that by (simp add: of_nat_diff)
qed

text \<open>The two amounts that a rotation shifts by.\<close>

lemma rotate_amounts:
  assumes "0 < n" and "K = nat (take_bit n k) mod n"
  shows "BVV_mod (Bv (bvv n k)) (Num (int n)) = Inr (bvv n (int K))"
    and "BVV_rsub (Bv (bvv n (int K))) (Num (int n)) = Inr (bvv n (int n - int K))"
    and "K < n"
proof -
  have "take_bit n k mod int n = int K"
    using assms by (simp add: nat_mod_distrib zmod_int)
  then show "BVV_mod (Bv (bvv n k)) (Num (int n)) = Inr (bvv n (int K))"
    using assms(1) by (simp add: BVV_mod_def compare_bits_bvv)
  show "BVV_rsub (Bv (bvv n (int K))) (Num (int n)) = Inr (bvv n (int n - int K))"
    using assms(1) by (simp add: bv_op_defs compare_bits_bvv bvv_eq_iff take_bit_diff)
       (metis take_bit_diff take_bit_take_bit take_bit_self_width)
  show "K < n" using assms by simp
qed

lemma RotateLeft_bvv [bv_simps]:
  assumes "0 < n"
  shows "RotateLeft (bvv n a) (bvv n k) =
           Inr (bvv n (rotl_value n (nat (take_bit n k) mod n) a))"
proof -
  define K where "K = nat (take_bit n k) mod n"
  note amounts = rotate_amounts [OF assms K_def]
  then show ?thesis
    using assms
    by (simp add: RotateLeft_def bv_simps take_bit_le_width rotl_value_def flip: K_def)
qed

lemma RotateRight_bvv [bv_simps]:
  assumes "0 < n"
  shows "RotateRight (bvv n a) (bvv n k) =
           Inr (bvv n (rotl_value n (n - nat (take_bit n k) mod n) a))"
proof -
  define K where "K = nat (take_bit n k) mod n"
  note amounts = rotate_amounts [OF assms K_def]
  then show ?thesis
    using assms
    by (simp add: RotateRight_def bv_simps take_bit_le_width rotl_value_def or.commute flip: K_def)
qed

lemma word_rotations:
  fixes a k :: "'a::len word"
  shows "RotateLeft (bv_of_word a) (bv_of_word k) = Inr (bv_of_word (word_rotl (unat k) a))"
    and "RotateRight (bv_of_word a) (bv_of_word k) = Inr (bv_of_word (word_rotr (unat k) a))"
proof -
  let ?n = "LENGTH('a)" and ?K = "unat k mod LENGTH('a)"
  have K: "?K < ?n" by simp
  have rotl: "take_bit ?n (rotl_value ?n j (uint a)) = uint (word_rotl j a)" if "j < ?n" for j
    by (rule bit_eqI) (use that in \<open>auto simp: bit_take_bit_iff bit_rotl_value bit_simps\<close>)
  have "word_rotl (unat k) a = word_rotl ?K a"
    by (rule bit_word_eqI) (simp add: bit_word_rotl_iff)
  with rotl [OF K] show "RotateLeft (bv_of_word a) (bv_of_word k) = Inr (bv_of_word (word_rotl (unat k) a))"
    by (simp add: word_refine_simps RotateLeft_bvv RotateRight_bvv)
  have "word_rotr (unat k) a = (if ?K = 0 then a else word_rotl (?n - ?K) a)"
    by (rule bit_word_eqI) (auto simp: bit_simps mod_add_right_eq [symmetric, of _ "unat k"])
  moreover have "bvv ?n (rotl_value ?n (?n - 0) (uint a)) = bvv ?n (uint a)"
    by (rule bvv_eqI) (rule bit_eqI, auto simp: rotl_value_def bit_simps)
  ultimately show "RotateRight (bv_of_word a) (bv_of_word k) = Inr (bv_of_word (word_rotr (unat k) a))"
    using rotl [of "?n - ?K"] by (auto simp: word_refine_simps RotateLeft_bvv RotateRight_bvv)
qed

section \<open>Byte reversal\<close>

definition byte_offsets :: "nat \<Rightarrow> nat list" where
  "byte_offsets n = map (\<lambda>j. 8 * j) [0..<n div 8]"

lemma byte_left:
  assumes "n - 8 - i = j + i" and "m = push_bit i 0xFF"
  shows "push_bit (n - 8 - i) (drop_bit i (v AND push_bit i 0xFF)) = push_bit j (v AND (m :: int))"
  unfolding assms(1) assms(2) by (rule byte_down)

lemma byte_right:
  assumes "i = (n - 8 - i) + d" and "m = push_bit i 0xFF"
  shows "push_bit (n - 8 - i) (drop_bit i (v AND push_bit i 0xFF)) = drop_bit d (v AND (m :: int))"
  using byte_up [of "n - 8 - i" d v] assms by simp

lemma byte_offsets_simps:
  "byte_offsets 16 = [0, 8]"
  "byte_offsets 32 = [0, 8, 16, 24]"
  "byte_offsets 64 = [0, 8, 16, 24, 32, 40, 48, 56]"
  by (simp_all add: byte_offsets_def upt_rec)

lemma reverse_16_loop: "reverse_loop 16 v 0 (byte_offsets 16) = reverse_16 v"
proof -
  have "push_bit (16 - 8 - 0) (drop_bit 0 (v AND push_bit 0 0xFF)) = push_bit 8 (v AND 0xFF)"
    and "push_bit (16 - 8 - 8) (drop_bit 8 (v AND push_bit 8 0xFF)) = drop_bit 8 (v AND 0xFF00)"
    by (rule byte_left byte_right; simp)+
  then show ?thesis
    by (simp only: byte_offsets_simps reverse_loop.simps reverse_16_def or.left_neutral or.assoc)
qed

lemma reverse_32_loop: "reverse_loop 32 v 0 (byte_offsets 32) = reverse_32 v"
proof -
  have "push_bit (32 - 8 - 0) (drop_bit 0 (v AND push_bit 0 0xFF)) = push_bit 24 (v AND 0xFF)"
    and "push_bit (32 - 8 - 8) (drop_bit 8 (v AND push_bit 8 0xFF)) = push_bit 8 (v AND 0xFF00)"
    and "push_bit (32 - 8 - 16) (drop_bit 16 (v AND push_bit 16 0xFF)) = drop_bit 8 (v AND 0xFF0000)"
    and "push_bit (32 - 8 - 24) (drop_bit 24 (v AND push_bit 24 0xFF)) = drop_bit 24 (v AND 0xFF000000)"
    by (rule byte_left byte_right; simp)+
  then show ?thesis
    by (simp only: byte_offsets_simps reverse_loop.simps reverse_32_def or.left_neutral or.assoc)
qed

lemma reverse_64_loop: "reverse_loop 64 v 0 (byte_offsets 64) = reverse_64 v"
proof -
  have "push_bit (64 - 8 - 0) (drop_bit 0 (v AND push_bit 0 0xFF)) = push_bit 56 (v AND 0xFF)"
    and "push_bit (64 - 8 - 8) (drop_bit 8 (v AND push_bit 8 0xFF)) = push_bit 40 (v AND 0xFF00)"
    and "push_bit (64 - 8 - 16) (drop_bit 16 (v AND push_bit 16 0xFF)) = push_bit 24 (v AND 0xFF0000)"
    and "push_bit (64 - 8 - 24) (drop_bit 24 (v AND push_bit 24 0xFF)) = push_bit 8 (v AND 0xFF000000)"
    and "push_bit (64 - 8 - 32) (drop_bit 32 (v AND push_bit 32 0xFF)) = drop_bit 8 (v AND 0xFF00000000)"
    and "push_bit (64 - 8 - 40) (drop_bit 40 (v AND push_bit 40 0xFF)) = drop_bit 24 (v AND 0xFF0000000000)"
    and "push_bit (64 - 8 - 48) (drop_bit 48 (v AND push_bit 48 0xFF)) = drop_bit 40 (v AND 0xFF000000000000)"
    and "push_bit (64 - 8 - 56) (drop_bit 56 (v AND push_bit 56 0xFF)) = drop_bit 56 (v AND 0xFF00000000000000)"
    by (rule byte_left byte_right; simp)+
  then show ?thesis
    by (simp only: byte_offsets_simps reverse_loop.simps reverse_64_def or.left_neutral or.assoc)
qed

text \<open>All widths are served by the loop; a single byte is its own reversal.\<close>

lemma Reverse_bvv:
  assumes "n mod 8 = 0"
  shows "Reverse (bvv n v) = Inr (bvv n (reverse_loop n (take_bit n v) 0 (byte_offsets n)))"
proof (cases "n = 8")
  case True
  have "take_bit 8 (reverse_loop 8 (take_bit 8 v) 0 (byte_offsets 8)) = take_bit 8 v"
    by (rule bit_eqI) (auto simp: byte_offsets_def bit_take_bit_iff bit_reverse_loop simp del: reverse_loop.simps)
  with True show ?thesis by (simp add: Reverse_def bvv_eq_iff)
next
  case False
  show ?thesis
  proof (cases "n = 0")
    case True
    then show ?thesis by (simp add: Reverse_def byte_offsets_def)
  next
    case pos: False
    then have "BVV_init w (int n) = Inr (bvv n w)" for w by simp
    with False assms show ?thesis
      by (simp add: Reverse_def Let_def BVV_init_pos reverse_16_loop [symmetric] reverse_32_loop [symmetric]
          reverse_64_loop [symmetric] del: reverse_loop.simps) (simp add: byte_offsets_def del: reverse_loop.simps)
  qed
qed

text \<open>The mirror image of bit \<open>i\<close>: the byte is mirrored, the bit inside it is kept.\<close>

definition mirror_bit :: "nat \<Rightarrow> nat \<Rightarrow> nat" where
  "mirror_bit n i = (n - 8 - 8 * (i div 8)) + i mod 8"

lemma bit_reverse_bytes:
  assumes "n mod 8 = 0" and "i < n"
  shows "bit (reverse_loop n v 0 (byte_offsets n)) i \<longleftrightarrow> bit v (mirror_bit n i)"
proof -
  define q r where "q = i div 8" and "r = i mod 8"
  then have i: "i = 8 * q + r" and r: "r < 8" by simp_all
  obtain m where n: "n = 8 * m" using assms(1) by (auto elim: dvdE simp: mod_eq_0_iff_dvd)
  then have "q < m" using assms(2) i by simp
  then obtain d where m: "m = Suc (q + d)" using less_imp_Suc_add by blast
  have off: "n - 8 - 8 * k \<le> i \<and> i < n - 8 - 8 * k + 8 \<longleftrightarrow> k = d" if "k < m" for k
    using that r unfolding n m i by auto
  have mir: "i - (n - 8 - 8 * d) + 8 * d = mirror_bit n i"
    unfolding mirror_bit_def q_def [symmetric] r_def [symmetric] unfolding n m i by simp
  have "(\<exists>k<m. n - 8 - 8 * k \<le> i \<and> i < n - 8 - 8 * k + 8 \<and> bit v (i - (n - 8 - 8 * k) + 8 * k)) \<longleftrightarrow>
        bit v (mirror_bit n i)"
    using off mir m by (metis less_add_Suc2)
  then show ?thesis
    by (simp add: bit_reverse_loop byte_offsets_def n atLeast0LessThan Bex_def image_iff)
       (auto simp: n)
qed

lemma mirror_bit_mirror:
  assumes "n mod 8 = 0" and "i < n"
  shows "mirror_bit n i < n" and "mirror_bit n (mirror_bit n i) = i"
proof -
  obtain m where n: "n = 8 * m" using assms(1) by (auto elim: dvdE simp: mod_eq_0_iff_dvd)
  define q r where "q = i div 8" and "r = i mod 8"
  then have i: "i = 8 * q + r" and r: "r < 8" by simp_all
  have q: "q < m" using assms(2) n i by simp
  have mir: "mirror_bit n i = 8 * (m - 1 - q) + r"
    unfolding mirror_bit_def q_def [symmetric] r_def [symmetric] n using q by simp
  show "mirror_bit n i < n" unfolding mir using q r n by simp
  show "mirror_bit n (mirror_bit n i) = i"
    unfolding mir unfolding mirror_bit_def n using q r i by simp
qed

section \<open>Properties\<close>

text \<open>
  C14. The ring and bitwise operators of the concrete backend are those of machine words: at each
  width the class \<open>BVV\<close> implements addition, subtraction, multiplication, negation and the bitwise
  operators of \<open>'a word\<close>.
\<close>

theorem backend_refines_word:
  fixes a b :: "'a::len word"
  shows "BVV_add (Bv (bv_of_word a)) (Bv (bv_of_word b)) = Inr (bv_of_word (a + b))
       \<and> BVV_sub (Bv (bv_of_word a)) (Bv (bv_of_word b)) = Inr (bv_of_word (a - b))
       \<and> BVV_mul (Bv (bv_of_word a)) (Bv (bv_of_word b)) = Inr (bv_of_word (a * b))
       \<and> BVV_neg (bv_of_word a) = Inr (bv_of_word (- a))
       \<and> BVV_and (Bv (bv_of_word a)) (Bv (bv_of_word b)) = Inr (bv_of_word (a AND b))
       \<and> BVV_or (Bv (bv_of_word a)) (Bv (bv_of_word b)) = Inr (bv_of_word (a OR b))
       \<and> BVV_xor (Bv (bv_of_word a)) (Bv (bv_of_word b)) = Inr (bv_of_word (a XOR b))
       \<and> BVV_invert (bv_of_word a) = Inr (bv_of_word (NOT a))"
  by (intro conjI word_add word_sub word_mul word_neg word_bitwise_ops)

text \<open>
  C15. Shifts and rotations of the concrete backend are those of machine words: \<open><<\<close>, \<open>LShR\<close>, the
  arithmetic \<open>>>\<close>, and the rotations, which the backend computes modulo the width.
\<close>

theorem backend_shifts_refine_word:
  fixes a k :: "'a::len word"
  shows "BVV_lshift (Bv (bv_of_word a)) (Bv (bv_of_word k)) = Inr (bv_of_word (push_bit (unat k) a))
       \<and> LShR (Bv (bv_of_word a)) (Bv (bv_of_word k)) = Inr (bv_of_word (drop_bit (unat k) a))
       \<and> BVV_rshift (Bv (bv_of_word a)) (Bv (bv_of_word k)) = Inr (bv_of_word (signed_drop_bit (unat k) a))
       \<and> RotateLeft (bv_of_word a) (bv_of_word k) = Inr (bv_of_word (word_rotl (unat k) a))
       \<and> RotateRight (bv_of_word a) (bv_of_word k) = Inr (bv_of_word (word_rotr (unat k) a))"
  by (intro conjI word_shifts word_rotations)

text \<open>
  Equality and the unsigned and signed orders of the concrete backend are those of machine
  words.
\<close>

lemma backend_comparisons_refine_word:
  fixes a b :: "'a::len word"
  shows "BVV_eq (Bv (bv_of_word a)) (Bv (bv_of_word b)) = Inr (a = b)
       \<and> ULT (Bv (bv_of_word a)) (Bv (bv_of_word b)) = Inr (a < b)
       \<and> ULE (Bv (bv_of_word a)) (Bv (bv_of_word b)) = Inr (a \<le> b)
       \<and> SLT (Bv (bv_of_word a)) (Bv (bv_of_word b)) = Inr (a <s b)
       \<and> SLE (Bv (bv_of_word a)) (Bv (bv_of_word b)) = Inr (a \<le>s b)"
  by (intro conjI word_comparisons)

text \<open>
  C16. Division: \<open>//\<close> and \<open>%\<close> divide the unsigned values, \<open>SDiv\<close> and \<open>SMod\<close> the signed values with
  rounding towards zero (the remainder has the sign of the dividend), and each of the four raises
  \<open>ClaripyZeroDivisionError\<close> exactly when the divisor is zero.
\<close>

theorem backend_division:
  assumes "0 < n" and "x = take_bit n a" and "y = take_bit n b"
    and "sx = signed_take_bit (n - 1) a" and "sy = signed_take_bit (n - 1) b"
  shows "BVV_floordiv (Bv (bvv n a)) (Bv (bvv n b)) =
           (if y = 0 then Inl ClaripyZeroDivisionError else Inr (bvv n (x div y)))
       \<and> BVV_mod (Bv (bvv n a)) (Bv (bvv n b)) =
           (if y = 0 then Inl ClaripyZeroDivisionError else Inr (bvv n (x mod y)))
       \<and> SDiv (Bv (bvv n a)) (Bv (bvv n b)) =
           (if sy = 0 then Inl ClaripyZeroDivisionError else Inr (bvv n (sx sdiv sy)))
       \<and> SMod (Bv (bvv n a)) (Bv (bvv n b)) =
           (if sy = 0 then Inl ClaripyZeroDivisionError else Inr (bvv n (sx smod sy)))"
  unfolding assms(2-5) using assms(1) by (simp add: bv_simps)

theorem backend_division_witness:
  "SDiv (Bv (bvv 8 0xF9)) (Bv (bvv 8 2)) = Inr (bvv 8 0xFD)
   \<and> BVV_floordiv (Bv (bvv 8 0xF9)) (Bv (bvv 8 0)) = Inl ClaripyZeroDivisionError"
  using backend_division [of 8 "0xF9" "0xF9" 2 2 "-7" 2] backend_division [of 8 "0xF9" "0xF9" 0 0 "-7" 0]
    signed_take_bit_top [of 8 "0xF9"] signed_take_bit_top [of 8 2]
  by (simp add: take_bit_eq_mod bvv_eq_iff signed_divide_int_def)

text \<open>
  C23. \<open>Reverse\<close> mirrors the bytes of a value whose width is a multiple of eight, whether by the loop or
  by the specialised 16, 32 and 64 bit routines, and it is its own inverse.
\<close>

theorem Reverse_mirrors_bytes:
  assumes "n mod 8 = 0"
  shows "\<exists>b. Reverse (bvv n a) = Inr (bvv n b) \<and> (\<forall>i<n. bit b i = bit a (mirror_bit n i))
       \<and> Reverse (bvv n b) = Inr (bvv n a)"
proof -
  define rv where "rv v = reverse_loop n (take_bit n v) 0 (byte_offsets n)" for v
  have rv: "Reverse (bvv n v) = Inr (bvv n (rv v))" for v
    unfolding rv_def using assms by (rule Reverse_bvv)
  have bits: "bit (rv v) i = bit v (mirror_bit n i)" if "i < n" for v i
    unfolding rv_def bit_reverse_bytes [OF assms that]
    using mirror_bit_mirror(1) [OF assms that] by (simp add: bit_take_bit_iff)
  have "bvv n (rv (rv a)) = bvv n a"
    by (rule bvv_eqI) (rule bit_eqI, auto simp: bit_take_bit_iff bits mirror_bit_mirror [OF assms])
  then show ?thesis using rv bits by auto
qed

theorem Reverse_mirrors_bytes_witness:
  "\<exists>b. Reverse (bvv 24 0x123456) = Inr (bvv 24 b) \<and> Reverse (bvv 24 b) = Inr (bvv 24 0x123456)"
  using Reverse_mirrors_bytes [of 24 "0x123456"] by auto

end
