(* ===== verification/Claripy_BV.thy ===== *)
theory Claripy_BV
  imports Backend_Word
begin

text \<open>
  The bit-vector interface of claripy (\<open>claripy/ast/bv.py\<close>, \<open>claripy/ast/bool.py\<close>) on concrete
  operands. \<open>Base.__new__\<close> folds an operation whose arguments are not symbolic through the
  concrete backend, so on concrete operands an expression of claripy denotes the result of the
  backend's operation, or the exception that it raises. A value of the interface is therefore
  \<open>operand res\<close>: a Python integer or a bit-vector, or the exception; the operations are strict,
  as Python evaluates arguments first. A Python integer beside a bit-vector is coerced to its
  width by \<open>BV._from_int\<close>.
\<close>

type_synonym val = "operand res"

section \<open>Constants and coercion\<close>

definition lit :: "int \<Rightarrow> val" where
  "lit k = Inr (Num k)"

definition cl_BVV :: "int \<Rightarrow> int \<Rightarrow> val" where
  "cl_BVV v n =
     bind_res (py_shl 1 n) (\<lambda>m. map_res Bv (BVV_init (v AND (m - 1)) n))"

text \<open>\<open>BV._from_int\<close>: the width of the other operand, or 64 where that is zero.\<close>

definition from_int :: "BVV \<Rightarrow> int \<Rightarrow> BVV res" where
  "from_int like k = BVV_init k (if bits like = 0 then 64 else int (bits like))"

text \<open>\<open>_type_fixer\<close> of \<open>operations.op\<close> for two arguments of type \<open>BV\<close>.\<close>

fun type_fixer :: "operand \<Rightarrow> operand \<Rightarrow> (BVV \<times> BVV) res" where
  "type_fixer (Bv a) (Bv b) = Inr (a, b)"
| "type_fixer (Bv a) (Num k) = map_res (\<lambda>b. (a, b)) (from_int a k)"
| "type_fixer (Num k) (Bv b) = map_res (\<lambda>a. (a, b)) (from_int b k)"
| "type_fixer (Num k) (Num j) = Inl AttributeError"

text \<open>The checks of \<open>operations.py\<close> that \<open>op\<close> makes (claripy runs with \<open>_DEBUG\<close> on by default).\<close>

definition length_same_check :: "BVV \<Rightarrow> BVV \<Rightarrow> bool" where
  "length_same_check a b \<longleftrightarrow> bits a = bits b"

definition extract_check :: "int \<Rightarrow> int \<Rightarrow> BVV \<Rightarrow> bool" where
  "extract_check high low a \<longleftrightarrow>
     (if high < 0 \<or> low < 0 then False
      else if low > high then False
      else if high \<ge> int (bits a) then False
      else True)"

definition extend_check :: "int \<Rightarrow> BVV \<Rightarrow> bool" where
  "extend_check amount a \<longleftrightarrow> amount \<ge> 0"

definition checked :: "bool \<Rightarrow> 'a res \<Rightarrow> 'a res" where
  "checked success r = (if success then r else Inl ClaripyOperationError)"

definition lift2 :: "(operand \<Rightarrow> operand \<Rightarrow> 'a res) \<Rightarrow> val \<Rightarrow> val \<Rightarrow> 'a res" where
  "lift2 f x y =
     bind_res x (\<lambda>a. bind_res y (\<lambda>b.
     bind_res (type_fixer a b) (\<lambda>p.
       checked (length_same_check (fst p) (snd p)) (f (Bv (fst p)) (Bv (snd p))))))"

definition lift1 :: "(BVV \<Rightarrow> 'a res) \<Rightarrow> val \<Rightarrow> 'a res" where
  "lift1 f x =
     bind_res x (\<lambda>a. case a of Bv b \<Rightarrow> f b | Num _ \<Rightarrow> Inl AttributeError)"

definition bv2 :: "(operand \<Rightarrow> operand \<Rightarrow> BVV res) \<Rightarrow> val \<Rightarrow> val \<Rightarrow> val" where
  "bv2 f x y = map_res Bv (lift2 f x y)"

definition bv1 :: "(BVV \<Rightarrow> BVV res) \<Rightarrow> val \<Rightarrow> val" where
  "bv1 f x = map_res Bv (lift1 f x)"

section \<open>Operators of BV\<close>

definition cl_add :: "val \<Rightarrow> val \<Rightarrow> val" where "cl_add = bv2 BVV_add"
definition cl_sub :: "val \<Rightarrow> val \<Rightarrow> val" where "cl_sub = bv2 BVV_sub"
definition cl_mul :: "val \<Rightarrow> val \<Rightarrow> val" where "cl_mul = bv2 BVV_mul"
definition cl_div :: "val \<Rightarrow> val \<Rightarrow> val" where "cl_div = bv2 BVV_floordiv"
definition cl_mod :: "val \<Rightarrow> val \<Rightarrow> val" where "cl_mod = bv2 BVV_mod"
definition cl_SDiv :: "val \<Rightarrow> val \<Rightarrow> val" where "cl_SDiv = bv2 SDiv"
definition cl_SMod :: "val \<Rightarrow> val \<Rightarrow> val" where "cl_SMod = bv2 SMod"
definition cl_and :: "val \<Rightarrow> val \<Rightarrow> val" where "cl_and = bv2 BVV_and"
definition cl_or :: "val \<Rightarrow> val \<Rightarrow> val" where "cl_or = bv2 BVV_or"
definition cl_xor :: "val \<Rightarrow> val \<Rightarrow> val" where "cl_xor = bv2 BVV_xor"
definition cl_shl :: "val \<Rightarrow> val \<Rightarrow> val" where "cl_shl = bv2 BVV_lshift"
definition cl_sar :: "val \<Rightarrow> val \<Rightarrow> val" where "cl_sar = bv2 BVV_rshift"
definition cl_LShR :: "val \<Rightarrow> val \<Rightarrow> val" where "cl_LShR = bv2 LShR"
definition cl_not :: "val \<Rightarrow> val" where "cl_not = bv1 BVV_invert"
definition cl_neg :: "val \<Rightarrow> val" where "cl_neg = bv1 BVV_neg"

definition cl_RotateLeft :: "val \<Rightarrow> val \<Rightarrow> val" where
  "cl_RotateLeft = bv2 (\<lambda>x y. case (x, y) of (Bv a, Bv k) \<Rightarrow> RotateLeft a k | _ \<Rightarrow> Inl TypeError)"

definition cl_RotateRight :: "val \<Rightarrow> val \<Rightarrow> val" where
  "cl_RotateRight = bv2 (\<lambda>x y. case (x, y) of (Bv a, Bv k) \<Rightarrow> RotateRight a k | _ \<Rightarrow> Inl TypeError)"

definition cl_eq :: "val \<Rightarrow> val \<Rightarrow> bool res" where "cl_eq = lift2 BVV_eq"
definition cl_ne :: "val \<Rightarrow> val \<Rightarrow> bool res" where "cl_ne = lift2 BVV_ne"
definition cl_ULT :: "val \<Rightarrow> val \<Rightarrow> bool res" where "cl_ULT = lift2 ULT"
definition cl_ULE :: "val \<Rightarrow> val \<Rightarrow> bool res" where "cl_ULE = lift2 ULE"
definition cl_UGT :: "val \<Rightarrow> val \<Rightarrow> bool res" where "cl_UGT = lift2 UGT"
definition cl_UGE :: "val \<Rightarrow> val \<Rightarrow> bool res" where "cl_UGE = lift2 UGE"
definition cl_SLT :: "val \<Rightarrow> val \<Rightarrow> bool res" where "cl_SLT = lift2 SLT"
definition cl_SLE :: "val \<Rightarrow> val \<Rightarrow> bool res" where "cl_SLE = lift2 SLE"
definition cl_SGT :: "val \<Rightarrow> val \<Rightarrow> bool res" where "cl_SGT = lift2 SGT"
definition cl_SGE :: "val \<Rightarrow> val \<Rightarrow> bool res" where "cl_SGE = lift2 SGE"

text \<open>\<open>len(x)\<close> and \<open>x.size()\<close>.\<close>

definition cl_size :: "val \<Rightarrow> int res" where
  "cl_size x = lift1 (\<lambda>a. Inr (int (bits a))) x"

definition cl_zero_extend :: "int \<Rightarrow> val \<Rightarrow> val" where
  "cl_zero_extend n x = bv1 (\<lambda>a. checked (extend_check n a) (ZeroExt n a)) x"

definition cl_sign_extend :: "int \<Rightarrow> val \<Rightarrow> val" where
  "cl_sign_extend n x = bv1 (\<lambda>a. checked (extend_check n a) (SignExt n a)) x"

definition cl_Extract :: "int \<Rightarrow> int \<Rightarrow> val \<Rightarrow> val" where
  "cl_Extract high low x = bv1 (\<lambda>a. checked (extract_check high low a) (Extract high low a)) x"

text \<open>\<open>x[left:right]\<close> and \<open>x[i]\<close>; negative bounds of a slice count from the width.\<close>

definition cl_slice :: "int option \<Rightarrow> int option \<Rightarrow> val \<Rightarrow> val" where
  "cl_slice start stop x =
     bind_res (cl_size x) (\<lambda>n.
       let l = (case start of Some s \<Rightarrow> s | None \<Rightarrow> n - 1);
           r = (case stop of Some s \<Rightarrow> s | None \<Rightarrow> 0);
           left = (if l < 0 then n + l else l);
           right = (if r < 0 then n + r else r)
       in cl_Extract left right x)"

definition cl_bit :: "int \<Rightarrow> val \<Rightarrow> val" where
  "cl_bit i x = cl_Extract i i x"

definition as_bv :: "operand \<Rightarrow> BVV res" where
  "as_bv x = (case x of Bv a \<Rightarrow> Inr a | Num _ \<Rightarrow> Inl AttributeError)"

definition cl_Concat :: "val list \<Rightarrow> val" where
  "cl_Concat xs =
     bind_res (list_res xs) (\<lambda>os.
     bind_res (list_res (map as_bv os)) (\<lambda>as. map_res Bv (Concat as)))"

definition cl_chop :: "int \<Rightarrow> val \<Rightarrow> val list res" where
  "cl_chop k x =
     bind_res (cl_size x) (\<lambda>s.
       if k = 0 then Inl ZeroDivisionError
       else if s mod k \<noteq> 0 then Inl ValueError
       else if s = k then Inr [x]
       else Inr (rev (map (\<lambda>n. cl_slice (Some ((int n + 1) * k - 1)) (Some (int n * k)) x)
                   [0..<nat (s div k)])))"

definition cl_get_bytes :: "int \<Rightarrow> int \<Rightarrow> val \<Rightarrow> val" where
  "cl_get_bytes index k x =
     bind_res (cl_size x) (\<lambda>s.
       let pos = (s + 7) div 8 - 1 - index in
       if pos < 0 then Inl ValueError
       else if k = 0 then cl_BVV 0 0
       else
         let r = cl_slice (Some (min (pos * 8 + 7) (s - 1))) (Some ((pos - k + 1) * 8)) x in
         bind_res (cl_size r) (\<lambda>rs.
           if rs mod 8 \<noteq> 0 then cl_zero_extend (8 - rs mod 8) r else r))"

definition cl_get_byte :: "int \<Rightarrow> val \<Rightarrow> val" where
  "cl_get_byte index x = cl_get_bytes index 1 x"

text \<open>\<open>claripy.If\<close> on a concrete condition: both branches are coerced and must agree in width.\<close>

definition cl_If :: "bool res \<Rightarrow> val \<Rightarrow> val \<Rightarrow> val" where
  "cl_If c t f =
     bind_res c (\<lambda>b. bind_res t (\<lambda>x. bind_res f (\<lambda>y.
       case (x, y) of
         (Num _, Num _) \<Rightarrow> Inl ClaripyTypeError
       | (Bv a, Bv a') \<Rightarrow>
           if bits a \<noteq> bits a' then Inl ClaripyTypeError else Inr (Bv (if b then a else a'))
       | (Num k, Bv a') \<Rightarrow> map_res (\<lambda>a. Bv (if b then a else a')) (from_int a' k)
       | (Bv a, Num k) \<Rightarrow> map_res (\<lambda>a'. Bv (if b then a else a')) (from_int a k))))"

definition cl_Or :: "bool res \<Rightarrow> bool res \<Rightarrow> bool res" where
  "cl_Or a b = bind_res a (\<lambda>x. bind_res b (\<lambda>y. Inr (Or_any [x, y])))"

definition cl_And :: "bool res \<Rightarrow> bool res \<Rightarrow> bool res" where
  "cl_And a b = bind_res a (\<lambda>x. bind_res b (\<lambda>y. Inr (And_all [x, y])))"

section \<open>Evaluation of the operators\<close>

abbreviation W :: "nat \<Rightarrow> int \<Rightarrow> val" where
  "W n v \<equiv> Inr (Bv (bvv n v))"

text \<open>A one-bit flag.\<close>

definition flag :: "bool \<Rightarrow> val" where
  "flag P = W 1 (of_bool P)"

lemma W_eq_iff: "W n a = W m b \<longleftrightarrow> n = m \<and> take_bit n a = take_bit m b"
  by (simp add: bvv_eq_iff)

lemma flag_eq_iff [simp]: "flag P = flag Q \<longleftrightarrow> P = Q"
  by (simp add: flag_def bvv_eq_iff)

lemma W_1: "W 1 v = flag (odd v)"
  by (simp add: flag_def bvv_eq_iff take_bit_Suc mod_2_eq_odd)

lemmas check_simps = checked_def length_same_check_def extract_check_def extend_check_def

lemma lift2_W:
  "lift2 f (W n a) (W n b) = f (Bv (bvv n a)) (Bv (bvv n b))"
  "0 < n \<Longrightarrow> lift2 f (W n a) (lit k) = f (Bv (bvv n a)) (Bv (bvv n k))"
  "0 < n \<Longrightarrow> lift2 f (lit k) (W n a) = f (Bv (bvv n k)) (Bv (bvv n a))"
  by (simp_all add: lift2_def lit_def from_int_def check_simps)

lemma lift2_mismatch: "n \<noteq> m \<Longrightarrow> lift2 f (W n a) (W m b) = Inl ClaripyOperationError"
  by (simp add: lift2_def check_simps)

lemma lift1_W: "lift1 f (W n a) = f (bvv n a)"
  by (simp add: lift1_def)

lemmas cl_ring_defs = cl_add_def cl_sub_def cl_mul_def
lemmas cl_bitwise_defs = cl_and_def cl_or_def cl_xor_def
lemmas cl_cmp_defs = cl_eq_def cl_ne_def cl_ULT_def cl_ULE_def cl_UGT_def cl_UGE_def
  cl_SLT_def cl_SLE_def cl_SGT_def cl_SGE_def
lemmas lift_W = lift2_W lift1_W bv2_def bv1_def

lemma cl_BVV_W [bv_simps]: "0 \<le> n \<Longrightarrow> cl_BVV v n = W (nat n) v"
  by (cases "n = 0") (simp_all add: cl_BVV_def py_shl_nonneg BVV_init_pos)

lemma cl_ring_W [bv_simps]:
  assumes "0 < n"
  shows "cl_add (W n a) (W n b) = W n (a + b)" "cl_add (W n a) (lit b) = W n (a + b)"
    and "cl_add (lit a) (W n b) = W n (a + b)"
    and "cl_sub (W n a) (W n b) = W n (a - b)" "cl_sub (W n a) (lit b) = W n (a - b)"
    and "cl_sub (lit a) (W n b) = W n (a - b)"
    and "cl_mul (W n a) (W n b) = W n (a * b)" "cl_mul (W n a) (lit b) = W n (a * b)"
    and "cl_mul (lit a) (W n b) = W n (a * b)"
  using assms by (simp_all add: cl_ring_defs lift_W bv_simps)

lemma cl_bitwise_W [bv_simps]:
  assumes "0 < n"
  shows "cl_and (W n a) (W n b) = W n (a AND b)" "cl_and (W n a) (lit b) = W n (a AND b)"
    and "cl_and (lit a) (W n b) = W n (a AND b)"
    and "cl_or (W n a) (W n b) = W n (a OR b)" "cl_or (W n a) (lit b) = W n (a OR b)"
    and "cl_or (lit a) (W n b) = W n (a OR b)"
    and "cl_xor (W n a) (W n b) = W n (a XOR b)" "cl_xor (W n a) (lit b) = W n (a XOR b)"
    and "cl_xor (lit a) (W n b) = W n (a XOR b)"
  using assms by (simp_all add: cl_bitwise_defs lift_W bv_simps)

lemma cl_unary_W [bv_simps]:
  "cl_not (W n a) = W n (NOT a)" "cl_neg (W n a) = W n (- a)"
  by (simp_all add: cl_not_def cl_neg_def lift_W bv_simps)

lemma cl_cmp_W [bv_simps]:
  assumes "0 < n"
  shows "cl_eq (W n a) (W n b) = Inr (take_bit n a = take_bit n b)"
    and "cl_eq (W n a) (lit b) = Inr (take_bit n a = take_bit n b)"
    and "cl_ne (W n a) (W n b) = Inr (take_bit n a \<noteq> take_bit n b)"
    and "cl_ne (W n a) (lit b) = Inr (take_bit n a \<noteq> take_bit n b)"
    and "cl_ULT (W n a) (W n b) = Inr (take_bit n a < take_bit n b)"
    and "cl_ULT (W n a) (lit b) = Inr (take_bit n a < take_bit n b)"
    and "cl_ULE (W n a) (W n b) = Inr (take_bit n a \<le> take_bit n b)"
    and "cl_ULE (W n a) (lit b) = Inr (take_bit n a \<le> take_bit n b)"
    and "cl_UGT (W n a) (W n b) = Inr (take_bit n a > take_bit n b)"
    and "cl_UGT (W n a) (lit b) = Inr (take_bit n a > take_bit n b)"
    and "cl_UGE (W n a) (W n b) = Inr (take_bit n a \<ge> take_bit n b)"
    and "cl_UGE (W n a) (lit b) = Inr (take_bit n a \<ge> take_bit n b)"
  using assms by (simp_all add: cl_cmp_defs lift_W bv_simps)

lemma cl_scmp_W [bv_simps]:
  assumes "0 < n"
  shows "cl_SLT (W n a) (W n b) = Inr (signed_take_bit (n - 1) a < signed_take_bit (n - 1) b)"
    and "cl_SLT (W n a) (lit b) = Inr (signed_take_bit (n - 1) a < signed_take_bit (n - 1) b)"
    and "cl_SLE (W n a) (W n b) = Inr (signed_take_bit (n - 1) a \<le> signed_take_bit (n - 1) b)"
    and "cl_SLE (W n a) (lit b) = Inr (signed_take_bit (n - 1) a \<le> signed_take_bit (n - 1) b)"
    and "cl_SGT (W n a) (W n b) = Inr (signed_take_bit (n - 1) a > signed_take_bit (n - 1) b)"
    and "cl_SGT (W n a) (lit b) = Inr (signed_take_bit (n - 1) a > signed_take_bit (n - 1) b)"
  using assms by (simp_all add: cl_cmp_defs lift_W bv_simps)

lemma cl_shift_W [bv_simps]:
  assumes "0 < n"
  shows "cl_shl (W n a) (W n k) = W n (push_bit (nat (take_bit n k)) a)"
    and "cl_shl (W n a) (lit k) = W n (push_bit (nat (take_bit n k)) a)"
    and "cl_sar (W n a) (W n k) = W n (drop_bit (nat (take_bit n k)) (signed_take_bit (n - 1) a))"
    and "cl_sar (W n a) (lit k) = W n (drop_bit (nat (take_bit n k)) (signed_take_bit (n - 1) a))"
    and "cl_LShR (W n a) (W n k) = W n (drop_bit (nat (take_bit n k)) (take_bit n a))"
    and "cl_LShR (W n a) (lit k) = W n (drop_bit (nat (take_bit n k)) (take_bit n a))"
  using assms by (simp_all add: cl_shl_def cl_sar_def cl_LShR_def lift_W bv_simps)

lemma cl_div_W [bv_simps]:
  assumes "0 < n"
  shows "cl_div (W n a) (W n b) = (if take_bit n b = 0 then Inl ClaripyZeroDivisionError
           else W n (take_bit n a div take_bit n b))"
    and "cl_div (W n a) (lit b) = (if take_bit n b = 0 then Inl ClaripyZeroDivisionError
           else W n (take_bit n a div take_bit n b))"
    and "cl_mod (W n a) (W n b) = (if take_bit n b = 0 then Inl ClaripyZeroDivisionError
           else W n (take_bit n a mod take_bit n b))"
    and "cl_mod (W n a) (lit b) = (if take_bit n b = 0 then Inl ClaripyZeroDivisionError
           else W n (take_bit n a mod take_bit n b))"
  using assms by (simp_all add: cl_div_def cl_mod_def lift_W bv_simps)

lemma cl_rotate_W [bv_simps]:
  assumes "0 < n"
  shows "cl_RotateLeft (W n a) (W n k) = W n (rotl_value n (nat (take_bit n k) mod n) a)"
    and "cl_RotateRight (W n a) (W n k) = W n (rotl_value n (n - nat (take_bit n k) mod n) a)"
  using assms by (simp_all add: cl_RotateLeft_def cl_RotateRight_def lift_W bv_simps)

lemma cl_size_W [simp, bv_simps]: "cl_size (W n a) = Inr (int n)"
  by (simp add: cl_size_def lift_W)

lemma cl_zero_extend_W [bv_simps]:
  "0 \<le> k \<Longrightarrow> cl_zero_extend k (W n a) = W (n + nat k) (take_bit n a)"
  by (cases "n = 0 \<and> k = 0") (auto simp: cl_zero_extend_def lift_W check_simps ZeroExt_bvv nat_add_distrib)

lemma cl_sign_extend_W [bv_simps]:
  "0 < n \<Longrightarrow> 0 \<le> k \<Longrightarrow> cl_sign_extend k (W n a) = W (n + nat k) (signed_take_bit (n - 1) a)"
  by (simp add: cl_sign_extend_def lift_W check_simps bv_simps nat_add_distrib)

lemma cl_Extract_W [bv_simps]:
  "0 \<le> l \<Longrightarrow> l \<le> h \<Longrightarrow> h < int n \<Longrightarrow>
     cl_Extract h l (W n a) = W (nat (h + 1 - l)) (drop_bit (nat l) (take_bit n a))"
  by (simp add: cl_Extract_def lift_W check_simps bv_simps)

lemma cl_slice_W [bv_simps]:
  "0 \<le> l \<Longrightarrow> l \<le> h \<Longrightarrow> h < int n \<Longrightarrow>
     cl_slice (Some h) (Some l) (W n a) = W (nat (h + 1 - l)) (drop_bit (nat l) (take_bit n a))"
  by (simp add: cl_slice_def bv_simps)

lemma cl_slice_low: "0 < n \<Longrightarrow> n \<le> m \<Longrightarrow> cl_slice (Some (int n - 1)) (Some 0) (W m x) = W n x"
  by (simp add: cl_slice_W bvv_eq_iff min_def)

lemma cl_bit_W [bv_simps]:
  "0 \<le> i \<Longrightarrow> i < int n \<Longrightarrow> cl_bit i (W n a) = flag (bit (take_bit n a) (nat i))"
  by (simp add: cl_bit_def bv_simps flag_def bvv_eq_iff take_bit_Suc mod_2_eq_odd bit_iff_odd_drop_bit)

lemma cl_If_W [bv_simps]: "cl_If (Inr c) (W n a) (W n b) = W n (if c then a else b)"
  by (simp add: cl_If_def)

lemma cl_Bool_W [bv_simps]:
  "cl_Or (Inr P) (Inr Q) = Inr (P \<or> Q)" "cl_And (Inr P) (Inr Q) = Inr (P \<and> Q)"
  by (simp_all add: cl_Or_def cl_And_def Or_any_def And_all_def)

lemma list_res_Inr [simp]: "list_res (map Inr xs) = Inr xs"
  by (induction xs) simp_all

lemma cl_Concat_W2 [bv_simps]:
  "cl_Concat [W n a, W m b] = W (n + m) (push_bit m a OR take_bit m b)"
  by (simp add: cl_Concat_def as_bv_def bv_simps)

lemma cl_Concat_W3 [bv_simps]:
  "cl_Concat [W n a, W m b, W k c] =
     W (n + m + k) (push_bit k (push_bit m a OR take_bit m b) OR take_bit k c)"
proof -
  have "take_bit (n + m + k) (push_bit k (push_bit m (take_bit n a) OR take_bit m b) OR take_bit k c) =
        take_bit (n + m + k) (push_bit k (push_bit m a OR take_bit m b) OR take_bit k c)"
    by (rule bit_eqI) (auto simp: bit_simps)
  then show ?thesis
    by (cases "n + m + k = 0")
      (simp_all add: cl_Concat_def as_bv_def Concat_eq bvv_eq_iff add.assoc, simp add: Concat_init BVV_init_empty [of 0])
qed

section \<open>Flags\<close>

lemma bvv_1_flag: "W 1 (of_bool P) = flag P" "W (Suc 0) (of_bool P) = flag P"
  by (simp_all add: flag_def)

lemma cl_BVV_flag [flag_simps]: "cl_BVV 1 1 = flag True" "cl_BVV 0 1 = flag False"
  by (simp_all add: bv_simps flag_def)

lemma cl_bitwise_flag [flag_simps]:
  "cl_and (flag P) (flag Q) = flag (P \<and> Q)"
  "cl_or (flag P) (flag Q) = flag (P \<or> Q)"
  "cl_xor (flag P) (flag Q) = flag (P \<noteq> Q)"
  "cl_and (lit 1) (flag P) = flag P"
  "cl_and (flag P) (lit 1) = flag P"
  "cl_xor (lit 0) (flag P) = flag P"
  "cl_xor (lit 1) (flag P) = flag (\<not> P)"
  by (cases P; cases Q; simp add: flag_def bv_simps)+

lemma cl_If_flag [flag_simps]: "cl_If (Inr c) (flag P) (flag Q) = flag (if c then P else Q)"
  by (simp add: flag_def bv_simps)

lemma cl_bit_flag [flag_simps]: "cl_bit 0 (flag P) = flag P"
  by (simp add: flag_def bv_simps)

lemma cl_zero_extend_flag [flag_simps]:
  "0 \<le> k \<Longrightarrow> cl_zero_extend k (flag P) = W (Suc (nat k)) (of_bool P)"
  by (simp add: flag_def bv_simps)

lemma cl_size_flag [flag_simps]: "cl_size (flag P) = Inr 1"
  by (simp add: flag_def)

lemma cl_eq_flag [flag_simps]: "cl_eq (flag P) (flag Q) = Inr (P = Q)"
  by (simp add: flag_def bv_simps)

section \<open>The interface that the flag computations rely on\<close>

text \<open>
  What the condition-code helpers and the p-code behaviours use of a bit-vector library:
  addition and subtraction that wrap at the width, the unsigned comparison, the bitwise
  operations and the selection of a bit. Carry, borrow and signed overflow are derived once
  from these laws.
\<close>

locale bitvector_interface =
  fixes mk :: "nat \<Rightarrow> int \<Rightarrow> 'v"
    and add :: "'v \<Rightarrow> 'v \<Rightarrow> 'v"
    and sub :: "'v \<Rightarrow> 'v \<Rightarrow> 'v"
    and bxor :: "'v \<Rightarrow> 'v \<Rightarrow> 'v"
    and band :: "'v \<Rightarrow> 'v \<Rightarrow> 'v"
    and ult :: "'v \<Rightarrow> 'v \<Rightarrow> bool res"
    and ule :: "'v \<Rightarrow> 'v \<Rightarrow> bool res"
    and top :: "nat \<Rightarrow> 'v \<Rightarrow> 'f"
    and fl :: "bool \<Rightarrow> 'f"
  assumes add_mk: "0 < n \<Longrightarrow> add (mk n a) (mk n b) = mk n (a + b)"
    and sub_mk: "0 < n \<Longrightarrow> sub (mk n a) (mk n b) = mk n (a - b)"
    and bxor_mk: "0 < n \<Longrightarrow> bxor (mk n a) (mk n b) = mk n (a XOR b)"
    and band_mk: "0 < n \<Longrightarrow> band (mk n a) (mk n b) = mk n (a AND b)"
    and ult_mk: "0 < n \<Longrightarrow> ult (mk n a) (mk n b) = Inr (take_bit n a < take_bit n b)"
    and ule_mk: "0 < n \<Longrightarrow> ule (mk n a) (mk n b) = Inr (take_bit n a \<le> take_bit n b)"
    and top_mk: "0 < n \<Longrightarrow> top n (mk n a) = fl (bit a (n - 1))"
begin

lemma carry_out:
  assumes "0 < n"
  shows "ult (add (mk n a) (mk n b)) (mk n a) = Inr (2 ^ n \<le> take_bit n a + take_bit n b)"
  using assms carry_iff [of 0 n a b] by (simp add: add_mk ult_mk)

lemma carry_out_with_carry:
  assumes "0 < n"
  shows "ule (mk n (a + b + 1)) (mk n a) = Inr (2 ^ n \<le> take_bit n a + take_bit n b + 1)"
  using assms carry_iff [of 1 n a b] by (simp add: ule_mk)

lemma overflow_add:
  assumes "0 < n" and "c = 0 \<or> c = (1 :: int)"
  shows "top n (band (bxor (bxor (mk n a) (mk n b)) (mk n (- 1)))
                     (bxor (mk n a) (mk n (a + b + c)))) =
         fl (\<not> (- (2 ^ (n - 1)) \<le> signed_take_bit (n - 1) a + signed_take_bit (n - 1) b + c \<and>
              signed_take_bit (n - 1) a + signed_take_bit (n - 1) b + c < 2 ^ (n - 1)))"
  unfolding add_overflow_iff [OF assms, of a b, symmetric]
  using assms(1)
  by (simp only: bxor_mk band_mk top_mk) (rule arg_cong [where f = fl], auto simp: bit_simps)

lemma overflow_sub:
  assumes "0 < n" and "c = 0 \<or> c = (1 :: int)"
  shows "top n (band (bxor (mk n a) (mk n b)) (bxor (mk n a) (mk n (a - b - c)))) =
         fl (\<not> (- (2 ^ (n - 1)) \<le> signed_take_bit (n - 1) a - signed_take_bit (n - 1) b - c \<and>
              signed_take_bit (n - 1) a - signed_take_bit (n - 1) b - c < 2 ^ (n - 1)))"
  unfolding sub_overflow_iff [OF assms, of a b, symmetric]
  using assms(1)
  by (simp only: bxor_mk band_mk top_mk) (rule arg_cong [where f = fl], auto simp: bit_simps)

end

interpretation claripy_bv: bitvector_interface W cl_add cl_sub cl_xor cl_and cl_ULT cl_ULE
  "\<lambda>n. cl_bit (int n - 1)" flag
  by unfold_locales (simp_all add: bv_simps bit_take_bit_iff nat_diff_distrib)

section \<open>Splitting and joining\<close>

lemma concat_chunks:
  "concat_value acc (map (\<lambda>i. bvv k (drop_bit (i * k) a)) (rev [0..<m])) =
     push_bit (m * k) acc OR take_bit (m * k) a"
proof (induction m arbitrary: acc)
  case (Suc m)
  have "push_bit (m * k) (push_bit k acc OR take_bit k (drop_bit (m * k) a)) OR take_bit (m * k) a =
        push_bit (Suc m * k) acc OR take_bit (Suc m * k) a"
    by (rule bit_eqI) (auto simp: bit_simps ac_simps)
  with Suc show ?case by simp
qed simp

lemma cl_Concat_bvs:
  "0 < sum_list (map (\<lambda>i. bits (c i)) xs) \<Longrightarrow>
   cl_Concat (map (\<lambda>i. Inr (Bv (c i))) xs) =
     W (sum_list (map (\<lambda>i. bits (c i)) xs)) (concat_value 0 (map c xs))"
proof -
  assume width: "0 < sum_list (map (\<lambda>i. bits (c i)) xs)"
  have "list_res (map (\<lambda>i. Inr (Bv (c i))) xs) = (Inr (map (\<lambda>i. Bv (c i)) xs) :: operand list res)"
    "list_res (map (\<lambda>i. Inr (c i)) xs) = (Inr (map c xs) :: BVV list res)"
    using list_res_Inr [of "map (\<lambda>i. Bv (c i)) xs"] list_res_Inr [of "map c xs"] by (simp_all add: o_def)
  with width show ?thesis by (simp add: cl_Concat_def as_bv_def o_def Concat_eq)
qed

section \<open>Properties\<close>

text \<open>
  C24. \<open>BV.chop\<close> splits a value into parts of the given width, most significant first, and \<open>Concat\<close> of
  the parts gives the value back.
\<close>

theorem chop_concat:
  assumes "0 < k" and "0 < m"
  shows "\<exists>parts. cl_chop (int k) (W (m * k) a) = Inr parts \<and> length parts = m
       \<and> (\<forall>i<m. parts ! i = W k (drop_bit ((m - 1 - i) * k) a)) \<and> cl_Concat parts = W (m * k) a"
proof -
  let ?c = "\<lambda>i. bvv k (drop_bit (i * k) a)"
  let ?parts = "map (\<lambda>i. Inr (Bv (?c i)) :: val) (rev [0..<m])"
  have slice: "cl_slice (Some ((int i + 1) * int k - 1)) (Some (int i * int k)) (W (m * k) a) = Inr (Bv (?c i))"
    if "i < m" for i
  proof -
    have le: "Suc i * k \<le> m * k" using that by (intro mult_le_mono1) simp
    then have "int (Suc i * k) \<le> int (m * k)" by (simp only: of_nat_le_iff)
    then have "int i * int k \<le> (int i + 1) * int k - 1" "(int i + 1) * int k - 1 < int (m * k)"
      using assms(1) by (simp_all add: algebra_simps)
    then show ?thesis
      using cl_slice_W [of "int i * int k" "(int i + 1) * int k - 1" "m * k" a] le
      by (simp add: algebra_simps nat_mult_distrib drop_bit_take_bit bvv_eq_iff)
  qed
  have "cl_chop (int k) (W (m * k) a) = Inr ?parts"
  proof (cases "m = 1")
    case False
    with assms slice show ?thesis
      by (auto simp: cl_chop_def rev_map)
  qed (use assms in \<open>simp add: cl_chop_def\<close>)
  moreover have "cl_Concat ?parts = W (m * k) a"
    using assms by (subst cl_Concat_bvs) (simp_all add: concat_chunks sum_list_triv)
  moreover have "?parts ! i = W k (drop_bit ((m - 1 - i) * k) a)" if "i < m" for i
    using that by (simp add: rev_nth)
  ultimately show ?thesis by (intro exI [of _ ?parts]) simp
qed

theorem chop_concat_witness:
  "\<exists>parts. cl_chop (int 8) (W (4 * 8) 0x12345678) = Inr parts \<and> cl_Concat parts = W (4 * 8) 0x12345678"
  using chop_concat [of 8 4 "0x12345678"] by auto

text \<open>
  The checks of the interface: each operator on two bit-vectors of different widths raises
  \<open>ClaripyOperationError\<close>, and so do \<open>Extract\<close> outside the vector and an extension by a negative
  amount.
\<close>

lemma interface_checks:
  assumes "n \<noteq> m" and "high < 0 \<or> low < 0 \<or> high < low \<or> int n \<le> high" and "k < 0"
  shows "cl_Extract high low (W n a) = Inl ClaripyOperationError
       \<and> cl_zero_extend k (W n a) = Inl ClaripyOperationError
       \<and> cl_sign_extend k (W n a) = Inl ClaripyOperationError
       \<and> (\<forall>f \<in> {cl_add, cl_sub, cl_mul, cl_div, cl_mod, cl_SDiv, cl_SMod, cl_and, cl_or, cl_xor, cl_shl,
                cl_sar, cl_LShR, cl_RotateLeft, cl_RotateRight}. f (W n a) (W m b) = Inl ClaripyOperationError)
       \<and> (\<forall>f \<in> {cl_eq, cl_ne, cl_ULT, cl_ULE, cl_UGT, cl_UGE, cl_SLT, cl_SLE, cl_SGT, cl_SGE}.
                f (W n a) (W m b) = Inl ClaripyOperationError)"
  using assms by (auto simp: cl_ring_defs cl_bitwise_defs cl_div_def cl_mod_def cl_SDiv_def cl_SMod_def cl_shl_def
      cl_sar_def cl_LShR_def cl_RotateLeft_def cl_RotateRight_def cl_cmp_defs cl_Extract_def cl_zero_extend_def
      cl_sign_extend_def bv1_def bv2_def lift2_mismatch lift1_W check_simps)

end
