(* ===== verification/CCall_Data.thy ===== *)
theory CCall_Data
  imports Claripy_BV
begin

text \<open>
  The condition-code tables of \<open>angr/engines/vex/claripy/ccall.py\<close> and the helpers that every
  condition-code function uses. A dictionary with constant keys is an association list in the
  order of the assignments; \<open>data_inverted\<close> is computed from it as the source does.
\<close>

section \<open>Helpers\<close>

text \<open>\<open>for i in range(p_part.size()): b = b ^ p_part[i]\<close>\<close>

fun parity_loop :: "val \<Rightarrow> val \<Rightarrow> nat list \<Rightarrow> val" where
  "parity_loop b p [] = b"
| "parity_loop b p (i # is) = parity_loop (cl_xor b (cl_bit (int i) p)) p is"

definition calc_paritybit :: "val \<Rightarrow> int \<Rightarrow> int \<Rightarrow> val" where
  "calc_paritybit p msb lsb =
     bind_res (cl_size p) (\<lambda>n.
       let p_part = (if n > msb then cl_slice (Some msb) (Some lsb) p else p) in
       bind_res (cl_size p_part) (\<lambda>m. parity_loop (cl_BVV 1 1) p_part [0..<nat m]))"

definition cond_flag :: "bool res \<Rightarrow> val" where
  "cond_flag c = cl_If c (cl_BVV 1 1) (cl_BVV 0 1)"

definition calc_zerobit :: "val \<Rightarrow> val" where
  "calc_zerobit p = cond_flag (cl_eq p (lit 0))"

definition boolean_extend :: "(val \<Rightarrow> val \<Rightarrow> bool res) \<Rightarrow> val \<Rightarrow> val \<Rightarrow> int \<Rightarrow> val" where
  "boolean_extend f a b n = cl_If (f a b) (cl_BVV 1 n) (cl_BVV 0 n)"

text \<open>\<open>op_concretize\<close> on a Python integer or on a \<open>BVV\<close>.\<close>

definition op_concretize :: "val \<Rightarrow> int res" where
  "op_concretize x = map_res (\<lambda>a. case a of Num k \<Rightarrow> k | Bv b \<Rightarrow> bv_value b) x"

section \<open>Tables\<close>

datatype platform = AMD64 | X86

record CCallTables =
  size_of :: int
  CondTypes :: "(string \<times> int) list"
  CondBitOffsets :: "(string \<times> int) list"
  CondBitMasks :: "(string \<times> int) list"
  OpTypes :: "(string \<times> int option) list"

definition dget :: "(string \<times> 'a) list \<Rightarrow> string \<Rightarrow> 'a" where
  "dget t k = the (map_of t k)"

definition amd64_CondTypes :: "(string \<times> int) list" where
  "amd64_CondTypes = [
     (''CondO'', 0), (''CondNO'', 1), (''CondB'', 2), (''CondNB'', 3), (''CondZ'', 4),
     (''CondNZ'', 5), (''CondBE'', 6), (''CondNBE'', 7), (''CondS'', 8), (''CondNS'', 9),
     (''CondP'', 10), (''CondNP'', 11), (''CondL'', 12), (''CondNL'', 13), (''CondLE'', 14),
     (''CondNLE'', 15)]"

definition amd64_CondBitOffsets :: "(string \<times> int) list" where
  "amd64_CondBitOffsets = [
     (''G_CC_SHIFT_O'', 11), (''G_CC_SHIFT_S'', 7), (''G_CC_SHIFT_Z'', 6),
     (''G_CC_SHIFT_A'', 4), (''G_CC_SHIFT_C'', 0), (''G_CC_SHIFT_P'', 2)]"

definition amd64_CondBitMasks :: "(string \<times> int) list" where
  "amd64_CondBitMasks = [
     (''G_CC_MASK_O'', push_bit (nat (dget amd64_CondBitOffsets ''G_CC_SHIFT_O'')) 1),
     (''G_CC_MASK_S'', push_bit (nat (dget amd64_CondBitOffsets ''G_CC_SHIFT_S'')) 1),
     (''G_CC_MASK_Z'', push_bit (nat (dget amd64_CondBitOffsets ''G_CC_SHIFT_Z'')) 1),
     (''G_CC_MASK_A'', push_bit (nat (dget amd64_CondBitOffsets ''G_CC_SHIFT_A'')) 1),
     (''G_CC_MASK_C'', push_bit (nat (dget amd64_CondBitOffsets ''G_CC_SHIFT_C'')) 1),
     (''G_CC_MASK_P'', push_bit (nat (dget amd64_CondBitOffsets ''G_CC_SHIFT_P'')) 1)]"

definition amd64_OpTypes :: "(string \<times> int option) list" where
  "amd64_OpTypes = [
     (''G_CC_OP_COPY'', Some 0), (''G_CC_OP_ADDB'', Some 1), (''G_CC_OP_ADDW'', Some 2),
     (''G_CC_OP_ADDL'', Some 3), (''G_CC_OP_ADDQ'', Some 4), (''G_CC_OP_SUBB'', Some 5),
     (''G_CC_OP_SUBW'', Some 6), (''G_CC_OP_SUBL'', Some 7), (''G_CC_OP_SUBQ'', Some 8),
     (''G_CC_OP_ADCB'', Some 9), (''G_CC_OP_ADCW'', Some 10), (''G_CC_OP_ADCL'', Some 11),
     (''G_CC_OP_ADCQ'', Some 12), (''G_CC_OP_SBBB'', Some 13), (''G_CC_OP_SBBW'', Some 14),
     (''G_CC_OP_SBBL'', Some 15), (''G_CC_OP_SBBQ'', Some 16), (''G_CC_OP_LOGICB'', Some 17),
     (''G_CC_OP_LOGICW'', Some 18), (''G_CC_OP_LOGICL'', Some 19),
     (''G_CC_OP_LOGICQ'', Some 20), (''G_CC_OP_INCB'', Some 21), (''G_CC_OP_INCW'', Some 22),
     (''G_CC_OP_INCL'', Some 23), (''G_CC_OP_INCQ'', Some 24), (''G_CC_OP_DECB'', Some 25),
     (''G_CC_OP_DECW'', Some 26), (''G_CC_OP_DECL'', Some 27), (''G_CC_OP_DECQ'', Some 28),
     (''G_CC_OP_SHLB'', Some 29), (''G_CC_OP_SHLW'', Some 30), (''G_CC_OP_SHLL'', Some 31),
     (''G_CC_OP_SHLQ'', Some 32), (''G_CC_OP_SHRB'', Some 33), (''G_CC_OP_SHRW'', Some 34),
     (''G_CC_OP_SHRL'', Some 35), (''G_CC_OP_SHRQ'', Some 36), (''G_CC_OP_ROLB'', Some 37),
     (''G_CC_OP_ROLW'', Some 38), (''G_CC_OP_ROLL'', Some 39), (''G_CC_OP_ROLQ'', Some 40),
     (''G_CC_OP_RORB'', Some 41), (''G_CC_OP_RORW'', Some 42), (''G_CC_OP_RORL'', Some 43),
     (''G_CC_OP_RORQ'', Some 44), (''G_CC_OP_UMULB'', Some 45), (''G_CC_OP_UMULW'', Some 46),
     (''G_CC_OP_UMULL'', Some 47), (''G_CC_OP_UMULQ'', Some 48), (''G_CC_OP_SMULB'', Some 49),
     (''G_CC_OP_SMULW'', Some 50), (''G_CC_OP_SMULL'', Some 51), (''G_CC_OP_SMULQ'', Some 52),
     (''G_CC_OP_ANDN32'', Some 53), (''G_CC_OP_ANDN64'', Some 54),
     (''G_CC_OP_BLSI32'', Some 55), (''G_CC_OP_BLSI64'', Some 56),
     (''G_CC_OP_BLSMSK32'', Some 57), (''G_CC_OP_BLSMSK64'', Some 58),
     (''G_CC_OP_BLSR32'', Some 59), (''G_CC_OP_BLSR64'', Some 60),
     (''G_CC_OP_ADCXL'', Some 61), (''G_CC_OP_ADCXQ'', Some 62), (''G_CC_OP_ADOXL'', Some 63),
     (''G_CC_OP_ADOXQ'', Some 64), (''G_CC_OP_NUMBER'', Some 65)]"

definition x86_CondTypes :: "(string \<times> int) list" where
  "x86_CondTypes = [
     (''CondO'', 0), (''CondNO'', 1), (''CondB'', 2), (''CondNB'', 3), (''CondZ'', 4),
     (''CondNZ'', 5), (''CondBE'', 6), (''CondNBE'', 7), (''CondS'', 8), (''CondNS'', 9),
     (''CondP'', 10), (''CondNP'', 11), (''CondL'', 12), (''CondNL'', 13), (''CondLE'', 14),
     (''CondNLE'', 15), (''CondAlways'', 16)]"

definition x86_CondBitOffsets :: "(string \<times> int) list" where
  "x86_CondBitOffsets = [
     (''G_CC_SHIFT_O'', 11), (''G_CC_SHIFT_S'', 7), (''G_CC_SHIFT_Z'', 6),
     (''G_CC_SHIFT_A'', 4), (''G_CC_SHIFT_C'', 0), (''G_CC_SHIFT_P'', 2)]"

definition x86_CondBitMasks :: "(string \<times> int) list" where
  "x86_CondBitMasks = [
     (''G_CC_MASK_O'', push_bit (nat (dget x86_CondBitOffsets ''G_CC_SHIFT_O'')) 1),
     (''G_CC_MASK_S'', push_bit (nat (dget x86_CondBitOffsets ''G_CC_SHIFT_S'')) 1),
     (''G_CC_MASK_Z'', push_bit (nat (dget x86_CondBitOffsets ''G_CC_SHIFT_Z'')) 1),
     (''G_CC_MASK_A'', push_bit (nat (dget x86_CondBitOffsets ''G_CC_SHIFT_A'')) 1),
     (''G_CC_MASK_C'', push_bit (nat (dget x86_CondBitOffsets ''G_CC_SHIFT_C'')) 1),
     (''G_CC_MASK_P'', push_bit (nat (dget x86_CondBitOffsets ''G_CC_SHIFT_P'')) 1)]"

definition x86_OpTypes :: "(string \<times> int option) list" where
  "x86_OpTypes = [
     (''G_CC_OP_COPY'', Some 0), (''G_CC_OP_ADDB'', Some 1), (''G_CC_OP_ADDW'', Some 2),
     (''G_CC_OP_ADDL'', Some 3), (''G_CC_OP_SUBB'', Some 4), (''G_CC_OP_SUBW'', Some 5),
     (''G_CC_OP_SUBL'', Some 6), (''G_CC_OP_ADCB'', Some 7), (''G_CC_OP_ADCW'', Some 8),
     (''G_CC_OP_ADCL'', Some 9), (''G_CC_OP_SBBB'', Some 10), (''G_CC_OP_SBBW'', Some 11),
     (''G_CC_OP_SBBL'', Some 12), (''G_CC_OP_LOGICB'', Some 13), (''G_CC_OP_LOGICW'', Some 14),
     (''G_CC_OP_LOGICL'', Some 15), (''G_CC_OP_INCB'', Some 16), (''G_CC_OP_INCW'', Some 17),
     (''G_CC_OP_INCL'', Some 18), (''G_CC_OP_DECB'', Some 19), (''G_CC_OP_DECW'', Some 20),
     (''G_CC_OP_DECL'', Some 21), (''G_CC_OP_SHLB'', Some 22), (''G_CC_OP_SHLW'', Some 23),
     (''G_CC_OP_SHLL'', Some 24), (''G_CC_OP_SHRB'', Some 25), (''G_CC_OP_SHRW'', Some 26),
     (''G_CC_OP_SHRL'', Some 27), (''G_CC_OP_ROLB'', Some 28), (''G_CC_OP_ROLW'', Some 29),
     (''G_CC_OP_ROLL'', Some 30), (''G_CC_OP_RORB'', Some 31), (''G_CC_OP_RORW'', Some 32),
     (''G_CC_OP_RORL'', Some 33), (''G_CC_OP_UMULB'', Some 34), (''G_CC_OP_UMULW'', Some 35),
     (''G_CC_OP_UMULL'', Some 36), (''G_CC_OP_SMULB'', Some 37), (''G_CC_OP_SMULW'', Some 38),
     (''G_CC_OP_SMULL'', Some 39), (''G_CC_OP_NUMBER'', Some 40), (''G_CC_OP_SMULQ'', None),
     (''G_CC_OP_UMULQ'', None), (''G_CC_OP_RORQ'', None), (''G_CC_OP_ROLQ'', None),
     (''G_CC_OP_SHRQ'', None), (''G_CC_OP_SHLQ'', None), (''G_CC_OP_DECQ'', None),
     (''G_CC_OP_INCQ'', None), (''G_CC_OP_LOGICQ'', None), (''G_CC_OP_SBBQ'', None),
     (''G_CC_OP_ADCQ'', None), (''G_CC_OP_SUBQ'', None), (''G_CC_OP_ADDQ'', None)]"

definition data :: "platform \<Rightarrow> CCallTables" where
  "data p = (case p of
     AMD64 \<Rightarrow> \<lparr>size_of = 64, CondTypes = amd64_CondTypes, CondBitOffsets = amd64_CondBitOffsets,
               CondBitMasks = amd64_CondBitMasks, OpTypes = amd64_OpTypes\<rparr>
   | X86 \<Rightarrow> \<lparr>size_of = 32, CondTypes = x86_CondTypes, CondBitOffsets = x86_CondBitOffsets,
             CondBitMasks = x86_CondBitMasks, OpTypes = x86_OpTypes\<rparr>)"

text \<open>\<open>{value: name for name, value in table.items()}\<close>: a later entry wins.\<close>

definition invert :: "(string \<times> 'a) list \<Rightarrow> ('a \<times> string) list" where
  "invert t = rev (map (\<lambda>(n, v). (v, n)) t)"

definition data_inverted_OpTypes :: "platform \<Rightarrow> (int option \<times> string) list" where
  "data_inverted_OpTypes p = invert (OpTypes (data p))"

definition endswith :: "string \<Rightarrow> string \<Rightarrow> bool" where
  "endswith s t = (take (length t) (rev s) = rev t)"

definition get_nbits :: "string \<Rightarrow> int option" where
  "get_nbits cc_str =
     (if endswith cc_str ''B'' then Some 8
      else if endswith cc_str ''W'' then Some 16
      else if endswith cc_str ''L'' then Some 32
      else if endswith cc_str ''Q'' then Some 64
      else if endswith cc_str ''32'' then Some 32
      else if endswith cc_str ''64'' then Some 64
      else None)"

section \<open>Packing flags into one vector\<close>

fun concat_flags_loop :: "int \<Rightarrow> val \<Rightarrow> (int \<times> val) list \<Rightarrow> val" where
  "concat_flags_loop nbits result [] =
     bind_res (cl_size result) (\<lambda>len. cl_Concat [result, cl_BVV 0 (nbits - len)])"
| "concat_flags_loop nbits result ((offset, b) # vec) =
     bind_res (cl_size result) (\<lambda>len.
       concat_flags_loop nbits (cl_Concat [result, cl_BVV 0 (nbits - 1 - len - offset), b]) vec)"

definition concat_flags :: "int \<Rightarrow> (int \<times> val) list \<Rightarrow> val" where
  "concat_flags nbits flags_vec = concat_flags_loop nbits (cl_BVV 0 0) flags_vec"

section \<open>Facts about the helpers\<close>

named_theorems table_simps

lemma offsets_simps [simp, table_simps]:
  "dget (CondBitOffsets (data p)) ''G_CC_SHIFT_O'' = 11"
  "dget (CondBitOffsets (data p)) ''G_CC_SHIFT_S'' = 7"
  "dget (CondBitOffsets (data p)) ''G_CC_SHIFT_Z'' = 6"
  "dget (CondBitOffsets (data p)) ''G_CC_SHIFT_A'' = 4"
  "dget (CondBitOffsets (data p)) ''G_CC_SHIFT_C'' = 0"
  "dget (CondBitOffsets (data p)) ''G_CC_SHIFT_P'' = 2"
  by (cases p; simp add: data_def dget_def amd64_CondBitOffsets_def x86_CondBitOffsets_def)+

lemma masks_simps [simp, table_simps]:
  "dget (CondBitMasks (data p)) ''G_CC_MASK_O'' = 2048"
  "dget (CondBitMasks (data p)) ''G_CC_MASK_S'' = 128"
  "dget (CondBitMasks (data p)) ''G_CC_MASK_Z'' = 64"
  "dget (CondBitMasks (data p)) ''G_CC_MASK_A'' = 16"
  "dget (CondBitMasks (data p)) ''G_CC_MASK_C'' = 1"
  "dget (CondBitMasks (data p)) ''G_CC_MASK_P'' = 4"
  by (cases p; simp add: data_def dget_def amd64_CondBitMasks_def x86_CondBitMasks_def
      amd64_CondBitOffsets_def x86_CondBitOffsets_def)+

lemma size_of_simps [simp]: "size_of (data AMD64) = 64" "size_of (data X86) = 32"
  by (simp_all add: data_def)

lemma size_of_cases: "size_of (data p) = 64 \<or> size_of (data p) = 32"
  by (cases p) simp_all

text \<open>The parity flag: an even number of bits are set among the low eight.\<close>

definition even_parity :: "nat \<Rightarrow> int \<Rightarrow> bool" where
  "even_parity m v \<longleftrightarrow> even (length (filter (bit v) [0..<m]))"

lemma parity_loop_W:
  "list_all (\<lambda>i. i < n) is \<Longrightarrow> parity_loop (flag P) (W n v) is =
     flag (P \<noteq> odd (length (filter (bit (take_bit n v)) is)))"
  by (induction "is" arbitrary: P) (auto simp: bv_simps flag_simps)

lemma calc_paritybit_W [bv_simps]:
  assumes "8 \<le> n"
  shows "calc_paritybit (W n v) 7 0 = flag (even_parity 8 v)"
proof -
  have "filter (bit (take_bit 8 (take_bit n v))) [0..<8] = filter (bit v) [0..<8]"
    using assms by (intro filter_cong) (auto simp: bit_take_bit_iff)
  then show ?thesis
    using assms by (auto simp: calc_paritybit_def bv_simps flag_simps parity_loop_W even_parity_def list_all_iff)
qed

lemma cond_flag_W [bv_simps]: "cond_flag (Inr c) = flag c"
  by (simp add: cond_flag_def flag_simps)

lemma calc_zerobit_W [bv_simps]: "0 < n \<Longrightarrow> calc_zerobit (W n v) = flag (take_bit n v = 0)"
  by (simp add: calc_zerobit_def bv_simps)

lemma boolean_extend_W [bv_simps]:
  "f x y = Inr c \<Longrightarrow> 0 \<le> n \<Longrightarrow> boolean_extend f x y n = W (nat n) (of_bool c)"
  by (simp add: boolean_extend_def bv_simps)

lemma op_concretize_simps [simp]:
  "op_concretize (lit k) = Inr k" "op_concretize (W n v) = Inr (take_bit n v)"
  by (simp_all add: op_concretize_def lit_def)

text \<open>Flags at strictly decreasing offsets are packed at exactly these positions.\<close>

fun descending :: "int \<Rightarrow> (int \<times> bool) list \<Rightarrow> bool" where
  "descending hi [] = True"
| "descending hi ((off, b) # vec) = (0 \<le> off \<and> off < hi \<and> descending off vec)"

definition packed :: "(int \<times> bool) list \<Rightarrow> int" where
  "packed vec = (\<Sum>(off, b)\<leftarrow>vec. of_bool b * 2 ^ nat off)"

lemma packed_simps [simp]:
  "packed [] = 0" "packed ((off, b) # vec) = of_bool b * 2 ^ nat off + packed vec"
  by (simp_all add: packed_def)

lemma concat_step:
  assumes "0 \<le> k"
  shows "cl_Concat [W len v, cl_BVV 0 k, flag b] = W (len + nat k + 1) (v * 2 ^ (nat k + 1) + of_bool b)"
proof -
  have or1: "push_bit 1 x OR of_bool b = 2 * x + of_bool b" for x :: int
    by (cases b) (simp_all add: or_one_eq)
  have "cl_Concat [W len v, cl_BVV 0 k, flag b] =
      W (len + nat k + 1) (push_bit 1 (push_bit (nat k) v) OR of_bool b)"
    using assms by (simp add: cl_BVV_W flag_def cl_Concat_W3)
  also have "push_bit 1 (push_bit (nat k) v) OR of_bool b = v * 2 ^ (nat k + 1) + of_bool b"
    unfolding or1 by (simp add: push_bit_eq_mult)
  finally show ?thesis .
qed

lemma concat_flags_loop_packed:
  assumes "len \<le> N" and "descending (int (N - len)) vec"
  shows "concat_flags_loop (int N) (W len v) (map (\<lambda>(off, b). (off, flag b)) vec) =
           W N (v * 2 ^ (N - len) + packed vec)"
  using assms
proof (induction vec arbitrary: len v)
  case Nil
  have "int N - int len = int (N - len)" using Nil.prems by simp
  then have "concat_flags_loop (int N) (W len v) [] = W (len + (N - len)) (push_bit (N - len) v)"
    by (simp only: concat_flags_loop.simps cl_size_W bind_res_Inr cl_BVV_W cl_Concat_W2 of_nat_0_le_iff
        nat_int take_bit_of_0 or.right_neutral)
  then show ?case using Nil.prems by (simp add: push_bit_eq_mult)
next
  case (Cons ob vec)
  obtain off b where ob: "ob = (off, b)" by force
  define m where "m = nat off"
  have off: "off = int m" and m: "m < N - len" and desc: "descending (int m) vec"
    using Cons.prems ob by (auto simp: m_def)
  have k: "int N - 1 - int len - off = int (N - len - m - 1)"
    using m off by simp
  have len': "len + (N - len - m - 1) + 1 = N - m" "N - (N - m) = m" using m by simp_all
  have "N - len - m - 1 + 1 + m = N - len" using m by simp
  then have pow: "(2 :: int) ^ (N - len - m - 1 + 1) * 2 ^ m = 2 ^ (N - len)"
    by (simp only: power_add [symmetric])
  have "concat_flags_loop (int N) (W len v) (map (\<lambda>(off, b). (off, flag b)) (ob # vec)) =
      concat_flags_loop (int N) (W (N - m) (v * 2 ^ (N - len - m - 1 + 1) + of_bool b))
        (map (\<lambda>(off, b). (off, flag b)) vec)"
    using concat_step [of "int (N - len - m - 1)" len v b]
    by (simp only: ob list.map prod.case concat_flags_loop.simps cl_size_W bind_res_Inr k len'(1)
        nat_int of_nat_0_le_iff)
  also have "\<dots> = W N ((v * 2 ^ (N - len - m - 1 + 1) + of_bool b) * 2 ^ m + packed vec)"
    using Cons.IH [of "N - m"] desc m len'(2) by simp
  also have "(v * 2 ^ (N - len - m - 1 + 1) + of_bool b) * 2 ^ m + packed vec =
      v * 2 ^ (N - len) + packed (ob # vec)"
    using pow by (simp only: distrib_right mult.assoc ob packed_simps off nat_int add.assoc)
  finally show ?case .
qed

lemma concat_flags_packed:
  assumes "descending (int N) vec" and "fvec = map (\<lambda>(off, b). (off, flag b)) vec"
  shows "concat_flags (int N) fvec = W N (packed vec)"
  using concat_flags_loop_packed [of 0 N vec 0] assms by (simp add: concat_flags_def bv_simps)

end
