(* ===== verification/CCall_X86.thy ===== *)
theory CCall_X86
  imports CCall_Data
begin

text \<open>
  The condition-code helpers of x86 and amd64 (\<open>angr/engines/vex/claripy/ccall.py\<close>): one
  definition per \<open>pc_actions_*\<close>, the dispatch on \<open>cc_op\<close>, the packing of the six flags into one
  vector and the evaluation of a condition. The argument \<open>state\<close>, which no flag action reads, is
  left out; calls to the logger are left out.
\<close>

section \<open>Results of a flag action\<close>

text \<open>
  A flag action returns the tuple \<open>(cf, pf, af, zf, sf, of)\<close>; for \<open>G_CC_OP_COPY\<close> the dispatch
  returns one packed vector instead.
\<close>

datatype rdata =
    Flags operand operand operand operand operand operand
  | Packed operand

definition pc_preamble :: "int \<Rightarrow> val \<times> int" where
  "pc_preamble nbits = (cl_BVV (2 ^ nat nbits - 1) nbits, push_bit (nat (nbits - 1)) 1)"

definition pc_make_rdata ::
  "val \<Rightarrow> val \<Rightarrow> val \<Rightarrow> val \<Rightarrow> val \<Rightarrow> val \<Rightarrow> rdata res" where
  "pc_make_rdata cf pf af zf sf of' =
     bind_res cf (\<lambda>c. bind_res pf (\<lambda>p. bind_res af (\<lambda>a.
     bind_res zf (\<lambda>z. bind_res sf (\<lambda>s. bind_res of' (\<lambda>o'. Inr (Flags c p a z s o')))))))"

definition pc_make_rdata_if_necessary ::
  "int \<Rightarrow> operand \<Rightarrow> operand \<Rightarrow> operand \<Rightarrow> operand \<Rightarrow> operand \<Rightarrow> operand \<Rightarrow> platform \<Rightarrow> val" where
  "pc_make_rdata_if_necessary nbits cf pf af zf sf of' platform =
     (let off = dget (CondBitOffsets (data platform));
          vec = [(off ''G_CC_SHIFT_C'', Inr cf), (off ''G_CC_SHIFT_P'', Inr pf),
                 (off ''G_CC_SHIFT_A'', Inr af), (off ''G_CC_SHIFT_Z'', Inr zf),
                 (off ''G_CC_SHIFT_S'', Inr sf), (off ''G_CC_SHIFT_O'', Inr of')]
      in concat_flags nbits (sort_key (\<lambda>x. - fst x) vec))"

text \<open>\<open>(cc_ndep & data[platform]["CondBitMasks"][m])[data[platform]["CondBitOffsets"][s]]\<close>\<close>

definition ndep_flag :: "platform \<Rightarrow> string \<Rightarrow> string \<Rightarrow> val \<Rightarrow> val" where
  "ndep_flag platform m s cc_ndep =
     cl_bit (dget (CondBitOffsets (data platform)) s)
       (cl_and cc_ndep (lit (dget (CondBitMasks (data platform)) m)))"

section \<open>Flag actions\<close>

definition pc_actions_ADD ::
  "int \<Rightarrow> val \<Rightarrow> val \<Rightarrow> val \<Rightarrow> platform \<Rightarrow> rdata res" where
  "pc_actions_ADD nbits arg_l arg_r cc_ndep platform =
     (let data_mask = fst (pc_preamble nbits);
          res = cl_add arg_l arg_r;
          cf = cl_If (cl_ULT res arg_l) (cl_BVV 1 1) (cl_BVV 0 1);
          pf = calc_paritybit res 7 0;
          af = cl_bit (dget (CondBitOffsets (data platform)) ''G_CC_SHIFT_A'') (cl_xor (cl_xor res arg_l) arg_r);
          zf = calc_zerobit res;
          sf = cl_slice (Some (nbits - 1)) (Some (nbits - 1)) res;
          of' = cl_slice (Some (nbits - 1)) (Some (nbits - 1))
            (cl_and (cl_xor (cl_xor arg_l arg_r) data_mask) (cl_xor arg_l res))
      in pc_make_rdata cf pf af zf sf of')"

definition pc_actions_SUB ::
  "int \<Rightarrow> val \<Rightarrow> val \<Rightarrow> val \<Rightarrow> platform \<Rightarrow> rdata res" where
  "pc_actions_SUB nbits arg_l arg_r cc_ndep platform =
     (let res = cl_sub arg_l arg_r;
          cf = cl_If (cl_ULT arg_l arg_r) (cl_BVV 1 1) (cl_BVV 0 1);
          pf = calc_paritybit res 7 0;
          af = cl_bit (dget (CondBitOffsets (data platform)) ''G_CC_SHIFT_A'') (cl_xor (cl_xor res arg_l) arg_r);
          zf = calc_zerobit res;
          sf = cl_slice (Some (nbits - 1)) (Some (nbits - 1)) res;
          of' = cl_slice (Some (nbits - 1)) (Some (nbits - 1))
            (cl_and (cl_xor arg_l arg_r) (cl_xor arg_l res))
      in pc_make_rdata cf pf af zf sf of')"

definition pc_actions_LOGIC ::
  "int \<Rightarrow> val \<Rightarrow> val \<Rightarrow> val \<Rightarrow> platform \<Rightarrow> rdata res" where
  "pc_actions_LOGIC nbits arg_l arg_r cc_ndep platform =
     (let cf = cl_BVV 0 1;
          pf = calc_paritybit arg_l 7 0;
          af = cl_BVV 0 1;
          zf = calc_zerobit arg_l;
          sf = cl_bit (nbits - 1) arg_l;
          of' = cl_BVV 0 1
      in pc_make_rdata cf pf af zf sf of')"

definition pc_actions_DEC ::
  "int \<Rightarrow> val \<Rightarrow> val \<Rightarrow> val \<Rightarrow> platform \<Rightarrow> rdata res" where
  "pc_actions_DEC nbits res arg_2 cc_ndep platform =
     (let arg_l = cl_add res (lit 1);
          cf = ndep_flag platform ''G_CC_MASK_C'' ''G_CC_SHIFT_C'' cc_ndep;
          pf = calc_paritybit res 7 0;
          af = cl_bit (dget (CondBitOffsets (data platform)) ''G_CC_SHIFT_A'') (cl_xor (cl_xor res arg_l) (lit 1));
          zf = calc_zerobit res;
          sf = cl_bit (nbits - 1) res;
          of' = cl_If (cl_eq arg_l (lit (push_bit (nat (nbits - 1)) 1))) (cl_BVV 1 1) (cl_BVV 0 1)
      in pc_make_rdata cf pf af zf sf of')"

definition pc_actions_ADC ::
  "int \<Rightarrow> val \<Rightarrow> val \<Rightarrow> val \<Rightarrow> platform \<Rightarrow> rdata res" where
  "pc_actions_ADC nbits cc_dep1 cc_dep2 cc_ndep platform =
     (let old_c = cl_and cc_ndep (lit (dget (CondBitMasks (data platform)) ''G_CC_MASK_C''));
          arg_l = cc_dep1;
          arg_r = cl_xor cc_dep2 old_c;
          res = cl_add (cl_add arg_l arg_r) old_c;
          cf = cl_If (cl_ne old_c (lit 0))
            (cl_If (cl_ULE res arg_l) (cl_BVV 1 1) (cl_BVV 0 1))
            (cl_If (cl_ULT res arg_l) (cl_BVV 1 1) (cl_BVV 0 1));
          pf = calc_paritybit res 7 0;
          af = cl_bit (dget (CondBitOffsets (data platform)) ''G_CC_SHIFT_A'') (cl_xor (cl_xor res arg_l) arg_r);
          zf = calc_zerobit res;
          sf = cl_bit (nbits - 1) res;
          of' = cl_bit (nbits - 1)
            (cl_and (cl_xor (cl_xor arg_l arg_r) (lit (- 1))) (cl_xor arg_l res))
      in pc_make_rdata cf pf af zf sf of')"

definition pc_actions_ADCX ::
  "int \<Rightarrow> val \<Rightarrow> val \<Rightarrow> val \<Rightarrow> bool \<Rightarrow> platform \<Rightarrow> rdata res" where
  "pc_actions_ADCX nbits cc_dep1 cc_dep2 cc_ndep is_adc platform =
     (let pf = ndep_flag platform ''G_CC_MASK_P'' ''G_CC_SHIFT_P'' cc_ndep;
          af = ndep_flag platform ''G_CC_MASK_A'' ''G_CC_SHIFT_A'' cc_ndep;
          zf = ndep_flag platform ''G_CC_MASK_Z'' ''G_CC_SHIFT_Z'' cc_ndep;
          sf = ndep_flag platform ''G_CC_MASK_S'' ''G_CC_SHIFT_S'' cc_ndep;
          carry_in = cl_and (cl_LShR cc_ndep (lit (dget (CondBitOffsets (data platform))
            (if is_adc then ''G_CC_SHIFT_C'' else ''G_CC_SHIFT_O'')))) (lit 1);
          arg_l = cc_dep1;
          arg_r = cl_xor cc_dep2 carry_in;
          res = cl_add (cl_add arg_l arg_r) carry_in;
          carry = cl_If (cl_ne carry_in (lit 0))
            (cl_If (cl_ULE res arg_l) (cl_BVV 1 1) (cl_BVV 0 1))
            (cl_If (cl_ULT res arg_l) (cl_BVV 1 1) (cl_BVV 0 1));
          cf = (if is_adc then carry else ndep_flag platform ''G_CC_MASK_C'' ''G_CC_SHIFT_C'' cc_ndep);
          of' = (if is_adc then ndep_flag platform ''G_CC_MASK_O'' ''G_CC_SHIFT_O'' cc_ndep else carry)
      in pc_make_rdata cf pf af zf sf of')"

definition pc_actions_ANDN ::
  "int \<Rightarrow> val \<Rightarrow> val \<Rightarrow> val \<Rightarrow> platform \<Rightarrow> rdata res" where
  "pc_actions_ANDN nbits cc_dep1 cc_dep2 cc_ndep platform =
     (let cf = cl_BVV 0 1;
          pf = cl_BVV 0 1;
          af = cl_BVV 0 1;
          of' = cl_BVV 0 1;
          zf = cond_flag (cl_eq cc_dep1 (lit 0));
          sf = cl_bit (nbits - 1) cc_dep1
      in pc_make_rdata cf pf af zf sf of')"

definition pc_actions_BLSI ::
  "int \<Rightarrow> val \<Rightarrow> val \<Rightarrow> val \<Rightarrow> platform \<Rightarrow> rdata res" where
  "pc_actions_BLSI nbits cc_dep1 cc_dep2 cc_ndep platform =
     (let pf = cl_BVV 0 1;
          af = cl_BVV 0 1;
          of' = cl_BVV 0 1;
          cf = cond_flag (cl_ne cc_dep2 (lit 0));
          zf = cond_flag (cl_eq cc_dep1 (lit 0));
          sf = cl_bit (nbits - 1) cc_dep1
      in pc_make_rdata cf pf af zf sf of')"

definition pc_actions_BLSMSK ::
  "int \<Rightarrow> val \<Rightarrow> val \<Rightarrow> val \<Rightarrow> platform \<Rightarrow> rdata res" where
  "pc_actions_BLSMSK nbits cc_dep1 cc_dep2 cc_ndep platform =
     (let pf = cl_BVV 0 1;
          af = cl_BVV 0 1;
          of' = cl_BVV 0 1;
          zf = cl_BVV 0 1;
          cf = cond_flag (cl_eq cc_dep2 (lit 0));
          sf = cl_bit (nbits - 1) cc_dep1
      in pc_make_rdata cf pf af zf sf of')"

definition pc_actions_BLSR ::
  "int \<Rightarrow> val \<Rightarrow> val \<Rightarrow> val \<Rightarrow> platform \<Rightarrow> rdata res" where
  "pc_actions_BLSR nbits cc_dep1 cc_dep2 cc_ndep platform =
     (let pf = cl_BVV 0 1;
          af = cl_BVV 0 1;
          of' = cl_BVV 0 1;
          cf = cond_flag (cl_eq cc_dep2 (lit 0));
          zf = cond_flag (cl_eq cc_dep1 (lit 0));
          sf = cl_bit (nbits - 1) cc_dep1
      in pc_make_rdata cf pf af zf sf of')"

definition pc_actions_SBB ::
  "int \<Rightarrow> val \<Rightarrow> val \<Rightarrow> val \<Rightarrow> platform \<Rightarrow> rdata res" where
  "pc_actions_SBB nbits cc_dep1 cc_dep2 cc_ndep platform =
     (let old_c = cl_zero_extend (nbits - 1)
            (cl_bit (dget (CondBitOffsets (data platform)) ''G_CC_SHIFT_C'') cc_ndep);
          arg_l = cc_dep1;
          arg_r = cl_xor cc_dep2 old_c;
          res = cl_sub (cl_sub arg_l arg_r) old_c;
          cf_c = cl_If (cl_ULE arg_l arg_r) (cl_BVV 1 1) (cl_BVV 0 1);
          cf_noc = cl_If (cl_ULT arg_l arg_r) (cl_BVV 1 1) (cl_BVV 0 1);
          cf = cl_If (cl_eq old_c (lit 1)) cf_c cf_noc;
          pf = calc_paritybit res 7 0;
          af = cl_bit (dget (CondBitOffsets (data platform)) ''G_CC_SHIFT_A'') (cl_xor (cl_xor res arg_l) arg_r);
          zf = calc_zerobit res;
          sf = cl_bit (nbits - 1) res;
          of' = cl_bit (nbits - 1) (cl_and (cl_xor arg_l arg_r) (cl_xor arg_l res))
      in pc_make_rdata cf pf af zf sf of')"

definition pc_actions_INC ::
  "int \<Rightarrow> val \<Rightarrow> val \<Rightarrow> val \<Rightarrow> platform \<Rightarrow> rdata res" where
  "pc_actions_INC nbits res arg_2 cc_ndep platform =
     (let arg_l = cl_sub res (lit 1);
          cf = ndep_flag platform ''G_CC_MASK_C'' ''G_CC_SHIFT_C'' cc_ndep;
          pf = calc_paritybit res 7 0;
          af = cl_bit (dget (CondBitOffsets (data platform)) ''G_CC_SHIFT_A'') (cl_xor (cl_xor res arg_l) (lit 1));
          zf = calc_zerobit res;
          sf = cl_bit (nbits - 1) res;
          of' = cl_If (cl_eq res (lit (push_bit (nat (nbits - 1)) 1))) (cl_BVV 1 1) (cl_BVV 0 1)
      in pc_make_rdata cf pf af zf sf of')"

definition pc_actions_SHL ::
  "int \<Rightarrow> val \<Rightarrow> val \<Rightarrow> val \<Rightarrow> platform \<Rightarrow> rdata res" where
  "pc_actions_SHL nbits remaining shifted cc_ndep platform =
     (let cf = cl_bit (nbits - 1) shifted;
          pf = calc_paritybit (cl_slice (Some 7) (Some 0) remaining) 7 0;
          af = cl_BVV 0 1;
          zf = calc_zerobit remaining;
          sf = cl_bit (nbits - 1) remaining;
          of' = cl_bit 0 (cl_xor sf cf)
      in pc_make_rdata cf pf af zf sf of')"

definition pc_actions_SHR ::
  "int \<Rightarrow> val \<Rightarrow> val \<Rightarrow> val \<Rightarrow> platform \<Rightarrow> rdata res" where
  "pc_actions_SHR nbits remaining shifted cc_ndep platform =
     (let cf = cl_If (cl_ne (cl_and shifted (lit 1)) (lit 0)) (cl_BVV 1 1) (cl_BVV 0 1);
          pf = calc_paritybit (cl_slice (Some 7) (Some 0) remaining) 7 0;
          af = cl_BVV 0 1;
          zf = calc_zerobit remaining;
          sf = cl_bit (nbits - 1) remaining;
          of' = cl_bit 0 (cl_xor (cl_bit (nbits - 1) remaining) (cl_bit (nbits - 1) shifted))
      in pc_make_rdata cf pf af zf sf of')"

definition pc_actions_ROL ::
  "int \<Rightarrow> val \<Rightarrow> val \<Rightarrow> val \<Rightarrow> platform \<Rightarrow> rdata res" where
  "pc_actions_ROL nbits res arg_2 cc_ndep platform =
     (let cf = cl_bit 0 res;
          pf = ndep_flag platform ''G_CC_MASK_P'' ''G_CC_SHIFT_P'' cc_ndep;
          af = ndep_flag platform ''G_CC_MASK_A'' ''G_CC_SHIFT_A'' cc_ndep;
          zf = ndep_flag platform ''G_CC_MASK_Z'' ''G_CC_SHIFT_Z'' cc_ndep;
          sf = ndep_flag platform ''G_CC_MASK_S'' ''G_CC_SHIFT_S'' cc_ndep;
          of' = cl_bit 0 (cl_xor (cl_LShR res (lit (nbits - 1))) res)
      in pc_make_rdata cf pf af zf sf of')"

definition pc_actions_ROR ::
  "int \<Rightarrow> val \<Rightarrow> val \<Rightarrow> val \<Rightarrow> platform \<Rightarrow> rdata res" where
  "pc_actions_ROR nbits res arg_2 cc_ndep platform =
     (let cf = cl_bit (nbits - 1) res;
          pf = ndep_flag platform ''G_CC_MASK_P'' ''G_CC_SHIFT_P'' cc_ndep;
          af = ndep_flag platform ''G_CC_MASK_A'' ''G_CC_SHIFT_A'' cc_ndep;
          zf = ndep_flag platform ''G_CC_MASK_Z'' ''G_CC_SHIFT_Z'' cc_ndep;
          sf = ndep_flag platform ''G_CC_MASK_S'' ''G_CC_SHIFT_S'' cc_ndep;
          of' = cl_xor (cl_bit (nbits - 1) res) (cl_bit (nbits - 2) res)
      in pc_make_rdata cf pf af zf sf of')"

definition pc_actions_UMUL ::
  "int \<Rightarrow> val \<Rightarrow> val \<Rightarrow> val \<Rightarrow> platform \<Rightarrow> rdata res" where
  "pc_actions_UMUL nbits cc_dep1 cc_dep2 cc_ndep platform =
     (let rr = cl_mul (cl_zero_extend nbits cc_dep1) (cl_zero_extend nbits cc_dep2);
          hi = cl_slice (Some (2 * nbits - 1)) (Some nbits) rr;
          lo = cl_slice (Some (nbits - 1)) (Some 0) rr;
          cf = cl_If (cl_ne hi (lit 0)) (cl_BVV 1 1) (cl_BVV 0 1);
          zf = calc_zerobit lo;
          pf = calc_paritybit lo 7 0;
          af = cl_BVV 0 1;
          sf = cl_bit (nbits - 1) lo;
          of' = cf
      in pc_make_rdata cf pf af zf sf of')"

definition pc_actions_UMULQ :: "rdata res" where
  "pc_actions_UMULQ = Inl SimCCallError"

definition pc_actions_SMUL ::
  "int \<Rightarrow> val \<Rightarrow> val \<Rightarrow> val \<Rightarrow> platform \<Rightarrow> rdata res" where
  "pc_actions_SMUL nbits cc_dep1 cc_dep2 cc_ndep platform =
     (let ir = cl_mul (cl_sign_extend nbits cc_dep1) (cl_sign_extend nbits cc_dep2);
          hi = cl_slice (Some (2 * nbits - 1)) (Some nbits) ir;
          lo = cl_slice (Some (nbits - 1)) (Some 0) ir;
          cf = cl_If (cl_ne hi (cl_sar lo (lit (nbits - 1)))) (cl_BVV 1 1) (cl_BVV 0 1);
          zf = calc_zerobit lo;
          pf = calc_paritybit lo 7 0;
          af = cl_BVV 0 1;
          sf = cl_bit (nbits - 1) lo;
          of' = cf
      in pc_make_rdata cf pf af zf sf of')"

definition pc_actions_SMULQ :: "rdata res" where
  "pc_actions_SMULQ = Inl SimCCallError"

section \<open>Dispatch\<close>

text \<open>
  The chain of tests on \<open>cc_str\<close>, in the order of the source. The tests for \<open>UMULQ\<close> and \<open>SMULQ\<close>
  come after tests that already match these strings.
\<close>

definition pc_dispatch ::
  "string \<Rightarrow> int \<Rightarrow> val \<Rightarrow> val \<Rightarrow> val \<Rightarrow> platform \<Rightarrow> rdata res" where
  "pc_dispatch cc_str nbits dep1 dep2 ndep platform =
     (let is = (\<lambda>names. cc_str \<in> set names) in
      if is [''G_CC_OP_ADDB'', ''G_CC_OP_ADDW'', ''G_CC_OP_ADDL'', ''G_CC_OP_ADDQ'']
      then pc_actions_ADD nbits dep1 dep2 ndep platform
      else if is [''G_CC_OP_ADCB'', ''G_CC_OP_ADCW'', ''G_CC_OP_ADCL'', ''G_CC_OP_ADCQ'']
      then pc_actions_ADC nbits dep1 dep2 ndep platform
      else if is [''G_CC_OP_SUBB'', ''G_CC_OP_SUBW'', ''G_CC_OP_SUBL'', ''G_CC_OP_SUBQ'']
      then pc_actions_SUB nbits dep1 dep2 ndep platform
      else if is [''G_CC_OP_SBBB'', ''G_CC_OP_SBBW'', ''G_CC_OP_SBBL'', ''G_CC_OP_SBBQ'']
      then pc_actions_SBB nbits dep1 dep2 ndep platform
      else if is [''G_CC_OP_LOGICB'', ''G_CC_OP_LOGICW'', ''G_CC_OP_LOGICL'', ''G_CC_OP_LOGICQ'']
      then pc_actions_LOGIC nbits dep1 dep2 ndep platform
      else if is [''G_CC_OP_INCB'', ''G_CC_OP_INCW'', ''G_CC_OP_INCL'', ''G_CC_OP_INCQ'']
      then pc_actions_INC nbits dep1 dep2 ndep platform
      else if is [''G_CC_OP_DECB'', ''G_CC_OP_DECW'', ''G_CC_OP_DECL'', ''G_CC_OP_DECQ'']
      then pc_actions_DEC nbits dep1 dep2 ndep platform
      else if is [''G_CC_OP_SHLB'', ''G_CC_OP_SHLW'', ''G_CC_OP_SHLL'', ''G_CC_OP_SHLQ'']
      then pc_actions_SHL nbits dep1 dep2 ndep platform
      else if is [''G_CC_OP_SHRB'', ''G_CC_OP_SHRW'', ''G_CC_OP_SHRL'', ''G_CC_OP_SHRQ'']
      then pc_actions_SHR nbits dep1 dep2 ndep platform
      else if is [''G_CC_OP_ROLB'', ''G_CC_OP_ROLW'', ''G_CC_OP_ROLL'', ''G_CC_OP_ROLQ'']
      then pc_actions_ROL nbits dep1 dep2 ndep platform
      else if is [''G_CC_OP_RORB'', ''G_CC_OP_RORW'', ''G_CC_OP_RORL'', ''G_CC_OP_RORQ'']
      then pc_actions_ROR nbits dep1 dep2 ndep platform
      else if is [''G_CC_OP_UMULB'', ''G_CC_OP_UMULW'', ''G_CC_OP_UMULL'', ''G_CC_OP_UMULQ'']
      then pc_actions_UMUL nbits dep1 dep2 ndep platform
      else if is [''G_CC_OP_UMULQ'']
      then pc_actions_UMULQ
      else if is [''G_CC_OP_SMULB'', ''G_CC_OP_SMULW'', ''G_CC_OP_SMULL'', ''G_CC_OP_SMULQ'']
      then pc_actions_SMUL nbits dep1 dep2 ndep platform
      else if is [''G_CC_OP_SMULQ'']
      then pc_actions_SMULQ
      else if is [''G_CC_OP_ANDN32'', ''G_CC_OP_ANDN64'']
      then pc_actions_ANDN nbits dep1 dep2 ndep platform
      else if is [''G_CC_OP_BLSI32'', ''G_CC_OP_BLSI64'']
      then pc_actions_BLSI nbits dep1 dep2 ndep platform
      else if is [''G_CC_OP_BLSMSK32'', ''G_CC_OP_BLSMSK64'']
      then pc_actions_BLSMSK nbits dep1 dep2 ndep platform
      else if is [''G_CC_OP_BLSR32'', ''G_CC_OP_BLSR64'']
      then pc_actions_BLSR nbits dep1 dep2 ndep platform
      else if is [''G_CC_OP_ADOXL'', ''G_CC_OP_ADOXQ'']
      then pc_actions_ADCX nbits dep1 dep2 ndep False platform
      else if is [''G_CC_OP_ADCXL'', ''G_CC_OP_ADCXQ'']
      then pc_actions_ADCX nbits dep1 dep2 ndep True platform
      else Inl SimCCallError)"

definition pc_calculate_rdata_all_WRK ::
  "val \<Rightarrow> val \<Rightarrow> val \<Rightarrow> val \<Rightarrow> platform \<Rightarrow> rdata res" where
  "pc_calculate_rdata_all_WRK cc_op dep1 dep2 ndep platform =
     bind_res (op_concretize cc_op) (\<lambda>op.
       if Some op = dget (OpTypes (data platform)) ''G_CC_OP_COPY''
       then
         let mask = dget (CondBitMasks (data platform)) in
         map_res Packed (cl_and dep1 (lit
           (mask ''G_CC_MASK_O'' OR mask ''G_CC_MASK_S'' OR mask ''G_CC_MASK_Z''
            OR mask ''G_CC_MASK_A'' OR mask ''G_CC_MASK_C'' OR mask ''G_CC_MASK_P'')))
       else
         case map_of (data_inverted_OpTypes platform) (Some op) of
           None \<Rightarrow> Inl KeyError
         | Some cc_str \<Rightarrow>
             (case get_nbits cc_str of
                None \<Rightarrow> Inl TypeError
              | Some nbits \<Rightarrow>
                  bind_res (cl_slice (Some (nbits - 1)) (Some 0) dep1) (\<lambda>d1.
                  bind_res (cl_slice (Some (nbits - 1)) (Some 0) dep2) (\<lambda>d2.
                  bind_res (cl_slice (Some (nbits - 1)) (Some 0) ndep) (\<lambda>d3.
                  pc_dispatch cc_str nbits (Inr d1) (Inr d2) (Inr d3) platform)))))"

definition pc_calculate_rdata_all ::
  "val \<Rightarrow> val \<Rightarrow> val \<Rightarrow> val \<Rightarrow> platform \<Rightarrow> val" where
  "pc_calculate_rdata_all cc_op dep1 dep2 ndep platform =
     bind_res (pc_calculate_rdata_all_WRK cc_op dep1 dep2 ndep platform) (\<lambda>rdata_all.
       case rdata_all of
         Flags c p a z s o' \<Rightarrow>
           pc_make_rdata_if_necessary (size_of (data platform)) c p a z s o' platform
       | Packed x \<Rightarrow> Inr x)"

section \<open>Conditions\<close>

definition is_cond :: "platform \<Rightarrow> int \<Rightarrow> string \<Rightarrow> string \<Rightarrow> bool" where
  "is_cond platform v a b =
     (v \<in> set [dget (CondTypes (data platform)) a, dget (CondTypes (data platform)) b])"

text \<open>The chain of tests on the condition, shared by the two representations of the flags.\<close>

definition cond_bit ::
  "platform \<Rightarrow> int \<Rightarrow> val \<Rightarrow> val \<Rightarrow> val \<Rightarrow> val \<Rightarrow> val \<Rightarrow> val" where
  "cond_bit platform v cf pf zf sf of' =
     (let inv = lit (v AND 1); is = is_cond platform v in
      if is ''CondO'' ''CondNO'' then cl_and (lit 1) (cl_xor inv of')
      else if is ''CondZ'' ''CondNZ'' then cl_and (lit 1) (cl_xor inv zf)
      else if is ''CondB'' ''CondNB'' then cl_and (lit 1) (cl_xor inv cf)
      else if is ''CondBE'' ''CondNBE'' then cl_and (lit 1) (cl_xor inv (cl_or cf zf))
      else if is ''CondS'' ''CondNS'' then cl_and (lit 1) (cl_xor inv sf)
      else if is ''CondP'' ''CondNP'' then cl_and (lit 1) (cl_xor inv pf)
      else if is ''CondL'' ''CondNL'' then cl_and (lit 1) (cl_xor inv (cl_xor sf of'))
      else if is ''CondLE'' ''CondNLE'' then cl_and (lit 1) (cl_xor inv (cl_or (cl_xor sf of') zf))
      else Inl SimCCallError)"

definition pc_calculate_condition ::
  "val \<Rightarrow> val \<Rightarrow> val \<Rightarrow> val \<Rightarrow> val \<Rightarrow> platform \<Rightarrow> val" where
  "pc_calculate_condition cond cc_op dep1 dep2 ndep platform =
     bind_res (pc_calculate_rdata_all_WRK cc_op dep1 dep2 ndep platform) (\<lambda>rdata_all.
     bind_res (op_concretize cond) (\<lambda>v.
       case rdata_all of
         Flags c p a z s o' \<Rightarrow>
           cl_Concat [cl_BVV 0 (size_of (data platform) - 1),
                      cond_bit platform v (Inr c) (Inr p) (Inr z) (Inr s) (Inr o')]
       | Packed rdata \<Rightarrow>
           let shr = (\<lambda>name. cl_LShR (Inr rdata) (lit (dget (CondBitOffsets (data platform)) name)))
           in cond_bit platform v (shr ''G_CC_SHIFT_C'') (shr ''G_CC_SHIFT_P'')
                (shr ''G_CC_SHIFT_Z'') (shr ''G_CC_SHIFT_S'') (shr ''G_CC_SHIFT_O'')))"

end
