(* ===== verification/Flag_Arith.thy ===== *)
theory Flag_Arith
  imports Prelude
begin

text \<open>
  Arithmetic of carries, borrows, signed overflow and products on integers read at a width: the
  facts that the flag computations of x86, ARM and p-code share. \<open>fits_signed n x\<close> says that \<open>x\<close>
  is representable as a signed \<open>n\<close>-bit value.
\<close>

section \<open>Representable values\<close>

definition fits_signed :: "nat \<Rightarrow> int \<Rightarrow> bool" where
  "fits_signed n x = (- (2 ^ (n - 1)) \<le> x \<and> x < 2 ^ (n - 1))"

lemma and_1_of_bool: "x AND 1 = of_bool (odd (x :: int))"
  by (simp add: and_one_eq odd_iff_mod_2_eq_one)

lemma signed_range:
  assumes "0 < n"
  shows "- (2 ^ (n - 1)) \<le> signed_take_bit (n - 1) (a :: int)" "signed_take_bit (n - 1) a < 2 ^ (n - 1)"
  by (simp_all add: signed_take_bit_int_greater_eq_minus_exp signed_take_bit_int_less_exp)

lemma sign_bit: "0 < n \<Longrightarrow> bit (take_bit n r) (n - 1) \<longleftrightarrow> signed_take_bit (n - 1) (r :: int) < 0"
  by (simp add: bit_take_bit_iff)

lemma negative_iff: "0 < n \<Longrightarrow> bit r (n - 1) \<longleftrightarrow> signed_take_bit (n - 1) (r :: int) < 0"
  using sign_bit [of n r] by (simp add: bit_take_bit_iff)

lemma shift_count: "0 < n \<Longrightarrow> nat (take_bit n (int n - 1)) = n - 1"
proof -
  assume n: "0 < n"
  have "int (n - 1) < 2 ^ n"
    by (metis less_exp less_imp_diff_less of_nat_less_iff of_nat_numeral of_nat_power)
  then have "take_bit n (int (n - 1)) = int (n - 1)" by (simp add: take_bit_int_eq_self)
  then show ?thesis using n by (simp add: of_nat_diff)
qed

section \<open>Carry out of a position\<close>

lemma bit_add_carry:
  assumes "c = 0 \<or> c = (1 :: int)"
  shows "bit (a + b + c) k \<longleftrightarrow> (bit a k \<noteq> bit b k) \<noteq> (2 ^ k \<le> take_bit k a + take_bit k b + c)"
proof -
  define A B ta tb where "A = a div 2 ^ k" and "B = b div 2 ^ k"
    and "ta = take_bit k a" and "tb = take_bit k b"
  have ab: "a = A * 2 ^ k + ta" "b = B * 2 ^ k + tb"
    by (simp_all only: A_def B_def ta_def tb_def take_bit_eq_mod div_mult_mod_eq)
  have rng: "0 \<le> ta" "ta < 2 ^ k" "0 \<le> tb" "tb < 2 ^ k" by (simp_all add: ta_def tb_def)
  have "a + b + c = (A + B) * 2 ^ k + (ta + tb + c)" by (simp add: ab algebra_simps)
  then have "(a + b + c) div 2 ^ k = A + B + (ta + tb + c) div 2 ^ k"
    by (simp only: div_mult_self3 power_not_zero zero_neq_numeral not_False_eq_True)
  moreover have "(ta + tb + c) div 2 ^ k = of_bool (2 ^ k \<le> ta + tb + c)"
    using rng assms by (auto simp: div_pos_pos_trivial int_div_pos_eq [where q = 1 and r = "ta + tb + c - 2 ^ k"])
  ultimately show ?thesis
    by (auto simp: bit_iff_odd ta_def tb_def simp flip: A_def B_def)
qed

lemma bit_diff_borrow:
  assumes "c = 0 \<or> c = (1 :: int)"
  shows "bit (a - b - c) k \<longleftrightarrow> (bit a k \<noteq> bit b k) \<noteq> (take_bit k a < take_bit k b + c)"
proof -
  define A B ta tb where "A = a div 2 ^ k" and "B = b div 2 ^ k"
    and "ta = take_bit k a" and "tb = take_bit k b"
  have ab: "a = A * 2 ^ k + ta" "b = B * 2 ^ k + tb"
    by (simp_all only: A_def B_def ta_def tb_def take_bit_eq_mod div_mult_mod_eq)
  have rng: "0 \<le> ta" "ta < 2 ^ k" "0 \<le> tb" "tb < 2 ^ k" by (simp_all add: ta_def tb_def)
  have "a - b - c = (A - B) * 2 ^ k + (ta - tb - c)" by (simp add: ab algebra_simps)
  then have "(a - b - c) div 2 ^ k = A - B + (ta - tb - c) div 2 ^ k"
    by (simp only: div_mult_self3 power_not_zero zero_neq_numeral not_False_eq_True)
  moreover have "(ta - tb - c) div 2 ^ k = - of_bool (ta < tb + c)"
    using rng assms
    by (auto simp: div_pos_pos_trivial int_div_pos_eq [where q = "- 1" and r = "ta - tb - c + 2 ^ k"])
  ultimately show ?thesis
    by (auto simp: bit_iff_odd ta_def tb_def simp flip: A_def B_def)
qed

lemma adjust_add:
  assumes "c = 0 \<or> c = (1 :: int)"
  shows "bit ((a + b + c) XOR a XOR b) 4 \<longleftrightarrow> 16 \<le> take_bit 4 a + take_bit 4 b + c"
  using bit_add_carry [OF assms, of a b 4] by (auto simp: bit_xor_iff)

lemma adjust_sub:
  assumes "c = 0 \<or> c = (1 :: int)"
  shows "bit ((a - b - c) XOR a XOR b) 4 \<longleftrightarrow> take_bit 4 a < take_bit 4 b + c"
  using bit_diff_borrow [OF assms, of a b 4] by (auto simp: bit_xor_iff)

section \<open>Signed overflow\<close>

lemma overflow_bit:
  assumes "0 < n" and "c = 0 \<or> c = (1 :: int)"
  shows "bit (((a + b + c) XOR a) AND ((a + b + c) XOR b)) (n - 1) \<longleftrightarrow>
           \<not> fits_signed n (signed_take_bit (n - 1) a + signed_take_bit (n - 1) b + c)"
    and "bit ((a XOR b) AND (a XOR (a - b - c))) (n - 1) \<longleftrightarrow>
           \<not> fits_signed n (signed_take_bit (n - 1) a - signed_take_bit (n - 1) b - c)"
  unfolding fits_signed_def add_overflow_iff [OF assms, symmetric] sub_overflow_iff [OF assms, symmetric]
  by (auto simp: bit_and_iff bit_xor_iff)

lemma inc_overflow:
  assumes "1 < n"
  shows "take_bit n r = 2 ^ (n - 1) \<longleftrightarrow>
           \<not> fits_signed n (signed_take_bit (n - 1) (r - 1) + signed_take_bit (n - 1) (1 :: int))"
proof -
  define M where "M = (2 :: int) ^ (n - 1)"
  have M: "2 ^ n = 2 * M" "1 < M" using assms half_power [of n] by (simp_all add: M_def)
  define u where "u = take_bit n r"
  have rng: "0 \<le> u" "u < 2 * M" by (simp_all add: u_def flip: M(1))
  have "take_bit n (r - 1) = take_bit n (u - 1)"
    by (simp add: u_def take_bit_eq_mod mod_simps)
  also have "\<dots> = (if u = 0 then 2 * M - 1 else u - 1)"
    using take_bit_wrap_neg [of n "u - 1"] rng M by auto
  finally have "signed_take_bit (n - 1) (r - 1) =
      (if M \<le> (if u = 0 then 2 * M - 1 else u - 1) then (if u = 0 then 2 * M - 1 else u - 1) - 2 * M
       else (if u = 0 then 2 * M - 1 else u - 1))"
    using assms signed_take_bit_top [of n "r - 1"] M by (simp only: M_def [symmetric])
  moreover have "signed_take_bit (n - 1) (1 :: int) = 1"
    using assms M signed_take_bit_top [of n 1] by (simp only: M_def [symmetric]) simp
  ultimately show ?thesis using rng M
    unfolding fits_signed_def u_def [symmetric] M_def [symmetric] by auto
qed

lemma dec_overflow:
  assumes "1 < n"
  shows "take_bit n (r + 1) = 2 ^ (n - 1) \<longleftrightarrow>
           \<not> fits_signed n (signed_take_bit (n - 1) (r + 1) - signed_take_bit (n - 1) (1 :: int))"
proof -
  define M where "M = (2 :: int) ^ (n - 1)"
  have M: "2 ^ n = 2 * M" "1 < M" using assms half_power [of n] by (simp_all add: M_def)
  define u where "u = take_bit n (r + 1)"
  have rng: "0 \<le> u" "u < 2 * M" by (simp_all add: u_def flip: M(1))
  have "signed_take_bit (n - 1) (r + 1) = (if M \<le> u then u - 2 * M else u)"
    using assms signed_take_bit_top [of n "r + 1"] M by (simp only: M_def [symmetric] u_def [symmetric])
  moreover have "signed_take_bit (n - 1) (1 :: int) = 1"
    using assms M signed_take_bit_top [of n 1] by (simp only: M_def [symmetric]) simp
  ultimately show ?thesis using rng M
    unfolding fits_signed_def u_def [symmetric] M_def [symmetric] by auto
qed

lemma signed_less_iff:
  assumes "0 < n"
  shows "(signed_take_bit (n - 1) (a - b) < 0) \<noteq>
           (\<not> fits_signed n (signed_take_bit (n - 1) a - signed_take_bit (n - 1) b)) \<longleftrightarrow>
         signed_take_bit (n - 1) a < signed_take_bit (n - 1) (b :: int)"
proof -
  define M ua ub where "M = (2 :: int) ^ (n - 1)" and "ua = take_bit n a" and "ub = take_bit n b"
  have M: "2 ^ n = 2 * M" "0 < M" using assms half_power [of n] by (simp_all add: M_def)
  have rng: "0 \<le> ua" "ua < 2 * M" "0 \<le> ub" "ub < 2 * M"
    by (simp_all add: ua_def ub_def flip: M(1))
  have "take_bit n (a - b - 0) = take_bit n (ua - ub - 0)"
    unfolding ua_def ub_def by (rule take_bit_diff3)
  also have "\<dots> = (if ua - ub < 0 then ua - ub + 2 * M else ua - ub)"
    using take_bit_wrap_neg [of n "ua - ub"] rng M by auto
  finally have d: "take_bit n (a - b) = (if ua - ub < 0 then ua - ub + 2 * M else ua - ub)" by simp
  show ?thesis
    using rng M(2)
    unfolding fits_signed_def signed_take_bit_top [OF assms] d M_def [symmetric]
      ua_def [symmetric] ub_def [symmetric] M(1)
    by auto
qed

lemma take_bit_diff_0_iff: "take_bit n (a - b) = 0 \<longleftrightarrow> take_bit n a = take_bit n (b :: int)"
  by (simp add: take_bit_eq_mod mod_eq_dvd_iff mod_eq_0_iff_dvd)

lemma signed_take_bit_eq_iff:
  assumes "0 < n"
  shows "signed_take_bit (n - 1) a = signed_take_bit (n - 1) b \<longleftrightarrow> take_bit n a = take_bit n (b :: int)"
  using assms signed_take_bit_eq_iff_take_bit_eq [of "n - 1" a b] by simp

section \<open>Products\<close>

text \<open>The high half repeats the sign of the low half exactly when the product fits.\<close>

lemma high_half_sign:
  assumes "0 < n" and "- (2 ^ n * 2 ^ (n - 1)) \<le> P" and "P < 2 ^ n * 2 ^ (n - 1)"
  shows "take_bit n (drop_bit n P) = take_bit n (if bit P (n - 1) then - 1 else 0) \<longleftrightarrow> fits_signed n P"
proof -
  define M q l where "M = (2 :: int) ^ (n - 1)" and "q = P div 2 ^ n" and "l = take_bit n P"
  have M: "2 ^ n = 2 * M" "0 < M" using assms(1) half_power [of n] by (simp_all add: M_def)
  have P: "P = q * (2 * M) + l"
    by (simp only: q_def l_def take_bit_eq_mod M(1) [symmetric] div_mult_mod_eq)
  have l: "0 \<le> l" "l < 2 * M" by (simp_all add: l_def flip: M(1))
  have q: "- M \<le> q" "q < M"
    using assms(2,3) M int_div_less_iff [of "2 ^ n" P M] int_div_less_iff [of "2 ^ n" P "- M"]
    unfolding q_def M_def [symmetric] by (simp_all add: mult.commute)
  have tq: "take_bit n q = (if q < 0 then q + 2 * M else q)"
    using take_bit_wrap_neg [of n q] q M by simp
  have m1: "take_bit n (- 1 :: int) = 2 * M - 1" by (simp add: mask_eq_exp_minus_1 M)
  define Q where "Q = q * (2 * M)"
  have Q: "q < - 1 \<Longrightarrow> Q \<le> - 4 * M" "0 < q \<Longrightarrow> 2 * M \<le> Q" "q = 0 \<Longrightarrow> Q = 0" "q = - 1 \<Longrightarrow> Q = - 2 * M"
    using M mult_right_mono [of q "- 2" "2 * M"] mult_right_mono [of 1 q "2 * M"] by (simp_all add: Q_def)
  have top: "bit P (n - 1) \<longleftrightarrow> M \<le> l"
    using bit_top_take_bit [OF assms(1), of P] by (simp add: M_def l_def)
  have lhs: "take_bit n (drop_bit n P) = (if q < 0 then q + 2 * M else q)"
    by (simp add: drop_bit_eq_div tq flip: q_def)
  have mid: "take_bit n (if bit P (n - 1) then - 1 else 0) = (if M \<le> l then 2 * M - 1 else 0)"
    by (simp only: top m1 take_bit_of_0 split: if_split) simp
  have rhs: "fits_signed n P \<longleftrightarrow> - M \<le> Q + l \<and> Q + l < M"
    by (simp only: fits_signed_def M_def [symmetric] P Q_def)
  consider "q < - 1" | "q = - 1" | "q = 0" | "0 < q" by linarith
  then show ?thesis
    unfolding lhs mid rhs using l M(2) q Q by cases auto
qed

lemma signed_product_range:
  assumes "0 < n"
  shows "- (2 ^ n * 2 ^ (n - 1)) \<le> signed_take_bit (n - 1) a * signed_take_bit (n - 1) (b :: int)"
    and "signed_take_bit (n - 1) a * signed_take_bit (n - 1) b < 2 ^ n * 2 ^ (n - 1)"
proof -
  define M x y where "M = (2 :: int) ^ (n - 1)" and "x = signed_take_bit (n - 1) a"
    and "y = signed_take_bit (n - 1) b"
  have M: "2 ^ n = 2 * M" "0 < M" using assms half_power [of n] by (simp_all add: M_def)
  have "\<bar>x\<bar> \<le> M" "\<bar>y\<bar> \<le> M"
    using signed_range [OF assms, of a] signed_range [OF assms, of b]
    unfolding x_def [symmetric] y_def [symmetric] M_def [symmetric] by linarith+
  then have "\<bar>x * y\<bar> \<le> M * M" unfolding abs_mult using M by (intro mult_mono) simp_all
  moreover have "M * M < 2 * M * M" using M by simp
  ultimately have "- (2 * M * M) \<le> x * y" "x * y < 2 * M * M" by linarith+
  then show "- (2 ^ n * 2 ^ (n - 1)) \<le> signed_take_bit (n - 1) a * signed_take_bit (n - 1) b"
    and "signed_take_bit (n - 1) a * signed_take_bit (n - 1) b < 2 ^ n * 2 ^ (n - 1)"
    by (simp_all only: M(1) M_def [symmetric] x_def [symmetric] y_def [symmetric])
qed

lemma sign_fill:
  "drop_bit (n - 1) (signed_take_bit (n - 1) (r :: int)) = (if bit r (n - 1) then - 1 else 0)"
  by (rule bit_eqI) (auto simp: bit_simps)

lemma take_bit_signed_mult:
  assumes "0 < n"
  shows "take_bit n (signed_take_bit (n - 1) a * signed_take_bit (n - 1) b) = take_bit n (a * (b :: int))"
proof -
  have "take_bit n (signed_take_bit (n - 1) x) = take_bit n x" for x :: int
    using assms signed_take_bit_top [OF assms, of x] by (simp add: take_bit_eq_mod)
  then show ?thesis by (metis take_bit_mult)
qed

end
