(* ===== verification/X86_Flags.thy ===== *)
theory X86_Flags
  imports CCall_X86 Flag_Arith
begin

text \<open>
  What the flag actions of x86 and amd64 compute. The reference is the architecture: carry and
  borrow are unsigned overflow of the integers, the overflow flag is signed overflow, the
  adjust flag is the carry out of the low four bits, the parity flag counts the low eight bits.
  Each action is shown to compute the reference flags at every width, the packing of the flags
  and the evaluation of conditions are proved once for all actions in the locale
  \<open>flag_action\<close>, and the locale is interpreted on each action.
\<close>

section \<open>Reference flags\<close>

record eflags =
  CF :: bool
  PF :: bool
  AF :: bool
  ZF :: bool
  SF :: bool
  OF :: bool

definition result_flags :: "nat \<Rightarrow> int \<Rightarrow> bool \<Rightarrow> bool \<Rightarrow> bool \<Rightarrow> eflags" where
  "result_flags n r c a v =
     \<lparr>CF = c, PF = even_parity 8 r, AF = a, ZF = (take_bit n r = 0),
      SF = (signed_take_bit (n - 1) r < 0), OF = v\<rparr>"

definition add_flags :: "nat \<Rightarrow> int \<Rightarrow> int \<Rightarrow> int \<Rightarrow> eflags" where
  "add_flags n a b c =
     result_flags n (a + b + c)
       (2 ^ n \<le> take_bit n a + take_bit n b + c)
       (16 \<le> take_bit 4 a + take_bit 4 b + c)
       (\<not> fits_signed n (signed_take_bit (n - 1) a + signed_take_bit (n - 1) b + c))"

definition sub_flags :: "nat \<Rightarrow> int \<Rightarrow> int \<Rightarrow> int \<Rightarrow> eflags" where
  "sub_flags n a b c =
     result_flags n (a - b - c)
       (take_bit n a < take_bit n b + c)
       (take_bit 4 a < take_bit 4 b + c)
       (\<not> fits_signed n (signed_take_bit (n - 1) a - signed_take_bit (n - 1) b - c))"

definition kept_flags :: "int \<Rightarrow> eflags" where
  "kept_flags nd =
     \<lparr>CF = bit nd 0, PF = bit nd 2, AF = bit nd 4, ZF = bit nd 6, SF = bit nd 7, OF = bit nd 11\<rparr>"

definition flag_operand :: "bool \<Rightarrow> operand" where
  "flag_operand P = Bv (bvv 1 (of_bool P))"

definition rdata_of :: "eflags \<Rightarrow> rdata" where
  "rdata_of f = Flags (flag_operand (CF f)) (flag_operand (PF f)) (flag_operand (AF f))
     (flag_operand (ZF f)) (flag_operand (SF f)) (flag_operand (OF f))"

text \<open>The flags at their positions in the status register.\<close>

definition eflags_word :: "eflags \<Rightarrow> int" where
  "eflags_word f = of_bool (CF f) + of_bool (PF f) * 4 + of_bool (AF f) * 16
     + of_bool (ZF f) * 64 + of_bool (SF f) * 128 + of_bool (OF f) * 2048"

text \<open>The condition codes of the conditional instructions, by their encoding.\<close>

definition x86_condition :: "int \<Rightarrow> eflags \<Rightarrow> bool" where
  "x86_condition v f =
     (odd v \<noteq>
       (if v div 2 = 0 then OF f
        else if v div 2 = 1 then CF f
        else if v div 2 = 2 then ZF f
        else if v div 2 = 3 then CF f \<or> ZF f
        else if v div 2 = 4 then SF f
        else if v div 2 = 5 then PF f
        else if v div 2 = 6 then SF f \<noteq> OF f
        else (SF f \<noteq> OF f) \<or> ZF f))"

section \<open>Evaluation\<close>

lemma flag_eq_operand: "flag P = Inr (flag_operand P)"
  by (simp add: flag_def flag_operand_def)

lemma pc_make_rdata_flag [simp]:
  "pc_make_rdata (flag c) (flag p) (flag a) (flag z) (flag s) (flag v) =
     Inr (rdata_of \<lparr>CF = c, PF = p, AF = a, ZF = z, SF = s, OF = v\<rparr>)"
  by (simp add: pc_make_rdata_def flag_eq_operand rdata_of_def)

lemma cl_slice_eq_bit: "0 \<le> i \<Longrightarrow> cl_slice (Some i) (Some i) x = cl_bit i x"
  by (cases x; auto simp: cl_slice_def cl_bit_def cl_Extract_def cl_size_def bv1_def lift1_def
      split: operand.splits)

lemma cl_slice_bit [bv_simps]:
  "0 \<le> i \<Longrightarrow> i < int n \<Longrightarrow> cl_slice (Some i) (Some i) (W n a) = flag (bit (take_bit n a) (nat i))"
  by (simp add: cl_slice_eq_bit cl_bit_W)

lemma pc_preamble_mask [bv_simps]: "fst (pc_preamble (int n)) = W n (- 1)"
  by (simp add: pc_preamble_def bv_simps bvv_eq_iff flip: mask_eq_exp_minus_1)

lemma ndep_flag_W [bv_simps]:
  assumes "8 \<le> n"
  shows "ndep_flag p ''G_CC_MASK_C'' ''G_CC_SHIFT_C'' (W n nd) = flag (bit nd 0)"
    and "ndep_flag p ''G_CC_MASK_P'' ''G_CC_SHIFT_P'' (W n nd) = flag (bit nd 2)"
    and "ndep_flag p ''G_CC_MASK_A'' ''G_CC_SHIFT_A'' (W n nd) = flag (bit nd 4)"
    and "ndep_flag p ''G_CC_MASK_Z'' ''G_CC_SHIFT_Z'' (W n nd) = flag (bit nd 6)"
    and "ndep_flag p ''G_CC_MASK_S'' ''G_CC_SHIFT_S'' (W n nd) = flag (bit nd 7)"
    and "12 \<le> n \<Longrightarrow> ndep_flag p ''G_CC_MASK_O'' ''G_CC_SHIFT_O'' (W n nd) = flag (bit nd 11)"
  using assms by (simp_all add: ndep_flag_def bv_simps bit_simps)

lemma even_parity_take: "8 \<le> n \<Longrightarrow> even_parity 8 (take_bit n r) = even_parity 8 r"
  unfolding even_parity_def by (intro arg_cong [where f = even] arg_cong [where f = length] filter_cong)
    (auto simp: bit_take_bit_iff)

section \<open>Addition and subtraction\<close>

lemma overflow_add_flag:
  assumes "0 < n" and "c = 0 \<or> c = (1 :: int)"
  shows "cl_bit (int n - 1) (cl_and (cl_xor (cl_xor (W n a) (W n b)) (W n (- 1)))
           (cl_xor (W n a) (W n (a + b + c)))) =
         flag (\<not> fits_signed n (signed_take_bit (n - 1) a + signed_take_bit (n - 1) b + c))"
  unfolding fits_signed_def by (rule claripy_bv.overflow_add [OF assms])

lemma overflow_sub_flag:
  assumes "0 < n" and "c = 0 \<or> c = (1 :: int)"
  shows "cl_bit (int n - 1) (cl_and (cl_xor (W n a) (W n b)) (cl_xor (W n a) (W n (a - b - c)))) =
         flag (\<not> fits_signed n (signed_take_bit (n - 1) a - signed_take_bit (n - 1) b - c))"
  unfolding fits_signed_def by (rule claripy_bv.overflow_sub [OF assms])

text \<open>The flags that depend on the result and on the carry into position four only.\<close>

lemma result_bits:
  assumes "8 \<le> n"
  shows "calc_paritybit (W n r) 7 0 = flag (even_parity 8 r)"
    and "calc_zerobit (W n r) = flag (take_bit n r = 0)"
    and "cl_bit (int n - 1) (W n r) = flag (signed_take_bit (n - 1) r < 0)"
    and "cl_slice (Some (int n - 1)) (Some (int n - 1)) x = cl_bit (int n - 1) x"
    and "cl_bit 4 (cl_xor (cl_xor (W n r) (W n a)) (W n b)) = flag (bit (r XOR a XOR b) 4)"
  using assms sign_bit [of n r]
  by (auto simp: bv_simps cl_slice_eq_bit nat_diff_distrib bit_simps)

lemma pc_actions_ADD_flags:
  assumes "8 \<le> n"
  shows "pc_actions_ADD (int n) (W n a) (W n b) nd p = Inr (rdata_of (add_flags n a b 0))"
proof -
  have "0 < n" using assms by simp
  then show ?thesis
    unfolding pc_actions_ADD_def Let_def pc_preamble_mask offsets_simps result_bits [OF assms]
    using claripy_bv.carry_out [of n a b] overflow_add_flag [of n 0 a b] adjust_add [of 0 a b]
    by (simp add: cl_ring_W result_bits assms flag_simps add_flags_def result_flags_def)
qed

lemma pc_actions_SUB_flags:
  assumes "8 \<le> n"
  shows "pc_actions_SUB (int n) (W n a) (W n b) nd p = Inr (rdata_of (sub_flags n a b 0))"
proof -
  have "0 < n" using assms by simp
  then show ?thesis
    unfolding pc_actions_SUB_def Let_def offsets_simps result_bits [OF assms]
    using overflow_sub_flag [of n 0 a b] adjust_sub [of 0 a b]
    by (simp add: cl_ring_W cl_cmp_W result_bits assms flag_simps sub_flags_def result_flags_def)
qed

lemma pc_actions_LOGIC_flags:
  assumes "8 \<le> n"
  shows "pc_actions_LOGIC (int n) (W n a) b nd p = Inr (rdata_of (result_flags n a False False False))"
  unfolding pc_actions_LOGIC_def Let_def result_bits [OF assms]
  by (simp add: flag_simps result_flags_def)

text \<open>
  \<open>ADC\<close> and \<open>SBB\<close> receive the second operand exclusive-or the carry that came in.
\<close>

lemma carry_out_flag:
  assumes "0 < n" and c: "c = 0 \<or> c = (1 :: int)"
  shows "cl_If (cl_ne (W n c) (lit 0))
        (cl_If (cl_ULE (W n (a + b + c)) (W n a)) (cl_BVV 1 1) (cl_BVV 0 1))
        (cl_If (cl_ULT (W n (a + b + c)) (W n a)) (cl_BVV 1 1) (cl_BVV 0 1)) =
      flag (2 ^ n \<le> take_bit n a + take_bit n b + c)"
  using assms(1) c carry_iff [OF c, of n a b] by (auto simp: cl_cmp_W flag_simps)

lemma pc_actions_ADC_flags:
  assumes "8 \<le> n" and "c = of_bool (odd nd)"
  shows "pc_actions_ADC (int n) (W n a) (W n (b XOR c)) (W n nd) p = Inr (rdata_of (add_flags n a b c))"
proof -
  have n: "0 < n" and c: "c = 0 \<or> c = 1" using assms by simp_all
  have old: "cl_and (W n nd) (lit 1) = W n c"
    using n assms(2) by (simp add: bv_simps and_1_of_bool)
  have arg_r: "cl_xor (W n (b XOR c)) (W n c) = W n b"
    using n by (simp add: bv_simps xor.assoc)
  have res: "cl_add (cl_add (W n a) (W n b)) (W n c) = W n (a + b + c)"
    using n by (simp add: cl_ring_W)
  have m1: "cl_xor (cl_xor (W n a) (W n b)) (lit (- 1)) = cl_xor (cl_xor (W n a) (W n b)) (W n (- 1))"
    using n by (simp add: bv_simps)
  show ?thesis
    unfolding pc_actions_ADC_def Let_def masks_simps offsets_simps old arg_r res carry_out_flag [OF n c] m1
      overflow_add_flag [OF n c] result_bits [OF assms(1)] adjust_add [OF c]
    by (simp add: add_flags_def result_flags_def)
qed

lemma pc_actions_SBB_flags:
  assumes "8 \<le> n" and "c = of_bool (odd nd)"
  shows "pc_actions_SBB (int n) (W n a) (W n (b XOR c)) (W n nd) p = Inr (rdata_of (sub_flags n a b c))"
proof -
  have n: "0 < n" and c: "c = 0 \<or> c = 1" using assms by simp_all
  have old: "cl_zero_extend (int n - 1) (cl_bit 0 (W n nd)) = W n c"
    using n assms(2) by (simp add: bv_simps flag_simps bit_take_bit_iff bit_0 Suc_nat_eq_nat_zadd1)
  have arg_r: "cl_xor (W n (b XOR c)) (W n c) = W n b"
    using n by (simp add: bv_simps xor.assoc)
  have res: "cl_sub (cl_sub (W n a) (W n b)) (W n c) = W n (a - b - c)"
    using n by (simp add: cl_ring_W)
  have cf: "cl_If (cl_eq (W n c) (lit 1))
        (cl_If (cl_ULE (W n a) (W n b)) (cl_BVV 1 1) (cl_BVV 0 1))
        (cl_If (cl_ULT (W n a) (W n b)) (cl_BVV 1 1) (cl_BVV 0 1)) =
      flag (take_bit n a < take_bit n b + c)"
    using n c by (auto simp: cl_cmp_W flag_simps)
  show ?thesis
    unfolding pc_actions_SBB_def Let_def masks_simps offsets_simps old arg_r res cf
      overflow_sub_flag [OF n c] result_bits [OF assms(1)] adjust_sub [OF c]
    by (simp add: sub_flags_def result_flags_def)
qed

text \<open>
  \<open>INC\<close> and \<open>DEC\<close> receive the result; the operand was the result minus or plus one. The carry
  flag is kept.
\<close>

lemma pc_actions_INC_flags:
  assumes "8 \<le> n"
  shows "pc_actions_INC (int n) (W n r) x (W n nd) p =
           Inr (rdata_of ((add_flags n (r - 1) 1 0)\<lparr>CF := bit nd 0\<rparr>))"
proof -
  have n: "0 < n" "1 < n" using assms by simp_all
  have af: "cl_bit 4 (cl_xor (cl_xor (W n r) (W n (r - 1))) (lit 1)) = flag (16 \<le> take_bit 4 (r - 1) + take_bit 4 1)"
    using n assms result_bits(5) [OF assms, of r "r - 1" 1] adjust_add [of 0 "r - 1" 1] by (simp add: bv_simps)
  have o': "cl_eq (W n r) (lit (push_bit (nat (int n - 1)) 1)) =
      Inr (\<not> fits_signed n (signed_take_bit (n - 1) (r - 1) + signed_take_bit (n - 1) 1))"
    using n inc_overflow [OF n(2), of r] by (simp add: bv_simps nat_diff_distrib push_bit_eq_mult)
  show ?thesis
    unfolding pc_actions_INC_def Let_def ndep_flag_W [OF assms] offsets_simps o' cl_ring_W [OF n(1)] af
      result_bits [OF assms]
    by (simp add: flag_simps add_flags_def result_flags_def)
qed

lemma pc_actions_DEC_flags:
  assumes "8 \<le> n"
  shows "pc_actions_DEC (int n) (W n r) x (W n nd) p =
           Inr (rdata_of ((sub_flags n (r + 1) 1 0)\<lparr>CF := bit nd 0\<rparr>))"
proof -
  have n: "0 < n" "1 < n" using assms by simp_all
  have af: "cl_bit 4 (cl_xor (cl_xor (W n r) (W n (r + 1))) (lit 1)) = flag (take_bit 4 (r + 1) < take_bit 4 1)"
    using n assms result_bits(5) [OF assms, of r "r + 1" 1] adjust_sub [of 0 "r + 1" 1] by (simp add: bv_simps)
  have o': "cl_eq (W n (r + 1)) (lit (push_bit (nat (int n - 1)) 1)) =
      Inr (\<not> fits_signed n (signed_take_bit (n - 1) (r + 1) - signed_take_bit (n - 1) 1))"
    using n dec_overflow [OF n(2), of r] by (simp add: bv_simps nat_diff_distrib push_bit_eq_mult)
  show ?thesis
    unfolding pc_actions_DEC_def Let_def ndep_flag_W [OF assms] offsets_simps cl_ring_W [OF n(1)] o' af
      result_bits [OF assms]
    by (simp add: flag_simps sub_flags_def result_flags_def)
qed

section \<open>Shifts, rotations and products\<close>

lemma pc_actions_SHL_flags:
  assumes "8 \<le> n"
  shows "pc_actions_SHL (int n) (W n r) (W n s) nd p =
           Inr (rdata_of (result_flags n r (bit s (n - 1)) False (bit r (n - 1) \<noteq> bit s (n - 1))))"
  using assms even_parity_take [of n r]
  by (simp add: pc_actions_SHL_def bv_simps flag_simps result_flags_def bit_take_bit_iff nat_diff_distrib)

lemma pc_actions_SHR_flags:
  assumes "8 \<le> n"
  shows "pc_actions_SHR (int n) (W n r) (W n s) nd p =
           Inr (rdata_of (result_flags n r (odd s) False (bit r (n - 1) \<noteq> bit s (n - 1))))"
  using assms even_parity_take [of n r]
  by (simp add: pc_actions_SHR_def bv_simps flag_simps result_flags_def bit_take_bit_iff nat_diff_distrib
      and_1_of_bool)

lemma pc_actions_ROL_flags:
  assumes "8 \<le> n"
  shows "pc_actions_ROL (int n) (W n r) x (W n nd) p =
           Inr (rdata_of ((kept_flags nd)\<lparr>CF := bit r 0, OF := (bit r (n - 1) \<noteq> bit r 0)\<rparr>))"
  using assms shift_count [of n]
  by (simp add: pc_actions_ROL_def bv_simps flag_simps kept_flags_def bit_simps nat_diff_distrib)

lemma pc_actions_ROR_flags:
  assumes "8 \<le> n"
  shows "pc_actions_ROR (int n) (W n r) x (W n nd) p =
           Inr (rdata_of ((kept_flags nd)\<lparr>CF := bit r (n - 1), OF := (bit r (n - 1) \<noteq> bit r (n - 2))\<rparr>))"
  using assms
  by (simp add: pc_actions_ROR_def bv_simps flag_simps kept_flags_def bit_simps nat_diff_distrib)

lemma pc_actions_UMUL_flags:
  assumes "8 \<le> n"
  shows "pc_actions_UMUL (int n) (W n a) (W n b) nd p =
           (let v = (2 ^ n \<le> take_bit n a * take_bit n b) in
            Inr (rdata_of (result_flags n (a * b) v False v)))"
proof -
  define P where "P = take_bit n a * take_bit n b"
  have "P < 2 ^ n * 2 ^ n" unfolding P_def by (intro mult_strict_mono) simp_all
  then have P: "take_bit (n + n) P = P" "0 \<le> P"
    by (simp_all add: P_def take_bit_int_eq_self power_add)
  have rr: "cl_mul (cl_zero_extend (int n) (W n a)) (cl_zero_extend (int n) (W n b)) = W (n + n) P"
    using assms by (simp add: bv_simps P_def)
  have hi: "cl_slice (Some (2 * int n - 1)) (Some (int n)) (W (n + n) P) = W n (drop_bit n P)"
    using assms P by (simp add: bv_simps)
  have lo: "cl_slice (Some (int n - 1)) (Some 0) (W (n + n) P) = W n (a * b)"
    using assms P by (simp add: bv_simps bvv_eq_iff P_def take_bit_mult)
  have "drop_bit n P < 2 ^ n" using \<open>P < 2 ^ n * 2 ^ n\<close>
    by (simp add: drop_bit_eq_div int_div_less_iff)
  then have "take_bit n (drop_bit n P) = drop_bit n P"
    using P by (simp add: take_bit_int_eq_self)
  moreover have "drop_bit n P = 0 \<longleftrightarrow> P < 2 ^ n"
    using P by (auto simp: drop_bit_eq_div zdiv_eq_0_iff)
  ultimately have cf: "cl_ne (W n (drop_bit n P)) (lit 0) = Inr (2 ^ n \<le> P)"
    using assms by (auto simp: bv_simps)
  show ?thesis
    unfolding pc_actions_UMUL_def Let_def rr hi lo cf result_bits [OF assms]
    by (simp add: flag_simps result_flags_def P_def)
qed

lemma pc_actions_SMUL_flags:
  assumes "8 \<le> n"
  shows "pc_actions_SMUL (int n) (W n a) (W n b) nd p =
           (let v = (\<not> fits_signed n (signed_take_bit (n - 1) a * signed_take_bit (n - 1) b)) in
            Inr (rdata_of (result_flags n (a * b) v False v)))"
proof -
  have n: "0 < n" using assms by simp
  define P where "P = signed_take_bit (n - 1) a * signed_take_bit (n - 1) b"
  have tP: "take_bit n P = take_bit n (a * b)" using take_bit_signed_mult [OF n] by (simp add: P_def)
  have ir: "cl_mul (cl_sign_extend (int n) (W n a)) (cl_sign_extend (int n) (W n b)) = W (n + n) P"
    using n by (simp add: bv_simps P_def)
  have hi: "cl_slice (Some (2 * int n - 1)) (Some (int n)) (W (n + n) P) = W n (drop_bit n P)"
    using n by (simp add: bv_simps bvv_eq_iff drop_bit_take_bit)
  have lo: "cl_slice (Some (int n - 1)) (Some 0) (W (n + n) P) = W n (a * b)"
    using n tP by (simp add: bv_simps bvv_eq_iff)
  have "bit P (n - 1) = bit (a * b) (n - 1)"
    using tP n by (metis bit_take_bit_iff diff_less zero_less_one)
  then have "cl_sar (W n (a * b)) (lit (int n - 1)) = W n (if bit P (n - 1) then - 1 else 0)"
    using n sign_fill [of n "a * b"] shift_count [OF n] by (simp add: bv_simps)
  then have cf: "cl_ne (W n (drop_bit n P)) (cl_sar (W n (a * b)) (lit (int n - 1))) =
      Inr (\<not> fits_signed n P)"
    using n high_half_sign [OF n, of P] signed_product_range [OF n, of a b]
    by (simp only: cl_cmp_W P_def [symmetric])
  show ?thesis
    unfolding pc_actions_SMUL_def Let_def ir hi lo cf result_bits [OF assms]
    by (simp add: flag_simps result_flags_def P_def)
qed

section \<open>Bit-manipulation instructions\<close>

lemma pc_actions_BMI_flags:
  assumes "8 \<le> n"
  shows "pc_actions_ANDN (int n) (W n r) x nd p =
           Inr (rdata_of ((result_flags n r False False False)\<lparr>PF := False\<rparr>))"
    and "pc_actions_BLSI (int n) (W n r) (W n a) nd p =
           Inr (rdata_of ((result_flags n r (take_bit n a \<noteq> 0) False False)\<lparr>PF := False\<rparr>))"
    and "pc_actions_BLSMSK (int n) (W n r) (W n a) nd p =
           Inr (rdata_of ((result_flags n r (take_bit n a = 0) False False)\<lparr>PF := False, ZF := False\<rparr>))"
    and "pc_actions_BLSR (int n) (W n r) (W n a) nd p =
           Inr (rdata_of ((result_flags n r (take_bit n a = 0) False False)\<lparr>PF := False\<rparr>))"
  using assms
  by (simp_all add: pc_actions_ANDN_def pc_actions_BLSI_def pc_actions_BLSMSK_def pc_actions_BLSR_def
      result_bits bv_simps flag_simps result_flags_def nat_diff_distrib bit_take_bit_iff)

lemma pc_actions_ADCX_flags:
  assumes "12 \<le> n" and "c = of_bool (bit nd (if is_adc then 0 else 11))"
    and "v = (2 ^ n \<le> take_bit n a + take_bit n b + c)"
  shows "pc_actions_ADCX (int n) (W n a) (W n (b XOR c)) (W n nd) is_adc p =
           Inr (rdata_of (if is_adc then (kept_flags nd)\<lparr>CF := v\<rparr> else (kept_flags nd)\<lparr>OF := v\<rparr>))"
proof -
  have n: "0 < n" and n8: "8 \<le> n" and c: "c = 0 \<or> c = 1" using assms by simp_all
  have "(11 :: int) < 2 ^ 12" by simp
  also have "(2 :: int) ^ 12 \<le> 2 ^ n" using assms(1) by (intro power_increasing) simp_all
  finally have e: "take_bit n (11 :: int) = 11" by (simp add: take_bit_int_eq_self)
  have "odd (drop_bit k (take_bit n nd)) = bit nd k" if "k < n" for k
    using that by (simp add: bit_take_bit_iff flip: bit_iff_odd_drop_bit)
  then have carry: "cl_and (cl_LShR (W n nd) (lit (dget (CondBitOffsets (data p))
      (if is_adc then ''G_CC_SHIFT_C'' else ''G_CC_SHIFT_O'')))) (lit 1) = W n c"
    using assms(1,2) e by (simp add: bv_simps and_1_of_bool)
  have arg_r: "cl_xor (W n (b XOR c)) (W n c) = W n b"
    using n by (simp add: bv_simps xor.assoc)
  have res: "cl_add (cl_add (W n a) (W n b)) (W n c) = W n (a + b + c)"
    using n by (simp add: cl_ring_W)
  have cf: "cl_If (cl_ne (W n c) (lit 0))
        (cl_If (cl_ULE (W n (a + b + c)) (W n a)) (cl_BVV 1 1) (cl_BVV 0 1))
        (cl_If (cl_ULT (W n (a + b + c)) (W n a)) (cl_BVV 1 1) (cl_BVV 0 1)) = flag v"
    using carry_out_flag [OF n c] assms(3) by simp
  show ?thesis
    unfolding pc_actions_ADCX_def Let_def carry arg_r res cf ndep_flag_W(1-5) [OF n8] ndep_flag_W(6) [OF n8 assms(1)]
    by (simp add: kept_flags_def)
qed

end
