(* ===== verification/X86_Conditions.thy ===== *)
theory X86_Conditions
  imports X86_Flags
begin

text \<open>
  From flag actions to condition codes: the packing of the flags, the evaluation of the sixteen
  conditions on both representations of the flags, the dispatch on \<open>cc_op\<close>. The locale
  \<open>flag_action\<close> states what an action promises, \<open>dispatched_action\<close> adds the names under which
  the dispatch calls it; the facts about \<open>pc_calculate_rdata_all\<close> and
  \<open>pc_calculate_condition\<close> are derived once there and interpreted on every action.
\<close>

section \<open>Packing\<close>

lemma int_size_of: "size_of (data p) = int (nat (size_of (data p)))"
  by (cases p) simp_all

abbreviation word_size :: "platform \<Rightarrow> nat" where
  "word_size p \<equiv> nat (size_of (data p))"

lemma pack_flags:
  "pc_make_rdata_if_necessary (size_of (data p))
     (flag_operand c) (flag_operand b) (flag_operand a) (flag_operand z) (flag_operand s) (flag_operand v) p =
   W (word_size p) (eflags_word \<lparr>CF = c, PF = b, AF = a, ZF = z, SF = s, OF = v\<rparr>)"
proof -
  let ?vec = "[(11, v), (7, s), (6, z), (4, a), (2, b), (0, c)] :: (int \<times> bool) list"
  have "descending (int (word_size p)) ?vec" by (cases p) simp_all
  from concat_flags_packed [OF this refl]
  have "concat_flags (size_of (data p)) (map (\<lambda>(off, b). (off, flag b)) ?vec) = W (word_size p) (packed ?vec)"
    by (simp only: int_size_of [symmetric])
  moreover have "packed ?vec = eflags_word \<lparr>CF = c, PF = b, AF = a, ZF = z, SF = s, OF = v\<rparr>"
    by (simp add: eflags_word_def)
  moreover have "sort_key (\<lambda>x. - fst x)
      [(0, Inr (flag_operand c)), (2, Inr (flag_operand b)), (4, Inr (flag_operand a)),
       (6, Inr (flag_operand z)), (7, Inr (flag_operand s)), (11, Inr (flag_operand v))] =
      map (\<lambda>(off, b). (off, flag b)) ?vec"
    by (simp add: flag_eq_operand)
  ultimately show ?thesis
    by (simp only: pc_make_rdata_if_necessary_def Let_def offsets_simps)
qed

lemma kept_flags_word: "kept_flags (eflags_word f) = f"
proof -
  obtain c b a z s v where f: "f = \<lparr>CF = c, PF = b, AF = a, ZF = z, SF = s, OF = v\<rparr>"
    by (cases f)
  show ?thesis
    unfolding f kept_flags_def eflags_word_def
    by (cases c; cases b; cases a; cases z; cases s; cases v; simp add: bit_iff_odd)
qed

section \<open>Conditions\<close>

lemma CondTypes_simps [simp]:
  "dget (CondTypes (data p)) ''CondO'' = 0" "dget (CondTypes (data p)) ''CondNO'' = 1"
  "dget (CondTypes (data p)) ''CondB'' = 2" "dget (CondTypes (data p)) ''CondNB'' = 3"
  "dget (CondTypes (data p)) ''CondZ'' = 4" "dget (CondTypes (data p)) ''CondNZ'' = 5"
  "dget (CondTypes (data p)) ''CondBE'' = 6" "dget (CondTypes (data p)) ''CondNBE'' = 7"
  "dget (CondTypes (data p)) ''CondS'' = 8" "dget (CondTypes (data p)) ''CondNS'' = 9"
  "dget (CondTypes (data p)) ''CondP'' = 10" "dget (CondTypes (data p)) ''CondNP'' = 11"
  "dget (CondTypes (data p)) ''CondL'' = 12" "dget (CondTypes (data p)) ''CondNL'' = 13"
  "dget (CondTypes (data p)) ''CondLE'' = 14" "dget (CondTypes (data p)) ''CondNLE'' = 15"
  by (cases p; simp add: data_def dget_def amd64_CondTypes_def x86_CondTypes_def)+

lemma condition_cases:
  assumes "0 \<le> v" and "v < (16 :: int)"
  obtains "v = 0" | "v = 1" | "v = 2" | "v = 3" | "v = 4" | "v = 5" | "v = 6" | "v = 7" | "v = 8"
    | "v = 9" | "v = 10" | "v = 11" | "v = 12" | "v = 13" | "v = 14" | "v = 15"
proof -
  have "v = 0 \<or> v = 1 \<or> v = 2 \<or> v = 3 \<or> v = 4 \<or> v = 5 \<or> v = 6 \<or> v = 7 \<or> v = 8 \<or> v = 9 \<or> v = 10
      \<or> v = 11 \<or> v = 12 \<or> v = 13 \<or> v = 14 \<or> v = 15"
    using assms by presburger
  then show ?thesis using that by blast
qed

lemma cond_bit_flags:
  assumes "0 \<le> v" and "v < 16"
  shows "cond_bit p v (flag (CF f)) (flag (PF f)) (flag (ZF f)) (flag (SF f)) (flag (OF f)) =
           flag (x86_condition v f)"
  using assms
  by (cases rule: condition_cases) (simp_all add: cond_bit_def is_cond_def x86_condition_def flag_simps)

text \<open>On a packed word each flag is the low bit of the word shifted right.\<close>

lemma cond_bit_packed:
  assumes "0 < n" and "0 \<le> v" and "v < 16"
  shows "cond_bit p v (W n c) (W n b) (W n z) (W n s) (W n o') =
           W n (of_bool (x86_condition v \<lparr>CF = odd c, PF = odd b, AF = x, ZF = odd z, SF = odd s, OF = odd o'\<rparr>))"
  using assms(2,3)
  by (cases rule: condition_cases)
    (simp_all add: cond_bit_def is_cond_def x86_condition_def bv_simps assms(1)
      one_and_eq mod_2_eq_odd even_or_iff even_xor_iff)

lemma cond_bit_unknown: "v < 0 \<or> 16 \<le> v \<Longrightarrow> cond_bit p v c b z s o' = Inl SimCCallError"
  by (auto simp: cond_bit_def is_cond_def)

lemma concat_flag:
  "0 < m \<Longrightarrow> cl_Concat [cl_BVV 0 (int m - 1), flag P] = W m (of_bool P)"
  by (simp add: flag_def bv_simps Suc_nat_eq_nat_zadd1)

text \<open>What the two clients return once the flags are known.\<close>

lemma condition_of_flags:
  assumes "pc_calculate_rdata_all_WRK cc_op d1 d2 nd p = Inr (rdata_of f)"
    and "op_concretize cond = Inr v" and "0 \<le> v" and "v < 16"
  shows "pc_calculate_condition cond cc_op d1 d2 nd p = W (word_size p) (of_bool (x86_condition v f))"
proof -
  have "0 < word_size p" by (cases p) simp_all
  then show ?thesis
    using assms cond_bit_flags [of v p f] concat_flag [of "word_size p" "x86_condition v f"]
    by (simp add: pc_calculate_condition_def rdata_of_def flag_eq_operand flip: int_size_of)
qed

lemma rdata_all_of_flags:
  assumes "pc_calculate_rdata_all_WRK cc_op d1 d2 nd p = Inr (rdata_of f)"
  shows "pc_calculate_rdata_all cc_op d1 d2 nd p = W (word_size p) (eflags_word f)"
  using assms by (cases f) (simp add: pc_calculate_rdata_all_def rdata_of_def pack_flags)

lemma OpTypes_COPY [simp]: "dget (OpTypes (data p)) ''G_CC_OP_COPY'' = Some 0"
  by (cases p) (simp_all add: data_def dget_def amd64_OpTypes_def x86_OpTypes_def)

lemma rdata_all_WRK_copy:
  assumes "op_concretize cc_op = Inr 0" and "0 < n"
  shows "pc_calculate_rdata_all_WRK cc_op (W n a) d2 nd p = Inr (Packed (Bv (bvv n (a AND 0x8D5))))"
  using assms by (simp add: pc_calculate_rdata_all_WRK_def bv_simps)

lemma condition_of_copy:
  assumes "op_concretize cc_op = Inr 0" and "op_concretize cond = Inr v" and "0 \<le> v" and "v < 16"
    and "12 \<le> n"
  shows "pc_calculate_condition cond cc_op (W n a) d2 nd p = W n (of_bool (x86_condition v (kept_flags a)))"
proof -
  have n: "0 < n" using assms(5) by simp
  have "(11 :: int) < 2 ^ 12" by simp
  also have "(2 :: int) ^ 12 \<le> 2 ^ n" using assms(5) by (intro power_increasing) simp_all
  finally have e: "take_bit n k = k" if "0 \<le> k" "k \<le> 11" for k :: int
    using that by (simp add: take_bit_int_eq_self)
  define D where "D = (\<lambda>k. drop_bit k (take_bit n (a AND 0x8D5)))"
  have shr: "cl_LShR (W n (a AND 0x8D5)) (lit k) = W n (D (nat k))" if "0 \<le> k" "k \<le> 11" for k
    using n that e by (simp add: bv_simps D_def)
  have odd_D: "odd (D k) = bit a k" if "k = 0 \<or> k = 2 \<or> k = 4 \<or> k = 6 \<or> k = 7 \<or> k = 11" for k
    unfolding D_def bit_iff_odd_drop_bit [symmetric] using that assms(5) by (auto simp: bit_simps)
  have "kept_flags a = \<lparr>CF = odd (D 0), PF = odd (D 2), AF = bit a 4, ZF = odd (D 6),
      SF = odd (D 7), OF = odd (D 11)\<rparr>"
    by (simp add: kept_flags_def odd_D)
  then show ?thesis
    using assms(1,2) n cond_bit_packed [OF n assms(3,4), of p "D 0" "D 2" "D 6" "D 7" "D 11" "bit a 4"]
    by (simp add: pc_calculate_condition_def rdata_all_WRK_copy Let_def shr)
qed

section \<open>Dispatch\<close>

text \<open>The inverted table finds every operation that exists on the platform.\<close>

lemma invert_lookup:
  assumes "map_of t k = Some v" and "\<forall>(k', v') \<in> set t. v' = v \<longrightarrow> k' = k"
  shows "map_of (invert t) v = Some k"
proof -
  let ?t = "invert t"
  have mem: "(v, k) \<in> set ?t" using map_of_SomeD [OF assms(1)] by (force simp: invert_def)
  then obtain k' where k': "map_of ?t v = Some k'" by (metis map_of_eq_None_iff image_eqI fst_conv not_None_eq)
  then have "(k', v) \<in> set t" by (auto simp: invert_def dest!: map_of_SomeD)
  with assms(2) k' show ?thesis by auto
qed

lemma OpTypes_distinct: "distinct (map snd (filter (\<lambda>x. snd x \<noteq> None) (OpTypes (data p))))"
  by (cases p) (simp_all add: data_def amd64_OpTypes_def x86_OpTypes_def)

lemma OpTypes_inverse:
  assumes "map_of (OpTypes (data p)) name = Some (Some op)"
  shows "map_of (data_inverted_OpTypes p) (Some op) = Some name"
proof -
  let ?t = "filter (\<lambda>x. snd x \<noteq> None) (OpTypes (data p))"
  have mem: "(name, Some op) \<in> set ?t" using map_of_SomeD [OF assms] by simp
  have "k' = name" if "(k', Some op) \<in> set (OpTypes (data p))" for k'
  proof -
    from that have "(k', Some op) \<in> set ?t" by simp
    with mem OpTypes_distinct [of p] show ?thesis
      by (metis distinct_map inj_onD snd_conv prod.inject)
  qed
  then have "\<forall>(k', v') \<in> set (OpTypes (data p)). v' = Some op \<longrightarrow> k' = name" by auto
  from invert_lookup [OF assms this] show ?thesis by (simp add: data_inverted_OpTypes_def)
qed

lemma OpTypes_copy_name:
  assumes "map_of (OpTypes (data p)) name = Some (Some 0)"
  shows "name = ''G_CC_OP_COPY''"
proof -
  have "map_of (OpTypes (data p)) ''G_CC_OP_COPY'' = Some (Some 0)"
    by (cases p) (simp_all add: data_def amd64_OpTypes_def x86_OpTypes_def)
  from OpTypes_inverse [OF this] OpTypes_inverse [OF assms] show ?thesis by simp
qed

definition widths :: "nat set" where
  "widths = {8, 16, 32, 64}"

definition sized :: "string \<Rightarrow> nat \<Rightarrow> string" where
  "sized base n = base @ (if n = 8 then ''B'' else if n = 16 then ''W'' else if n = 32 then ''L'' else ''Q'')"

definition sized_bmi :: "string \<Rightarrow> nat \<Rightarrow> string" where
  "sized_bmi base n = base @ (if n = 32 then ''32'' else ''64'')"

text \<open>
  The contract of a flag action: at the widths it serves it returns the flags of its
  specification. The second locale adds what the dispatch needs: the names of the operation at
  these widths, and that a platform that has the operation is at least as wide.
\<close>

locale flag_action =
  fixes act :: "int \<Rightarrow> val \<Rightarrow> val \<Rightarrow> val \<Rightarrow> platform \<Rightarrow> rdata res"
    and spec :: "nat \<Rightarrow> int \<Rightarrow> int \<Rightarrow> int \<Rightarrow> eflags"
    and served :: "nat set"
  assumes act_spec:
    "n \<in> served \<Longrightarrow> act (int n) (W n a) (W n b) (W n nd) p = Inr (rdata_of (spec n a b nd))"

locale dispatched_action = flag_action +
  fixes name :: "nat \<Rightarrow> string"
  assumes nbits: "n \<in> served \<Longrightarrow> get_nbits (name n) = Some (int n)"
    and dispatch: "n \<in> served \<Longrightarrow> pc_dispatch (name n) k d1 d2 d3 p = act k d1 d2 d3 p"
    and fits: "n \<in> served \<Longrightarrow> map_of (OpTypes (data p)) (name n) = Some (Some op) \<Longrightarrow> n \<le> word_size p"
    and not_copy: "name n \<noteq> ''G_CC_OP_COPY''"
    and positive: "n \<in> served \<Longrightarrow> 0 < n"
begin

lemma rdata_all_WRK:
  assumes "n \<in> served" and "map_of (OpTypes (data p)) (name n) = Some (Some op)"
    and "op_concretize cc_op = Inr op"
  shows "pc_calculate_rdata_all_WRK cc_op (W (word_size p) a) (W (word_size p) b) (W (word_size p) nd) p =
           Inr (rdata_of (spec n a b nd))"
proof -
  have "op \<noteq> 0" using OpTypes_copy_name [of p "name n"] assms(2) not_copy by auto
  moreover have "cl_slice (Some (int n - 1)) (Some 0) (W (word_size p) x) = W n x" for x
    using positive [OF assms(1)] fits [OF assms(1,2)] by (rule cl_slice_low)
  ultimately show ?thesis
    using OpTypes_inverse [OF assms(2)] nbits [OF assms(1)] dispatch [OF assms(1)] act_spec [OF assms(1)]
      assms(3)
    by (simp add: pc_calculate_rdata_all_WRK_def)
qed

lemma rdata_all:
  assumes "n \<in> served" and "map_of (OpTypes (data p)) (name n) = Some (Some op)"
    and "op_concretize cc_op = Inr op"
  shows "pc_calculate_rdata_all cc_op (W (word_size p) a) (W (word_size p) b) (W (word_size p) nd) p =
           W (word_size p) (eflags_word (spec n a b nd))"
  by (rule rdata_all_of_flags [OF rdata_all_WRK [OF assms]])

lemma condition:
  assumes "n \<in> served" and "map_of (OpTypes (data p)) (name n) = Some (Some op)"
    and "op_concretize cc_op = Inr op" and "op_concretize cond = Inr v" and "0 \<le> v" and "v < 16"
  shows "pc_calculate_condition cond cc_op (W (word_size p) a) (W (word_size p) b) (W (word_size p) nd) p =
           W (word_size p) (of_bool (x86_condition v (spec n a b nd)))"
  by (rule condition_of_flags [OF rdata_all_WRK [OF assms(1-3)] assms(4-6)])

text \<open>Materialising the flags and testing them later gives the same condition.\<close>

lemma materialised_condition:
  assumes "n \<in> served" and "map_of (OpTypes (data p)) (name n) = Some (Some op)"
    and "op_concretize cc_op = Inr op" and "op_concretize cond = Inr v" and "0 \<le> v" and "v < 16"
  shows "pc_calculate_condition cond (lit 0)
           (pc_calculate_rdata_all cc_op (W (word_size p) a) (W (word_size p) b) (W (word_size p) nd) p)
           d2 d3 p =
         pc_calculate_condition cond cc_op (W (word_size p) a) (W (word_size p) b) (W (word_size p) nd) p"
proof -
  have "12 \<le> word_size p" by (cases p) simp_all
  then show ?thesis
    unfolding rdata_all [OF assms(1-3)] condition [OF assms]
    using condition_of_copy [of "lit 0" cond v] assms(4-6) by (simp add: kept_flags_word)
qed

end

lemma widths_ge: "n \<in> widths \<Longrightarrow> 8 \<le> n"
  by (auto simp: widths_def)

lemma get_nbits_sized: "n \<in> widths \<Longrightarrow> get_nbits (sized base n) = Some (int n)"
  by (auto simp: widths_def sized_def get_nbits_def endswith_def)

text \<open>The operations that have a \<open>Q\<close> variant have it on amd64 only.\<close>

definition quad_on_amd64_only :: "string \<Rightarrow> bool" where
  "quad_on_amd64_only base = (\<forall>k. map_of x86_OpTypes (sized base 64) \<noteq> Some (Some k))"

lemma sized_fits:
  assumes "n \<in> widths" and "map_of (OpTypes (data p)) (sized base n) = Some (Some op)"
    and "quad_on_amd64_only base"
  shows "n \<le> word_size p"
proof (cases p)
  case X86
  have "n \<noteq> 64" using assms(2,3) X86 by (auto simp: quad_on_amd64_only_def data_def)
  then show ?thesis using assms(1) X86 by (auto simp: widths_def)
qed (use assms(1) in \<open>auto simp: widths_def\<close>)

lemma sized_actionI:
  assumes "\<And>n a b nd p. 8 \<le> n \<Longrightarrow> act (int n) (W n a) (W n b) (W n nd) p = Inr (rdata_of (spec n a b nd))"
    and "\<And>n k d1 d2 d3 p. n \<in> widths \<Longrightarrow> pc_dispatch (sized base n) k d1 d2 d3 p = act k d1 d2 d3 p"
    and "quad_on_amd64_only base" and "\<And>n. sized base n \<noteq> ''G_CC_OP_COPY''"
  shows "dispatched_action act spec widths (sized base)"
proof unfold_locales
  show "n \<le> word_size p" if "n \<in> widths" "map_of (OpTypes (data p)) (sized base n) = Some (Some op)" for n p op
    using sized_fits [OF that assms(3)] .
qed (use assms(1,2,4) in \<open>auto simp: get_nbits_sized dest: widths_ge\<close>)

lemma quad_ops:
  "quad_on_amd64_only ''G_CC_OP_ADD''" "quad_on_amd64_only ''G_CC_OP_SUB''"
  "quad_on_amd64_only ''G_CC_OP_ADC''" "quad_on_amd64_only ''G_CC_OP_SBB''"
  "quad_on_amd64_only ''G_CC_OP_LOGIC''" "quad_on_amd64_only ''G_CC_OP_INC''"
  "quad_on_amd64_only ''G_CC_OP_DEC''" "quad_on_amd64_only ''G_CC_OP_SHL''"
  "quad_on_amd64_only ''G_CC_OP_SHR''" "quad_on_amd64_only ''G_CC_OP_ROL''"
  "quad_on_amd64_only ''G_CC_OP_ROR''" "quad_on_amd64_only ''G_CC_OP_UMUL''"
  "quad_on_amd64_only ''G_CC_OP_SMUL''" "quad_on_amd64_only ''G_CC_OP_ADCX''"
  "quad_on_amd64_only ''G_CC_OP_ADOX''"
  by (simp add: quad_on_amd64_only_def sized_def x86_OpTypes_def)+

lemmas sized_dispatch = quad_ops widths_def sized_def pc_dispatch_def

interpretation x86_add: dispatched_action pc_actions_ADD
  "\<lambda>n a b nd. add_flags n a b 0" widths "sized ''G_CC_OP_ADD''"
  by (rule sized_actionI) (auto simp: sized_dispatch pc_actions_ADD_flags Let_def)

interpretation x86_sub: dispatched_action pc_actions_SUB
  "\<lambda>n a b nd. sub_flags n a b 0" widths "sized ''G_CC_OP_SUB''"
  by (rule sized_actionI) (auto simp: sized_dispatch pc_actions_SUB_flags Let_def)

interpretation x86_adc: dispatched_action pc_actions_ADC
  "\<lambda>n a b nd. let c = of_bool (odd nd) in add_flags n a (b XOR c) c" widths "sized ''G_CC_OP_ADC''"
proof (rule sized_actionI)
  show "pc_actions_ADC (int n) (W n a) (W n b) (W n nd) p =
      Inr (rdata_of (let c = of_bool (odd nd) in add_flags n a (b XOR c) c))" if "8 \<le> n" for n a b nd p
    using pc_actions_ADC_flags [OF that refl, of a "b XOR of_bool (odd nd)" nd p] by (simp add: Let_def xor.assoc)
qed (auto simp: sized_dispatch)

interpretation x86_sbb: dispatched_action pc_actions_SBB
  "\<lambda>n a b nd. let c = of_bool (odd nd) in sub_flags n a (b XOR c) c" widths "sized ''G_CC_OP_SBB''"
proof (rule sized_actionI)
  show "pc_actions_SBB (int n) (W n a) (W n b) (W n nd) p =
      Inr (rdata_of (let c = of_bool (odd nd) in sub_flags n a (b XOR c) c))" if "8 \<le> n" for n a b nd p
    using pc_actions_SBB_flags [OF that refl, of a "b XOR of_bool (odd nd)" nd p] by (simp add: Let_def xor.assoc)
qed (auto simp: sized_dispatch)

interpretation x86_logic: dispatched_action pc_actions_LOGIC
  "\<lambda>n a b nd. result_flags n a False False False" widths "sized ''G_CC_OP_LOGIC''"
  by (rule sized_actionI) (auto simp: sized_dispatch pc_actions_LOGIC_flags Let_def)

interpretation x86_inc: dispatched_action pc_actions_INC
  "\<lambda>n a b nd. (add_flags n (a - 1) 1 0)\<lparr>CF := bit nd 0\<rparr>" widths "sized ''G_CC_OP_INC''"
  by (rule sized_actionI) (auto simp: sized_dispatch pc_actions_INC_flags Let_def)

interpretation x86_dec: dispatched_action pc_actions_DEC
  "\<lambda>n a b nd. (sub_flags n (a + 1) 1 0)\<lparr>CF := bit nd 0\<rparr>" widths "sized ''G_CC_OP_DEC''"
  by (rule sized_actionI) (auto simp: sized_dispatch pc_actions_DEC_flags Let_def)

interpretation x86_shl: dispatched_action pc_actions_SHL
  "\<lambda>n a b nd. result_flags n a (bit b (n - 1)) False (bit a (n - 1) \<noteq> bit b (n - 1))" widths "sized ''G_CC_OP_SHL''"
  by (rule sized_actionI) (auto simp: sized_dispatch pc_actions_SHL_flags Let_def)

interpretation x86_shr: dispatched_action pc_actions_SHR
  "\<lambda>n a b nd. result_flags n a (odd b) False (bit a (n - 1) \<noteq> bit b (n - 1))" widths "sized ''G_CC_OP_SHR''"
  by (rule sized_actionI) (auto simp: sized_dispatch pc_actions_SHR_flags Let_def)

interpretation x86_rol: dispatched_action pc_actions_ROL
  "\<lambda>n a b nd. (kept_flags nd)\<lparr>CF := bit a 0, OF := (bit a (n - 1) \<noteq> bit a 0)\<rparr>" widths "sized ''G_CC_OP_ROL''"
  by (rule sized_actionI) (auto simp: sized_dispatch pc_actions_ROL_flags Let_def)

interpretation x86_ror: dispatched_action pc_actions_ROR
  "\<lambda>n a b nd. (kept_flags nd)\<lparr>CF := bit a (n - 1), OF := (bit a (n - 1) \<noteq> bit a (n - 2))\<rparr>" widths "sized ''G_CC_OP_ROR''"
  by (rule sized_actionI) (auto simp: sized_dispatch pc_actions_ROR_flags Let_def)

interpretation x86_umul: dispatched_action pc_actions_UMUL
  "\<lambda>n a b nd. let v = (2 ^ n \<le> take_bit n a * take_bit n b) in result_flags n (a * b) v False v" widths "sized ''G_CC_OP_UMUL''"
  by (rule sized_actionI) (auto simp: sized_dispatch pc_actions_UMUL_flags Let_def)

interpretation x86_smul: dispatched_action pc_actions_SMUL
  "\<lambda>n a b nd. let v = (\<not> fits_signed n (signed_take_bit (n - 1) a * signed_take_bit (n - 1) b)) in
     result_flags n (a * b) v False v" widths "sized ''G_CC_OP_SMUL''"
  by (rule sized_actionI) (auto simp: sized_dispatch pc_actions_SMUL_flags Let_def)

text \<open>
  The operations at 32 and 64 bits only. \<open>ADCX\<close> and \<open>ADOX\<close> carry through one flag and keep the
  others.
\<close>

definition adcx_flags :: "bool \<Rightarrow> nat \<Rightarrow> int \<Rightarrow> int \<Rightarrow> int \<Rightarrow> eflags" where
  "adcx_flags is_adc n a d nd =
     (let c = of_bool (bit nd (if is_adc then 0 else 11));
          v = (2 ^ n \<le> take_bit n a + take_bit n (d XOR c) + c)
      in if is_adc then (kept_flags nd)\<lparr>CF := v\<rparr> else (kept_flags nd)\<lparr>OF := v\<rparr>)"

lemma adcx_act:
  assumes "12 \<le> n"
  shows "pc_actions_ADCX (int n) (W n a) (W n d) (W n nd) is_adc p = Inr (rdata_of (adcx_flags is_adc n a d nd))"
proof -
  define c :: int where "c = of_bool (bit nd (if is_adc then 0 else 11))"
  from pc_actions_ADCX_flags [OF assms c_def refl, of a "d XOR c" p]
  show ?thesis by (simp add: adcx_flags_def xor.assoc Let_def flip: c_def)
qed

lemma wide_actionI:
  assumes "\<And>n a b nd p. 12 \<le> n \<Longrightarrow> act (int n) (W n a) (W n b) (W n nd) p = Inr (rdata_of (spec n a b nd))"
    and "\<And>n k d1 d2 d3 p. n \<in> {32, 64} \<Longrightarrow> pc_dispatch (name n) k d1 d2 d3 p = act k d1 d2 d3 p"
    and "\<And>n. n \<in> {32, 64} \<Longrightarrow> get_nbits (name n) = Some (int n)"
    and "\<And>k. map_of x86_OpTypes (name 64) \<noteq> Some (Some k)" and "\<And>n. name n \<noteq> ''G_CC_OP_COPY''"
  shows "dispatched_action act spec {32, 64} name"
proof unfold_locales
  show "n \<le> word_size p" if "n \<in> {32, 64}" "map_of (OpTypes (data p)) (name n) = Some (Some op)" for n p op
    using that assms(4) by (cases p) (auto simp: data_def)
  show "act (int n) (W n a) (W n b) (W n nd) p = Inr (rdata_of (spec n a b nd))"
    if "n \<in> {32, 64}" for n a b nd p using that by (intro assms(1)) auto
qed (use assms(2-5) in auto)

interpretation x86_adcx: dispatched_action "\<lambda>k d1 d2 d3. pc_actions_ADCX k d1 d2 d3 True"
  "adcx_flags True" "{32, 64}" "sized ''G_CC_OP_ADCX''"
  by (rule wide_actionI)
    (auto simp: adcx_act sized_def pc_dispatch_def get_nbits_def endswith_def x86_OpTypes_def)

interpretation x86_adox: dispatched_action "\<lambda>k d1 d2 d3. pc_actions_ADCX k d1 d2 d3 False"
  "adcx_flags False" "{32, 64}" "sized ''G_CC_OP_ADOX''"
  by (rule wide_actionI)
    (auto simp: adcx_act sized_def pc_dispatch_def get_nbits_def endswith_def x86_OpTypes_def)

lemmas bmi_dispatch = sized_bmi_def pc_dispatch_def get_nbits_def endswith_def x86_OpTypes_def pc_actions_BMI_flags

interpretation x86_andn: dispatched_action pc_actions_ANDN
  "\<lambda>n a b nd. (result_flags n a False False False)\<lparr>PF := False\<rparr>" "{32, 64}" "sized_bmi ''G_CC_OP_ANDN''"
  by (rule wide_actionI) (auto simp: bmi_dispatch)

interpretation x86_blsi: dispatched_action pc_actions_BLSI
  "\<lambda>n a b nd. (result_flags n a (take_bit n b \<noteq> 0) False False)\<lparr>PF := False\<rparr>" "{32, 64}"
  "sized_bmi ''G_CC_OP_BLSI''"
  by (rule wide_actionI) (auto simp: bmi_dispatch)

interpretation x86_blsmsk: dispatched_action pc_actions_BLSMSK
  "\<lambda>n a b nd. (result_flags n a (take_bit n b = 0) False False)\<lparr>PF := False, ZF := False\<rparr>" "{32, 64}"
  "sized_bmi ''G_CC_OP_BLSMSK''"
  by (rule wide_actionI) (auto simp: bmi_dispatch)

interpretation x86_blsr: dispatched_action pc_actions_BLSR
  "\<lambda>n a b nd. (result_flags n a (take_bit n b = 0) False False)\<lparr>PF := False\<rparr>" "{32, 64}"
  "sized_bmi ''G_CC_OP_BLSR''"
  by (rule wide_actionI) (auto simp: bmi_dispatch)

section \<open>Comparisons\<close>

text \<open>What the sixteen conditions mean after a comparison of two operands.\<close>

definition compare_condition :: "int \<Rightarrow> nat \<Rightarrow> int \<Rightarrow> int \<Rightarrow> bool" where
  "compare_condition v n a b =
     (let ua = take_bit n a; ub = take_bit n b;
          sa = signed_take_bit (n - 1) a; sb = signed_take_bit (n - 1) b
      in if v = 0 then \<not> fits_signed n (sa - sb) else if v = 1 then fits_signed n (sa - sb)
         else if v = 2 then ua < ub else if v = 3 then ub \<le> ua
         else if v = 4 then ua = ub else if v = 5 then ua \<noteq> ub
         else if v = 6 then ua \<le> ub else if v = 7 then ub < ua
         else if v = 8 then signed_take_bit (n - 1) (a - b) < 0
         else if v = 9 then 0 \<le> signed_take_bit (n - 1) (a - b)
         else if v = 10 then even_parity 8 (a - b) else if v = 11 then \<not> even_parity 8 (a - b)
         else if v = 12 then sa < sb else if v = 13 then sb \<le> sa
         else if v = 14 then sa \<le> sb else sb < sa)"

lemma x86_condition_sub:
  assumes "0 < n" and "0 \<le> v" and "v < 16"
  shows "x86_condition v (sub_flags n a b 0) = compare_condition v n a b"
proof -
  have f: "CF (sub_flags n a b 0) = (take_bit n a < take_bit n b)"
    "PF (sub_flags n a b 0) = even_parity 8 (a - b)"
    "ZF (sub_flags n a b 0) = (take_bit n a = take_bit n b)"
    "SF (sub_flags n a b 0) = (signed_take_bit (n - 1) (a - b) < 0)"
    "OF (sub_flags n a b 0) = (\<not> fits_signed n (signed_take_bit (n - 1) a - signed_take_bit (n - 1) b))"
    by (simp_all add: sub_flags_def result_flags_def take_bit_diff_0_iff)
  define sa sb where "sa = signed_take_bit (n - 1) a" and "sb = signed_take_bit (n - 1) b"
  note less = signed_less_iff [OF assms(1), of a b, folded sa_def sb_def]
  have eq: "sa = sb \<longleftrightarrow> take_bit n a = take_bit n b"
    unfolding sa_def sb_def by (rule signed_take_bit_eq_iff [OF assms(1)])
  have le: "sa \<le> sb \<longleftrightarrow> sa < sb \<or> take_bit n a = take_bit n b"
    "sb < sa \<longleftrightarrow> \<not> (sa < sb \<or> take_bit n a = take_bit n b)" "sb \<le> sa \<longleftrightarrow> \<not> sa < sb"
    unfolding eq [symmetric] by auto
  show ?thesis
    using assms(2,3)
    by (cases rule: condition_cases)
      (simp_all only: x86_condition_def compare_condition_def f less Let_def sa_def [symmetric] sb_def [symmetric] le,
        auto)
qed

section \<open>Properties\<close>

text \<open>
  C6. After a comparison (\<open>SUB\<close> at 8, 16, 32 or 64 bits, on either platform)
  \<open>pc_calculate_condition\<close> decides each of the sixteen conditions as the comparison of the
  operands that the condition stands for: below and above compare the unsigned values, less and
  greater the signed values, overflow says that the signed difference is not representable.
\<close>

theorem x86_compare_conditions:
  assumes "n \<in> widths" and "map_of (OpTypes (data p)) (sized ''G_CC_OP_SUB'' n) = Some (Some op)"
    and "op_concretize cc_op = Inr op" and "op_concretize cond = Inr v" and "0 \<le> v" and "v < 16"
  shows "pc_calculate_condition cond cc_op (W (word_size p) a) (W (word_size p) b) (W (word_size p) nd) p =
           W (word_size p) (of_bool (compare_condition v n a b))"
proof -
  have "0 < n" using widths_ge [OF assms(1)] by simp
  then show ?thesis
    using x86_sub.condition [OF assms] x86_condition_sub [OF _ assms(5,6)] by simp
qed

theorem x86_compare_conditions_witness:
  "pc_calculate_condition (W 64 12) (W 64 7) (W 64 0xFFFFFFFF) (W 64 1) (W 64 0) AMD64 = W 64 1"
proof -
  have "compare_condition 12 32 0xFFFFFFFF 1"
    using signed_take_bit_top [of 32 "0xFFFFFFFF"] signed_take_bit_top [of 32 1]
    by (simp add: compare_condition_def take_bit_eq_mod)
  then show ?thesis
    using x86_compare_conditions [of 32 AMD64 7 "W 64 7" "W 64 12" 12 "0xFFFFFFFF" 1 0]
    by (simp add: widths_def sized_def data_def amd64_OpTypes_def take_bit_eq_mod)
qed

text \<open>
  C13. Materialising the flags into one word with \<open>pc_calculate_rdata_all\<close> and testing a condition
  on that word later (\<open>G_CC_OP_COPY\<close>) gives the same answer as testing the condition directly,
  for each of the sized operations, at each width and for each of the sixteen conditions.
\<close>

theorem x86_materialised_conditions:
  assumes "base \<in> {''G_CC_OP_ADD'', ''G_CC_OP_SUB'', ''G_CC_OP_ADC'', ''G_CC_OP_SBB'', ''G_CC_OP_LOGIC'',
      ''G_CC_OP_INC'', ''G_CC_OP_DEC'', ''G_CC_OP_SHL'', ''G_CC_OP_SHR'', ''G_CC_OP_ROL'', ''G_CC_OP_ROR'',
      ''G_CC_OP_UMUL'', ''G_CC_OP_SMUL''}"
    and "n \<in> widths" and "map_of (OpTypes (data p)) (sized base n) = Some (Some op)"
    and "op_concretize cc_op = Inr op" and "op_concretize cond = Inr v" and "0 \<le> v" and "v < 16"
  shows "pc_calculate_condition cond (lit 0)
           (pc_calculate_rdata_all cc_op (W (word_size p) a) (W (word_size p) b) (W (word_size p) nd) p)
           d2 d3 p =
         pc_calculate_condition cond cc_op (W (word_size p) a) (W (word_size p) b) (W (word_size p) nd) p"
proof -
  note ms = x86_add.materialised_condition x86_sub.materialised_condition x86_adc.materialised_condition
    x86_sbb.materialised_condition x86_logic.materialised_condition x86_inc.materialised_condition
    x86_dec.materialised_condition x86_shl.materialised_condition x86_shr.materialised_condition
    x86_rol.materialised_condition x86_ror.materialised_condition x86_umul.materialised_condition
    x86_smul.materialised_condition
  show ?thesis using assms(1) unfolding insert_iff empty_iff
    by (elim disjE FalseE) (rule ms [OF assms(2) _ assms(4-7)], use assms(3) in \<open>simp only:\<close>)+
qed

theorem x86_materialised_conditions_witness:
  "pc_calculate_condition (W 32 6) (lit 0)
     (pc_calculate_rdata_all (W 32 9) (W 32 5) (W 32 7) (W 32 1) X86) (W 32 0) (W 32 0) X86 =
   pc_calculate_condition (W 32 6) (W 32 9) (W 32 5) (W 32 7) (W 32 1) X86"
  using x86_materialised_conditions [of "''G_CC_OP_ADC''" 32 X86 9 "W 32 9" "W 32 6" 6 5 7 1 "W 32 0" "W 32 0"]
  by (simp add: widths_def sized_def data_def x86_OpTypes_def take_bit_eq_mod)

text \<open>
  The flags after an addition with carry: \<open>pc_calculate_rdata_all\<close> on \<open>ADC\<close> packs carry out of
  the unsigned sum, signed overflow, carry out of the low four bits, zero, sign and parity of
  \<open>a + b + c\<close>, where \<open>c\<close> is the old carry and the second dependency is \<open>b\<close> exclusive-or \<open>c\<close>.
\<close>

lemma x86_adc_flags:
  assumes "n \<in> widths" and "map_of (OpTypes (data p)) (sized ''G_CC_OP_ADC'' n) = Some (Some op)"
    and "op_concretize cc_op = Inr op" and "c = of_bool (odd nd)"
  shows "pc_calculate_rdata_all cc_op (W (word_size p) a) (W (word_size p) (b XOR c)) (W (word_size p) nd) p =
           W (word_size p) (eflags_word (add_flags n a b c))"
  using x86_adc.rdata_all [OF assms(1-3), of a "b XOR c" nd] assms(4) by (simp add: Let_def xor.assoc)

text \<open>
  The flags after a subtraction with borrow: \<open>pc_calculate_rdata_all\<close> on \<open>SBB\<close> packs borrow,
  signed overflow, borrow out of the low four bits, zero, sign and parity of \<open>a - b - c\<close>.
\<close>

lemma x86_sbb_flags:
  assumes "n \<in> widths" and "map_of (OpTypes (data p)) (sized ''G_CC_OP_SBB'' n) = Some (Some op)"
    and "op_concretize cc_op = Inr op" and "c = of_bool (odd nd)"
  shows "pc_calculate_rdata_all cc_op (W (word_size p) a) (W (word_size p) (b XOR c)) (W (word_size p) nd) p =
           W (word_size p) (eflags_word (sub_flags n a b c))"
  using x86_sbb.rdata_all [OF assms(1-3), of a "b XOR c" nd] assms(4) by (simp add: Let_def xor.assoc)

text \<open>
  After a multiplication, carry and overflow both say that the product does not fit: the
  unsigned product for \<open>UMUL\<close>, the signed product for \<open>SMUL\<close>.
\<close>

lemma x86_multiply_flags:
  assumes "n \<in> widths"
  shows "pc_actions_UMUL (int n) (W n a) (W n b) nd p =
           (let v = (2 ^ n \<le> take_bit n a * take_bit n b) in
            Inr (rdata_of (result_flags n (a * b) v False v)))
       \<and> pc_actions_SMUL (int n) (W n a) (W n b) nd p =
           (let v = (\<not> fits_signed n (signed_take_bit (n - 1) a * signed_take_bit (n - 1) b)) in
            Inr (rdata_of (result_flags n (a * b) v False v)))"
  using pc_actions_UMUL_flags [OF widths_ge [OF assms]] pc_actions_SMUL_flags [OF widths_ge [OF assms]]
  by (intro conjI)

text \<open>
  A shift left by \<open>k\<close> sets the carry to the last bit shifted out, a shift right likewise;
  the dependencies are the operand shifted by \<open>k\<close> and by \<open>k - 1\<close>.
\<close>

lemma x86_shift_carry:
  assumes "n \<in> widths" and "0 < k" and "k \<le> n"
  shows "pc_actions_SHL (int n) (W n (push_bit k a)) (W n (push_bit (k - 1) a)) nd p =
           Inr (rdata_of (result_flags n (push_bit k a) (bit a (n - k)) False
             (bit (push_bit k a) (n - 1) \<noteq> bit a (n - k))))
       \<and> pc_actions_SHR (int n) (W n (drop_bit k (take_bit n a))) (W n (drop_bit (k - 1) (take_bit n a))) nd p =
           Inr (rdata_of (result_flags n (drop_bit k (take_bit n a)) (bit a (k - 1)) False
             (bit (drop_bit k (take_bit n a)) (n - 1) \<noteq> bit (drop_bit (k - 1) (take_bit n a)) (n - 1))))"
proof -
  have "k - 1 \<le> n - 1" "n - 1 - (k - 1) = n - k" "k - 1 < n" using assms(2,3) by auto
  then have "bit (push_bit (k - 1) a) (n - 1) = bit a (n - k)"
    "odd (drop_bit (k - 1) (take_bit n a)) = bit a (k - 1)"
    by (simp_all add: bit_push_bit_iff_int bit_take_bit_iff flip: bit_iff_odd_drop_bit)
  then show ?thesis
    using pc_actions_SHL_flags [OF widths_ge [OF assms(1)]] pc_actions_SHR_flags [OF widths_ge [OF assms(1)]]
    by simp
qed

text \<open>
  Error paths of the dispatch: an operation that the platform does not have raises
  \<open>KeyError\<close>, \<open>G_CC_OP_NUMBER\<close> has no width and raises \<open>TypeError\<close>, and a condition outside the
  sixteen raises \<open>SimCCallError\<close> after a comparison.
\<close>

lemma x86_error_paths:
  assumes "65 < unknown" and "16 \<le> v"
  shows "pc_calculate_rdata_all_WRK (lit unknown) d1 d2 nd AMD64 = Inl KeyError
       \<and> pc_calculate_rdata_all_WRK (lit 65) d1 d2 nd AMD64 = Inl TypeError
       \<and> pc_calculate_rdata_all_WRK (lit 40) d1 d2 nd X86 = Inl TypeError
       \<and> pc_calculate_condition (lit v) (lit 8) (W 64 a) (W 64 b) (W 64 c) AMD64 = Inl SimCCallError"
proof (intro conjI)
  have "Some unknown \<notin> snd ` set amd64_OpTypes" using assms(1) by (simp add: amd64_OpTypes_def)
  then have "map_of (data_inverted_OpTypes AMD64) (Some unknown) = None"
    by (auto simp: map_of_eq_None_iff data_inverted_OpTypes_def invert_def data_def image_iff)
  then show "pc_calculate_rdata_all_WRK (lit unknown) d1 d2 nd AMD64 = Inl KeyError"
    using assms(1) by (simp add: pc_calculate_rdata_all_WRK_def)
  have number: "map_of (data_inverted_OpTypes p) (Some op) = Some ''G_CC_OP_NUMBER''"
    if "map_of (OpTypes (data p)) ''G_CC_OP_NUMBER'' = Some (Some op)" for p op
    using that by (rule OpTypes_inverse)
  have "map_of (data_inverted_OpTypes AMD64) (Some 65) = Some ''G_CC_OP_NUMBER''"
    "map_of (data_inverted_OpTypes X86) (Some 40) = Some ''G_CC_OP_NUMBER''"
    by (rule number; simp add: data_def amd64_OpTypes_def x86_OpTypes_def)+
  then show "pc_calculate_rdata_all_WRK (lit 65) d1 d2 nd AMD64 = Inl TypeError"
    "pc_calculate_rdata_all_WRK (lit 40) d1 d2 nd X86 = Inl TypeError"
    by (simp_all add: pc_calculate_rdata_all_WRK_def get_nbits_def endswith_def)
  have "pc_calculate_rdata_all_WRK (lit 8) (W 64 a) (W 64 b) (W 64 c) AMD64 = Inr (rdata_of (sub_flags 64 a b 0))"
    using x86_sub.rdata_all_WRK [of 64 AMD64 8 "lit 8"]
    by (simp add: widths_def sized_def data_def amd64_OpTypes_def)
  then show "pc_calculate_condition (lit v) (lit 8) (W 64 a) (W 64 b) (W 64 c) AMD64 = Inl SimCCallError"
    using assms(2) cond_bit_unknown [of v]
    by (simp add: pc_calculate_condition_def rdata_of_def cl_Concat_def cl_BVV_W)
qed

end
