(* ===== verification/CCall_Simple.thy ===== *)
theory CCall_Simple
  imports X86_Conditions
begin

text \<open>
  The simplified condition-code calls (\<open>pc_calculate_condition_simple\<close> and the functions that it
  finds by name in \<open>globals()\<close>), the carry alone (\<open>pc_calculate_rdata_c\<close>) and the entry points
  \<open>amd64g_calculate_*\<close> and \<open>x86g_calculate_*\<close> of \<open>ccall.py\<close>. A lookup in \<open>globals()\<close> is a lookup
  in an association list from the names of the functions. \<open>USE_SIMPLIFIED_CCALLS in
  state.options\<close>, the only part of the state that is read, is a boolean argument. The lemmas
  compare the simplified calls with the full computation.
\<close>

section \<open>General operations and conditions\<close>

definition pc_actions_op_SUB :: "val \<Rightarrow> val \<Rightarrow> val \<Rightarrow> val" where
  "pc_actions_op_SUB arg_l arg_r cc_ndep = cl_sub arg_l arg_r"

definition pc_actions_op_DEC :: "val \<Rightarrow> val \<Rightarrow> val \<Rightarrow> val" where
  "pc_actions_op_DEC arg_l arg_r cc_ndep = cl_sub arg_l (lit 1)"

definition pc_actions_op_INC :: "val \<Rightarrow> val \<Rightarrow> val \<Rightarrow> val" where
  "pc_actions_op_INC arg_l arg_r cc_ndep = cl_add arg_l (lit 1)"

definition pc_actions_op_SHR :: "val \<Rightarrow> val \<Rightarrow> val \<Rightarrow> val" where
  "pc_actions_op_SHR arg_l arg_r cc_ndep = cl_sar arg_l arg_r"

definition pc_actions_op_SHL :: "val \<Rightarrow> val \<Rightarrow> val \<Rightarrow> val" where
  "pc_actions_op_SHL arg_l arg_r cc_ndep = cl_shl arg_l arg_r"

definition pc_actions_op_ADD :: "val \<Rightarrow> val \<Rightarrow> val \<Rightarrow> val" where
  "pc_actions_op_ADD arg_l arg_r cc_ndep = cl_add arg_l arg_r"

definition pc_actions_op_LOGIC :: "val \<Rightarrow> val \<Rightarrow> val \<Rightarrow> val" where
  "pc_actions_op_LOGIC arg_l arg_r cc_ndep = arg_l"

definition pc_actions_cond_CondZ :: "val \<Rightarrow> val" where
  "pc_actions_cond_CondZ cc_expr = cond_flag (cl_eq cc_expr (lit 0))"

definition pc_actions_cond_CondNZ :: "val \<Rightarrow> val" where
  "pc_actions_cond_CondNZ cc_expr = cond_flag (cl_ne cc_expr (lit 0))"

definition pc_actions_cond_CondS :: "val \<Rightarrow> val" where
  "pc_actions_cond_CondS cc_expr = cond_flag (cl_SLT cc_expr (lit 0))"

definition pc_actions_cond_CondB :: "val \<Rightarrow> val" where
  "pc_actions_cond_CondB cc_expr = cond_flag (cl_ULT cc_expr (lit 0))"

definition pc_actions_cond_CondBE :: "val \<Rightarrow> val" where
  "pc_actions_cond_CondBE cc_expr = cond_flag (cl_ULE cc_expr (lit 0))"

definition pc_actions_cond_CondNBE :: "val \<Rightarrow> val" where
  "pc_actions_cond_CondNBE cc_expr = cond_flag (cl_UGT cc_expr (lit 0))"

definition pc_actions_cond_CondL :: "val \<Rightarrow> val" where
  "pc_actions_cond_CondL cc_expr = cond_flag (cl_SLT cc_expr (lit 0))"

definition pc_actions_cond_CondLE :: "val \<Rightarrow> val" where
  "pc_actions_cond_CondLE cc_expr = cond_flag (cl_SLE cc_expr (lit 0))"

definition pc_actions_cond_CondNLE :: "val \<Rightarrow> val" where
  "pc_actions_cond_CondNLE cc_expr = cond_flag (cl_SGT cc_expr (lit 0))"

section \<open>Specialized versions for SUB\<close>

definition pc_actions_SUB_CondZ :: "val \<Rightarrow> val \<Rightarrow> val \<Rightarrow> val" where
  "pc_actions_SUB_CondZ arg_l arg_r cc_ndep = cond_flag (cl_eq arg_l arg_r)"

definition pc_actions_SUB_CondNZ :: "val \<Rightarrow> val \<Rightarrow> val \<Rightarrow> val" where
  "pc_actions_SUB_CondNZ arg_l arg_r cc_ndep = cond_flag (cl_ne arg_l arg_r)"

definition pc_actions_SUB_CondB :: "val \<Rightarrow> val \<Rightarrow> val \<Rightarrow> val" where
  "pc_actions_SUB_CondB arg_l arg_r cc_ndep = cond_flag (cl_ULT arg_l arg_r)"

definition pc_actions_SUB_CondBE :: "val \<Rightarrow> val \<Rightarrow> val \<Rightarrow> val" where
  "pc_actions_SUB_CondBE arg_l arg_r cc_ndep = cond_flag (cl_ULE arg_l arg_r)"

definition pc_actions_SUB_CondNBE :: "val \<Rightarrow> val \<Rightarrow> val \<Rightarrow> val" where
  "pc_actions_SUB_CondNBE arg_l arg_r cc_ndep = cond_flag (cl_UGT arg_l arg_r)"

definition pc_actions_SUB_CondL :: "val \<Rightarrow> val \<Rightarrow> val \<Rightarrow> val" where
  "pc_actions_SUB_CondL arg_l arg_r cc_ndep = cond_flag (cl_SLT arg_l arg_r)"

definition pc_actions_SUB_CondLE :: "val \<Rightarrow> val \<Rightarrow> val \<Rightarrow> val" where
  "pc_actions_SUB_CondLE arg_l arg_r cc_ndep = cond_flag (cl_SLE arg_l arg_r)"

definition pc_actions_SUB_CondNLE :: "val \<Rightarrow> val \<Rightarrow> val \<Rightarrow> val" where
  "pc_actions_SUB_CondNLE arg_l arg_r cc_ndep = cond_flag (cl_SGT arg_l arg_r)"

section \<open>Lookup by name\<close>

definition globals_special :: "(string \<times> (val \<Rightarrow> val \<Rightarrow> val \<Rightarrow> val)) list" where
  "globals_special = [
     (''pc_actions_SUB_CondZ'', pc_actions_SUB_CondZ),
     (''pc_actions_SUB_CondNZ'', pc_actions_SUB_CondNZ),
     (''pc_actions_SUB_CondB'', pc_actions_SUB_CondB),
     (''pc_actions_SUB_CondBE'', pc_actions_SUB_CondBE),
     (''pc_actions_SUB_CondNBE'', pc_actions_SUB_CondNBE),
     (''pc_actions_SUB_CondL'', pc_actions_SUB_CondL),
     (''pc_actions_SUB_CondLE'', pc_actions_SUB_CondLE),
     (''pc_actions_SUB_CondNLE'', pc_actions_SUB_CondNLE)]"

definition globals_op :: "(string \<times> (val \<Rightarrow> val \<Rightarrow> val \<Rightarrow> val)) list" where
  "globals_op = [
     (''pc_actions_op_SUB'', pc_actions_op_SUB),
     (''pc_actions_op_DEC'', pc_actions_op_DEC),
     (''pc_actions_op_INC'', pc_actions_op_INC),
     (''pc_actions_op_SHR'', pc_actions_op_SHR),
     (''pc_actions_op_SHL'', pc_actions_op_SHL),
     (''pc_actions_op_ADD'', pc_actions_op_ADD),
     (''pc_actions_op_LOGIC'', pc_actions_op_LOGIC)]"

definition globals_cond :: "(string \<times> (val \<Rightarrow> val)) list" where
  "globals_cond = [
     (''pc_actions_cond_CondZ'', pc_actions_cond_CondZ),
     (''pc_actions_cond_CondNZ'', pc_actions_cond_CondNZ),
     (''pc_actions_cond_CondS'', pc_actions_cond_CondS),
     (''pc_actions_cond_CondB'', pc_actions_cond_CondB),
     (''pc_actions_cond_CondBE'', pc_actions_cond_CondBE),
     (''pc_actions_cond_CondNBE'', pc_actions_cond_CondNBE),
     (''pc_actions_cond_CondL'', pc_actions_cond_CondL),
     (''pc_actions_cond_CondLE'', pc_actions_cond_CondLE),
     (''pc_actions_cond_CondNLE'', pc_actions_cond_CondNLE)]"

text \<open>The loop over \<open>CondTypes\<close> stops at the first key with the value; no key is \<open>None\<close>.\<close>

fun find_cond :: "int \<Rightarrow> (string \<times> int) list \<Rightarrow> string" where
  "find_cond v [] = ''None''"
| "find_cond v ((key, cond_val) # rest) = (if cond_val = v then key else find_cond v rest)"

definition pc_simple_action :: "string \<Rightarrow> string \<Rightarrow> val \<Rightarrow> val \<Rightarrow> val \<Rightarrow> val" where
  "pc_simple_action op cond d1 d2 cc_ndep =
     (case map_of globals_special (''pc_actions_'' @ op @ ''_'' @ cond) of
        Some f \<Rightarrow> f d1 d2 cc_ndep
      | None \<Rightarrow>
          (case (map_of globals_op (''pc_actions_op_'' @ op),
                 map_of globals_cond (''pc_actions_cond_'' @ cond)) of
             (Some g, Some h) \<Rightarrow> h (g d1 d2 cc_ndep)
           | _ \<Rightarrow> Inl SimCCallError))"

definition pc_calculate_condition_simple ::
  "val \<Rightarrow> val \<Rightarrow> val \<Rightarrow> val \<Rightarrow> val \<Rightarrow> platform \<Rightarrow> val" where
  "pc_calculate_condition_simple cond cc_op cc_dep1 cc_dep2 cc_ndep platform =
     bind_res (op_concretize cond) (\<lambda>v.
     bind_res (op_concretize cc_op) (\<lambda>op.
       if Some op = dget (OpTypes (data platform)) ''G_CC_OP_COPY'' then Inl SimCCallError
       else if Some op = dget (OpTypes (data platform)) ''G_CC_OP_NUMBER'' then Inl SimCCallError
       else
         case map_of (data_inverted_OpTypes platform) (Some op) of
           None \<Rightarrow> Inl KeyError
         | Some op_str \<Rightarrow>
             (case get_nbits op_str of
                None \<Rightarrow> Inl TypeError
              | Some nbits \<Rightarrow>
                  let name = butlast (drop 8 op_str);
                      cond_name = find_cond v (CondTypes (data platform))
                  in bind_res (cl_slice (Some (nbits - 1)) (Some 0) cc_dep1) (\<lambda>d1.
                     bind_res (cl_slice (Some (nbits - 1)) (Some 0) cc_dep2) (\<lambda>d2.
                     bind_res (pc_simple_action name cond_name (Inr d1) (Inr d2) cc_ndep) (\<lambda>r.
                     cl_Concat [cl_BVV 0 (size_of (data platform) - 1), Inr r]))))))"

section \<open>The carry alone and the entry points\<close>

definition pc_calculate_rdata_c ::
  "val \<Rightarrow> val \<Rightarrow> val \<Rightarrow> val \<Rightarrow> platform \<Rightarrow> val" where
  "pc_calculate_rdata_c cc_op cc_dep1 cc_dep2 cc_ndep platform =
     bind_res (op_concretize cc_op) (\<lambda>op.
       let ops = dget (OpTypes (data platform));
           shift_c = lit (dget (CondBitOffsets (data platform)) ''G_CC_SHIFT_C'')
       in if Some op = ops ''G_CC_OP_COPY'' then cl_and (cl_LShR cc_dep1 shift_c) (lit 1)
          else if Some op \<in> set [ops ''G_CC_OP_LOGICQ'', ops ''G_CC_OP_LOGICL'',
                                ops ''G_CC_OP_LOGICW'', ops ''G_CC_OP_LOGICB'']
          then cl_BVV 0 (size_of (data platform))
          else
            bind_res (pc_calculate_rdata_all_WRK (lit op) cc_dep1 cc_dep2 cc_ndep platform) (\<lambda>rdata_all.
              case rdata_all of
                Flags c p a z s o' \<Rightarrow>
                  cl_Concat [cl_BVV 0 (size_of (data platform) - 1), cl_and (Inr c) (lit 1)]
              | Packed x \<Rightarrow> cl_and (cl_LShR (Inr x) shift_c) (lit 1)))"

definition amd64g_calculate_condition ::
  "bool \<Rightarrow> val \<Rightarrow> val \<Rightarrow> val \<Rightarrow> val \<Rightarrow> val \<Rightarrow> val" where
  "amd64g_calculate_condition use_simplified cond cc_op cc_dep1 cc_dep2 cc_ndep =
     (if use_simplified then
        (case pc_calculate_condition_simple cond cc_op cc_dep1 cc_dep2 cc_ndep AMD64 of
           Inl KeyError \<Rightarrow> pc_calculate_condition cond cc_op cc_dep1 cc_dep2 cc_ndep AMD64
         | r \<Rightarrow> r)
      else pc_calculate_condition cond cc_op cc_dep1 cc_dep2 cc_ndep AMD64)"

definition amd64g_calculate_rflags_all :: "val \<Rightarrow> val \<Rightarrow> val \<Rightarrow> val \<Rightarrow> val" where
  "amd64g_calculate_rflags_all cc_op cc_dep1 cc_dep2 cc_ndep =
     pc_calculate_rdata_all cc_op cc_dep1 cc_dep2 cc_ndep AMD64"

definition amd64g_calculate_rflags_c :: "val \<Rightarrow> val \<Rightarrow> val \<Rightarrow> val \<Rightarrow> val" where
  "amd64g_calculate_rflags_c cc_op cc_dep1 cc_dep2 cc_ndep =
     pc_calculate_rdata_c cc_op cc_dep1 cc_dep2 cc_ndep AMD64"

definition x86g_calculate_condition ::
  "bool \<Rightarrow> val \<Rightarrow> val \<Rightarrow> val \<Rightarrow> val \<Rightarrow> val \<Rightarrow> val" where
  "x86g_calculate_condition use_simplified cond cc_op cc_dep1 cc_dep2 cc_ndep =
     (if use_simplified then pc_calculate_condition_simple cond cc_op cc_dep1 cc_dep2 cc_ndep X86
      else pc_calculate_condition cond cc_op cc_dep1 cc_dep2 cc_ndep X86)"

definition x86g_calculate_eflags_all :: "val \<Rightarrow> val \<Rightarrow> val \<Rightarrow> val \<Rightarrow> val" where
  "x86g_calculate_eflags_all cc_op cc_dep1 cc_dep2 cc_ndep =
     pc_calculate_rdata_all cc_op cc_dep1 cc_dep2 cc_ndep X86"

definition x86g_calculate_eflags_c :: "val \<Rightarrow> val \<Rightarrow> val \<Rightarrow> val \<Rightarrow> val" where
  "x86g_calculate_eflags_c cc_op cc_dep1 cc_dep2 cc_ndep =
     pc_calculate_rdata_c cc_op cc_dep1 cc_dep2 cc_ndep X86"

section \<open>The simplified calls against the full computation\<close>

definition cond_name :: "int \<Rightarrow> string" where
  "cond_name v = find_cond v amd64_CondTypes"

lemma find_cond_platform: "0 \<le> v \<Longrightarrow> v < 16 \<Longrightarrow> find_cond v (CondTypes (data p)) = cond_name v"
  by (cases v rule: condition_cases; cases p)
    (simp_all add: cond_name_def data_def amd64_CondTypes_def x86_CondTypes_def)

lemma OpTypes_number_name:
  assumes "map_of (OpTypes (data p)) name = Some (Some op)"
    and "Some op = dget (OpTypes (data p)) ''G_CC_OP_NUMBER''"
  shows "name = ''G_CC_OP_NUMBER''"
proof -
  have "map_of (OpTypes (data p)) ''G_CC_OP_NUMBER'' = Some (Some op)"
    using assms(2) by (cases p) (simp_all add: data_def dget_def amd64_OpTypes_def x86_OpTypes_def)
  from OpTypes_inverse [OF this] OpTypes_inverse [OF assms(1)] show ?thesis by simp
qed

lemma simple_dispatch:
  assumes "n \<in> widths" and "map_of (OpTypes (data p)) (sized (''G_CC_OP_'' @ base) n) = Some (Some op)"
    and "op_concretize cc_op = Inr op" and "op_concretize cond = Inr v" and "0 \<le> v" and "v < 16"
    and "quad_on_amd64_only (''G_CC_OP_'' @ base)" and "base \<in> {''SUB'', ''LOGIC'', ''ADD'', ''DEC'', ''INC''}"
  shows "pc_calculate_condition_simple cond cc_op (W (word_size p) a) (W (word_size p) b) nd p =
           bind_res (pc_simple_action base (cond_name v) (W n a) (W n b) nd)
             (\<lambda>r. cl_Concat [cl_BVV 0 (size_of (data p) - 1), Inr r])"
proof -
  let ?name = "sized (''G_CC_OP_'' @ base) n"
  have "?name \<noteq> ''G_CC_OP_COPY''" "?name \<noteq> ''G_CC_OP_NUMBER''" "butlast (drop 8 ?name) = base"
    using assms(8) by (auto simp: sized_def)
  moreover from this have "op \<noteq> 0" "Some op \<noteq> dget (OpTypes (data p)) ''G_CC_OP_NUMBER''"
    using OpTypes_copy_name [of p ?name] OpTypes_number_name [of p ?name op] assms(2) by auto
  moreover have "cl_slice (Some (int n - 1)) (Some 0) (W (word_size p) x) = W n x" for x
    by (rule cl_slice_low) (use sized_fits [OF assms(1,2,7)] widths_ge [OF assms(1)] in simp_all)
  ultimately show ?thesis
    using OpTypes_inverse [OF assms(2)] get_nbits_sized [OF assms(1)] find_cond_platform [OF assms(5,6), of p]
      assms(3,4)
    by (simp add: pc_calculate_condition_simple_def Let_def)
qed

text \<open>The nine conditions that the simplified calls know.\<close>

definition simple_cond :: "int \<Rightarrow> bool" where
  "simple_cond v \<longleftrightarrow> v \<in> {2, 4, 5, 6, 7, 8, 12, 14, 15}"

lemmas globals_simps = pc_simple_action_def cond_name_def amd64_CondTypes_def globals_special_def
  globals_op_def globals_cond_def
lemmas simple_op_defs = pc_actions_op_SUB_def pc_actions_op_DEC_def pc_actions_op_INC_def
  pc_actions_op_ADD_def pc_actions_op_LOGIC_def
lemmas simple_cond_defs = pc_actions_cond_CondZ_def pc_actions_cond_CondNZ_def pc_actions_cond_CondS_def
  pc_actions_cond_CondB_def pc_actions_cond_CondBE_def pc_actions_cond_CondNBE_def
  pc_actions_cond_CondL_def pc_actions_cond_CondLE_def pc_actions_cond_CondNLE_def
lemmas simple_sub_defs = pc_actions_SUB_CondZ_def pc_actions_SUB_CondNZ_def pc_actions_SUB_CondB_def
  pc_actions_SUB_CondBE_def pc_actions_SUB_CondNBE_def pc_actions_SUB_CondL_def
  pc_actions_SUB_CondLE_def pc_actions_SUB_CondNLE_def

lemma simple_sub:
  assumes "0 < n" and "0 \<le> v" and "v < 16"
  shows "pc_simple_action ''SUB'' (cond_name v) (W n a) (W n b) nd =
           (if simple_cond v then flag (compare_condition v n a b) else Inl SimCCallError)"
  using assms(2,3)
  by (cases rule: condition_cases)
    (simp_all add: globals_simps simple_op_defs simple_cond_defs simple_sub_defs simple_cond_def
      compare_condition_def bv_simps assms(1))

lemma simple_logic:
  assumes "0 < n" and "0 \<le> v" and "v < 16"
  shows "pc_simple_action ''LOGIC'' (cond_name v) (W n a) (W n b) nd =
           (if simple_cond v then flag (x86_condition v (result_flags n a False False False))
            else Inl SimCCallError)"
proof -
  define M u where "M = (2 :: int) ^ (n - 1)" and "u = take_bit n a"
  have M: "2 ^ n = 2 * M" "0 < M" using assms(1) half_power [of n] by (simp_all add: M_def)
  have u: "0 \<le> u" "u < 2 * M" by (simp_all add: u_def flip: M(1))
  have s: "signed_take_bit (n - 1) a = (if M \<le> u then u - 2 * M else u)"
    using signed_take_bit_top [OF assms(1), of a] by (simp only: M_def u_def M(1))
  have facts: "signed_take_bit (n - 1) a \<le> 0 \<longleftrightarrow> signed_take_bit (n - 1) a < 0 \<or> u = 0"
    "u \<le> 0 \<longleftrightarrow> u = 0" "0 < u \<longleftrightarrow> u \<noteq> 0" "\<not> u < 0"
    unfolding s using u M by auto
  show ?thesis
    using assms(2,3)
    by (cases rule: condition_cases; insert facts)
      (auto simp: globals_simps simple_op_defs simple_cond_defs simple_cond_def
        x86_condition_def result_flags_def bv_simps assms(1) simp flip: u_def)
qed

text \<open>The carry alone is the carry flag of the action.\<close>

definition logic_name :: "string \<Rightarrow> bool" where
  "logic_name s \<longleftrightarrow> s \<in> {''G_CC_OP_LOGICB'', ''G_CC_OP_LOGICW'', ''G_CC_OP_LOGICL'', ''G_CC_OP_LOGICQ''}"

lemma logic_names:
  "logic_name ''G_CC_OP_LOGICB''" "logic_name ''G_CC_OP_LOGICW''" "logic_name ''G_CC_OP_LOGICL''"
  "logic_name ''G_CC_OP_LOGICQ''"
  unfolding logic_name_def by blast+

lemma OpTypes_logic_keys:
  "map_of (OpTypes (data p)) ''G_CC_OP_LOGICB'' = Some (dget (OpTypes (data p)) ''G_CC_OP_LOGICB'')"
  "map_of (OpTypes (data p)) ''G_CC_OP_LOGICW'' = Some (dget (OpTypes (data p)) ''G_CC_OP_LOGICW'')"
  "map_of (OpTypes (data p)) ''G_CC_OP_LOGICL'' = Some (dget (OpTypes (data p)) ''G_CC_OP_LOGICL'')"
  "map_of (OpTypes (data p)) ''G_CC_OP_LOGICQ'' = Some (dget (OpTypes (data p)) ''G_CC_OP_LOGICQ'')"
  by (cases p; simp add: data_def dget_def amd64_OpTypes_def x86_OpTypes_def)+

lemma OpTypes_logic_name:
  assumes "map_of (OpTypes (data p)) name = Some (Some op)"
    and "Some op \<in> set [dget (OpTypes (data p)) ''G_CC_OP_LOGICQ'', dget (OpTypes (data p)) ''G_CC_OP_LOGICL'',
           dget (OpTypes (data p)) ''G_CC_OP_LOGICW'', dget (OpTypes (data p)) ''G_CC_OP_LOGICB'']"
  shows "logic_name name"
proof -
  have "\<exists>s. logic_name s \<and> map_of (OpTypes (data p)) s = Some (Some op)"
    using assms(2) unfolding list.set insert_iff empty_iff
    by (metis OpTypes_logic_keys logic_names)
  then obtain s where s: "logic_name s" "map_of (OpTypes (data p)) s = Some (Some op)" by blast
  from OpTypes_inverse [OF s(2)] OpTypes_inverse [OF assms(1)] s(1) show ?thesis by simp
qed

context dispatched_action
begin

lemma rdata_c:
  assumes "n \<in> served" and "map_of (OpTypes (data p)) (name n) = Some (Some op)"
    and "op_concretize cc_op = Inr op" and "\<not> logic_name (name n)"
  shows "pc_calculate_rdata_c cc_op (W (word_size p) a) (W (word_size p) b) (W (word_size p) nd) p =
           W (word_size p) (of_bool (CF (spec n a b nd)))"
proof -
  have "op \<noteq> 0" using OpTypes_copy_name [of p "name n"] assms(2) not_copy by auto
  moreover have "Some op \<notin> set [dget (OpTypes (data p)) ''G_CC_OP_LOGICQ'',
      dget (OpTypes (data p)) ''G_CC_OP_LOGICL'', dget (OpTypes (data p)) ''G_CC_OP_LOGICW'',
      dget (OpTypes (data p)) ''G_CC_OP_LOGICB'']"
    using OpTypes_logic_name [OF assms(2)] assms(4) by blast
  moreover have "pc_calculate_rdata_all_WRK (lit op) (W (word_size p) a) (W (word_size p) b)
      (W (word_size p) nd) p = Inr (rdata_of (spec n a b nd))"
    using rdata_all_WRK [OF assms(1,2)] by simp
  moreover have "cl_and (Inr (flag_operand c)) (lit 1) = flag c" for c
    by (simp add: flag_simps flip: flag_eq_operand)
  moreover have "0 < word_size p" by (cases p) simp_all
  ultimately show ?thesis
    using assms(3) concat_flag [of "word_size p" "CF (spec n a b nd)"]
    by (simp only: pc_calculate_rdata_c_def Let_def bind_res_Inr OpTypes_COPY option.inject if_False
        rdata_of_def rdata.case int_size_of [symmetric])
qed

end

lemma rdata_c_logic:
  assumes "n \<in> widths" and "map_of (OpTypes (data p)) (sized ''G_CC_OP_LOGIC'' n) = Some (Some op)"
    and "op_concretize cc_op = Inr op"
  shows "pc_calculate_rdata_c cc_op d1 d2 nd p = W (word_size p) 0"
proof -
  have "Some op \<in> set [dget (OpTypes (data p)) ''G_CC_OP_LOGICQ'', dget (OpTypes (data p)) ''G_CC_OP_LOGICL'',
           dget (OpTypes (data p)) ''G_CC_OP_LOGICW'', dget (OpTypes (data p)) ''G_CC_OP_LOGICB'']"
    using assms(1,2) by (auto simp: widths_def sized_def dget_def)
  moreover have "op \<noteq> 0"
    using OpTypes_copy_name [of p "sized ''G_CC_OP_LOGIC'' n"] assms(2) by (auto simp: sized_def)
  moreover have "0 \<le> size_of (data p)" by (cases p) simp_all
  ultimately show ?thesis
    using assms(3) by (simp add: pc_calculate_rdata_c_def bv_simps)
qed

context dispatched_action
begin

lemma carry_bit:
  assumes "n \<in> served" and "map_of (OpTypes (data p)) (name n) = Some (Some op)"
    and "op_concretize cc_op = Inr op" and "\<not> logic_name (name n)"
  shows "\<exists>f. pc_calculate_rdata_all cc_op (W (word_size p) a) (W (word_size p) b) (W (word_size p) nd) p =
               W (word_size p) (eflags_word f)
           \<and> pc_calculate_rdata_c cc_op (W (word_size p) a) (W (word_size p) b) (W (word_size p) nd) p =
               W (word_size p) (of_bool (CF f))"
  using rdata_all [OF assms(1-3)] rdata_c [OF assms] by blast

end

lemma simple_result:
  "bind_res (flag c) (\<lambda>r. cl_Concat [cl_BVV 0 (size_of (data p) - 1), Inr r]) = W (word_size p) (of_bool c)"
  using concat_flag [of "word_size p" c] by (cases p) (simp_all add: flag_eq_operand)

lemma quad_simple:
  "quad_on_amd64_only (''G_CC_OP_'' @ ''SUB'')" "quad_on_amd64_only (''G_CC_OP_'' @ ''LOGIC'')"
  "quad_on_amd64_only (''G_CC_OP_'' @ ''DEC'')"
  by (simp_all add: quad_on_amd64_only_def sized_def x86_OpTypes_def)

section \<open>Properties\<close>

text \<open>
  C28. After a comparison or a logical operation the simplified calls agree with the full
  computation on the nine conditions they know; on the other seven they raise \<open>SimCCallError\<close>.
\<close>

theorem simplified_condition_agrees:
  assumes "base \<in> {''SUB'', ''LOGIC''}" and "n \<in> widths"
    and "map_of (OpTypes (data p)) (sized (''G_CC_OP_'' @ base) n) = Some (Some op)"
    and "op_concretize cc_op = Inr op" and "op_concretize cond = Inr v" and "0 \<le> v" and "v < 16"
  shows "pc_calculate_condition_simple cond cc_op (W (word_size p) a) (W (word_size p) b) (W (word_size p) nd) p =
           (if simple_cond v
            then pc_calculate_condition cond cc_op (W (word_size p) a) (W (word_size p) b) (W (word_size p) nd) p
            else Inl SimCCallError)"
proof -
  have n: "0 < n" using widths_ge [OF assms(2)] by simp
  have d: "pc_calculate_condition_simple cond cc_op (W (word_size p) a) (W (word_size p) b) (W (word_size p) nd) p =
      bind_res (pc_simple_action base (cond_name v) (W n a) (W n b) (W (word_size p) nd))
        (\<lambda>r. cl_Concat [cl_BVV 0 (size_of (data p) - 1), Inr r])"
    using assms(1) quad_simple by (intro simple_dispatch [OF assms(2-7)]) auto
  consider "base = ''SUB''" | "base = ''LOGIC''" using assms(1) by auto
  then show ?thesis
  proof cases
    case 1
    then have "map_of (OpTypes (data p)) (sized ''G_CC_OP_SUB'' n) = Some (Some op)" using assms(3) by simp
    note full = x86_sub.condition [OF assms(2) this assms(4-7)] x86_condition_sub [OF n assms(6,7)]
    show ?thesis unfolding d 1 simple_sub [OF n assms(6,7)] full by (simp add: simple_result)
  next
    case 2
    then have "map_of (OpTypes (data p)) (sized ''G_CC_OP_LOGIC'' n) = Some (Some op)" using assms(3) by simp
    note full = x86_logic.condition [OF assms(2) this assms(4-7)]
    show ?thesis unfolding d 2 simple_logic [OF n assms(6,7)] full by (simp add: simple_result)
  qed
qed

theorem simplified_condition_agrees_witness:
  "pc_calculate_condition_simple (W 64 2) (W 64 8) (W 64 5) (W 64 7) (W 64 0) AMD64 =
   pc_calculate_condition (W 64 2) (W 64 8) (W 64 5) (W 64 7) (W 64 0) AMD64"
  using simplified_condition_agrees [of "''SUB''" 64 AMD64 8 "W 64 8" "W 64 2" 2 5 7 0]
  by (simp add: widths_def sized_def data_def amd64_OpTypes_def simple_cond_def take_bit_eq_mod)

text \<open>
  C29. After a decrement the simplified zero condition is wrong: the dependency is already the
  result, which the full computation tests for zero, but \<open>pc_actions_op_DEC\<close> subtracts one
  again, so that the simplified condition holds exactly when the result is one.
\<close>

theorem simplified_decrement_zero:
  assumes "n \<in> widths" and "map_of (OpTypes (data p)) (sized ''G_CC_OP_DEC'' n) = Some (Some op)"
    and "op_concretize cc_op = Inr op"
  shows "pc_calculate_condition_simple (lit 4) cc_op (W (word_size p) a) (W (word_size p) b) (W (word_size p) nd) p =
           W (word_size p) (of_bool (take_bit n a = 1))
       \<and> pc_calculate_condition (lit 4) cc_op (W (word_size p) a) (W (word_size p) b) (W (word_size p) nd) p =
           W (word_size p) (of_bool (take_bit n a = 0))"
proof
  have n: "8 \<le> n" "0 < n" using widths_ge [OF assms(1)] by simp_all
  have one: "take_bit n (1 :: int) = 1" using n(1) by (simp add: take_bit_eq_mod)
  have "pc_simple_action ''DEC'' (cond_name 4) (W n a) (W n b) (W (word_size p) nd) = flag (take_bit n a = 1)"
    using n(2) take_bit_diff_0_iff [of n a 1] one
    by (simp add: globals_simps simple_op_defs simple_cond_defs bv_simps)
  moreover have "pc_calculate_condition_simple (lit 4) cc_op (W (word_size p) a) (W (word_size p) b) (W (word_size p) nd) p =
      bind_res (pc_simple_action ''DEC'' (cond_name 4) (W n a) (W n b) (W (word_size p) nd))
        (\<lambda>r. cl_Concat [cl_BVV 0 (size_of (data p) - 1), Inr r])"
    by (rule simple_dispatch) (use assms quad_simple in auto)
  ultimately show "pc_calculate_condition_simple (lit 4) cc_op (W (word_size p) a) (W (word_size p) b) (W (word_size p) nd) p =
      W (word_size p) (of_bool (take_bit n a = 1))"
    by (simp only: simple_result)
  show "pc_calculate_condition (lit 4) cc_op (W (word_size p) a) (W (word_size p) b) (W (word_size p) nd) p =
      W (word_size p) (of_bool (take_bit n a = 0))"
    using x86_dec.condition [OF assms, of "lit 4" 4 a b nd] by (simp add: x86_condition_def result_flags_def sub_flags_def)
qed

text \<open>
  The carry alone: \<open>pc_calculate_rdata_c\<close> is the lowest bit of the flags word that
  \<open>pc_calculate_rdata_all\<close> packs, for each of the sized operations at each width.
\<close>

lemma carry_of_flags_word:
  assumes "base \<in> {''G_CC_OP_ADD'', ''G_CC_OP_SUB'', ''G_CC_OP_ADC'', ''G_CC_OP_SBB'', ''G_CC_OP_LOGIC'',
      ''G_CC_OP_INC'', ''G_CC_OP_DEC'', ''G_CC_OP_SHL'', ''G_CC_OP_SHR'', ''G_CC_OP_ROL'', ''G_CC_OP_ROR'',
      ''G_CC_OP_UMUL'', ''G_CC_OP_SMUL''}"
    and "n \<in> widths" and "map_of (OpTypes (data p)) (sized base n) = Some (Some op)"
    and "op_concretize cc_op = Inr op"
  shows "\<exists>f. pc_calculate_rdata_all cc_op (W (word_size p) a) (W (word_size p) b) (W (word_size p) nd) p =
               W (word_size p) (eflags_word f)
           \<and> pc_calculate_rdata_c cc_op (W (word_size p) a) (W (word_size p) b) (W (word_size p) nd) p =
               W (word_size p) (of_bool (CF f))"
proof -
  note cs = x86_add.carry_bit x86_sub.carry_bit x86_adc.carry_bit x86_sbb.carry_bit
    x86_inc.carry_bit x86_dec.carry_bit x86_shl.carry_bit x86_shr.carry_bit
    x86_rol.carry_bit x86_ror.carry_bit x86_umul.carry_bit x86_smul.carry_bit
  show ?thesis
  proof (cases "base = ''G_CC_OP_LOGIC''")
    case True
    then have k: "map_of (OpTypes (data p)) (sized ''G_CC_OP_LOGIC'' n) = Some (Some op)" using assms(3) by simp
    show ?thesis
      using x86_logic.rdata_all [OF assms(2) k assms(4), of a b nd] rdata_c_logic [OF assms(2) k assms(4)]
      by (intro exI [of _ "result_flags n a False False False"]) (simp add: result_flags_def)
  next
    case False
    then have nl: "\<not> logic_name (sized base n)"
      using assms(1) by (auto simp: logic_name_def sized_def)
    have "base = ''G_CC_OP_ADD'' \<or> base = ''G_CC_OP_SUB'' \<or> base = ''G_CC_OP_ADC'' \<or> base = ''G_CC_OP_SBB''
      \<or> base = ''G_CC_OP_INC'' \<or> base = ''G_CC_OP_DEC'' \<or> base = ''G_CC_OP_SHL'' \<or> base = ''G_CC_OP_SHR''
      \<or> base = ''G_CC_OP_ROL'' \<or> base = ''G_CC_OP_ROR'' \<or> base = ''G_CC_OP_UMUL'' \<or> base = ''G_CC_OP_SMUL''"
      using assms(1) False unfolding insert_iff empty_iff by argo
    then show ?thesis
      by (elim disjE) (rule cs [OF assms(2) _ assms(4)], use assms(3) in \<open>simp only:\<close>, use nl in \<open>simp only: simp_thms\<close>)+
  qed
qed

theorem simplified_decrement_zero_witness:
  "pc_calculate_condition_simple (lit 4) (W 64 28) (W 64 0) (W 64 0) (W 64 0) AMD64 = W 64 0
   \<and> pc_calculate_condition (lit 4) (W 64 28) (W 64 0) (W 64 0) (W 64 0) AMD64 = W 64 1"
  using simplified_decrement_zero [of 64 AMD64 28 "W 64 28" 0 0 0]
  by (simp add: widths_def sized_def data_def amd64_OpTypes_def take_bit_eq_mod)

end
