(* ===== verification/CCall_Misc.thy ===== *)
theory CCall_Misc
  imports CCall_Simple
begin

text \<open>
  The remaining helpers of x86 and amd64 in \<open>ccall.py\<close>: rotation through the carry, the control
  words of SSE and of the x87 unit, \<open>pmaddwd\<close>, the decimal adjustments, and the translation of a
  segmented address. What \<open>x86g_use_seg_selector\<close> reads from the state (the register \<open>cr0\<close>, the
  name of the operating system, whether a concrete target is attached, and the memory) is an
  argument.
\<close>

section \<open>Python's operators on a mixture of integers and bit-vectors\<close>

text \<open>Both operands may be Python integers; otherwise the operator of \<open>BV\<close> applies.\<close>

definition py_mixed :: "(int \<Rightarrow> int \<Rightarrow> int res) \<Rightarrow> (val \<Rightarrow> val \<Rightarrow> val) \<Rightarrow> val \<Rightarrow> val \<Rightarrow> val" where
  "py_mixed f g x y =
     bind_res x (\<lambda>a. bind_res y (\<lambda>b.
       case (a, b) of (Num i, Num j) \<Rightarrow> map_res Num (f i j) | _ \<Rightarrow> g (Inr a) (Inr b)))"

definition py_and :: "val \<Rightarrow> val \<Rightarrow> val" where
  "py_and = py_mixed (\<lambda>i j. Inr (i AND j)) cl_and"

definition py_or :: "val \<Rightarrow> val \<Rightarrow> val" where
  "py_or = py_mixed (\<lambda>i j. Inr (i OR j)) cl_or"

definition py_lshift :: "val \<Rightarrow> val \<Rightarrow> val" where
  "py_lshift = py_mixed py_shl cl_shl"

section \<open>Rotation through the carry\<close>

definition rotate_count :: "int \<Rightarrow> val \<Rightarrow> val" where
  "rotate_count sz rot_amt =
     (if sz = 1 then cl_mod (cl_and rot_amt (lit 0x1F)) (lit 9)
      else if sz = 2 then cl_mod (cl_and rot_amt (lit 0x1F)) (lit 17)
      else if sz = 4 then cl_and rot_amt (lit 0x1F)
      else if sz = 8 then cl_and rot_amt (lit 0x3F)
      else Inl UnboundLocalError)"

definition generic_rotate_with_carry ::
  "bool \<Rightarrow> val \<Rightarrow> val \<Rightarrow> val \<Rightarrow> val \<Rightarrow> (operand \<times> operand \<times> operand) res" where
  "generic_rotate_with_carry left arg rot_amt carry_bit_in sz_v =
     bind_res (lift1 (\<lambda>b. Inr (bv_value b)) sz_v) (\<lambda>sz.
     bind_res (cl_size arg) (\<lambda>bits_in.
     bind_res (cl_size rot_amt) (\<lambda>len_amt.
       let n = sz * 8 in
       if n > len_amt then Inl SimError
       else
         bind_res (rotate_count sz rot_amt) (\<lambda>amt.
         bind_res (cl_size (Inr amt)) (\<lambda>len_sized.
         let sized_amt = (if n = len_sized then cl_zero_extend 1 (Inr amt)
                          else cl_slice (Some n) (Some 0) (Inr amt)) in
         bind_res (cl_size sized_amt) (\<lambda>len.
         if len \<noteq> n + 1 then Inl AssertionError
         else
           let sized_arg_in = cl_slice (Some (n - 1)) (Some 0) arg;
               rotatable_in = cl_Concat [carry_bit_in, sized_arg_in];
               rotatable_out = (if left then cl_RotateLeft else cl_RotateRight) rotatable_in sized_amt;
               sized_arg_out = cl_slice (Some (n - 1)) (Some 0) rotatable_out;
               carry_bit_out = cl_bit n rotatable_out;
               arg_out = cl_zero_extend (bits_in - n) sized_arg_out;
               overflow_bit_out =
                 (if left then cl_xor carry_bit_out (cl_bit (n - 1) sized_arg_out)
                  else cl_xor (cl_bit (n - 1) sized_arg_out) (cl_bit (n - 2) sized_arg_out))
           in bind_res carry_bit_out (\<lambda>c.
              bind_res overflow_bit_out (\<lambda>v.
              bind_res arg_out (\<lambda>r. Inr (c, v, r))))))))))"

text \<open>The carry and overflow bits written into the flags that came in.\<close>

definition rotate_eflags :: "platform \<Rightarrow> val \<Rightarrow> operand \<Rightarrow> operand \<Rightarrow> val" where
  "rotate_eflags p eflags_in carry_bit_out overflow_bit_out =
     (let mask = dget (CondBitMasks (data p)); off = dget (CondBitOffsets (data p));
          cf = cl_zero_extend (size_of (data p) - 1) (Inr carry_bit_out);
          of' = cl_zero_extend (size_of (data p) - 1) (Inr overflow_bit_out);
          eflags_out = cl_and eflags_in (lit (NOT (mask ''G_CC_MASK_C'' OR mask ''G_CC_MASK_O'')))
      in cl_or eflags_out (cl_or (cl_shl cf (lit (off ''G_CC_SHIFT_C'')))
                                 (cl_shl of' (lit (off ''G_CC_SHIFT_O'')))))"

definition amd64g_calculate_RC :: "bool \<Rightarrow> val \<Rightarrow> val \<Rightarrow> val \<Rightarrow> val \<Rightarrow> val" where
  "amd64g_calculate_RC left arg rot_amt eflags_in sz =
     bind_res (cl_SLT sz (lit 0)) (\<lambda>want_flags.
       let sz' = (if want_flags then cl_neg sz else sz);
           carry_bit_in = cl_bit (dget (CondBitOffsets (data AMD64)) ''G_CC_SHIFT_C'') eflags_in
       in bind_res (generic_rotate_with_carry left arg rot_amt carry_bit_in sz') (\<lambda>(c, v, arg_out).
            if want_flags then rotate_eflags AMD64 eflags_in c v else Inr arg_out))"

definition amd64g_calculate_RCL :: "val \<Rightarrow> val \<Rightarrow> val \<Rightarrow> val \<Rightarrow> val" where
  "amd64g_calculate_RCL = amd64g_calculate_RC True"

definition amd64g_calculate_RCR :: "val \<Rightarrow> val \<Rightarrow> val \<Rightarrow> val \<Rightarrow> val" where
  "amd64g_calculate_RCR = amd64g_calculate_RC False"

definition x86g_calculate_RC :: "bool \<Rightarrow> val \<Rightarrow> val \<Rightarrow> val \<Rightarrow> val \<Rightarrow> val" where
  "x86g_calculate_RC left arg rot_amt eflags_in sz =
     (let carry_bit_in = cl_bit (dget (CondBitOffsets (data X86)) ''G_CC_SHIFT_C'') eflags_in
      in bind_res (generic_rotate_with_carry left arg rot_amt carry_bit_in sz) (\<lambda>(c, v, arg_out).
           cl_Concat [rotate_eflags X86 eflags_in c v, Inr arg_out]))"

definition x86g_calculate_RCL :: "val \<Rightarrow> val \<Rightarrow> val \<Rightarrow> val \<Rightarrow> val" where
  "x86g_calculate_RCL = x86g_calculate_RC True"

definition x86g_calculate_RCR :: "val \<Rightarrow> val \<Rightarrow> val \<Rightarrow> val \<Rightarrow> val" where
  "x86g_calculate_RCR = x86g_calculate_RC False"

section \<open>Control words\<close>

definition EmNote_NONE :: int where "EmNote_NONE = 0"
definition EmWarn_X86_x87exns :: int where "EmWarn_X86_x87exns = 1"
definition EmWarn_X86_x87precision :: int where "EmWarn_X86_x87precision = 2"
definition EmWarn_X86_sseExns :: int where "EmWarn_X86_sseExns = 3"
definition EmWarn_X86_fz :: int where "EmWarn_X86_fz = 4"
definition EmWarn_X86_daz :: int where "EmWarn_X86_daz = 5"

text \<open>
  The source tests \<open>cond.is_true\<close>, the method and not its result; a bound method is true in a
  boolean context.
\<close>

definition method_truth :: "'a res \<Rightarrow> bool res" where
  "method_truth x = map_res (\<lambda>_. True) x"

definition amd64g_check_ldmxcsr :: "val \<Rightarrow> val" where
  "amd64g_check_ldmxcsr mxcsr =
     (let rmode = cl_and (cl_sar mxcsr (lit 13)) (lit 3) in
      bind_res rmode (\<lambda>_.
      bind_res (method_truth (cl_ne (cl_and mxcsr (lit 0x1F80)) (lit 0x1F80))) (\<lambda>c1.
      bind_res (if c1 then Inr EmWarn_X86_sseExns
                else bind_res (method_truth (cl_and mxcsr (lit (push_bit 15 1)))) (\<lambda>c2.
                  if c2 then Inr EmWarn_X86_fz
                  else bind_res (method_truth (cl_and mxcsr (lit (push_bit 6 1)))) (\<lambda>c3.
                    Inr (if c3 then EmWarn_X86_daz else EmNote_NONE)))) (\<lambda>ew.
      cl_or (lit (push_bit 32 ew)) rmode))))"

definition amd64g_create_mxcsr :: "val \<Rightarrow> val" where
  "amd64g_create_mxcsr sseround = cl_or (lit 0x1F80) (cl_shl (cl_and sseround (lit 3)) (lit 13))"

definition amd64g_check_fldcw :: "val \<Rightarrow> val" where
  "amd64g_check_fldcw fpucw =
     (let rmode = cl_and (cl_sar fpucw (lit 10)) (lit 3) in
      bind_res rmode (\<lambda>_.
      bind_res (method_truth (cl_ne (cl_and fpucw (lit 0x3F)) (lit 0x3F))) (\<lambda>c1.
      bind_res (if c1 then Inr EmWarn_X86_x87exns
                else bind_res (method_truth (cl_ne (cl_and (cl_sar fpucw (lit 8)) (lit 3)) (lit 3))) (\<lambda>c2.
                  Inr (if c2 then EmWarn_X86_x87precision else EmNote_NONE))) (\<lambda>ew.
      cl_or (lit (push_bit 32 ew)) rmode))))"

definition amd64g_create_fpucw :: "val \<Rightarrow> val" where
  "amd64g_create_fpucw fpround = cl_or (lit 0x037F) (cl_shl (cl_and fpround (lit 3)) (lit 10))"

definition x86g_check_fldcw :: "val \<Rightarrow> val" where
  "x86g_check_fldcw fpucw = cl_zero_extend 32 (cl_and (cl_sar fpucw (lit 10)) (lit 3))"

definition x86g_create_fpucw :: "val \<Rightarrow> val" where
  "x86g_create_fpucw fpround = cl_or (lit 0x037F) (cl_shl (cl_and fpround (lit 3)) (lit 10))"

section \<open>Multiply and add packed words\<close>

definition amd64g_calculate_mmx_pmaddwd :: "val \<Rightarrow> val \<Rightarrow> val" where
  "amd64g_calculate_mmx_pmaddwd xx yy =
     bind_res (cl_chop 16 xx) (\<lambda>xs. bind_res (cl_chop 16 yy) (\<lambda>ys.
       case (xs, ys) of
         ([xx_3, xx_2, xx_1, xx_0], [yy_3, yy_2, yy_1, yy_0]) \<Rightarrow>
           let ext = cl_sign_extend 16;
               res_1 = cl_add (cl_mul (ext xx_3) (ext yy_3)) (cl_mul (ext xx_2) (ext yy_2));
               res_0 = cl_add (cl_mul (ext xx_1) (ext yy_1)) (cl_mul (ext xx_0) (ext yy_0))
           in cl_Concat [res_1, res_0]
       | _ \<Rightarrow> Inl ValueError))"

section \<open>Decimal adjustment\<close>

definition flag32 :: "bool res \<Rightarrow> val" where
  "flag32 c = cl_If c (cl_BVV 1 32) (cl_BVV 0 32)"

text \<open>The word that both functions return: the flags in the high half, \<open>AH\<close> and \<open>AL\<close> below.\<close>

definition flags_and_AX_out :: "val \<Rightarrow> val \<Rightarrow> val \<Rightarrow> val \<Rightarrow> val \<Rightarrow> val \<Rightarrow> val \<Rightarrow> val \<Rightarrow> val" where
  "flags_and_AX_out r_O r_S r_Z r_A r_C r_P r_AH r_AL =
     (let off = dget (CondBitOffsets (data X86));
          put = (\<lambda>x s. py_lshift (py_and x (lit 1)) (lit (16 + off s)))
      in py_or (py_or (py_or (py_or (py_or (py_or (py_or
           (put r_O ''G_CC_SHIFT_O'') (put r_S ''G_CC_SHIFT_S'')) (put r_Z ''G_CC_SHIFT_Z''))
           (put r_A ''G_CC_SHIFT_A'')) (put r_C ''G_CC_SHIFT_C'')) (put r_P ''G_CC_SHIFT_P''))
           (py_lshift (py_and r_AH (lit 0xFF)) (lit 8)))
           (py_lshift (py_and r_AL (lit 0xFF)) (lit 0)))"

definition flag_in :: "val \<Rightarrow> string \<Rightarrow> val" where
  "flag_in flags_and_AX s =
     cl_zero_extend 31 (cl_bit (dget (CondBitOffsets (data X86)) s + 16) flags_and_AX)"

text \<open>
  For \<open>DAA\<close> and \<open>DAS\<close> the source also assigns \<open>r_C\<close> between the two adjustments; the second
  adjustment overwrites it, with a condition on the values on entry.
\<close>

definition x86g_calculate_daa_das_aaa_aas :: "val \<Rightarrow> val \<Rightarrow> val" where
  "x86g_calculate_daa_das_aaa_aas flags_and_AX opcode_v =
     bind_res (cl_size flags_and_AX) (\<lambda>len.
     if len \<noteq> 32 then Inl AssertionError
     else
     bind_res (lift1 (\<lambda>b. Inr (bv_value b)) opcode_v) (\<lambda>opcode.
     let r_O = flag_in flags_and_AX ''G_CC_SHIFT_O''; r_S = flag_in flags_and_AX ''G_CC_SHIFT_S'';
         r_Z = flag_in flags_and_AX ''G_CC_SHIFT_Z''; r_A = flag_in flags_and_AX ''G_CC_SHIFT_A'';
         r_C = flag_in flags_and_AX ''G_CC_SHIFT_C''; r_P = flag_in flags_and_AX ''G_CC_SHIFT_P'';
         r_AL = cl_and (cl_sar flags_and_AX (lit 0)) (lit 0xFF);
         r_AH = cl_and (cl_sar flags_and_AX (lit 8)) (lit 0xFF);
         zero = cl_BVV 0 32; one = cl_BVV 1 32;
         low_adjust = cl_Or (cl_UGT (cl_and r_AL (lit 0xF)) (lit 9)) (cl_eq r_A (lit 1));
         high_adjust = cl_Or (cl_UGT r_AL (lit 0x99)) (cl_eq r_C (lit 1))
     in if opcode = 0x27 then
          let al1 = cl_If low_adjust (cl_add r_AL (lit 6)) r_AL;
              al2 = cl_If high_adjust (cl_add al1 (lit 0x60)) al1;
              al = cl_and al2 (lit 0xFF)
          in flags_and_AX_out zero (flag32 (cl_ne (cl_and al (lit 0x80)) (lit 0)))
               (flag32 (cl_eq al (lit 0))) (cl_If low_adjust one zero) (cl_If high_adjust one zero)
               (cl_zero_extend 31 (calc_paritybit al 7 0)) r_AH al
        else if opcode = 0x2F then
          let al1 = cl_If low_adjust (cl_sub r_AL (lit 6)) r_AL;
              al2 = cl_If high_adjust (cl_sub al1 (lit 0x60)) al1;
              al = cl_and al2 (lit 0xFF)
          in flags_and_AX_out zero (flag32 (cl_ne (cl_and al (lit 0x80)) (lit 0)))
               (flag32 (cl_eq al (lit 0))) (cl_If low_adjust one zero) (cl_If high_adjust one zero)
               (cl_zero_extend 31 (calc_paritybit al 7 0)) r_AH al
        else if opcode = 0x37 then
          let nudge = cl_UGT r_AL (lit 0xF9);
              al = cl_If low_adjust (cl_and (cl_add r_AL (lit 6)) (lit 0xF)) (cl_and r_AL (lit 0xF));
              ah = cl_If low_adjust (cl_If nudge (cl_add r_AH (lit 2)) (cl_add r_AH (lit 1))) r_AH
          in flags_and_AX_out (lit 0) (lit 0) (lit 0) (cl_If low_adjust one zero)
               (cl_If low_adjust one zero) (lit 0) ah al
        else if opcode = 0x3F then
          let nudge = cl_ULT r_AL (lit 0x06);
              al = cl_If low_adjust (cl_and (cl_sub r_AL (lit 6)) (lit 0xF)) (cl_and r_AL (lit 0xF));
              ah = cl_If low_adjust (cl_If nudge (cl_sub r_AH (lit 2)) (cl_sub r_AH (lit 1))) r_AH
          in flags_and_AX_out (lit 0) (lit 0) (lit 0) (cl_If low_adjust one zero)
               (cl_If low_adjust one zero) (lit 0) ah al
        else flags_and_AX_out r_O r_S r_Z r_A r_C r_P r_AH r_AL))"

definition x86g_calculate_aad_aam :: "val \<Rightarrow> val \<Rightarrow> val" where
  "x86g_calculate_aad_aam flags_and_AX opcode_v =
     bind_res (cl_size flags_and_AX) (\<lambda>len.
     if len \<noteq> 32 then Inl AssertionError
     else
     bind_res (lift1 (\<lambda>b. Inr (bv_value b)) opcode_v) (\<lambda>opcode.
     let al = cl_and (cl_sar flags_and_AX (lit 0)) (lit 0xFF);
         ah = cl_and (cl_sar flags_and_AX (lit 8)) (lit 0xFF);
         finish = (\<lambda>r_AH r_AL.
           flags_and_AX_out (cl_BVV 0 32) (cl_zero_extend 31 (cl_bit 7 r_AL))
             (flag32 (cl_eq r_AL (lit 0))) (cl_BVV 0 32) (cl_BVV 0 32)
             (cl_zero_extend 31 (calc_paritybit r_AL 7 0)) r_AH r_AL)
     in if opcode = 0xD4 then finish (cl_div al (lit 10)) (cl_mod al (lit 10))
        else if opcode = 0xD5 then
          finish (cl_BVV 0 32) (cl_and (cl_add (cl_mul ah (lit 10)) al) (lit 0xFF))
        else Inl SimCCallError))"

section \<open>Segmented addresses\<close>

definition get_segdescr_base :: "val \<Rightarrow> val" where
  "get_segdescr_base descriptor =
     (let lo = cl_slice (Some 31) (Some 16) descriptor;
          mid = cl_slice (Some 39) (Some 32) descriptor;
          hi = cl_slice (Some 63) (Some 56) descriptor
      in cl_Concat [hi, mid, lo])"

definition get_segdescr_limit :: "val \<Rightarrow> val" where
  "get_segdescr_limit descriptor =
     (let granularity = cl_bit 55 descriptor;
          lo = cl_slice (Some 15) (Some 0) descriptor;
          hi = cl_slice (Some 51) (Some 48) descriptor;
          limit = cl_zero_extend 12 (cl_Concat [hi, lo])
      in bind_res (cl_eq granularity (lit 0)) (\<lambda>bytes.
         if bytes then limit else cl_or (cl_shl limit (lit 12)) (lit 0xFFF)))"

record seg_env =
  x86_cr0 :: int
  simos_is_Win32 :: bool
  has_concrete_target :: bool
  memory_load :: "val \<Rightarrow> val"

definition bad :: val where
  "bad = cl_zero_extend 32 (cl_BVV (push_bit 32 1) 32)"

text \<open>The access to one of the two descriptor tables: both branches of the source read alike.\<close>

definition use_table :: "seg_env \<Rightarrow> val \<Rightarrow> val \<Rightarrow> val \<Rightarrow> val" where
  "use_table env table seg_selector virtual_addr =
     bind_res (lift1 (\<lambda>b. Inr (bv_value b)) table) (\<lambda>table_value.
     if table_value = 0
     then cl_zero_extend 32 (cl_add (cl_shl seg_selector (lit 16)) virtual_addr)
     else
       let index = cl_zero_extend 32 (cl_sar seg_selector (lit 3));
           limit = cl_slice (Some 15) (Some 0) table
       in bind_res (cl_UGE index (cl_zero_extend 48 limit)) (\<lambda>out_of_range.
          if out_of_range then bad
          else
            bind_res (lift1 (\<lambda>b. Inr (bv_value b)) (cl_slice (Some 47) (Some 16) table)) (\<lambda>base_value.
            let descriptor = memory_load env (cl_add (lit base_value) (cl_mul index (lit 8))) in
            bind_res (cl_eq (cl_bit 47 descriptor) (lit 0)) (\<lambda>absent.
            if absent then bad
            else
              let base = get_segdescr_base descriptor in
              bind_res base (\<lambda>_.
              bind_res (get_segdescr_limit descriptor) (\<lambda>_.
              cl_zero_extend 32 (cl_add base virtual_addr)))))))"

definition x86g_use_seg_selector :: "seg_env \<Rightarrow> val \<Rightarrow> val \<Rightarrow> val \<Rightarrow> val \<Rightarrow> val" where
  "x86g_use_seg_selector env ldt gdt seg_selector virtual_addr =
     bind_res (cl_ne (cl_and seg_selector (lit (NOT 0xFFFF))) (lit 0)) (\<lambda>invalid.
     if invalid then bad
     else
       bind_res (cl_size virtual_addr) (\<lambda>len.
       let addr = (if len = 16 then cl_zero_extend 16 virtual_addr else virtual_addr) in
       if x86_cr0 env AND 1 = 0
       then cl_zero_extend 32 (cl_add (cl_shl seg_selector (lit 4)) addr)
       else
         let sel = cl_and seg_selector (lit 0x0000FFFF) in
         bind_res (cl_eq (cl_sar sel (lit 3)) (lit 6)) (\<lambda>heavens_gate.
         if simos_is_Win32 env \<and> heavens_gate \<and> has_concrete_target env then bad
         else
           bind_res (cl_eq (cl_and (cl_sar sel (lit 2)) (lit 1)) (lit 0)) (\<lambda>global_table.
           use_table env (if global_table then gdt else ldt) sel addr))))"

section \<open>Rotation through the carry is a rotation of one more bit\<close>

definition rc_count :: "int \<Rightarrow> int \<Rightarrow> int" where
  "rc_count sz amt =
     (if sz = 1 then take_bit 5 amt mod 9 else if sz = 2 then take_bit 5 amt mod 17
      else if sz = 4 then take_bit 5 amt else take_bit 6 amt)"

definition rc_joined :: "nat \<Rightarrow> bool \<Rightarrow> int \<Rightarrow> int" where
  "rc_joined n c arg = push_bit n (of_bool c) OR take_bit n arg"

definition rc_rotate :: "bool \<Rightarrow> nat \<Rightarrow> nat \<Rightarrow> int \<Rightarrow> int" where
  "rc_rotate left n k x = rotl_value (n + 1) (if left then k else n + 1 - k) x"

lemma rc_count_range:
  assumes "sz \<in> {1, 2, 4, 8}"
  shows "0 \<le> rc_count sz amt" "rc_count sz amt < 8 * sz + 1" "rc_count sz amt < 64"
proof -
  have "take_bit 5 amt < 2 ^ 5" "take_bit 6 amt < 2 ^ 6" by (rule take_bit_int_less_exp)+
  moreover have "take_bit 5 amt mod 9 < 9" "take_bit 5 amt mod 17 < 17" by simp_all
  ultimately show "0 \<le> rc_count sz amt" "rc_count sz amt < 8 * sz + 1" "rc_count sz amt < 64"
    using assms by (auto simp: rc_count_def)
qed

lemma mask_31_63: "amt AND 31 = take_bit 5 (amt :: int)" "amt AND 63 = take_bit 6 amt"
  using and_exp_minus_1 [of amt 5] and_exp_minus_1 [of amt 6] by simp_all

lemma take_bit_small: "0 \<le> (x :: int) \<Longrightarrow> x < 2 ^ j \<Longrightarrow> j \<le> k \<Longrightarrow> take_bit k x = x"
  by (rule take_bit_int_eq_self) (auto intro: less_le_trans power_increasing)

lemma rotate_count_W:
  assumes "sz \<in> {1, 2, 4, 8}" and "8 \<le> k"
  shows "rotate_count sz (W k amt) = W k (rc_count sz amt)"
proof -
  have "take_bit k (take_bit 5 amt) = take_bit 5 amt" "take_bit k (take_bit 6 amt) = take_bit 6 amt"
    using assms(2) by (simp_all add: min_def)
  moreover have "take_bit k (9 :: int) = 9" "take_bit k (17 :: int) = 17"
    using assms(2) by (auto intro!: take_bit_small [where j = 5])
  ultimately show ?thesis
    using assms by (auto simp: rotate_count_def rc_count_def bv_simps mask_31_63)
qed

lemma sized_amt_W:
  assumes "8 \<le> n" and "n \<le> k" and "0 \<le> x" and "x < 64"
  shows "(if int n = int k then cl_zero_extend 1 (W k x) else cl_slice (Some (int n)) (Some 0) (W k x)) =
           W (n + 1) x"
proof -
  have "take_bit j x = x" if "6 \<le> j" for j using that assms(3,4) by (intro take_bit_small [where j = 6]) auto
  then show ?thesis using assms by (auto simp: bv_simps nat_add_distrib)
qed

lemma generic_rotate_W:
  assumes "take_bit j szv = sz" and "sz \<in> {1, 2, 4, 8}" and "n = nat (8 * sz)" and "n \<le> m" and "n \<le> k"
    and "r = rc_rotate left n (nat (rc_count sz amt)) (rc_joined n c arg)"
  shows "generic_rotate_with_carry left (W m arg) (W k amt) (flag c) (W j szv) =
           Inr (flag_operand (bit r n),
                flag_operand (if left then bit r n \<noteq> bit r (n - 1) else bit r (n - 1) \<noteq> bit r (n - 2)),
                Bv (bvv m (take_bit n r)))"
proof -
  have n: "8 \<le> n" "sz * 8 = int n" using assms(2,3) by auto
  note cnt = rc_count_range [OF assms(2), of amt]
  have "take_bit (n + 1) (rc_count sz amt) = rc_count sz amt"
    using cnt n by (intro take_bit_small [where j = 6]) auto
  moreover have "nat (rc_count sz amt) mod (n + 1) = nat (rc_count sz amt)"
    using cnt n(2) by (intro mod_less) linarith
  ultimately have rot: "(if left then cl_RotateLeft else cl_RotateRight) (W (n + 1) x) (W (n + 1) (rc_count sz amt)) =
      W (n + 1) (rc_rotate left n (nat (rc_count sz amt)) x)" for x
    by (simp add: bv_simps rc_rotate_def)
  have join: "cl_Concat [flag c, cl_slice (Some (int n - 1)) (Some 0) (W m arg)] = W (n + 1) (rc_joined n c arg)"
    using n assms(4) by (simp add: flag_def bv_simps rc_joined_def min_def)
  have out: "cl_slice (Some (int n - 1)) (Some 0) (W (n + 1) r) = W n r"
    "cl_bit (int n) (W (n + 1) r) = flag (bit r n)"
    "cl_bit (int n - 1) (W n r) = flag (bit r (n - 1))" "cl_bit (int n - 2) (W n r) = flag (bit r (n - 2))"
    "cl_zero_extend (int m - int n) (W n r) = W m (take_bit n r)"
    using n assms(4) by (simp_all add: bv_simps bit_take_bit_iff nat_diff_distrib bvv_eq_iff min_def)
  show ?thesis
    unfolding generic_rotate_with_carry_def lift1_W bind_res_Inr bv_value_bvv assms(1) cl_size_W Let_def n(2)
      rotate_count_W [OF assms(2) order_trans [OF n(1) assms(5)]] sized_amt_W [OF n(1) assms(5) cnt(1,3)]
      join rot assms(6) [symmetric] out
    using assms(5) n by (simp add: flag_simps flip: flag_eq_operand)
qed

definition with_CF_OF :: "bool \<Rightarrow> bool \<Rightarrow> int \<Rightarrow> int" where
  "with_CF_OF c v ef = (ef AND NOT 2049) OR (of_bool c OR push_bit 11 (of_bool v))"

lemma rotate_eflags_W:
  "rotate_eflags p (W (word_size p) ef) (flag_operand c) (flag_operand v) =
     W (word_size p) (with_CF_OF c v ef)"
proof -
  define m where "m = word_size p"
  have m: "size_of (data p) = int m" "12 \<le> m" by (cases p; simp add: m_def)+
  have "take_bit m (11 :: int) = 11" using m by (intro take_bit_small [where j = 6]) auto
  moreover have "cl_zero_extend (int m - 1) (Inr (flag_operand x)) = W m (of_bool x)" for x
    using m by (simp add: flag_simps Suc_nat_eq_nat_zadd1 flip: flag_eq_operand)
  ultimately show ?thesis
    using m by (simp add: rotate_eflags_def bv_simps with_CF_OF_def flip: m_def)
qed

lemma kept_flags_with: "kept_flags (with_CF_OF c v ef) = (kept_flags ef)\<lparr>CF := c, OF := v\<rparr>"
  by (simp add: kept_flags_def with_CF_OF_def bit_simps)

text \<open>Rotating back by the same count restores the operand and the carry.\<close>

lemma rc_rotate_bits:
  assumes "k < n + 1" and "i < n + 1"
  shows "bit (rc_rotate True n k x) i \<longleftrightarrow> bit x ((i + (n + 1 - k)) mod (n + 1))"
    and "bit (rc_rotate False n k x) i \<longleftrightarrow> bit x ((i + k) mod (n + 1))"
proof -
  show "bit (rc_rotate True n k x) i \<longleftrightarrow> bit x ((i + (n + 1 - k)) mod (n + 1))"
    using bit_rotl_value [of k "n + 1" i x] assms by (simp add: rc_rotate_def)
  show "bit (rc_rotate False n k x) i \<longleftrightarrow> bit x ((i + k) mod (n + 1))"
  proof (cases "k = 0")
    case True
    then show ?thesis using assms
      by (auto simp: rc_rotate_def rotl_value_def bit_or_iff bit_push_bit_iff_int bit_take_bit_iff bit_0)
  next
    case False
    then show ?thesis
      using bit_rotl_value [of "n + 1 - k" "n + 1" i x] assms by (simp add: rc_rotate_def)
  qed
qed

lemma rc_rotate_inverse:
  assumes "k < n + 1"
  shows "take_bit (n + 1) (rc_rotate (\<not> left) n k (take_bit (n + 1) (rc_rotate left n k x))) = take_bit (n + 1) x"
proof (rule bit_eqI)
  fix i
  have sums: "i + k + (n + 1 - k) = i + (n + 1)" "i + (n + 1 - k) + k = i + (n + 1)" using assms by simp_all
  have "((i + k) mod (n + 1) + (n + 1 - k)) mod (n + 1) = i" if "i < n + 1"
    using that by (simp only: mod_add_left_eq sums mod_add_self2 mod_less)
  moreover have "((i + (n + 1 - k)) mod (n + 1) + k) mod (n + 1) = i" if "i < n + 1"
    using that by (simp only: mod_add_left_eq sums mod_add_self2 mod_less)
  ultimately show "bit (take_bit (n + 1) (rc_rotate (\<not> left) n k (take_bit (n + 1) (rc_rotate left n k x)))) i =
      bit (take_bit (n + 1) x) i"
    using assms rc_rotate_bits [OF assms]
    by (cases left; cases "i < n + 1"; simp add: bit_take_bit_iff)
qed

lemma rc_joined_split: "rc_joined n (bit x n) (take_bit n x) = take_bit (n + 1) x"
  by (rule bit_eqI) (auto simp: rc_joined_def bit_simps less_Suc_eq)

lemma bit_rc_joined: "bit (rc_joined n c a) n = c" "take_bit n (rc_joined n c a) = take_bit n a"
  by (auto simp: rc_joined_def bit_simps intro!: bit_eqI)

section \<open>Decimal adjustment, evaluated\<close>

definition ax_word :: "bool \<Rightarrow> bool \<Rightarrow> bool \<Rightarrow> bool \<Rightarrow> bool \<Rightarrow> bool \<Rightarrow> int \<Rightarrow> int \<Rightarrow> int" where
  "ax_word o' s z a c p ah al =
     push_bit 27 (of_bool o') OR push_bit 23 (of_bool s) OR push_bit 22 (of_bool z)
     OR push_bit 20 (of_bool a) OR push_bit 16 (of_bool c) OR push_bit 18 (of_bool p)
     OR push_bit 8 (take_bit 8 ah) OR take_bit 8 al"

lemma py_mixed_W [simp]:
  "py_mixed f g (W n a) (lit b) = g (W n a) (lit b)" "py_mixed f g (W n a) (W m b) = g (W n a) (W m b)"
  "py_mixed f g (lit a) (W m b) = g (lit a) (W m b)" "py_mixed f g (lit a) (lit b) = map_res Num (f a b)"
  by (simp_all add: py_mixed_def lit_def)

lemma mask_255: "x AND 255 = take_bit 8 (x :: int)" "x AND 15 = take_bit 4 x" "x AND 65535 = take_bit 16 x"
  using and_exp_minus_1 [of x 8] and_exp_minus_1 [of x 4] and_exp_minus_1 [of x 16] by simp_all

lemmas py_op_defs = py_and_def py_or_def py_lshift_def

lemma take_bit_32_small [simp]: "take_bit 32 (27 :: int) = 27" "take_bit 32 (23 :: int) = 23"
  "take_bit 32 (22 :: int) = 22" "take_bit 32 (20 :: int) = 20" "take_bit 32 (18 :: int) = 18"
  "take_bit 32 (16 :: int) = 16" "take_bit 32 (8 :: int) = 8"
  by (simp_all add: take_bit_eq_mod)

lemma flags_and_AX_out_W:
  "flags_and_AX_out (W 32 (of_bool o')) (W 32 (of_bool s)) (W 32 (of_bool z)) (W 32 (of_bool a))
     (W 32 (of_bool c)) (W 32 (of_bool p)) (W 32 ah) (W 32 al) = W 32 (ax_word o' s z a c p ah al)"
  by (simp add: flags_and_AX_out_def py_op_defs bv_simps mask_255 ax_word_def or.assoc and_1_of_bool)

lemma flags_and_AX_out_W0:
  "flags_and_AX_out (lit 0) (lit 0) (lit 0) (W 32 (of_bool a)) (W 32 (of_bool c)) (lit 0) (W 32 ah) (W 32 al) =
     W 32 (ax_word False False False a c False ah al)"
proof -
  have "map_res Num (Inr i) = lit i" for i by (simp add: lit_def)
  then show ?thesis
    by (simp add: flags_and_AX_out_def py_op_defs bv_simps mask_255 ax_word_def or.assoc and_1_of_bool
        py_shl_nonneg)
qed

lemma al_W: "cl_and (cl_sar (W 32 x) (lit 0)) (lit 0xFF) = W 32 (take_bit 8 x)"
proof -
  have "take_bit 8 (signed_take_bit 31 x) = take_bit 8 x"
    by (rule bit_eqI) (auto simp: bit_simps)
  then show ?thesis by (simp add: bv_simps mask_255)
qed

lemma ah_W: "cl_and (cl_sar (W 32 x) (lit 8)) (lit 0xFF) = W 32 (take_bit 8 (drop_bit 8 x))"
proof -
  have "take_bit 8 (drop_bit 8 (signed_take_bit 31 x)) = take_bit 8 (drop_bit 8 x)"
    by (rule bit_eqI) (auto simp: bit_simps min_def)
  then show ?thesis by (simp add: bv_simps mask_255)
qed

lemma flag_in_W:
  "flag_in (W 32 x) ''G_CC_SHIFT_O'' = W 32 (of_bool (bit x 27))"
  "flag_in (W 32 x) ''G_CC_SHIFT_S'' = W 32 (of_bool (bit x 23))"
  "flag_in (W 32 x) ''G_CC_SHIFT_Z'' = W 32 (of_bool (bit x 22))"
  "flag_in (W 32 x) ''G_CC_SHIFT_A'' = W 32 (of_bool (bit x 20))"
  "flag_in (W 32 x) ''G_CC_SHIFT_C'' = W 32 (of_bool (bit x 16))"
  "flag_in (W 32 x) ''G_CC_SHIFT_P'' = W 32 (of_bool (bit x 18))"
  by (simp_all add: flag_in_def bv_simps flag_simps bit_take_bit_iff)

lemma flag32_Inr: "flag32 (Inr c) = W 32 (of_bool c)"
  by (simp add: flag32_def bv_simps)

definition low_adjust :: "int \<Rightarrow> bool" where
  "low_adjust x \<longleftrightarrow> 9 < take_bit 4 x \<or> bit x 20"

definition high_adjust :: "int \<Rightarrow> bool" where
  "high_adjust x \<longleftrightarrow> 0x99 < take_bit 8 x \<or> bit x 16"

lemma adjust_conditions:
  "cl_Or (cl_UGT (cl_and (W 32 (take_bit 8 x)) (lit 15)) (lit 9)) (cl_eq (W 32 (of_bool (bit x 20))) (lit 1)) =
     Inr (low_adjust x)"
  "cl_Or (cl_UGT (W 32 (take_bit 8 x)) (lit 0x99)) (cl_eq (W 32 (of_bool (bit x 16))) (lit 1)) =
     Inr (high_adjust x)"
  by (simp_all add: bv_simps mask_255 low_adjust_def high_adjust_def take_bit_eq_mod [of 32 9]
      take_bit_eq_mod [of 32 153])

definition daa_al :: "int \<Rightarrow> int" where
  "daa_al x = take_bit 8 (take_bit 8 x + (if low_adjust x then 6 else 0) + (if high_adjust x then 0x60 else 0))"

definition das_al :: "int \<Rightarrow> int" where
  "das_al x = take_bit 8 (take_bit 8 x - (if low_adjust x then 6 else 0) - (if high_adjust x then 0x60 else 0))"

lemma and_power: "x AND 2 ^ k = (if bit x k then 2 ^ k else (0 :: int))"
  by (rule bit_eqI) (auto simp: bit_simps)

lemma sign_of_byte: "x AND 128 = (if bit x 7 then 128 else (0 :: int))"
  using and_power [of x 7] by simp

lemma byte_flags:
  "flag32 (cl_ne (cl_and (W 32 (take_bit 8 v)) (lit 0x80)) (lit 0)) = W 32 (of_bool (bit v 7))"
  "flag32 (cl_eq (W 32 (take_bit 8 v)) (lit 0)) = W 32 (of_bool (take_bit 8 v = 0))"
  "cl_zero_extend 31 (calc_paritybit (W 32 (take_bit 8 v)) 7 0) = W 32 (of_bool (even_parity 8 v))"
  by (simp_all add: bv_simps flag_simps flag32_Inr sign_of_byte even_parity_take bit_take_bit_iff)

lemma const32:
  "cl_BVV 0 32 = W 32 (of_bool False)" "cl_BVV 1 32 = W 32 (of_bool True)"
  "cl_If (Inr c) (W 32 (of_bool True)) (W 32 (of_bool False)) = W 32 (of_bool c)"
  by (simp_all add: bv_simps)

lemma ax_word_ah: "ax_word o' s z a c p (take_bit 8 ah) al = ax_word o' s z a c p ah al"
  by (simp add: ax_word_def)

lemma daa_W:
  assumes "take_bit k opcode = 0x27"
  shows "x86g_calculate_daa_das_aaa_aas (W 32 x) (W k opcode) =
    W 32 (ax_word False (bit (daa_al x) 7) (daa_al x = 0) (low_adjust x) (high_adjust x)
            (even_parity 8 (daa_al x)) (drop_bit 8 x) (daa_al x))"
proof -
  have al: "cl_and (cl_If (Inr h) (cl_add (cl_If (Inr l) (cl_add (W 32 (take_bit 8 x)) (lit 6)) (W 32 (take_bit 8 x))) (lit 96))
        (cl_If (Inr l) (cl_add (W 32 (take_bit 8 x)) (lit 6)) (W 32 (take_bit 8 x)))) (lit 255) =
      W 32 (take_bit 8 (take_bit 8 x + (if l then 6 else 0) + (if h then 0x60 else 0)))" for h l
    by (simp add: bv_simps mask_255)
  have tb: "take_bit 8 (daa_al x) = daa_al x" by (simp add: daa_al_def)
  show ?thesis
    unfolding x86g_calculate_daa_das_aaa_aas_def cl_size_W lift1_W bind_res_Inr bv_value_bvv assms Let_def
      al_W ah_W flag_in_W adjust_conditions al daa_al_def [symmetric] const32
      byte_flags [of "daa_al x", unfolded tb] flags_and_AX_out_W ax_word_ah
    by simp
qed

lemma das_W:
  assumes "take_bit k opcode = 0x2F"
  shows "x86g_calculate_daa_das_aaa_aas (W 32 x) (W k opcode) =
    W 32 (ax_word False (bit (das_al x) 7) (das_al x = 0) (low_adjust x) (high_adjust x)
            (even_parity 8 (das_al x)) (drop_bit 8 x) (das_al x))"
proof -
  have al: "cl_and (cl_If (Inr h) (cl_sub (cl_If (Inr l) (cl_sub (W 32 (take_bit 8 x)) (lit 6)) (W 32 (take_bit 8 x))) (lit 96))
        (cl_If (Inr l) (cl_sub (W 32 (take_bit 8 x)) (lit 6)) (W 32 (take_bit 8 x)))) (lit 255) =
      W 32 (take_bit 8 (take_bit 8 x - (if l then 6 else 0) - (if h then 0x60 else 0)))" for h l
    by (simp add: bv_simps mask_255)
  have tb: "take_bit 8 (das_al x) = das_al x" by (simp add: das_al_def)
  show ?thesis
    unfolding x86g_calculate_daa_das_aaa_aas_def cl_size_W lift1_W bind_res_Inr bv_value_bvv assms Let_def
      al_W ah_W flag_in_W adjust_conditions al das_al_def [symmetric] const32
      byte_flags [of "das_al x", unfolded tb] flags_and_AX_out_W ax_word_ah
    by simp
qed

text \<open>Packed decimal digits: after the binary sum of two of them \<open>DAA\<close> gives the decimal sum.\<close>

definition bcd :: "int \<Rightarrow> int" where
  "bcd d = 16 * (d div 10) + d mod 10"

lemma bcd_digits: "0 \<le> d0 \<Longrightarrow> d0 < 10 \<Longrightarrow> bcd (10 * d1 + d0) = 16 * d1 + d0"
  by (simp add: bcd_def div_add1_eq)

lemma daa_digits:
  assumes "0 \<le> t0" "t0 \<le> 18" "0 \<le> t1" "t1 \<le> (18 :: int)"
    and "take_bit 8 w = take_bit 8 (16 * t1 + t0)"
    and "bit w 16 = (256 \<le> 16 * t1 + t0)" and "bit w 20 = (16 \<le> t0)"
  shows "low_adjust w \<longleftrightarrow> 10 \<le> t0" and "high_adjust w \<longleftrightarrow> 100 \<le> 10 * t1 + t0"
    and "daa_al w = bcd ((10 * t1 + t0) mod 100)"
proof -
  have "take_bit 4 w = take_bit 4 (take_bit 8 w)" by (simp add: min_def)
  also have "\<dots> = t0 mod 16"
    using assms(5) by (simp add: take_bit_eq_mod mod_mod_cancel)
  finally show low: "low_adjust w \<longleftrightarrow> 10 \<le> t0"
    unfolding low_adjust_def assms(7) using assms(1,2) by presburger
  have al: "take_bit 8 w = (16 * t1 + t0) mod 256" using assms(5) by (simp add: take_bit_eq_mod)
  have wrap: "take_bit 8 w = (if 16 * t1 + t0 < 256 then 16 * t1 + t0 else 16 * t1 + t0 - 256)"
    using take_bit_wrap [of "16 * t1 + t0" 8] assms(1-5) by simp
  have "153 < 16 * t1 + t0 \<longleftrightarrow> 100 \<le> 10 * t1 + t0"
  proof (cases "t1 \<le> 8")
    case False
    then show ?thesis using assms(1,2) by (cases "t1 = 9") auto
  qed (use assms(1,2) in auto)
  then show high: "high_adjust w \<longleftrightarrow> 100 \<le> 10 * t1 + t0"
    unfolding high_adjust_def wrap assms(6) by auto
  define c0 c1 :: int where "c0 = of_bool (10 \<le> t0)" and "c1 = of_bool (100 \<le> 10 * t1 + t0)"
  define d0 d1 where "d0 = t0 - 10 * c0" and "d1 = t1 + c0 - 10 * c1"
  have rng: "0 \<le> d0" "d0 < 10" "0 \<le> d1" "d1 < 10"
    using assms(1-4) by (auto simp: c0_def c1_def d0_def d1_def)
  have "10 * t1 + t0 = 100 * c1 + (10 * d1 + d0)" by (simp add: d0_def d1_def)
  then have "(10 * t1 + t0) mod 100 = (10 * d1 + d0) mod 100" by (simp only: mod_mult_self4)
  also have "\<dots> = 10 * d1 + d0" using rng by (intro mod_pos_pos_trivial) linarith+
  finally have "bcd ((10 * t1 + t0) mod 100) = 16 * d1 + d0"
    using bcd_digits [OF rng(1,2)] by simp
  moreover have "daa_al w = (16 * t1 + t0 + 6 * c0 + 96 * c1) mod 256"
    unfolding daa_al_def low high al by (simp add: take_bit_eq_mod mod_simps c0_def c1_def)
  moreover have "16 * t1 + t0 + 6 * c0 + 96 * c1 = 256 * c1 + (16 * d1 + d0)"
    by (simp add: d0_def d1_def)
  then have "(16 * t1 + t0 + 6 * c0 + 96 * c1) mod 256 = (16 * d1 + d0) mod 256"
    by (simp only: mod_mult_self4)
  moreover have "(16 * d1 + d0) mod 256 = 16 * d1 + d0" using rng by (intro mod_pos_pos_trivial) linarith+
  ultimately show "daa_al w = bcd ((10 * t1 + t0) mod 100)" by simp
qed

lemma ax_word_fields:
  "take_bit 8 (ax_word o' s z a c p ah al) = take_bit 8 al"
  "take_bit 8 (drop_bit 8 (ax_word o' s z a c p ah al)) = take_bit 8 ah"
  "bit (ax_word o' s z a c p ah al) 16 = c" "bit (ax_word o' s z a c p ah al) 20 = a"
  by (auto simp: ax_word_def bit_simps intro!: bit_eqI)

lemma aam_aad_W:
  assumes "al = take_bit 8 x" and "ah = take_bit 8 (drop_bit 8 x)"
  shows "take_bit k opcode = 0xD4 \<Longrightarrow> x86g_calculate_aad_aam (W 32 x) (W k opcode) =
      W 32 (ax_word False False (al mod 10 = 0) False False (even_parity 8 (al mod 10)) (al div 10) (al mod 10))"
    and "take_bit k opcode = 0xD5 \<Longrightarrow> x86g_calculate_aad_aam (W 32 x) (W k opcode) =
      (let r = take_bit 8 (10 * ah + al) in W 32 (ax_word False (bit r 7) (r = 0) False False (even_parity 8 r) 0 r))"
proof -
  have al: "0 \<le> al" "al < 256" using assms(1) take_bit_int_less_exp [of 8 x] by simp_all
  then have small: "take_bit 8 (al mod 10) = al mod 10" "take_bit 32 al = al"
    by (auto intro!: take_bit_small [where j = 8])
  have ten: "take_bit 32 (10 :: int) = 10" by (simp add: take_bit_eq_mod)
  have div10: "cl_div (W 32 al) (lit 10) = W 32 (al div 10)" "cl_mod (W 32 al) (lit 10) = W 32 (al mod 10)"
    using small(2) ten by (simp_all add: bv_simps)
  have "al mod 10 < 2 ^ 7" "0 \<le> al mod 10" using pos_mod_bound [of 10 al] by simp_all
  then have "take_bit 7 (al mod 10) = al mod 10" by (simp add: take_bit_int_eq_self)
  then have nobit: "\<not> bit (al mod 10) 7" by (metis bit_take_bit_iff less_irrefl)
  have bit7: "cl_zero_extend 31 (cl_bit 7 (W 32 (take_bit 8 v))) = W 32 (of_bool (bit v 7))" for v
    by (simp add: bv_simps flag_simps bit_take_bit_iff)
  show "x86g_calculate_aad_aam (W 32 x) (W k opcode) =
      W 32 (ax_word False False (al mod 10 = 0) False False (even_parity 8 (al mod 10)) (al div 10) (al mod 10))"
    if op: "take_bit k opcode = 0xD4"
    unfolding x86g_calculate_aad_aam_def cl_size_W lift1_W bind_res_Inr bv_value_bvv op Let_def al_W
      assms(1) [symmetric] div10 const32 bit7 [of "al mod 10", unfolded small(1)]
      byte_flags(2,3) [of "al mod 10", unfolded small(1)] flags_and_AX_out_W
    by (simp add: nobit)
  have sum: "cl_and (cl_add (cl_mul (W 32 ah) (lit 10)) (W 32 al)) (lit 255) = W 32 (take_bit 8 (10 * ah + al))"
    by (simp add: bv_simps mask_255 mult.commute)
  have tb: "take_bit 8 (take_bit 8 (10 * ah + al)) = take_bit 8 (10 * ah + al)" by simp
  show "x86g_calculate_aad_aam (W 32 x) (W k opcode) =
      (let r = take_bit 8 (10 * ah + al) in W 32 (ax_word False (bit r 7) (r = 0) False False (even_parity 8 r) 0 r))"
    if op: "take_bit k opcode = 0xD5"
    unfolding x86g_calculate_aad_aam_def cl_size_W lift1_W bind_res_Inr bv_value_bvv op Let_def al_W ah_W
      assms(1) [symmetric] assms(2) [symmetric] sum const32 bit7 [of "take_bit 8 (10 * ah + al)", unfolded tb]
      byte_flags(2,3) [of "take_bit 8 (10 * ah + al)", unfolded tb] flags_and_AX_out_W
    by simp
qed

text \<open>One lane of a packed vector of signed sixteen-bit words.\<close>

definition lane :: "nat \<Rightarrow> int \<Rightarrow> int" where
  "lane i x = signed_take_bit 15 (drop_bit (16 * i) x)"

lemma chop_64: "cl_chop 16 (W 64 x) =
    Inr [W 16 (drop_bit 48 x), W 16 (drop_bit 32 x), W 16 (drop_bit 16 x), W 16 x]"
proof -
  have low: "W 16 (drop_bit k (take_bit 64 x)) = W 16 (drop_bit k x)" if "k \<le> 48" for k
  proof -
    have "16 \<le> 64 - k" using that by simp
    then show ?thesis by (simp add: bvv_eq_iff drop_bit_take_bit min_def)
  qed
  have "[0..<4] = [0, 1, 2, 3]" by (simp add: upt_rec)
  then show ?thesis
    using low [of 0] low [of 16] low [of 32] low [of 48] by (simp add: cl_chop_def bv_simps)
qed

lemma pmaddwd_W:
  "amd64g_calculate_mmx_pmaddwd (W 64 x) (W 64 y) =
     W 64 (push_bit 32 (lane 3 x * lane 3 y + lane 2 x * lane 2 y)
           OR take_bit 32 (lane 1 x * lane 1 y + lane 0 x * lane 0 y))"
  by (simp add: amd64g_calculate_mmx_pmaddwd_def chop_64 bv_simps lane_def)

section \<open>Segment descriptors, evaluated\<close>

definition descriptor_base :: "int \<Rightarrow> int" where
  "descriptor_base d = take_bit 16 (drop_bit 16 d) + 2 ^ 16 * take_bit 8 (drop_bit 32 d)
     + 2 ^ 24 * take_bit 8 (drop_bit 56 d)"

lemma segdescr_base_W: "get_segdescr_base (W 64 d) = W 32 (descriptor_base d)"
proof -
  define lo mid hi where "lo = take_bit 16 (drop_bit 16 d)" and "mid = take_bit 8 (drop_bit 32 d)"
    and "hi = take_bit 8 (drop_bit 56 d)"
  have "push_bit 16 (push_bit 8 hi OR mid) OR lo = lo + 2 ^ 16 * mid + 2 ^ 24 * hi"
  proof -
    have e1: "push_bit 8 hi OR mid = push_bit 8 hi + mid"
      by (rule disjunctive_add [symmetric]) (auto simp: mid_def bit_simps)
    have e2: "push_bit 16 z OR lo = push_bit 16 z + lo" for z
      by (rule disjunctive_add [symmetric]) (auto simp: lo_def bit_simps)
    show ?thesis unfolding e1 e2 by (simp add: push_bit_eq_mult)
  qed
  then have base: "descriptor_base d = push_bit 16 (push_bit 8 hi OR mid) OR lo"
    by (simp only: descriptor_base_def lo_def mid_def hi_def)
  have "get_segdescr_base (W 64 d) = W 32 (push_bit 16 (push_bit 8 (drop_bit 56 (take_bit 64 d))
      OR take_bit 8 (drop_bit 32 (take_bit 64 d))) OR take_bit 16 (drop_bit 16 (take_bit 64 d)))"
    by (simp add: get_segdescr_base_def cl_slice_W cl_Concat_W3)
  also have "\<dots> = W 32 (descriptor_base d)"
    unfolding base W_eq_iff
    by (intro conjI refl bit_eqI) (auto simp: lo_def mid_def hi_def bit_simps)
  finally show ?thesis .
qed

text \<open>A present descriptor of the global table gives base plus offset, wrapped at 32 bits.\<close>

lemma small_selector:
  assumes "0 \<le> (sel :: int)" and "sel < 2 ^ 16"
  shows "sel AND NOT 0xFFFF = 0" "take_bit 16 sel = sel" "signed_take_bit 31 sel = sel"
proof -
  show s: "take_bit 16 sel = sel" using assms by (simp add: take_bit_int_eq_self)
  then have b: "bit sel n \<Longrightarrow> n < 16" for n by (metis bit_take_bit_iff)
  have "sel AND NOT (mask 16) = 0" by (rule bit_eqI) (auto simp: bit_simps dest: b)
  then show "sel AND NOT 0xFFFF = 0" by (simp add: mask_eq_exp_minus_1)
  show "signed_take_bit 31 sel = sel"
    by (rule bit_eqI) (use b in \<open>force simp: bit_simps min_def\<close>)
qed

lemma segdescr_limit_W: "\<exists>l. get_segdescr_limit (W 64 d) = W 32 l"
  by (cases "bit d 55") (auto simp: get_segdescr_limit_def Let_def bv_simps flag_def bit_take_bit_iff)

lemma use_table_W:
  assumes "0 \<le> sel" and "sel < 2 ^ 16" and "take_bit 64 g \<noteq> 0"
    and "drop_bit 3 sel < take_bit 16 g"
    and "memory_load env (W 64 (take_bit 32 (drop_bit 16 g) + 8 * drop_bit 3 sel)) = W 64 d"
    and "bit d 47"
  shows "use_table env (W 64 g) (W 32 sel) (W 32 addr) = W 64 (take_bit 32 (descriptor_base d + addr))"
proof -
  define idx where "idx = drop_bit 3 sel"
  have "drop_bit 3 sel \<le> sel" using assms(1) by (simp add: drop_bit_eq_div)
  then have idx: "0 \<le> idx" "idx < 2 ^ 16" using assms(1,2) by (auto simp: idx_def)
  then have tidx: "take_bit 64 idx = idx" "take_bit 32 idx = idx" by (auto intro!: take_bit_small [where j = 16])
  have "cl_zero_extend 32 (cl_sar (W 32 sel) (lit 3)) = W 64 idx"
    using small_selector(3) [OF assms(1,2)] tidx by (simp add: bv_simps idx_def)
  moreover have "cl_UGE (W 64 idx) (cl_zero_extend 48 (cl_slice (Some 15) (Some 0) (W 64 g))) = Inr False"
    using assms(4) tidx by (simp add: bv_simps idx_def min_def)
  moreover have "lift1 (\<lambda>b. Inr (bv_value b)) (cl_slice (Some 47) (Some 16) (W 64 g)) = Inr (take_bit 32 (drop_bit 16 g))"
    by (simp add: bv_simps lift1_W drop_bit_take_bit)
  moreover have "cl_add (lit (take_bit 32 (drop_bit 16 g))) (cl_mul (W 64 idx) (lit 8)) =
      W 64 (take_bit 32 (drop_bit 16 g) + 8 * idx)"
    by (simp add: bv_simps mult.commute)
  moreover have "cl_eq (cl_bit 47 (W 64 d)) (lit 0) = Inr False"
    using assms(6) by (simp add: bv_simps bit_take_bit_iff flag_def)
  moreover obtain l where "get_segdescr_limit (W 64 d) = W 32 l" using segdescr_limit_W by blast
  moreover have "cl_zero_extend 32 (cl_add (W 32 (descriptor_base d)) (W 32 addr)) =
      W 64 (take_bit 32 (descriptor_base d + addr))"
    by (simp add: bv_simps)
  ultimately show ?thesis
    using assms(3,5) by (simp add: use_table_def lift1_W segdescr_base_W flip: idx_def)
qed

section \<open>Properties\<close>

text \<open>
  C30. A rotation through the carry is undone by the rotation in the other direction with the same
  amount: operand and carry are restored, at 8, 16, 32 and 64 bits and for every amount, since
  both directions reduce the amount in the same way.
\<close>

theorem rotate_through_carry_inverse:
  assumes "take_bit j szv = sz" and "sz \<in> {1, 2, 4, 8}" and "n = nat (8 * sz)" and "n \<le> m" and "n \<le> k"
  shows "\<exists>c' v arg' v'.
           generic_rotate_with_carry left (W m arg) (W k amt) (flag c) (W j szv) = Inr (flag_operand c', v, arg')
         \<and> generic_rotate_with_carry (\<not> left) (Inr arg') (W k amt) (flag c') (W j szv) =
             Inr (flag_operand c, v', Bv (bvv m (take_bit n arg)))"
proof -
  define K where "K = nat (rc_count sz amt)"
  define r where "r = rc_rotate left n K (rc_joined n c arg)"
  define s where "s = rc_rotate (\<not> left) n K (rc_joined n (bit r n) (take_bit n r))"
  have K: "K < n + 1" using rc_count_range [OF assms(2), of amt] assms(3) by (simp add: K_def)
  have "take_bit (n + 1) s = take_bit (n + 1) (rc_joined n c arg)"
    unfolding s_def rc_joined_split r_def by (rule rc_rotate_inverse [OF K])
  then have s: "bit s n = c" "take_bit n s = take_bit n arg"
    using bit_rc_joined [of n c arg]
    by (metis bit_take_bit_iff less_add_one, metis min.absorb2 le_add1 take_bit_take_bit min.commute)
  note first = generic_rotate_W [OF assms r_def [unfolded K_def]]
  note second = generic_rotate_W [OF assms s_def [unfolded K_def], unfolded s]
  show ?thesis by (intro exI conjI) (rule first, rule second)
qed

theorem rotate_through_carry_inverse_witness:
  "\<exists>c' v arg' v'.
     generic_rotate_with_carry True (W 64 0x81) (W 64 12) (flag True) (W 64 1) = Inr (flag_operand c', v, arg')
   \<and> generic_rotate_with_carry (\<not> True) (Inr arg') (W 64 12) (flag c') (W 64 1) =
       Inr (flag_operand True, v', Bv (bvv 64 (take_bit 8 0x81)))"
  using rotate_through_carry_inverse [of 64 1 1 8 64 64 True "0x81" 12 True] by (simp add: take_bit_eq_mod)

text \<open>
  The flags of a rotation through the carry: \<open>amd64g_calculate_RCL\<close> with a negated size writes the
  carry out of the rotation and the overflow bit into the flags and keeps parity, adjust, zero
  and sign.
\<close>

lemma rotate_flags_kept:
  assumes "sz \<in> {1, 2, 4, 8}" and "n = nat (8 * sz)"
  shows "\<exists>c v. amd64g_calculate_RCL (W 64 arg) (W 64 amt) (W 64 ef) (W 64 (- sz)) = W 64 (with_CF_OF c v ef)
           \<and> kept_flags (with_CF_OF c v ef) = (kept_flags ef)\<lparr>CF := c, OF := v\<rparr>
           \<and> c = bit (rc_rotate True n (nat (rc_count sz amt)) (rc_joined n (bit ef 0) arg)) n"
proof -
  define r where "r = rc_rotate True n (nat (rc_count sz amt)) (rc_joined n (bit ef 0) arg)"
  have sz: "take_bit 64 (- (- sz)) = sz" "signed_take_bit 63 (- sz) < 0"
    using assms(1) signed_take_bit_top [of 64 "- sz"] by (auto simp: take_bit_eq_mod)
  have n: "n \<le> 64" using assms by auto
  have neg: "cl_SLT (W 64 (- sz)) (lit 0) = Inr True" "cl_neg (W 64 (- sz)) = W 64 (- (- sz))"
    using sz(2) by (simp_all only: cl_scmp_W cl_unary_W) simp_all
  have cin: "cl_bit (dget (CondBitOffsets (data AMD64)) ''G_CC_SHIFT_C'') (W 64 ef) = flag (bit ef 0)"
    by (simp add: data_def dget_def amd64_CondBitOffsets_def bv_simps bit_take_bit_iff)
  note rot = generic_rotate_W [OF sz(1) assms n n r_def]
  have "amd64g_calculate_RCL (W 64 arg) (W 64 amt) (W 64 ef) (W 64 (- sz)) =
      W 64 (with_CF_OF (bit r n) (bit r n \<noteq> bit r (n - 1)) ef)"
    unfolding amd64g_calculate_RCL_def amd64g_calculate_RC_def neg bind_res_Inr Let_def if_True cin rot prod.case
    using rotate_eflags_W [of AMD64] by simp
  then show ?thesis using kept_flags_with unfolding r_def by blast
qed

text \<open>
  C31. Decimal addition: \<open>DAA\<close> after the binary sum of two packed decimal numbers gives the packed
  decimal sum modulo one hundred, and its carry flag says that the sum reached one hundred. The
  flags that come in are the carry and the adjust flag of the binary addition.
\<close>

theorem daa_adds_decimals:
  assumes "0 \<le> a" and "a < 100" and "0 \<le> b" and "b < (100 :: int)"
    and "take_bit k opcode = 0x27"
    and "take_bit 8 w = take_bit 8 (bcd a + bcd b)" and "bit w 16 = (256 \<le> bcd a + bcd b)"
    and "bit w 20 = (16 \<le> a mod 10 + b mod 10)"
  shows "\<exists>r. x86g_calculate_daa_das_aaa_aas (W 32 w) (W k opcode) = W 32 r
           \<and> take_bit 8 r = bcd ((a + b) mod 100) \<and> bit r 16 = (100 \<le> a + b)"
proof -
  define t0 t1 where "t0 = a mod 10 + b mod 10" and "t1 = a div 10 + b div 10"
  have t: "0 \<le> t0" "t0 \<le> 18" "0 \<le> t1" "t1 \<le> 18" "a + b = 10 * t1 + t0" "bcd a + bcd b = 16 * t1 + t0"
    using assms(1-4) unfolding t0_def t1_def bcd_def by presburger+
  note d = daa_digits [OF t(1-4), of w]
  have "daa_al w = bcd ((a + b) mod 100)" "high_adjust w \<longleftrightarrow> 100 \<le> a + b"
    using d assms(6-8) t by (simp_all add: t0_def)
  moreover have "take_bit 8 (daa_al w) = daa_al w" by (simp add: daa_al_def)
  ultimately show ?thesis
    using daa_W [OF assms(5), of w] by (auto simp: ax_word_fields)
qed

theorem daa_adds_decimals_witness:
  "\<exists>r. x86g_calculate_daa_das_aaa_aas (W 32 0x0E) (W 32 0x27) = W 32 r \<and> take_bit 8 r = 0x14"
  using daa_adds_decimals [of 6 8 32 "0x27" "0x0E"] by (auto simp: take_bit_eq_mod bcd_def bit_iff_odd)

text \<open>
  \<open>AAM\<close> splits a byte into its quotient and remainder by ten (two decimal digits, if the byte is
  below one hundred) and \<open>AAD\<close> puts them together again.
\<close>

lemma aam_aad_roundtrip:
  assumes "take_bit k opm = 0xD4" and "take_bit k opd = 0xD5"
  shows "\<exists>y z. x86g_calculate_aad_aam (W 32 x) (W k opm) = W 32 y
           \<and> take_bit 8 (drop_bit 8 y) = take_bit 8 x div 10 \<and> take_bit 8 y = take_bit 8 x mod 10
           \<and> x86g_calculate_aad_aam (W 32 y) (W k opd) = W 32 z \<and> take_bit 8 z = take_bit 8 x"
proof -
  define al where "al = take_bit 8 x"
  define y where "y = ax_word False False (al mod 10 = 0) False False (even_parity 8 (al mod 10)) (al div 10) (al mod 10)"
  have al: "0 \<le> al" "al < 256" using take_bit_int_less_exp [of 8 x] by (simp_all add: al_def)
  then have "take_bit 8 (al div 10) = al div 10" "take_bit 8 (al mod 10) = al mod 10" "take_bit 8 al = al"
    by (auto intro!: take_bit_small [where j = 8])
  then have y: "take_bit 8 (drop_bit 8 y) = al div 10" "take_bit 8 y = al mod 10"
    by (simp_all add: y_def ax_word_fields)
  then have r: "take_bit 8 (10 * take_bit 8 (drop_bit 8 y) + take_bit 8 y) = al"
    using \<open>take_bit 8 al = al\<close> by simp
  have "x86g_calculate_aad_aam (W 32 x) (W k opm) = W 32 y"
    unfolding y_def by (rule aam_aad_W(1) [OF al_def refl assms(1)])
  moreover have "\<exists>z. x86g_calculate_aad_aam (W 32 y) (W k opd) = W 32 z \<and> take_bit 8 z = al"
    using aam_aad_W(2) [OF refl refl assms(2), of y] r \<open>take_bit 8 al = al\<close> by (auto simp: Let_def ax_word_fields)
  ultimately show ?thesis using y by (auto simp: al_def)
qed

text \<open>
  \<open>amd64g_calculate_mmx_pmaddwd\<close> multiplies the four signed sixteen-bit lanes and adds adjacent
  products into two thirty-two-bit lanes; the only sum that does not fit its lane is that of four
  times the least value, and it wraps.
\<close>

lemma pmaddwd_lanes:
  "\<exists>r. amd64g_calculate_mmx_pmaddwd (W 64 x) (W 64 y) = W 64 r
     \<and> take_bit 32 r = take_bit 32 (lane 1 x * lane 1 y + lane 0 x * lane 0 y)
     \<and> take_bit 32 (drop_bit 32 r) = take_bit 32 (lane 3 x * lane 3 y + lane 2 x * lane 2 y)"
  by (intro exI [of _ "push_bit 32 (lane 3 x * lane 3 y + lane 2 x * lane 2 y)
           OR take_bit 32 (lane 1 x * lane 1 y + lane 0 x * lane 0 y)"] conjI pmaddwd_W bit_eqI)
    (auto simp: bit_simps)

text \<open>
  A segmented access in protected mode: with a selector into the global table, an index within
  the limit and a present descriptor, \<open>x86g_use_seg_selector\<close> returns the base of the descriptor
  plus the offset, wrapped at 32 bits.
\<close>

lemma segmented_address:
  assumes "0 \<le> sel" and "sel < 2 ^ 16" and "\<not> bit sel 2" and "take_bit 64 g \<noteq> 0"
    and "drop_bit 3 sel < take_bit 16 g" and "odd (x86_cr0 env)" and "\<not> simos_is_Win32 env"
    and "memory_load env (W 64 (take_bit 32 (drop_bit 16 g) + 8 * drop_bit 3 sel)) = W 64 d"
    and "bit d 47"
  shows "x86g_use_seg_selector env ldt (W 64 g) (W 32 sel) (W 32 addr) =
           W 64 (take_bit 32 (descriptor_base d + addr))"
proof -
  note small = small_selector [OF assms(1,2)]
  have t32: "take_bit 32 sel = sel" using assms(1,2) by (intro take_bit_small [where j = 16]) simp_all
  have "take_bit 32 (sel AND NOT 65535) = 0" using small(1) by simp
  then have "cl_ne (cl_and (W 32 sel) (lit (NOT 0xFFFF))) (lit 0) = Inr False"
    by (simp add: bv_simps del: take_bit_and)
  moreover have "cl_and (W 32 sel) (lit 0xFFFF) = W 32 sel"
    using small(2) by (simp add: bv_simps mask_255)
  moreover have "cl_eq (cl_and (cl_sar (W 32 sel) (lit 2)) (lit 1)) (lit 0) = Inr True"
    using assms(3) small(3) by (simp add: bv_simps and_1_of_bool flip: bit_iff_odd_drop_bit)
  moreover have "cl_eq (cl_sar (W 32 sel) (lit 3)) (lit 6) = Inr (take_bit 32 (drop_bit 3 sel) = 6)"
    using small(3) by (simp add: bv_simps)
  moreover have "x86_cr0 env AND 1 \<noteq> 0" using assms(6) by (simp add: and_1_of_bool)
  ultimately show ?thesis
    using use_table_W [OF assms(1,2,4,5,8,9), of addr] assms(7)
    by (simp add: x86g_use_seg_selector_def)
qed

end
