(* ===== verification/CCall_ARM.thy ===== *)
theory CCall_ARM
  imports CCall_Data
begin

text \<open>
  The condition-code helpers of ARM and of AArch64 in \<open>ccall.py\<close>: one definition per flag, the
  packing of the flags (\<open>*_calculate_flags_nzcv\<close>) and the evaluation of a condition
  (\<open>*_calculate_condition\<close>). A branch that leaves \<open>flag\<close> at \<open>None\<close> ends in \<open>SimCCallError\<close>.
\<close>

section \<open>Constants\<close>

definition ARMCondEQ :: int where "ARMCondEQ = 0"
definition ARMCondNE :: int where "ARMCondNE = 1"
definition ARMCondHS :: int where "ARMCondHS = 2"
definition ARMCondLO :: int where "ARMCondLO = 3"
definition ARMCondMI :: int where "ARMCondMI = 4"
definition ARMCondPL :: int where "ARMCondPL = 5"
definition ARMCondVS :: int where "ARMCondVS = 6"
definition ARMCondVC :: int where "ARMCondVC = 7"
definition ARMCondHI :: int where "ARMCondHI = 8"
definition ARMCondLS :: int where "ARMCondLS = 9"
definition ARMCondGE :: int where "ARMCondGE = 10"
definition ARMCondLT :: int where "ARMCondLT = 11"
definition ARMCondGT :: int where "ARMCondGT = 12"
definition ARMCondLE :: int where "ARMCondLE = 13"
definition ARMCondAL :: int where "ARMCondAL = 14"
definition ARMCondNV :: int where "ARMCondNV = 15"

definition ARMG_CC_OP_COPY :: int where "ARMG_CC_OP_COPY = 0"
definition ARMG_CC_OP_ADD :: int where "ARMG_CC_OP_ADD = 1"
definition ARMG_CC_OP_SUB :: int where "ARMG_CC_OP_SUB = 2"
definition ARMG_CC_OP_ADC :: int where "ARMG_CC_OP_ADC = 3"
definition ARMG_CC_OP_SBB :: int where "ARMG_CC_OP_SBB = 4"
definition ARMG_CC_OP_LOGIC :: int where "ARMG_CC_OP_LOGIC = 5"
definition ARMG_CC_OP_MUL :: int where "ARMG_CC_OP_MUL = 6"
definition ARMG_CC_OP_MULL :: int where "ARMG_CC_OP_MULL = 7"
definition ARMG_CC_OP_NUMBER :: int where "ARMG_CC_OP_NUMBER = 8"

definition ARMG_CC_SHIFT_N :: int where "ARMG_CC_SHIFT_N = 31"
definition ARMG_CC_SHIFT_Z :: int where "ARMG_CC_SHIFT_Z = 30"
definition ARMG_CC_SHIFT_C :: int where "ARMG_CC_SHIFT_C = 29"
definition ARMG_CC_SHIFT_V :: int where "ARMG_CC_SHIFT_V = 28"
definition ARMG_CC_SHIFT_Q :: int where "ARMG_CC_SHIFT_Q = 27"
definition ARMG_NBITS :: int where "ARMG_NBITS = 32"

section \<open>ARM\<close>

definition armg_calculate_flag_n :: "val \<Rightarrow> val \<Rightarrow> val \<Rightarrow> val \<Rightarrow> val" where
  "armg_calculate_flag_n cc_op cc_dep1 cc_dep2 cc_dep3 =
     bind_res (op_concretize cc_op) (\<lambda>op.
       if op = ARMG_CC_OP_COPY then cl_and (cl_LShR cc_dep1 (lit ARMG_CC_SHIFT_N)) (lit 1)
       else if op = ARMG_CC_OP_ADD then cl_LShR (cl_add cc_dep1 cc_dep2) (lit 31)
       else if op = ARMG_CC_OP_SUB then cl_LShR (cl_sub cc_dep1 cc_dep2) (lit 31)
       else if op = ARMG_CC_OP_ADC then cl_LShR (cl_add (cl_add cc_dep1 cc_dep2) cc_dep3) (lit 31)
       else if op = ARMG_CC_OP_SBB then cl_LShR (cl_sub (cl_sub cc_dep1 cc_dep2) (cl_xor cc_dep3 (lit 1))) (lit 31)
       else if op \<in> {ARMG_CC_OP_LOGIC, ARMG_CC_OP_MUL} then cl_LShR cc_dep1 (lit 31)
       else if op = ARMG_CC_OP_MULL then cl_LShR cc_dep2 (lit 31)
       else Inl SimCCallError)"

definition arm_zerobit :: "val \<Rightarrow> val" where
  "arm_zerobit x = cl_zero_extend 31 (calc_zerobit x)"

definition armg_calculate_flag_z :: "val \<Rightarrow> val \<Rightarrow> val \<Rightarrow> val \<Rightarrow> val" where
  "armg_calculate_flag_z cc_op cc_dep1 cc_dep2 cc_dep3 =
     bind_res (op_concretize cc_op) (\<lambda>op.
       if op = ARMG_CC_OP_COPY then cl_and (cl_LShR cc_dep1 (lit ARMG_CC_SHIFT_Z)) (lit 1)
       else if op = ARMG_CC_OP_ADD then arm_zerobit (cl_add cc_dep1 cc_dep2)
       else if op = ARMG_CC_OP_SUB then arm_zerobit (cl_sub cc_dep1 cc_dep2)
       else if op = ARMG_CC_OP_ADC then arm_zerobit (cl_add (cl_add cc_dep1 cc_dep2) cc_dep3)
       else if op = ARMG_CC_OP_SBB then arm_zerobit (cl_sub (cl_sub cc_dep1 cc_dep2) (cl_xor cc_dep3 (lit 1)))
       else if op \<in> {ARMG_CC_OP_LOGIC, ARMG_CC_OP_MUL} then arm_zerobit cc_dep1
       else if op = ARMG_CC_OP_MULL then arm_zerobit (cl_or cc_dep1 cc_dep2)
       else Inl SimCCallError)"

definition armg_calculate_flag_c :: "val \<Rightarrow> val \<Rightarrow> val \<Rightarrow> val \<Rightarrow> val" where
  "armg_calculate_flag_c cc_op cc_dep1 cc_dep2 cc_dep3 =
     bind_res (op_concretize cc_op) (\<lambda>op.
       if op = ARMG_CC_OP_COPY then cl_and (cl_LShR cc_dep1 (lit ARMG_CC_SHIFT_C)) (lit 1)
       else if op = ARMG_CC_OP_ADD then boolean_extend cl_ULT (cl_add cc_dep1 cc_dep2) cc_dep1 32
       else if op = ARMG_CC_OP_SUB then boolean_extend cl_UGE cc_dep1 cc_dep2 32
       else if op = ARMG_CC_OP_ADC then
         let res = cl_add (cl_add cc_dep1 cc_dep2) cc_dep3 in
         cl_If (cl_ne cc_dep3 (lit 0)) (boolean_extend cl_ULE res cc_dep1 32)
           (boolean_extend cl_ULT res cc_dep1 32)
       else if op = ARMG_CC_OP_SBB then
         cl_If (cl_ne cc_dep3 (lit 0)) (boolean_extend cl_UGE cc_dep1 cc_dep2 32)
           (boolean_extend cl_UGT cc_dep1 cc_dep2 32)
       else if op = ARMG_CC_OP_LOGIC then cc_dep2
       else if op \<in> {ARMG_CC_OP_MUL, ARMG_CC_OP_MULL} then cl_and (cl_LShR cc_dep3 (lit 1)) (lit 1)
       else Inl SimCCallError)"

definition armg_calculate_flag_v :: "val \<Rightarrow> val \<Rightarrow> val \<Rightarrow> val \<Rightarrow> val" where
  "armg_calculate_flag_v cc_op cc_dep1 cc_dep2 cc_dep3 =
     bind_res (op_concretize cc_op) (\<lambda>op.
       if op = ARMG_CC_OP_COPY then cl_and (cl_LShR cc_dep1 (lit ARMG_CC_SHIFT_V)) (lit 1)
       else if op = ARMG_CC_OP_ADD then
         let res = cl_add cc_dep1 cc_dep2 in
         cl_LShR (cl_and (cl_xor res cc_dep1) (cl_xor res cc_dep2)) (lit 31)
       else if op = ARMG_CC_OP_SUB then
         let res = cl_sub cc_dep1 cc_dep2 in
         cl_LShR (cl_and (cl_xor cc_dep1 cc_dep2) (cl_xor cc_dep1 res)) (lit 31)
       else if op = ARMG_CC_OP_ADC then
         let res = cl_add (cl_add cc_dep1 cc_dep2) cc_dep3 in
         cl_LShR (cl_and (cl_xor res cc_dep1) (cl_xor res cc_dep2)) (lit 31)
       else if op = ARMG_CC_OP_SBB then
         let res = cl_sub (cl_sub cc_dep1 cc_dep2) (cl_xor cc_dep3 (lit 1)) in
         cl_LShR (cl_and (cl_xor cc_dep1 cc_dep2) (cl_xor cc_dep1 res)) (lit 31)
       else if op = ARMG_CC_OP_LOGIC then cc_dep3
       else if op \<in> {ARMG_CC_OP_MUL, ARMG_CC_OP_MULL} then cl_and cc_dep3 (lit 1)
       else Inl SimCCallError)"

definition armg_calculate_flags_nzcv :: "val \<Rightarrow> val \<Rightarrow> val \<Rightarrow> val \<Rightarrow> val" where
  "armg_calculate_flags_nzcv cc_op cc_dep1 cc_dep2 cc_dep3 =
     bind_res (armg_calculate_flag_n cc_op cc_dep1 cc_dep2 cc_dep3) (\<lambda>n.
     bind_res (armg_calculate_flag_z cc_op cc_dep1 cc_dep2 cc_dep3) (\<lambda>z.
     bind_res (armg_calculate_flag_c cc_op cc_dep1 cc_dep2 cc_dep3) (\<lambda>c.
     bind_res (armg_calculate_flag_v cc_op cc_dep1 cc_dep2 cc_dep3) (\<lambda>v.
     concat_flags ARMG_NBITS
       [(ARMG_CC_SHIFT_N, cl_Extract 0 0 (Inr n)), (ARMG_CC_SHIFT_Z, cl_Extract 0 0 (Inr z)),
        (ARMG_CC_SHIFT_C, cl_Extract 0 0 (Inr c)), (ARMG_CC_SHIFT_V, cl_Extract 0 0 (Inr v))]))))"

definition armg_calculate_condition :: "val \<Rightarrow> val \<Rightarrow> val \<Rightarrow> val \<Rightarrow> val" where
  "armg_calculate_condition cond_n_op cc_dep1 cc_dep2 cc_dep3 =
     bind_res (op_concretize cond_n_op) (\<lambda>x.
       let cond = drop_bit 4 x; cc_op = x AND 0xF; inv = cond AND 1 in
       if cond = ARMCondAL then cl_BVV 1 32
       else if cond \<in> {ARMCondEQ, ARMCondNE} then cl_xor (lit inv) (armg_calculate_flag_z (lit cc_op) cc_dep1 cc_dep2 cc_dep3)
       else if cond \<in> {ARMCondHS, ARMCondLO} then cl_xor (lit inv) (armg_calculate_flag_c (lit cc_op) cc_dep1 cc_dep2 cc_dep3)
       else if cond \<in> {ARMCondMI, ARMCondPL} then cl_xor (lit inv) (armg_calculate_flag_n (lit cc_op) cc_dep1 cc_dep2 cc_dep3)
       else if cond \<in> {ARMCondVS, ARMCondVC} then cl_xor (lit inv) (armg_calculate_flag_v (lit cc_op) cc_dep1 cc_dep2 cc_dep3)
       else if cond \<in> {ARMCondHI, ARMCondLS} then
         let cf = armg_calculate_flag_c (lit cc_op) cc_dep1 cc_dep2 cc_dep3;
             zf = armg_calculate_flag_z (lit cc_op) cc_dep1 cc_dep2 cc_dep3
         in cl_xor (lit inv) (cl_and cf (cl_not zf))
       else if cond \<in> {ARMCondGE, ARMCondLT} then
         let nf = armg_calculate_flag_n (lit cc_op) cc_dep1 cc_dep2 cc_dep3;
             vf = armg_calculate_flag_v (lit cc_op) cc_dep1 cc_dep2 cc_dep3
         in cl_xor (lit inv) (cl_and (lit 1) (cl_not (cl_xor nf vf)))
       else if cond \<in> {ARMCondGT, ARMCondLE} then
         let nf = armg_calculate_flag_n (lit cc_op) cc_dep1 cc_dep2 cc_dep3;
             vf = armg_calculate_flag_v (lit cc_op) cc_dep1 cc_dep2 cc_dep3;
             zf = armg_calculate_flag_z (lit cc_op) cc_dep1 cc_dep2 cc_dep3
         in cl_xor (lit inv) (cl_and (lit 1) (cl_not (cl_or zf (cl_xor nf vf))))
       else Inl SimCCallError)"

section \<open>AArch64\<close>

definition ARM64G_CC_SHIFT_N :: int where "ARM64G_CC_SHIFT_N = 31"
definition ARM64G_CC_SHIFT_Z :: int where "ARM64G_CC_SHIFT_Z = 30"
definition ARM64G_CC_SHIFT_C :: int where "ARM64G_CC_SHIFT_C = 29"
definition ARM64G_CC_SHIFT_V :: int where "ARM64G_CC_SHIFT_V = 28"

definition ARM64G_CC_OP_COPY :: int where "ARM64G_CC_OP_COPY = 0"
definition ARM64G_CC_OP_ADD32 :: int where "ARM64G_CC_OP_ADD32 = 1"
definition ARM64G_CC_OP_ADD64 :: int where "ARM64G_CC_OP_ADD64 = 2"
definition ARM64G_CC_OP_SUB32 :: int where "ARM64G_CC_OP_SUB32 = 3"
definition ARM64G_CC_OP_SUB64 :: int where "ARM64G_CC_OP_SUB64 = 4"
definition ARM64G_CC_OP_ADC32 :: int where "ARM64G_CC_OP_ADC32 = 5"
definition ARM64G_CC_OP_ADC64 :: int where "ARM64G_CC_OP_ADC64 = 6"
definition ARM64G_CC_OP_SBC32 :: int where "ARM64G_CC_OP_SBC32 = 7"
definition ARM64G_CC_OP_SBC64 :: int where "ARM64G_CC_OP_SBC64 = 8"
definition ARM64G_CC_OP_LOGIC32 :: int where "ARM64G_CC_OP_LOGIC32 = 9"
definition ARM64G_CC_OP_LOGIC64 :: int where "ARM64G_CC_OP_LOGIC64 = 10"
definition ARM64G_CC_OP_NUMBER :: int where "ARM64G_CC_OP_NUMBER = 11"

definition ARM64CondEQ :: int where "ARM64CondEQ = 0"
definition ARM64CondNE :: int where "ARM64CondNE = 1"
definition ARM64CondCS :: int where "ARM64CondCS = 2"
definition ARM64CondCC :: int where "ARM64CondCC = 3"
definition ARM64CondMI :: int where "ARM64CondMI = 4"
definition ARM64CondPL :: int where "ARM64CondPL = 5"
definition ARM64CondVS :: int where "ARM64CondVS = 6"
definition ARM64CondVC :: int where "ARM64CondVC = 7"
definition ARM64CondHI :: int where "ARM64CondHI = 8"
definition ARM64CondLS :: int where "ARM64CondLS = 9"
definition ARM64CondGE :: int where "ARM64CondGE = 10"
definition ARM64CondLT :: int where "ARM64CondLT = 11"
definition ARM64CondGT :: int where "ARM64CondGT = 12"
definition ARM64CondLE :: int where "ARM64CondLE = 13"
definition ARM64CondAL :: int where "ARM64CondAL = 14"
definition ARM64CondNV :: int where "ARM64CondNV = 15"
definition ARM64G_NBITS :: int where "ARM64G_NBITS = 64"

definition arm64_zerobit :: "val \<Rightarrow> val" where
  "arm64_zerobit x = cl_zero_extend 63 (calc_zerobit x)"

definition u64_to_u32 :: "val \<Rightarrow> val" where
  "u64_to_u32 n = cl_slice (Some 31) (Some 0) n"

definition arm64g_32bit_truncate_operands :: "int \<Rightarrow> val \<Rightarrow> val \<Rightarrow> val \<Rightarrow> val \<times> val \<times> val" where
  "arm64g_32bit_truncate_operands op cc_dep1 cc_dep2 cc_dep3 =
     (if op \<in> {ARM64G_CC_OP_ADD32, ARM64G_CC_OP_SUB32}
      then (u64_to_u32 cc_dep1, u64_to_u32 cc_dep2, cc_dep3)
      else if op \<in> {ARM64G_CC_OP_ADC32, ARM64G_CC_OP_SBC32}
      then (u64_to_u32 cc_dep1, u64_to_u32 cc_dep2, u64_to_u32 cc_dep3)
      else if op = ARM64G_CC_OP_LOGIC32 then (u64_to_u32 cc_dep1, cc_dep2, cc_dep3)
      else (cc_dep1, cc_dep2, cc_dep3))"

text \<open>\<open>if len(flag) == 32: flag = flag.zero_extend(32)\<close>\<close>

definition widen_flag :: "val \<Rightarrow> val" where
  "widen_flag x = bind_res (cl_size x) (\<lambda>n. if n = 32 then cl_zero_extend 32 x else x)"

definition arm64g_calculate_flag_n :: "val \<Rightarrow> val \<Rightarrow> val \<Rightarrow> val \<Rightarrow> val" where
  "arm64g_calculate_flag_n cc_op dep1 dep2 dep3 =
     bind_res (op_concretize cc_op) (\<lambda>op.
       case arm64g_32bit_truncate_operands op dep1 dep2 dep3 of (cc_dep1, cc_dep2, cc_dep3) \<Rightarrow>
         widen_flag
          (if op = ARM64G_CC_OP_COPY then cl_and (cl_LShR cc_dep1 (lit ARM64G_CC_SHIFT_N)) (lit 1)
         else if op = ARM64G_CC_OP_ADD32 then cl_LShR (cl_add cc_dep1 cc_dep2) (lit 31)
         else if op = ARM64G_CC_OP_ADD64 then cl_LShR (cl_add cc_dep1 cc_dep2) (lit 63)
         else if op = ARM64G_CC_OP_SUB32 then cl_LShR (cl_sub cc_dep1 cc_dep2) (lit 31)
         else if op = ARM64G_CC_OP_SUB64 then cl_LShR (cl_sub cc_dep1 cc_dep2) (lit 63)
         else if op = ARM64G_CC_OP_ADC32 then cl_LShR (cl_add (cl_add cc_dep1 cc_dep2) cc_dep3) (lit 31)
         else if op = ARM64G_CC_OP_ADC64 then cl_LShR (cl_add (cl_add cc_dep1 cc_dep2) cc_dep3) (lit 63)
         else if op = ARM64G_CC_OP_SBC32 then cl_LShR (cl_sub (cl_sub cc_dep1 cc_dep2) (cl_xor cc_dep3 (lit 1))) (lit 31)
         else if op = ARM64G_CC_OP_SBC64 then cl_LShR (cl_sub (cl_sub cc_dep1 cc_dep2) (cl_xor cc_dep3 (lit 1))) (lit 63)
         else if op = ARM64G_CC_OP_LOGIC32 then cl_LShR cc_dep1 (lit 31)
         else if op = ARM64G_CC_OP_LOGIC64 then cl_LShR cc_dep1 (lit 63)
         else Inl SimCCallError))"

definition arm64g_calculate_flag_z :: "val \<Rightarrow> val \<Rightarrow> val \<Rightarrow> val \<Rightarrow> val" where
  "arm64g_calculate_flag_z cc_op dep1 dep2 dep3 =
     bind_res (op_concretize cc_op) (\<lambda>op.
       case arm64g_32bit_truncate_operands op dep1 dep2 dep3 of (cc_dep1, cc_dep2, cc_dep3) \<Rightarrow>
         widen_flag
          (if op = ARM64G_CC_OP_COPY then cl_and (cl_LShR cc_dep1 (lit ARM64G_CC_SHIFT_Z)) (lit 1)
         else if op \<in> {ARM64G_CC_OP_ADD32, ARM64G_CC_OP_ADD64} then arm64_zerobit (cl_add cc_dep1 cc_dep2)
         else if op \<in> {ARM64G_CC_OP_SUB32, ARM64G_CC_OP_SUB64} then arm64_zerobit (cl_sub cc_dep1 cc_dep2)
         else if op \<in> {ARM64G_CC_OP_ADC32, ARM64G_CC_OP_ADC64} then arm64_zerobit (cl_add (cl_add cc_dep1 cc_dep2) cc_dep3)
         else if op \<in> {ARM64G_CC_OP_SBC32, ARM64G_CC_OP_SBC64} then arm64_zerobit (cl_sub (cl_sub cc_dep1 cc_dep2) (cl_xor cc_dep3 (lit 1)))
         else if op \<in> {ARM64G_CC_OP_LOGIC32, ARM64G_CC_OP_LOGIC64} then arm64_zerobit cc_dep1
         else Inl SimCCallError))"

definition arm64g_calculate_flag_c :: "val \<Rightarrow> val \<Rightarrow> val \<Rightarrow> val \<Rightarrow> val" where
  "arm64g_calculate_flag_c cc_op dep1 dep2 dep3 =
     bind_res (op_concretize cc_op) (\<lambda>op.
       case arm64g_32bit_truncate_operands op dep1 dep2 dep3 of (cc_dep1, cc_dep2, cc_dep3) \<Rightarrow>
         if op = ARM64G_CC_OP_COPY then cl_and (cl_LShR cc_dep1 (lit ARM64G_CC_SHIFT_C)) (lit 1)
         else if op \<in> {ARM64G_CC_OP_ADD32, ARM64G_CC_OP_ADD64} then boolean_extend cl_ULT (cl_add cc_dep1 cc_dep2) cc_dep1 64
         else if op \<in> {ARM64G_CC_OP_SUB32, ARM64G_CC_OP_SUB64} then boolean_extend cl_UGE cc_dep1 cc_dep2 64
         else if op \<in> {ARM64G_CC_OP_ADC32, ARM64G_CC_OP_ADC64} then
         let res = cl_add (cl_add cc_dep1 cc_dep2) cc_dep3 in
         cl_If (cl_ne cc_dep3 (lit 0)) (boolean_extend cl_ULE res cc_dep1 64)
           (boolean_extend cl_ULT res cc_dep1 64)
         else if op \<in> {ARM64G_CC_OP_SBC32, ARM64G_CC_OP_SBC64} then
         cl_If (cl_ne cc_dep3 (lit 0)) (boolean_extend cl_UGE cc_dep1 cc_dep2 64)
           (boolean_extend cl_UGT cc_dep1 cc_dep2 64)
         else if op \<in> {ARM64G_CC_OP_LOGIC32, ARM64G_CC_OP_LOGIC64} then cl_BVV 0 64
         else Inl SimCCallError)"

definition arm64g_calculate_flag_v :: "val \<Rightarrow> val \<Rightarrow> val \<Rightarrow> val \<Rightarrow> val" where
  "arm64g_calculate_flag_v cc_op dep1 dep2 dep3 =
     bind_res (op_concretize cc_op) (\<lambda>op.
       case arm64g_32bit_truncate_operands op dep1 dep2 dep3 of (cc_dep1, cc_dep2, cc_dep3) \<Rightarrow>
         if op = ARM64G_CC_OP_COPY then cl_and (cl_LShR cc_dep1 (lit ARM64G_CC_SHIFT_V)) (lit 1)
         else if op = ARM64G_CC_OP_ADD32 then
         let d1 = cl_slice (Some 31) (Some 0) cc_dep1; d2 = cl_slice (Some 31) (Some 0) cc_dep2 in
         let res = cl_add d1 d2 in
         cl_zero_extend 32 (cl_LShR (cl_and (cl_xor res d1) (cl_xor res d2)) (lit 31))
         else if op = ARM64G_CC_OP_ADD64 then
         let res = cl_add cc_dep1 cc_dep2 in
         cl_LShR (cl_and (cl_xor res cc_dep1) (cl_xor res cc_dep2)) (lit 63)
         else if op = ARM64G_CC_OP_SUB32 then
         let d1 = cl_slice (Some 31) (Some 0) cc_dep1; d2 = cl_slice (Some 31) (Some 0) cc_dep2 in
         let res = cl_sub d1 d2 in
         cl_zero_extend 32 (cl_LShR (cl_and (cl_xor d1 d2) (cl_xor d1 res)) (lit 31))
         else if op = ARM64G_CC_OP_SUB64 then
         let res = cl_sub cc_dep1 cc_dep2 in
         cl_LShR (cl_and (cl_xor cc_dep1 cc_dep2) (cl_xor cc_dep1 res)) (lit 63)
         else if op = ARM64G_CC_OP_ADC32 then
         let d1 = cl_slice (Some 31) (Some 0) cc_dep1; d2 = cl_slice (Some 31) (Some 0) cc_dep2 in
         let res = cl_add (cl_add d1 d2) cc_dep3 in
         cl_zero_extend 32 (cl_LShR (cl_and (cl_xor res d1) (cl_xor res d2)) (lit 31))
         else if op = ARM64G_CC_OP_ADC64 then
         let res = cl_add (cl_add cc_dep1 cc_dep2) cc_dep3 in
         cl_LShR (cl_and (cl_xor res cc_dep1) (cl_xor res cc_dep2)) (lit 63)
         else if op = ARM64G_CC_OP_SBC32 then
         let d1 = cl_slice (Some 31) (Some 0) cc_dep1; d2 = cl_slice (Some 31) (Some 0) cc_dep2 in
         let res = cl_sub (cl_sub d1 d2) (cl_xor cc_dep3 (lit 1)) in
         cl_zero_extend 32 (cl_LShR (cl_and (cl_xor d1 d2) (cl_xor d1 res)) (lit 31))
         else if op = ARM64G_CC_OP_SBC64 then
         let res = cl_sub (cl_sub cc_dep1 cc_dep2) (cl_xor cc_dep3 (lit 1)) in
         cl_LShR (cl_and (cl_xor cc_dep1 cc_dep2) (cl_xor cc_dep1 res)) (lit 63)
         else if op \<in> {ARM64G_CC_OP_LOGIC32, ARM64G_CC_OP_LOGIC64} then cl_BVV 0 64
         else Inl SimCCallError)"

definition arm64g_calculate_flags_nzcv :: "val \<Rightarrow> val \<Rightarrow> val \<Rightarrow> val \<Rightarrow> val" where
  "arm64g_calculate_flags_nzcv cc_op cc_dep1 cc_dep2 cc_dep3 =
     bind_res (arm64g_calculate_flag_n cc_op cc_dep1 cc_dep2 cc_dep3) (\<lambda>n.
     bind_res (arm64g_calculate_flag_z cc_op cc_dep1 cc_dep2 cc_dep3) (\<lambda>z.
     bind_res (arm64g_calculate_flag_c cc_op cc_dep1 cc_dep2 cc_dep3) (\<lambda>c.
     bind_res (arm64g_calculate_flag_v cc_op cc_dep1 cc_dep2 cc_dep3) (\<lambda>v.
     concat_flags ARM64G_NBITS
       [(ARM64G_CC_SHIFT_N, cl_Extract 0 0 (Inr n)), (ARM64G_CC_SHIFT_Z, cl_Extract 0 0 (Inr z)),
        (ARM64G_CC_SHIFT_C, cl_Extract 0 0 (Inr c)), (ARM64G_CC_SHIFT_V, cl_Extract 0 0 (Inr v))]))))"

definition arm64g_calculate_condition :: "val \<Rightarrow> val \<Rightarrow> val \<Rightarrow> val \<Rightarrow> val" where
  "arm64g_calculate_condition cond_n_op cc_dep1 cc_dep2 cc_dep3 =
     bind_res (op_concretize cond_n_op) (\<lambda>x.
       let cond = drop_bit 4 x; cc_op = x AND 0xF; inv = cond AND 1 in
       if cond \<in> {ARM64CondAL, ARM64CondNV} then cl_BVV 1 64
       else if cond \<in> {ARM64CondEQ, ARM64CondNE} then cl_xor (lit inv) (arm64g_calculate_flag_z (lit cc_op) cc_dep1 cc_dep2 cc_dep3)
       else if cond \<in> {ARM64CondCS, ARM64CondCC} then cl_xor (lit inv) (arm64g_calculate_flag_c (lit cc_op) cc_dep1 cc_dep2 cc_dep3)
       else if cond \<in> {ARM64CondMI, ARM64CondPL} then cl_xor (lit inv) (arm64g_calculate_flag_n (lit cc_op) cc_dep1 cc_dep2 cc_dep3)
       else if cond \<in> {ARM64CondVS, ARM64CondVC} then cl_xor (lit inv) (arm64g_calculate_flag_v (lit cc_op) cc_dep1 cc_dep2 cc_dep3)
       else if cond \<in> {ARM64CondHI, ARM64CondLS} then
         let cf = arm64g_calculate_flag_c (lit cc_op) cc_dep1 cc_dep2 cc_dep3;
             zf = arm64g_calculate_flag_z (lit cc_op) cc_dep1 cc_dep2 cc_dep3
         in cl_xor (lit inv) (cl_and (lit 1) (cl_and cf (cl_not zf)))
       else if cond \<in> {ARM64CondGE, ARM64CondLT} then
         let nf = arm64g_calculate_flag_n (lit cc_op) cc_dep1 cc_dep2 cc_dep3;
             vf = arm64g_calculate_flag_v (lit cc_op) cc_dep1 cc_dep2 cc_dep3
         in cl_xor (lit inv) (cl_and (lit 1) (cl_not (cl_xor nf vf)))
       else if cond \<in> {ARM64CondGT, ARM64CondLE} then
         let nf = arm64g_calculate_flag_n (lit cc_op) cc_dep1 cc_dep2 cc_dep3;
             vf = arm64g_calculate_flag_v (lit cc_op) cc_dep1 cc_dep2 cc_dep3;
             zf = arm64g_calculate_flag_z (lit cc_op) cc_dep1 cc_dep2 cc_dep3
         in cl_xor (lit inv) (cl_and (lit 1) (cl_not (cl_or zf (cl_xor nf vf))))
       else Inl SimCCallError)"

end
