(* ===== verification/ARM_Flags.thy ===== *)
theory ARM_Flags
  imports CCall_ARM Flag_Arith
begin

text \<open>
  What the flag helpers of ARM and AArch64 compute. The reference is the architecture:
  \<open>AddWithCarry\<close> sets C on unsigned overflow of the sum and V on signed overflow, a subtraction
  is an addition of the complement, so C is the absence of a borrow. The locale \<open>nzcv_flags\<close>
  states the contract of the four flag functions; the packing of the flags and the sixteen
  conditions are derived from it once and interpreted on ARM and on AArch64.
\<close>

section \<open>Reference flags\<close>

record nzcv =
  N_flag :: bool
  Z_flag :: bool
  C_flag :: bool
  V_flag :: bool

definition arm_add :: "nat \<Rightarrow> int \<Rightarrow> int \<Rightarrow> int \<Rightarrow> nzcv" where
  "arm_add n a b c =
     \<lparr>N_flag = (signed_take_bit (n - 1) (a + b + c) < 0), Z_flag = (take_bit n (a + b + c) = 0),
      C_flag = (2 ^ n \<le> take_bit n a + take_bit n b + c),
      V_flag = (\<not> fits_signed n (signed_take_bit (n - 1) a + signed_take_bit (n - 1) b + c))\<rparr>"

text \<open>\<open>c\<close> is the carry that comes in; the borrow is its complement.\<close>

definition arm_sub :: "nat \<Rightarrow> int \<Rightarrow> int \<Rightarrow> int \<Rightarrow> nzcv" where
  "arm_sub n a b c =
     \<lparr>N_flag = (signed_take_bit (n - 1) (a - b - (1 - c)) < 0), Z_flag = (take_bit n (a - b - (1 - c)) = 0),
      C_flag = (take_bit n b + (1 - c) \<le> take_bit n a),
      V_flag = (\<not> fits_signed n (signed_take_bit (n - 1) a - signed_take_bit (n - 1) b - (1 - c)))\<rparr>"

definition arm_result :: "nat \<Rightarrow> int \<Rightarrow> bool \<Rightarrow> bool \<Rightarrow> nzcv" where
  "arm_result n r c v =
     \<lparr>N_flag = (signed_take_bit (n - 1) r < 0), Z_flag = (take_bit n r = 0), C_flag = c, V_flag = v\<rparr>"

definition nzcv_of_word :: "int \<Rightarrow> nzcv" where
  "nzcv_of_word x = \<lparr>N_flag = bit x 31, Z_flag = bit x 30, C_flag = bit x 29, V_flag = bit x 28\<rparr>"

definition nzcv_word :: "nzcv \<Rightarrow> int" where
  "nzcv_word f = of_bool (N_flag f) * 2 ^ 31 + of_bool (Z_flag f) * 2 ^ 30
     + of_bool (C_flag f) * 2 ^ 29 + of_bool (V_flag f) * 2 ^ 28"

definition is_bit :: "nat \<Rightarrow> int \<Rightarrow> bool" where
  "is_bit n x \<longleftrightarrow> take_bit n x = 0 \<or> take_bit n x = 1"

definition arm_condition :: "int \<Rightarrow> nzcv \<Rightarrow> bool" where
  "arm_condition cond f =
     (if cond div 2 = 7 then True
      else odd cond \<noteq>
       (if cond div 2 = 0 then Z_flag f
        else if cond div 2 = 1 then C_flag f
        else if cond div 2 = 2 then N_flag f
        else if cond div 2 = 3 then V_flag f
        else if cond div 2 = 4 then C_flag f \<and> \<not> Z_flag f
        else if cond div 2 = 5 then N_flag f = V_flag f
        else \<not> Z_flag f \<and> N_flag f = V_flag f))"

text \<open>The flags that ARM and AArch64 specify for an operation on the three dependencies.\<close>

definition arm32_spec :: "int \<Rightarrow> int \<Rightarrow> int \<Rightarrow> int \<Rightarrow> nzcv option" where
  "arm32_spec op a b c =
     (if op = 0 then Some (nzcv_of_word a)
      else if op = 1 then Some (arm_add 32 a b 0)
      else if op = 2 then Some (arm_sub 32 a b 1)
      else if op = 3 then (if is_bit 32 c then Some (arm_add 32 a b (take_bit 32 c)) else None)
      else if op = 4 then (if is_bit 32 c then Some (arm_sub 32 a b (take_bit 32 c)) else None)
      else if op = 5 then (if is_bit 32 b \<and> is_bit 32 c then Some (arm_result 32 a (odd b) (odd c)) else None)
      else if op = 6 then Some (arm_result 32 a (bit c 1) (bit c 0))
      else if op = 7 then
        Some \<lparr>N_flag = bit b 31, Z_flag = (take_bit 32 a = 0 \<and> take_bit 32 b = 0), C_flag = bit c 1, V_flag = bit c 0\<rparr>
      else None)"

definition arm64_spec :: "int \<Rightarrow> int \<Rightarrow> int \<Rightarrow> int \<Rightarrow> nzcv option" where
  "arm64_spec op a b c =
     (let n = (if odd op then 32 else 64) in
      if op = 0 then Some (nzcv_of_word a)
      else if op \<in> {1, 2} then Some (arm_add n a b 0)
      else if op \<in> {3, 4} then Some (arm_sub n a b 1)
      else if op \<in> {5, 6} then (if is_bit n c then Some (arm_add n a b (take_bit n c)) else None)
      else if op \<in> {7, 8} then (if is_bit n c then Some (arm_sub n a b (take_bit n c)) else None)
      else if op \<in> {9, 10} then Some (arm_result n a False False)
      else None)"

section \<open>The flags of a width\<close>

lemma top_shift:
  assumes "0 < n"
  shows "cl_LShR (W n r) (lit (int n - 1)) = W n (of_bool (bit r (n - 1)))"
proof -
  have "n - (n - 1) = 1" using assms by simp
  then have "drop_bit (n - 1) (take_bit n r) = take_bit 1 (drop_bit (n - 1) r)"
    by (simp only: drop_bit_take_bit)
  also have "\<dots> = of_bool (bit r (n - 1))"
    by (simp add: take_bit_Suc mod_2_eq_odd bit_iff_odd_drop_bit)
  finally have "drop_bit (n - 1) (take_bit n r) = of_bool (bit r (n - 1))" .
  then show ?thesis using assms shift_count [OF assms] by (simp add: bv_simps)
qed

lemma v_add_W:
  assumes "0 < n" and "c = 0 \<or> c = (1 :: int)"
  shows "cl_LShR (cl_and (cl_xor (W n (a + b + c)) (W n a)) (cl_xor (W n (a + b + c)) (W n b))) (lit (int n - 1)) =
           W n (of_bool (V_flag (arm_add n a b c)))"
  using assms(1) by (simp only: cl_bitwise_W top_shift overflow_bit [OF assms] arm_add_def nzcv.simps)

lemma v_sub_W:
  assumes "0 < n" and "c = 0 \<or> c = (1 :: int)"
  shows "cl_LShR (cl_and (cl_xor (W n a) (W n b)) (cl_xor (W n a) (W n (a - b - (1 - c))))) (lit (int n - 1)) =
           W n (of_bool (V_flag (arm_sub n a b c)))"
proof -
  have "1 - c = 0 \<or> 1 - c = 1" using assms(2) by auto
  then show ?thesis
    using assms(1) by (simp only: cl_bitwise_W top_shift overflow_bit arm_sub_def nzcv.simps)
qed

lemma n_W:
  assumes "0 < n"
  shows "cl_LShR (W n (a + b + c)) (lit (int n - 1)) = W n (of_bool (N_flag (arm_add n a b c)))"
    and "cl_LShR (W n (a - b - (1 - c))) (lit (int n - 1)) = W n (of_bool (N_flag (arm_sub n a b c)))"
    and "cl_LShR (W n r) (lit (int n - 1)) = W n (of_bool (N_flag (arm_result n r p q)))"
  using assms by (simp_all only: top_shift negative_iff arm_add_def arm_sub_def arm_result_def nzcv.simps)

lemma c_add_W:
  assumes "0 < n" and "0 \<le> m" and "c = 0 \<or> c = (1 :: int)"
  shows "(if c = 0 then boolean_extend cl_ULT (W n (a + b + c)) (W n a) m
          else boolean_extend cl_ULE (W n (a + b + c)) (W n a) m) =
         W (nat m) (of_bool (C_flag (arm_add n a b c)))"
  using assms carry_iff [OF assms(3), of n a b] by (auto simp: boolean_extend_def bv_simps arm_add_def)

lemma c_sub_W:
  assumes "0 < n" and "0 \<le> m" and "c = 0 \<or> c = (1 :: int)"
  shows "(if c = 1 then boolean_extend cl_UGE (W n a) (W n b) m
          else boolean_extend cl_UGT (W n a) (W n b) m) =
         W (nat m) (of_bool (C_flag (arm_sub n a b c)))"
  using assms by (auto simp: boolean_extend_def bv_simps arm_sub_def)

section \<open>The contract of the four flag functions\<close>

lemma xor_low_bit:
  assumes "0 < m" and "i = 0 \<or> i = (1 :: int)"
  shows "cl_xor (lit i) (W m (of_bool P)) = W m (of_bool (odd i \<noteq> P))"
  using assms by (auto simp: bv_simps)

locale nzcv_flags =
  fixes flag_n flag_z flag_c flag_v :: "val \<Rightarrow> val \<Rightarrow> val \<Rightarrow> val \<Rightarrow> val"
    and m :: nat
    and spec :: "int \<Rightarrow> int \<Rightarrow> int \<Rightarrow> int \<Rightarrow> nzcv option"
  assumes n_spec: "spec op a b c = Some f \<Longrightarrow> op_concretize cc_op = Inr op \<Longrightarrow>
      flag_n cc_op (W m a) (W m b) (W m c) = W m (of_bool (N_flag f))"
    and z_spec: "spec op a b c = Some f \<Longrightarrow> op_concretize cc_op = Inr op \<Longrightarrow>
      flag_z cc_op (W m a) (W m b) (W m c) = W m (of_bool (Z_flag f))"
    and c_spec: "spec op a b c = Some f \<Longrightarrow> op_concretize cc_op = Inr op \<Longrightarrow>
      flag_c cc_op (W m a) (W m b) (W m c) = W m (of_bool (C_flag f))"
    and v_spec: "spec op a b c = Some f \<Longrightarrow> op_concretize cc_op = Inr op \<Longrightarrow>
      flag_v cc_op (W m a) (W m b) (W m c) = W m (of_bool (V_flag f))"
    and wide: "32 \<le> m"
begin

lemma packing:
  assumes "spec op a b c = Some f" and "op_concretize cc_op = Inr op"
  shows "bind_res (flag_n cc_op (W m a) (W m b) (W m c)) (\<lambda>n.
         bind_res (flag_z cc_op (W m a) (W m b) (W m c)) (\<lambda>z.
         bind_res (flag_c cc_op (W m a) (W m b) (W m c)) (\<lambda>c'.
         bind_res (flag_v cc_op (W m a) (W m b) (W m c)) (\<lambda>v.
         concat_flags (int m)
           [(31, cl_Extract 0 0 (Inr n)), (30, cl_Extract 0 0 (Inr z)),
            (29, cl_Extract 0 0 (Inr c')), (28, cl_Extract 0 0 (Inr v))])))) =
         W m (nzcv_word f)"
proof -
  let ?vec = "[(31, N_flag f), (30, Z_flag f), (29, C_flag f), (28, V_flag f)] :: (int \<times> bool) list"
  have low: "cl_Extract 0 0 (W m (of_bool P)) = flag P" for P
    using cl_bit_W [of 0 m "of_bool P"] wide by (simp add: cl_bit_def bit_0)
  have "descending (int m) ?vec" using wide by simp
  from concat_flags_packed [OF this refl] show ?thesis
    unfolding n_spec [OF assms] z_spec [OF assms] c_spec [OF assms] v_spec [OF assms] bind_res_Inr low
    by (simp only: list.map prod.case packed_simps nzcv_word_def nat_numeral add.assoc add_0_right)
qed

lemma conditions:
  assumes s: "spec op a b c = Some f" and i: "i = 0 \<or> i = (1 :: int)"
  defines "F \<equiv> \<lambda>g. g (lit op) (W m a) (W m b) (W m c)"
  shows "cl_xor (lit i) (F flag_z) = W m (of_bool (odd i \<noteq> Z_flag f))"
    and "cl_xor (lit i) (F flag_c) = W m (of_bool (odd i \<noteq> C_flag f))"
    and "cl_xor (lit i) (F flag_n) = W m (of_bool (odd i \<noteq> N_flag f))"
    and "cl_xor (lit i) (F flag_v) = W m (of_bool (odd i \<noteq> V_flag f))"
    and "cl_xor (lit i) (cl_and (F flag_c) (cl_not (F flag_z))) =
           W m (of_bool (odd i \<noteq> (C_flag f \<and> \<not> Z_flag f)))"
    and "cl_xor (lit i) (cl_and (lit 1) (cl_and (F flag_c) (cl_not (F flag_z)))) =
           W m (of_bool (odd i \<noteq> (C_flag f \<and> \<not> Z_flag f)))"
    and "cl_xor (lit i) (cl_and (lit 1) (cl_not (cl_xor (F flag_n) (F flag_v)))) =
           W m (of_bool (odd i \<noteq> (N_flag f = V_flag f)))"
    and "cl_xor (lit i) (cl_and (lit 1) (cl_not (cl_or (F flag_z) (cl_xor (F flag_n) (F flag_v))))) =
           W m (of_bool (odd i \<noteq> (\<not> Z_flag f \<and> N_flag f = V_flag f)))"
proof -
  have m: "0 < m" using wide by simp
  have F: "F flag_n = W m (of_bool (N_flag f))" "F flag_z = W m (of_bool (Z_flag f))"
    "F flag_c = W m (of_bool (C_flag f))" "F flag_v = W m (of_bool (V_flag f))"
    unfolding F_def by (simp_all add: n_spec [OF s] z_spec [OF s] c_spec [OF s] v_spec [OF s])
  have hi: "cl_and (W m (of_bool P)) (cl_not (W m (of_bool Q))) = W m (of_bool (P \<and> \<not> Q))" for P Q
    using m by (cases P; cases Q; simp add: bv_simps one_and_eq mod_2_eq_odd)
  have eq: "cl_and (lit 1) (cl_not (cl_xor (W m (of_bool P)) (W m (of_bool Q)))) = W m (of_bool (P = Q))" for P Q
    using m by (cases P; cases Q; simp add: bv_simps one_and_eq mod_2_eq_odd)
  have gt: "cl_and (lit 1) (cl_not (cl_or (W m (of_bool R)) (cl_xor (W m (of_bool P)) (W m (of_bool Q))))) =
      W m (of_bool (\<not> R \<and> P = Q))" for P Q R
    using m by (cases P; cases Q; cases R; simp add: bv_simps one_and_eq mod_2_eq_odd)
  have one: "cl_and (lit 1) (W m (of_bool P)) = W m (of_bool P)" for P
    using m by (cases P; simp add: bv_simps)
  note x = xor_low_bit [OF m i]
  show "cl_xor (lit i) (F flag_z) = W m (of_bool (odd i \<noteq> Z_flag f))"
    and "cl_xor (lit i) (F flag_c) = W m (of_bool (odd i \<noteq> C_flag f))"
    and "cl_xor (lit i) (F flag_n) = W m (of_bool (odd i \<noteq> N_flag f))"
    and "cl_xor (lit i) (F flag_v) = W m (of_bool (odd i \<noteq> V_flag f))"
    and "cl_xor (lit i) (cl_and (F flag_c) (cl_not (F flag_z))) =
           W m (of_bool (odd i \<noteq> (C_flag f \<and> \<not> Z_flag f)))"
    and "cl_xor (lit i) (cl_and (lit 1) (cl_and (F flag_c) (cl_not (F flag_z)))) =
           W m (of_bool (odd i \<noteq> (C_flag f \<and> \<not> Z_flag f)))"
    and "cl_xor (lit i) (cl_and (lit 1) (cl_not (cl_xor (F flag_n) (F flag_v)))) =
           W m (of_bool (odd i \<noteq> (N_flag f = V_flag f)))"
    and "cl_xor (lit i) (cl_and (lit 1) (cl_not (cl_or (F flag_z) (cl_xor (F flag_n) (F flag_v))))) =
           W m (of_bool (odd i \<noteq> (\<not> Z_flag f \<and> N_flag f = V_flag f)))"
    unfolding F hi eq gt one by (rule x)+
qed

end

section \<open>ARM\<close>

lemma copy_bit:
  assumes "0 \<le> k" and "nat k < m"
  shows "cl_and (cl_LShR (W m a) (lit k)) (lit 1) = W m (of_bool (bit a (nat k)))"
proof -
  have "k < 2 ^ m" using nat_lt_pow [of m] assms by linarith
  then have "take_bit m k = k" using assms by (simp add: take_bit_int_eq_self)
  then show ?thesis
    using assms by (simp add: bv_simps and_1_of_bool bit_take_bit_iff flip: bit_iff_odd_drop_bit)
qed

lemma zerobit_W:
  assumes "0 < n" and "0 \<le> k"
  shows "cl_zero_extend k (calc_zerobit (W n r)) = W (nat k + 1) (of_bool (take_bit n r = 0))"
  using assms by (simp add: bv_simps flag_simps)

lemma W_is_bit: "W n c = W n (take_bit n c)"
  by simp

lemma carry_complement:
  assumes "0 < n" and "t = 0 \<or> t = (1 :: int)"
  shows "cl_xor (W n t) (lit 1) = W n (1 - t)"
  using assms by (auto simp: bv_simps)

lemma odd_is_bit: "0 < n \<Longrightarrow> is_bit n x \<Longrightarrow> of_bool (odd x) = take_bit n x"
  by (cases "even x") (auto simp: is_bit_def dest: arg_cong [where f = even] simp: even_take_bit_eq)

text \<open>The flags of a sum and of a difference at one width, with the carry that comes in.\<close>

lemmas carry_in_ops = cl_ring_W carry_complement

lemma add_ops:
  assumes n: "0 < n" and t: "t = 0 \<or> t = (1 :: int)"
  shows "cl_add (cl_add (W n a) (W n b)) (W n t) = W n (a + b + t)"
    and "cl_sub (cl_sub (W n a) (W n b)) (cl_xor (W n t) (lit 1)) = W n (a - b - (1 - t))"
    and "cl_add (W n a) (W n b) = W n (a + b + 0)"
    and "cl_sub (W n a) (W n b) = W n (a - b - (1 - 1))"
    and "cl_ne (W n t) (lit 0) = Inr (t = 1)"
  using n t by (auto simp: carry_in_ops bv_simps)

lemmas arm_consts = ARMG_CC_OP_COPY_def ARMG_CC_OP_ADD_def ARMG_CC_OP_SUB_def ARMG_CC_OP_ADC_def
  ARMG_CC_OP_SBB_def ARMG_CC_OP_LOGIC_def ARMG_CC_OP_MUL_def ARMG_CC_OP_MULL_def
  ARMG_CC_SHIFT_N_def ARMG_CC_SHIFT_Z_def ARMG_CC_SHIFT_C_def ARMG_CC_SHIFT_V_def

lemma arm32_spec_cases:
  assumes "arm32_spec op a b c = Some f"
  obtains "op = 0" "f = nzcv_of_word a" | "op = 1" "f = arm_add 32 a b 0" | "op = 2" "f = arm_sub 32 a b 1"
    | t where "op = 3" "f = arm_add 32 a b t" "t = 0 \<or> t = 1" "W 32 c = W 32 t"
    | t where "op = 4" "f = arm_sub 32 a b t" "t = 0 \<or> t = 1" "W 32 c = W 32 t"
    | "op = 5" "f = arm_result 32 a (odd b) (odd c)" "W 32 b = W 32 (of_bool (odd b))" "W 32 c = W 32 (of_bool (odd c))"
    | "op = 6" "f = arm_result 32 a (bit c 1) (bit c 0)"
    | "op = 7" "f = \<lparr>N_flag = bit b 31, Z_flag = (take_bit 32 a = 0 \<and> take_bit 32 b = 0), C_flag = bit c 1, V_flag = bit c 0\<rparr>"
proof -
  have b: "W 32 x = W 32 (of_bool (odd x))" if "is_bit 32 x" for x
    using that odd_is_bit [of 32 x] by (simp add: bvv_eq_iff)
  have t: "take_bit 32 x = 0 \<or> take_bit 32 x = 1" if "is_bit 32 x" for x using that by (simp add: is_bit_def)
  have "op = 0 \<or> op = 1 \<or> op = 2 \<or> op = 3 \<or> op = 4 \<or> op = 5 \<or> op = 6 \<or> op = 7"
    by (rule ccontr) (use assms in \<open>simp add: arm32_spec_def\<close>)
  then consider "op = 0" | "op = 1" | "op = 2" | "op = 3" | "op = 4" | "op = 5" | "op = 6" | "op = 7" by blast
  then show ?thesis
  proof cases
    case 4
    then have "is_bit 32 c" "f = arm_add 32 a b (take_bit 32 c)"
      using assms by (simp_all add: arm32_spec_def split: if_splits)
    with 4 that(4) t W_is_bit [of 32 c] show ?thesis by blast
  next
    case 5
    then have "is_bit 32 c" "f = arm_sub 32 a b (take_bit 32 c)"
      using assms by (simp_all add: arm32_spec_def split: if_splits)
    with 5 that(5) t W_is_bit [of 32 c] show ?thesis by blast
  next
    case 6
    then have "is_bit 32 b" "is_bit 32 c" "f = arm_result 32 a (odd b) (odd c)"
      using assms by (simp_all add: arm32_spec_def split: if_splits)
    with 6 that(6) b show ?thesis by blast
  qed (use assms that(1-3,7,8) in \<open>simp_all add: arm32_spec_def\<close>)
qed

lemma armg_n:
  assumes "arm32_spec op a b c = Some f" and "op_concretize cc_op = Inr op"
  shows "armg_calculate_flag_n cc_op (W 32 a) (W 32 b) (W 32 c) = W 32 (of_bool (N_flag f))"
  using assms(1)
proof (cases rule: arm32_spec_cases)
  case 1
  then show ?thesis using assms(2) copy_bit [of 31 32 a]
    by (simp add: armg_calculate_flag_n_def arm_consts nzcv_of_word_def)
next
  case (4 t)
  then show ?thesis using assms(2) add_ops(1-4) [of 32 t a b] n_W(1) [of 32 a b t]
    by (simp add: armg_calculate_flag_n_def arm_consts)
next
  case (5 t)
  then show ?thesis using assms(2) add_ops(1-4) [of 32 t a b] n_W(2) [of 32 a b t]
    by (simp add: armg_calculate_flag_n_def arm_consts)
next
  case 8
  then show ?thesis using assms(2) top_shift [of 32 b]
    by (simp add: armg_calculate_flag_n_def arm_consts)
qed (use assms(2) add_ops(1-4) [of 32 0 a b] n_W(1) [of 32 a b 0] n_W(2) [of 32 a b 1] n_W(3) [of 32 a]
    in \<open>simp_all add: armg_calculate_flag_n_def arm_consts\<close>)

lemma z_W:
  assumes "0 < n" and "0 \<le> k"
  shows "cl_zero_extend k (calc_zerobit (W n (a + b + t))) = W (nat k + 1) (of_bool (Z_flag (arm_add n a b t)))"
    and "cl_zero_extend k (calc_zerobit (W n (a - b - (1 - t)))) = W (nat k + 1) (of_bool (Z_flag (arm_sub n a b t)))"
    and "cl_zero_extend k (calc_zerobit (W n r)) = W (nat k + 1) (of_bool (Z_flag (arm_result n r p q)))"
  using assms by (simp_all only: zerobit_W arm_add_def arm_sub_def arm_result_def nzcv.simps)

lemma armg_z:
  assumes "arm32_spec op a b c = Some f" and "op_concretize cc_op = Inr op"
  shows "armg_calculate_flag_z cc_op (W 32 a) (W 32 b) (W 32 c) = W 32 (of_bool (Z_flag f))"
  using assms(1)
proof (cases rule: arm32_spec_cases)
  case 1
  then show ?thesis using assms(2) copy_bit [of 30 32 a]
    by (simp add: armg_calculate_flag_z_def arm_consts nzcv_of_word_def)
next
  case (4 t)
  then show ?thesis using assms(2) add_ops(1-4) [of 32 t a b] z_W(1) [of 32 31 a b t]
    by (simp add: armg_calculate_flag_z_def arm_consts arm_zerobit_def)
next
  case (5 t)
  then show ?thesis using assms(2) add_ops(1-4) [of 32 t a b] z_W(2) [of 32 31 a b t]
    by (simp add: armg_calculate_flag_z_def arm_consts arm_zerobit_def)
next
  case 8
  have "take_bit 32 (a OR b) = 0 \<longleftrightarrow> take_bit 32 a = 0 \<and> take_bit 32 b = 0"
    by (simp add: or_eq_0_iff)
  then show ?thesis using 8 assms(2) zerobit_W [of 32 31 "a OR b"]
    by (simp add: armg_calculate_flag_z_def arm_consts arm_zerobit_def cl_bitwise_W)
qed (use assms(2) add_ops(1-4) [of 32 0 a b] z_W(1) [of 32 31 a b 0] z_W(2) [of 32 31 a b 1] z_W(3) [of 32 31 a]
    in \<open>simp_all add: armg_calculate_flag_z_def arm_consts arm_zerobit_def\<close>)

lemma armg_c:
  assumes "arm32_spec op a b c = Some f" and "op_concretize cc_op = Inr op"
  shows "armg_calculate_flag_c cc_op (W 32 a) (W 32 b) (W 32 c) = W 32 (of_bool (C_flag f))"
  using assms(1)
proof (cases rule: arm32_spec_cases)
  case 1
  then show ?thesis using assms(2) copy_bit [of 29 32 a]
    by (simp add: armg_calculate_flag_c_def arm_consts nzcv_of_word_def)
next
  case (4 t)
  then show ?thesis using assms(2) add_ops(1) [of 32 t a b] add_ops(5) [of 32 t] c_add_W [of 32 32 t a b]
    by (auto simp: armg_calculate_flag_c_def arm_consts boolean_extend_def bv_simps)
next
  case (5 t)
  then show ?thesis using assms(2) add_ops(5) [of 32 t] c_sub_W [of 32 32 t a b]
    by (auto simp: armg_calculate_flag_c_def arm_consts boolean_extend_def bv_simps)
next
  case 6
  then show ?thesis using assms(2) by (simp add: armg_calculate_flag_c_def arm_consts arm_result_def)
qed (use assms(2) add_ops(1-4) [of 32 0 a b] c_add_W [of 32 32 0 a b] c_sub_W [of 32 32 1 a b] copy_bit [of 1 32 c]
    in \<open>simp_all add: armg_calculate_flag_c_def arm_consts arm_result_def\<close>)

lemma armg_v:
  assumes "arm32_spec op a b c = Some f" and "op_concretize cc_op = Inr op"
  shows "armg_calculate_flag_v cc_op (W 32 a) (W 32 b) (W 32 c) = W 32 (of_bool (V_flag f))"
  using assms(1)
proof (cases rule: arm32_spec_cases)
  case 1
  then show ?thesis using assms(2) copy_bit [of 28 32 a]
    by (simp add: armg_calculate_flag_v_def arm_consts nzcv_of_word_def)
next
  case 2
  have "cl_add (W 32 a) (W 32 b) = W 32 (a + b + 0)" by (rule add_ops(3) [where t = 0]) simp_all
  then show ?thesis using 2 assms(2) v_add_W [of 32 0 a b]
    by (simp only: armg_calculate_flag_v_def arm_consts) simp
next
  case 3
  have "cl_sub (W 32 a) (W 32 b) = W 32 (a - b - (1 - 1))" by (rule add_ops(4) [where t = 0]) simp_all
  then show ?thesis using 3 assms(2) v_sub_W [of 32 1 a b]
    by (simp only: armg_calculate_flag_v_def arm_consts) simp
next
  case (4 t)
  have "cl_add (cl_add (W 32 a) (W 32 b)) (W 32 t) = W 32 (a + b + t)" using 4 by (intro add_ops) simp_all
  then show ?thesis using 4 assms(2) v_add_W [of 32 t a b]
    by (simp add: armg_calculate_flag_v_def arm_consts)
next
  case (5 t)
  have "cl_sub (cl_sub (W 32 a) (W 32 b)) (cl_xor (W 32 t) (lit 1)) = W 32 (a - b - (1 - t))"
    using 5 by (intro add_ops) simp_all
  then show ?thesis using 5 assms(2) v_sub_W [of 32 t a b]
    by (simp add: armg_calculate_flag_v_def arm_consts)
next
  case 6
  then show ?thesis using assms(2) by (simp add: armg_calculate_flag_v_def arm_consts arm_result_def)
qed (use assms(2) in \<open>simp_all add: armg_calculate_flag_v_def arm_consts arm_result_def bv_simps and_1_of_bool bit_0\<close>)

interpretation arm: nzcv_flags armg_calculate_flag_n armg_calculate_flag_z armg_calculate_flag_c
  armg_calculate_flag_v 32 arm32_spec
  by unfold_locales (simp_all add: armg_n armg_z armg_c armg_v)

section \<open>AArch64\<close>

lemmas arm64_consts = ARM64G_CC_OP_COPY_def ARM64G_CC_OP_ADD32_def ARM64G_CC_OP_ADD64_def
  ARM64G_CC_OP_SUB32_def ARM64G_CC_OP_SUB64_def ARM64G_CC_OP_ADC32_def ARM64G_CC_OP_ADC64_def
  ARM64G_CC_OP_SBC32_def ARM64G_CC_OP_SBC64_def ARM64G_CC_OP_LOGIC32_def ARM64G_CC_OP_LOGIC64_def
  ARM64G_CC_SHIFT_N_def ARM64G_CC_SHIFT_Z_def ARM64G_CC_SHIFT_C_def ARM64G_CC_SHIFT_V_def

lemma u64_to_u32_W [simp]: "u64_to_u32 (W 64 x) = W 32 x"
  by (simp add: u64_to_u32_def bv_simps bvv_eq_iff min_def)

lemma widen_flag_W [simp]:
  "widen_flag (W 32 (of_bool P)) = W 64 (of_bool P)" "widen_flag (W 64 x) = W 64 x"
  by (simp_all add: widen_flag_def bv_simps)

lemma slice_32_W [simp]: "cl_slice (Some 31) (Some 0) (W 32 x) = W 32 x"
  by (simp add: bv_simps)

lemma extend_flag_W [simp]: "cl_zero_extend 32 (W 32 (of_bool P)) = W 64 (of_bool P)"
  by (simp add: bv_simps)

lemma truncate_W:
  "op \<in> {1, 3} \<Longrightarrow> arm64g_32bit_truncate_operands op (W 64 a) (W 64 b) (W 64 c) = (W 32 a, W 32 b, W 64 c)"
  "op \<in> {5, 7} \<Longrightarrow> arm64g_32bit_truncate_operands op (W 64 a) (W 64 b) (W 64 c) = (W 32 a, W 32 b, W 32 c)"
  "op = 9 \<Longrightarrow> arm64g_32bit_truncate_operands op (W 64 a) (W 64 b) (W 64 c) = (W 32 a, W 64 b, W 64 c)"
  "op \<in> {0, 2, 4, 6, 8, 10} \<Longrightarrow>
     arm64g_32bit_truncate_operands op (W 64 a) (W 64 b) (W 64 c) = (W 64 a, W 64 b, W 64 c)"
  by (auto simp: arm64g_32bit_truncate_operands_def arm64_consts)

lemma arm64_spec_cases:
  assumes "arm64_spec op a b c = Some f"
  obtains "op = 0" "f = nzcv_of_word a" | "op = 1" "f = arm_add 32 a b 0" | "op = 2" "f = arm_add 64 a b 0"
    | "op = 3" "f = arm_sub 32 a b 1" | "op = 4" "f = arm_sub 64 a b 1"
    | t where "op = 5" "f = arm_add 32 a b t" "t = 0 \<or> t = 1" "W 32 c = W 32 t"
    | t where "op = 6" "f = arm_add 64 a b t" "t = 0 \<or> t = 1" "W 64 c = W 64 t"
    | t where "op = 7" "f = arm_sub 32 a b t" "t = 0 \<or> t = 1" "W 32 c = W 32 t"
    | t where "op = 8" "f = arm_sub 64 a b t" "t = 0 \<or> t = 1" "W 64 c = W 64 t"
    | "op = 9" "f = arm_result 32 a False False" | "op = 10" "f = arm_result 64 a False False"
proof -
  have t: "take_bit n c = 0 \<or> take_bit n c = 1" if "is_bit n c" for n using that by (simp add: is_bit_def)
  have "op = 0 \<or> op = 1 \<or> op = 2 \<or> op = 3 \<or> op = 4 \<or> op = 5 \<or> op = 6 \<or> op = 7 \<or> op = 8 \<or> op = 9 \<or> op = 10"
    by (rule ccontr) (use assms in \<open>simp add: arm64_spec_def\<close>)
  then consider "op = 0" | "op = 1" | "op = 2" | "op = 3" | "op = 4" | "op = 5" | "op = 6" | "op = 7"
    | "op = 8" | "op = 9" | "op = 10" by blast
  then show ?thesis
  proof cases
    case 6
    then have "is_bit 32 c" "f = arm_add 32 a b (take_bit 32 c)"
      using assms by (simp_all add: arm64_spec_def split: if_splits)
    with 6 that(6) t W_is_bit [of 32 c] show ?thesis by blast
  next
    case 7
    then have "is_bit 64 c" "f = arm_add 64 a b (take_bit 64 c)"
      using assms by (simp_all add: arm64_spec_def split: if_splits)
    with 7 that(7) t W_is_bit [of 64 c] show ?thesis by blast
  next
    case 8
    then have "is_bit 32 c" "f = arm_sub 32 a b (take_bit 32 c)"
      using assms by (simp_all add: arm64_spec_def split: if_splits)
    with 8 that(8) t W_is_bit [of 32 c] show ?thesis by blast
  next
    case 9
    then have "is_bit 64 c" "f = arm_sub 64 a b (take_bit 64 c)"
      using assms by (simp_all add: arm64_spec_def split: if_splits)
    with 9 that(9) t W_is_bit [of 64 c] show ?thesis by blast
  qed (use assms that(1-5,10,11) in \<open>simp_all add: arm64_spec_def\<close>)
qed

lemma arm64g_n:
  assumes "arm64_spec op a b c = Some f" and "op_concretize cc_op = Inr op"
  shows "arm64g_calculate_flag_n cc_op (W 64 a) (W 64 b) (W 64 c) = W 64 (of_bool (N_flag f))"
  using assms(1)
proof (cases rule: arm64_spec_cases)
  case 1
  then show ?thesis using assms(2) copy_bit [of 31 64 a]
    by (simp add: arm64g_calculate_flag_n_def truncate_W arm64_consts nzcv_of_word_def)
next
  case 2
  have "cl_add (W 32 a) (W 32 b) = W 32 (a + b + 0)" using 2 by (intro add_ops(3) [where t = 0]) simp_all
  then show ?thesis using 2 assms(2) n_W(1) [of 32 a b 0]
    by (simp add: arm64g_calculate_flag_n_def truncate_W arm64_consts)
next
  case 3
  have "cl_add (W 64 a) (W 64 b) = W 64 (a + b + 0)" using 3 by (intro add_ops(3) [where t = 0]) simp_all
  then show ?thesis using 3 assms(2) n_W(1) [of 64 a b 0]
    by (simp add: arm64g_calculate_flag_n_def truncate_W arm64_consts)
next
  case 4
  have "cl_sub (W 32 a) (W 32 b) = W 32 (a - b - (1 - 1))" using 4 by (intro add_ops(4) [where t = 0]) simp_all
  then show ?thesis using 4 assms(2) n_W(2) [of 32 a b 1]
    by (simp add: arm64g_calculate_flag_n_def truncate_W arm64_consts)
next
  case 5
  have "cl_sub (W 64 a) (W 64 b) = W 64 (a - b - (1 - 1))" using 5 by (intro add_ops(4) [where t = 0]) simp_all
  then show ?thesis using 5 assms(2) n_W(2) [of 64 a b 1]
    by (simp add: arm64g_calculate_flag_n_def truncate_W arm64_consts)
next
  case (6 t)
  have "cl_add (cl_add (W 32 a) (W 32 b)) (W 32 t) = W 32 (a + b + t)" using 6 by (intro add_ops(1)) simp_all
  then show ?thesis using 6 assms(2) n_W(1) [of 32 a b t]
    by (simp add: arm64g_calculate_flag_n_def truncate_W arm64_consts)
next
  case (7 t)
  have "cl_add (cl_add (W 64 a) (W 64 b)) (W 64 t) = W 64 (a + b + t)" using 7 by (intro add_ops(1)) simp_all
  then show ?thesis using 7 assms(2) n_W(1) [of 64 a b t]
    by (simp add: arm64g_calculate_flag_n_def truncate_W arm64_consts)
next
  case (8 t)
  have "cl_sub (cl_sub (W 32 a) (W 32 b)) (cl_xor (W 32 t) (lit 1)) = W 32 (a - b - (1 - t))" using 8 by (intro add_ops(2)) simp_all
  then show ?thesis using 8 assms(2) n_W(2) [of 32 a b t]
    by (simp add: arm64g_calculate_flag_n_def truncate_W arm64_consts)
next
  case (9 t)
  have "cl_sub (cl_sub (W 64 a) (W 64 b)) (cl_xor (W 64 t) (lit 1)) = W 64 (a - b - (1 - t))" using 9 by (intro add_ops(2)) simp_all
  then show ?thesis using 9 assms(2) n_W(2) [of 64 a b t]
    by (simp add: arm64g_calculate_flag_n_def truncate_W arm64_consts)
qed (use assms(2) top_shift [of 32 a] top_shift [of 64 a] in \<open>simp_all add: arm64g_calculate_flag_n_def truncate_W arm64_consts arm_result_def bv_simps\<close>)

lemma arm64g_z:
  assumes "arm64_spec op a b c = Some f" and "op_concretize cc_op = Inr op"
  shows "arm64g_calculate_flag_z cc_op (W 64 a) (W 64 b) (W 64 c) = W 64 (of_bool (Z_flag f))"
  using assms(1)
proof (cases rule: arm64_spec_cases)
  case 1
  then show ?thesis using assms(2) copy_bit [of 30 64 a]
    by (simp add: arm64g_calculate_flag_z_def truncate_W arm64_consts nzcv_of_word_def)
next
  case 2
  have "cl_add (W 32 a) (W 32 b) = W 32 (a + b + 0)" using 2 by (intro add_ops(3) [where t = 0]) simp_all
  then show ?thesis using 2 assms(2) z_W(1) [of 32 63 a b 0]
    by (simp add: arm64g_calculate_flag_z_def truncate_W arm64_consts arm64_zerobit_def)
next
  case 3
  have "cl_add (W 64 a) (W 64 b) = W 64 (a + b + 0)" using 3 by (intro add_ops(3) [where t = 0]) simp_all
  then show ?thesis using 3 assms(2) z_W(1) [of 64 63 a b 0]
    by (simp add: arm64g_calculate_flag_z_def truncate_W arm64_consts arm64_zerobit_def)
next
  case 4
  have "cl_sub (W 32 a) (W 32 b) = W 32 (a - b - (1 - 1))" using 4 by (intro add_ops(4) [where t = 0]) simp_all
  then show ?thesis using 4 assms(2) z_W(2) [of 32 63 a b 1]
    by (simp add: arm64g_calculate_flag_z_def truncate_W arm64_consts arm64_zerobit_def)
next
  case 5
  have "cl_sub (W 64 a) (W 64 b) = W 64 (a - b - (1 - 1))" using 5 by (intro add_ops(4) [where t = 0]) simp_all
  then show ?thesis using 5 assms(2) z_W(2) [of 64 63 a b 1]
    by (simp add: arm64g_calculate_flag_z_def truncate_W arm64_consts arm64_zerobit_def)
next
  case (6 t)
  have "cl_add (cl_add (W 32 a) (W 32 b)) (W 32 t) = W 32 (a + b + t)" using 6 by (intro add_ops(1)) simp_all
  then show ?thesis using 6 assms(2) z_W(1) [of 32 63 a b t]
    by (simp add: arm64g_calculate_flag_z_def truncate_W arm64_consts arm64_zerobit_def)
next
  case (7 t)
  have "cl_add (cl_add (W 64 a) (W 64 b)) (W 64 t) = W 64 (a + b + t)" using 7 by (intro add_ops(1)) simp_all
  then show ?thesis using 7 assms(2) z_W(1) [of 64 63 a b t]
    by (simp add: arm64g_calculate_flag_z_def truncate_W arm64_consts arm64_zerobit_def)
next
  case (8 t)
  have "cl_sub (cl_sub (W 32 a) (W 32 b)) (cl_xor (W 32 t) (lit 1)) = W 32 (a - b - (1 - t))" using 8 by (intro add_ops(2)) simp_all
  then show ?thesis using 8 assms(2) z_W(2) [of 32 63 a b t]
    by (simp add: arm64g_calculate_flag_z_def truncate_W arm64_consts arm64_zerobit_def)
next
  case (9 t)
  have "cl_sub (cl_sub (W 64 a) (W 64 b)) (cl_xor (W 64 t) (lit 1)) = W 64 (a - b - (1 - t))" using 9 by (intro add_ops(2)) simp_all
  then show ?thesis using 9 assms(2) z_W(2) [of 64 63 a b t]
    by (simp add: arm64g_calculate_flag_z_def truncate_W arm64_consts arm64_zerobit_def)
qed (use assms(2) zerobit_W [of 32 63 a] zerobit_W [of 64 63 a] in \<open>simp_all add: arm64g_calculate_flag_z_def truncate_W arm64_consts arm64_zerobit_def arm_result_def bv_simps\<close>)

lemma arm64g_c:
  assumes "arm64_spec op a b c = Some f" and "op_concretize cc_op = Inr op"
  shows "arm64g_calculate_flag_c cc_op (W 64 a) (W 64 b) (W 64 c) = W 64 (of_bool (C_flag f))"
  using assms(1)
proof (cases rule: arm64_spec_cases)
  case 1
  then show ?thesis using assms(2) copy_bit [of 29 64 a]
    by (simp add: arm64g_calculate_flag_c_def truncate_W arm64_consts nzcv_of_word_def)
next
  case 2
  have "cl_add (W 32 a) (W 32 b) = W 32 (a + b + 0)" using 2 by (intro add_ops(3) [where t = 0]) simp_all
  then show ?thesis using 2 assms(2) c_add_W [of 32 64 0 a b]
    by (auto simp: arm64g_calculate_flag_c_def truncate_W arm64_consts  boolean_extend_def bv_simps)
next
  case 3
  have "cl_add (W 64 a) (W 64 b) = W 64 (a + b + 0)" using 3 by (intro add_ops(3) [where t = 0]) simp_all
  then show ?thesis using 3 assms(2) c_add_W [of 64 64 0 a b]
    by (auto simp: arm64g_calculate_flag_c_def truncate_W arm64_consts  boolean_extend_def bv_simps)
next
  case 4
  have "cl_sub (W 32 a) (W 32 b) = W 32 (a - b - (1 - 1))" using 4 by (intro add_ops(4) [where t = 0]) simp_all
  then show ?thesis using 4 assms(2) c_sub_W [of 32 64 1 a b]
    by (auto simp: arm64g_calculate_flag_c_def truncate_W arm64_consts  boolean_extend_def bv_simps)
next
  case 5
  have "cl_sub (W 64 a) (W 64 b) = W 64 (a - b - (1 - 1))" using 5 by (intro add_ops(4) [where t = 0]) simp_all
  then show ?thesis using 5 assms(2) c_sub_W [of 64 64 1 a b]
    by (auto simp: arm64g_calculate_flag_c_def truncate_W arm64_consts  boolean_extend_def bv_simps)
next
  case (6 t)
  have "cl_add (cl_add (W 32 a) (W 32 b)) (W 32 t) = W 32 (a + b + t)" using 6 by (intro add_ops(1)) simp_all
  then show ?thesis using 6 assms(2) add_ops(5) [of 32 t] c_add_W [of 32 64 t a b]
    by (auto simp: arm64g_calculate_flag_c_def truncate_W arm64_consts  boolean_extend_def bv_simps)
next
  case (7 t)
  have "cl_add (cl_add (W 64 a) (W 64 b)) (W 64 t) = W 64 (a + b + t)" using 7 by (intro add_ops(1)) simp_all
  then show ?thesis using 7 assms(2) add_ops(5) [of 64 t] c_add_W [of 64 64 t a b]
    by (auto simp: arm64g_calculate_flag_c_def truncate_W arm64_consts  boolean_extend_def bv_simps)
next
  case (8 t)
  have "cl_sub (cl_sub (W 32 a) (W 32 b)) (cl_xor (W 32 t) (lit 1)) = W 32 (a - b - (1 - t))" using 8 by (intro add_ops(2)) simp_all
  then show ?thesis using 8 assms(2) add_ops(5) [of 32 t] c_sub_W [of 32 64 t a b]
    by (auto simp: arm64g_calculate_flag_c_def truncate_W arm64_consts  boolean_extend_def bv_simps)
next
  case (9 t)
  have "cl_sub (cl_sub (W 64 a) (W 64 b)) (cl_xor (W 64 t) (lit 1)) = W 64 (a - b - (1 - t))" using 9 by (intro add_ops(2)) simp_all
  then show ?thesis using 9 assms(2) add_ops(5) [of 64 t] c_sub_W [of 64 64 t a b]
    by (auto simp: arm64g_calculate_flag_c_def truncate_W arm64_consts  boolean_extend_def bv_simps)
qed (use assms(2) refl in \<open>simp_all add: arm64g_calculate_flag_c_def truncate_W arm64_consts  arm_result_def bv_simps\<close>)

lemma arm64g_v:
  assumes "arm64_spec op a b c = Some f" and "op_concretize cc_op = Inr op"
  shows "arm64g_calculate_flag_v cc_op (W 64 a) (W 64 b) (W 64 c) = W 64 (of_bool (V_flag f))"
  using assms(1)
proof (cases rule: arm64_spec_cases)
  case 1
  then show ?thesis using assms(2) copy_bit [of 28 64 a]
    by (simp add: arm64g_calculate_flag_v_def truncate_W arm64_consts nzcv_of_word_def)
next
  case 2
  have "cl_add (W 32 a) (W 32 b) = W 32 (a + b + 0)" using 2 by (intro add_ops(3) [where t = 0]) simp_all
  then show ?thesis using 2 assms(2) v_add_W [of 32 0 a b]
    by (simp add: arm64g_calculate_flag_v_def truncate_W arm64_consts )
next
  case 3
  have "cl_add (W 64 a) (W 64 b) = W 64 (a + b + 0)" using 3 by (intro add_ops(3) [where t = 0]) simp_all
  then show ?thesis using 3 assms(2) v_add_W [of 64 0 a b]
    by (simp add: arm64g_calculate_flag_v_def truncate_W arm64_consts )
next
  case 4
  have "cl_sub (W 32 a) (W 32 b) = W 32 (a - b - (1 - 1))" using 4 by (intro add_ops(4) [where t = 0]) simp_all
  then show ?thesis using 4 assms(2) v_sub_W [of 32 1 a b]
    by (simp add: arm64g_calculate_flag_v_def truncate_W arm64_consts )
next
  case 5
  have "cl_sub (W 64 a) (W 64 b) = W 64 (a - b - (1 - 1))" using 5 by (intro add_ops(4) [where t = 0]) simp_all
  then show ?thesis using 5 assms(2) v_sub_W [of 64 1 a b]
    by (simp add: arm64g_calculate_flag_v_def truncate_W arm64_consts )
next
  case (6 t)
  have "cl_add (cl_add (W 32 a) (W 32 b)) (W 32 t) = W 32 (a + b + t)" using 6 by (intro add_ops(1)) simp_all
  then show ?thesis using 6 assms(2) v_add_W [of 32 t a b]
    by (simp add: arm64g_calculate_flag_v_def truncate_W arm64_consts )
next
  case (7 t)
  have "cl_add (cl_add (W 64 a) (W 64 b)) (W 64 t) = W 64 (a + b + t)" using 7 by (intro add_ops(1)) simp_all
  then show ?thesis using 7 assms(2) v_add_W [of 64 t a b]
    by (simp add: arm64g_calculate_flag_v_def truncate_W arm64_consts )
next
  case (8 t)
  have "cl_sub (cl_sub (W 32 a) (W 32 b)) (cl_xor (W 32 t) (lit 1)) = W 32 (a - b - (1 - t))" using 8 by (intro add_ops(2)) simp_all
  then show ?thesis using 8 assms(2) v_sub_W [of 32 t a b]
    by (simp add: arm64g_calculate_flag_v_def truncate_W arm64_consts )
next
  case (9 t)
  have "cl_sub (cl_sub (W 64 a) (W 64 b)) (cl_xor (W 64 t) (lit 1)) = W 64 (a - b - (1 - t))" using 9 by (intro add_ops(2)) simp_all
  then show ?thesis using 9 assms(2) v_sub_W [of 64 t a b]
    by (simp add: arm64g_calculate_flag_v_def truncate_W arm64_consts )
qed (use assms(2) refl in \<open>simp_all add: arm64g_calculate_flag_v_def truncate_W arm64_consts  arm_result_def bv_simps\<close>)

interpretation arm64: nzcv_flags arm64g_calculate_flag_n arm64g_calculate_flag_z arm64g_calculate_flag_c
  arm64g_calculate_flag_v 64 arm64_spec
  by unfold_locales (simp_all add: arm64g_n arm64g_z arm64g_c arm64g_v)

section \<open>Conditions and packed flags\<close>

lemma cond_n_op:
  assumes "0 \<le> op" and "op < (16 :: int)"
  shows "drop_bit 4 (16 * cond + op) = cond" "(16 * cond + op) AND 15 = op"
proof -
  show "drop_bit 4 (16 * cond + op) = cond" using assms by (simp add: drop_bit_eq_div)
  have "(16 * cond + op) AND 15 = take_bit 4 (16 * cond + op)"
    using and_exp_minus_1 [of "16 * cond + op" 4] by simp
  then show "(16 * cond + op) AND 15 = op" using assms by (simp add: take_bit_eq_mod)
qed

lemma arm_condition_cases:
  assumes "0 \<le> v" and "v < (15 :: int)"
  obtains "v = 0" | "v = 1" | "v = 2" | "v = 3" | "v = 4" | "v = 5" | "v = 6" | "v = 7" | "v = 8"
    | "v = 9" | "v = 10" | "v = 11" | "v = 12" | "v = 13" | "v = 14"
proof -
  have "v = 0 \<or> v = 1 \<or> v = 2 \<or> v = 3 \<or> v = 4 \<or> v = 5 \<or> v = 6 \<or> v = 7 \<or> v = 8 \<or> v = 9 \<or> v = 10
      \<or> v = 11 \<or> v = 12 \<or> v = 13 \<or> v = 14"
    using assms by presburger
  then show ?thesis using that by blast
qed

lemmas arm_cond_consts = ARMCondEQ_def ARMCondNE_def ARMCondHS_def ARMCondLO_def ARMCondMI_def ARMCondPL_def
  ARMCondVS_def ARMCondVC_def ARMCondHI_def ARMCondLS_def ARMCondGE_def ARMCondLT_def ARMCondGT_def
  ARMCondLE_def ARMCondAL_def

lemmas arm64_cond_consts = ARM64CondEQ_def ARM64CondNE_def ARM64CondCS_def ARM64CondCC_def ARM64CondMI_def
  ARM64CondPL_def ARM64CondVS_def ARM64CondVC_def ARM64CondHI_def ARM64CondLS_def ARM64CondGE_def
  ARM64CondLT_def ARM64CondGT_def ARM64CondLE_def ARM64CondAL_def ARM64CondNV_def

lemma armg_condition:
  assumes "arm32_spec op a b c = Some f" and "0 \<le> cond" and "cond < 15"
    and "op_concretize x = Inr (16 * cond + op)"
  shows "armg_calculate_condition x (W 32 a) (W 32 b) (W 32 c) = W 32 (of_bool (arm_condition cond f))"
proof -
  have "0 \<le> op" "op < 16" using assms(1) by (cases rule: arm32_spec_cases; simp)+
  note op = cond_n_op [OF this, of cond]
  note even = arm.conditions [OF assms(1), where i = 0, simplified] and odd = arm.conditions [OF assms(1), where i = 1, simplified]
  show ?thesis
    unfolding armg_calculate_condition_def assms(4) bind_res_Inr Let_def op
    using assms(2,3)
    by (cases rule: arm_condition_cases)
      (simp_all add: arm_cond_consts arm_condition_def even odd cl_BVV_W)
qed

lemma arm64g_condition:
  assumes "arm64_spec op a b c = Some f" and "0 \<le> cond" and "cond < 16"
    and "op_concretize x = Inr (16 * cond + op)"
  shows "arm64g_calculate_condition x (W 64 a) (W 64 b) (W 64 c) = W 64 (of_bool (arm_condition cond f))"
proof -
  have "0 \<le> op" "op < 16" using assms(1) by (cases rule: arm64_spec_cases; simp)+
  note op = cond_n_op [OF this, of cond]
  note even = arm64.conditions [OF assms(1), where i = 0, simplified] and odd = arm64.conditions [OF assms(1), where i = 1, simplified]
  note start = arm64g_calculate_condition_def assms(4) bind_res_Inr Let_def op
  show ?thesis
  proof (cases "cond = 15")
    case False
    then have "cond < 15" using assms(3) by simp
    with assms(2) show "?thesis"
      unfolding start
      by (cases rule: arm_condition_cases)
        (simp_all add: arm64_cond_consts arm_condition_def even odd cl_BVV_W)
  next
    case True
    then show ?thesis
      unfolding start by (simp add: arm64_cond_consts arm_condition_def cl_BVV_W)
  qed
qed

lemma armg_nzcv:
  assumes "arm32_spec op a b c = Some f" and "op_concretize cc_op = Inr op"
  shows "armg_calculate_flags_nzcv cc_op (W 32 a) (W 32 b) (W 32 c) = W 32 (nzcv_word f)"
  using arm.packing [OF assms]
  by (simp add: armg_calculate_flags_nzcv_def ARMG_NBITS_def ARMG_CC_SHIFT_N_def ARMG_CC_SHIFT_Z_def
      ARMG_CC_SHIFT_C_def ARMG_CC_SHIFT_V_def)

lemma arm64g_nzcv:
  assumes "arm64_spec op a b c = Some f" and "op_concretize cc_op = Inr op"
  shows "arm64g_calculate_flags_nzcv cc_op (W 64 a) (W 64 b) (W 64 c) = W 64 (nzcv_word f)"
  using arm64.packing [OF assms]
  by (simp add: arm64g_calculate_flags_nzcv_def ARM64G_NBITS_def ARM64G_CC_SHIFT_N_def ARM64G_CC_SHIFT_Z_def
      ARM64G_CC_SHIFT_C_def ARM64G_CC_SHIFT_V_def)

lemma nzcv_of_nzcv_word: "nzcv_of_word (nzcv_word f) = f"
proof -
  obtain n z c v where f: "f = \<lparr>N_flag = n, Z_flag = z, C_flag = c, V_flag = v\<rparr>" by (cases f)
  show ?thesis
    unfolding f nzcv_of_word_def nzcv_word_def
    by (cases n; cases z; cases c; cases v; simp add: bit_iff_odd)
qed

text \<open>The comparison of two operands that a condition stands for after a subtraction.\<close>

definition arm_compare :: "int \<Rightarrow> nat \<Rightarrow> int \<Rightarrow> int \<Rightarrow> bool" where
  "arm_compare cond n a b =
     (let ua = take_bit n a; ub = take_bit n b;
          sa = signed_take_bit (n - 1) a; sb = signed_take_bit (n - 1) b in
      if cond div 2 = 7 then True
      else odd cond \<noteq>
       (if cond div 2 = 0 then ua = ub
        else if cond div 2 = 1 then ub \<le> ua
        else if cond div 2 = 2 then signed_take_bit (n - 1) (a - b) < 0
        else if cond div 2 = 3 then \<not> fits_signed n (sa - sb)
        else if cond div 2 = 4 then ub < ua
        else if cond div 2 = 5 then sb \<le> sa
        else sb < sa))"

lemma arm_condition_sub:
  assumes "0 < n"
  shows "arm_condition cond (arm_sub n a b 1) = arm_compare cond n a b"
proof -
  define ua ub where "ua = take_bit n a" and "ub = take_bit n b"
  define sa sb where "sa = signed_take_bit (n - 1) a" and "sb = signed_take_bit (n - 1) b"
  define N V where "N \<longleftrightarrow> signed_take_bit (n - 1) (a - b) < 0" and "V \<longleftrightarrow> \<not> fits_signed n (sa - sb)"
  define q P where "q = cond div 2" and "P \<longleftrightarrow> odd cond"
  have ge: "N = V \<longleftrightarrow> sb \<le> sa"
    using signed_less_iff [OF assms, of a b] unfolding N_def V_def sa_def sb_def by linarith
  have eq: "sa = sb \<longleftrightarrow> ua = ub"
    using signed_take_bit_eq_iff [OF assms] by (simp only: ua_def ub_def sa_def sb_def)
  have sub: "arm_sub n a b 1 = \<lparr>N_flag = N, Z_flag = (ua = ub), C_flag = (ub \<le> ua), V_flag = V\<rparr>"
    using take_bit_diff_0_iff [of n a b] by (simp add: arm_sub_def N_def V_def ua_def ub_def sa_def sb_def)
  show ?thesis
    unfolding sub arm_condition_def arm_compare_def Let_def nzcv.simps
    unfolding ua_def [symmetric] ub_def [symmetric] sa_def [symmetric] sb_def [symmetric]
      N_def [symmetric] V_def [symmetric] q_def [symmetric] P_def [symmetric] ge
    using eq by (simp add: order_less_le conj_commute eq_commute [of ub ua] eq_commute [of sb sa])
qed

section \<open>Properties\<close>

text \<open>
  C25. The condition helpers of ARM and AArch64 after a comparison (\<open>SUB\<close>, and on AArch64 \<open>SUB32\<close>
  and \<open>SUB64\<close>): each condition is the signed or unsigned comparison of the operands that the
  architecture gives it.
\<close>

theorem arm_compare_conditions:
  assumes "0 \<le> cond" and "cond < 15" and "op_concretize x = Inr (16 * cond + 2)"
    and "op_concretize y32 = Inr (16 * cond + 3)" and "op_concretize y64 = Inr (16 * cond + 4)"
  shows "armg_calculate_condition x (W 32 a) (W 32 b) (W 32 c) = W 32 (of_bool (arm_compare cond 32 a b))
       \<and> arm64g_calculate_condition y32 (W 64 a) (W 64 b) (W 64 c) = W 64 (of_bool (arm_compare cond 32 a b))
       \<and> arm64g_calculate_condition y64 (W 64 a) (W 64 b) (W 64 c) = W 64 (of_bool (arm_compare cond 64 a b))"
proof -
  have "arm32_spec 2 a b c = Some (arm_sub 32 a b 1)" "arm64_spec 3 a b c = Some (arm_sub 32 a b 1)"
    "arm64_spec 4 a b c = Some (arm_sub 64 a b 1)"
    by (simp_all add: arm32_spec_def arm64_spec_def)
  from armg_condition [OF this(1) assms(1,2,3)] arm64g_condition [OF this(2) assms(1) _ assms(4)]
    arm64g_condition [OF this(3) assms(1) _ assms(5)]
  show ?thesis using assms(2) arm_condition_sub [of 32 cond a b] arm_condition_sub [of 64 cond a b] by simp
qed

theorem arm_compare_conditions_witness:
  "armg_calculate_condition (lit (16 * 11 + 2)) (W 32 0xFFFFFFFF) (W 32 1) (W 32 0) =
     W 32 (of_bool (arm_compare 11 32 0xFFFFFFFF 1))"
  using arm_compare_conditions [of 11 "lit (16 * 11 + 2)" "lit (16 * 11 + 3)" "lit (16 * 11 + 4)" "0xFFFFFFFF" 1 0]
  by simp

text \<open>
  C26. The packed flags refine the architecture: for every operation and operands that the
  architecture gives flags for (add, subtract, with and without carry, logic, multiply), the four
  flags that \<open>armg_calculate_flags_nzcv\<close> and \<open>arm64g_calculate_flags_nzcv\<close> pack are those flags.
\<close>

theorem arm_flags_refine:
  assumes "arm32_spec op a b c = Some f" and "op_concretize x = Inr op"
    and "arm64_spec op64 a' b' c' = Some f'" and "op_concretize y = Inr op64"
  shows "armg_calculate_flags_nzcv x (W 32 a) (W 32 b) (W 32 c) = W 32 (nzcv_word f)
       \<and> arm64g_calculate_flags_nzcv y (W 64 a') (W 64 b') (W 64 c') = W 64 (nzcv_word f')"
  using armg_nzcv [OF assms(1,2)] arm64g_nzcv [OF assms(3,4)] by simp

theorem arm_flags_refine_witness:
  "armg_calculate_flags_nzcv (lit 3) (W 32 0xFFFFFFFF) (W 32 0) (W 32 1) = W 32 (nzcv_word (arm_add 32 0xFFFFFFFF 0 1))
   \<and> arm64g_calculate_flags_nzcv (lit 8) (W 64 5) (W 64 5) (W 64 0) = W 64 (nzcv_word (arm_sub 64 5 5 0))"
  using arm_flags_refine [of 3 "0xFFFFFFFF" 0 1 "arm_add 32 0xFFFFFFFF 0 1" "lit 3" 8 5 5 0 "arm_sub 64 5 5 0" "lit 8"]
  by (simp add: arm32_spec_def arm64_spec_def is_bit_def)

text \<open>
  C27. Materialising the four flags and testing a condition on the packed word later (operation
  \<open>COPY\<close>) gives the same answer as testing it on the operation itself, on ARM and on AArch64.
\<close>

theorem arm_materialised_conditions:
  assumes "arm32_spec op a b c = Some f" and "op_concretize x = Inr op" and "op_concretize xc = Inr (16 * cond + op)"
    and "arm64_spec op64 a b c = Some f'" and "op_concretize y = Inr op64" and "op_concretize yc = Inr (16 * cond + op64)"
    and "op_concretize copy = Inr (16 * cond)" and "0 \<le> cond" and "cond < 15"
  shows "armg_calculate_condition copy (armg_calculate_flags_nzcv x (W 32 a) (W 32 b) (W 32 c)) (W 32 d) (W 32 e) =
           armg_calculate_condition xc (W 32 a) (W 32 b) (W 32 c)
       \<and> arm64g_calculate_condition copy (arm64g_calculate_flags_nzcv y (W 64 a) (W 64 b) (W 64 c)) (W 64 d) (W 64 e) =
           arm64g_calculate_condition yc (W 64 a) (W 64 b) (W 64 c)"
proof -
  have copy: "arm32_spec 0 (nzcv_word g) d e = Some g" "arm64_spec 0 (nzcv_word g) d e = Some g" for g
    by (simp_all add: arm32_spec_def arm64_spec_def nzcv_of_nzcv_word)
  have z: "op_concretize copy = Inr (16 * cond + 0)" "cond < 16" using assms(7,9) by simp_all
  show ?thesis
    unfolding armg_nzcv [OF assms(1,2)] arm64g_nzcv [OF assms(4,5)]
      armg_condition [OF copy(1) assms(8,9) z(1)] arm64g_condition [OF copy(2) assms(8) z(2,1)]
      armg_condition [OF assms(1,8,9,3)] arm64g_condition [OF assms(4,8) z(2) assms(6)]
    by simp
qed

theorem arm_materialised_conditions_witness:
  "armg_calculate_condition (lit 0x80) (armg_calculate_flags_nzcv (lit 1) (W 32 7) (W 32 9) (W 32 0)) (W 32 0) (W 32 0) =
     armg_calculate_condition (lit 0x81) (W 32 7) (W 32 9) (W 32 0)"
  using arm_materialised_conditions [of 1 7 9 0 "arm_add 32 7 9 0" "lit 1" "lit 0x81" 8 1 "arm_add 32 7 9 0" "lit 1"
      "lit 0x81" "lit 0x80" 0 0]
  by (simp add: arm32_spec_def arm64_spec_def)

text \<open>
  Error paths: on ARM the condition field 15 raises \<open>SimCCallError\<close> (on AArch64 it is always
  true), and an operation that is not one of the known raises \<open>SimCCallError\<close> in each of the four
  flag functions.
\<close>

lemma arm_error_paths:
  assumes "8 \<le> op" and "11 \<le> op64"
  shows "armg_calculate_flag_n (lit op) a b c = Inl SimCCallError
       \<and> armg_calculate_flag_z (lit op) a b c = Inl SimCCallError
       \<and> armg_calculate_flag_c (lit op) a b c = Inl SimCCallError
       \<and> armg_calculate_flag_v (lit op) a b c = Inl SimCCallError
       \<and> arm64g_calculate_flag_c (lit op64) (W 64 u) (W 64 v) (W 64 w) = Inl SimCCallError
       \<and> armg_calculate_condition (lit 0xF0) a b c = Inl SimCCallError
       \<and> arm64g_calculate_condition (lit 0xF0) a b c = W 64 1"
  using assms
  by (simp add: armg_calculate_flag_n_def armg_calculate_flag_z_def armg_calculate_flag_c_def armg_calculate_flag_v_def
      arm64g_calculate_flag_c_def truncate_W arm_consts arm64_consts armg_calculate_condition_def arm64g_calculate_condition_def
      arm_cond_consts arm64_cond_consts drop_bit_eq_div Let_def cl_BVV_W)

end
