(* ===== verification/Pcode_Behavior.thy ===== *)
theory Pcode_Behavior
  imports Claripy_BV
begin

text \<open>
  The behaviours of the p-code operations (\<open>angr/engines/pcode/behavior.py\<close>): the base class
  \<open>OpBehavior\<close> as a record with its two methods, one definition per subclass that overrides a
  method, and the table of \<open>BehaviorFactory\<close>. The opcodes are the enumeration of pypcode; a method
  that a class does not override is the one of the base class, which raises \<open>AngrError\<close>.
\<close>

section \<open>Opcodes and the base class\<close>

datatype OpCode =
    IMARK
  | COPY | LOAD | STORE | BRANCH | CBRANCH | BRANCHIND | CALL | CALLIND | CALLOTHER | RETURN
   | MULTIEQUAL | INDIRECT | PIECE | SUBPIECE | INT_EQUAL | INT_NOTEQUAL | INT_SLESS
   | INT_SLESSEQUAL | INT_LESS | INT_LESSEQUAL | INT_ZEXT | INT_SEXT | INT_ADD | INT_SUB
   | INT_CARRY | INT_SCARRY | INT_SBORROW | INT_2COMP | INT_NEGATE | INT_XOR | INT_AND | INT_OR
   | INT_LEFT | INT_RIGHT | INT_SRIGHT | INT_MULT | INT_DIV | INT_SDIV | INT_REM | INT_SREM
   | BOOL_NEGATE | BOOL_XOR | BOOL_AND | BOOL_OR | CAST | PTRADD | PTRSUB | FLOAT_EQUAL
   | FLOAT_NOTEQUAL | FLOAT_LESS | FLOAT_LESSEQUAL | FLOAT_NAN | FLOAT_ADD | FLOAT_DIV
   | FLOAT_MULT | FLOAT_SUB | FLOAT_NEG | FLOAT_ABS | FLOAT_SQRT | FLOAT_INT2FLOAT
   | FLOAT_FLOAT2FLOAT | FLOAT_TRUNC | FLOAT_CEIL | FLOAT_FLOOR | FLOAT_ROUND | SEGMENTOP
   | CPOOLREF | NEW | INSERT | ZPULL | SPULL | POPCOUNT | LZCOUNT

record OpBehavior =
  opcode :: OpCode
  is_unary :: bool
  is_special :: bool
  evaluate_unary :: "int \<Rightarrow> int \<Rightarrow> val \<Rightarrow> val"
  evaluate_binary :: "int \<Rightarrow> int \<Rightarrow> val \<Rightarrow> val \<Rightarrow> val"

definition OpBehavior_init :: "OpCode \<Rightarrow> bool \<Rightarrow> bool \<Rightarrow> OpBehavior" where
  "OpBehavior_init op unary special =
     \<lparr>opcode = op, is_unary = unary, is_special = special,
      evaluate_unary = (\<lambda>size_out size_in in1. Inl AngrError),
      evaluate_binary = (\<lambda>size_out size_in in1 in2. Inl AngrError)\<rparr>"

definition generic_compare :: "val \<Rightarrow> val \<Rightarrow> (val \<Rightarrow> val \<Rightarrow> bool res) \<Rightarrow> val" where
  "generic_compare a b comparison = cl_If (comparison a b) (cl_BVV 1 1) (cl_BVV 0 1)"

definition booleanize :: "val \<Rightarrow> val" where
  "booleanize in1 = bind_res (cl_size in1) (\<lambda>n. generic_compare in1 (cl_BVV 0 n) cl_ne)"

definition make_bv_sizes_equal :: "val \<Rightarrow> val \<Rightarrow> bool \<Rightarrow> (val \<times> val) res" where
  "make_bv_sizes_equal v1 v2 zero_ext =
     bind_res (cl_size v1) (\<lambda>n. bind_res (cl_size v2) (\<lambda>m.
       Inr (if n < m then
              (if zero_ext then (cl_zero_extend (m - n) v1, v2) else (cl_sign_extend (m - n) v1, v2))
            else if n > m then
              (if zero_ext then (v1, cl_zero_extend (n - m) v2) else (v1, cl_sign_extend (n - m) v2))
            else (v1, v2))))"

section \<open>Behaviours\<close>

definition OpBehaviorCopy :: OpBehavior where
  "OpBehaviorCopy = (OpBehavior_init COPY True False)\<lparr>evaluate_unary := (\<lambda>size_out size_in in1. in1)\<rparr>"

definition OpBehaviorEqual :: OpBehavior where
  "OpBehaviorEqual = (OpBehavior_init INT_EQUAL False False)\<lparr>evaluate_binary := (\<lambda>size_out size_in in1 in2. generic_compare in1 in2 cl_eq)\<rparr>"

definition OpBehaviorNotEqual :: OpBehavior where
  "OpBehaviorNotEqual = (OpBehavior_init INT_NOTEQUAL False False)\<lparr>evaluate_binary := (\<lambda>size_out size_in in1 in2. generic_compare in1 in2 cl_ne)\<rparr>"

definition OpBehaviorIntSless :: OpBehavior where
  "OpBehaviorIntSless = (OpBehavior_init INT_SLESS False False)\<lparr>evaluate_binary := (\<lambda>size_out size_in in1 in2. generic_compare in1 in2 cl_SLT)\<rparr>"

definition OpBehaviorIntSlessEqual :: OpBehavior where
  "OpBehaviorIntSlessEqual = (OpBehavior_init INT_SLESSEQUAL False False)\<lparr>evaluate_binary := (\<lambda>size_out size_in in1 in2. generic_compare in1 in2 cl_SLE)\<rparr>"

definition OpBehaviorIntLess :: OpBehavior where
  "OpBehaviorIntLess = (OpBehavior_init INT_LESS False False)\<lparr>evaluate_binary := (\<lambda>size_out size_in in1 in2. generic_compare in1 in2 cl_ULT)\<rparr>"

definition OpBehaviorIntLessEqual :: OpBehavior where
  "OpBehaviorIntLessEqual = (OpBehavior_init INT_LESSEQUAL False False)\<lparr>evaluate_binary := (\<lambda>size_out size_in in1 in2. generic_compare in1 in2 cl_ULE)\<rparr>"

definition OpBehaviorIntZext :: OpBehavior where
  "OpBehaviorIntZext = (OpBehavior_init INT_ZEXT True False)\<lparr>evaluate_unary := (\<lambda>size_out size_in in1. cl_zero_extend ((size_out - size_in) * 8) in1)\<rparr>"

definition OpBehaviorIntSext :: OpBehavior where
  "OpBehaviorIntSext = (OpBehavior_init INT_SEXT True False)\<lparr>evaluate_unary := (\<lambda>size_out size_in in1. cl_sign_extend ((size_out - size_in) * 8) in1)\<rparr>"

definition OpBehaviorIntAdd :: OpBehavior where
  "OpBehaviorIntAdd = (OpBehavior_init INT_ADD False False)\<lparr>evaluate_binary := (\<lambda>size_out size_in in1 in2. cl_add in1 in2)\<rparr>"

definition OpBehaviorIntSub :: OpBehavior where
  "OpBehaviorIntSub = (OpBehavior_init INT_SUB False False)\<lparr>evaluate_binary := (\<lambda>size_out size_in in1 in2. cl_sub in1 in2)\<rparr>"

definition OpBehaviorIntCarry :: OpBehavior where
  "OpBehaviorIntCarry = (OpBehavior_init INT_CARRY False False)\<lparr>evaluate_binary := (\<lambda>size_out size_in in1 in2.
     let res = cl_add in1 in2 in cl_If (cl_ULT res in1) (cl_BVV 1 1) (cl_BVV 0 1))\<rparr>"

definition OpBehaviorIntScarry :: OpBehavior where
  "OpBehaviorIntScarry = (OpBehavior_init INT_SCARRY False False)\<lparr>evaluate_binary := (\<lambda>size_out size_in in1 in2.
     let res = cl_add in1 in2;
         a = cl_and (cl_sar in1 (lit (size_in * 8 - 1))) (lit 1);
         b = cl_and (cl_sar in2 (lit (size_in * 8 - 1))) (lit 1);
         r = cl_and (cl_sar res (lit (size_in * 8 - 1))) (lit 1);
         r' = cl_xor r a;
         a' = cl_xor (cl_xor a b) (lit 1)
     in cl_and r' a')\<rparr>"

definition OpBehaviorIntSborrow :: OpBehavior where
  "OpBehaviorIntSborrow = (OpBehavior_init INT_SBORROW False False)\<lparr>evaluate_binary := (\<lambda>size_out size_in in1 in2.
     let res = cl_sub in1 in2;
         a = cl_and (cl_sar in1 (lit (size_in * 8 - 1))) (lit 1);
         b = cl_and (cl_sar in2 (lit (size_in * 8 - 1))) (lit 1);
         r = cl_and (cl_sar res (lit (size_in * 8 - 1))) (lit 1);
         a' = cl_xor a r;
         r' = cl_xor (cl_xor r b) (lit 1)
     in cl_and a' r')\<rparr>"

definition OpBehaviorInt2Comp :: OpBehavior where
  "OpBehaviorInt2Comp = (OpBehavior_init INT_2COMP True False)\<lparr>evaluate_unary := (\<lambda>size_out size_in in1. cl_neg in1)\<rparr>"

definition OpBehaviorIntNegate :: OpBehavior where
  "OpBehaviorIntNegate = (OpBehavior_init INT_NEGATE True False)\<lparr>evaluate_unary := (\<lambda>size_out size_in in1. cl_not in1)\<rparr>"

definition OpBehaviorIntXor :: OpBehavior where
  "OpBehaviorIntXor = (OpBehavior_init INT_XOR False False)\<lparr>evaluate_binary := (\<lambda>size_out size_in in1 in2. cl_xor in1 in2)\<rparr>"

definition OpBehaviorIntAnd :: OpBehavior where
  "OpBehaviorIntAnd = (OpBehavior_init INT_AND False False)\<lparr>evaluate_binary := (\<lambda>size_out size_in in1 in2. cl_and in1 in2)\<rparr>"

definition OpBehaviorIntOr :: OpBehavior where
  "OpBehaviorIntOr = (OpBehavior_init INT_OR False False)\<lparr>evaluate_binary := (\<lambda>size_out size_in in1 in2. cl_or in1 in2)\<rparr>"

definition OpBehaviorIntLeft :: OpBehavior where
  "OpBehaviorIntLeft = (OpBehavior_init INT_LEFT False False)\<lparr>evaluate_binary := (\<lambda>size_out size_in in1 in2.
     bind_res (make_bv_sizes_equal in1 in2 False) (\<lambda>(a, b). cl_shl a b))\<rparr>"

definition OpBehaviorIntRight :: OpBehavior where
  "OpBehaviorIntRight = (OpBehavior_init INT_RIGHT False False)\<lparr>evaluate_binary := (\<lambda>size_out size_in in1 in2.
     bind_res (make_bv_sizes_equal in1 in2 True) (\<lambda>(a, b). cl_LShR a b))\<rparr>"

definition OpBehaviorIntSright :: OpBehavior where
  "OpBehaviorIntSright = (OpBehavior_init INT_SRIGHT False False)\<lparr>evaluate_binary := (\<lambda>size_out size_in in1 in2.
     bind_res (make_bv_sizes_equal in1 in2 False) (\<lambda>(a, b). cl_sar a b))\<rparr>"

definition OpBehaviorIntMult :: OpBehavior where
  "OpBehaviorIntMult = (OpBehavior_init INT_MULT False False)\<lparr>evaluate_binary := (\<lambda>size_out size_in in1 in2.
     cl_mul (cl_zero_extend (size_out - size_in) in1) (cl_zero_extend (size_out - size_in) in2))\<rparr>"

definition OpBehaviorIntDiv :: OpBehavior where
  "OpBehaviorIntDiv = (OpBehavior_init INT_DIV False False)\<lparr>evaluate_binary := (\<lambda>size_out size_in in1 in2. cl_div in1 in2)\<rparr>"

definition OpBehaviorIntSdiv :: OpBehavior where
  "OpBehaviorIntSdiv = (OpBehavior_init INT_SDIV False False)\<lparr>evaluate_binary := (\<lambda>size_out size_in in1 in2. cl_SDiv in1 in2)\<rparr>"

definition OpBehaviorIntRem :: OpBehavior where
  "OpBehaviorIntRem = (OpBehavior_init INT_REM False False)\<lparr>evaluate_binary := (\<lambda>size_out size_in in1 in2. cl_mod in1 in2)\<rparr>"

definition OpBehaviorIntSrem :: OpBehavior where
  "OpBehaviorIntSrem = (OpBehavior_init INT_SREM False False)\<lparr>evaluate_binary := (\<lambda>size_out size_in in1 in2. cl_SMod in1 in2)\<rparr>"

definition OpBehaviorBoolNegate :: OpBehavior where
  "OpBehaviorBoolNegate = (OpBehavior_init BOOL_NEGATE True False)\<lparr>evaluate_unary := (\<lambda>size_out size_in in1.
     bind_res (cl_size in1) (\<lambda>n. generic_compare in1 (cl_BVV 0 n) cl_eq))\<rparr>"

definition OpBehaviorBoolXor :: OpBehavior where
  "OpBehaviorBoolXor = (OpBehavior_init BOOL_XOR False False)\<lparr>evaluate_binary := (\<lambda>size_out size_in in1 in2. cl_xor (booleanize in1) (booleanize in2))\<rparr>"

definition OpBehaviorBoolAnd :: OpBehavior where
  "OpBehaviorBoolAnd = (OpBehavior_init BOOL_AND False False)\<lparr>evaluate_binary := (\<lambda>size_out size_in in1 in2. cl_and (booleanize in1) (booleanize in2))\<rparr>"

definition OpBehaviorBoolOr :: OpBehavior where
  "OpBehaviorBoolOr = (OpBehavior_init BOOL_OR False False)\<lparr>evaluate_binary := (\<lambda>size_out size_in in1 in2. cl_or (booleanize in1) (booleanize in2))\<rparr>"

definition OpBehaviorFloatEqual :: OpBehavior where
  "OpBehaviorFloatEqual = OpBehavior_init FLOAT_EQUAL False False"

definition OpBehaviorFloatNotEqual :: OpBehavior where
  "OpBehaviorFloatNotEqual = OpBehavior_init FLOAT_NOTEQUAL False False"

definition OpBehaviorFloatLess :: OpBehavior where
  "OpBehaviorFloatLess = OpBehavior_init FLOAT_LESS False False"

definition OpBehaviorFloatLessEqual :: OpBehavior where
  "OpBehaviorFloatLessEqual = OpBehavior_init FLOAT_LESSEQUAL False False"

definition OpBehaviorFloatNan :: OpBehavior where
  "OpBehaviorFloatNan = OpBehavior_init FLOAT_NAN True False"

definition OpBehaviorFloatAdd :: OpBehavior where
  "OpBehaviorFloatAdd = OpBehavior_init FLOAT_ADD False False"

definition OpBehaviorFloatDiv :: OpBehavior where
  "OpBehaviorFloatDiv = OpBehavior_init FLOAT_DIV False False"

definition OpBehaviorFloatMult :: OpBehavior where
  "OpBehaviorFloatMult = OpBehavior_init FLOAT_MULT False False"

definition OpBehaviorFloatSub :: OpBehavior where
  "OpBehaviorFloatSub = OpBehavior_init FLOAT_SUB False False"

definition OpBehaviorFloatNeg :: OpBehavior where
  "OpBehaviorFloatNeg = OpBehavior_init FLOAT_NEG True False"

definition OpBehaviorFloatAbs :: OpBehavior where
  "OpBehaviorFloatAbs = OpBehavior_init FLOAT_ABS True False"

definition OpBehaviorFloatSqrt :: OpBehavior where
  "OpBehaviorFloatSqrt = OpBehavior_init FLOAT_SQRT True False"

definition OpBehaviorFloatInt2Float :: OpBehavior where
  "OpBehaviorFloatInt2Float = OpBehavior_init FLOAT_INT2FLOAT True False"

definition OpBehaviorFloatFloat2Float :: OpBehavior where
  "OpBehaviorFloatFloat2Float = OpBehavior_init FLOAT_FLOAT2FLOAT True False"

definition OpBehaviorFloatTrunc :: OpBehavior where
  "OpBehaviorFloatTrunc = OpBehavior_init FLOAT_TRUNC True False"

definition OpBehaviorFloatCeil :: OpBehavior where
  "OpBehaviorFloatCeil = OpBehavior_init FLOAT_CEIL True False"

definition OpBehaviorFloatFloor :: OpBehavior where
  "OpBehaviorFloatFloor = OpBehavior_init FLOAT_FLOOR True False"

definition OpBehaviorFloatRound :: OpBehavior where
  "OpBehaviorFloatRound = OpBehavior_init FLOAT_ROUND True False"

definition OpBehaviorPiece :: OpBehavior where
  "OpBehaviorPiece = OpBehavior_init PIECE False False"

definition OpBehaviorSubpiece :: OpBehavior where
  "OpBehaviorSubpiece = (OpBehavior_init SUBPIECE False False)\<lparr>evaluate_binary := (\<lambda>size_out size_in in1 in2.
     bind_res (cl_size in1) (\<lambda>n. bind_res (cl_size in2) (\<lambda>m.
       let in2' = (if m < n then cl_sign_extend (n - m) in2 else in2) in
       bind_res (cl_size in2') (\<lambda>m'.
       let in1' = (if n < m' then cl_sign_extend (m' - n) in1 else in1)
       in cl_and (cl_sar in1' (cl_mul in2' (lit 8))) (lit (2 ^ nat (size_out * 8) - 1))))))\<rparr>"

fun popcount_loop :: "int \<Rightarrow> val \<Rightarrow> val \<Rightarrow> nat list \<Rightarrow> val" where
  "popcount_loop size_out in1 expr [] = expr"
| "popcount_loop size_out in1 expr (a # as) =
     popcount_loop size_out in1
       (cl_add expr (cl_zero_extend (size_out * 8 - 1) (cl_Extract (int a) (int a) in1))) as"

fun lzcount_loop :: "int \<Rightarrow> int \<Rightarrow> val \<Rightarrow> val \<Rightarrow> nat list \<Rightarrow> val" where
  "lzcount_loop n size_out in1 expr [] = expr"
| "lzcount_loop n size_out in1 expr (pos # ps) =
     lzcount_loop n size_out in1
       (cl_If (cl_eq (cl_Extract (int pos) (int pos) in1) (cl_BVV 1 1))
              (cl_BVV (n - int pos - 1) (size_out * 8)) expr) ps"

definition OpBehaviorPopcount :: OpBehavior where
  "OpBehaviorPopcount = (OpBehavior_init POPCOUNT True False)\<lparr>evaluate_unary := (\<lambda>size_out size_in in1.
     bind_res (cl_size in1) (\<lambda>n. popcount_loop size_out in1 (cl_BVV 0 (size_out * 8)) [0..<nat n]))\<rparr>"

definition OpBehaviorLzcount :: OpBehavior where
  "OpBehaviorLzcount = (OpBehavior_init LZCOUNT True False)\<lparr>evaluate_unary := (\<lambda>size_out size_in in1.
     bind_res (cl_size in1) (\<lambda>n. lzcount_loop n size_out in1 (cl_BVV n (size_out * 8)) [0..<nat n]))\<rparr>"

section \<open>The factory\<close>

definition behaviors :: "(OpCode \<times> OpBehavior) list" where
  "behaviors = [
     (COPY, OpBehaviorCopy),
     (LOAD, OpBehavior_init LOAD False True),
     (STORE, OpBehavior_init STORE False True),
     (BRANCH, OpBehavior_init BRANCH False True),
     (CBRANCH, OpBehavior_init CBRANCH False True),
     (BRANCHIND, OpBehavior_init BRANCHIND False True),
     (CALL, OpBehavior_init CALL False True),
     (CALLIND, OpBehavior_init CALLIND False True),
     (CALLOTHER, OpBehavior_init CALLOTHER False True),
     (RETURN, OpBehavior_init RETURN False True),
     (MULTIEQUAL, OpBehavior_init MULTIEQUAL False True),
     (INDIRECT, OpBehavior_init INDIRECT False True),
     (PIECE, OpBehaviorPiece),
     (SUBPIECE, OpBehaviorSubpiece),
     (INT_EQUAL, OpBehaviorEqual),
     (INT_NOTEQUAL, OpBehaviorNotEqual),
     (INT_SLESS, OpBehaviorIntSless),
     (INT_SLESSEQUAL, OpBehaviorIntSlessEqual),
     (INT_LESS, OpBehaviorIntLess),
     (INT_LESSEQUAL, OpBehaviorIntLessEqual),
     (INT_ZEXT, OpBehaviorIntZext),
     (INT_SEXT, OpBehaviorIntSext),
     (INT_ADD, OpBehaviorIntAdd),
     (INT_SUB, OpBehaviorIntSub),
     (INT_CARRY, OpBehaviorIntCarry),
     (INT_SCARRY, OpBehaviorIntScarry),
     (INT_SBORROW, OpBehaviorIntSborrow),
     (INT_2COMP, OpBehaviorInt2Comp),
     (INT_NEGATE, OpBehaviorIntNegate),
     (INT_XOR, OpBehaviorIntXor),
     (INT_AND, OpBehaviorIntAnd),
     (INT_OR, OpBehaviorIntOr),
     (INT_LEFT, OpBehaviorIntLeft),
     (INT_RIGHT, OpBehaviorIntRight),
     (INT_SRIGHT, OpBehaviorIntSright),
     (INT_MULT, OpBehaviorIntMult),
     (INT_DIV, OpBehaviorIntDiv),
     (INT_SDIV, OpBehaviorIntSdiv),
     (INT_REM, OpBehaviorIntRem),
     (INT_SREM, OpBehaviorIntSrem),
     (BOOL_NEGATE, OpBehaviorBoolNegate),
     (BOOL_XOR, OpBehaviorBoolXor),
     (BOOL_AND, OpBehaviorBoolAnd),
     (BOOL_OR, OpBehaviorBoolOr),
     (CAST, OpBehavior_init CAST False True),
     (PTRADD, OpBehavior_init PTRADD False True),
     (PTRSUB, OpBehavior_init PTRSUB False True),
     (FLOAT_EQUAL, OpBehaviorFloatEqual),
     (FLOAT_NOTEQUAL, OpBehaviorFloatNotEqual),
     (FLOAT_LESS, OpBehaviorFloatLess),
     (FLOAT_LESSEQUAL, OpBehaviorFloatLessEqual),
     (FLOAT_NAN, OpBehaviorFloatNan),
     (FLOAT_ADD, OpBehaviorFloatAdd),
     (FLOAT_DIV, OpBehaviorFloatDiv),
     (FLOAT_MULT, OpBehaviorFloatMult),
     (FLOAT_SUB, OpBehaviorFloatSub),
     (FLOAT_NEG, OpBehaviorFloatNeg),
     (FLOAT_ABS, OpBehaviorFloatAbs),
     (FLOAT_SQRT, OpBehaviorFloatSqrt),
     (FLOAT_INT2FLOAT, OpBehaviorFloatInt2Float),
     (FLOAT_FLOAT2FLOAT, OpBehaviorFloatFloat2Float),
     (FLOAT_TRUNC, OpBehaviorFloatTrunc),
     (FLOAT_CEIL, OpBehaviorFloatCeil),
     (FLOAT_FLOOR, OpBehaviorFloatFloor),
     (FLOAT_ROUND, OpBehaviorFloatRound),
     (SEGMENTOP, OpBehavior_init SEGMENTOP False True),
     (CPOOLREF, OpBehavior_init CPOOLREF False True),
     (NEW, OpBehavior_init NEW False True),
     (INSERT, OpBehavior_init INSERT False True),
     (ZPULL, OpBehavior_init ZPULL False True),
     (SPULL, OpBehavior_init SPULL False True),
     (POPCOUNT, OpBehaviorPopcount),
     (LZCOUNT, OpBehaviorLzcount)]"

definition get_behavior_for_opcode :: "OpCode \<Rightarrow> OpBehavior res" where
  "get_behavior_for_opcode op = (case map_of behaviors op of None \<Rightarrow> Inl KeyError | Some b \<Rightarrow> Inr b)"

end
