(* ===== verification/Pcode_Semantics.thy ===== *)
theory Pcode_Semantics
  imports Pcode_Behavior Flag_Arith
begin

text \<open>
  What the p-code behaviours compute. Comparisons, carries and overflows are stated against
  comparisons and ranges of integers, the counting operations against the bits of their operand,
  the shifts against shifts of integers.
\<close>

section \<open>Comparisons\<close>

lemma generic_compare_Inr: "comparison a b = Inr c \<Longrightarrow> generic_compare a b comparison = flag c"
  by (simp add: generic_compare_def flag_simps)

lemma booleanize_W: "0 < n \<Longrightarrow> booleanize (W n a) = flag (take_bit n a \<noteq> 0)"
  by (simp add: booleanize_def generic_compare_def bv_simps flag_simps)

lemmas compare_defs = OpBehaviorEqual_def OpBehaviorNotEqual_def OpBehaviorIntSless_def
  OpBehaviorIntSlessEqual_def OpBehaviorIntLess_def OpBehaviorIntLessEqual_def

lemma compare_W:
  assumes "0 < n"
  shows "evaluate_binary OpBehaviorEqual so si (W n a) (W n b) = flag (take_bit n a = take_bit n b)"
    and "evaluate_binary OpBehaviorNotEqual so si (W n a) (W n b) = flag (take_bit n a \<noteq> take_bit n b)"
    and "evaluate_binary OpBehaviorIntLess so si (W n a) (W n b) = flag (take_bit n a < take_bit n b)"
    and "evaluate_binary OpBehaviorIntLessEqual so si (W n a) (W n b) = flag (take_bit n a \<le> take_bit n b)"
    and "evaluate_binary OpBehaviorIntSless so si (W n a) (W n b) =
           flag (signed_take_bit (n - 1) a < signed_take_bit (n - 1) b)"
    and "evaluate_binary OpBehaviorIntSlessEqual so si (W n a) (W n b) =
           flag (signed_take_bit (n - 1) a \<le> signed_take_bit (n - 1) b)"
  using assms by (simp_all add: compare_defs generic_compare_def bv_simps flag_simps)

section \<open>Carry and signed overflow\<close>

lemma sign_extract:
  assumes "0 < n"
  shows "cl_and (cl_sar (W n x) (lit (int n - 1))) (lit 1) = W n (of_bool (bit x (n - 1)))"
proof -
  have "cl_and (cl_sar (W n x) (lit (int n - 1))) (lit 1) =
      W n (drop_bit (n - 1) (signed_take_bit (n - 1) x) AND 1)"
    using assms shift_count [OF assms] by (simp add: bv_simps)
  also have "\<dots> = W n (of_bool (bit x (n - 1)))"
    unfolding sign_fill by (simp add: and_1_of_bool)
  finally show ?thesis .
qed

lemma bit_ops:
  assumes "0 < n"
  shows "cl_xor (W n (of_bool P)) (W n (of_bool Q)) = W n (of_bool (P \<noteq> Q))"
    and "cl_xor (W n (of_bool P)) (lit 1) = W n (of_bool (\<not> P))"
    and "cl_and (W n (of_bool P)) (W n (of_bool Q)) = W n (of_bool (P \<and> Q))"
  using assms by (cases P; cases Q; simp add: bv_simps)+

lemma overflow_eval:
  fixes si :: int
  defines "sg \<equiv> \<lambda>x. cl_and (cl_sar x (lit (si * 8 - 1))) (lit 1)"
  shows "evaluate_binary OpBehaviorIntScarry so si x y =
           cl_and (cl_xor (sg (cl_add x y)) (sg x)) (cl_xor (cl_xor (sg x) (sg y)) (lit 1))"
    and "evaluate_binary OpBehaviorIntSborrow so si x y =
           cl_and (cl_xor (sg x) (sg (cl_sub x y))) (cl_xor (cl_xor (sg (cl_sub x y)) (sg y)) (lit 1))"
  by (simp_all add: OpBehaviorIntScarry_def OpBehaviorIntSborrow_def Let_def sg_def)

lemma carry_W:
  assumes "0 < n"
  shows "evaluate_binary OpBehaviorIntCarry so si (W n a) (W n b) = flag (2 ^ n \<le> take_bit n a + take_bit n b)"
  using claripy_bv.carry_out [OF assms, of a b] by (simp add: OpBehaviorIntCarry_def Let_def flag_simps)

lemma scarry_W:
  assumes "0 < n" and "int n = si * 8"
  shows "evaluate_binary OpBehaviorIntScarry so si (W n a) (W n b) =
           W n (of_bool (\<not> fits_signed n (signed_take_bit (n - 1) a + signed_take_bit (n - 1) b)))"
proof -
  have sum: "cl_add (W n a) (W n b) = W n (a + b)" using assms(1) by (simp add: bv_simps)
  have "(bit (a + b) (n - 1) \<noteq> bit a (n - 1)) \<and> \<not> (bit a (n - 1) \<noteq> bit b (n - 1)) \<longleftrightarrow>
      \<not> fits_signed n (signed_take_bit (n - 1) a + signed_take_bit (n - 1) b)"
    using add_overflow_iff [OF assms(1), of 0 a b] by (auto simp: fits_signed_def)
  then show ?thesis
    unfolding overflow_eval assms(2) [symmetric] sum sign_extract [OF assms(1)] bit_ops [OF assms(1)]
    by simp
qed

lemma sborrow_W:
  assumes "0 < n" and "int n = si * 8"
  shows "evaluate_binary OpBehaviorIntSborrow so si (W n a) (W n b) =
           W n (of_bool (\<not> fits_signed n (signed_take_bit (n - 1) a - signed_take_bit (n - 1) b)))"
proof -
  have sum: "cl_sub (W n a) (W n b) = W n (a - b)" using assms(1) by (simp add: bv_simps)
  have "(bit a (n - 1) \<noteq> bit (a - b) (n - 1)) \<and> \<not> (bit (a - b) (n - 1) \<noteq> bit b (n - 1)) \<longleftrightarrow>
      \<not> fits_signed n (signed_take_bit (n - 1) a - signed_take_bit (n - 1) b)"
    using sub_overflow_iff [OF assms(1), of 0 a b] by (auto simp: fits_signed_def)
  then show ?thesis
    unfolding overflow_eval assms(2) [symmetric] sum sign_extract [OF assms(1)] bit_ops [OF assms(1)]
    by simp
qed

section \<open>Counting\<close>

lemma cl_Extract_bit: "i < n \<Longrightarrow> cl_Extract (int i) (int i) (W n x) = flag (bit (take_bit n x) i)"
  using cl_bit_W [of "int i" n x] by (simp add: cl_bit_def)

lemma popcount_loop_W:
  assumes "0 < so" and "list_all (\<lambda>i. i < n) is"
  shows "popcount_loop so (W n x) (W (nat (so * 8)) v) is =
           W (nat (so * 8)) (v + int (length (filter (bit (take_bit n x)) is)))"
  using assms(2)
proof (induction "is" arbitrary: v)
  case (Cons i "is")
  have "Suc (nat (so * 8 - 1)) = nat (so * 8)" using assms(1) by simp
  then have "cl_add (W (nat (so * 8)) v) (cl_zero_extend (so * 8 - 1) (flag (bit (take_bit n x) i))) =
      W (nat (so * 8)) (v + of_bool (bit (take_bit n x) i))"
    using assms(1) by (simp add: flag_simps bv_simps)
  then show ?case using Cons by (simp add: cl_Extract_bit add.assoc)
qed simp

lemma popcount_W:
  assumes "0 < so"
  shows "evaluate_unary OpBehaviorPopcount so si (W n x) = W (nat (so * 8)) (int (card {i. i < n \<and> bit x i}))"
proof -
  have "length (filter (bit (take_bit n x)) [0..<n]) = card {i. i < n \<and> bit x i}"
  proof -
    have "set (filter (bit (take_bit n x)) [0..<n]) = {i. i < n \<and> bit x i}" by (auto simp: bit_take_bit_iff)
    then show ?thesis by (metis distinct_card distinct_filter distinct_upt)
  qed
  then show ?thesis
    using assms popcount_loop_W [OF assms, of n "[0..<n]" x 0]
    by (simp add: OpBehaviorPopcount_def bv_simps list_all_iff)
qed

definition leading_zeros :: "nat \<Rightarrow> int \<Rightarrow> nat \<Rightarrow> bool" where
  "leading_zeros n x k \<longleftrightarrow> k \<le> n \<and> (\<forall>i. n - k \<le> i \<and> i < n \<longrightarrow> \<not> bit x i) \<and> (k < n \<longrightarrow> bit x (n - k - 1))"

lemma lzcount_loop_W:
  assumes "0 < so" and "m \<le> n"
  shows "\<exists>k. lzcount_loop (int n) so (W n x) (cl_BVV (int n) (so * 8)) [0..<m] = W (nat (so * 8)) (int k)
           \<and> n - m \<le> k \<and> k \<le> n \<and> (\<forall>i. n - k \<le> i \<and> i < m \<longrightarrow> \<not> bit x i) \<and> (k < n \<longrightarrow> bit x (n - k - 1))"
  using assms(2)
proof (induction m)
  case 0
  then show ?case using assms(1) by (intro exI [of _ n]) (simp add: bv_simps)
next
  case (Suc m)
  then obtain k where k: "lzcount_loop (int n) so (W n x) (cl_BVV (int n) (so * 8)) [0..<m] = W (nat (so * 8)) (int k)"
    "n - m \<le> k" "k \<le> n" "\<forall>i. n - k \<le> i \<and> i < m \<longrightarrow> \<not> bit x i" "k < n \<longrightarrow> bit x (n - k - 1)" by auto
  have step: "lzcount_loop (int n) so (W n x) e (xs @ [m]) =
      cl_If (cl_eq (flag (bit x m)) (cl_BVV 1 1)) (cl_BVV (int n - int m - 1) (so * 8))
        (lzcount_loop (int n) so (W n x) e xs)" for e xs
    using Suc.prems by (induction xs arbitrary: e) (simp_all add: cl_Extract_bit bit_take_bit_iff)
  have top: "int n - int m - 1 = int (n - m - 1)" using Suc.prems by simp
  show ?case
  proof (cases "bit x m")
    case True
    then show ?thesis
      using Suc.prems assms(1) k
      by (intro exI [of _ "n - m - 1"])
        (auto simp: step flag_simps top bv_simps)
  next
    case False
    then show ?thesis
      using Suc.prems assms(1) k
      by (intro exI [of _ k])
        (auto simp: step flag_simps top bv_simps less_Suc_eq)
  qed
qed

lemma lzcount_W:
  assumes "0 < so"
  shows "\<exists>k. evaluate_unary OpBehaviorLzcount so si (W n x) = W (nat (so * 8)) (int k) \<and> leading_zeros n x k"
  using lzcount_loop_W [OF assms, of n n x] by (auto simp: OpBehaviorLzcount_def leading_zeros_def)

section \<open>Shifts\<close>

text \<open>
  The shift amount may be narrower than the operand. \<open>INT_RIGHT\<close> extends it with zeros;
  \<open>INT_LEFT\<close> and \<open>INT_SRIGHT\<close> extend it with its sign.
\<close>

lemma sizes_equal_zero:
  assumes "0 < m" and "m \<le> n"
  shows "make_bv_sizes_equal (W n a) (W m k) True = Inr (W n a, W n (take_bit m k))"
  using assms by (auto simp: make_bv_sizes_equal_def bv_simps)

lemma int_right_W:
  assumes "0 < m" and "m \<le> n"
  shows "evaluate_binary OpBehaviorIntRight so si (W n a) (W m k) =
           W n (drop_bit (nat (take_bit m k)) (take_bit n a))"
proof -
  have "0 < n" "min n m = m" using assms by simp_all
  then show ?thesis by (simp add: OpBehaviorIntRight_def sizes_equal_zero [OF assms] bv_simps)
qed

section \<open>The factory\<close>

text \<open>Every behaviour is registered under its own opcode, and only \<open>IMARK\<close> has none.\<close>

lemmas behavior_defs = compare_defs OpBehaviorCopy_def OpBehaviorIntZext_def OpBehaviorIntSext_def
  OpBehaviorIntAdd_def OpBehaviorIntSub_def OpBehaviorIntCarry_def OpBehaviorIntScarry_def
  OpBehaviorIntSborrow_def OpBehaviorInt2Comp_def OpBehaviorIntNegate_def OpBehaviorIntXor_def
  OpBehaviorIntAnd_def OpBehaviorIntOr_def OpBehaviorIntLeft_def OpBehaviorIntRight_def
  OpBehaviorIntSright_def OpBehaviorIntMult_def OpBehaviorIntDiv_def OpBehaviorIntSdiv_def
  OpBehaviorIntRem_def OpBehaviorIntSrem_def OpBehaviorBoolNegate_def OpBehaviorBoolXor_def
  OpBehaviorBoolAnd_def OpBehaviorBoolOr_def OpBehaviorFloatEqual_def OpBehaviorFloatNotEqual_def
  OpBehaviorFloatLess_def OpBehaviorFloatLessEqual_def OpBehaviorFloatNan_def OpBehaviorFloatAdd_def
  OpBehaviorFloatDiv_def OpBehaviorFloatMult_def OpBehaviorFloatSub_def OpBehaviorFloatNeg_def
  OpBehaviorFloatAbs_def OpBehaviorFloatSqrt_def OpBehaviorFloatInt2Float_def
  OpBehaviorFloatFloat2Float_def OpBehaviorFloatTrunc_def OpBehaviorFloatCeil_def
  OpBehaviorFloatFloor_def OpBehaviorFloatRound_def OpBehaviorPiece_def OpBehaviorSubpiece_def
  OpBehaviorPopcount_def OpBehaviorLzcount_def

lemma behavior_keys: "map fst behaviors = map (opcode \<circ> snd) behaviors"
  by (simp add: behaviors_def behavior_defs OpBehavior_init_def)

lemma behavior_opcode: "get_behavior_for_opcode op = Inr b \<Longrightarrow> opcode b = op"
proof -
  assume "get_behavior_for_opcode op = Inr b"
  then have "map_of behaviors op = Some b" by (simp add: get_behavior_for_opcode_def split: option.splits)
  then have "(op, b) \<in> set behaviors" by (rule map_of_SomeD)
  then show ?thesis using behavior_keys
    by (metis (no_types, lifting) comp_apply fst_conv in_set_conv_nth nth_map snd_conv)
qed

lemma behavior_missing: "get_behavior_for_opcode op = Inl e \<longleftrightarrow> op = IMARK \<and> e = KeyError"
  by (cases op) (auto simp: get_behavior_for_opcode_def behaviors_def)

text \<open>An amount whose sign bit is set is at least half the range, which shifts everything out.\<close>

lemma sign_extended_amount:
  assumes "0 < m" and "m < n" and "bit k (m - 1)"
  shows "int n \<le> take_bit n (signed_take_bit (m - 1) (k :: int))"
proof -
  define A B t where "A = (2 :: int) ^ (n - 1)" and "B = (2 :: int) ^ (m - 1)" and "t = take_bit m k"
  have "B \<le> t" using bit_top_take_bit [OF assms(1), of k] assms(3) by (simp add: B_def t_def)
  have pows: "2 ^ n = 2 * A" "2 ^ m = 2 * B" using half_power [of n] half_power [of m] assms(1,2) by (simp_all add: A_def B_def)
  have "2 ^ m \<le> (2 :: int) ^ (n - 1)" using assms(2) by (intro power_increasing) auto
  then have "2 * B \<le> A" by (simp only: pows A_def)
  have "t < 2 * B" using take_bit_int_less_exp [of m k] by (simp only: t_def pows)
  have s: "signed_take_bit (m - 1) k = t - 2 * B"
    using signed_take_bit_top [OF assms(1), of k] \<open>B \<le> t\<close> by (simp only: t_def pows B_def if_True)
  have "take_bit n (t - 2 * B) = t - 2 * B + 2 * A"
    using take_bit_wrap_neg [of n "t - 2 * B"] \<open>t < 2 * B\<close> \<open>B \<le> t\<close> \<open>2 * B \<le> A\<close> unfolding pows by simp
  moreover have "int (n - 1) = int n - 1" using assms(2) by simp
  then have "int n \<le> A" using nat_lt_pow [of "n - 1"] unfolding A_def by linarith
  moreover have "0 < B" by (simp add: B_def)
  ultimately show ?thesis unfolding s using \<open>B \<le> t\<close> \<open>2 * B \<le> A\<close> by simp
qed

lemma shifted_out:
  assumes "n \<le> j"
  shows "take_bit n (push_bit j (a :: int)) = 0"
    and "drop_bit j (signed_take_bit (n - 1) (a :: int)) = (if bit a (n - 1) then - 1 else 0)"
proof -
  show "take_bit n (push_bit j a) = 0" by (rule bit_eqI) (use assms in \<open>auto simp: bit_simps\<close>)
  have "min (n - 1) (j + i) = n - 1" for i using assms by simp
  then show "drop_bit j (signed_take_bit (n - 1) a) = (if bit a (n - 1) then - 1 else 0)"
    by (intro bit_eqI) (simp add: bit_simps)
qed

lemma sizes_equal_sign_ext:
  assumes "0 < m" and "m \<le> n"
  shows "make_bv_sizes_equal (W n a) (W m k) False =
           Inr (W n a, W n (if m = n then k else signed_take_bit (m - 1) k))"
proof -
  have "m + nat (int n - int m) = n" using assms(2) by simp
  then show ?thesis using assms by (auto simp: make_bv_sizes_equal_def bv_simps)
qed

lemma int_left_W:
  assumes "0 < m" and "m \<le> n"
  shows "evaluate_binary OpBehaviorIntLeft so si (W n a) (W m k) =
           W n (push_bit (nat (take_bit n (if m = n then k else signed_take_bit (m - 1) k))) a)"
    and "evaluate_binary OpBehaviorIntSright so si (W n a) (W m k) =
           W n (drop_bit (nat (take_bit n (if m = n then k else signed_take_bit (m - 1) k))) (signed_take_bit (n - 1) a))"
  using assms by (simp_all add: OpBehaviorIntLeft_def OpBehaviorIntSright_def sizes_equal_sign_ext cl_shift_W)

lemma narrow_amount_left:
  assumes "0 < m" and "m < n" and "bit k (m - 1)"
  shows "evaluate_binary OpBehaviorIntLeft so si (W n a) (W m k) = W n 0"
proof -
  have "n \<le> nat (take_bit n (signed_take_bit (m - 1) k))"
    using sign_extended_amount [OF assms] by (simp add: le_nat_iff)
  from shifted_out(1) [OF this, of a] show ?thesis
    using assms(2) int_left_W(1) [OF assms(1), of n so si a k] by (simp add: bvv_eq_iff)
qed

lemma left_shift_amount:
  assumes "0 < m" and "m \<le> n" and "n \<le> 2 ^ (m - 1)"
    and "j = nat (take_bit n (if m = n then k else signed_take_bit (m - 1) k))"
  shows "W n (push_bit j a) = W n (push_bit (nat (take_bit m k)) a)"
    and "drop_bit j (signed_take_bit (n - 1) a) = drop_bit (nat (take_bit m k)) (signed_take_bit (n - 1) a)"
proof -
  have "j = nat (take_bit m k) \<or> (n \<le> j \<and> n \<le> nat (take_bit m k))"
  proof (cases "m < n \<and> bit k (m - 1)")
    case True
    then have "2 ^ (m - 1) \<le> take_bit m k" using bit_top_take_bit [OF assms(1), of k] by simp
    moreover have "int n \<le> 2 ^ (m - 1)" using assms(3) by (metis of_nat_le_iff of_nat_numeral of_nat_power)
    ultimately have "int n \<le> take_bit m k" by (rule order_trans [rotated])
    then show ?thesis
      using sign_extended_amount [OF assms(1), of n k] True assms(4) by (simp add: le_nat_iff)
  next
    case False
    then have "m = n \<or> signed_take_bit (m - 1) k = take_bit m k"
      using signed_take_bit_top [OF assms(1), of k] bit_top_take_bit [OF assms(1), of k] assms(2) by auto
    then show ?thesis using assms(2,4) by (auto simp: min_def)
  qed
  then show "W n (push_bit j a) = W n (push_bit (nat (take_bit m k)) a)"
    and "drop_bit j (signed_take_bit (n - 1) a) = drop_bit (nat (take_bit m k)) (signed_take_bit (n - 1) a)"
    using shifted_out [of n] by (auto simp: bvv_eq_iff)
qed

section \<open>Properties\<close>

text \<open>
  The comparisons of p-code: equality, the unsigned and the signed orders of the operands, as a
  one-bit value.
\<close>

lemma pcode_comparisons:
  assumes "0 < n"
  shows "evaluate_binary OpBehaviorEqual so si (W n a) (W n b) = flag (take_bit n a = take_bit n b)
       \<and> evaluate_binary OpBehaviorNotEqual so si (W n a) (W n b) = flag (take_bit n a \<noteq> take_bit n b)
       \<and> evaluate_binary OpBehaviorIntLess so si (W n a) (W n b) = flag (take_bit n a < take_bit n b)
       \<and> evaluate_binary OpBehaviorIntLessEqual so si (W n a) (W n b) = flag (take_bit n a \<le> take_bit n b)
       \<and> evaluate_binary OpBehaviorIntSless so si (W n a) (W n b) =
           flag (signed_take_bit (n - 1) a < signed_take_bit (n - 1) b)
       \<and> evaluate_binary OpBehaviorIntSlessEqual so si (W n a) (W n b) =
           flag (signed_take_bit (n - 1) a \<le> signed_take_bit (n - 1) b)"
  by (intro conjI compare_W assms)

text \<open>
  The counting operations: \<open>POPCOUNT\<close> returns the number of set bits of its operand, \<open>LZCOUNT\<close>
  the number of zero bits above the highest set bit (the width, for zero).
\<close>

lemma pcode_counting:
  assumes "0 < so"
  shows "evaluate_unary OpBehaviorPopcount so si (W n x) = W (nat (so * 8)) (int (card {i. i < n \<and> bit x i}))
       \<and> (\<exists>k. evaluate_unary OpBehaviorLzcount so si (W n x) = W (nat (so * 8)) (int k) \<and> leading_zeros n x k)"
  using popcount_W [OF assms] lzcount_W [OF assms] by blast

text \<open>
  C32. The shifts of p-code with an amount that may be narrower than the operand. As long as the
  width of the operand is at most half the range of the amount, the three shifts shift by the
  unsigned amount, although \<open>INT_LEFT\<close> and \<open>INT_SRIGHT\<close> extend it with its sign.
\<close>

theorem pcode_shifts:
  assumes "0 < m" and "m \<le> n" and "n \<le> 2 ^ (m - 1)"
  shows "evaluate_binary OpBehaviorIntLeft so si (W n a) (W m k) = W n (push_bit (nat (take_bit m k)) a)
       \<and> evaluate_binary OpBehaviorIntRight so si (W n a) (W m k) =
           W n (drop_bit (nat (take_bit m k)) (take_bit n a))
       \<and> evaluate_binary OpBehaviorIntSright so si (W n a) (W m k) =
           W n (drop_bit (nat (take_bit m k)) (signed_take_bit (n - 1) a))"
proof -
  note amount = left_shift_amount [OF assms refl, of k a]
  show ?thesis
    unfolding int_left_W [OF assms(1,2)] amount int_right_W [OF assms(1,2)] by simp
qed

theorem pcode_shifts_witness:
  "evaluate_binary OpBehaviorIntLeft 4 4 (W 32 1) (W 8 0x90) = W 32 (push_bit 0x90 1)"
  using pcode_shifts [of 8 32 4 4 1 "0x90"] by (simp add: take_bit_eq_mod)

text \<open>
  A wide operand with a narrow amount: \<open>INT_LEFT\<close> of a 256-bit value by the byte 0x80 is zero,
  since the amount is extended with its sign, where \<open>INT_RIGHT\<close> shifts by 128 places.
\<close>

lemma pcode_wide_shift:
  "evaluate_binary OpBehaviorIntLeft 32 32 (W 256 1) (W 8 0x80) = W 256 0
   \<and> evaluate_binary OpBehaviorIntRight 32 32 (W 256 (2 ^ 200)) (W 8 0x80) = W 256 (2 ^ 72)"
proof
  show "evaluate_binary OpBehaviorIntLeft 32 32 (W 256 1) (W 8 0x80) = W 256 0"
    by (rule narrow_amount_left) (simp_all add: bit_iff_odd)
  show "evaluate_binary OpBehaviorIntRight 32 32 (W 256 (2 ^ 200)) (W 8 0x80) = W 256 (2 ^ 72)"
    using int_right_W [of 8 256 32 32 "2 ^ 200" "0x80"] by (simp add: take_bit_eq_mod drop_bit_eq_div)
qed

text \<open>
  Division in p-code: quotient and remainder, unsigned and signed with rounding towards zero,
  and a division by zero raises \<open>ClaripyZeroDivisionError\<close> in all four.
\<close>

lemma pcode_division:
  assumes "0 < n" and "x = take_bit n a" and "y = take_bit n b"
    and "sx = signed_take_bit (n - 1) a" and "sy = signed_take_bit (n - 1) b"
  shows "evaluate_binary OpBehaviorIntDiv so si (W n a) (W n b) =
           (if y = 0 then Inl ClaripyZeroDivisionError else W n (x div y))
       \<and> evaluate_binary OpBehaviorIntRem so si (W n a) (W n b) =
           (if y = 0 then Inl ClaripyZeroDivisionError else W n (x mod y))
       \<and> evaluate_binary OpBehaviorIntSdiv so si (W n a) (W n b) =
           (if sy = 0 then Inl ClaripyZeroDivisionError else W n (sx sdiv sy))
       \<and> evaluate_binary OpBehaviorIntSrem so si (W n a) (W n b) =
           (if sy = 0 then Inl ClaripyZeroDivisionError else W n (sx smod sy))"
  unfolding assms(2-5) using assms(1)
  by (simp add: OpBehaviorIntDiv_def OpBehaviorIntRem_def OpBehaviorIntSdiv_def OpBehaviorIntSrem_def
      cl_SDiv_def cl_SMod_def lift_W bv_simps)

text \<open>
  The factory: every opcode but \<open>IMARK\<close> has a behaviour, which carries that opcode, and the
  lookup of \<open>IMARK\<close> raises \<open>KeyError\<close>.
\<close>

lemma behavior_factory:
  "case get_behavior_for_opcode op of Inr b \<Rightarrow> opcode b = op \<and> op \<noteq> IMARK | Inl e \<Rightarrow> op = IMARK \<and> e = KeyError"
proof (cases "get_behavior_for_opcode op")
  case (Inl e)
  then show ?thesis using behavior_missing [of op e] by simp
next
  case (Inr b)
  then show ?thesis using behavior_opcode [OF Inr] behavior_missing [of op KeyError] by auto
qed

text \<open>
  The operations without semantics: evaluating a floating-point operation or \<open>PIECE\<close>, in either
  arity, raises \<open>AngrError\<close>.
\<close>

lemma unimplemented_behaviors:
  "\<forall>b \<in> {OpBehaviorFloatEqual, OpBehaviorFloatNotEqual, OpBehaviorFloatLess, OpBehaviorFloatLessEqual,
      OpBehaviorFloatNan, OpBehaviorFloatAdd, OpBehaviorFloatDiv, OpBehaviorFloatMult, OpBehaviorFloatSub,
      OpBehaviorFloatNeg, OpBehaviorFloatAbs, OpBehaviorFloatSqrt, OpBehaviorFloatInt2Float,
      OpBehaviorFloatFloat2Float, OpBehaviorFloatTrunc, OpBehaviorFloatCeil, OpBehaviorFloatFloor,
      OpBehaviorFloatRound, OpBehaviorPiece}.
     evaluate_unary b so si v = Inl AngrError \<and> evaluate_binary b so si v w = Inl AngrError"
  by (simp add: behavior_defs OpBehavior_init_def)

end
