(* ===== verification/Pcode_Emulate.thy ===== *)
theory Pcode_Emulate
  imports Pcode_Semantics "HOL-Library.Sublist"
begin

text \<open>
  The p-code emulator (\<open>PcodeEmulatorMixin\<close> of \<open>angr/engines/pcode/emulate.py\<close>) on concrete
  states. The state of the simulation is a record with the parts that the emulator reads and
  writes; the register file and the memory, which other plugins of angr implement, are a value of
  an unspecified type with load and store functions in the record of parameters, as are the two
  queries to pypcode. The emulator's own state is a second record: temporaries of the unique space,
  the index of the current operation, the calls of \<open>add_successor\<close> and of \<open>_inspect\<close> in order.
  A call of \<open>add_successor\<close> that passes \<open>self.state\<close> passes a reference, which is \<open>Live\<close> here; one
  that passes a copy is \<open>Copied\<close>.
\<close>

section \<open>Operations, states and parameters\<close>

record Varnode =
  space_name :: string
  vn_offset :: int
  vn_size :: int

record PcodeOp =
  op_opcode :: OpCode
  op_inputs :: "Varnode list"
  op_output :: "Varnode option"

record IRSB =
  irsb_addr :: int
  irsb_ops :: "PcodeOp list"
  irsb_jumpkind :: string

record 'p sim_state =
  plugins :: 'p
  ins_addr :: int
  statement_offset :: int
  exit_handled :: bool
  guard :: bool
  constraints :: "bool list"

datatype 'p succ_state = Live | Copied "'p sim_state"

record 'p successor =
  succ_state :: "'p succ_state"
  target :: operand
  succ_guard :: bool
  jumpkind :: string
  exit_ins_addr :: int

datatype inspect_event = Instruction_before int | Instruction_after

record 'p emulator =
  state :: "'p sim_state"
  pcode_tmps :: "int \<rightharpoonup> BVV"
  current_op_idx :: int
  successors :: "'p successor list"
  events :: "inspect_event list"

record 'p emu_env =
  getRegisterName :: "Varnode \<Rightarrow> string"
  getSpaceFromConst :: "Varnode \<Rightarrow> string"
  arch_registers :: "string \<Rightarrow> (int \<times> int) option"
  reg_load :: "'p \<Rightarrow> operand \<Rightarrow> int \<Rightarrow> BVV res"
  reg_store :: "'p \<Rightarrow> operand \<Rightarrow> BVV \<Rightarrow> 'p res"
  mem_load :: "'p \<Rightarrow> operand \<Rightarrow> int \<Rightarrow> BVV res"
  mem_store :: "'p \<Rightarrow> operand \<Rightarrow> BVV \<Rightarrow> 'p res"

abbreviation upd_state :: "('p sim_state \<Rightarrow> 'p sim_state) \<Rightarrow> 'p emulator \<Rightarrow> 'p emulator" where
  "upd_state f em \<equiv> em\<lparr>state := f (state em)\<rparr>"

section \<open>Strings and lists of Python\<close>

definition lower :: "string \<Rightarrow> string" where
  "lower s = map (\<lambda>c. let k = (of_char c :: nat) in if 65 \<le> k \<and> k \<le> 90 then char_of (k + 32) else c) s"

definition nth_res :: "'a list \<Rightarrow> nat \<Rightarrow> 'a res" where
  "nth_res xs i = (if i < length xs then Inr (xs ! i) else Inl IndexError)"

definition is_ram :: "string \<Rightarrow> bool" where
  "is_ram name \<longleftrightarrow> lower name \<in> {''ram'', ''mem''}"

section \<open>Reading and writing varnodes\<close>

definition get_register_offset :: "'p emu_env \<Rightarrow> string \<Rightarrow> int res" where
  "get_register_offset env name = (case arch_registers env name of None \<Rightarrow> Inl ValueError | Some r \<Rightarrow> Inr (fst r))"

definition map_register_name :: "'p emu_env \<Rightarrow> Varnode \<Rightarrow> int" where
  "map_register_name env vn =
     (case get_register_offset env (lower (getRegisterName env vn)) of
        Inr reg_offset \<Rightarrow> reg_offset
      | Inl _ \<Rightarrow> vn_offset vn + 0x100000)"

definition adjust_value_size :: "int \<Rightarrow> val \<Rightarrow> val" where
  "adjust_value_size num_bits v_in =
     bind_res (cl_size v_in) (\<lambda>n.
       if n > num_bits then cl_slice (Some (num_bits - 1)) (Some 0) v_in
       else if n < num_bits then cl_zero_extend (num_bits - n) v_in
       else v_in)"

definition set_value :: "'p emu_env \<Rightarrow> Varnode \<Rightarrow> val \<Rightarrow> 'p emulator \<Rightarrow> 'p emulator res" where
  "set_value env vn v em =
     bind_res (lift1 Inr (adjust_value_size (vn_size vn * 8) v)) (\<lambda>b.
       if vn_size vn * 8 \<noteq> int (bits b) then Inl AssertionError
       else if space_name vn = ''register'' then
         map_res (\<lambda>p. upd_state (plugins_update (\<lambda>_. p)) em)
           (reg_store env (plugins (state em)) (Num (map_register_name env vn)) b)
       else if space_name vn = ''unique'' then
         Inr (em\<lparr>pcode_tmps := (pcode_tmps em)(vn_offset vn \<mapsto> b)\<rparr>)
       else if is_ram (space_name vn) then
         map_res (\<lambda>p. upd_state (plugins_update (\<lambda>_. p)) em)
           (mem_store env (plugins (state em)) (Num (vn_offset vn)) b)
       else Inl AngrError)"

definition get_value :: "'p emu_env \<Rightarrow> Varnode \<Rightarrow> 'p emulator \<Rightarrow> (BVV \<times> 'p emulator) res" where
  "get_value env vn em =
     (let same = map_res (\<lambda>b. (b, em)) in
      if space_name vn = ''const'' then same (lift1 Inr (cl_BVV (vn_offset vn) (vn_size vn * 8)))
      else if space_name vn = ''register'' then
        same (reg_load env (plugins (state em)) (Num (map_register_name env vn)) (vn_size vn))
      else if space_name vn = ''unique'' then
        (case pcode_tmps em (vn_offset vn) of
           Some b \<Rightarrow> if int (bits b) = vn_size vn * 8 then Inr (b, em) else Inl AssertionError
         | None \<Rightarrow>
             bind_res (lift1 Inr (cl_BVV 0 (vn_size vn * 8))) (\<lambda>z.
               Inr (z, em\<lparr>pcode_tmps := (pcode_tmps em)(vn_offset vn \<mapsto> z)\<rparr>)))
      else if is_ram (space_name vn) then
        same (mem_load env (plugins (state em)) (Num (vn_offset vn)) (vn_size vn))
      else Inl AngrError)"

section \<open>Executing an operation\<close>

definition get_input :: "'p emu_env \<Rightarrow> PcodeOp \<Rightarrow> nat \<Rightarrow> 'p emulator \<Rightarrow> (BVV \<times> 'p emulator) res" where
  "get_input env op i em = bind_res (nth_res (op_inputs op) i) (\<lambda>vn. get_value env vn em)"

definition execute_unary :: "'p emu_env \<Rightarrow> OpBehavior \<Rightarrow> PcodeOp \<Rightarrow> 'p emulator \<Rightarrow> 'p emulator res" where
  "execute_unary env b op em =
     bind_res (get_input env op 0 em) (\<lambda>(in0, em').
     bind_res (nth_res (op_inputs op) 0) (\<lambda>vn.
     case op_output op of
       None \<Rightarrow> Inl AttributeError
     | Some out \<Rightarrow> set_value env out (evaluate_unary b (vn_size out) (vn_size vn) (Inr (Bv in0))) em'))"

definition execute_binary :: "'p emu_env \<Rightarrow> OpBehavior \<Rightarrow> PcodeOp \<Rightarrow> 'p emulator \<Rightarrow> 'p emulator res" where
  "execute_binary env b op em =
     (case op_output op of
        None \<Rightarrow> Inl AssertionError
      | Some out \<Rightarrow>
          bind_res (get_input env op 0 em) (\<lambda>(in0, em1).
          bind_res (get_input env op 1 em1) (\<lambda>(in1, em2).
          bind_res (nth_res (op_inputs op) 0) (\<lambda>vn.
          set_value env out
            (evaluate_binary b (vn_size out) (vn_size vn) (Inr (Bv in0)) (Inr (Bv in1))) em2))))"

definition execute_load :: "'p emu_env \<Rightarrow> PcodeOp \<Rightarrow> 'p emulator \<Rightarrow> 'p emulator res" where
  "execute_load env op em =
     bind_res (nth_res (op_inputs op) 0) (\<lambda>sp.
     let space = getSpaceFromConst env sp in
     bind_res (get_input env op 1 em) (\<lambda>(off, em').
     let p = plugins (state em') in
     if is_ram space then
       (case op_output op of
          None \<Rightarrow> Inl AttributeError
        | Some out \<Rightarrow> bind_res (mem_load env p (Bv off) (vn_size out)) (\<lambda>r. set_value env out (Inr (Bv r)) em'))
     else if sublist space ''register'' then
       (case op_output op of
          None \<Rightarrow> Inl AttributeError
        | Some out \<Rightarrow> bind_res (reg_load env p (Bv off) (vn_size out)) (\<lambda>r. set_value env out (Inr (Bv r)) em'))
     else Inl AngrError))"

definition execute_store :: "'p emu_env \<Rightarrow> PcodeOp \<Rightarrow> 'p emulator \<Rightarrow> 'p emulator res" where
  "execute_store env op em =
     bind_res (nth_res (op_inputs op) 0) (\<lambda>sp.
     let space = getSpaceFromConst env sp in
     bind_res (get_input env op 1 em) (\<lambda>(off, em1).
     bind_res (get_input env op 2 em1) (\<lambda>(d, em2).
     let p = plugins (state em2); stored = map_res (\<lambda>q. upd_state (plugins_update (\<lambda>_. q)) em2) in
     if is_ram space then stored (mem_store env p (Bv off) d)
     else if space = ''register'' then stored (reg_store env p (Bv off) d)
     else Inl AngrError)))"

definition add_successor :: "'p succ_state \<Rightarrow> operand \<Rightarrow> bool \<Rightarrow> string \<Rightarrow> 'p emulator \<Rightarrow> 'p emulator" where
  "add_successor st expr g kind em =
     em\<lparr>successors := successors em @
       [\<lparr>succ_state = st, target = expr, succ_guard = g, jumpkind = kind, exit_ins_addr = ins_addr (state em)\<rparr>]\<rparr>"

definition execute_branch :: "PcodeOp \<Rightarrow> 'p emulator \<Rightarrow> 'p emulator res" where
  "execute_branch op em =
     bind_res (nth_res (op_inputs op) 0) (\<lambda>dest.
     let (expr, em1) =
           (if space_name dest = ''const''
            then (ins_addr (state em), upd_state (statement_offset_update (\<lambda>_. current_op_idx em + vn_offset dest)) em)
            else (vn_offset dest, em));
         em2 = add_successor Live (Num expr) (guard (state em1)) ''Ijk_Boring'' em1
     in Inr (upd_state (exit_handled_update (\<lambda>_. True)) em2))"

definition execute_cbranch :: "'p emu_env \<Rightarrow> PcodeOp \<Rightarrow> 'p emulator \<Rightarrow> 'p emulator res" where
  "execute_cbranch env op em =
     (let exit_state = state em in
      bind_res (get_input env op 1 em) (\<lambda>(cond, em1).
      bind_res (nth_res (op_inputs op) 0) (\<lambda>dest.
      let (expr, exit_state') =
            (if space_name dest = ''const''
             then (ins_addr exit_state, exit_state\<lparr>statement_offset := current_op_idx em1 + vn_offset dest\<rparr>)
             else (vn_offset dest, exit_state))
      in bind_res (cl_ne (Inr (Bv cond)) (lit 0)) (\<lambda>taken.
         let em2 = add_successor (Copied exit_state') (Num expr) taken ''Ijk_Boring'' em1 in
         bind_res (cl_eq (Inr (Bv cond)) (lit 0)) (\<lambda>cont.
         Inr (upd_state (\<lambda>s. s\<lparr>constraints := constraints s @ [cont], guard := guard s \<and> cont\<rparr>) em2))))))"

definition execute_indirect_exit :: "'p emu_env \<Rightarrow> string \<Rightarrow> PcodeOp \<Rightarrow> 'p emulator \<Rightarrow> 'p emulator res" where
  "execute_indirect_exit env kind op em =
     bind_res (get_input env op 0 em) (\<lambda>(dest, em1).
     Inr (upd_state (exit_handled_update (\<lambda>_. True))
       (add_successor Live (Bv dest) (guard (state em1)) kind em1)))"

definition execute_ret :: "'p emu_env \<Rightarrow> PcodeOp \<Rightarrow> 'p emulator \<Rightarrow> 'p emulator res" where
  "execute_ret env = execute_indirect_exit env ''Ijk_Ret''"

definition execute_branchind :: "'p emu_env \<Rightarrow> PcodeOp \<Rightarrow> 'p emulator \<Rightarrow> 'p emulator res" where
  "execute_branchind env = execute_indirect_exit env ''Ijk_Boring''"

definition execute_callind :: "'p emu_env \<Rightarrow> PcodeOp \<Rightarrow> 'p emulator \<Rightarrow> 'p emulator res" where
  "execute_callind env = execute_indirect_exit env ''Ijk_Call''"

definition execute_call :: "PcodeOp \<Rightarrow> 'p emulator \<Rightarrow> 'p emulator res" where
  "execute_call op em =
     bind_res (nth_res (op_inputs op) 0) (\<lambda>dest.
     Inr (upd_state (exit_handled_update (\<lambda>_. True))
       (add_successor (Copied (state em)) (Num (vn_offset dest)) (guard (state em)) ''Ijk_Call'' em)))"

text \<open>
  The table of handlers: an operation that is special and has no entry raises \<open>KeyError\<close>.
\<close>

definition execute_special :: "'p emu_env \<Rightarrow> PcodeOp \<Rightarrow> 'p emulator \<Rightarrow> 'p emulator res" where
  "execute_special env op em =
     (case op_opcode op of
        LOAD \<Rightarrow> execute_load env op em
      | STORE \<Rightarrow> execute_store env op em
      | BRANCH \<Rightarrow> execute_branch op em
      | CBRANCH \<Rightarrow> execute_cbranch env op em
      | BRANCHIND \<Rightarrow> execute_branchind env op em
      | CALL \<Rightarrow> execute_call op em
      | CALLIND \<Rightarrow> execute_callind env op em
      | CALLOTHER \<Rightarrow> Inl AngrError
      | RETURN \<Rightarrow> execute_ret env op em
      | MULTIEQUAL \<Rightarrow> Inl AngrError
      | INDIRECT \<Rightarrow> Inl AngrError
      | SEGMENTOP \<Rightarrow> Inl AngrError
      | CPOOLREF \<Rightarrow> Inl AngrError
      | NEW \<Rightarrow> Inl AngrError
      | _ \<Rightarrow> Inl KeyError)"

definition execute_current_op :: "'p emu_env \<Rightarrow> PcodeOp \<Rightarrow> 'p emulator \<Rightarrow> 'p emulator res" where
  "execute_current_op env op em =
     bind_res (get_behavior_for_opcode (op_opcode op)) (\<lambda>b.
       if is_special b then execute_special env op em
       else if is_unary b then execute_unary env b op em
       else execute_binary env b op em)"

section \<open>Executing a block\<close>

definition inspect :: "inspect_event \<Rightarrow> 'p emulator \<Rightarrow> 'p emulator" where
  "inspect e em = em\<lparr>events := events em @ [e]\<rparr>"

text \<open>The instruction mark: it returns the address where the instruction falls through to.\<close>

definition handle_imark :: "nat \<Rightarrow> PcodeOp \<Rightarrow> 'p emulator \<Rightarrow> (int \<times> 'p emulator) res" where
  "handle_imark op_idx op em =
     (let em1 = (if op_idx > 0 then inspect Instruction_after em else em) in
      bind_res (nth_res (op_inputs op) 0) (\<lambda>vn0.
        let em2 = fold (\<lambda>vn. inspect (Instruction_before (vn_offset vn))) (op_inputs op) em1;
            em3 = upd_state (ins_addr_update (\<lambda>_. vn_offset vn0)) (em2\<lparr>pcode_tmps := Map.empty\<rparr>);
            vn_last = last (op_inputs op)
        in Inr (vn_offset vn_last + vn_size vn_last, em3)))"

fun ops_loop :: "'p emu_env \<Rightarrow> nat \<Rightarrow> nat \<Rightarrow> int \<Rightarrow> PcodeOp list \<Rightarrow> 'p emulator \<Rightarrow> (int \<times> 'p emulator) res" where
  "ops_loop env op_idx last_imark fallthru [] em = Inr (fallthru, em)"
| "ops_loop env op_idx last_imark fallthru (op # ops) em =
     (if op_opcode op = IMARK then
        bind_res (handle_imark op_idx op em) (\<lambda>(fallthru', em').
        ops_loop env (Suc op_idx) op_idx fallthru' ops em')
      else
        bind_res (execute_current_op env op (em\<lparr>current_op_idx := int op_idx - int last_imark\<rparr>)) (\<lambda>em'.
        ops_loop env (Suc op_idx) last_imark fallthru ops em'))"

definition handle_pcode_block :: "'p emu_env \<Rightarrow> IRSB \<Rightarrow> 'p emulator \<Rightarrow> 'p emulator res" where
  "handle_pcode_block env irsb em =
     (let start_op_idx = statement_offset (state em);
          em1 = upd_state (\<lambda>s. s\<lparr>exit_handled := False, ins_addr := irsb_addr irsb, statement_offset := 0\<rparr>)
                  (em\<lparr>pcode_tmps := Map.empty\<rparr>)
      in if start_op_idx \<noteq> 0 then Inl AssertionError
         else
           bind_res (ops_loop env 0 0 (irsb_addr irsb) (irsb_ops irsb) em1) (\<lambda>(fallthru, em2).
             let em3 = (if statement_offset (state em2) = 0 then inspect Instruction_after em2 else em2) in
             Inr (if exit_handled (state em3) then em3
                  else add_successor Live (Num fallthru) (guard (state em3)) (irsb_jumpkind irsb) em3)))"

end
