(* ===== verification/Pcode_Execution.thy ===== *)
theory Pcode_Execution
  imports Pcode_Emulate
begin

text \<open>
  Properties of the p-code emulator: reading back what was written, what an operation leaves
  alone, the exits of a block and which of them is feasible, and the error paths. The locale
  \<open>writable_space\<close> is the contract of an address space; the results of the operations whose output
  lies in such a space are derived from it and used for the unique space.
\<close>

section \<open>Reading and writing\<close>

lemma adjust_W:
  assumes "0 < k"
  shows "adjust_value_size (int k) (W n a) = W k (take_bit n a)"
proof -
  have "n + nat (int k - int n) = k" if "n < k" using that by simp
  then show ?thesis
    using assms cl_slice_low [of k n a]
    by (auto simp: adjust_value_size_def cl_zero_extend_W bvv_eq_iff min_def)
qed

lemma adjust_size:
  assumes "0 < s"
  shows "adjust_value_size (s * 8) (W n a) = W (nat (s * 8)) (take_bit n a)"
  using adjust_W [of "nat (s * 8)" n a] assms by simp

text \<open>What an operation other than an exit leaves alone.\<close>

definition control :: "'p emulator \<Rightarrow> int \<times> int \<times> bool \<times> bool \<times> bool list \<times> 'p successor list \<times> inspect_event list" where
  "control em = (ins_addr (state em), statement_offset (state em), exit_handled (state em), guard (state em),
     constraints (state em), successors em, events em)"

lemma control_tmps [simp]: "control (em\<lparr>pcode_tmps := t\<rparr>) = control em"
  and control_plugins [simp]: "control (upd_state (plugins_update f) em) = control em"
  and control_idx [simp]: "control (em\<lparr>current_op_idx := i\<rparr>) = control em"
  by (simp_all add: control_def)

lemma set_value_control: "set_value env vn v em = Inr em' \<Longrightarrow> control em' = control em"
  by (auto simp: set_value_def split: if_splits)

lemma get_value_control: "get_value env vn em = Inr (b, em') \<Longrightarrow> control em' = control em \<and> state em' = state em"
  by (auto simp: get_value_def Let_def split: if_splits option.splits)

lemma get_input_control: "get_input env op i em = Inr (b, em') \<Longrightarrow> control em' = control em \<and> state em' = state em"
  by (auto simp: get_input_def dest: get_value_control)

lemma execute_unary_control: "execute_unary env b op em = Inr em' \<Longrightarrow> control em' = control em"
  by (auto simp: execute_unary_def split: option.splits dest!: set_value_control get_input_control)

lemma execute_binary_control: "execute_binary env b op em = Inr em' \<Longrightarrow> control em' = control em"
  by (auto simp: execute_binary_def split: option.splits dest!: set_value_control get_input_control)

lemma execute_load_control: "execute_load env op em = Inr em' \<Longrightarrow> control em' = control em"
  by (auto simp: execute_load_def Let_def split: option.splits if_splits dest!: set_value_control get_input_control)

lemma execute_store_control: "execute_store env op em = Inr em' \<Longrightarrow> control em' = control em"
  by (auto simp: execute_store_def Let_def control_def split: if_splits dest!: get_input_control)

section \<open>Address spaces\<close>

locale writable_space =
  fixes env :: "'p emu_env" and member :: "Varnode \<Rightarrow> bool"
  assumes write_total: "member vn \<Longrightarrow> 0 < vn_size vn \<Longrightarrow> \<exists>em'. set_value env vn (W n x) em = Inr em'"
    and read_back: "member vn \<Longrightarrow> 0 < vn_size vn \<Longrightarrow> set_value env vn (W n x) em = Inr em' \<Longrightarrow>
      get_value env vn em' = Inr (bvv (nat (vn_size vn * 8)) (take_bit n x), em')"
begin

lemma unary_result:
  assumes "op_output op = Some out" and "member out" and "0 < vn_size out"
    and "op_inputs op = vn # vns" and "get_value env vn em = Inr (a, em1)"
    and "evaluate_unary b (vn_size out) (vn_size vn) (Inr (Bv a)) = W n x"
  shows "\<exists>em'. execute_unary env b op em = Inr em'
           \<and> get_value env out em' = Inr (bvv (nat (vn_size out * 8)) (take_bit n x), em')"
proof -
  have "execute_unary env b op em = set_value env out (W n x) em1"
    using assms(1,4-6) by (simp add: execute_unary_def get_input_def nth_res_def)
  then show ?thesis
    using write_total [OF assms(2,3), of n x em1] read_back [OF assms(2,3), of n x em1] by auto
qed

lemma binary_result:
  assumes "op_output op = Some out" and "member out" and "0 < vn_size out"
    and "op_inputs op = vn0 # vn1 # vns" and "get_value env vn0 em = Inr (a, em1)" and "get_value env vn1 em1 = Inr (c, em2)"
    and "evaluate_binary b (vn_size out) (vn_size vn0) (Inr (Bv a)) (Inr (Bv c)) = W n x"
  shows "\<exists>em'. execute_binary env b op em = Inr em'
           \<and> get_value env out em' = Inr (bvv (nat (vn_size out * 8)) (take_bit n x), em')"
proof -
  have "execute_binary env b op em = set_value env out (W n x) em2"
    using assms(1,4-7) by (simp add: execute_binary_def get_input_def nth_res_def)
  then show ?thesis
    using write_total [OF assms(2,3), of n x em2] read_back [OF assms(2,3), of n x em2] by auto
qed

end

lemma set_unique:
  assumes "space_name vn = ''unique''" and "0 < vn_size vn"
  shows "set_value env vn (W n x) em =
           Inr (em\<lparr>pcode_tmps := (pcode_tmps em)(vn_offset vn \<mapsto> bvv (nat (vn_size vn * 8)) (take_bit n x))\<rparr>)"
  using assms by (simp add: set_value_def adjust_size lift1_W)

interpretation unique: writable_space env "\<lambda>vn. space_name vn = ''unique''" for env
  by unfold_locales (auto simp: set_unique get_value_def)

lemma get_const:
  assumes "space_name vn = ''const''" and "0 \<le> vn_size vn"
  shows "get_value env vn em = Inr (bvv (nat (vn_size vn * 8)) (vn_offset vn), em)"
  using assms by (simp add: get_value_def cl_BVV_W lift1_W)

section \<open>Exits\<close>

definition unconditional :: "OpCode \<Rightarrow> bool" where
  "unconditional c \<longleftrightarrow> c \<in> {BRANCH, BRANCHIND, CALL, CALLIND, RETURN}"

definition is_exit :: "OpCode \<Rightarrow> bool" where
  "is_exit c \<longleftrightarrow> c = CBRANCH \<or> unconditional c"

text \<open>The path condition of a successor: the constraints of its state and its guard.\<close>

definition holds :: "'p sim_state \<Rightarrow> bool" where
  "holds s \<longleftrightarrow> list_all id (constraints s)"

definition feasible :: "'p emulator \<Rightarrow> 'p successor \<Rightarrow> bool" where
  "feasible em s \<longleftrightarrow> succ_guard s \<and> holds (case succ_state s of Live \<Rightarrow> state em | Copied st \<Rightarrow> st)"

text \<open>What one operation does to the exits.\<close>

inductive exit_step :: "OpCode \<Rightarrow> 'p emulator \<Rightarrow> 'p emulator \<Rightarrow> bool" where
  quiet: "\<not> is_exit c \<Longrightarrow> control em' = control em \<Longrightarrow> exit_step c em em'"
| leave: "unconditional c \<Longrightarrow> successors em' = successors em @ [s] \<Longrightarrow> succ_guard s = guard (state em) \<Longrightarrow>
    succ_state s = Live \<or> (\<exists>st. succ_state s = Copied st \<and> constraints st = constraints (state em)) \<Longrightarrow>
    exit_handled (state em') \<Longrightarrow> guard (state em') = guard (state em) \<Longrightarrow>
    constraints (state em') = constraints (state em) \<Longrightarrow> exit_step c em em'"
| branch: "c = CBRANCH \<Longrightarrow> successors em' = successors em @ [s] \<Longrightarrow> succ_guard s = t \<Longrightarrow>
    succ_state s = Copied st \<Longrightarrow> constraints st = constraints (state em) \<Longrightarrow>
    exit_handled (state em') = exit_handled (state em) \<Longrightarrow> guard (state em') = (guard (state em) \<and> \<not> t) \<Longrightarrow>
    constraints (state em') = constraints (state em) @ [\<not> t] \<Longrightarrow> exit_step c em em'"

lemma cl_ne_eq: "cl_ne (Inr (Bv c)) (lit 0) = Inr t \<Longrightarrow> cl_eq (Inr (Bv c)) (lit 0) = Inr u \<Longrightarrow> u = (\<not> t)"
  by (auto simp: cl_ne_def cl_eq_def lift2_def lit_def BVV_ne_def BVV_eq_def checked_def normalize_types_def
      compare_bits_def compare_bits_0_length_def split: if_splits)

lemma execute_cbranch_exit:
  assumes "execute_cbranch env op em = Inr em'"
  shows "exit_step CBRANCH em em'"
proof -
  obtain c em1 dest t u where *: "get_input env op 1 em = Inr (c, em1)" "nth_res (op_inputs op) 0 = Inr dest"
    "cl_ne (Inr (Bv c)) (lit 0) = Inr t" "cl_eq (Inr (Bv c)) (lit 0) = Inr u"
    using assms by (auto simp: execute_cbranch_def Let_def split: if_splits)
  note u = cl_ne_eq [OF *(3,4)] and input = get_input_control [OF *(1)]
  define rel where "rel \<longleftrightarrow> space_name dest = ''const''"
  define st where "st = (if rel then (state em)\<lparr>statement_offset := current_op_idx em1 + vn_offset dest\<rparr> else state em)"
  define expr where "expr = (if rel then ins_addr (state em) else vn_offset dest)"
  have "em' = upd_state (\<lambda>s. s\<lparr>constraints := constraints s @ [\<not> t], guard := guard s \<and> \<not> t\<rparr>)
      (add_successor (Copied st) (Num expr) t ''Ijk_Boring'' em1)"
    using assms * u by (simp add: execute_cbranch_def Let_def st_def expr_def flip: rel_def split: if_splits)
  moreover have "constraints st = constraints (state em)" by (simp add: st_def)
  ultimately show ?thesis
    using input by (intro branch [where t = t and st = st]) (auto simp: add_successor_def control_def)
qed

lemma leave_add:
  assumes "unconditional c" and "successors em1 = successors em" and "guard (state em1) = guard (state em)"
    and "constraints (state em1) = constraints (state em)" and "st = Live \<or> st = Copied (state em)"
    and "g = guard (state em)"
  shows "exit_step c em (upd_state (exit_handled_update (\<lambda>_. True)) (add_successor st expr g kind em1))"
  by (rule leave [where s = "\<lparr>succ_state = st, target = expr, succ_guard = g, jumpkind = kind,
        exit_ins_addr = ins_addr (state em1)\<rparr>"])
    (use assms in \<open>auto simp: add_successor_def\<close>)

lemma execute_leave_exit:
  shows "execute_branch op em = Inr em' \<Longrightarrow> exit_step BRANCH em em'"
    and "execute_call op em = Inr em' \<Longrightarrow> exit_step CALL em em'"
    and "execute_indirect_exit env kind op em = Inr em' \<Longrightarrow> unconditional c \<Longrightarrow> exit_step c em em'"
  by (auto simp: execute_branch_def execute_call_def execute_indirect_exit_def Let_def control_def unconditional_def
      simp del: add_successor_def split: if_splits intro!: leave_add dest!: get_input_control)

lemma unconditionals: "unconditional BRANCHIND" "unconditional CALLIND" "unconditional RETURN"
  by (simp_all add: unconditional_def)

lemma special_opcodes:
  "get_behavior_for_opcode c = Inr b \<Longrightarrow> is_exit c \<Longrightarrow> is_special b"
  by (cases c) (auto simp: get_behavior_for_opcode_def behaviors_def OpBehavior_init_def is_exit_def unconditional_def)

lemma execute_current_op_exit:
  assumes "execute_current_op env op em = Inr em'"
  shows "exit_step (op_opcode op) em em'"
proof -
  obtain b where b: "get_behavior_for_opcode (op_opcode op) = Inr b"
    using assms by (auto simp: execute_current_op_def)
  show ?thesis
  proof (cases "is_special b")
    case False
    then have "\<not> is_exit (op_opcode op)" using special_opcodes [OF b] by blast
    with False assms b show ?thesis
      by (intro quiet) (auto simp: execute_current_op_def split: if_splits dest: execute_unary_control execute_binary_control)
  next
    case True
    with assms b have special: "execute_special env op em = Inr em'" by (simp add: execute_current_op_def)
    show ?thesis
    proof (cases "is_exit (op_opcode op)")
      case True
      with special show ?thesis
        unfolding is_exit_def unconditional_def
        by (auto simp: execute_special_def execute_ret_def execute_branchind_def execute_callind_def
            intro: execute_cbranch_exit execute_leave_exit(1,2) unconditionals [THEN execute_leave_exit(3) [rotated]])
    next
      case False
      with special show ?thesis
        by (intro quiet) (auto simp: execute_special_def is_exit_def unconditional_def split: OpCode.splits
            dest: execute_load_control execute_store_control)
    qed
  qed
qed

section \<open>Blocks\<close>

lemma fold_inspect [simp]:
  "successors (fold (\<lambda>vn. inspect (g vn)) vns em) = successors em"
  "state (fold (\<lambda>vn. inspect (g vn)) vns em) = state em"
  by (induction vns arbitrary: em) (simp_all add: inspect_def)

lemma handle_imark_control:
  assumes "handle_imark i op em = Inr (f, em')"
  shows "successors em' = successors em" and "exit_handled (state em') = exit_handled (state em)"
    and "guard (state em') = guard (state em)" and "constraints (state em') = constraints (state em)"
  using assms by (auto simp: handle_imark_def Let_def inspect_def [of Instruction_after] split: if_splits)

lemma not_exit_IMARK: "\<not> is_exit IMARK" "\<not> unconditional IMARK"
  by (simp_all add: is_exit_def unconditional_def)

lemma exit_step_counts:
  assumes "exit_step c em em'"
  shows "length (successors em') = length (successors em) + of_bool (is_exit c)"
    and "exit_handled (state em') \<longleftrightarrow> exit_handled (state em) \<or> unconditional c"
  using assms by (cases rule: exit_step.cases; auto simp: control_def is_exit_def unconditional_def)+

lemma ops_loop_counts:
  assumes "ops_loop env i l f ops em = Inr (f', em')"
  shows "length (successors em') = length (successors em) + length (filter (is_exit \<circ> op_opcode) ops)
       \<and> (exit_handled (state em') \<longleftrightarrow> exit_handled (state em) \<or> list_ex (unconditional \<circ> op_opcode) ops)"
  using assms
proof (induction ops arbitrary: i l f em)
  case (Cons op ops)
  show ?case
  proof (cases "op_opcode op = IMARK")
    case True
    with Cons.prems obtain f1 em1 where "handle_imark i op em = Inr (f1, em1)"
      "ops_loop env (Suc i) i f1 ops em1 = Inr (f', em')" by auto
    with Cons.IH [of "Suc i" i f1 em1] handle_imark_control [of i op em f1 em1] True not_exit_IMARK
    show ?thesis by simp
  next
    case False
    with Cons.prems obtain em1 where e: "execute_current_op env op (em\<lparr>current_op_idx := int i - int l\<rparr>) = Inr em1"
      "ops_loop env (Suc i) l f ops em1 = Inr (f', em')" by auto
    with Cons.IH [of "Suc i" l f em1] exit_step_counts [OF execute_current_op_exit [OF e(1)]]
    show ?thesis by auto
  qed
qed simp

text \<open>
  As long as no unconditional exit was taken, the guard of the running state says whether its
  constraints hold, and exactly one of the recorded exits is feasible once it does not.
\<close>

definition running :: "'p emulator \<Rightarrow> bool" where
  "running em \<longleftrightarrow> \<not> exit_handled (state em) \<and> holds (state em) = guard (state em)
     \<and> list_all (\<lambda>s. succ_state s \<noteq> Live) (successors em)
     \<and> length (filter (feasible em) (successors em)) = (if guard (state em) then 0 else 1)"

definition finished :: "'p emulator \<Rightarrow> bool" where
  "finished em \<longleftrightarrow> exit_handled (state em) \<and> length (filter (feasible em) (successors em)) = 1"

lemma feasible_copied:
  assumes "list_all (\<lambda>s. succ_state s \<noteq> Live) xs"
  shows "filter (feasible em) xs = filter (feasible em') xs"
  using assms by (induction xs) (auto simp: feasible_def split: succ_state.splits)

lemma running_step:
  assumes "exit_step c em em'" and "running em"
  shows "if unconditional c then finished em' else running em'"
  using assms(1)
proof (cases rule: exit_step.cases)
  case quiet
  then have "running em'" using assms(2) feasible_copied [of "successors em" em' em]
    by (auto simp: running_def control_def holds_def)
  with quiet show ?thesis by (simp add: is_exit_def)
next
  case (leave s)
  then show ?thesis using assms(2) feasible_copied [of "successors em" em' em]
    by (auto simp: running_def finished_def holds_def feasible_def split: succ_state.splits if_splits)
next
  case (branch s t st)
  then show ?thesis using assms(2) feasible_copied [of "successors em" em' em]
    by (auto simp: running_def finished_def holds_def feasible_def unconditional_def split: succ_state.splits if_splits)
qed

lemma running_loop:
  assumes "ops_loop env i l f ops em = Inr (f', em')" and "running em"
    and "list_all (\<lambda>op. \<not> unconditional (op_opcode op)) (butlast ops)"
  shows "finished em' \<or> running em'"
  using assms
proof (induction ops arbitrary: i l f em)
  case (Cons op ops)
  show ?case
  proof (cases "op_opcode op = IMARK")
    case True
    with Cons.prems obtain f1 em1 where e: "handle_imark i op em = Inr (f1, em1)"
      "ops_loop env (Suc i) i f1 ops em1 = Inr (f', em')" by auto
    have "running em1"
      using Cons.prems(2) handle_imark_control [OF e(1)] feasible_copied [of "successors em" em1 em]
      by (simp add: running_def holds_def)
    then show ?thesis using Cons.IH [OF e(2)] Cons.prems(3) by (auto split: if_splits)
  next
    case False
    with Cons.prems obtain em1 where e: "execute_current_op env op (em\<lparr>current_op_idx := int i - int l\<rparr>) = Inr em1"
      "ops_loop env (Suc i) l f ops em1 = Inr (f', em')" by auto
    have "running (em\<lparr>current_op_idx := int i - int l\<rparr>)"
      using Cons.prems(2) feasible_copied [of "successors em" "em\<lparr>current_op_idx := int i - int l\<rparr>" em]
      by (simp add: running_def)
    note step = running_step [OF execute_current_op_exit [OF e(1)] this]
    show ?thesis
    proof (cases "unconditional (op_opcode op)")
      case True
      then have "ops = []" using Cons.prems(3) by (auto split: if_splits)
      with e(2) step True show ?thesis by auto
    next
      case False
      then show ?thesis using step Cons.IH [OF e(2)] Cons.prems(3) by (auto split: if_splits)
    qed
  qed
qed simp

text \<open>The two ends of a block around the loop over its operations.\<close>

definition block_start :: "IRSB \<Rightarrow> 'p emulator \<Rightarrow> 'p emulator" where
  "block_start irsb em = upd_state (\<lambda>s. s\<lparr>exit_handled := False, ins_addr := irsb_addr irsb, statement_offset := 0\<rparr>)
     (em\<lparr>pcode_tmps := Map.empty\<rparr>)"

definition block_end :: "IRSB \<Rightarrow> int \<Rightarrow> 'p emulator \<Rightarrow> 'p emulator" where
  "block_end irsb f em =
     (let em' = (if statement_offset (state em) = 0 then inspect Instruction_after em else em) in
      if exit_handled (state em) then em'
      else add_successor Live (Num f) (guard (state em)) (irsb_jumpkind irsb) em')"

lemma handle_pcode_block_eq:
  "handle_pcode_block env irsb em =
     (if statement_offset (state em) \<noteq> 0 then Inl AssertionError
      else map_res (\<lambda>(f, em'). block_end irsb f em')
        (ops_loop env 0 0 (irsb_addr irsb) (irsb_ops irsb) (block_start irsb em)))"
  by (cases "ops_loop env 0 0 (irsb_addr irsb) (irsb_ops irsb) (block_start irsb em)")
    (auto simp: handle_pcode_block_def block_start_def block_end_def Let_def inspect_def)

lemma handle_pcode_block_elim:
  assumes "handle_pcode_block env irsb em = Inr em'"
  obtains f em2 where "ops_loop env 0 0 (irsb_addr irsb) (irsb_ops irsb) (block_start irsb em) = Inr (f, em2)"
    and "em' = block_end irsb f em2"
  using assms by (auto simp: handle_pcode_block_eq split: if_splits)

text \<open>A register file and a memory as maps from offsets, and a state without exits.\<close>

definition map_env :: "(int \<rightharpoonup> BVV) emu_env" where
  "map_env = \<lparr>getRegisterName = (\<lambda>vn. ''RAX''), getSpaceFromConst = (\<lambda>vn. ''reg''),
     arch_registers = (\<lambda>name. if name = ''rax'' then Some (16, 8) else None),
     reg_load = (\<lambda>p off n. case off of Num k \<Rightarrow> (case p k of Some b \<Rightarrow> Inr b | None \<Rightarrow> Inl SimError) | Bv b \<Rightarrow> Inr b),
     reg_store = (\<lambda>p off b. case off of Num k \<Rightarrow> Inr (p(k \<mapsto> b)) | Bv _ \<Rightarrow> Inl SimError),
     mem_load = (\<lambda>p off n. Inl SimError), mem_store = (\<lambda>p off b. Inl SimError)\<rparr>"

definition start_emulator :: "(int \<rightharpoonup> BVV) emulator" where
  "start_emulator = \<lparr>state = \<lparr>plugins = Map.empty, ins_addr = 0, statement_offset = 0, exit_handled = False,
     guard = True, constraints = []\<rparr>, pcode_tmps = Map.empty, current_op_idx = 0, successors = [], events = []\<rparr>"

definition const_vn :: "int \<Rightarrow> int \<Rightarrow> Varnode" where
  "const_vn k n = \<lparr>space_name = ''const'', vn_offset = k, vn_size = n\<rparr>"

definition cond_block :: IRSB where
  "cond_block = \<lparr>irsb_addr = 0x1000, irsb_ops =
     [\<lparr>op_opcode = IMARK, op_inputs = [\<lparr>space_name = ''ram'', vn_offset = 0x1000, vn_size = 4\<rparr>], op_output = None\<rparr>,
      \<lparr>op_opcode = CBRANCH, op_inputs = [\<lparr>space_name = ''ram'', vn_offset = 0x2000, vn_size = 8\<rparr>, const_vn 1 1], op_output = None\<rparr>,
      \<lparr>op_opcode = BRANCH, op_inputs = [\<lparr>space_name = ''ram'', vn_offset = 0x3000, vn_size = 8\<rparr>], op_output = None\<rparr>],
     irsb_jumpkind = ''Ijk_Boring''\<rparr>"

lemma cond_block_runs: "\<exists>em'. handle_pcode_block map_env cond_block start_emulator = Inr em'"
proof -
  have "get_value map_env (const_vn 1 1) em = Inr (bvv 8 1, em)" for em
    using get_const [of "const_vn 1 1"] by (simp add: const_vn_def)
  moreover have "get_behavior_for_opcode CBRANCH = Inr (OpBehavior_init CBRANCH False True)"
    "get_behavior_for_opcode BRANCH = Inr (OpBehavior_init BRANCH False True)"
    by (simp_all add: get_behavior_for_opcode_def behaviors_def)
  moreover have "cl_ne (W 8 1) (lit 0) = Inr True" "cl_eq (W 8 1) (lit 0) = Inr False"
    by (simp_all add: cl_cmp_W take_bit_eq_mod)
  ultimately show ?thesis
    by (simp add: handle_pcode_block_eq cond_block_def start_emulator_def block_start_def handle_imark_def nth_res_def
        execute_current_op_def execute_special_def execute_cbranch_def execute_branch_def get_input_def
        OpBehavior_init_def add_successor_def Let_def)
qed

section \<open>Properties\<close>

text \<open>
  C7. Executing a block on concrete values has exactly one feasible successor: if the state that
  comes in satisfies its constraints and its guard is true, and no unconditional exit stands before
  the last operation, then among the successors that \<open>handle_pcode_block\<close> adds (taken conditional
  branches, the unconditional exit, or the fall-through) exactly one has a true guard and
  constraints that hold.
\<close>

theorem block_one_feasible:
  assumes "handle_pcode_block env irsb em = Inr em'" and "successors em = []"
    and "guard (state em)" and "holds (state em)"
    and "list_all (\<lambda>op. \<not> unconditional (op_opcode op)) (butlast (irsb_ops irsb))"
  shows "length (filter (feasible em') (successors em')) = 1"
proof -
  obtain f em2 where loop: "ops_loop env 0 0 (irsb_addr irsb) (irsb_ops irsb) (block_start irsb em) = Inr (f, em2)"
    and em': "em' = block_end irsb f em2" by (rule handle_pcode_block_elim [OF assms(1)])
  have "running (block_start irsb em)" using assms(2-4) by (simp add: running_def block_start_def holds_def)
  then consider "finished em2" | "running em2" using running_loop [OF loop _ assms(5)] by blast
  then show ?thesis
  proof cases
    case 1
    then have same: "state em' = state em2" "successors em' = successors em2"
      by (simp_all add: em' block_end_def finished_def inspect_def)
    have "feasible em' = feasible em2" by (rule ext) (simp only: feasible_def same)
    with 1 same(2) show ?thesis by (simp add: finished_def)
  next
    case 2
    define s :: "'a successor" where "s = \<lparr>succ_state = Live, target = Num f, succ_guard = guard (state em2),
      jumpkind = irsb_jumpkind irsb, exit_ins_addr = ins_addr (state em2)\<rparr>"
    have "successors em' = successors em2 @ [s]" "state em' = state em2"
      using 2 by (simp_all add: em' block_end_def running_def inspect_def add_successor_def s_def)
    moreover from this have "feasible em' s \<longleftrightarrow> guard (state em2)" using 2 by (simp add: feasible_def running_def s_def)
    moreover have "filter (feasible em') (successors em2) = filter (feasible em2) (successors em2)"
      by (rule feasible_copied) (use 2 in \<open>simp add: running_def\<close>)
    ultimately show ?thesis using 2 by (simp add: running_def)
  qed
qed

theorem block_one_feasible_witness:
  "\<exists>em'. handle_pcode_block map_env cond_block start_emulator = Inr em'
     \<and> length (filter (feasible em') (successors em')) = 1"
proof -
  obtain em' where run: "handle_pcode_block map_env cond_block start_emulator = Inr em'"
    using cond_block_runs by blast
  then have "length (filter (feasible em') (successors em')) = 1"
    by (rule block_one_feasible) (simp_all add: start_emulator_def holds_def cond_block_def unconditional_def)
  with run show ?thesis by blast
qed

text \<open>
  The exits of a block: \<open>handle_pcode_block\<close> adds one successor for each branch, call and return
  of the block and, if none of them is unconditional, one more for the fall-through.
\<close>

lemma block_exit_count:
  assumes "handle_pcode_block env irsb em = Inr em'"
  shows "length (successors em') = length (successors em) + length (filter (is_exit \<circ> op_opcode) (irsb_ops irsb))
           + of_bool (\<not> list_ex (unconditional \<circ> op_opcode) (irsb_ops irsb))"
proof -
  obtain f em2 where loop: "ops_loop env 0 0 (irsb_addr irsb) (irsb_ops irsb) (block_start irsb em) = Inr (f, em2)"
    and em': "em' = block_end irsb f em2" by (rule handle_pcode_block_elim [OF assms])
  show ?thesis
    using ops_loop_counts [OF loop] by (simp add: em' block_end_def block_start_def inspect_def add_successor_def)
qed

text \<open>
  A temporary reads back: after writing a value to a varnode of the unique space, reading the
  same varnode gives the value truncated or extended with zeros to the varnode's size, and no other
  temporary has changed.
\<close>

lemma unique_roundtrip:
  assumes "space_name vn = ''unique''" and "0 < vn_size vn"
  shows "\<exists>em'. set_value env vn (W n x) em = Inr em'
           \<and> get_value env vn em' = Inr (bvv (nat (vn_size vn * 8)) (take_bit n x), em')
           \<and> state em' = state em \<and> (\<forall>k. k \<noteq> vn_offset vn \<longrightarrow> pcode_tmps em' k = pcode_tmps em k)"
  using assms set_unique [OF assms] unique.read_back [OF assms] by fastforce

text \<open>
  A register reads back: if the register file returns what was last stored at an offset, then
  writing a varnode of the register space and reading it gives the value at the varnode's size,
  whether archinfo knows the register's name or not.
\<close>

lemma register_roundtrip:
  assumes law: "\<And>p q off b. reg_store env p off b = Inr q \<Longrightarrow> reg_load env q off (int (bits b) div 8) = Inr b"
    and "space_name vn = ''register''" and "0 < vn_size vn" and "set_value env vn (W n x) em = Inr em'"
  shows "get_value env vn em' = Inr (bvv (nat (vn_size vn * 8)) (take_bit n x), em')"
  using assms(2-4) law [of "plugins (state em)" "Num (map_register_name env vn)" "bvv (nat (vn_size vn * 8)) (take_bit n x)"]
  by (auto simp: set_value_def get_value_def adjust_size lift1_W)

text \<open>
  Executing an integer addition end to end: from two constants of the size of the output, an
  \<open>INT_ADD\<close> whose output is a temporary leaves the sum modulo the width there.
\<close>

lemma int_add_executes:
  assumes "op_opcode op = INT_ADD" and "op_inputs op = [vn0, vn1]" and "op_output op = Some out"
    and "space_name vn0 = ''const''" and "space_name vn1 = ''const''" and "space_name out = ''unique''"
    and "0 < vn_size out" and "vn_size vn0 = vn_size out" and "vn_size vn1 = vn_size out"
  shows "\<exists>em'. execute_current_op env op em = Inr em'
           \<and> get_value env out em' = Inr (bvv (nat (vn_size out * 8)) (vn_offset vn0 + vn_offset vn1), em')"
proof -
  let ?n = "nat (vn_size out * 8)"
  have n: "0 < ?n" using assms(7) by simp
  have "get_behavior_for_opcode INT_ADD = Inr OpBehaviorIntAdd"
    by (simp add: get_behavior_for_opcode_def behaviors_def)
  moreover have "\<not> is_special OpBehaviorIntAdd" "\<not> is_unary OpBehaviorIntAdd"
    by (simp_all add: OpBehaviorIntAdd_def OpBehavior_init_def)
  moreover have "evaluate_binary OpBehaviorIntAdd (vn_size out) (vn_size vn0) (W ?n (vn_offset vn0)) (W ?n (vn_offset vn1)) =
      W ?n (vn_offset vn0 + vn_offset vn1)"
    using n by (simp add: OpBehaviorIntAdd_def cl_ring_W)
  ultimately show ?thesis
    using unique.binary_result [OF assms(3,6,7,2), of env em "bvv ?n (vn_offset vn0)" em "bvv ?n (vn_offset vn1)" em
        OpBehaviorIntAdd ?n "vn_offset vn0 + vn_offset vn1"]
      get_const [OF assms(4), of env em] get_const [OF assms(5), of env em] assms(1,7-9)
    by (simp add: execute_current_op_def)
qed

text \<open>
  Error paths of the emulator: an address space that is neither constant, register, unique nor
  memory raises \<open>AngrError\<close> on a read and on a write, the operations without emulation raise
  \<open>AngrError\<close>, and the special operations without a handler raise \<open>KeyError\<close>.
\<close>

lemma emulator_errors:
  assumes "space_name vn \<notin> {''const'', ''register'', ''unique''}" and "\<not> is_ram (space_name vn)" and "0 < vn_size vn"
  shows "get_value env vn em = Inl AngrError \<and> set_value env vn (W n x) em = Inl AngrError
       \<and> (\<forall>c \<in> {CALLOTHER, MULTIEQUAL, INDIRECT, SEGMENTOP, CPOOLREF, NEW}. \<forall>ins out.
            execute_current_op env \<lparr>op_opcode = c, op_inputs = ins, op_output = out\<rparr> em = Inl AngrError)
       \<and> (\<forall>c \<in> {CAST, PTRADD, PTRSUB}. \<forall>ins out.
            execute_current_op env \<lparr>op_opcode = c, op_inputs = ins, op_output = out\<rparr> em = Inl KeyError)"
  using assms
  by (simp add: get_value_def set_value_def adjust_size lift1_W execute_current_op_def execute_special_def
      get_behavior_for_opcode_def behaviors_def OpBehavior_init_def)



text \<open>
  The space of a load is tested by \<open>space.name in "register"\<close>, a substring test: a load from any
  space whose name occurs in the word reads the register file, where a store to it raises
  \<open>AngrError\<close>.
\<close>

lemma load_space_substring:
  assumes "sublist space ''register''" and "space \<noteq> ''register''" and "\<not> is_ram space"
    and "getSpaceFromConst env sp = space" and "op_inputs op = [sp, vn1, vn2]" and "op_output op = Some out"
    and "get_value env vn1 em = Inr (off, em1)" and "get_value env vn2 em1 = Inr (d, em2)"
  shows "execute_load env op em =
           bind_res (reg_load env (plugins (state em)) (Bv off) (vn_size out)) (\<lambda>r. set_value env out (Inr (Bv r)) em1)
       \<and> execute_store env op em = Inl AngrError"
  using assms get_value_control [OF assms(7)]
  by (simp add: execute_load_def execute_store_def get_input_def nth_res_def)

end
