(* ===== verification/Paged_Memory.thy ===== *)
theory Paged_Memory
  imports Prelude
begin

text \<open>
  The memory plugin as the heaps use it (\<open>PagedMemoryMixin\<close> of
  \<open>angr/storage/memory_mixins/paged_memory/paged_memory_mixin.py\<close>) on concrete data: byte contents
  and the set of pages that exist. Addresses divide into page number and offset; a store or a load
  that crosses a page continues on the next page number modulo the number of pages; a store creates
  the pages that it writes. What a load of a page that does not exist creates is not recorded: it
  leaves the contents as they are. The last section states as an interface what the heaps rely on:
  a word reads back after it was stored, and a store leaves disjoint words alone.
\<close>

section \<open>Pages and bytes\<close>

datatype endness = Iend_BE | Iend_LE

record paged_memory =
  arch_bytes :: nat
  contents :: "int \<Rightarrow> 8 word"
  pages :: "int set"

definition page_size :: int where
  "page_size = 0x1000"

definition max_pageno :: "paged_memory \<Rightarrow> int" where
  "max_pageno m = 2 ^ (8 * arch_bytes m) div page_size"

definition divide_addr :: "int \<Rightarrow> int \<times> int" where
  "divide_addr addr = (addr div page_size, addr mod page_size)"

text \<open>The address of the byte \<open>i\<close> places after \<open>addr\<close>, page by page.\<close>

definition byte_addr :: "paged_memory \<Rightarrow> int \<Rightarrow> nat \<Rightarrow> int" where
  "byte_addr m addr i =
     (let (pageno, pageoff) = divide_addr addr; off = pageoff + int i in
      if off < page_size then addr + int i
      else (pageno + off div page_size) mod max_pageno m * page_size + off mod page_size)"

text \<open>The place of byte \<open>i\<close> in a value of \<open>n\<close> bytes.\<close>

definition weight :: "endness \<Rightarrow> nat \<Rightarrow> nat \<Rightarrow> nat" where
  "weight e n i = (case e of Iend_BE \<Rightarrow> n - 1 - i | Iend_LE \<Rightarrow> i)"

definition word_at :: "paged_memory \<Rightarrow> int \<Rightarrow> nat \<Rightarrow> endness \<Rightarrow> int" where
  "word_at m addr n e = (\<Sum>i\<leftarrow>[0..<n]. uint (contents m (byte_addr m addr i)) * 256 ^ weight e n i)"

definition mload :: "paged_memory \<Rightarrow> int \<Rightarrow> nat \<Rightarrow> endness \<Rightarrow> int res" where
  "mload m addr n e = (if addr < 0 then Inl ValueError else Inr (word_at m addr n e))"

definition write_bytes :: "paged_memory \<Rightarrow> int \<Rightarrow> int \<Rightarrow> nat \<Rightarrow> endness \<Rightarrow> int \<Rightarrow> 8 word" where
  "write_bytes m addr v n e =
     fold (\<lambda>i c. c(byte_addr m addr i := word_of_int (v div 256 ^ weight e n i))) [0..<n] (contents m)"

definition mstore :: "paged_memory \<Rightarrow> int \<Rightarrow> int \<Rightarrow> nat \<Rightarrow> endness \<Rightarrow> paged_memory res" where
  "mstore m addr v n e =
     (if n = 0 then Inr m
      else if addr < 0 then Inl ValueError
      else Inr (m\<lparr>contents := write_bytes m addr v n e,
                  pages := set (map (\<lambda>i. byte_addr m addr i div page_size) [0..<n]) \<union> pages m\<rparr>))"

section \<open>Mapping pages\<close>

text \<open>
  \<open>map_region\<close> stops with an error at the first page that exists; the pages before it stay mapped.
  An offset in a page is always below the size of the page, which the loop's guard repeats.
\<close>

function map_loop :: "int \<Rightarrow> int \<Rightarrow> int \<Rightarrow> int \<Rightarrow> paged_memory \<Rightarrow> py_error option \<times> paged_memory" where
  "map_loop pageno pageoff size_done len m =
     (if size_done < len \<and> pageoff < page_size then
        if pageno \<in> pages m then (Some SimMemoryError, m)
        else map_loop ((pageno + 1) mod max_pageno m) 0 (size_done + (page_size - pageoff)) len
               (m\<lparr>pages := insert pageno (pages m)\<rparr>)
      else (None, m))"
  by pat_completeness auto
termination
  by (relation "measure (\<lambda>(_, _, size_done, len, _). nat (len - size_done))") auto

definition map_region :: "int \<Rightarrow> int \<Rightarrow> paged_memory \<Rightarrow> py_error option \<times> paged_memory" where
  "map_region addr len m = (let (pageno, pageoff) = divide_addr addr in map_loop pageno pageoff 0 len m)"

definition is_mapped :: "paged_memory \<Rightarrow> int \<Rightarrow> bool" where
  "is_mapped m addr \<longleftrightarrow> fst (divide_addr addr) \<in> pages m"

declare map_loop.simps [simp del]

section \<open>Reading what was written\<close>

lemma page_size_pos: "0 < page_size"
  by (simp add: page_size_def)

lemma page_size_dvd: "2 \<le> n \<Longrightarrow> page_size dvd 2 ^ (8 * n)"
  using le_imp_power_dvd [of 12 "8 * n" "2 :: int"] by (simp add: page_size_def)

abbreviation fits :: "paged_memory \<Rightarrow> int \<Rightarrow> nat \<Rightarrow> bool" where
  "fits m addr n \<equiv> 2 \<le> arch_bytes m \<and> 0 \<le> addr \<and> addr + int n \<le> 2 ^ (8 * arch_bytes m)"

lemma byte_addr_fits:
  assumes "fits m addr n" and "i < n"
  shows "byte_addr m addr i = addr + int i"
proof -
  define off where "off = addr mod page_size + int i"
  have sum: "addr + int i = addr div page_size * page_size + off" by (simp add: off_def)
  have max: "max_pageno m * page_size = 2 ^ (8 * arch_bytes m)"
    using assms(1) page_size_dvd [of "arch_bytes m"] by (simp add: max_pageno_def)
  have split: "addr div page_size + off div page_size = (addr + int i) div page_size"
    unfolding sum using page_size_pos by simp
  have "addr + int i < max_pageno m * page_size" using assms max by simp
  then have "(addr + int i) div page_size < max_pageno m"
    using page_size_pos by (simp add: int_div_less_iff)
  moreover have "0 \<le> (addr + int i) div page_size"
    using assms page_size_pos by (simp add: pos_imp_zdiv_nonneg_iff)
  moreover have "off mod page_size = (addr + int i) mod page_size"
    unfolding sum by simp
  ultimately show ?thesis
    by (simp add: byte_addr_def divide_addr_def Let_def split flip: off_def)
qed

lemma write_bytes_at:
  assumes "fits m addr n"
  shows "write_bytes m addr v n e a =
    (if addr \<le> a \<and> a < addr + int n then word_of_int (v div 256 ^ weight e n (nat (a - addr))) else contents m a)"
proof -
  have "fold (\<lambda>i c. c(byte_addr m addr i := word_of_int (v div 256 ^ weight e n i))) [0..<k] c a =
    (if addr \<le> a \<and> a < addr + int k then word_of_int (v div 256 ^ weight e n (nat (a - addr))) else c a)"
    if "k \<le> n" for k c
    using that byte_addr_fits [OF assms]
    by (induction k arbitrary: c) (auto simp: nat_eq_iff)
  from this [OF order.refl, of "contents m"] show ?thesis unfolding write_bytes_def .
qed

lemma bytes_value: "(\<Sum>i<n. (v div 256 ^ i mod 256) * 256 ^ i) = (v :: int) mod 256 ^ n"
proof (induction n)
  case (Suc n)
  have "v mod 256 ^ Suc n = v mod (256 ^ n * 256)" by (simp add: mult.commute)
  also have "\<dots> = v div 256 ^ n mod 256 * 256 ^ n + v mod 256 ^ n"
    by (subst zmod_zmult2_eq) (simp_all add: mult.commute)
  finally show ?case using Suc by simp
qed simp

lemma weight_weight: "i < n \<Longrightarrow> weight e n (weight e n i) = i" "i < n \<Longrightarrow> weight e n i < n"
  by (auto simp: weight_def split: endness.splits)

lemma word_at_sum: "word_at m addr n e = (\<Sum>i<n. uint (contents m (byte_addr m addr (weight e n i))) * 256 ^ i)"
  unfolding word_at_def sum_list_distinct_conv_sum_set [OF distinct_upt]
  by (rule sum.reindex_bij_witness [of _ "weight e n" "weight e n"]) (auto simp: weight_weight)

lemma word_at_range: "0 \<le> word_at m addr n e" "word_at m addr n e < 256 ^ n"
proof -
  define f where "f i = uint (contents m (byte_addr m addr (weight e n i)))" for i
  have f: "0 \<le> f i" "f i < 256" for i
    using unsigned_less [of "contents m (byte_addr m addr (weight e n i))"] by (simp_all add: f_def)
  then show "0 \<le> word_at m addr n e" by (simp add: word_at_sum sum_nonneg flip: f_def)
  have "(\<Sum>i<k. f i * 256 ^ i) < 256 ^ k" for k
  proof (induction k)
    case (Suc k)
    have "f k * 256 ^ k \<le> 255 * 256 ^ k" using f(2) [of k] by (intro mult_right_mono) simp_all
    then have "(\<Sum>i<Suc k. f i * 256 ^ i) < 256 ^ k + 255 * 256 ^ k" using Suc by (simp only: sum.lessThan_Suc)
    then show ?case by simp
  qed simp
  then show "word_at m addr n e < 256 ^ n" by (simp add: word_at_sum flip: f_def)
qed

lemma word_at_cong:
  assumes "fits m addr n" and "arch_bytes m' = arch_bytes m"
    and "\<And>a. addr \<le> a \<Longrightarrow> a < addr + int n \<Longrightarrow> contents m' a = contents m a"
  shows "word_at m' addr n e = word_at m addr n e"
  unfolding word_at_def sum_list_distinct_conv_sum_set [OF distinct_upt]
proof (rule sum.cong)
  fix i assume "i \<in> set [0..<n]"
  then show "uint (contents m' (byte_addr m' addr i)) * 256 ^ weight e n i =
      uint (contents m (byte_addr m addr i)) * 256 ^ weight e n i"
    using assms byte_addr_fits [of m addr n i] byte_addr_fits [of m' addr n i] by simp
qed simp

lemma word_at_write:
  assumes "fits m addr n"
  shows "word_at (m\<lparr>contents := write_bytes m addr v n e, pages := P\<rparr>) addr n e = v mod 256 ^ n"
proof -
  define m' where "m' = m\<lparr>contents := write_bytes m addr v n e, pages := P\<rparr>"
  have "uint (contents m' (byte_addr m' addr (weight e n i))) = v div 256 ^ i mod 256" if "i < n" for i
  proof -
    have "byte_addr m' addr (weight e n i) = addr + int (weight e n i)"
      using byte_addr_fits [of m' addr n] assms weight_weight [OF that] by (simp add: m'_def)
    then have "contents m' (byte_addr m' addr (weight e n i)) = word_of_int (v div 256 ^ i)"
      using write_bytes_at [OF assms] weight_weight [OF that] by (simp add: m'_def)
    then show ?thesis by (simp add: uint_word_of_int take_bit_eq_mod)
  qed
  then show ?thesis
    using bytes_value [where n = n and v = v] by (simp add: word_at_sum flip: m'_def)
qed

text \<open>The bytes of a word that was read.\<close>

lemma digit_of_sum:
  fixes f :: "nat \<Rightarrow> int"
  assumes "\<And>i. 0 \<le> f i \<and> f i < 256" and "i < n"
  shows "(\<Sum>j<n. f j * 256 ^ j) div 256 ^ i mod 256 = f i"
  using assms
proof (induction n arbitrary: f i)
  case (Suc n)
  have split: "(\<Sum>j<Suc n. f j * 256 ^ j) = f 0 + 256 * (\<Sum>j<n. f (Suc j) * 256 ^ j)"
    by (simp only: sum.lessThan_Suc_shift sum_distrib_left) (simp add: mult_ac)
  show ?case
  proof (cases i)
    case 0
    then show ?thesis unfolding split using Suc.prems(1) [of 0] by simp
  next
    case (Suc k)
    have "(f 0 + 256 * (\<Sum>j<n. f (Suc j) * 256 ^ j)) div 256 ^ i = (\<Sum>j<n. f (Suc j) * 256 ^ j) div 256 ^ k"
      unfolding Suc power_Suc using Suc.prems(1) [of 0] by (simp add: zdiv_zmult2_eq)
    then show ?thesis unfolding split using Suc.IH [of "\<lambda>j. f (Suc j)" k] Suc.prems Suc by simp
  qed
qed simp

lemma byte_of_word:
  assumes "i < n"
  shows "word_of_int (word_at m addr n e div 256 ^ weight e n i) = contents m (byte_addr m addr i)"
proof -
  define f where "f j = uint (contents m (byte_addr m addr (weight e n j)))" for j
  have f: "0 \<le> f j \<and> f j < 256" for j using uint_bounded [of "contents m (byte_addr m addr (weight e n j))"] by (simp add: f_def)
  have "word_at m addr n e div 256 ^ weight e n i mod 256 = f (weight e n i)"
    unfolding word_at_sum f_def [symmetric] by (rule digit_of_sum [OF f]) (rule weight_weight(2) [OF assms])
  then have "uint (word_of_int (word_at m addr n e div 256 ^ weight e n i) :: 8 word) = uint (contents m (byte_addr m addr i))"
    by (simp add: uint_word_of_int take_bit_eq_mod f_def weight_weight(1) [OF assms])
  then show ?thesis by (simp add: word_uint_eq_iff)
qed

lemma copy_bytes:
  assumes "fits m a n" and "fits m a' n" and "mload m a n e = Inr v" and "mstore m a' v n e = Inr m'" and "i < n"
  shows "contents m' (a' + int i) = contents m (a + int i)"
proof -
  have "v = word_at m a n e" using assms(1,3) by (simp add: mload_def)
  then have "word_of_int (v div 256 ^ weight e n i) = contents m (a + int i)"
    using byte_of_word [OF assms(5), of m a e] byte_addr_fits [OF assms(1,5)] by simp
  then show ?thesis using assms(4,5) write_bytes_at [OF assms(2)] by (auto simp: mstore_def split: if_splits)
qed

section \<open>The interface of the memory\<close>

text \<open>
  What the heaps rely on: a load and a store at an address that fits succeed, a load after a store
  with the same byte order returns the value modulo the width, a load elsewhere returns what it
  returned before, and a load is in range.
\<close>

locale word_memory =
  fixes load :: "'m \<Rightarrow> int \<Rightarrow> nat \<Rightarrow> endness \<Rightarrow> int res"
    and store :: "'m \<Rightarrow> int \<Rightarrow> int \<Rightarrow> nat \<Rightarrow> endness \<Rightarrow> 'm res"
    and valid :: "'m \<Rightarrow> int \<Rightarrow> nat \<Rightarrow> bool"
  assumes load_ok: "valid m a n \<Longrightarrow> \<exists>v. load m a n e = Inr v \<and> 0 \<le> v \<and> v < 256 ^ n"
    and store_ok: "valid m a n \<Longrightarrow> \<exists>m'. store m a v n e = Inr m'"
    and valid_store: "store m a v n e = Inr m' \<Longrightarrow> valid m' b k = valid m b k"
    and load_same: "valid m a n \<Longrightarrow> store m a v n e = Inr m' \<Longrightarrow> load m' a n e = Inr (v mod 256 ^ n)"
    and load_other: "valid m a n \<Longrightarrow> store m a v n e = Inr m' \<Longrightarrow> valid m b k \<Longrightarrow>
      b + int k \<le> a \<or> a + int n \<le> b \<Longrightarrow> load m' b k e' = load m b k e'"
begin

lemma store_load_twice:
  assumes "valid m a n" and "valid m b k" and "b + int k \<le> a \<or> a + int n \<le> b"
    and "store m a v n e = Inr m1" and "store m1 b w k e' = Inr m2"
  shows "load m2 a n e = Inr (v mod 256 ^ n)" and "load m2 b k e' = Inr (w mod 256 ^ k)"
  using assms load_same [of m a n v e m1] load_same [of m1 b k w e' m2]
    load_other [of m1 b k w e' m2 a n e] valid_store [OF assms(4)] by auto

end

lemma mload_fits: "fits m a n \<Longrightarrow> mload m a n e = Inr (word_at m a n e)"
  by (simp add: mload_def)

interpretation paged: word_memory mload mstore fits
proof
  fix m a n e v m' b k e'
  show "\<exists>v. mload m a n e = Inr v \<and> 0 \<le> v \<and> v < 256 ^ n" if "fits m a n"
    using that word_at_range by (simp add: mload_def)
  show "\<exists>m'. mstore m a v n e = Inr m'" if "fits m a n" using that by (simp add: mstore_def)
  assume st: "mstore m a v n e = Inr m'"
  then show "fits m' b k = fits m b k" by (auto simp: mstore_def split: if_splits)
  assume fit: "fits m a n"
  then show "mload m' a n e = Inr (v mod 256 ^ n)"
    using st word_at_write [OF fit] by (auto simp: mload_def mstore_def word_at_def split: if_splits)
  assume fit': "fits m b k" and apart: "b + int k \<le> a \<or> a + int n \<le> b"
  have "word_at m' b k e' = word_at m b k e'"
    by (rule word_at_cong [OF fit']) (use st apart write_bytes_at [OF fit] in \<open>auto simp: mstore_def split: if_splits\<close>)
  with fit' show "mload m' b k e' = mload m b k e'" by (simp add: mload_def)
qed

end
