(* ===== verification/Heap_Base.thy ===== *)
theory Heap_Base
  imports Paged_Memory
begin

text \<open>
  The base class of the heap plugins (\<open>SimHeapBase\<close> of
  \<open>angr/state_plugins/heap/heap_base.py\<close>): the region of the heap, the extent of it that the plugin
  has mapped, and how that extent grows. A size is a concrete number or, where it is symbolic, the
  list of its solutions, as the solver reports them. The record holds what the plugin reads of the
  state: the memory plugin and libc's limit on the size of variables.
\<close>

section \<open>State\<close>

definition HEAP_INITIAL_MAPPED_SIZE :: int where "HEAP_INITIAL_MAPPED_SIZE = 0x2000"

definition HEAP_MAPPING_GROWTH_FACTOR :: int where "HEAP_MAPPING_GROWTH_FACTOR = 2"

definition DEFAULT_HEAP_LOCATION :: int where "DEFAULT_HEAP_LOCATION = 0xC0000000"

definition DEFAULT_HEAP_SIZE :: int where "DEFAULT_HEAP_SIZE = 0x00800000"

record sim_heap =
  heap_base :: int
  heap_size :: int
  mmap_base :: int
  mapped_end :: "int option"
  memory :: paged_memory
  max_variable_size :: int

definition SimHeapBase_init :: "int option \<Rightarrow> int option \<Rightarrow> paged_memory \<Rightarrow> int \<Rightarrow> sim_heap" where
  "SimHeapBase_init base sz m limit =
     (let b = (case base of Some b \<Rightarrow> b | None \<Rightarrow> DEFAULT_HEAP_LOCATION);
          s = (case sz of Some s \<Rightarrow> s | None \<Rightarrow> DEFAULT_HEAP_SIZE)
      in \<lparr>heap_base = b, heap_size = s, mmap_base = b + s * 2, mapped_end = None, memory = m,
          max_variable_size = limit\<rparr>)"

datatype sim_value = Conc int | Symb "int list"

fun conc_alloc_size :: "int \<Rightarrow> sim_value \<Rightarrow> int" where
  "conc_alloc_size limit (Conc n) = n"
| "conc_alloc_size limit (Symb sols) = (if Max (set sols) > limit then limit else Max (set sols))"

abbreviation region_end :: "'a sim_heap_scheme \<Rightarrow> int" where
  "region_end h \<equiv> heap_base h + heap_size h"

section \<open>Mapping the region\<close>

text \<open>The fallback of \<open>_map_range\<close>: page by page, skipping what is mapped already.\<close>

function map_pages :: "int \<Rightarrow> int \<Rightarrow> paged_memory \<Rightarrow> paged_memory" where
  "map_pages page_addr stop m =
     (if page_addr < stop then map_pages (page_addr + page_size) stop (snd (map_region page_addr page_size m)) else m)"
  by pat_completeness auto
termination
  by (relation "measure (\<lambda>(page_addr, stop, _). nat (stop - page_addr))") (auto simp: page_size_def)

declare map_pages.simps [simp del]

definition map_range :: "int \<Rightarrow> int \<Rightarrow> paged_memory \<Rightarrow> paged_memory" where
  "map_range start stop m =
     (case map_region start (stop - start) m of
        (None, m') \<Rightarrow> m'
      | (Some _, m') \<Rightarrow> map_pages (start - start mod page_size) stop m')"

text \<open>
  The growth of the extent. The size that the loop starts with is at least
  \<^const>\<open>HEAP_INITIAL_MAPPED_SIZE\<close>, so its guard for positive sizes always holds.
\<close>

function grow :: "int \<Rightarrow> int \<Rightarrow> int" where
  "grow need sz = (if sz < need \<and> 0 < sz then grow need (sz * HEAP_MAPPING_GROWTH_FACTOR) else sz)"
  by pat_completeness auto
termination
  by (relation "measure (\<lambda>(need, sz). nat (need - sz))") (auto simp: HEAP_MAPPING_GROWTH_FACTOR_def)

declare grow.simps [simp del]

definition ensure_mapped :: "int \<Rightarrow> 'a sim_heap_scheme \<Rightarrow> 'a sim_heap_scheme" where
  "ensure_mapped addr h =
     (case mapped_end h of
        None \<Rightarrow> h
      | Some mapped \<Rightarrow>
          let addr' = min addr (region_end h) in
          if addr' \<le> mapped then h
          else
            let sz = grow (addr' - heap_base h) (max (mapped - heap_base h) HEAP_INITIAL_MAPPED_SIZE);
                new_end = min (heap_base h + sz) (region_end h)
            in h\<lparr>memory := map_range mapped new_end (memory h), mapped_end := Some new_end\<rparr>)"

definition init_mapping :: "'a sim_heap_scheme \<Rightarrow> 'a sim_heap_scheme" where
  "init_mapping h =
     ensure_mapped (heap_base h + min HEAP_INITIAL_MAPPED_SIZE (heap_size h)) (h\<lparr>mapped_end := Some (heap_base h)\<rparr>)"

text \<open>\<open>init_state\<close>, with the state option for abstract memory as an argument.\<close>

definition base_init_state :: "bool \<Rightarrow> 'a sim_heap_scheme \<Rightarrow> 'a sim_heap_scheme" where
  "base_init_state abstract_memory h =
     (if abstract_memory \<or> is_mapped (memory h) (heap_base h) then h else init_mapping h)"

definition combine_mapped_end :: "'a sim_heap_scheme list \<Rightarrow> 'a sim_heap_scheme \<Rightarrow> 'a sim_heap_scheme" where
  "combine_mapped_end others h =
     (let ends = mapped_end h # map mapped_end others in
      h\<lparr>mapped_end := if None \<in> set ends then None else Some (Min (set (map the ends)))\<rparr>)"

section \<open>What is mapped\<close>

text \<open>Mapping only adds pages.\<close>

definition grows :: "paged_memory \<Rightarrow> paged_memory \<Rightarrow> bool" where
  "grows m m' \<longleftrightarrow> contents m' = contents m \<and> arch_bytes m' = arch_bytes m \<and> pages m \<subseteq> pages m'"

lemma grows_refl [simp]: "grows m m"
  by (simp add: grows_def)

lemma grows_trans: "grows m m' \<Longrightarrow> grows m' m'' \<Longrightarrow> grows m m''"
  by (auto simp: grows_def)

lemma grows_mload: "grows m m' \<Longrightarrow> mload m' a n e = mload m a n e"
proof -
  assume g: "grows m m'"
  then have "max_pageno m' = max_pageno m" by (simp add: grows_def max_pageno_def)
  then have "byte_addr m' a = byte_addr m a" by (simp add: byte_addr_def fun_eq_iff Let_def case_prod_beta)
  with g show ?thesis by (simp add: mload_def word_at_def grows_def)
qed

lemma map_loop_grows: "grows m (snd (map_loop pn po sd len m))"
proof (induction pn po sd len m rule: map_loop.induct)
  case (1 pn po sd len m)
  then show ?case by (subst map_loop.simps) (auto simp: grows_def)
qed

lemma map_region_grows: "grows m (snd (map_region a len m))"
  by (simp add: map_region_def divide_addr_def map_loop_grows)

lemma map_pages_grows: "grows m (map_pages a stop m)"
proof (induction a stop m rule: map_pages.induct)
  case (1 a stop m)
  then show ?case using grows_trans [OF map_region_grows] by (subst map_pages.simps) auto
qed

lemma map_range_grows: "grows m (map_range a stop m)"
  using map_region_grows [of m a "stop - a"] grows_trans [OF _ map_pages_grows]
  by (auto simp: map_range_def split: prod.splits option.splits)

text \<open>
  A loop that ends without an error has mapped every page of its range, as long as the range does
  not run past the last page.
\<close>

lemma map_loop_covers:
  assumes "fst (map_loop pn po sd len m) = None" and "0 \<le> pn" and "0 \<le> po" and "po < page_size"
    and "pn * page_size + po + (len - sd) \<le> max_pageno m * page_size"
    and "pn * page_size + po \<le> a" and "a < pn * page_size + po + (len - sd)"
  shows "a div page_size \<in> pages (snd (map_loop pn po sd len m))"
  using assms
proof (induction pn po sd len m rule: map_loop.induct)
  case (1 pn po sd len m)
  define m' where "m' = m\<lparr>pages := insert pn (pages m)\<rparr>"
  have run: "sd < len" "po < page_size" "pn \<notin> pages m"
    using "1.prems"(1,4,6,7) by (auto simp: map_loop.simps [of pn po sd len m] split: if_splits)
  then have step: "map_loop pn po sd len m = map_loop ((pn + 1) mod max_pageno m) 0 (sd + (page_size - po)) len m'"
    by (simp add: map_loop.simps [of pn po sd len m] m'_def)
  show ?case
  proof (cases "a < (pn + 1) * page_size")
    case True
    then have "a div page_size = pn"
      using "1.prems"(3,4,6) by (intro int_div_pos_eq [of a page_size pn "a - page_size * pn"]) (simp_all add: algebra_simps)
    then show ?thesis
      using map_loop_grows [of m'] by (auto simp: step grows_def m'_def)
  next
    case False
    then have "(pn + 1) * page_size < max_pageno m * page_size" using "1.prems"(5,7) by linarith
    then have "(pn + 1) mod max_pageno m = pn + 1"
      using "1.prems"(2) page_size_pos by simp
    then show ?thesis
      using "1.IH" [OF conjI [OF run(1,2)] run(3)] "1.prems" False page_size_pos
      by (simp add: step m'_def max_pageno_def algebra_simps)
  qed
qed

lemma map_region_covers:
  assumes "fst (map_region start len m) = None" and "fits m start (nat len)" and "start \<le> a" and "a < start + len"
  shows "is_mapped (snd (map_region start len m)) a"
proof -
  have "max_pageno m * page_size = 2 ^ (8 * arch_bytes m)"
    using assms(2) page_size_dvd [of "arch_bytes m"] by (simp add: max_pageno_def)
  then show ?thesis
    using assms page_size_pos
      map_loop_covers [of "start div page_size" "start mod page_size" 0 len m a]
    by (simp add: map_region_def divide_addr_def is_mapped_def pos_imp_zdiv_nonneg_iff)
qed

lemma grows_mapped: "grows m m' \<Longrightarrow> is_mapped m a \<Longrightarrow> is_mapped m' a"
  by (auto simp: grows_def is_mapped_def)

text \<open>Mapping a single page leaves it mapped, whether or not it was mapped before.\<close>

lemma map_one_page:
  assumes "p mod page_size = 0" and "p \<le> a" and "a < p + page_size"
  shows "is_mapped (snd (map_region p page_size m)) a"
proof -
  have "a div page_size = p div page_size"
    using assms by (intro int_div_pos_eq [of a page_size _ "a - p"]) auto
  then show ?thesis
    using assms(1) page_size_pos
    by (simp add: map_region_def divide_addr_def is_mapped_def map_loop.simps)
qed

lemma map_pages_covers:
  assumes "p mod page_size = 0" and "p \<le> a" and "a < stop"
  shows "is_mapped (map_pages p stop m) a"
  using assms
proof (induction p stop m rule: map_pages.induct)
  case (1 p stop m)
  show ?case
  proof (cases "a < p + page_size")
    case True
    with 1 show ?thesis
      using grows_mapped [OF map_pages_grows map_one_page] by (subst map_pages.simps) auto
  next
    case False
    with 1 show ?thesis by (subst map_pages.simps) (auto simp: mod_add_self2)
  qed
qed

lemma map_range_covers:
  assumes "fits m start (nat (stop - start))" and "start \<le> a" and "a < stop"
  shows "is_mapped (map_range start stop m) a"
proof (cases "map_region start (stop - start) m")
  case (Pair r m')
  have "start - start mod page_size \<le> a"
    using assms(2) pos_mod_sign [OF page_size_pos, of start] by linarith
  then show ?thesis
    using Pair assms map_region_covers [of start "stop - start" m a]
      map_pages_covers [of "start - start mod page_size" a stop m']
    by (cases r) (simp_all add: map_range_def)
qed

lemma grow_enough: "0 < sz \<Longrightarrow> need \<le> grow need sz \<and> sz \<le> grow need sz"
proof (induction need sz rule: grow.induct)
  case (1 need sz)
  then show ?case by (subst (1 2) grow.simps) (auto simp: HEAP_MAPPING_GROWTH_FACTOR_def)
qed

text \<open>The extent doubles until it is enough, so it is less than twice what is needed.\<close>

lemma grow_bound: "0 < sz \<Longrightarrow> grow need sz = sz \<or> grow need sz < 2 * need"
proof (induction need sz rule: grow.induct)
  case (1 need sz)
  then show ?case by (subst (1 2) grow.simps) (auto simp: HEAP_MAPPING_GROWTH_FACTOR_def)
qed

section \<open>The extent invariant\<close>

text \<open>
  The region lies in the address space, and where the plugin manages the mapping, the extent lies in
  the region and every byte below its end is mapped.
\<close>

definition extent_ok :: "'a sim_heap_scheme \<Rightarrow> bool" where
  "extent_ok h \<longleftrightarrow> 2 \<le> arch_bytes (memory h) \<and> 0 \<le> heap_base h \<and> 0 \<le> heap_size h
     \<and> region_end h \<le> 2 ^ (8 * arch_bytes (memory h))
     \<and> (case mapped_end h of None \<Rightarrow> True
        | Some e \<Rightarrow> heap_base h \<le> e \<and> e \<le> region_end h
            \<and> (\<forall>a. heap_base h \<le> a \<and> a < e \<longrightarrow> is_mapped (memory h) a))"

lemma ensure_mapped_id: "mapped_end h = Some e \<Longrightarrow> min addr (region_end h) \<le> e \<Longrightarrow> ensure_mapped addr h = h"
  by (simp only: ensure_mapped_def option.case Let_def if_True)

lemma ensure_mapped_cases:
  assumes "mapped_end h = Some e" and "min addr (region_end h) > e"
  obtains e' where "ensure_mapped addr h = h\<lparr>memory := map_range e e' (memory h), mapped_end := Some e'\<rparr>"
    and "min addr (region_end h) \<le> e'" and "e' \<le> region_end h"
    and "e' - heap_base h < 2 * (addr - heap_base h) \<or> e' - heap_base h \<le> max (e - heap_base h) HEAP_INITIAL_MAPPED_SIZE"
proof -
  define sz where "sz = grow (min addr (region_end h) - heap_base h) (max (e - heap_base h) HEAP_INITIAL_MAPPED_SIZE)"
  define e' where "e' = min (heap_base h + sz) (region_end h)"
  have "0 < max (e - heap_base h) HEAP_INITIAL_MAPPED_SIZE" by (simp add: HEAP_INITIAL_MAPPED_SIZE_def)
  note sz = grow_enough [OF this, of "min addr (region_end h) - heap_base h", folded sz_def]
    grow_bound [OF this, of "min addr (region_end h) - heap_base h", folded sz_def]
  show ?thesis
  proof (rule that [of e'])
    show "ensure_mapped addr h = h\<lparr>memory := map_range e e' (memory h), mapped_end := Some e'\<rparr>"
      unfolding ensure_mapped_def Let_def assms(1) option.case e'_def sz_def
      using assms(2) by (intro if_not_P) (simp only: not_le)
    have le: "e' - heap_base h \<le> sz" "2 * (min addr (region_end h) - heap_base h) \<le> 2 * (addr - heap_base h)"
      by (simp_all add: e'_def)
    show "e' - heap_base h < 2 * (addr - heap_base h) \<or>
        e' - heap_base h \<le> max (e - heap_base h) HEAP_INITIAL_MAPPED_SIZE"
    proof (cases "sz = max (e - heap_base h) HEAP_INITIAL_MAPPED_SIZE")
      case False
      then have "sz < 2 * (min addr (region_end h) - heap_base h)" using sz(2) by blast
      from order.strict_trans2 [OF order.strict_trans1 [OF le(1) this] le(2)] show ?thesis by (rule disjI1)
    qed (use le(1) in simp)
  qed (use sz in \<open>auto simp: e'_def\<close>)
qed

lemma ensure_mapped_ok:
  assumes "extent_ok h"
  shows "extent_ok (ensure_mapped addr h)" and "grows (memory h) (memory (ensure_mapped addr h))"
    and "mapped_end h = None \<longleftrightarrow> mapped_end (ensure_mapped addr h) = None"
    and "mapped_end h = Some e \<Longrightarrow> \<exists>e'. mapped_end (ensure_mapped addr h) = Some e' \<and> e \<le> e' \<and> min addr (region_end h) \<le> e'"
proof -
  have "extent_ok (ensure_mapped addr h) \<and> grows (memory h) (memory (ensure_mapped addr h))
      \<and> (mapped_end h = None \<longleftrightarrow> mapped_end (ensure_mapped addr h) = None)
      \<and> (mapped_end h = Some e \<longrightarrow>
           (\<exists>e'. mapped_end (ensure_mapped addr h) = Some e' \<and> e \<le> e' \<and> min addr (region_end h) \<le> e'))"
  proof (cases "mapped_end h")
    case None
    with assms show ?thesis by (simp add: ensure_mapped_def)
  next
    case (Some d)
    show ?thesis
    proof (cases "min addr (region_end h) \<le> d")
      case True
      then have "ensure_mapped addr h = h" by (rule ensure_mapped_id [OF Some])
      with True Some assms show ?thesis by auto
    next
      case False
      then have "min addr (region_end h) > d" by linarith
      from ensure_mapped_cases [OF Some this] obtain d' where d':
        "ensure_mapped addr h = h\<lparr>memory := map_range d d' (memory h), mapped_end := Some d'\<rparr>"
        "min addr (region_end h) \<le> d'" "d' \<le> region_end h" .
      note ext = assms [unfolded extent_ok_def Some option.case]
      have "fits (memory h) d (nat (d' - d))" using ext d'(3) by auto
      then have cover: "is_mapped (map_range d d' (memory h)) a" if "heap_base h \<le> a" "a < d'" for a
        using that map_range_covers [of "memory h" d d' a] ext
          grows_mapped [OF map_range_grows, of "memory h" a d d'] by (cases "a < d") auto
      have "arch_bytes (map_range d d' (memory h)) = arch_bytes (memory h)"
        using map_range_grows by (simp add: grows_def)
      moreover have "d \<le> d'" "heap_base h \<le> d'" using False d'(2) ext by linarith+
      ultimately show ?thesis
        using Some d' ext cover map_range_grows by (simp add: extent_ok_def)
    qed
  qed
  then show "extent_ok (ensure_mapped addr h)" "grows (memory h) (memory (ensure_mapped addr h))"
    "mapped_end h = None \<longleftrightarrow> mapped_end (ensure_mapped addr h) = None"
    "mapped_end h = Some e \<Longrightarrow> \<exists>e'. mapped_end (ensure_mapped addr h) = Some e' \<and> e \<le> e' \<and> min addr (region_end h) \<le> e'"
    by blast+
qed

lemma ensure_mapped_fields [simp]:
  "heap_base (ensure_mapped addr h) = heap_base h" "heap_size (ensure_mapped addr h) = heap_size h"
  "mmap_base (ensure_mapped addr h) = mmap_base h" "max_variable_size (ensure_mapped addr h) = max_variable_size h"
  "sim_heap.more (ensure_mapped addr h) = sim_heap.more h"
  by (simp_all add: ensure_mapped_def Let_def split: option.split)

lemma base_init_ok:
  assumes "2 \<le> arch_bytes (memory h)" and "0 \<le> heap_base h" and "0 \<le> heap_size h"
    and "region_end h \<le> 2 ^ (8 * arch_bytes (memory h))" and "mapped_end h = None"
  shows "extent_ok (base_init_state am h)"
proof -
  have "extent_ok h" "extent_ok (h\<lparr>mapped_end := Some (heap_base h)\<rparr>)"
    using assms by (auto simp: extent_ok_def)
  then show ?thesis by (simp add: base_init_state_def init_mapping_def ensure_mapped_ok(1))
qed

lemma combine_extent_ok:
  assumes "extent_ok h" and "\<And>g e. g \<in> set others \<Longrightarrow> mapped_end g = Some e \<Longrightarrow> heap_base h \<le> e"
  shows "extent_ok (combine_mapped_end others h)"
proof (cases "None \<in> set (mapped_end h # map mapped_end others)")
  case True
  with assms(1) show ?thesis by (simp add: combine_mapped_end_def extent_ok_def Let_def)
next
  case False
  then obtain e where e: "mapped_end h = Some e" by (cases "mapped_end h") auto
  define M where "M = Min (set (map the (mapped_end h # map mapped_end others)))"
  have "M \<le> e" by (simp add: M_def e)
  moreover have "heap_base h \<le> M"
    unfolding M_def
  proof (rule Min.boundedI)
    fix x assume "x \<in> set (map the (mapped_end h # map mapped_end others))"
    then consider "x = e" | g where "g \<in> set others" "x = the (mapped_end g)" using e by auto
    then show "heap_base h \<le> x"
    proof cases
      case 1
      then show ?thesis using assms(1) e by (simp add: extent_ok_def)
    next
      case 2
      then obtain d where "mapped_end g = Some d" using False by (cases "mapped_end g") (auto simp: image_iff)
      then show ?thesis using assms(2) [OF 2(1)] 2(2) by simp
    qed
  qed simp_all
  moreover have "combine_mapped_end others h = h\<lparr>mapped_end := Some M\<rparr>"
    using False by (simp add: combine_mapped_end_def Let_def M_def)
  ultimately show ?thesis using assms(1) e by (auto simp: extent_ok_def)
qed

section \<open>Properties\<close>

text \<open>
  C40. Growing the mapped extent: after \<open>_ensure_mapped\<close> every byte of the heap region below the
  requested address is on a mapped page, the extent stays within the region and is less than twice
  what was needed (or the initial extent), and neither the contents of memory nor the pages that
  were mapped before are lost.
\<close>

theorem extent_grows:
  assumes "extent_ok h" and "mapped_end h = Some e"
  shows "extent_ok (ensure_mapped addr h)
       \<and> (\<forall>a. heap_base h \<le> a \<and> a < min addr (region_end h) \<longrightarrow> is_mapped (memory (ensure_mapped addr h)) a)
       \<and> contents (memory (ensure_mapped addr h)) = contents (memory h)
       \<and> pages (memory h) \<subseteq> pages (memory (ensure_mapped addr h))
       \<and> (\<exists>e'. mapped_end (ensure_mapped addr h) = Some e' \<and> e' \<le> region_end h
            \<and> e' - heap_base h \<le> max (2 * (addr - heap_base h)) (max (e - heap_base h) HEAP_INITIAL_MAPPED_SIZE))"
proof -
  note ok = ensure_mapped_ok(1,2) [OF assms(1), of addr] ensure_mapped_ok(4) [OF assms, of addr]
  then obtain e' where e': "mapped_end (ensure_mapped addr h) = Some e'" "min addr (region_end h) \<le> e'" by blast
  have "e' - heap_base h \<le> max (2 * (addr - heap_base h)) (max (e - heap_base h) HEAP_INITIAL_MAPPED_SIZE)"
  proof (cases "min addr (region_end h) > e")
    case True
    from ensure_mapped_cases [OF assms(2) this] obtain d where
      "ensure_mapped addr h = h\<lparr>memory := map_range e d (memory h), mapped_end := Some d\<rparr>"
      "d - heap_base h < 2 * (addr - heap_base h) \<or> d - heap_base h \<le> max (e - heap_base h) HEAP_INITIAL_MAPPED_SIZE" .
    with e'(1) show ?thesis by auto
  next
    case False
    then have "ensure_mapped addr h = h" by (intro ensure_mapped_id [OF assms(2)]) (simp only: not_less)
    with e' assms(2) show ?thesis by simp
  qed
  with ok e' show ?thesis by (auto simp: extent_ok_def grows_def)
qed

theorem extent_grows_witness:
  "let h = SimHeapBase_init None None \<lparr>arch_bytes = 8, contents = \<lambda>_. 0, pages = {}\<rparr> 128;
       h1 = h\<lparr>mapped_end := Some 0xC0000000\<rparr>
   in is_mapped (memory (ensure_mapped 0xC0001234 h1)) 0xC0001233"
proof -
  define h1 where "h1 = (SimHeapBase_init None None \<lparr>arch_bytes = 8, contents = \<lambda>_. 0, pages = {}\<rparr> 128)
    \<lparr>mapped_end := Some 0xC0000000\<rparr>"
  have "extent_ok h1"
    by (auto simp: h1_def extent_ok_def SimHeapBase_init_def DEFAULT_HEAP_LOCATION_def DEFAULT_HEAP_SIZE_def)
  moreover have "mapped_end h1 = Some 0xC0000000" "heap_base h1 = 0xC0000000" "region_end h1 = 0xC0800000"
    by (simp_all add: h1_def SimHeapBase_init_def DEFAULT_HEAP_LOCATION_def DEFAULT_HEAP_SIZE_def)
  ultimately show ?thesis
    using extent_grows [of h1 "0xC0000000" "0xC0001234"] unfolding Let_def by (simp flip: h1_def)
qed

end
