(* ===== verification/Heap_Brk.thy ===== *)
theory Heap_Brk
  imports Heap_Base
begin

text \<open>
  The break heap (\<open>SimHeapBrk\<close> of \<open>angr/state_plugins/heap/heap_brk.py\<close>): allocation moves the
  break up by the size rounded to sixteen bytes, release moves it down. The properties: a run of
  allocations hands out disjoint ranges below the break, release stays within the heap, \<open>_calloc\<close>
  clears and \<open>_realloc\<close> copies, and merging forgets the break of the state that is merged into.
\<close>

section \<open>Operations\<close>

record brk_heap = sim_heap +
  heap_location :: int

function round16 :: "int \<Rightarrow> int" where
  "round16 sz = (if sz mod 16 \<noteq> 0 then round16 (sz + 1) else sz)"
  by pat_completeness auto
termination
proof (relation "measure (\<lambda>sz. nat ((- sz) mod 16))")
  fix sz :: int
  assume "sz mod 16 \<noteq> 0"
  then have "(- (sz + 1)) mod 16 < (- sz) mod 16" by presburger
  then show "(sz + 1, sz) \<in> measure (\<lambda>sz. nat ((- sz) mod 16))" by simp
qed simp

declare round16.simps [simp del]

definition allocate :: "sim_value \<Rightarrow> brk_heap \<Rightarrow> int \<times> brk_heap" where
  "allocate sim_size h =
     (let sz = round16 (conc_alloc_size (max_variable_size h) sim_size);
          addr = heap_location h;
          h' = h\<lparr>heap_location := heap_location h + sz\<rparr>
      in (addr, ensure_mapped (heap_location h') h'))"

definition release :: "sim_value \<Rightarrow> brk_heap \<Rightarrow> brk_heap" where
  "release sim_size h =
     (let requested = conc_alloc_size (max_variable_size h) sim_size;
          used = heap_location h - heap_base h;
          released = min requested used
      in h\<lparr>heap_location := heap_location h - released\<rparr>)"

definition brk_malloc :: "sim_value \<Rightarrow> brk_heap \<Rightarrow> int \<times> brk_heap" where
  "brk_malloc = allocate"

fun value_symbolic :: "sim_value \<Rightarrow> bool" where
  "value_symbolic (Conc n) = False"
| "value_symbolic (Symb sols) = True"

fun max_value :: "sim_value \<Rightarrow> int" where
  "max_value (Conc n) = n"
| "max_value (Symb sols) = Max (set sols)"

definition brk_calloc :: "sim_value \<Rightarrow> sim_value \<Rightarrow> brk_heap \<Rightarrow> (int \<times> brk_heap) res" where
  "brk_calloc sim_nmemb sim_size h =
     (let product = max_value sim_size * max_value sim_nmemb;
          final_size = (if value_symbolic sim_nmemb \<or> (value_symbolic sim_size \<and> product > max_variable_size h)
                        then max_variable_size h else product);
          (addr, h') = allocate (Conc final_size) h
      in map_res (\<lambda>m. (addr, h'\<lparr>memory := m\<rparr>)) (mstore (memory h') addr 0 (nat final_size) Iend_BE))"

text \<open>
  A symbolic size is maximised below libc's limit, or minimised where no solution is below it. The
  constraint that \<open>_realloc\<close> then adds to the state is not recorded.
\<close>

fun realloc_size :: "int \<Rightarrow> sim_value \<Rightarrow> int" where
  "realloc_size limit (Conc n) = n"
| "realloc_size limit (Symb sols) =
     (case filter (\<lambda>n. n < limit) sols of [] \<Rightarrow> Min (set sols) | below \<Rightarrow> Max (set below))"

definition brk_realloc :: "int \<Rightarrow> sim_value \<Rightarrow> brk_heap \<Rightarrow> (int \<times> brk_heap) res" where
  "brk_realloc ptr sim_size h =
     (let size_int = realloc_size (max_variable_size h) sim_size;
          (addr, h') = allocate (Conc size_int) h
      in if ptr \<noteq> 0 then
           bind_res (mload (memory h') ptr (nat size_int) Iend_BE) (\<lambda>v.
           map_res (\<lambda>m. (addr, h'\<lparr>memory := m\<rparr>)) (mstore (memory h') addr v (nat size_int) Iend_BE))
         else Inr (addr, h'))"

text \<open>\<open>max\<close> of an empty sequence raises \<open>ValueError\<close>.\<close>

definition brk_combine :: "brk_heap list \<Rightarrow> brk_heap \<Rightarrow> (bool \<times> brk_heap) res" where
  "brk_combine others h =
     (let h1 = combine_mapped_end others h in
      if others = [] then Inl ValueError
      else
        let new_heap_location = Max (set (map heap_location others)) in
        if heap_location h1 \<noteq> new_heap_location then Inr (True, h1\<lparr>heap_location := new_heap_location\<rparr>)
        else Inr (False, h1))"

section \<open>Rounding and single allocations\<close>

lemma round16: "16 dvd round16 sz" "sz \<le> round16 sz" "round16 sz < sz + 16"
proof -
  have "16 dvd round16 sz \<and> round16 sz = sz + (- sz) mod 16"
  proof (induction sz rule: round16.induct)
    case (1 sz)
    show ?case
    proof (cases "sz mod 16 = 0")
      case True
      then have "round16 sz = sz" by (subst round16.simps) (simp only: if_False not_True_eq_False simp_thms)
      moreover have "16 dvd sz" using True by (simp only: mod_eq_0_iff_dvd)
      moreover from this have "(- sz) mod 16 = 0" by (simp only: mod_eq_0_iff_dvd dvd_minus_iff)
      ultimately show ?thesis by simp
    next
      case False
      define t where "t = - sz"
      have "t mod 16 \<noteq> 0" using False by (simp only: t_def mod_eq_0_iff_dvd dvd_minus_iff) simp
      then have "(t - 1) mod 16 = t mod 16 - 1"
        using pos_mod_sign [of 16 t] pos_mod_bound [of 16 t] div_mult_mod_eq [of t 16]
        by (intro int_mod_pos_eq [of _ _ "t div 16"]) linarith+
      then have "sz + 1 + (- (sz + 1)) mod 16 = sz + (- sz) mod 16" by (simp add: t_def)
      moreover have "round16 sz = round16 (sz + 1)" using False by (simp add: round16.simps [of sz])
      ultimately show ?thesis using 1 [OF False] by metis
    qed
  qed
  then show "16 dvd round16 sz" "sz \<le> round16 sz" "round16 sz < sz + 16" by auto
qed

lemma allocate_simps:
  "fst (allocate s h) = heap_location h"
  "heap_location (snd (allocate s h)) = heap_location h + round16 (conc_alloc_size (max_variable_size h) s)"
  "heap_base (snd (allocate s h)) = heap_base h" "heap_size (snd (allocate s h)) = heap_size h"
  "max_variable_size (snd (allocate s h)) = max_variable_size h"
proof -
  have more: "heap_location (ensure_mapped a g) = heap_location g" for a and g :: brk_heap
    by (simp add: ensure_mapped_def Let_def split: option.split)
  show "fst (allocate s h) = heap_location h"
    "heap_location (snd (allocate s h)) = heap_location h + round16 (conc_alloc_size (max_variable_size h) s)"
    "heap_base (snd (allocate s h)) = heap_base h" "heap_size (snd (allocate s h)) = heap_size h"
    "max_variable_size (snd (allocate s h)) = max_variable_size h"
    by (simp_all add: allocate_def Let_def more)
qed

lemma allocate_memory:
  assumes "extent_ok h"
  shows "extent_ok (snd (allocate s h))" and "grows (memory h) (memory (snd (allocate s h)))"
proof -
  have "extent_ok (h\<lparr>heap_location := l\<rparr>)" for l
    using assms by (simp add: extent_ok_def split: option.splits)
  from ensure_mapped_ok(1,2) [OF this]
  show "extent_ok (snd (allocate s h))" "grows (memory h) (memory (snd (allocate s h)))"
    by (simp_all add: allocate_def Let_def)
qed

text \<open>A run of allocations: the address and the requested size of each, and the final heap.\<close>

fun allocate_all :: "int list \<Rightarrow> brk_heap \<Rightarrow> (int \<times> int) list \<times> brk_heap" where
  "allocate_all [] h = ([], h)"
| "allocate_all (n # ns) h =
     (let (addr, h') = allocate (Conc n) h; (rest, h'') = allocate_all ns h' in ((addr, n) # rest, h''))"

lemma allocate_all_spec:
  assumes "extent_ok h" and "list_all (\<lambda>n. 0 \<le> n) ns"
  shows "(\<forall>(a, n) \<in> set (fst (allocate_all ns h)). heap_location h \<le> a \<and> a + n \<le> heap_location (snd (allocate_all ns h))
            \<and> 16 dvd (a - heap_location h))
       \<and> sorted_wrt (\<lambda>(a, n) (b, k). a + n \<le> b) (fst (allocate_all ns h))
       \<and> heap_location h \<le> heap_location (snd (allocate_all ns h))
       \<and> extent_ok (snd (allocate_all ns h)) \<and> grows (memory h) (memory (snd (allocate_all ns h)))"
  using assms
proof (induction ns arbitrary: h)
  case Nil
  then show ?case by simp
next
  case (Cons n ns)
  obtain a h1 where a: "allocate (Conc n) h = (a, h1)" by (cases "allocate (Conc n) h")
  obtain rest h2 where r: "allocate_all ns h1 = (rest, h2)" by (cases "allocate_all ns h1")
  have loc: "a = heap_location h" "heap_location h1 = heap_location h + round16 n"
    using allocate_simps(1,2) [of "Conc n" h] by (simp_all add: a)
  have mem: "extent_ok h1" "grows (memory h) (memory h1)"
    using allocate_memory [OF Cons.prems(1), of "Conc n"] by (simp_all add: a)
  have n: "0 \<le> n" "n \<le> round16 n" "16 dvd round16 n" using Cons.prems(2) round16 [of n] by simp_all
  have "list_all (\<lambda>n. 0 \<le> n) ns" using Cons.prems(2) by simp
  note IH = Cons.IH [OF mem(1) this, unfolded r fst_conv snd_conv loc(2)]
  have rest: "heap_location h \<le> b \<and> b + k \<le> heap_location h2 \<and> 16 dvd (b - heap_location h)
      \<and> heap_location h + n \<le> b" if "(b, k) \<in> set rest" for b k
  proof -
    have "heap_location h + round16 n \<le> b" "b + k \<le> heap_location h2" "16 dvd (b - (heap_location h + round16 n))"
      using IH that by auto
    moreover have "b - heap_location h = (b - (heap_location h + round16 n)) + round16 n" by simp
    ultimately show ?thesis using n dvd_add [OF _ n(3)] by (metis add.commute add_increasing dual_order.trans
      add_le_cancel_left le_add_same_cancel1)
  qed
  have "heap_location h + n \<le> heap_location h2" "heap_location h \<le> heap_location h2"
    using IH n by linarith+
  moreover have "sorted_wrt (\<lambda>(a, n) (b, k). a + n \<le> b) ((a, n) # rest)"
    using IH rest by (auto simp: loc)
  ultimately show ?case
    using IH rest grows_trans [OF mem(2)] by (auto simp: a r loc)
qed

section \<open>Properties\<close>


definition small_heap :: brk_heap where
  "small_heap = \<lparr>heap_base = 0x10000, heap_size = 0x4000, mmap_base = 0x18000, mapped_end = None,
     memory = \<lparr>arch_bytes = 4, contents = (\<lambda>a. word_of_int a), pages = {}\<rparr>, max_variable_size = 128,
     heap_location = 0x10000\<rparr>"

lemma small_heap: "extent_ok small_heap" "heap_base small_heap = 0x10000" "heap_location small_heap = 0x10000"
  "fits (memory small_heap) 0x10000 0x40"
  by (simp_all add: small_heap_def extent_ok_def)


text \<open>
  Releasing space never moves the break below the base of the heap, never moves it up, and
  releasing the rounded size of the last allocation restores the break.
\<close>

lemma brk_release_bounds:
  assumes "heap_base h \<le> heap_location h" and "0 \<le> conc_alloc_size (max_variable_size h) s" and "0 \<le> n"
  shows "heap_base h \<le> heap_location (release s h) \<and> heap_location (release s h) \<le> heap_location h
       \<and> heap_location (release (Conc (round16 n)) (snd (allocate (Conc n) h))) = heap_location h"
  using assms round16(2) [of n] by (simp add: release_def Let_def allocate_simps)

text \<open>
  \<open>_calloc\<close> clears what it allocates, and \<open>_realloc\<close> copies: the new allocation holds the bytes
  that the old pointer pointed to, and the old bytes are still there.
\<close>

lemma brk_calloc_realloc:
  assumes "extent_ok h" and "0 \<le> n" and "0 \<le> k" and "fits (memory h) (heap_location h) (nat (n * k))"
    and "fits (memory h) (heap_location h) (nat n)" and "0 < ptr" and "ptr + n \<le> heap_location h"
  shows "(\<exists>h'. brk_calloc (Conc k) (Conc n) h = Inr (heap_location h, h')
            \<and> mload (memory h') (heap_location h) (nat (n * k)) Iend_BE = Inr 0)
       \<and> (\<exists>h'. brk_realloc ptr (Conc n) h = Inr (heap_location h, h')
            \<and> mload (memory h') (heap_location h) (nat n) Iend_BE = mload (memory h) ptr (nat n) Iend_BE
            \<and> mload (memory h') ptr (nat n) Iend_BE = mload (memory h) ptr (nat n) Iend_BE)"
proof
  have same: "mload (memory (snd (allocate s h))) a i e = mload (memory h) a i e"
    "arch_bytes (memory (snd (allocate s h))) = arch_bytes (memory h)" for s a i e
    using allocate_memory(2) [OF assms(1), of s] by (simp_all add: grows_def grows_mload)
  obtain h1 where h1: "allocate (Conc (n * k)) h = (heap_location h, h1)"
    using allocate_simps(1) [of "Conc (n * k)" h] by (cases "allocate (Conc (n * k)) h") simp
  have fit1: "fits (memory h1) (heap_location h) (nat (n * k))" using same(2) [of "Conc (n * k)"] assms(4) by (simp add: h1)
  from paged.store_ok [OF this] obtain m1 where m1: "mstore (memory h1) (heap_location h) 0 (nat (n * k)) Iend_BE = Inr m1"
    by blast
  with paged.load_same [OF fit1 m1] show "\<exists>h'. brk_calloc (Conc k) (Conc n) h = Inr (heap_location h, h')
      \<and> mload (memory h') (heap_location h) (nat (n * k)) Iend_BE = Inr 0"
    by (simp add: brk_calloc_def Let_def h1)
  obtain h2 where h2: "allocate (Conc n) h = (heap_location h, h2)"
    using allocate_simps(1) [of "Conc n" h] by (cases "allocate (Conc n) h") simp
  have load2: "mload (memory h2) a i e = mload (memory h) a i e" "arch_bytes (memory h2) = arch_bytes (memory h)" for a i e
    using same [of "Conc n"] by (simp_all add: h2)
  have old: "fits (memory h2) ptr (nat n)" and new: "fits (memory h2) (heap_location h) (nat n)"
    using assms(2,5-7) by (auto simp: load2)
  from paged.load_ok [OF old, of Iend_BE] obtain v where v:
    "mload (memory h2) ptr (nat n) Iend_BE = Inr v" "0 \<le> v" "v < 256 ^ nat n" by blast
  from paged.store_ok [OF new] obtain m2 where m2: "mstore (memory h2) (heap_location h) v (nat n) Iend_BE = Inr m2" by blast
  have "mload m2 ptr (nat n) Iend_BE = Inr v" "mload m2 (heap_location h) (nat n) Iend_BE = Inr v"
    using paged.load_same [OF new m2] paged.load_other [OF new m2 old] v assms(2,7) by simp_all
  with v m2 assms(6) show "\<exists>h'. brk_realloc ptr (Conc n) h = Inr (heap_location h, h')
      \<and> mload (memory h') (heap_location h) (nat n) Iend_BE = mload (memory h) ptr (nat n) Iend_BE
      \<and> mload (memory h') ptr (nat n) Iend_BE = mload (memory h) ptr (nat n) Iend_BE"
    by (simp add: brk_realloc_def Let_def h2 flip: load2(1))
qed

text \<open>
  Merging forgets the break of the state merged into: \<open>_combine\<close> takes the greatest break of the
  other states only, so that a state whose break is above all of them continues with a lower break,
  and its next allocation lies in space that it had handed out before.
\<close>

lemma brk_merge_forgets_break:
  assumes "others \<noteq> []" and "\<forall>g \<in> set others. heap_location g < heap_location h"
  shows "\<exists>h'. brk_combine others h = Inr (True, h') \<and> heap_location h' < heap_location h
       \<and> fst (allocate (Conc n) h') < heap_location h"
proof -
  define M where "M = Max (set (map heap_location others))"
  have "M < heap_location h" using assms by (simp add: M_def)
  moreover have "heap_location (combine_mapped_end others h) = heap_location h"
    by (simp add: combine_mapped_end_def Let_def)
  ultimately show ?thesis
    using assms(1) unfolding brk_combine_def Let_def M_def [symmetric] by (simp add: allocate_simps)
qed

end
