(* ===== verification/Heap_PTMalloc.thy ===== *)
theory Heap_PTMalloc
  imports Heap_Base
begin

text \<open>
  The freelist heap (\<open>PTChunk\<close> and \<open>SimHeapPTMalloc\<close> of
  \<open>angr/state_plugins/heap/heap_ptmalloc.py\<close>, \<open>Chunk\<close> of \<open>heap_freelist.py\<close>). A chunk is its base
  address; everything else about it is in memory: the size of a free predecessor at the base, the
  size field with its flags one word above, and the links of the free list in the two words that
  follow. Values that come from memory are bit-vectors of the width of a word, so sums with them
  wrap; chunk bases and sizes that were made concrete are integers. All chunks of one heap belong to
  one state, so that comparing them compares their bases; a merge compares chunks of different
  states, and there the check of \<open>Chunk._compare\<close> is modelled.
\<close>

section \<open>Chunks\<close>

definition CHUNK_FLAGS_MASK :: int where "CHUNK_FLAGS_MASK = 0x07"

definition CHUNK_P_MASK :: int where "CHUNK_P_MASK = 0x01"

record pt_heap = sim_heap +
  memory_endness :: endness
  chunk_size_t_size :: nat
  chunk_min_size :: int
  chunk_align_mask :: int
  free_head_chunk :: "int option"
  free_head_chunk_exists :: bool
  free_head_chunk_init_base :: "int option"
  initialized :: bool

type_synonym chunk = int

abbreviation upd_memory :: "pt_heap \<Rightarrow> paged_memory \<Rightarrow> pt_heap" where
  "upd_memory h m \<equiv> h\<lparr>memory := m\<rparr>"

text \<open>A metadata word, its store with \<open>size=self.state.arch.bytes\<close>, and arithmetic at the width of a word.\<close>

definition load_word :: "pt_heap \<Rightarrow> int \<Rightarrow> endness \<Rightarrow> int res" where
  "load_word h addr e = mload (memory h) addr (chunk_size_t_size h) e"

definition store_word :: "int \<Rightarrow> int \<Rightarrow> endness \<Rightarrow> pt_heap \<Rightarrow> pt_heap res" where
  "store_word addr v e h = map_res (upd_memory h) (mstore (memory h) addr v (arch_bytes (memory h)) e)"

definition wrap :: "pt_heap \<Rightarrow> int \<Rightarrow> int" where
  "wrap h v = v mod 2 ^ (8 * arch_bytes (memory h))"

definition get_size :: "pt_heap \<Rightarrow> chunk \<Rightarrow> int res" where
  "get_size h c = map_res (\<lambda>v. v AND NOT CHUNK_FLAGS_MASK) (load_word h (c + int (chunk_size_t_size h)) Iend_BE)"

definition next_chunk :: "pt_heap \<Rightarrow> chunk \<Rightarrow> chunk option res" where
  "next_chunk h c =
     map_res (\<lambda>sz. let base = wrap h (c + sz) in
                if base \<ge> heap_base h + heap_size h - 2 * int (chunk_size_t_size h) then None else Some base)
       (get_size h c)"

definition is_prev_free :: "pt_heap \<Rightarrow> chunk \<Rightarrow> bool res" where
  "is_prev_free h c = map_res (\<lambda>v. v AND CHUNK_P_MASK = 0) (load_word h (c + int (chunk_size_t_size h)) Iend_BE)"

definition prev_size :: "pt_heap \<Rightarrow> chunk \<Rightarrow> int res" where
  "prev_size h c = map_res (\<lambda>v. v AND NOT CHUNK_FLAGS_MASK) (load_word h c Iend_BE)"

definition is_free :: "pt_heap \<Rightarrow> chunk \<Rightarrow> bool res" where
  "is_free h c =
     bind_res (next_chunk h c) (\<lambda>nx.
       case nx of
         Some n \<Rightarrow> is_prev_free h n
       | None \<Rightarrow> map_res (\<lambda>v. v AND CHUNK_P_MASK = 0)
                   (load_word h (heap_base h + heap_size h - int (chunk_size_t_size h)) Iend_BE))"

definition get_data_size :: "pt_heap \<Rightarrow> chunk \<Rightarrow> int res" where
  "get_data_size h c =
     bind_res (get_size h c) (\<lambda>sz. bind_res (is_free h c) (\<lambda>f.
       Inr (wrap h (sz - (if f then 4 else 2) * int (chunk_size_t_size h)))))"

definition set_leading_size :: "chunk \<Rightarrow> int \<Rightarrow> pt_heap \<Rightarrow> pt_heap res" where
  "set_leading_size c sz h =
     bind_res (load_word h (c + int (chunk_size_t_size h)) Iend_BE) (\<lambda>v.
       store_word (c + int (chunk_size_t_size h)) (wrap h sz OR (v AND CHUNK_FLAGS_MASK)) Iend_BE h)"

definition set_trailing_size :: "chunk \<Rightarrow> int \<Rightarrow> pt_heap \<Rightarrow> pt_heap res" where
  "set_trailing_size c sz h =
     bind_res (is_free h c) (\<lambda>f.
       if f then bind_res (next_chunk h c) (\<lambda>nx.
              case nx of Some n \<Rightarrow> store_word n sz Iend_BE h | None \<Rightarrow> Inr h)
       else Inr h)"

definition set_prev_freeness :: "chunk \<Rightarrow> bool \<Rightarrow> pt_heap \<Rightarrow> pt_heap res" where
  "set_prev_freeness c f h =
     bind_res (load_word h (c + int (chunk_size_t_size h)) Iend_BE) (\<lambda>size_field.
       store_word (c + int (chunk_size_t_size h))
         (if f then size_field AND NOT CHUNK_P_MASK else size_field OR CHUNK_P_MASK) Iend_BE h)"

definition set_final_freeness :: "bool \<Rightarrow> pt_heap \<Rightarrow> pt_heap res" where
  "set_final_freeness f h =
     store_word (heap_base h + heap_size h - int (chunk_size_t_size h))
       (if f then NOT CHUNK_P_MASK else CHUNK_P_MASK) Iend_BE h"

definition set_size :: "chunk \<Rightarrow> int \<Rightarrow> bool option \<Rightarrow> pt_heap \<Rightarrow> pt_heap res" where
  "set_size c sz hint h =
     bind_res (set_leading_size c sz h) (\<lambda>h1.
     bind_res (next_chunk h1 c) (\<lambda>nx.
     bind_res (case hint of
                 None \<Rightarrow> Inr h1
               | Some f \<Rightarrow> (case nx of Some n \<Rightarrow> set_prev_freeness n f h1 | None \<Rightarrow> set_final_freeness f h1)) (\<lambda>h2.
     bind_res (if hint = Some True then Inr True else is_free h2 c) (\<lambda>f.
       case nx of
         Some n \<Rightarrow> if f then store_word n sz Iend_BE h2 else Inr h2
       | None \<Rightarrow> Inr h2))))"

definition data_ptr :: "pt_heap \<Rightarrow> chunk \<Rightarrow> int" where
  "data_ptr h c = c + 2 * int (chunk_size_t_size h)"

definition prev_chunk :: "pt_heap \<Rightarrow> chunk \<Rightarrow> chunk res" where
  "prev_chunk h c =
     bind_res (is_prev_free h c) (\<lambda>f.
       if f then map_res (\<lambda>sz. wrap h (c - sz)) (prev_size h c) else Inl SimHeapError)"

definition fwd_chunk :: "pt_heap \<Rightarrow> chunk \<Rightarrow> chunk res" where
  "fwd_chunk h c =
     bind_res (is_free h c) (\<lambda>f.
       if f then load_word h (c + 2 * int (chunk_size_t_size h)) (memory_endness h) else Inl SimHeapError)"

definition set_fwd_chunk :: "chunk \<Rightarrow> chunk \<Rightarrow> pt_heap \<Rightarrow> pt_heap res" where
  "set_fwd_chunk c fwd h = store_word (c + 2 * int (chunk_size_t_size h)) fwd (memory_endness h) h"

definition bck_chunk :: "pt_heap \<Rightarrow> chunk \<Rightarrow> chunk res" where
  "bck_chunk h c =
     bind_res (is_free h c) (\<lambda>f.
       if f then load_word h (c + 3 * int (chunk_size_t_size h)) (memory_endness h) else Inl SimHeapError)"

definition set_bck_chunk :: "chunk \<Rightarrow> chunk \<Rightarrow> pt_heap \<Rightarrow> pt_heap res" where
  "set_bck_chunk c bck h = store_word (c + 3 * int (chunk_size_t_size h)) bck (memory_endness h) h"

section \<open>Allocation\<close>

definition chunk_from_mem :: "pt_heap \<Rightarrow> int \<Rightarrow> chunk option" where
  "chunk_from_mem h ptr = (if ptr \<noteq> 0 then Some (ptr - 2 * int (chunk_size_t_size h)) else None)"

definition make_chunk_size :: "pt_heap \<Rightarrow> int \<Rightarrow> int" where
  "make_chunk_size h req_size =
     (let sz = max (req_size + 2 * int (chunk_size_t_size h)) (chunk_min_size h) in
      if sz AND chunk_align_mask h \<noteq> 0 then (sz AND NOT (chunk_align_mask h)) + chunk_align_mask h + 1 else sz)"

text \<open>The chunk is split: the remainder takes its place in the free list.\<close>

definition split_chunk :: "chunk \<Rightarrow> int \<Rightarrow> int \<Rightarrow> pt_heap \<Rightarrow> pt_heap res" where
  "split_chunk c free_size sz h =
     bind_res (bck_chunk h c) (\<lambda>bck.
     bind_res (fwd_chunk h c) (\<lambda>fwd.
     let rem = c + sz in
     bind_res (set_size rem (free_size - sz) (Some True) h) (\<lambda>h1.
     bind_res (set_prev_freeness rem False h1) (\<lambda>h2.
     let h3 = (if free_head_chunk h2 = Some c then h2\<lparr>free_head_chunk := Some rem\<rparr> else h2) in
     bind_res (set_size c sz None h3) (\<lambda>h4.
     if c = bck \<and> c = fwd then
       bind_res (set_bck_chunk rem rem h4) (set_fwd_chunk rem rem)
     else
       bind_res (set_bck_chunk rem bck h4) (\<lambda>h5.
       bind_res (set_fwd_chunk rem fwd h5) (\<lambda>h6.
       bind_res (set_fwd_chunk bck rem h6) (set_bck_chunk fwd rem))))))))"

text \<open>The chunk is used whole: it leaves the free list.\<close>

definition take_chunk :: "chunk \<Rightarrow> pt_heap \<Rightarrow> pt_heap res" where
  "take_chunk c h =
     bind_res (fwd_chunk h c) (\<lambda>fwd.
     bind_res (bck_chunk h c) (\<lambda>bck.
     bind_res
       (if bck = fwd \<and> c = fwd then Inr (h\<lparr>free_head_chunk := None\<rparr>)
        else
          let h1 = (if free_head_chunk h = Some c then h\<lparr>free_head_chunk := Some fwd\<rparr> else h) in
          bind_res (set_fwd_chunk bck fwd h1) (set_bck_chunk fwd bck)) (\<lambda>h2.
     bind_res (next_chunk h2 c) (\<lambda>nx.
       case nx of Some n \<Rightarrow> set_prev_freeness n False h2 | None \<Rightarrow> set_final_freeness False h2))))"

lemma load_word_range: "load_word h a e = Inr v \<Longrightarrow> 0 \<le> v \<and> v < 256 ^ chunk_size_t_size h"
  using word_at_range [of "memory h" a "chunk_size_t_size h" e] by (auto simp: load_word_def mload_def split: if_splits)

lemma fwd_chunk_range: "fwd_chunk h c = Inr f \<Longrightarrow> f < 256 ^ chunk_size_t_size h"
  by (auto simp: fwd_chunk_def split: if_splits dest: load_word_range)

text \<open>
  The search for the first free chunk that is large enough. The loop only moves to a higher address,
  so it ends on every memory.
\<close>

function malloc_loop :: "int \<Rightarrow> chunk \<Rightarrow> pt_heap \<Rightarrow> (int \<times> pt_heap) res" where
  "malloc_loop sz free_chunk h =
     (case get_size h free_chunk of
        Inl e \<Rightarrow> Inl e
      | Inr free_size \<Rightarrow>
          if free_size < sz then
            case fwd_chunk h free_chunk of
              Inl e \<Rightarrow> Inl e
            | Inr fwd \<Rightarrow> if fwd \<le> free_chunk then Inr (0, h) else malloc_loop sz fwd h
          else
            let h1 = ensure_mapped (free_chunk + sz + 2 * chunk_min_size h) h in
            map_res (\<lambda>h2. (data_ptr h2 free_chunk, h2))
              (if free_size > sz \<and> free_size - sz \<ge> chunk_min_size h1 then split_chunk free_chunk free_size sz h1
               else take_chunk free_chunk h1))"
  by pat_completeness auto
termination
  by (relation "measure (\<lambda>(_, c, h). nat (256 ^ chunk_size_t_size h - c))") (auto dest: fwd_chunk_range)

declare malloc_loop.simps [simp del]

definition malloc :: "sim_value \<Rightarrow> pt_heap \<Rightarrow> (int \<times> pt_heap) res" where
  "malloc sim_size h =
     (let sz = make_chunk_size h (conc_alloc_size (max_variable_size h) sim_size) in
      case free_head_chunk h of
        None \<Rightarrow> Inr (0, h)
      | Some c \<Rightarrow> malloc_loop sz c h)"

section \<open>Release\<close>

text \<open>
  \<open>_find_bck\<close> walks the free list. Below the chunk it only moves up and ends on every memory; the
  walk to the last chunk of the list ends if it comes back to the head, and the value \<open>None\<close> stands
  for a walk that does not end.
\<close>

function find_below :: "pt_heap \<Rightarrow> chunk \<Rightarrow> chunk \<Rightarrow> chunk \<Rightarrow> chunk res" where
  "find_below h c cur fwd =
     (if cur < fwd \<and> fwd < c then
        case fwd_chunk h fwd of Inl e \<Rightarrow> Inl e | Inr fwd' \<Rightarrow> find_below h c fwd fwd'
      else Inr cur)"
  by pat_completeness auto
termination
  by (relation "measure (\<lambda>(_, c, cur, _). nat (c - cur))") auto

declare find_below.simps [simp del]

partial_function (option) find_last :: "pt_heap \<Rightarrow> chunk \<Rightarrow> chunk \<Rightarrow> chunk \<Rightarrow> chunk res option" where
  "find_last h head cur fwd =
     (if fwd \<noteq> head then
        case fwd_chunk h fwd of Inl e \<Rightarrow> Some (Inl e) | Inr fwd' \<Rightarrow> find_last h head fwd fwd'
      else Some (Inr cur))"

definition find_bck :: "pt_heap \<Rightarrow> chunk \<Rightarrow> chunk option res option" where
  "find_bck h c =
     (case free_head_chunk h of
        None \<Rightarrow> Some (Inr None)
      | Some cur \<Rightarrow>
          (case fwd_chunk h cur of
             Inl e \<Rightarrow> Some (Inl e)
           | Inr fwd \<Rightarrow>
               if cur = fwd then Some (Inr (Some cur))
               else if cur < c then Some (map_res Some (find_below h c cur fwd))
               else map_option (map_res Some) (find_last h cur cur fwd)))"

text \<open>Sequencing before a walk, and \<open>min(self.free_head_chunk, chunk)\<close>.\<close>

definition then_walk :: "'a res \<Rightarrow> ('a \<Rightarrow> 'b res option) \<Rightarrow> 'b res option" where
  "then_walk m f = (case m of Inl e \<Rightarrow> Some (Inl e) | Inr x \<Rightarrow> f x)"

definition lower_head :: "chunk \<Rightarrow> pt_heap \<Rightarrow> pt_heap res" where
  "lower_head c h =
     (case free_head_chunk h of
        None \<Rightarrow> Inl AttributeError
      | Some head \<Rightarrow> Inr (h\<lparr>free_head_chunk := Some (min head c)\<rparr>))"

definition set_chunk_freeness :: "chunk option \<Rightarrow> bool \<Rightarrow> pt_heap \<Rightarrow> pt_heap res" where
  "set_chunk_freeness nx f h = (case nx of Some n \<Rightarrow> set_prev_freeness n f h | None \<Rightarrow> set_final_freeness f h)"

text \<open>Both neighbours are in use: the chunk enters the free list.\<close>

definition free_alone :: "chunk \<Rightarrow> int \<Rightarrow> chunk option \<Rightarrow> pt_heap \<Rightarrow> pt_heap res option" where
  "free_alone c sz nx h =
     then_walk (set_chunk_freeness nx True h) (\<lambda>h1.
     then_walk (set_size c sz None h1) (\<lambda>h2.
     map_option (\<lambda>r.
       bind_res r (\<lambda>found.
       bind_res
         (case found of
            None \<Rightarrow> Inr (c, c, h2\<lparr>free_head_chunk := Some c\<rparr>)
          | Some bck \<Rightarrow>
              bind_res (fwd_chunk h2 bck) (\<lambda>fwd.
              bind_res (set_fwd_chunk bck c h2) (\<lambda>h3.
              bind_res (set_bck_chunk fwd c h3) (\<lambda>h4. Inr (bck, fwd, h4))))) (\<lambda>(bck, fwd, h5).
       bind_res (set_bck_chunk c bck h5) (\<lambda>h6.
       bind_res (set_fwd_chunk c fwd h6) (lower_head c)))))
       (find_bck h2 c)))"

text \<open>Both neighbours are free: all three become one chunk.\<close>

definition free_between :: "chunk \<Rightarrow> int \<Rightarrow> chunk \<Rightarrow> pt_heap \<Rightarrow> pt_heap res" where
  "free_between c sz n h =
     bind_res (prev_chunk h c) (\<lambda>p.
     bind_res (get_size h p) (\<lambda>p_size.
     bind_res (get_size h n) (\<lambda>n_size.
     bind_res (set_size p (wrap h (p_size + sz + n_size)) None h) (\<lambda>h1.
     bind_res (fwd_chunk h1 n) (\<lambda>n_fwd.
     bind_res (set_fwd_chunk p n_fwd h1) (set_bck_chunk n_fwd p))))))"

text \<open>One neighbour is free: the new chunk starts at \<open>base\<close>.\<close>

definition free_merge :: "chunk \<Rightarrow> int \<Rightarrow> chunk \<Rightarrow> chunk \<Rightarrow> pt_heap \<Rightarrow> pt_heap res" where
  "free_merge base new_size bck fwd h =
     bind_res (set_size base new_size None h) (\<lambda>h1.
     bind_res (set_bck_chunk base bck h1) (\<lambda>h2.
     bind_res (set_fwd_chunk base fwd h2) (\<lambda>h3.
     bind_res (set_fwd_chunk bck base h3) (\<lambda>h4.
     bind_res (set_bck_chunk fwd base h4) (\<lambda>h5.
     bind_res (next_chunk h5 base) (\<lambda>new_next.
     bind_res (set_chunk_freeness new_next True h5) (\<lambda>h6.
     set_size base new_size None h6)))))))"

definition free_after_prev :: "chunk \<Rightarrow> int \<Rightarrow> pt_heap \<Rightarrow> pt_heap res" where
  "free_after_prev c sz h =
     bind_res (prev_chunk h c) (\<lambda>base.
     bind_res (get_size h base) (\<lambda>b_size.
     bind_res (bck_chunk h base) (\<lambda>bck.
     bind_res (fwd_chunk h base) (\<lambda>fwd.
     free_merge base (wrap h (sz + b_size)) bck fwd h))))"

definition free_before_next :: "chunk \<Rightarrow> int \<Rightarrow> chunk \<Rightarrow> pt_heap \<Rightarrow> pt_heap res" where
  "free_before_next c sz n h =
     bind_res (get_size h n) (\<lambda>n_size.
     bind_res (bck_chunk h n) (\<lambda>bck.
     bind_res (fwd_chunk h n) (\<lambda>fwd.
     bind_res (lower_head c h) (\<lambda>h1.
     let (bck', fwd') = (if bck = fwd \<and> bck = n then (c, c) else (bck, fwd)) in
     free_merge c (wrap h (sz + n_size)) bck' fwd' h1))))"

definition free :: "int \<Rightarrow> pt_heap \<Rightarrow> pt_heap res option" where
  "free ptr h =
     (case chunk_from_mem h ptr of
        None \<Rightarrow> Some (Inr h)
      | Some c \<Rightarrow>
          then_walk (is_free h c) (\<lambda>f.
          if f then Some (Inr h)
          else
            then_walk (get_size h c) (\<lambda>sz.
            then_walk (is_prev_free h c) (\<lambda>p_free.
            then_walk (next_chunk h c) (\<lambda>nx.
            then_walk (case nx of None \<Rightarrow> Inr False | Some n \<Rightarrow> is_free h n) (\<lambda>n_free.
            if \<not> p_free \<and> \<not> n_free then free_alone c sz nx h
            else if p_free \<and> n_free then Some (free_between c sz (the nx) h)
            else if p_free then Some (free_after_prev c sz h)
            else Some (free_before_next c sz (the nx) h)))))))"

section \<open>calloc and realloc\<close>

text \<open>The arguments of \<open>calloc\<close> are words; their product wraps.\<close>

definition calloc :: "int \<Rightarrow> int \<Rightarrow> pt_heap \<Rightarrow> (int \<times> pt_heap) res" where
  "calloc nmemb sz h =
     (let total = conc_alloc_size (max_variable_size h) (Conc (wrap h (nmemb * sz))) in
      bind_res (malloc (Conc total) h) (\<lambda>(addr, h1).
      if addr = 0 then Inr (0, h1)
      else if total \<noteq> 0 then
        map_res (\<lambda>m. (addr, upd_memory h1 m)) (mstore (memory h1) addr 0 (nat total) Iend_BE)
      else Inr (addr, h1)))"

definition realloc :: "int \<Rightarrow> sim_value \<Rightarrow> pt_heap \<Rightarrow> (int \<times> pt_heap) res option" where
  "realloc ptr sim_size h =
     (case chunk_from_mem h ptr of
        None \<Rightarrow> Some (malloc sim_size h)
      | Some c \<Rightarrow>
          let sz = conc_alloc_size (max_variable_size h) sim_size in
          if sz = 0 then map_option (map_res (\<lambda>h'. (0, h'))) (free ptr h)
          else
            then_walk (get_size h c) (\<lambda>old_size.
            let new_size = make_chunk_size h sz in
            if new_size > old_size then
              then_walk (malloc (Conc sz) h) (\<lambda>(new_data_ptr, h1).
              if new_data_ptr = 0 then Some (Inr (0, h1))
              else
                let n = nat (old_size - 2 * int (chunk_size_t_size h1)) in
                then_walk (mload (memory h1) (data_ptr h1 c) n Iend_BE) (\<lambda>old_data.
                then_walk (mstore (memory h1) new_data_ptr old_data n Iend_BE) (\<lambda>m.
                map_option (map_res (\<lambda>h2. (new_data_ptr, h2))) (free (data_ptr h1 c) (upd_memory h1 m)))))
            else if new_size < old_size \<and> old_size - new_size \<ge> chunk_min_size h then
              then_walk (set_size c new_size (Some False) h) (\<lambda>h1.
              then_walk (next_chunk h1 c) (\<lambda>nx.
              case nx of
                None \<Rightarrow> Some (Inr (data_ptr h1 c, h1))
              | Some n \<Rightarrow>
                  then_walk (set_size n (old_size - new_size) (Some False) h1) (\<lambda>h2.
                  then_walk (set_prev_freeness n False h2) (\<lambda>h3.
                  map_option (map_res (\<lambda>h4. (data_ptr h4 c, h4))) (free (data_ptr h3 n) h3)))))
            else Some (Inr (data_ptr h c, h))))"

section \<open>Initialisation, copy and merge\<close>

definition map_final_page :: "pt_heap \<Rightarrow> pt_heap" where
  "map_final_page h =
     (case mapped_end h of
        None \<Rightarrow> h
      | Some e \<Rightarrow>
          let final_page = (region_end h - 1) - (region_end h - 1) mod page_size in
          if final_page < e then h else upd_memory h (map_range final_page (region_end h) (memory h)))"

definition init_state :: "bool \<Rightarrow> pt_heap \<Rightarrow> pt_heap res" where
  "init_state abstract_memory h =
     (let h1 = map_final_page (base_init_state abstract_memory h);
          szt = arch_bytes (memory h1); mask = 2 * int szt - 1;
          free_base = (if heap_base h1 AND mask \<noteq> 0 then (heap_base h1 AND NOT mask) + mask + 1 else heap_base h1);
          h2 = h1\<lparr>chunk_size_t_size := szt, chunk_min_size := 4 * int szt, chunk_align_mask := mask,
                 free_head_chunk :=
                   if free_head_chunk_exists h1 \<and> free_head_chunk_init_base h1 = None then Some free_base
                   else if \<not> free_head_chunk_exists h1 then None
                   else free_head_chunk_init_base h1\<rparr>
      in if initialized h2 then Inr h2
         else
           case free_head_chunk h2 of
             None \<Rightarrow> Inl AttributeError
           | Some c \<Rightarrow>
               bind_res (store_word (c + int szt)
                 (((heap_size h2 - 2 * int szt) AND NOT mask) OR CHUNK_P_MASK) Iend_BE h2) (\<lambda>h3.
               bind_res (set_final_freeness True h3) (\<lambda>h4.
               bind_res (set_fwd_chunk c c h4) (\<lambda>h5.
               bind_res (set_bck_chunk c c h5) (\<lambda>h6.
               Inr (h6\<lparr>initialized := True\<rparr>))))))"

definition SimHeapPTMalloc_init :: "int option \<Rightarrow> int option \<Rightarrow> paged_memory \<Rightarrow> int \<Rightarrow> endness \<Rightarrow> pt_heap" where
  "SimHeapPTMalloc_init base sz m limit e =
     sim_heap.extend (SimHeapBase_init base sz m limit)
       (pt_heap.fields e 0 0 0 None True None False)"

text \<open>A copy forgets the fields that depend on the state; \<open>init_state\<close> computes them again.\<close>

definition pt_copy :: "pt_heap \<Rightarrow> pt_heap" where
  "pt_copy h =
     h\<lparr>free_head_chunk_exists := (free_head_chunk h \<noteq> None), free_head_chunk_init_base := free_head_chunk h,
       free_head_chunk := None, chunk_size_t_size := 0, chunk_min_size := 0, chunk_align_mask := 0\<rparr>"

text \<open>\<open>Chunk.__ne__\<close> on the heads of two heaps, each with the identity of the state it belongs to.\<close>

definition head_differs :: "nat \<Rightarrow> chunk option \<Rightarrow> nat \<Rightarrow> chunk option \<Rightarrow> bool res" where
  "head_differs s a s' b =
     (case (a, b) of
        (None, None) \<Rightarrow> Inr False
      | (Some c, Some d) \<Rightarrow> if s = s' then Inr (c \<noteq> d) else Inl SimHeapError
      | _ \<Rightarrow> Inl AttributeError)"

fun any_res :: "('a \<Rightarrow> bool res) \<Rightarrow> 'a list \<Rightarrow> bool res" where
  "any_res p [] = Inr False"
| "any_res p (x # xs) = bind_res (p x) (\<lambda>b. if b then Inr True else any_res p xs)"

definition raise_if_any :: "('a \<Rightarrow> bool res) \<Rightarrow> 'a list \<Rightarrow> unit res" where
  "raise_if_any p xs = bind_res (any_res p xs) (\<lambda>b. if b then Inl SimMergeError else Inr ())"

definition pt_combine :: "nat \<Rightarrow> pt_heap \<Rightarrow> (nat \<times> pt_heap) list \<Rightarrow> (bool \<times> pt_heap) res" where
  "pt_combine s h others =
     bind_res (raise_if_any (\<lambda>(_, g). Inr (heap_base g \<noteq> heap_base h)) others) (\<lambda>_.
     bind_res (raise_if_any (\<lambda>(_, g). Inr (heap_size g \<noteq> heap_size h)) others) (\<lambda>_.
     bind_res (raise_if_any (\<lambda>(t, g). head_differs t (free_head_chunk g) s (free_head_chunk h)) others) (\<lambda>_.
     bind_res (raise_if_any (\<lambda>(_, g). Inr (mmap_base g \<noteq> mmap_base h)) others) (\<lambda>_.
     bind_res (raise_if_any (\<lambda>(_, g). Inr (chunk_size_t_size g \<noteq> chunk_size_t_size h)) others) (\<lambda>_.
     bind_res (raise_if_any (\<lambda>(_, g). Inr (chunk_min_size g \<noteq> chunk_min_size h)) others) (\<lambda>_.
     bind_res (raise_if_any (\<lambda>(_, g). Inr (chunk_align_mask g \<noteq> chunk_align_mask h)) others) (\<lambda>_.
     Inr (False, combine_mapped_end (map snd others) h))))))))"

section \<open>Walking the chunks\<close>

text \<open>
  \<open>PTChunkIterator\<close> from a chunk: the chunks that satisfy the condition, in address order. A heap
  whose size fields do not lead past its end has no such list, which is \<open>None\<close>.
\<close>

partial_function (option) iterate :: "pt_heap \<Rightarrow> (chunk \<Rightarrow> bool res) \<Rightarrow> chunk option \<Rightarrow> chunk list res option" where
  "iterate h cond at =
     (case at of
        None \<Rightarrow> Some (Inr [])
      | Some c \<Rightarrow>
          (case cond c of
             Inl e \<Rightarrow> Some (Inl e)
           | Inr b \<Rightarrow>
               (case next_chunk h c of
                  Inl e \<Rightarrow> Some (Inl e)
                | Inr nx \<Rightarrow>
                    Option.bind (iterate h cond nx) (\<lambda>r.
                      Some (map_res (\<lambda>cs. if b then c # cs else cs) r)))))"

definition chunks :: "pt_heap \<Rightarrow> chunk list res option" where
  "chunks h = iterate h (\<lambda>_. Inr True) (Some (heap_base h))"

definition allocated_chunks :: "pt_heap \<Rightarrow> chunk list res option" where
  "allocated_chunks h = iterate h (\<lambda>c. map_res Not (is_free h c)) (Some (heap_base h))"

definition free_chunks :: "pt_heap \<Rightarrow> chunk list res option" where
  "free_chunks h = iterate h (is_free h) (Some (heap_base h))"

end
