(* ===== verification/Heap_Layout.thy ===== *)
theory Heap_Layout
  imports Heap_PTMalloc
begin

text \<open>
  The layout of the freelist heap. \<open>hstep h h' A\<close> says that \<open>h'\<close> differs from \<open>h\<close> at most in the
  metadata words at the addresses \<open>A\<close>, in the pages that exist and in the head of the free list; the
  operations on chunks are described by such steps and by what the words hold afterwards. The free
  list is described by \<open>ring\<close>, the tiling of the region by \<open>seg\<close>, and \<open>heap_ok h bs\<close> relates a heap
  to the list of its blocks, which is the abstract state of the heap.
\<close>

section \<open>Words of a heap\<close>

abbreviation Z :: "pt_heap \<Rightarrow> int" where
  "Z h \<equiv> int (chunk_size_t_size h)"

abbreviation limit :: "pt_heap \<Rightarrow> int" where
  "limit h \<equiv> heap_base h + heap_size h - 2 * Z h"

text \<open>
  The configuration that the heap works with: words of four or eight bytes, a region in the address
  space whose base and size are aligned.
\<close>

definition cfg :: "pt_heap \<Rightarrow> bool" where
  "cfg h \<longleftrightarrow> arch_bytes (memory h) = chunk_size_t_size h \<and> chunk_size_t_size h \<in> {4, 8}
     \<and> chunk_min_size h = 4 * Z h \<and> chunk_align_mask h = 2 * Z h - 1
     \<and> 2 * Z h dvd heap_base h \<and> 2 * Z h dvd heap_size h \<and> 0 \<le> heap_base h \<and> 6 * Z h \<le> heap_size h
     \<and> heap_base h + heap_size h \<le> 2 ^ (8 * chunk_size_t_size h)"

definition valid :: "pt_heap \<Rightarrow> int \<Rightarrow> bool" where
  "valid h a \<longleftrightarrow> heap_base h \<le> a \<and> a \<le> limit h + Z h \<and> Z h dvd a"

definition rd :: "pt_heap \<Rightarrow> endness \<Rightarrow> int \<Rightarrow> int" where
  "rd h e a = word_at (memory h) a (chunk_size_t_size h) e"

definition hstep :: "pt_heap \<Rightarrow> pt_heap \<Rightarrow> int set \<Rightarrow> bool" where
  "hstep h h' A \<longleftrightarrow> (\<exists>m x e. h' = h\<lparr>memory := m, mapped_end := e, free_head_chunk := x\<rparr>
       \<and> arch_bytes m = arch_bytes (memory h)
       \<and> (\<forall>b. (\<forall>a\<in>A. \<not> (a \<le> b \<and> b < a + Z h)) \<longrightarrow> contents m b = contents (memory h) b))
     \<and> (\<forall>a\<in>A. valid h a)"

lemma hstep_fields:
  assumes "hstep h h' A"
  shows "heap_base h' = heap_base h" "heap_size h' = heap_size h" "chunk_size_t_size h' = chunk_size_t_size h"
    "chunk_min_size h' = chunk_min_size h" "chunk_align_mask h' = chunk_align_mask h"
    "memory_endness h' = memory_endness h" "arch_bytes (memory h') = arch_bytes (memory h)"
    "max_variable_size h' = max_variable_size h" "cfg h' = cfg h" "valid h' = valid h" "wrap h' = wrap h"
  using assms by (auto simp: hstep_def cfg_def valid_def wrap_def fun_eq_iff)

lemma hstepI:
  assumes "h' = h\<lparr>memory := m, mapped_end := e, free_head_chunk := x\<rparr>" and "arch_bytes m = arch_bytes (memory h)"
    and "\<And>b. (\<And>a. a \<in> A \<Longrightarrow> \<not> (a \<le> b \<and> b < a + Z h)) \<Longrightarrow> contents m b = contents (memory h) b"
    and "\<And>a. a \<in> A \<Longrightarrow> valid h a"
  shows "hstep h h' A"
  unfolding hstep_def using assms by blast

lemma hstep_refl [simp]: "hstep h h {}"
  by (rule hstepI [where m = "memory h" and e = "mapped_end h" and x = "free_head_chunk h"]) simp_all

lemma hstep_head [simp]: "hstep h (h\<lparr>free_head_chunk := x\<rparr>) {}"
  by (rule hstepI [where m = "memory h" and e = "mapped_end h" and x = x]) simp_all

lemma hstep_mono: "hstep h h' A \<Longrightarrow> A \<subseteq> B \<Longrightarrow> (\<And>a. a \<in> B \<Longrightarrow> valid h a) \<Longrightarrow> hstep h h' B"
  unfolding hstep_def by blast

lemma hstep_trans:
  assumes "hstep h h1 A" and "hstep h1 h2 B"
  shows "hstep h h2 (A \<union> B)"
proof -
  from assms(1) obtain m x e where 1: "h1 = h\<lparr>memory := m, mapped_end := e, free_head_chunk := x\<rparr>"
    "arch_bytes m = arch_bytes (memory h)"
    "\<And>b. (\<forall>a\<in>A. \<not> (a \<le> b \<and> b < a + Z h)) \<Longrightarrow> contents m b = contents (memory h) b"
    unfolding hstep_def by blast
  from assms(2) obtain m' x' e' where 2: "h2 = h1\<lparr>memory := m', mapped_end := e', free_head_chunk := x'\<rparr>"
    "arch_bytes m' = arch_bytes (memory h1)"
    "\<And>b. (\<forall>a\<in>B. \<not> (a \<le> b \<and> b < a + Z h1)) \<Longrightarrow> contents m' b = contents (memory h1) b"
    unfolding hstep_def by blast
  have "valid h a" if "a \<in> A \<union> B" for a
    using that assms hstep_fields(10) [OF assms(1)] by (auto simp: hstep_def)
  then show ?thesis using 1 2 by (intro hstepI [where m = m' and e = e' and x = x']) auto
qed

lemma cfg_simps:
  assumes "cfg h"
  shows "arch_bytes (memory h) = chunk_size_t_size h" and "Z h = 4 \<or> Z h = 8" and "4 \<le> Z h"
    and "2 * Z h dvd heap_base h" and "2 * Z h dvd limit h" and "Z h dvd heap_base h" and "Z h dvd limit h"
    and "0 \<le> heap_base h" and "heap_base h + 4 * Z h \<le> limit h" and "limit h + 2 * Z h \<le> 2 ^ (8 * chunk_size_t_size h)"
    and "chunk_min_size h = 4 * Z h" and "chunk_align_mask h = 2 * Z h - 1"
proof -
  note c = assms [unfolded cfg_def]
  have base: "2 * Z h dvd heap_base h" and lim: "2 * Z h dvd limit h"
    using c by (auto intro: dvd_diff dvd_add)
  show "2 * Z h dvd heap_base h" "2 * Z h dvd limit h" by (fact base lim)+
  show "Z h dvd heap_base h" "Z h dvd limit h"
    using base lim by (auto intro: dvd_trans [of _ "2 * Z h"])
qed (use assms in \<open>auto simp: cfg_def\<close>)

lemma valid_fits: "cfg h \<Longrightarrow> valid h a \<Longrightarrow> fits (memory h) a (chunk_size_t_size h)"
  using cfg_simps [of h] by (auto simp: valid_def)

lemma load_word_rd: "cfg h \<Longrightarrow> valid h a \<Longrightarrow> load_word h a e = Inr (rd h e a)"
  by (simp add: load_word_def rd_def mload_fits valid_fits)

lemma rd_range: "0 \<le> rd h e a" "cfg h \<Longrightarrow> rd h e a < 2 ^ (8 * chunk_size_t_size h)"
  using word_at_range [of "memory h" a "chunk_size_t_size h" e] by (simp_all add: rd_def power_mult)

lemma multiples_apart:
  assumes "z dvd a" and "z dvd b" and "a \<noteq> b" and "0 < (z :: int)"
  shows "a + z \<le> b \<or> b + z \<le> a"
proof -
  have "z dvd a - b" "z dvd b - a" using assms by (auto intro: dvd_diff)
  then show ?thesis using assms(3,4) zdvd_imp_le [of z "a - b"] zdvd_imp_le [of z "b - a"] by linarith
qed

lemma hstep_rd:
  assumes "hstep h h' A" and "cfg h" and "valid h a" and "a \<notin> A"
  shows "rd h' e a = rd h e a"
proof -
  have z: "0 < Z h" using cfg_simps [OF assms(2)] by simp
  have "contents (memory h') b = contents (memory h) b" if "a \<le> b" "b < a + Z h" for b
  proof -
    have "\<not> (a' \<le> b \<and> b < a' + Z h)" if "a' \<in> A" for a'
    proof -
      have "Z h dvd a'" "Z h dvd a" "a \<noteq> a'" using that assms by (auto simp: hstep_def valid_def)
      from multiples_apart [OF this(2,1,3) z] \<open>a \<le> b\<close> \<open>b < a + Z h\<close> show ?thesis by linarith
    qed
    then show ?thesis using assms(1) by (auto simp: hstep_def)
  qed
  then show ?thesis
    using word_at_cong [of "memory h" a "chunk_size_t_size h" "memory h'" e] valid_fits [OF assms(2,3)]
      hstep_fields [OF assms(1)] by (simp add: rd_def)
qed

lemma store_word_step:
  assumes "cfg h" and "valid h a"
  obtains h' where "store_word a v e h = Inr h'" and "hstep h h' {a}" and "rd h' e a = v mod 2 ^ (8 * chunk_size_t_size h)"
    and "free_head_chunk h' = free_head_chunk h"
proof -
  note fit = valid_fits [OF assms(1,2)] and z = cfg_simps(1) [OF assms(1)]
  from paged.store_ok [OF fit] obtain m where m: "mstore (memory h) a v (chunk_size_t_size h) e = Inr m" by blast
  have c: "contents m b = contents (memory h) b" if "\<not> (a \<le> b \<and> b < a + Z h)" for b
    using m that write_bytes_at [OF fit] by (auto simp: mstore_def split: if_splits)
  have am: "arch_bytes m = arch_bytes (memory h)" using m by (auto simp: mstore_def split: if_splits)
  show ?thesis
  proof (rule that [of "upd_memory h m"])
    show "store_word a v e h = Inr (upd_memory h m)" using m by (simp add: store_word_def z)
    show "hstep h (upd_memory h m) {a}"
      using assms(2) c am by (intro hstepI [where m = m and e = "mapped_end h" and x = "free_head_chunk h"]) auto
    have "mload m a (chunk_size_t_size h) e = Inr (v mod 256 ^ chunk_size_t_size h)"
      by (rule paged.load_same [OF fit m])
    moreover have "\<not> a < 0" using fit by simp
    ultimately show "rd (upd_memory h m) e a = v mod 2 ^ (8 * chunk_size_t_size h)"
      by (simp add: rd_def mload_def power_mult)
  qed simp
qed

section \<open>Size fields\<close>

text \<open>The size in a size field and its lowest flag, under the updates of the code.\<close>

lemma field_bits:
  fixes v sz :: int
  assumes "8 dvd sz"
  shows "(sz OR (v AND CHUNK_FLAGS_MASK)) AND NOT CHUNK_FLAGS_MASK = sz"
    and "even (sz OR (v AND CHUNK_FLAGS_MASK)) = even v"
proof -
  have "take_bit 3 sz = 0" using assms by (simp add: take_bit_eq_mod)
  then have low: "\<not> bit sz i" if "i < 3" for i
    using that by (metis bit_take_bit_iff bit_0_eq bot_apply bot_bool_def)
  have seven: "CHUNK_FLAGS_MASK = mask 3" by (simp add: CHUNK_FLAGS_MASK_def mask_eq_exp_minus_1)
  show "(sz OR (v AND CHUNK_FLAGS_MASK)) AND NOT CHUNK_FLAGS_MASK = sz"
    unfolding seven by (rule bit_eqI) (use low in \<open>auto simp: bit_simps\<close>)
  show "even (sz OR (v AND CHUNK_FLAGS_MASK)) = even v"
    using assms by (auto simp: CHUNK_FLAGS_MASK_def even_or_iff even_and_iff)
qed

lemma flag_bits:
  fixes v :: int
  shows "(v AND NOT CHUNK_P_MASK) AND NOT CHUNK_FLAGS_MASK = v AND NOT CHUNK_FLAGS_MASK" and "even (v AND NOT CHUNK_P_MASK)"
    and "(v OR CHUNK_P_MASK) AND NOT CHUNK_FLAGS_MASK = v AND NOT CHUNK_FLAGS_MASK" and "odd (v OR CHUNK_P_MASK)"
    and "v AND CHUNK_P_MASK = 0 \<longleftrightarrow> even v"
proof -
  have seven: "CHUNK_FLAGS_MASK = mask 3" by (simp add: CHUNK_FLAGS_MASK_def mask_eq_exp_minus_1)
  show "(v AND NOT CHUNK_P_MASK) AND NOT CHUNK_FLAGS_MASK = v AND NOT CHUNK_FLAGS_MASK"
    "(v OR CHUNK_P_MASK) AND NOT CHUNK_FLAGS_MASK = v AND NOT CHUNK_FLAGS_MASK"
    unfolding seven CHUNK_P_MASK_def by (rule bit_eqI; auto simp: bit_simps bit_1_iff)+
qed (auto simp: CHUNK_P_MASK_def even_or_iff even_and_iff even_not_iff and_one_eq odd_iff_mod_2_eq_one)

lemma field_range:
  fixes v sz :: int
  assumes "0 \<le> v" "v < 2 ^ n" "0 \<le> sz" "sz < 2 ^ n" "0 < n"
  shows "0 \<le> sz OR (v AND CHUNK_FLAGS_MASK)" "sz OR (v AND CHUNK_FLAGS_MASK) < 2 ^ n"
    "0 \<le> v AND NOT CHUNK_P_MASK" "v AND NOT CHUNK_P_MASK < 2 ^ n" "0 \<le> v OR CHUNK_P_MASK" "v OR CHUNK_P_MASK < 2 ^ n"
  using assms AND_upper1 [of v 7] AND_upper1 [of v "NOT 1"]
  unfolding CHUNK_FLAGS_MASK_def CHUNK_P_MASK_def by (auto intro!: OR_upper intro: le_less_trans)

definition size_of :: "pt_heap \<Rightarrow> chunk \<Rightarrow> int" where
  "size_of h c = rd h Iend_BE (c + Z h) AND NOT CHUNK_FLAGS_MASK"

text \<open>The flag that says whether the chunk that ends at an address is free; at the limit it is the final word.\<close>

definition pfree :: "pt_heap \<Rightarrow> chunk \<Rightarrow> bool" where
  "pfree h c \<longleftrightarrow> even (rd h Iend_BE (c + Z h))"

lemma hstep_size_of:
  assumes "hstep h h' A" and "cfg h" and "valid h (c + Z h)" and "c + Z h \<notin> A"
  shows "size_of h' c = size_of h c" and "pfree h' c = pfree h c"
  using hstep_rd [OF assms] hstep_fields [OF assms(1)] by (simp_all add: size_of_def pfree_def)

lemma get_size_eq: "cfg h \<Longrightarrow> valid h (c + Z h) \<Longrightarrow> get_size h c = Inr (size_of h c)"
  by (simp add: get_size_def load_word_rd size_of_def)

lemma is_prev_free_eq: "cfg h \<Longrightarrow> valid h (c + Z h) \<Longrightarrow> is_prev_free h c = Inr (pfree h c)"
  by (simp add: is_prev_free_def load_word_rd pfree_def flag_bits)

text \<open>A chunk with its neighbour: the end of the chunk is in the region.\<close>

definition spans :: "pt_heap \<Rightarrow> chunk \<Rightarrow> int \<Rightarrow> bool" where
  "spans h c s \<longleftrightarrow> heap_base h \<le> c \<and> c + s \<le> limit h \<and> 4 * Z h \<le> s \<and> 2 * Z h dvd c \<and> 2 * Z h dvd s"

lemma spans_valid:
  assumes "cfg h" and "spans h c s"
  shows "valid h c" "valid h (c + Z h)" "valid h (c + 2 * Z h)" "valid h (c + 3 * Z h)" "valid h (c + s + Z h)"
    "valid h (c + s)" "8 dvd s" "0 \<le> s" "s < 2 ^ (8 * chunk_size_t_size h)" "0 \<le> c"
    "c + s < 2 ^ (8 * chunk_size_t_size h)"
proof -
  note c = cfg_simps [OF assms(1)] and s = assms(2) [unfolded spans_def]
  have "Z h dvd c" "Z h dvd s" using s by (auto intro: dvd_trans [of _ "2 * Z h"])
  then show "valid h c" "valid h (c + Z h)" "valid h (c + 2 * Z h)" "valid h (c + 3 * Z h)" "valid h (c + s + Z h)"
    "valid h (c + s)"
    using c s by (auto simp: valid_def)
  have "8 dvd 2 * Z h" using c(2) by auto
  with s show "8 dvd s" using dvd_trans by blast
  show "0 \<le> s" "s < 2 ^ (8 * chunk_size_t_size h)" "0 \<le> c" "c + s < 2 ^ (8 * chunk_size_t_size h)"
    using c s by linarith+
qed

lemma next_chunk_eq:
  assumes "cfg h" and "spans h c s" and "size_of h c = s"
  shows "next_chunk h c = Inr (if c + s = limit h then None else Some (c + s))"
proof -
  note v = spans_valid [OF assms(1,2)]
  have "wrap h (c + s) = c + s"
    using v(8,10,11) cfg_simps(1) [OF assms(1)] by (simp add: wrap_def)
  moreover have "c + s \<le> limit h" using assms(2) by (simp add: spans_def)
  ultimately show ?thesis
    using assms(3) by (simp add: next_chunk_def get_size_eq [OF assms(1) v(2)] Let_def)
qed

lemma is_free_eq:
  assumes "cfg h" and "spans h c s" and "size_of h c = s"
  shows "is_free h c = Inr (pfree h (c + s))"
proof (cases "c + s = limit h")
  case True
  then have fin: "heap_base h + heap_size h - Z h = c + s + Z h" by simp
  have "load_word h (heap_base h + heap_size h - Z h) Iend_BE = Inr (rd h Iend_BE (c + s + Z h))"
    unfolding fin by (rule load_word_rd [OF assms(1) spans_valid(5) [OF assms(1,2)]])
  then show ?thesis
    using next_chunk_eq [OF assms] True by (simp add: is_free_def flag_bits pfree_def)
next
  case False
  then show ?thesis
    using next_chunk_eq [OF assms] is_prev_free_eq [OF assms(1) spans_valid(5) [OF assms(1,2)]] by (simp add: is_free_def)
qed

section \<open>Writing the metadata\<close>

lemma set_leading_size_step:
  assumes "cfg h" and "valid h (c + Z h)" and "8 dvd sz" and "0 \<le> sz" and "sz < 2 ^ (8 * chunk_size_t_size h)"
  obtains h' where "set_leading_size c sz h = Inr h'" and "hstep h h' {c + Z h}" and "size_of h' c = sz"
    and "pfree h' c = pfree h c" and "free_head_chunk h' = free_head_chunk h"
proof -
  define v where "v = sz OR (rd h Iend_BE (c + Z h) AND CHUNK_FLAGS_MASK)"
  have z: "0 < 8 * chunk_size_t_size h" using cfg_simps(3) [OF assms(1)] by simp
  have "0 \<le> v" "v < 2 ^ (8 * chunk_size_t_size h)"
    unfolding v_def using field_range [OF rd_range(1) rd_range(2) [OF assms(1)] assms(4,5) z] by simp_all
  with store_word_step [OF assms(1,2), of v Iend_BE] obtain h' where h':
    "store_word (c + Z h) v Iend_BE h = Inr h'" "hstep h h' {c + Z h}" "rd h' Iend_BE (c + Z h) = v"
    "free_head_chunk h' = free_head_chunk h" by (metis mod_pos_pos_trivial)
  show ?thesis
  proof (rule that [OF _ h'(2) _ _ h'(4)])
    have "wrap h sz = sz" using assms(4,5) cfg_simps(1) [OF assms(1)] by (simp add: wrap_def)
    then show "set_leading_size c sz h = Inr h'"
      using h'(1) by (simp add: set_leading_size_def load_word_rd [OF assms(1,2)] v_def)
    show "size_of h' c = sz" "pfree h' c = pfree h c"
      using h'(3) hstep_fields [OF h'(2)] field_bits [OF assms(3)] by (simp_all add: size_of_def pfree_def v_def)
  qed
qed

lemma set_prev_freeness_step:
  assumes "cfg h" and "valid h (c + Z h)"
  obtains h' where "set_prev_freeness c f h = Inr h'" and "hstep h h' {c + Z h}" and "size_of h' c = size_of h c"
    and "pfree h' c = f" and "free_head_chunk h' = free_head_chunk h"
proof -
  define w where "w = rd h Iend_BE (c + Z h)"
  define v where "v = (if f then w AND NOT CHUNK_P_MASK else w OR CHUNK_P_MASK)"
  have z: "0 < 8 * chunk_size_t_size h" using cfg_simps(3) [OF assms(1)] by simp
  have "0 \<le> v" "v < 2 ^ (8 * chunk_size_t_size h)"
    unfolding v_def w_def using field_range(3-6) [OF rd_range(1) rd_range(2) [OF assms(1)] _ _ z, of 0] by simp_all
  with store_word_step [OF assms, of v Iend_BE] obtain h' where h':
    "store_word (c + Z h) v Iend_BE h = Inr h'" "hstep h h' {c + Z h}" "rd h' Iend_BE (c + Z h) = v"
    "free_head_chunk h' = free_head_chunk h" by (metis mod_pos_pos_trivial)
  show ?thesis
  proof (rule that [OF _ h'(2) _ _ h'(4)])
    show "set_prev_freeness c f h = Inr h'"
      using h'(1) by (simp add: set_prev_freeness_def load_word_rd [OF assms] v_def flip: w_def)
    show "size_of h' c = size_of h c" "pfree h' c = f"
      using h'(3) hstep_fields [OF h'(2)] flag_bits [of w] by (simp_all add: size_of_def pfree_def v_def flip: w_def)
  qed
qed

lemma set_final_freeness_step:
  assumes "cfg h"
  obtains h' where "set_final_freeness f h = Inr h'" and "hstep h h' {limit h + Z h}" and "pfree h' (limit h) = f"
    and "free_head_chunk h' = free_head_chunk h"
proof -
  define v where "v = (if f then NOT CHUNK_P_MASK else CHUNK_P_MASK)"
  have lim: "heap_base h + heap_size h - Z h = limit h + Z h" by simp
  have "Z h dvd limit h + Z h" using cfg_simps(7) [OF assms] by (rule dvd_add) simp
  then have "valid h (limit h + Z h)" using cfg_simps [OF assms] by (simp add: valid_def)
  from store_word_step [OF assms this, of v Iend_BE] obtain h' where h':
    "store_word (limit h + Z h) v Iend_BE h = Inr h'" "hstep h h' {limit h + Z h}"
    "rd h' Iend_BE (limit h + Z h) = v mod 2 ^ (8 * chunk_size_t_size h)" "free_head_chunk h' = free_head_chunk h" .
  show ?thesis
  proof (rule that [OF _ h'(2) _ h'(4)])
    show "set_final_freeness f h = Inr h'"
      unfolding set_final_freeness_def lim using h'(1) by (simp add: v_def)
    have "pfree h' (limit h) = even (v mod 2 ^ (8 * chunk_size_t_size h))"
      using h'(3) hstep_fields(3) [OF h'(2)] by (simp only: pfree_def)
    also have "\<dots> = even v"
      using cfg_simps(3) [OF assms] by (simp add: dvd_mod_iff dvd_power)
    finally show "pfree h' (limit h) = f" by (simp add: v_def CHUNK_P_MASK_def)
  qed
qed

lemma hstep_spans: "hstep h h' A \<Longrightarrow> spans h' = spans h"
  by (simp add: spans_def fun_eq_iff hstep_fields)

abbreviation neighbour :: "pt_heap \<Rightarrow> chunk \<Rightarrow> chunk option" where
  "neighbour h n \<equiv> (if n = limit h then None else Some n)"

lemma set_chunk_freeness_step:
  assumes "cfg h" and "valid h (n + Z h)"
  obtains h' where "set_chunk_freeness (neighbour h n) f h = Inr h'" and "hstep h h' {n + Z h}" and "pfree h' n = f"
    and "n \<noteq> limit h \<longrightarrow> size_of h' n = size_of h n" and "free_head_chunk h' = free_head_chunk h"
proof (cases "n = limit h")
  case True
  from set_final_freeness_step [OF assms(1), of f] obtain h' where h':
    "set_final_freeness f h = Inr h'" "hstep h h' {limit h + Z h}" "pfree h' (limit h) = f"
    "free_head_chunk h' = free_head_chunk h" .
  show ?thesis
  proof (rule that [of h'])
    show "set_chunk_freeness (neighbour h n) f h = Inr h'" using h'(1) by (simp add: set_chunk_freeness_def True)
  qed (use h' True in simp_all)
next
  case False
  from set_prev_freeness_step [OF assms, of f] obtain h' where h':
    "set_prev_freeness n f h = Inr h'" "hstep h h' {n + Z h}" "size_of h' n = size_of h n" "pfree h' n = f"
    "free_head_chunk h' = free_head_chunk h" .
  show ?thesis
  proof (rule that [of h'])
    show "set_chunk_freeness (neighbour h n) f h = Inr h'" using h'(1) False by (simp add: set_chunk_freeness_def)
  qed (use h' in simp_all)
qed

text \<open>
  \<open>set_size\<close> in one step: what it writes depends on the hint and on the flag of the chunk.
\<close>

definition size_words :: "pt_heap \<Rightarrow> chunk \<Rightarrow> int \<Rightarrow> bool option \<Rightarrow> bool \<Rightarrow> int set" where
  "size_words h c s hint f =
     {c + Z h} \<union> (if hint = None then {} else {c + s + Z h}) \<union> (if f \<and> c + s \<noteq> limit h then {c + s} else {})"

lemma set_size_step:
  assumes "cfg h" and "spans h c s" and "f = (case hint of Some f \<Rightarrow> f | None \<Rightarrow> pfree h (c + s))"
  obtains h' where "set_size c s hint h = Inr h'" and "hstep h h' (size_words h c s hint f)" and "size_of h' c = s"
    and "pfree h' c = pfree h c" and "pfree h' (c + s) = f"
    and "c + s \<noteq> limit h \<longrightarrow> size_of h' (c + s) = size_of h (c + s)"
    and "f \<and> c + s \<noteq> limit h \<longrightarrow> rd h' Iend_BE (c + s) = s" and "free_head_chunk h' = free_head_chunk h"
proof -
  note v = spans_valid [OF assms(1,2)]
  have z: "0 < Z h" "4 * Z h \<le> s" using cfg_simps(3) [OF assms(1)] assms(2) by (simp_all add: spans_def)
  from set_leading_size_step [OF assms(1) v(2) v(7,8,9)] obtain h1 where h1:
    "set_leading_size c s h = Inr h1" "hstep h h1 {c + Z h}" "size_of h1 c = s" "pfree h1 c = pfree h c"
    "free_head_chunk h1 = free_head_chunk h" .
  note f1 = hstep_fields [OF h1(2)] and keep1 = hstep_size_of [OF h1(2) assms(1)]
  have sp1: "cfg h1" "spans h1 c s" using assms(1,2) f1 by (simp_all add: hstep_spans [OF h1(2)])
  have nx: "next_chunk h1 c = Inr (neighbour h (c + s))" using next_chunk_eq [OF sp1 h1(3)] by (simp add: f1)
  have end1: "size_of h1 (c + s) = size_of h (c + s)" "pfree h1 (c + s) = pfree h (c + s)"
    using keep1 [OF v(5)] z by auto
  obtain h2 where h2: "(case hint of None \<Rightarrow> Inr h1 | Some f \<Rightarrow> set_chunk_freeness (neighbour h (c + s)) f h1) = Inr h2"
    "hstep h1 h2 (if hint = None then {} else {c + s + Z h})" "pfree h2 (c + s) = f"
    "c + s \<noteq> limit h \<longrightarrow> size_of h2 (c + s) = size_of h (c + s)" "free_head_chunk h2 = free_head_chunk h"
  proof (cases hint)
    case None
    then show ?thesis using that [of h1] end1 h1(5) assms(3) by simp
  next
    case (Some g)
    have "valid h1 (c + s + Z h1)" using v(5) by (simp add: f1)
    from set_chunk_freeness_step [OF sp1(1) this, of g] obtain h2 where
      "set_chunk_freeness (neighbour h1 (c + s)) g h1 = Inr h2" "hstep h1 h2 {c + s + Z h1}" "pfree h2 (c + s) = g"
      "c + s \<noteq> limit h1 \<longrightarrow> size_of h2 (c + s) = size_of h1 (c + s)" "free_head_chunk h2 = free_head_chunk h1" .
    then show ?thesis using that [of h2] Some assms(3) end1 h1(5) by (simp add: f1)
  qed
  note f2 = hstep_fields [OF h2(2)]
  have "valid h1 (c + Z h1)" using v(2) by (simp add: f1)
  moreover have "c + Z h1 \<notin> (if hint = None then {} else {c + s + Z h})" using z by (auto simp: f1)
  ultimately have own: "size_of h2 c = s" "pfree h2 c = pfree h c"
    using hstep_size_of [OF h2(2) sp1(1)] h1(3,4) by simp_all
  have sp2: "cfg h2" "spans h2 c s" using sp1 f2 by (simp_all add: hstep_spans [OF h2(2)])
  have fr: "(if hint = Some True then Inr True else is_free h2 c) = Inr f"
    using is_free_eq [OF sp2 own(1)] h2(3) assms(3) by auto
  have tr: "hstep h h2 ({c + Z h} \<union> (if hint = None then {} else {c + s + Z h}))"
    by (rule hstep_trans [OF h1(2) h2(2)])
  show ?thesis
  proof (cases "f \<and> c + s \<noteq> limit h")
    case True
    have "valid h2 (c + s)" using v(6) by (simp add: f1 f2)
    from store_word_step [OF sp2(1) this, of s Iend_BE] obtain h3 where h3:
      "store_word (c + s) s Iend_BE h2 = Inr h3" "hstep h2 h3 {c + s}"
      "rd h3 Iend_BE (c + s) = s mod 2 ^ (8 * chunk_size_t_size h2)" "free_head_chunk h3 = free_head_chunk h2" .
    have val: "valid h2 (c + Z h2)" "valid h2 (c + s + Z h2)" using v(2,5) by (simp_all add: f1 f2)
    have ne: "c + Z h2 \<notin> {c + s}" "c + s + Z h2 \<notin> {c + s}" using z by (auto simp: f1 f2)
    note keep3 = hstep_size_of [OF h3(2) sp2(1) val(1) ne(1)] hstep_size_of [OF h3(2) sp2(1) val(2) ne(2)]
    show ?thesis
    proof (rule that [of h3])
      show "set_size c s hint h = Inr h3"
        using h1(1) nx h2(1) fr True h3(1) by (simp add: set_size_def set_chunk_freeness_def cong: option.case_cong)
      show "hstep h h3 (size_words h c s hint f)"
        using hstep_trans [OF tr h3(2)] True by (simp add: size_words_def)
      show "f \<and> c + s \<noteq> limit h \<longrightarrow> rd h3 Iend_BE (c + s) = s" using h3(3) v(8,9) by (simp add: f1 f2)
    qed (use keep3 own h2 h3(4) in simp_all)
  next
    case False
    show ?thesis
    proof (rule that [of h2])
      show "set_size c s hint h = Inr h2"
        using h1(1) nx h2(1) fr False by (simp add: set_size_def set_chunk_freeness_def cong: option.case_cong)
      show "hstep h h2 (size_words h c s hint f)" using tr False by (auto simp: size_words_def)
    qed (use own h2 False in auto)
  qed
qed

section \<open>Links\<close>

definition fw :: "pt_heap \<Rightarrow> chunk \<Rightarrow> chunk" where
  "fw h c = rd h (memory_endness h) (c + 2 * Z h)"

definition bk :: "pt_heap \<Rightarrow> chunk \<Rightarrow> chunk" where
  "bk h c = rd h (memory_endness h) (c + 3 * Z h)"

lemma hstep_links:
  assumes "hstep h h' A" and "cfg h"
  shows "valid h (d + 2 * Z h) \<Longrightarrow> d + 2 * Z h \<notin> A \<Longrightarrow> fw h' d = fw h d"
    and "valid h (d + 3 * Z h) \<Longrightarrow> d + 3 * Z h \<notin> A \<Longrightarrow> bk h' d = bk h d"
  using hstep_rd [OF assms] hstep_fields [OF assms(1)] by (simp_all add: fw_def bk_def)

lemma link_chunk_eq:
  assumes "cfg h" and "spans h c s" and "size_of h c = s" and "pfree h (c + s)"
  shows "fwd_chunk h c = Inr (fw h c)" and "bck_chunk h c = Inr (bk h c)"
  using spans_valid(3,4) [OF assms(1,2)] is_free_eq [OF assms(1-3)] assms(4)
  by (simp_all add: fwd_chunk_def bck_chunk_def load_word_rd [OF assms(1)] fw_def bk_def)

lemma set_fwd_step:
  assumes "cfg h" and "valid h (c + 2 * Z h)" and "0 \<le> v" and "v < 2 ^ (8 * chunk_size_t_size h)"
  obtains h' where "set_fwd_chunk c v h = Inr h'" and "hstep h h' {c + 2 * Z h}" and "fw h' c = v"
    and "free_head_chunk h' = free_head_chunk h"
proof -
  from store_word_step [OF assms(1,2), of v "memory_endness h"] obtain h' where h':
    "store_word (c + 2 * Z h) v (memory_endness h) h = Inr h'" "hstep h h' {c + 2 * Z h}"
    "rd h' (memory_endness h) (c + 2 * Z h) = v mod 2 ^ (8 * chunk_size_t_size h)"
    "free_head_chunk h' = free_head_chunk h" .
  show ?thesis
    using that [OF _ h'(2) _ h'(4)] h' assms(3,4) hstep_fields [OF h'(2)] by (simp add: set_fwd_chunk_def fw_def)
qed

lemma set_bck_step:
  assumes "cfg h" and "valid h (c + 3 * Z h)" and "0 \<le> v" and "v < 2 ^ (8 * chunk_size_t_size h)"
  obtains h' where "set_bck_chunk c v h = Inr h'" and "hstep h h' {c + 3 * Z h}" and "bk h' c = v"
    and "free_head_chunk h' = free_head_chunk h"
proof -
  from store_word_step [OF assms(1,2), of v "memory_endness h"] obtain h' where h':
    "store_word (c + 3 * Z h) v (memory_endness h) h = Inr h'" "hstep h h' {c + 3 * Z h}"
    "rd h' (memory_endness h) (c + 3 * Z h) = v mod 2 ^ (8 * chunk_size_t_size h)"
    "free_head_chunk h' = free_head_chunk h" .
  show ?thesis
    using that [OF _ h'(2) _ h'(4)] h' assms(3,4) hstep_fields [OF h'(2)] by (simp add: set_bck_chunk_def bk_def)
qed

section \<open>Blocks\<close>

text \<open>
  The abstract state: the sizes of the blocks from the base of the heap up, and which are free.
\<close>

type_synonym block = "int \<times> bool"

definition stop :: "int \<Rightarrow> block list \<Rightarrow> int" where
  "stop b bs = b + sum_list (map fst bs)"

text \<open>The size of the last block if it is free.\<close>

fun tag :: "int option \<Rightarrow> block list \<Rightarrow> int option" where
  "tag p [] = p"
| "tag p ((s, f) # bs) = tag (if f then Some s else None) bs"

fun bases :: "int \<Rightarrow> block list \<Rightarrow> chunk list" where
  "bases b [] = []"
| "bases b ((s, f) # bs) = b # bases (b + s) bs"

fun frees :: "int \<Rightarrow> block list \<Rightarrow> chunk list" where
  "frees b [] = []"
| "frees b ((s, f) # bs) = (if f then b # frees (b + s) bs else frees (b + s) bs)"

text \<open>The words that hold sizes, flags and sizes of free predecessors.\<close>

fun heads :: "int \<Rightarrow> int \<Rightarrow> block list \<Rightarrow> int set" where
  "heads z b [] = {}"
| "heads z b ((s, f) # bs) = {b, b + z} \<union> heads z (b + s) bs"

lemma stop_simps [simp]: "stop b [] = b" "stop b (x # bs) = stop (b + fst x) bs" "stop b (xs @ ys) = stop (stop b xs) ys"
  by (simp_all add: stop_def)

lemma tag_append [simp]: "tag p (xs @ ys) = tag (tag p xs) ys"
  by (induction p xs rule: tag.induct) simp_all

lemma block_append [simp]:
  "bases b (xs @ ys) = bases b xs @ bases (stop b xs) ys" "frees b (xs @ ys) = frees b xs @ frees (stop b xs) ys"
  "heads z b (xs @ ys) = heads z b xs \<union> heads z (stop b xs) ys"
  by (induction b xs rule: bases.induct) auto

abbreviation roomy :: "int \<Rightarrow> block list \<Rightarrow> bool" where
  "roomy z bs \<equiv> list_all (\<lambda>(s, f). 4 * z \<le> s) bs"

lemma block_ranges:
  assumes "roomy z bs" and "0 < z"
  shows "b \<le> stop b bs" and "a \<in> heads z b bs \<Longrightarrow> b \<le> a \<and> a < stop b bs"
    and "d \<in> set (bases b bs) \<Longrightarrow> b \<le> d \<and> d + 4 * z \<le> stop b bs"
    and "d \<in> set (frees b bs) \<Longrightarrow> d \<in> set (bases b bs)"
    and "sorted_wrt (\<lambda>x y. x + 4 * z \<le> y) (bases b bs)" and "sorted_wrt (<) (frees b bs)"
proof -
  have "b \<le> stop b bs \<and> (\<forall>a \<in> heads z b bs. b \<le> a \<and> a < stop b bs)
      \<and> (\<forall>d \<in> set (bases b bs). b \<le> d \<and> d + 4 * z \<le> stop b bs) \<and> set (frees b bs) \<subseteq> set (bases b bs)
      \<and> sorted_wrt (\<lambda>x y. x + 4 * z \<le> y) (bases b bs) \<and> sorted_wrt (<) (frees b bs)"
    using assms(1)
  proof (induction b bs rule: bases.induct)
    case (2 b s f bs)
    then have IH: "b + s \<le> stop (b + s) bs" "\<forall>a \<in> heads z (b + s) bs. b + s \<le> a \<and> a < stop (b + s) bs"
      "\<forall>d \<in> set (bases (b + s) bs). b + s \<le> d \<and> d + 4 * z \<le> stop (b + s) bs"
      "set (frees (b + s) bs) \<subseteq> set (bases (b + s) bs)"
      "sorted_wrt (\<lambda>x y. x + 4 * z \<le> y) (bases (b + s) bs)" "sorted_wrt (<) (frees (b + s) bs)" and s: "4 * z \<le> s"
      by simp_all
    have below: "b + 4 * z \<le> d" if "d \<in> set (bases (b + s) bs)" for d using IH(3) s that by fastforce
    have "b < d" if "d \<in> set (frees (b + s) bs)" for d using below [of d] IH(4) that assms(2) by auto
    then have fr: "sorted_wrt (<) (frees b ((s, f) # bs))" using IH(6) by simp
    have ba: "sorted_wrt (\<lambda>x y. x + 4 * z \<le> y) (bases b ((s, f) # bs))" using IH(5) below by simp
    have hs: "\<forall>a \<in> heads z b ((s, f) # bs). b \<le> a \<and> a < stop b ((s, f) # bs)"
    proof
      fix a assume "a \<in> heads z b ((s, f) # bs)"
      then consider "a = b" | "a = b + z" | "a \<in> heads z (b + s) bs" by auto
      then show "b \<le> a \<and> a < stop b ((s, f) # bs)"
        using IH(1) bspec [OF IH(2), of a] s assms(2) by cases auto
    qed
    have bd: "\<forall>d \<in> set (bases b ((s, f) # bs)). b \<le> d \<and> d + 4 * z \<le> stop b ((s, f) # bs)"
    proof
      fix d assume "d \<in> set (bases b ((s, f) # bs))"
      then consider "d = b" | "d \<in> set (bases (b + s) bs)" by auto
      then show "b \<le> d \<and> d + 4 * z \<le> stop b ((s, f) # bs)"
        using IH(1) bspec [OF IH(3), of d] s assms(2) by cases auto
    qed
    have "b \<le> stop b ((s, f) # bs)" using IH(1) s assms(2) by simp
    moreover have "set (frees b ((s, f) # bs)) \<subseteq> set (bases b ((s, f) # bs))" using IH(4) by auto
    ultimately show ?case using fr ba hs bd by blast
  qed simp
  then show "b \<le> stop b bs" "a \<in> heads z b bs \<Longrightarrow> b \<le> a \<and> a < stop b bs"
    "d \<in> set (bases b bs) \<Longrightarrow> b \<le> d \<and> d + 4 * z \<le> stop b bs"
    "d \<in> set (frees b bs) \<Longrightarrow> d \<in> set (bases b bs)"
    "sorted_wrt (\<lambda>x y. x + 4 * z \<le> y) (bases b bs)" "sorted_wrt (<) (frees b bs)" by blast+
qed

lemma bases_split: "d \<in> set (bases b bs) \<Longrightarrow> \<exists>xs s f ys. bs = xs @ (s, f) # ys \<and> d = stop b xs"
proof (induction b bs rule: bases.induct)
  case (2 b s f bs)
  show ?case
  proof (cases "d = b")
    case True
    then show ?thesis by (intro exI [of _ "[]"]) simp
  next
    case False
    with 2 obtain xs t g ys where "bs = xs @ (t, g) # ys" "d = stop (b + s) xs" by auto
    then show ?thesis by (intro exI [of _ "(s, f) # xs"]) simp
  qed
qed simp

lemma link_not_head:
  assumes "roomy z bs" and "0 < z" and "d \<in> set (bases b bs)"
  shows "d + 2 * z \<notin> heads z b bs \<union> {stop b bs + z}" and "d + 3 * z \<notin> heads z b bs \<union> {stop b bs + z}"
proof -
  obtain xs s f ys where bs: "bs = xs @ (s, f) # ys" "d = stop b xs" using bases_split [OF assms(3)] by blast
  have r: "roomy z xs" "roomy z ys" "4 * z \<le> s" using assms(1) by (simp_all add: bs)
  have "a < d \<or> d + 4 * z \<le> a \<or> a = d \<or> a = d + z" if "a \<in> heads z b bs" for a
    using that block_ranges(2) [OF r(1) assms(2), of a b] block_ranges(2) [OF r(2) assms(2), of a "d + s"] r(3)
    by (auto simp: bs)
  moreover have "d + 4 * z \<le> stop b bs" using block_ranges(3) [OF assms] by simp
  ultimately show "d + 2 * z \<notin> heads z b bs \<union> {stop b bs + z}" "d + 3 * z \<notin> heads z b bs \<union> {stop b bs + z}"
    using assms(2) by fastforce+
qed

end
