(* ===== verification/Heap_Refinement.thy ===== *)
theory Heap_Refinement
  imports Heap_Layout
begin

text \<open>
  The freelist heap refines an allocator on a list of blocks. \<open>heap_ok h bs\<close> is the invariant that
  ties the two together: the blocks tile the region and the size fields, flags and trailing sizes in
  memory describe them, the free blocks form a ring in address order that starts at the head, and
  no two free blocks are adjacent.
\<close>

section \<open>Rings\<close>

fun chain :: "(chunk \<Rightarrow> chunk) \<Rightarrow> (chunk \<Rightarrow> chunk) \<Rightarrow> chunk list \<Rightarrow> bool" where
  "chain F K (x # y # zs) \<longleftrightarrow> F x = y \<and> K y = x \<and> chain F K (y # zs)"
| "chain F K _ \<longleftrightarrow> True"

definition ring :: "(chunk \<Rightarrow> chunk) \<Rightarrow> (chunk \<Rightarrow> chunk) \<Rightarrow> chunk list \<Rightarrow> bool" where
  "ring F K xs \<longleftrightarrow> xs = [] \<or> chain F K (xs @ [hd xs])"

lemma chain_append: "chain F K (xs @ y # ys) \<longleftrightarrow> chain F K (xs @ [y]) \<and> chain F K (y # ys)"
proof (induction xs)
  case (Cons x xs)
  then show ?case by (cases xs) auto
qed simp

lemma chain_snoc: "xs \<noteq> [] \<Longrightarrow> chain F K (xs @ [y]) \<longleftrightarrow> chain F K xs \<and> F (last xs) = y \<and> K y = last xs"
  using chain_append [of F K _ _ "[y]"] by (cases xs rule: rev_cases) simp_all

lemma ring_rotate: "ring F K (xs @ ys) \<longleftrightarrow> ring F K (ys @ xs)"
proof (cases "xs = [] \<or> ys = []")
  case False
  then obtain x xs' y ys' where "xs = x # xs'" "ys = y # ys'" by (metis list.exhaust)
  then show ?thesis
    using chain_append [of F K xs y "ys' @ [x]"] chain_append [of F K ys x "xs' @ [y]"] by (auto simp: ring_def)
qed auto

lemma ring_closed:
  "xs \<noteq> [] \<Longrightarrow> ring F K xs \<longleftrightarrow> chain F K xs \<and> F (last xs) = hd xs \<and> K (hd xs) = last xs"
  by (simp add: ring_def chain_snoc)

lemma ring_Cons:
  "R \<noteq> [] \<Longrightarrow> ring F K (x # R) \<longleftrightarrow> F x = hd R \<and> K (hd R) = x \<and> chain F K R \<and> F (last R) = x \<and> K x = last R"
  by (cases R) (auto simp: ring_closed)

lemma ring_single: "ring F K [x] \<longleftrightarrow> F x = x \<and> K x = x"
  by (simp add: ring_def)

lemma chain_cong:
  assumes "\<And>d. d \<in> set (butlast xs) \<Longrightarrow> F' d = F d" and "\<And>d. d \<in> set (tl xs) \<Longrightarrow> K' d = K d"
  shows "chain F' K' xs = chain F K xs"
  using assms
proof (induction F K xs rule: chain.induct)
  case (1 F K x y zs)
  then show ?case by auto
qed simp_all

lemma chain_ends:
  assumes "distinct R" and "R \<noteq> []" and "\<And>d. d \<in> set R \<Longrightarrow> d \<noteq> last R \<Longrightarrow> F' d = F d"
    and "\<And>d. d \<in> set R \<Longrightarrow> d \<noteq> hd R \<Longrightarrow> K' d = K d"
  shows "chain F' K' R = chain F K R"
proof (rule chain_cong)
  have "distinct (butlast R @ [last R])" "distinct (hd R # tl R)" using assms(1,2) by simp_all
  then have "last R \<notin> set (butlast R)" "hd R \<notin> set (tl R)" by simp_all
  then show "F' d = F d" if "d \<in> set (butlast R)" for d using that assms(3) [of d] in_set_butlastD [OF that] by auto
  show "K' d = K d" if "d \<in> set (tl R)" for d
    using that assms(4) [of d] list.set_sel(2) [OF assms(2) that] \<open>hd R \<notin> set (tl R)\<close> by auto
qed

text \<open>The updates of the free list: an element takes the place of another, leaves, or enters.\<close>

lemma ring_replace:
  assumes "ring F K (x # R)" and "distinct (y # R)" and "R \<noteq> []"
    and "\<And>d. d \<in> set R \<Longrightarrow> F' d = (if d = last R then y else F d)"
    and "\<And>d. d \<in> set R \<Longrightarrow> K' d = (if d = hd R then y else K d)"
    and "F' y = hd R" and "K' y = last R"
  shows "ring F' K' (y # R)"
proof -
  have "chain F' K' R = chain F K R" using assms(2-5) by (intro chain_ends) simp_all
  then show ?thesis using assms ring_Cons [OF assms(3)] by simp
qed

lemma ring_remove:
  assumes "ring F K (x # R)" and "distinct R" and "R \<noteq> []"
    and "\<And>d. d \<in> set R \<Longrightarrow> F' d = (if d = last R then hd R else F d)"
    and "\<And>d. d \<in> set R \<Longrightarrow> K' d = (if d = hd R then last R else K d)"
  shows "ring F' K' R"
proof -
  have "chain F' K' R = chain F K R" using assms(2-5) by (intro chain_ends) simp_all
  then show ?thesis using assms ring_Cons [OF assms(3)] by (simp add: ring_closed)
qed

lemma ring_insert:
  assumes "ring F K R" and "distinct (y # R)" and "R \<noteq> []"
    and "\<And>d. d \<in> set R \<Longrightarrow> F' d = (if d = last R then y else F d)"
    and "\<And>d. d \<in> set R \<Longrightarrow> K' d = (if d = hd R then y else K d)"
    and "F' y = hd R" and "K' y = last R"
  shows "ring F' K' (y # R)"
proof -
  have "chain F' K' R = chain F K R" using assms(2-5) by (intro chain_ends) simp_all
  then show ?thesis using assms ring_Cons [OF assms(3)] ring_closed [OF assms(3)] by simp
qed

lemma ring_cong:
  assumes "ring F K R" and "\<And>d. d \<in> set R \<Longrightarrow> F' d = F d \<and> K' d = K d"
  shows "ring F' K' R"
proof (cases "R = []")
  case False
  then have "chain F' K' R = chain F K R"
    using assms(2) by (intro chain_cong) (auto dest: in_set_butlastD list.set_sel(2))
  then show ?thesis using assms False by (simp add: ring_closed)
qed (simp add: ring_def)

section \<open>The tiling\<close>

fun part :: "pt_heap \<Rightarrow> chunk \<Rightarrow> int option \<Rightarrow> block list \<Rightarrow> bool" where
  "part h b p [] \<longleftrightarrow> True"
| "part h b p ((s, f) # bs) \<longleftrightarrow> spans h b s \<and> size_of h b = s \<and> pfree h b = (p \<noteq> None)
     \<and> (\<forall>q. p = Some q \<longrightarrow> rd h Iend_BE b = q) \<and> part h (b + s) (if f then Some s else None) bs"

definition seg :: "pt_heap \<Rightarrow> chunk \<Rightarrow> int option \<Rightarrow> block list \<Rightarrow> bool" where
  "seg h b p bs \<longleftrightarrow> part h b p bs \<and> stop b bs = limit h \<and> pfree h (limit h) = (tag p bs \<noteq> None)"

lemma part_append: "part h b p (xs @ ys) \<longleftrightarrow> part h b p xs \<and> part h (stop b xs) (tag p xs) ys"
  by (induction h b p xs rule: part.induct) auto

lemma seg_append: "seg h b p (xs @ ys) \<longleftrightarrow> part h b p xs \<and> seg h (stop b xs) (tag p xs) ys"
  by (auto simp: seg_def part_append)

lemma part_roomy: "part h b p bs \<Longrightarrow> roomy (Z h) bs"
  by (induction h b p bs rule: part.induct) (auto simp: spans_def)

lemma seg_roomy: "cfg h \<Longrightarrow> seg h b p bs \<Longrightarrow> roomy (Z h) bs" "cfg h \<Longrightarrow> 0 < Z h"
  using part_roomy [of h b p bs] cfg_simps(3) [of h] by (auto simp: seg_def)

lemma part_frame:
  assumes "hstep h h' A" and "cfg h" and "A \<inter> heads (Z h) b bs = {}" and "part h b p bs"
  shows "part h' b p bs"
  using assms(3,4)
proof (induction b bs arbitrary: p rule: bases.induct)
  case (2 b s f bs)
  have "spans h b s" using 2 by simp
  from spans_valid [OF assms(2) this] 2(2)
  have "size_of h' b = size_of h b" "pfree h' b = pfree h b" "rd h' Iend_BE b = rd h Iend_BE b"
    using hstep_size_of [OF assms(1,2)] hstep_rd [OF assms(1,2)] by auto
  with 2 show ?case by (auto simp: hstep_spans [OF assms(1)])
qed simp

lemma seg_frame:
  assumes "hstep h h' A" and "cfg h" and "A \<inter> (heads (Z h) b bs \<union> {limit h + Z h}) = {}" and "seg h b p bs"
  shows "seg h' b p bs"
proof -
  have "valid h (limit h + Z h)"
    using cfg_simps [OF assms(2)] dvd_add [OF cfg_simps(7) [OF assms(2)] dvd_refl] by (simp add: valid_def)
  then have "pfree h' (limit h) = pfree h (limit h)" using hstep_size_of(2) [OF assms(1,2)] assms(3) by blast
  then show ?thesis
    using assms(4) part_frame [OF assms(1,2)] assms(3) hstep_fields [OF assms(1)] by (auto simp: seg_def)
qed

text \<open>What a tiling says of its first block and of the flag of the block before.\<close>

lemma seg_flag: "seg h b p bs \<Longrightarrow> pfree h b = (p \<noteq> None)"
  by (cases bs) (auto simp: seg_def)

lemma seg_Cons:
  "seg h b p ((s, f) # bs) \<longleftrightarrow> spans h b s \<and> size_of h b = s \<and> pfree h b = (p \<noteq> None)
     \<and> (\<forall>q. p = Some q \<longrightarrow> rd h Iend_BE b = q) \<and> seg h (b + s) (if f then Some s else None) bs"
  by (auto simp: seg_def)

lemma seg_end:
  assumes "cfg h" and "seg h b p bs"
  shows "b = limit h \<longleftrightarrow> bs = []"
proof (cases bs)
  case (Cons x xs)
  then show ?thesis using assms cfg_simps(3) [OF assms(1)] by (cases x) (auto simp: seg_Cons spans_def)
qed (use assms in \<open>simp add: seg_def\<close>)

text \<open>The block at a place of a tiling.\<close>

lemma seg_block:
  assumes "cfg h" and "seg h b p (xs @ (s, f) # ys)"
  shows "spans h (stop b xs) s" and "size_of h (stop b xs) = s" and "pfree h (stop b xs) = (tag p xs \<noteq> None)"
    and "tag p xs = Some q \<longrightarrow> rd h Iend_BE (stop b xs) = q" and "pfree h (stop b xs + s) = f"
    and "stop b xs + s = limit h \<longleftrightarrow> ys = []" and "seg h (stop b xs + s) (if f then Some s else None) ys"
    and "part h b p xs"
proof -
  have "seg h (stop b xs) (tag p xs) ((s, f) # ys)" "part h b p xs" using assms(2) by (simp_all add: seg_append)
  then show "spans h (stop b xs) s" "size_of h (stop b xs) = s" "pfree h (stop b xs) = (tag p xs \<noteq> None)"
    "tag p xs = Some q \<longrightarrow> rd h Iend_BE (stop b xs) = q" "part h b p xs"
    and tl: "seg h (stop b xs + s) (if f then Some s else None) ys" by (auto simp: seg_Cons)
  show "pfree h (stop b xs + s) = f" using seg_flag [OF tl] by simp
  show "stop b xs + s = limit h \<longleftrightarrow> ys = []" using seg_end [OF assms(1) tl] .
qed

text \<open>Writes up to the flag of a block leave the rest of the tiling; the block may get a new predecessor.\<close>

lemma seg_retag:
  assumes "cfg h" and "seg h e p ys" and "hstep h h' A" and "\<And>a. a \<in> A \<Longrightarrow> a \<le> e + Z h"
    and "pfree h' e = (p' \<noteq> None)" and "e \<noteq> limit h \<longrightarrow> size_of h' e = size_of h e"
    and "\<And>q. p' = Some q \<Longrightarrow> e \<noteq> limit h \<Longrightarrow> rd h' Iend_BE e = q"
  shows "seg h' e p' ys"
proof (cases ys)
  case Nil
  then show ?thesis using assms hstep_fields [OF assms(3)] by (auto simp: seg_def)
next
  case (Cons x ws)
  obtain t g where x: "x = (t, g)" by (cases x)
  note c = cfg_simps [OF assms(1)]
  have tl: "spans h e t" "size_of h e = t" "seg h (e + t) (if g then Some t else None) ws" "e \<noteq> limit h"
    using assms(2) seg_end [OF assms(1,2)] by (simp_all add: Cons x seg_Cons)
  have t: "4 * Z h \<le> t" using tl(1) by (simp add: spans_def)
  have up: "e + t \<le> a" if "a \<in> heads (Z h) (e + t) ws \<union> {limit h + Z h}" for a
  proof -
    note r = block_ranges(1,2) [OF seg_roomy(1) [OF assms(1) tl(3)] seg_roomy(2) [OF assms(1)], where b = "e + t"]
    have "e + t \<le> limit h" using r(1) tl(3) by (simp add: seg_def)
    with that r(2) [of a] c(3) show ?thesis by auto
  qed
  have "A \<inter> (heads (Z h) (e + t) ws \<union> {limit h + Z h}) = {}"
    using up assms(4) t c(3) by fastforce
  from seg_frame [OF assms(3,1) this tl(3)] show ?thesis
    using assms(5-7) tl by (auto simp: Cons x seg_Cons hstep_spans [OF assms(3)])
qed

section \<open>The links of a set of chunks\<close>

definition linkable :: "pt_heap \<Rightarrow> chunk set \<Rightarrow> bool" where
  "linkable h D \<longleftrightarrow> cfg h \<and> (\<forall>d \<in> D. valid h (d + 2 * Z h) \<and> valid h (d + 3 * Z h) \<and> 0 \<le> d \<and> d < 2 ^ (8 * chunk_size_t_size h))
     \<and> (\<forall>x \<in> D. \<forall>y \<in> D. x < y \<longrightarrow> x + 4 * Z h \<le> y)"

lemma hstep_linkable: "hstep h h' A \<Longrightarrow> linkable h' D = linkable h D"
  by (simp add: linkable_def hstep_fields)

lemma linkable_apart:
  assumes "linkable h D" and "x \<in> D" and "y \<in> D"
  shows "x + 2 * Z h = y + 2 * Z h \<longleftrightarrow> x = y" and "x + 2 * Z h \<noteq> y + 3 * Z h"
proof -
  have "4 \<le> Z h" using assms(1) cfg_simps(3) by (simp add: linkable_def)
  moreover have "x < y \<Longrightarrow> x + 4 * Z h \<le> y" "y < x \<Longrightarrow> y + 4 * Z h \<le> x" using assms by (auto simp: linkable_def)
  ultimately show "x + 2 * Z h \<noteq> y + 3 * Z h" by linarith
qed simp

text \<open>A store of a link, as an update of the links of all chunks.\<close>

definition links :: "pt_heap \<Rightarrow> chunk set \<Rightarrow> (chunk \<Rightarrow> chunk) \<Rightarrow> (chunk \<Rightarrow> chunk) \<Rightarrow> bool" where
  "links h D F K \<longleftrightarrow> (\<forall>d \<in> D. fw h d = F d \<and> bk h d = K d)"

lemma set_fwd_links:
  assumes "linkable h D" and "links h D F K" and "c \<in> D" and "v \<in> D"
  obtains h' where "set_fwd_chunk c v h = Inr h'" and "hstep h h' {c + 2 * Z h}" and "linkable h' D"
    and "links h' D (F(c := v)) K" and "free_head_chunk h' = free_head_chunk h"
proof -
  have c: "cfg h" "valid h (c + 2 * Z h)" "0 \<le> v" "v < 2 ^ (8 * chunk_size_t_size h)"
    using assms by (auto simp: linkable_def)
  from set_fwd_step [OF this] obtain h' where h': "set_fwd_chunk c v h = Inr h'" "hstep h h' {c + 2 * Z h}" "fw h' c = v"
    "free_head_chunk h' = free_head_chunk h" .
  have "fw h' d = (F(c := v)) d \<and> bk h' d = K d" if "d \<in> D" for d
    using that assms(1,2) hstep_links [OF h'(2) c(1), of d] h'(3) linkable_apart [OF assms(1,3) that]
    by (auto simp: linkable_def links_def)
  then show ?thesis
    using that [OF h'(1,2) _ _ h'(4)] assms(1) hstep_linkable [OF h'(2)] by (simp add: links_def)
qed

lemma set_bck_links:
  assumes "linkable h D" and "links h D F K" and "c \<in> D" and "v \<in> D"
  obtains h' where "set_bck_chunk c v h = Inr h'" and "hstep h h' {c + 3 * Z h}" and "linkable h' D"
    and "links h' D F (K(c := v))" and "free_head_chunk h' = free_head_chunk h"
proof -
  have c: "cfg h" "valid h (c + 3 * Z h)" "0 \<le> v" "v < 2 ^ (8 * chunk_size_t_size h)"
    using assms by (auto simp: linkable_def)
  from set_bck_step [OF this] obtain h' where h': "set_bck_chunk c v h = Inr h'" "hstep h h' {c + 3 * Z h}" "bk h' c = v"
    "free_head_chunk h' = free_head_chunk h" .
  have "fw h' d = F d \<and> bk h' d = (K(c := v)) d" if "d \<in> D" for d
    using that assms(1,2) hstep_links [OF h'(2) c(1), of d] h'(3) linkable_apart [OF assms(1) that assms(3)]
    by (auto simp: linkable_def links_def)
  then show ?thesis
    using that [OF h'(1,2) _ _ h'(4)] assms(1) hstep_linkable [OF h'(2)] by (simp add: links_def)
qed

lemma seg_linkable:
  assumes "cfg h" and "seg h b p bs"
  shows "linkable h (set (bases b bs))"
proof -
  note r = seg_roomy(1) [OF assms] seg_roomy(2) [OF assms(1)]
  have "valid h (d + 2 * Z h) \<and> valid h (d + 3 * Z h) \<and> 0 \<le> d \<and> d < 2 ^ (8 * chunk_size_t_size h)"
    if d: "d \<in> set (bases b bs)" for d
  proof -
    obtain xs s f ys where "bs = xs @ (s, f) # ys" "d = stop b xs" using bases_split [OF d] by blast
    with seg_block(1) [OF assms(1)] assms(2) have "spans h d s" by blast
    from spans_valid [OF assms(1) this] show ?thesis by auto
  qed
  moreover have "x + 4 * Z h \<le> y" if xy: "x \<in> set (bases b bs)" "y \<in> set (bases b bs)" "x < y" for x y
  proof -
    obtain i j where ij: "i < length (bases b bs)" "j < length (bases b bs)" "x = bases b bs ! i" "y = bases b bs ! j"
      using xy by (metis in_set_conv_nth)
    consider "i < j" | "i = j" | "j < i" by linarith
    then show ?thesis
      using sorted_wrt_nth_less [OF block_ranges(5) [OF r, of b]] ij xy(3) r(2) by cases force+
  qed
  ultimately show ?thesis using assms(1) by (simp add: linkable_def)
qed

text \<open>The words of the links of a set of chunks. Size fields and links do not interfere.\<close>

definition link_words :: "int \<Rightarrow> chunk set \<Rightarrow> int set" where
  "link_words z D = (\<Union>d\<in>D. {d + 2 * z, d + 3 * z})"

lemma link_words_mono: "D \<subseteq> D' \<Longrightarrow> link_words z D \<subseteq> link_words z D'"
  by (auto simp: link_words_def)

lemma heads_keep_links:
  assumes "cfg h" and "hstep h h' A" and "A \<subseteq> heads (Z h) b bs \<union> {stop b bs + Z h}" and "roomy (Z h) bs"
    and "linkable h (set (bases b bs))" and "links h (set (bases b bs)) F K"
  shows "links h' (set (bases b bs)) F K"
  unfolding links_def
proof
  fix d assume d: "d \<in> set (bases b bs)"
  have "d + 2 * Z h \<notin> A" "d + 3 * Z h \<notin> A"
    using link_not_head [OF assms(4) seg_roomy(2) [OF assms(1)] d] assms(3) by blast+
  then show "fw h' d = F d \<and> bk h' d = K d"
    using hstep_links [OF assms(2,1)] assms(5,6) d by (auto simp: linkable_def links_def)
qed

lemma links_keep_seg:
  assumes "cfg h" and "seg h b p bs" and "hstep h h' (link_words (Z h) D)" and "D \<subseteq> set (bases b bs)"
  shows "seg h' b p bs"
proof (rule seg_frame [OF assms(3,1) _ assms(2)])
  have "stop b bs = limit h" using assms(2) by (simp add: seg_def)
  then show "link_words (Z h) D \<inter> (heads (Z h) b bs \<union> {limit h + Z h}) = {}"
    using link_not_head [OF seg_roomy(1) [OF assms(1,2)] seg_roomy(2) [OF assms(1)]] assms(4)
    by (fastforce simp: link_words_def)
qed

text \<open>The four stores that put a chunk between the last and the first of the others.\<close>

lemma relink:
  assumes "linkable h D" and "links h D F K" and "y \<in> D" and "set R \<subseteq> D" and "R \<noteq> []"
  obtains h' where "bind_res (set_bck_chunk y (last R) h) (\<lambda>h1. bind_res (set_fwd_chunk y (hd R) h1) (\<lambda>h2.
      bind_res (set_fwd_chunk (last R) y h2) (set_bck_chunk (hd R) y))) = Inr h'"
    and "hstep h h' (link_words (Z h) (insert y (set R)))" and "linkable h' D"
    and "links h' D (F(y := hd R, last R := y)) (K(y := last R, hd R := y))" and "free_head_chunk h' = free_head_chunk h"
proof -
  have R: "last R \<in> D" "hd R \<in> D" using assms(4,5) by auto
  from set_bck_links [OF assms(1,2,3) R(1)] obtain h1 where h1: "set_bck_chunk y (last R) h = Inr h1"
    "hstep h h1 {y + 3 * Z h}" "linkable h1 D" "links h1 D F (K(y := last R))" "free_head_chunk h1 = free_head_chunk h" .
  from set_fwd_links [OF h1(3,4) assms(3) R(2)] obtain h2 where h2: "set_fwd_chunk y (hd R) h1 = Inr h2"
    "hstep h1 h2 {y + 2 * Z h1}" "linkable h2 D" "links h2 D (F(y := hd R)) (K(y := last R))"
    "free_head_chunk h2 = free_head_chunk h1" .
  from set_fwd_links [OF h2(3,4) R(1) assms(3)] obtain h3 where h3: "set_fwd_chunk (last R) y h2 = Inr h3"
    "hstep h2 h3 {last R + 2 * Z h2}" "linkable h3 D" "links h3 D (F(y := hd R, last R := y)) (K(y := last R))"
    "free_head_chunk h3 = free_head_chunk h2" .
  from set_bck_links [OF h3(3,4) R(2) assms(3)] obtain h4 where h4: "set_bck_chunk (hd R) y h3 = Inr h4"
    "hstep h3 h4 {hd R + 3 * Z h3}" "linkable h4 D"
    "links h4 D (F(y := hd R, last R := y)) (K(y := last R, hd R := y))" "free_head_chunk h4 = free_head_chunk h3" .
  note f = hstep_fields(3) [OF h1(2)] hstep_fields(3) [OF h2(2)] hstep_fields(3) [OF h3(2)]
  have "hstep h h4 ({y + 3 * Z h} \<union> {y + 2 * Z h} \<union> {last R + 2 * Z h} \<union> {hd R + 3 * Z h})"
    using hstep_trans [OF hstep_trans [OF hstep_trans [OF h1(2) h2(2)] h3(2)] h4(2)] by (simp add: f)
  then have "hstep h h4 (link_words (Z h) (insert y (set R)))"
    by (rule hstep_mono) (use assms R in \<open>auto simp: link_words_def linkable_def\<close>)
  then show ?thesis using that [of h4] h1 h2 h3 h4 by simp
qed

section \<open>The invariant\<close>

definition apart :: "block list \<Rightarrow> bool" where
  "apart bs \<longleftrightarrow> successively (\<lambda>x y. \<not> (snd x \<and> snd y)) bs"

definition head_of :: "chunk list \<Rightarrow> chunk option" where
  "head_of cs = (case cs of [] \<Rightarrow> None | c # _ \<Rightarrow> Some c)"

definition heap_ok :: "pt_heap \<Rightarrow> block list \<Rightarrow> bool" where
  "heap_ok h bs \<longleftrightarrow> cfg h \<and> seg h (heap_base h) None bs \<and> ring (fw h) (bk h) (frees (heap_base h) bs)
     \<and> free_head_chunk h = head_of (frees (heap_base h) bs) \<and> apart bs"

text \<open>The metadata of a heap: what the operations may write.\<close>

definition meta :: "pt_heap \<Rightarrow> block list \<Rightarrow> int set" where
  "meta h bs = heads (Z h) (heap_base h) bs \<union> {limit h + Z h} \<union> link_words (Z h) (set (frees (heap_base h) bs))"

lemma head_of_simps [simp]: "head_of [] = None" "head_of (c # cs) = Some c"
  "cs \<noteq> [] \<Longrightarrow> head_of (cs @ ds) = head_of cs" "cs \<noteq> [] \<Longrightarrow> head_of cs = Some (hd cs)"
  by (cases cs; simp add: head_of_def)+

lemma frees_split: "d \<in> set (frees b bs) \<Longrightarrow> \<exists>xs s ys. bs = xs @ (s, True) # ys \<and> d = stop b xs"
proof (induction b bs rule: frees.induct)
  case (2 b s f bs)
  show ?case
  proof (cases "f \<and> d = b")
    case True
    then show ?thesis by (intro exI [of _ "[]"]) simp
  next
    case False
    with 2 obtain xs t ys where "bs = xs @ (t, True) # ys" "d = stop (b + s) xs" by (auto split: if_splits)
    then show ?thesis by (intro exI [of _ "(s, f) # xs"]) simp
  qed
qed simp

lemma free_chunk_eqs:
  assumes "cfg h" and "seg h b p bs" and "d \<in> set (frees b bs)"
  shows "fwd_chunk h d = Inr (fw h d)" and "bck_chunk h d = Inr (bk h d)" and "is_free h d = Inr True"
proof -
  obtain xs s ys where bs: "bs = xs @ (s, True) # ys" "d = stop b xs" using frees_split [OF assms(3)] by blast
  note b = seg_block [OF assms(1) assms(2) [unfolded bs(1)]]
  show "fwd_chunk h d = Inr (fw h d)" "bck_chunk h d = Inr (bk h d)" "is_free h d = Inr True"
    using link_chunk_eq [OF assms(1) b(1,2)] is_free_eq [OF assms(1) b(1,2)] b(5) bs(2) by simp_all
qed

section \<open>Using a free block\<close>

lemma part_below:
  assumes "cfg h" and "part h b p xs" and "hstep h h' A" and "\<And>a. a \<in> A \<Longrightarrow> stop b xs \<le> a"
  shows "part h' b p xs"
proof (rule part_frame [OF assms(3,1) _ assms(2)])
  show "A \<inter> heads (Z h) b xs = {}"
    using block_ranges(2) [OF part_roomy [OF assms(2)] seg_roomy(2) [OF assms(1)], of _ b] assms(4) by force
qed

text \<open>The size fields when a free block is split.\<close>

lemma split_header:
  assumes "cfg h" and "seg h b None (xs @ (s, True) # ys)" and "c = stop b xs"
    and "4 * Z h \<le> n" and "2 * Z h dvd n" and "4 * Z h \<le> s - n"
  obtains h1 h2 h4 A where "set_size (c + n) (s - n) (Some True) h = Inr h1" and "set_prev_freeness (c + n) False h1 = Inr h2"
    and "free_head_chunk h2 = free_head_chunk h"
    and "set_size c n None (h2\<lparr>free_head_chunk := x\<rparr>) = Inr h4" and "free_head_chunk h4 = x"
    and "seg h4 b None (xs @ (n, False) # (s - n, True) # ys)" and "hstep h h4 A"
    and "A \<subseteq> heads (Z h) b (xs @ (n, False) # (s - n, True) # ys) \<union> {limit h + Z h}"
proof -
  note bl = seg_block [OF assms(1,2), folded assms(3)]
  have sp: "spans h (c + n) (s - n)" "spans h c n"
    using bl(1) assms(4-6) seg_roomy(2) [OF assms(1)] by (auto simp: spans_def intro: dvd_add dvd_diff)
  have z: "0 < Z h" by (rule seg_roomy(2) [OF assms(1)])
  note v = spans_valid [OF assms(1) bl(1)] and vr = spans_valid [OF assms(1) sp(1)]
  have e: "c + n + (s - n) = c + s" by simp
  from set_size_step [OF assms(1) sp(1), of True "Some True"] obtain h1 where h1:
    "set_size (c + n) (s - n) (Some True) h = Inr h1" "hstep h h1 (size_words h (c + n) (s - n) (Some True) True)"
    "size_of h1 (c + n) = s - n" "pfree h1 (c + s)"
    "c + s \<noteq> limit h \<longrightarrow> size_of h1 (c + s) = size_of h (c + s)"
    "c + s \<noteq> limit h \<longrightarrow> rd h1 Iend_BE (c + s) = s - n" "free_head_chunk h1 = free_head_chunk h"
    unfolding e by (metis option.simps(5))
  note f1 = hstep_fields [OF h1(2)]
  have c1: "cfg h1" using assms(1) f1 by simp
  have "valid h1 (c + n + Z h1)" using vr(2) by (simp add: f1)
  from set_prev_freeness_step [OF c1 this, of False] obtain h2 where h2: "set_prev_freeness (c + n) False h1 = Inr h2"
    "hstep h1 h2 {c + n + Z h1}" "size_of h2 (c + n) = size_of h1 (c + n)" "pfree h2 (c + n) = False"
    "free_head_chunk h2 = free_head_chunk h1" .
  define h3 where "h3 = h2\<lparr>free_head_chunk := x\<rparr>"
  have s3: "hstep h1 h3 {c + n + Z h1}" using hstep_trans [OF h2(2) hstep_head, of x] by (simp add: h3_def)
  have same3: "rd h3 = rd h2" "size_of h3 = size_of h2" "pfree h3 = pfree h2"
    by (simp_all add: h3_def rd_def size_of_def pfree_def fun_eq_iff)
  note f3 = hstep_fields [OF s3]
  have c3: "cfg h3" "spans h3 c n" using c1 f3 sp(2) by (simp_all add: hstep_spans [OF s3] hstep_spans [OF h1(2)])
  from set_size_step [OF c3, of False None] obtain h4 where h4: "set_size c n None h3 = Inr h4"
    "hstep h3 h4 (size_words h3 c n None False)" "size_of h4 c = n" "pfree h4 c = pfree h3 c" "\<not> pfree h4 (c + n)"
    "free_head_chunk h4 = free_head_chunk h3"
    using h2(4) same3(3) by (metis option.simps(4))
  define A where "A = size_words h (c + n) (s - n) (Some True) True \<union> {c + n + Z h} \<union> {c + Z h}"
  have "size_words h3 c n None False = {c + Z h}" by (simp add: size_words_def f3 f1)
  then have st: "hstep h h4 A"
    using hstep_trans [OF hstep_trans [OF h1(2) s3] h4(2)] by (simp add: A_def f1)
  have A: "A \<subseteq> {c + Z h, c + n + Z h, c + s + Z h, c + s}" "c + s = limit h \<Longrightarrow> c + s \<notin> A"
    using assms(4,6) z by (auto simp: A_def size_words_def)
  have st14: "hstep h1 h4 ({c + n + Z h} \<union> {c + Z h})" "hstep h h3 (size_words h (c + n) (s - n) (Some True) True \<union> {c + n + Z h})"
    using hstep_trans [OF s3 h4(2)] hstep_trans [OF h1(2) s3] \<open>size_words h3 c n None False = {c + Z h}\<close>
    by (simp_all add: f1)
  have own: "pfree h3 c = pfree h c"
    using hstep_size_of(2) [OF st14(2) assms(1) v(2)] assms(4,6) z by (auto simp: size_words_def)
  have rem: "size_of h4 (c + n) = s - n"
    using hstep_size_of(1) [OF h4(2) c3(1), of "c + n"] vr(2) h2(3) h1(3) same3(2) assms(4) z
    by (simp add: f3 f1 size_words_def)
  have nxt: "pfree h4 (c + s)" "c + s \<noteq> limit h \<longrightarrow> size_of h4 (c + s) = size_of h (c + s)"
    "c + s \<noteq> limit h \<longrightarrow> rd h4 Iend_BE (c + s) = s - n"
    using hstep_size_of [OF st14(1) c1, of "c + s"] hstep_rd [OF st14(1) c1, of "c + s"] h1(4-6) v(5,6) assms(4,6) z
    by (simp_all add: f1)
  have spans4: "spans h4 = spans h" using hstep_spans [OF st] .
  have lo: "c \<le> a" "a \<le> c + s + Z h" if "a \<in> A" for a using that A(1) assms(4,6) z by auto
  have first: "part h4 b None xs" by (rule part_below [OF assms(1) bl(8) st]) (use lo(1) assms(3) in simp)
  have rest: "seg h4 (c + s) (Some (s - n)) ys"
    by (rule seg_retag [OF assms(1) bl(7) st lo(2)]) (use nxt in simp_all)
  have rdc: "rd h4 Iend_BE c = rd h Iend_BE c"
    by (rule hstep_rd [OF st assms(1) v(1)]) (use A(1) assms(4,6) z in auto)
  have "seg h4 c (tag None xs) ((n, False) # (s - n, True) # ys)"
    using sp h4(3,4,5) own bl(3,4) rdc rem rest same3(3) by (auto simp: seg_Cons spans4)
  then have seg4: "seg h4 b None (xs @ (n, False) # (s - n, True) # ys)"
    using first assms(3) by (simp only: seg_append simp_thms)
  have "c + s \<in> heads (Z h) (c + s) ys \<and> c + s + Z h \<in> heads (Z h) (c + s) ys" if "c + s \<noteq> limit h"
    using that bl(6) by (cases ys) auto
  then have sub: "A \<subseteq> heads (Z h) b (xs @ (n, False) # (s - n, True) # ys) \<union> {limit h + Z h}"
    using A assms(3) by (cases "c + s = limit h") auto
  show ?thesis
    using that [OF h1(1) h2(1) _ _ _ seg4 st sub] h2(5) h1(7) h4(1,6) by (simp add: h3_def)
qed

lemma frees_distinct: "cfg h \<Longrightarrow> seg h b p bs \<Longrightarrow> distinct (frees b bs)"
  using block_ranges(6) [OF seg_roomy(1) seg_roomy(2), of h b p bs b] by (simp only: strict_sorted_iff)

lemma frees_bases: "cfg h \<Longrightarrow> seg h b p bs \<Longrightarrow> set (frees b bs) \<subseteq> set (bases b bs)"
  using block_ranges(4) [OF seg_roomy(1) seg_roomy(2), of h b p bs _ b] by blast

text \<open>The ring seen from one of its chunks: \<open>R\<close> are the others, in the order of the list.\<close>

lemma ring_at:
  assumes "ring F K (X @ c # Y)" and "R = Y @ X"
  shows "ring F K (c # R)" and "R = [] \<Longrightarrow> F c = c \<and> K c = c" and "R \<noteq> [] \<Longrightarrow> F c = hd R \<and> K c = last R"
proof -
  show r: "ring F K (c # R)" using assms ring_rotate [of F K X "c # Y"] by simp
  show "R = [] \<Longrightarrow> F c = c \<and> K c = c" using r by (simp add: ring_single)
  show "R \<noteq> [] \<Longrightarrow> F c = hd R \<and> K c = last R" using r ring_Cons by blast
qed

lemma head_of_free: "head_of (X @ c # Y) = Some c \<longleftrightarrow> X = [] \<or> hd X = c"
  by (cases X) auto

lemma apart_append:
  "apart (xs @ (s, f) # ys) \<longleftrightarrow> apart xs \<and> apart ys \<and> (xs \<noteq> [] \<longrightarrow> \<not> (snd (last xs) \<and> f)) \<and> (ys \<noteq> [] \<longrightarrow> \<not> (f \<and> snd (hd ys)))"
  "apart ((s, f) # ys) \<longleftrightarrow> apart ys \<and> (ys \<noteq> [] \<longrightarrow> \<not> (f \<and> snd (hd ys)))"
  by (auto simp: apart_def successively_append_iff successively_Cons)

text \<open>Size fields and then links are written; the result is a heap.\<close>

lemma heap_okI:
  assumes "cfg h" and "b = heap_base h" and "hstep h h4 A" and "A \<subseteq> heads (Z h) b bs' \<union> {limit h + Z h}"
    and "seg h4 b None bs'" and "hstep h4 h5 (link_words (Z h) L)" and "L \<subseteq> set (frees b bs')"
    and "ring (fw h5) (bk h5) (frees b bs')" and "free_head_chunk h5 = head_of (frees b bs')" and "apart bs'"
  shows "heap_ok h5 bs'" and "hstep h h5 (A \<union> link_words (Z h) L)" and "A \<union> link_words (Z h) L \<subseteq> meta h bs'"
proof -
  note f4 = hstep_fields [OF assms(3)] and f5 = hstep_fields [OF assms(6)]
  have cfg4: "cfg h4" using assms(1) f4 by simp
  have "L \<subseteq> set (bases b bs')" using assms(7) frees_bases [OF cfg4 assms(5)] by blast
  then have "seg h5 b None bs'" using links_keep_seg [OF cfg4 assms(5)] assms(6) by (simp add: f4)
  then show "heap_ok h5 bs'" using assms(2,8-10) cfg4 by (simp add: heap_ok_def f5 f4)
  show "hstep h h5 (A \<union> link_words (Z h) L)" by (rule hstep_trans [OF assms(3,6)])
  show "A \<union> link_words (Z h) L \<subseteq> meta h bs'"
    using assms(2,4) link_words_mono [OF assms(7), of "Z h"] by (auto simp: meta_def)
qed

lemma split_chunk_ok:
  assumes "heap_ok h (xs @ (s, True) # ys)" and "c = stop (heap_base h) xs" and "4 * Z h \<le> n" and "2 * Z h dvd n"
    and "4 * Z h \<le> s - n" and "bs' = xs @ (n, False) # (s - n, True) # ys"
  obtains h' A where "split_chunk c s n h = Inr h'" and "heap_ok h' bs'" and "hstep h h' A" and "A \<subseteq> meta h bs'"
proof -
  define b where "b = heap_base h"
  define X Y where "X = frees b xs" and "Y = frees (c + s) ys"
  define R where "R = Y @ X"
  define D where "D = set (bases b bs')"
  note ok = assms(1) [unfolded heap_ok_def, folded b_def]
  have cfg: "cfg h" and sg: "seg h b None (xs @ (s, True) # ys)" and c: "c = stop b xs" using ok assms(2) by (simp_all add: b_def)
  have old: "frees b (xs @ (s, True) # ys) = X @ c # Y" and new: "frees b bs' = X @ (c + n) # Y"
    by (simp_all add: X_def Y_def c assms(6))
  have "ring (fw h) (bk h) (X @ c # Y)" using ok old by simp
  note r = ring_at [OF this R_def]
  have cR: "c \<notin> set R" using frees_distinct [OF cfg sg] unfolding old by (auto simp: R_def)
  have in_frees: "c \<in> set (frees b (xs @ (s, True) # ys))" unfolding old by simp
  note lk = free_chunk_eqs [OF cfg sg in_frees]
  define x where "x = (if free_head_chunk h = Some c then Some (c + n) else free_head_chunk h)"
  from split_header [OF cfg sg c assms(3-5), of x] obtain h1 h2 h4 A where
    hd: "set_size (c + n) (s - n) (Some True) h = Inr h1" "set_prev_freeness (c + n) False h1 = Inr h2"
      "free_head_chunk h2 = free_head_chunk h" "set_size c n None (h2\<lparr>free_head_chunk := x\<rparr>) = Inr h4" "free_head_chunk h4 = x"
    and seg4: "seg h4 b None bs'" and st: "hstep h h4 A" and A: "A \<subseteq> heads (Z h) b bs' \<union> {limit h + Z h}"
    unfolding assms(6) .
  have h3: "(if free_head_chunk h2 = Some c then h2\<lparr>free_head_chunk := Some (c + n)\<rparr> else h2) = h2\<lparr>free_head_chunk := x\<rparr>"
    by (simp add: x_def flip: hd(3))
  note f4 = hstep_fields [OF st]
  have cfg4: "cfg h4" and sgb: "stop b bs' = limit h" using cfg f4 seg4 by (simp_all add: seg_def)
  have lnk: "linkable h4 D" "links h4 D (fw h) (bk h)"
    using seg_linkable [OF cfg4 seg4] heads_keep_links [OF cfg st, of b bs' "fw h" "bk h"] A seg_roomy(1) [OF cfg4 seg4] sgb
      hstep_linkable [OF st] by (simp_all add: D_def f4 links_def)
  have dist: "distinct ((c + n) # R)" using frees_distinct [OF cfg4 seg4] unfolding new by (auto simp: R_def)
  have RD: "c + n \<in> D" "set R \<subseteq> D" using frees_bases [OF cfg4 seg4] unfolding new D_def by (auto simp: R_def)
  obtain h5 where h5: "split_chunk c s n h = Inr h5" "hstep h4 h5 (link_words (Z h) (set ((c + n) # R)))"
    "ring (fw h5) (bk h5) ((c + n) # R)" "free_head_chunk h5 = x"
  proof (cases "R = []")
    case True
    from set_bck_links [OF lnk RD(1) RD(1)] obtain g where g: "set_bck_chunk (c + n) (c + n) h4 = Inr g"
      "hstep h4 g {c + n + 3 * Z h4}" "linkable g D" "links g D (fw h) ((bk h)(c + n := c + n))" "free_head_chunk g = free_head_chunk h4" .
    from set_fwd_links [OF g(3,4) RD(1) RD(1)] obtain h5 where h5: "set_fwd_chunk (c + n) (c + n) g = Inr h5"
      "hstep g h5 {c + n + 2 * Z g}" "links h5 D ((fw h)(c + n := c + n)) ((bk h)(c + n := c + n))"
      "free_head_chunk h5 = free_head_chunk g" .
    have "hstep h4 h5 (link_words (Z h) (set ((c + n) # R)))"
      using hstep_trans [OF g(2) h5(2)] True by (simp add: link_words_def f4 hstep_fields(3) [OF g(2)] insert_commute)
    moreover have "ring (fw h5) (bk h5) ((c + n) # R)" using h5(3) RD(1) True by (simp add: ring_single links_def)
    ultimately show ?thesis
      using that [of h5] lk r(2) [OF True] hd(1,2,4,5) h3 h5 g by (simp add: split_chunk_def Let_def)
  next
    case False
    note fb = r(3) [OF False]
    from relink [OF lnk RD False] obtain h5 where h5: "bind_res (set_bck_chunk (c + n) (last R) h4) (\<lambda>h1.
        bind_res (set_fwd_chunk (c + n) (hd R) h1) (\<lambda>h2. bind_res (set_fwd_chunk (last R) (c + n) h2) (set_bck_chunk (hd R) (c + n)))) = Inr h5"
      "hstep h4 h5 (link_words (Z h4) (insert (c + n) (set R)))" "links h5 D ((fw h)(c + n := hd R, last R := c + n))
        ((bk h)(c + n := last R, hd R := c + n))" "free_head_chunk h5 = free_head_chunk h4" .
    have "ring (fw h5) (bk h5) ((c + n) # R)"
      using False dist h5(3) RD
      by (intro ring_replace [OF r(1) dist False]) (auto simp: links_def)
    moreover have "c \<noteq> hd R" using cR False by auto
    ultimately show ?thesis
      using that [of h5] lk fb hd(1,2,4,5) h3 h5 by (simp add: split_chunk_def Let_def f4)
  qed
  have "ring (fw h5) (bk h5) (frees b bs')"
    using h5(3) ring_rotate [of _ _ X "(c + n) # Y"] unfolding new by (simp add: R_def)
  moreover have "x = head_of (frees b bs')"
    using ok cR unfolding old new by (cases X) (auto simp: x_def R_def)
  moreover have "apart bs'" using ok by (auto simp: assms(6) apart_append)
  moreover have "set ((c + n) # R) \<subseteq> set (frees b bs')" unfolding new by (auto simp: R_def)
  ultimately have fin: "heap_ok h5 bs'" "hstep h h5 (A \<union> link_words (Z h) (set ((c + n) # R)))"
    "A \<union> link_words (Z h) (set ((c + n) # R)) \<subseteq> meta h bs'"
    using heap_okI [OF cfg b_def st A seg4 h5(2)] h5(4) by simp_all
  show ?thesis by (rule that [OF h5(1) fin])
qed

text \<open>The flag of a block changes from free to used or back; the free list is not looked at.\<close>

lemma flip_header:
  assumes "cfg h" and "seg h b None (xs @ (s, f) # ys)" and "c = stop b xs" and "bs' = xs @ (s, g) # ys"
    and "\<And>t q ws. g \<Longrightarrow> ys = (t, q) # ws \<Longrightarrow> rd h Iend_BE (c + s) = s"
  obtains h' where "set_chunk_freeness (neighbour h (c + s)) g h = Inr h'" and "hstep h h' {c + s + Z h}"
    and "{c + s + Z h} \<subseteq> heads (Z h) b bs' \<union> {limit h + Z h}" and "seg h' b None bs'"
    and "free_head_chunk h' = free_head_chunk h"
proof -
  note bl = seg_block [OF assms(1,2), folded assms(3)] and z = seg_roomy(2) [OF assms(1)]
  note v = spans_valid [OF assms(1) bl(1)]
  have s: "4 * Z h \<le> s" using bl(1) by (simp add: spans_def)
  from set_chunk_freeness_step [OF assms(1) v(5), of g] obtain h' where h':
    "set_chunk_freeness (neighbour h (c + s)) g h = Inr h'" "hstep h h' {c + s + Z h}" "pfree h' (c + s) = g"
    "c + s \<noteq> limit h \<longrightarrow> size_of h' (c + s) = size_of h (c + s)" "free_head_chunk h' = free_head_chunk h" .
  have own: "size_of h' c = s" "pfree h' c = pfree h c" "rd h' Iend_BE c = rd h Iend_BE c"
    using hstep_size_of [OF h'(2) assms(1) v(2)] hstep_rd [OF h'(2) assms(1) v(1)] bl(2) s z by auto
  have first: "part h' b None xs" by (rule part_below [OF assms(1) bl(8) h'(2)]) (use s z assms(3) in auto)
  have "rd h' Iend_BE (c + s) = s" if gs: "g" "c + s \<noteq> limit h"
  proof -
    obtain t q ws where ys: "ys = (t, q) # ws" using gs(2) bl(6) by (metis neq_Nil_conv surj_pair)
    show ?thesis using hstep_rd [OF h'(2) assms(1) v(6)] assms(5) [OF gs(1) ys] z by auto
  qed
  then have "seg h' (c + s) (if g then Some s else None) ys"
    by (intro seg_retag [OF assms(1) bl(7) h'(2)]) (use h'(3,4) in \<open>auto split: if_splits\<close>)
  then have "seg h' c (tag None xs) ((s, g) # ys)"
    using bl(1,3,4) own by (auto simp: seg_Cons hstep_spans [OF h'(2)])
  then have sg: "seg h' b None bs'" unfolding assms(4) using first assms(3) by (simp only: seg_append simp_thms)
  have "{c + s + Z h} \<subseteq> heads (Z h) b bs' \<union> {limit h + Z h}"
    using bl(6) assms(3) by (cases ys) (auto simp: assms(4))
  from that [OF h'(1,2) this sg h'(5)] show ?thesis .
qed

lemma take_chunk_ok:
  assumes "heap_ok h (xs @ (s, True) # ys)" and "c = stop (heap_base h) xs" and "bs' = xs @ (s, False) # ys"
  obtains h' A where "take_chunk c h = Inr h'" and "heap_ok h' bs'" and "hstep h h' A" and "A \<subseteq> meta h bs'"
proof -
  define b where "b = heap_base h"
  define X Y where "X = frees b xs" and "Y = frees (c + s) ys"
  define R where "R = Y @ X"
  define D where "D = set (bases b bs')"
  note ok = assms(1) [unfolded heap_ok_def, folded b_def]
  have cfg: "cfg h" and sg: "seg h b None (xs @ (s, True) # ys)" and c: "c = stop b xs" using ok assms(2) by (simp_all add: b_def)
  have old: "frees b (xs @ (s, True) # ys) = X @ c # Y" and new: "frees b bs' = X @ Y"
    and D: "set (bases b (xs @ (s, True) # ys)) = D"
    by (simp_all add: X_def Y_def D_def c assms(3))
  have "ring (fw h) (bk h) (X @ c # Y)" using ok old by simp
  note r = ring_at [OF this R_def]
  have dist: "distinct (c # R)" using frees_distinct [OF cfg sg] unfolding old by (auto simp: R_def)
  have RD: "set R \<subseteq> D" using frees_bases [OF cfg sg] unfolding old D by (auto simp: R_def)
  have in_frees: "c \<in> set (frees b (xs @ (s, True) # ys))" unfolding old by simp
  note lk = free_chunk_eqs [OF cfg sg in_frees]
  define x where "x = head_of (X @ Y)"
  obtain h2 where h2: "(if bk h c = fw h c \<and> c = fw h c then Inr (h\<lparr>free_head_chunk := None\<rparr>)
      else let h1 = (if free_head_chunk h = Some c then h\<lparr>free_head_chunk := Some (fw h c)\<rparr> else h) in
        bind_res (set_fwd_chunk (bk h c) (fw h c) h1) (set_bck_chunk (fw h c) (bk h c))) = Inr h2"
    "hstep h h2 (link_words (Z h) (set R))" "ring (fw h2) (bk h2) R" "free_head_chunk h2 = x"
  proof (cases "R = []")
    case True
    moreover from True have "hstep h (h\<lparr>free_head_chunk := None\<rparr>) (link_words (Z h) (set R))" by (simp add: link_words_def)
    ultimately show ?thesis
      using that [of "h\<lparr>free_head_chunk := None\<rparr>"] r(2) by (simp add: x_def R_def ring_def)
  next
    case False
    note fb = r(3) [OF False]
    define h1 where "h1 = h\<lparr>free_head_chunk := x\<rparr>"
    have h1: "(if free_head_chunk h = Some c then h\<lparr>free_head_chunk := Some (fw h c)\<rparr> else h) = h1"
      using ok False dist fb unfolding old by (cases X) (auto simp: h1_def x_def R_def)
    have st1: "hstep h h1 {}" by (simp add: h1_def)
    have ends: "last R \<in> D" "hd R \<in> D" using False RD by auto
    have lnk: "linkable h1 D" "links h1 D (fw h) (bk h)"
      using seg_linkable [OF cfg sg] hstep_linkable [OF st1] D hstep_links [OF st1 cfg]
      by (auto simp: links_def linkable_def)
    from set_fwd_links [OF lnk ends] obtain g where g: "set_fwd_chunk (last R) (hd R) h1 = Inr g"
      "hstep h1 g {last R + 2 * Z h1}" "linkable g D" "links g D ((fw h)(last R := hd R)) (bk h)" "free_head_chunk g = free_head_chunk h1" .
    from set_bck_links [OF g(3,4) ends(2,1)] obtain h2 where h2: "set_bck_chunk (hd R) (last R) g = Inr h2"
      "hstep g h2 {hd R + 3 * Z g}" "linkable h2 D" "links h2 D ((fw h)(last R := hd R)) ((bk h)(hd R := last R))"
      "free_head_chunk h2 = free_head_chunk g" .
    have "hstep h h2 ({last R + 2 * Z h} \<union> {hd R + 3 * Z h})"
      using hstep_trans [OF st1 hstep_trans [OF g(2) h2(2)]] by (simp add: hstep_fields(3) [OF g(2)] h1_def)
    then have "hstep h h2 (link_words (Z h) (set R))"
      by (rule hstep_mono) (use lnk(1) RD False hstep_fields [OF st1] in \<open>auto simp: link_words_def linkable_def\<close>)
    moreover have "ring (fw h2) (bk h2) R"
      using h2(4) RD dist by (intro ring_remove [OF r(1) _ False]) (auto simp: links_def)
    moreover have "c \<noteq> hd R" using dist False by auto
    ultimately show ?thesis using that [of h2] fb h1 g h2 by (simp add: h1_def)
  qed
  note f2 = hstep_fields [OF h2(2)]
  have cfg2: "cfg h2" using cfg f2 by simp
  have sg2: "seg h2 b None (xs @ (s, True) # ys)" by (rule links_keep_seg [OF cfg sg h2(2)]) (use RD D in simp)
  note bl = seg_block [OF cfg2 sg2, folded c]
  from flip_header [OF cfg2 sg2 c assms(3)] obtain h3 where h3:
    "set_chunk_freeness (neighbour h2 (c + s)) False h2 = Inr h3" "hstep h2 h3 {c + s + Z h2}"
    "{c + s + Z h2} \<subseteq> heads (Z h2) b bs' \<union> {limit h2 + Z h2}" "seg h3 b None bs'" "free_head_chunk h3 = free_head_chunk h2"
    by auto
  note f3 = hstep_fields [OF h3(2)]
  have cfg3: "cfg h3" using cfg2 f3 by simp
  have "links h3 D (fw h2) (bk h2)"
    unfolding D_def
    by (rule heads_keep_links [OF cfg2 h3(2)])
       (use h3(3,4) seg_roomy(1) [OF cfg3 h3(4)] seg_linkable [OF cfg3 h3(4)] hstep_linkable [OF h3(2)]
         in \<open>simp_all add: f3 seg_def links_def\<close>)
  then have "ring (fw h3) (bk h3) R" using RD by (intro ring_cong [OF h2(3)]) (auto simp: links_def)
  then have "ring (fw h3) (bk h3) (frees b bs')" using ring_rotate [of _ _ X Y] by (simp add: new R_def)
  moreover have "apart bs'" using ok by (auto simp: assms(3) apart_append)
  ultimately have "heap_ok h3 bs'"
    using h3(4,5) h2(4) cfg3 by (simp add: heap_ok_def f3 f2 x_def new flip: b_def)
  moreover have "hstep h h3 (link_words (Z h) (set R) \<union> {c + s + Z h})"
    using hstep_trans [OF h2(2) h3(2)] by (simp add: f2)
  moreover have "link_words (Z h) (set R) \<union> {c + s + Z h} \<subseteq> meta h bs'"
    using h3(3) by (auto simp: meta_def new R_def f2 link_words_def simp flip: b_def)
  moreover have "take_chunk c h = Inr h3"
    using lk h2(1) next_chunk_eq [OF cfg2 bl(1,2)] h3(1)
    by (simp add: take_chunk_def set_chunk_freeness_def Let_def)
  ultimately show ?thesis using that by blast
qed

section \<open>Allocation\<close>

text \<open>The abstract allocator: the first free block that is large enough is carved.\<close>

definition fit :: "int \<Rightarrow> block \<Rightarrow> bool" where
  "fit n x \<longleftrightarrow> snd x \<and> n \<le> fst x"

definition first_fit :: "int \<Rightarrow> block list \<Rightarrow> (block list \<times> int \<times> block list) option" where
  "first_fit n bs =
     (case dropWhile (\<lambda>x. \<not> fit n x) bs of
        [] \<Rightarrow> None
      | x # ys \<Rightarrow> Some (takeWhile (\<lambda>x. \<not> fit n x) bs, fst x, ys))"

definition carve :: "int \<Rightarrow> int \<Rightarrow> int \<Rightarrow> block list" where
  "carve z n s = (if 4 * z \<le> s - n then [(n, False), (s - n, True)] else [(s, False)])"

lemma first_fit_Some:
  assumes "first_fit n bs = Some (xs, s, ys)"
  shows "bs = xs @ (s, True) # ys" and "n \<le> s" and "\<And>x. x \<in> set xs \<Longrightarrow> \<not> fit n x"
proof -
  from assms obtain x where x: "dropWhile (\<lambda>x. \<not> fit n x) bs = x # ys" "xs = takeWhile (\<lambda>x. \<not> fit n x) bs" "s = fst x"
    by (auto simp: first_fit_def split: list.splits)
  have "fit n x" using x(1) hd_dropWhile [of "\<lambda>x. \<not> fit n x" bs] by simp
  then show "n \<le> s" using x(3) by (simp add: fit_def)
  have "x = (s, True)" using \<open>fit n x\<close> x(3) by (cases x) (simp add: fit_def)
  then show "bs = xs @ (s, True) # ys" using takeWhile_dropWhile_id [of "\<lambda>x. \<not> fit n x" bs] x by simp
  show "\<And>x. x \<in> set xs \<Longrightarrow> \<not> fit n x" using x(2) by (auto dest: set_takeWhileD)
qed

lemma find_first_fit:
  "part h b p bs \<Longrightarrow> find (\<lambda>d. n \<le> size_of h d) (frees b bs) = map_option (\<lambda>r. stop b (fst r)) (first_fit n bs)"
proof (induction b bs arbitrary: p rule: frees.induct)
  case (2 b s f bs)
  have IH: "find (\<lambda>d. n \<le> size_of h d) (frees (b + s) bs) = map_option (\<lambda>r. stop (b + s) (fst r)) (first_fit n bs)"
    using 2 by (cases f) auto
  have s: "size_of h b = s" using 2(3) by simp
  have step: "first_fit n ((s, f) # bs) =
      (if f \<and> n \<le> s then Some ([], s, bs) else map_option (\<lambda>(xs, s', ys). ((s, f) # xs, s', ys)) (first_fit n bs))"
  proof (cases "dropWhile (\<lambda>x. \<not> fit n x) bs")
    case Nil
    then show ?thesis unfolding first_fit_def dropWhile.simps takeWhile.simps Nil by (simp add: fit_def)
  next
    case (Cons y zs)
    then show ?thesis unfolding first_fit_def dropWhile.simps takeWhile.simps Cons by (simp add: fit_def)
  qed
  show ?case using IH s by (auto simp: step option.map_comp comp_def case_prod_beta)
qed (simp add: first_fit_def)

text \<open>The rest of the search when a chunk is large enough.\<close>

definition use_chunk :: "int \<Rightarrow> chunk \<Rightarrow> pt_heap \<Rightarrow> (int \<times> pt_heap) res" where
  "use_chunk n c h =
     (let h1 = ensure_mapped (c + n + 2 * chunk_min_size h) h in
      map_res (\<lambda>h2. (data_ptr h2 c, h2))
        (if size_of h c > n \<and> size_of h c - n \<ge> chunk_min_size h1 then split_chunk c (size_of h c) n h1
         else take_chunk c h1))"

lemma frees_size:
  assumes "cfg h" and "seg h b p bs" and "d \<in> set (frees b bs)"
  shows "get_size h d = Inr (size_of h d)"
proof -
  obtain xs s ys where bs: "bs = xs @ (s, True) # ys" "d = stop b xs" using frees_split [OF assms(3)] by blast
  note b = seg_block [OF assms(1) assms(2) [unfolded bs(1)]]
  show ?thesis using get_size_eq [OF assms(1) spans_valid(2) [OF assms(1) b(1)]] bs(2) by simp
qed

lemma malloc_walk:
  assumes "cfg h" and "seg h b p bs" and "ring (fw h) (bk h) (frees b bs)" and "frees b bs = U @ c # V"
  shows "malloc_loop n c h =
    (case find (\<lambda>d. n \<le> size_of h d) (c # V) of None \<Rightarrow> Inr (0, h) | Some d \<Rightarrow> use_chunk n d h)"
  using assms(4)
proof (induction V arbitrary: U c)
  case Nil
  have c: "c \<in> set (frees b bs)" using Nil by simp
  have "fw h c = hd (U @ [c])" using assms(3) ring_closed [of "U @ [c]"] by (simp add: Nil)
  moreover have "sorted (U @ [c])" using block_ranges(6) [OF seg_roomy(1) [OF assms(1,2)] seg_roomy(2) [OF assms(1)], of b]
    by (simp only: Nil strict_sorted_iff)
  then have "hd (U @ [c]) \<le> c" by (cases U) auto
  ultimately show ?case
    using frees_size [OF assms(1,2) c] free_chunk_eqs(1) [OF assms(1,2) c]
    by (subst malloc_loop.simps) (simp add: use_chunk_def Let_def)
next
  case (Cons v V)
  have c: "c \<in> set (frees b bs)" using Cons.prems by simp
  have "chain (fw h) (bk h) (U @ c # v # V @ [hd (U @ c # v # V)])"
    using assms(3) by (simp add: ring_def Cons.prems)
  then have fw: "fw h c = v" using chain_append [of _ _ U c "v # V @ _"] by simp
  have "sorted_wrt (<) (U @ c # v # V)" using block_ranges(6) [OF seg_roomy(1) [OF assms(1,2)] seg_roomy(2) [OF assms(1)], of b]
    by (simp only: Cons.prems)
  then have "c < v" by (simp add: sorted_wrt_append)
  moreover have "malloc_loop n v h =
      (case find (\<lambda>d. n \<le> size_of h d) (v # V) of None \<Rightarrow> Inr (0, h) | Some d \<Rightarrow> use_chunk n d h)"
    using Cons.IH [of "U @ [c]" v] Cons.prems by simp
  ultimately show ?case
    using frees_size [OF assms(1,2) c] free_chunk_eqs(1) [OF assms(1,2) c] fw
    by (subst malloc_loop.simps) (simp add: use_chunk_def Let_def)
qed

lemma hstep_ensure: "hstep h (ensure_mapped a h) {}" "free_head_chunk (ensure_mapped a h) = free_head_chunk h"
proof -
  have g: "grows (memory h) (memory (ensure_mapped a h))"
    by (simp add: ensure_mapped_def Let_def map_range_grows split: option.split)
  have "ensure_mapped a h = h\<lparr>memory := memory (ensure_mapped a h), mapped_end := mapped_end (ensure_mapped a h),
      free_head_chunk := free_head_chunk h\<rparr>"
    by (simp add: ensure_mapped_def Let_def split: option.split)
  then show "hstep h (ensure_mapped a h) {}" by (rule hstepI) (use g in \<open>simp_all add: grows_def\<close>)
  show "free_head_chunk (ensure_mapped a h) = free_head_chunk h"
    by (simp add: ensure_mapped_def Let_def split: option.split)
qed

lemma heap_ok_cong:
  assumes "hstep h h' {}" and "free_head_chunk h' = free_head_chunk h" and "heap_ok h bs"
  shows "heap_ok h' bs"
proof -
  note ok = assms(3) [unfolded heap_ok_def]
  have seg: "seg h' (heap_base h) None bs" using seg_frame [OF assms(1)] ok by simp
  have "ring (fw h') (bk h') (frees (heap_base h) bs)"
  proof (rule ring_cong)
    fix d assume "d \<in> set (frees (heap_base h) bs)"
    then have "d \<in> set (bases (heap_base h) bs)" using frees_bases ok by blast
    then show "fw h' d = fw h d \<and> bk h' d = bk h d"
      using hstep_links [OF assms(1)] seg_linkable [of h "heap_base h" None bs] ok by (auto simp: linkable_def)
  qed (use ok in simp)
  with seg ok assms(2) show ?thesis by (simp add: heap_ok_def hstep_fields [OF assms(1)])
qed

lemma make_chunk_size:
  assumes "cfg h" and "0 \<le> req" and "n = make_chunk_size h req"
  shows "4 * Z h \<le> n" and "2 * Z h dvd n" and "req + 2 * Z h \<le> n" and "n < max (4 * Z h) (req + 2 * Z h) + 2 * Z h"
proof -
  define sz where "sz = max (req + 2 * Z h) (4 * Z h)"
  note c = cfg_simps [OF assms(1)]
  obtain k where k: "2 * Z h = 2 ^ k" using c(2) that [of 3] that [of 4] by auto
  have "sz AND (2 ^ k - 1) = sz mod 2 ^ k" by (simp add: take_bit_eq_mod)
  moreover have "sz AND NOT (2 ^ k - 1) = sz - sz mod 2 ^ k"
  proof -
    have "sz = (sz AND NOT (mask k)) + take_bit k sz"
      by (subst disjunctive_add) (auto simp: bit_simps intro!: bit_eqI)
    then show ?thesis by (simp add: mask_eq_exp_minus_1 take_bit_eq_mod)
  qed
  ultimately have n: "n = (if sz mod 2 ^ k \<noteq> 0 then sz - sz mod 2 ^ k + 2 ^ k else sz)"
    unfolding assms(3) make_chunk_size_def Let_def c(11,12) sz_def [symmetric] unfolding k by simp
  have r: "0 \<le> sz mod 2 ^ k" "sz mod 2 ^ k < 2 ^ k" by simp_all
  show "2 * Z h dvd n" unfolding k n by (auto simp: dvd_add dvd_minus_mod)
  define q where "q = sz mod 2 ^ k"
  have "sz \<le> n \<and> n < sz + 2 * Z h" using r unfolding n k q_def [symmetric] by auto
  then show "4 * Z h \<le> n" "req + 2 * Z h \<le> n" "n < max (4 * Z h) (req + 2 * Z h) + 2 * Z h"
    by (simp_all add: sz_def max.commute)
qed

lemma malloc_ok:
  assumes "heap_ok h bs" and "0 \<le> req" and "n = make_chunk_size h req"
  shows "case first_fit n bs of
           None \<Rightarrow> malloc (Conc req) h = Inr (0, h)
         | Some (xs, s, ys) \<Rightarrow> \<exists>h' A. malloc (Conc req) h = Inr (stop (heap_base h) xs + 2 * Z h, h')
             \<and> heap_ok h' (xs @ carve (Z h) n s @ ys) \<and> hstep h h' A \<and> A \<subseteq> meta h (xs @ carve (Z h) n s @ ys)"
proof -
  define b where "b = heap_base h"
  note ok = assms(1) [unfolded heap_ok_def, folded b_def]
  have cfg: "cfg h" and sg: "seg h b None bs" and "part h b None bs" using ok by (simp_all add: seg_def)
  note find = find_first_fit [OF this(3), of n]
  show ?thesis
  proof (cases "frees b bs")
    case Nil
    then have "first_fit n bs = None" using find by simp
    then show ?thesis using ok Nil by (simp add: malloc_def)
  next
    case (Cons c V)
    have head: "free_head_chunk h = Some c" using ok Cons by simp
    have walk: "malloc (Conc req) h =
        (case find (\<lambda>d. n \<le> size_of h d) (c # V) of None \<Rightarrow> Inr (0, h) | Some d \<Rightarrow> use_chunk n d h)"
      using malloc_walk [OF cfg sg, of "[]" c V] ok Cons by (simp add: malloc_def head Let_def flip: assms(3))
    show ?thesis
    proof (cases "first_fit n bs")
      case None
      then show ?thesis using walk find Cons by simp
    next
      case (Some r)
      obtain xs s ys where r: "r = (xs, s, ys)" by (cases r)
      define d where "d = stop b xs"
      note ff = first_fit_Some [OF Some [unfolded r]] and mk = make_chunk_size [OF cfg assms(2,3)]
      have use: "malloc (Conc req) h = use_chunk n d h" using walk find Some r Cons by (simp add: d_def)
      define h1 where "h1 = ensure_mapped (d + n + 2 * chunk_min_size h) h"
      have st: "hstep h h1 {}" "free_head_chunk h1 = free_head_chunk h" unfolding h1_def by (rule hstep_ensure)+
      note f1 = hstep_fields [OF st(1)]
      have ok1: "heap_ok h1 (xs @ (s, True) # ys)" using heap_ok_cong [OF st assms(1)] ff(1) by simp
      have size: "size_of h d = s" using seg_block(2) [OF cfg sg [unfolded ff(1)]] by (simp add: d_def)
      have d1: "d = stop (heap_base h1) xs" by (simp add: d_def b_def f1)
      obtain h2 A where h2: "(if s > n \<and> s - n \<ge> 4 * Z h then split_chunk d s n h1 else take_chunk d h1) = Inr h2"
        "heap_ok h2 (xs @ carve (Z h) n s @ ys)" "hstep h1 h2 A" "A \<subseteq> meta h1 (xs @ carve (Z h) n s @ ys)"
      proof (cases "4 * Z h \<le> s - n")
        case True
        then have "s > n" using cfg_simps(3) [OF cfg] by linarith
        with split_chunk_ok [OF ok1 d1, of n] mk(1,2) True f1 that show ?thesis by (auto simp: carve_def)
      next
        case False
        with take_chunk_ok [OF ok1 d1] that show ?thesis by (auto simp: carve_def)
      qed
      have "malloc (Conc req) h = Inr (d + 2 * Z h, h2)"
        unfolding use use_chunk_def Let_def h1_def [symmetric] size
        using h2(1) hstep_fields [OF h2(3)] cfg_simps(11) [OF cfg] f1 by (simp add: data_ptr_def)
      moreover have "hstep h h2 A" using hstep_trans [OF st(1) h2(3)] by simp
      moreover have "meta h1 = meta h" by (simp add: meta_def fun_eq_iff f1)
      ultimately show ?thesis using h2(2,4) Some r by (auto simp: d_def b_def)
    qed
  qed
qed

end
