(* ===== verification/Heap_Free.thy ===== *)
theory Heap_Free
  imports Heap_Refinement
begin

text \<open>
  Releasing a block: the header phases (absorbing neighbours, marking a block free), the walk of
  \<open>_find_bck\<close>, the four cases of \<open>free\<close>, and the refinement of the abstract release.
\<close>

section \<open>Size fields\<close>

text \<open>Adjacent blocks become one by setting the size of the first.\<close>

lemma absorb_header:
  assumes "cfg h" and "seg h b None (us @ mid @ vs)" and "mid \<noteq> []" and "p = stop b us"
    and "n = sum_list (map fst mid)" and "g = snd (last mid)" and "bs' = us @ (n, g) # vs"
  obtains h' A where "set_size p n None h = Inr h'" and "hstep h h' A" and "A \<subseteq> heads (Z h) b bs' \<union> {limit h + Z h}"
    and "A \<subseteq> {p + Z h, p + n}" and "seg h' b None bs'" and "free_head_chunk h' = free_head_chunk h"
proof -
  have z: "0 < Z h" by (rule seg_roomy(2) [OF assms(1)])
  have part: "part h b None us" and mid: "part h p (tag None us) mid" and vs: "seg h (stop p mid) (tag (tag None us) mid) vs"
    using assms(2,4) by (simp_all add: seg_append part_append seg_def)
  have stp: "stop p mid = p + n" by (simp add: stop_def assms(5))
  obtain t f ms where m: "mid = (t, f) # ms" using assms(3) by (cases mid) auto
  have tg: "tag q mid = (if g then Some (fst (last mid)) else None)" for q
    using assms(3,6) by (cases mid rule: rev_cases) auto
  have first: "spans h p t" "size_of h p = t" "pfree h p = (tag None us \<noteq> None)" "\<forall>q. tag None us = Some q \<longrightarrow> rd h Iend_BE p = q"
    using mid by (simp_all add: m)
  have al: "2 * Z h dvd sum_list (map fst ms)" if "part h q r ms" for q r
    using that by (induction h q r ms rule: part.induct) (auto simp: spans_def)
  have "0 \<le> sum_list (map fst ms)" using block_ranges(1) [of "Z h" ms 0] part_roomy [OF mid] z by (simp add: m stop_def)
  moreover have "2 * Z h dvd n" using al [of "p + t" "if f then Some t else None"] mid first(1)
    by (auto simp: assms(5) m spans_def)
  moreover have "p + n \<le> limit h" using block_ranges(1) [OF seg_roomy(1) [OF assms(1) vs] z, of "p + n"] vs stp
    by (simp add: seg_def)
  ultimately have sp: "spans h p n" using first(1) by (simp add: spans_def assms(5) m)
  note v = spans_valid [OF assms(1) sp]
  have fl: "pfree h (p + n) = g" using seg_flag [OF vs] by (simp add: stp tg)
  have n: "4 * Z h \<le> n" using sp by (simp add: spans_def)
  from set_size_step [OF assms(1) sp, of g None] obtain h' where h': "set_size p n None h = Inr h'"
    "hstep h h' (size_words h p n None g)" "size_of h' p = n" "pfree h' p = pfree h p" "pfree h' (p + n) = g"
    "p + n \<noteq> limit h \<longrightarrow> size_of h' (p + n) = size_of h (p + n)"
    "g \<and> p + n \<noteq> limit h \<longrightarrow> rd h' Iend_BE (p + n) = n" "free_head_chunk h' = free_head_chunk h"
    using fl by (metis option.simps(4))
  have A: "size_words h p n None g \<subseteq> {p + Z h, p + n}" "p + n = limit h \<Longrightarrow> p + n \<notin> size_words h p n None g"
    using z n by (auto simp: size_words_def)
  have rdp: "rd h' Iend_BE p = rd h Iend_BE p"
    by (rule hstep_rd [OF h'(2) assms(1) v(1)]) (use A(1) z n in auto)
  have "part h' b None us" by (rule part_below [OF assms(1) part h'(2)]) (use A(1) z n assms(4) in auto)
  moreover have "seg h' (p + n) (if g then Some n else None) vs"
    by (rule seg_retag [OF assms(1) vs [unfolded stp] h'(2)]) (use A(1) z n h'(5-7) in \<open>auto split: if_splits\<close>)
  ultimately have sg: "seg h' b None bs'"
    unfolding assms(7) using sp h'(3,4) first(3,4) rdp assms(4)
    by (simp add: seg_append seg_Cons hstep_spans [OF h'(2)])
  have "p + n \<in> heads (Z h) (p + n) vs" if "p + n \<noteq> limit h"
    using that seg_end [OF assms(1) vs] stp by (cases vs) auto
  then have "size_words h p n None g \<subseteq> heads (Z h) b bs' \<union> {limit h + Z h}"
    using A assms(4) by (cases "p + n = limit h") (auto simp: assms(7))
  from that [OF h'(1,2) this A(1) sg h'(8)] show ?thesis .
qed

text \<open>A block is marked free: its flag first, then its trailing size.\<close>

lemma mark_free:
  assumes "cfg h" and "seg h b None (us @ (s, g) # vs)" and "c = stop b us" and "bs' = us @ (s, True) # vs"
  obtains h1 h' A where "set_chunk_freeness (neighbour h (c + s)) True h = Inr h1" and "set_size c s None h1 = Inr h'"
    and "hstep h h' A" and "A \<subseteq> heads (Z h) b bs' \<union> {limit h + Z h}" and "seg h' b None bs'"
    and "free_head_chunk h' = free_head_chunk h"
proof -
  note bl = seg_block [OF assms(1,2), folded assms(3)] and z = seg_roomy(2) [OF assms(1)]
  note v = spans_valid [OF assms(1) bl(1)]
  have s: "4 * Z h \<le> s" using bl(1) by (simp add: spans_def)
  from set_chunk_freeness_step [OF assms(1) v(5), of True] obtain h1 where h1:
    "set_chunk_freeness (neighbour h (c + s)) True h = Inr h1" "hstep h h1 {c + s + Z h}" "pfree h1 (c + s) = True"
    "c + s \<noteq> limit h \<longrightarrow> size_of h1 (c + s) = size_of h (c + s)" "free_head_chunk h1 = free_head_chunk h" .
  note f1 = hstep_fields [OF h1(2)]
  have c1: "cfg h1" "spans h1 c s" using assms(1) bl(1) f1 by (simp_all add: hstep_spans [OF h1(2)])
  from set_size_step [OF c1, of True None] obtain h' where h': "set_size c s None h1 = Inr h'"
    "hstep h1 h' (size_words h1 c s None True)" "size_of h' c = s" "pfree h' c = pfree h1 c" "pfree h' (c + s)"
    "c + s \<noteq> limit h1 \<longrightarrow> size_of h' (c + s) = size_of h1 (c + s)"
    "c + s \<noteq> limit h1 \<longrightarrow> rd h' Iend_BE (c + s) = s" "free_head_chunk h' = free_head_chunk h1"
    using h1(3) by (metis option.simps(4))
  define A where "A = {c + s + Z h} \<union> size_words h1 c s None True"
  have st: "hstep h h' A" unfolding A_def by (rule hstep_trans [OF h1(2) h'(2)])
  have A: "A \<subseteq> {c + Z h, c + s, c + s + Z h}" "c + s = limit h \<Longrightarrow> c + s \<notin> A"
    using z s by (auto simp: A_def size_words_def f1)
  have "c \<notin> A" using A(1) z s by auto
  then have own: "pfree h1 c = pfree h c" "rd h' Iend_BE c = rd h Iend_BE c"
    using hstep_size_of(2) [OF h1(2) assms(1) v(2)] hstep_rd [OF st assms(1) v(1)] z s by auto
  have "part h' b None us" by (rule part_below [OF assms(1) bl(8) st]) (use A(1) z s assms(3) in auto)
  moreover have "seg h' (c + s) (Some s) vs"
    by (rule seg_retag [OF assms(1) bl(7) st]) (use A(1) z s h'(5-7) h1(4) f1 in auto)
  ultimately have sg: "seg h' b None bs'"
    unfolding assms(4) using bl(1,3,4) h'(3,4) own assms(3) by (simp add: seg_append seg_Cons hstep_spans [OF st])
  have "c + s \<in> heads (Z h) (c + s) vs \<and> c + s + Z h \<in> heads (Z h) (c + s) vs" if "c + s \<noteq> limit h"
    using that bl(6) by (cases vs) auto
  then have "A \<subseteq> heads (Z h) b bs' \<union> {limit h + Z h}"
    using A assms(3) by (cases "c + s = limit h") (auto simp: assms(4))
  from that [OF h1(1) h'(1) st this sg] show ?thesis using h'(8) h1(5) by simp
qed

section \<open>The walk of the free list\<close>

lemma find_below_walk:
  assumes "\<And>v. v \<in> set vs \<Longrightarrow> fwd_chunk h v = Inr (F v)" and "chain F K (cur # vs @ [t])"
    and "sorted_wrt (<) (cur # vs)" and "\<And>v. v \<in> set vs \<Longrightarrow> v < c" and "\<not> (last (cur # vs) < t \<and> t < c)"
  shows "find_below h c cur (hd (vs @ [t])) = Inr (last (cur # vs))"
  using assms
proof (induction vs arbitrary: cur)
  case Nil
  then show ?case by (subst find_below.simps) auto
next
  case (Cons v vs)
  have "fwd_chunk h v = Inr (F v)" "F v = hd (vs @ [t])" "cur < v" "v < c"
    using Cons.prems by (cases vs; simp)+
  then show ?case using Cons by (subst find_below.simps) simp
qed

lemma find_last_walk:
  assumes "\<And>v. v \<in> set vs \<Longrightarrow> fwd_chunk h v = Inr (F v)" and "chain F K (cur # vs @ [t])" and "t \<notin> set vs"
  shows "find_last h t cur (hd (vs @ [t])) = Some (Inr (last (cur # vs)))"
  using assms
proof (induction vs arbitrary: cur)
  case Nil
  then show ?case by (subst find_last.simps) simp
next
  case (Cons v vs)
  have "fwd_chunk h v = Inr (F v)" "F v = hd (vs @ [t])" "v \<noteq> t" using Cons.prems by (cases vs; simp)+
  then show ?case using Cons by (subst find_last.simps) simp
qed

lemma find_bck_ok:
  assumes "cfg h" and "seg h b None (xs @ (s, True) # ys)" and "c = stop b xs" and "X = frees b xs" and "Y = frees (c + s) ys"
    and "ring (fw h) (bk h) (X @ Y)" and "free_head_chunk h = head_of (X @ Y)"
  shows "find_bck h c = Some (Inr (if X @ Y = [] then None else Some (last (Y @ X))))"
proof (cases "X @ Y")
  case Nil
  then show ?thesis using assms(7) by (simp add: find_bck_def)
next
  case (Cons a L)
  have all: "frees b (xs @ (s, True) # ys) = X @ c # Y" by (simp add: assms(3-5))
  have "sorted_wrt (<) (X @ c # Y)"
    using block_ranges(6) [OF seg_roomy(1) [OF assms(1,2)] seg_roomy(2) [OF assms(1)], of b] by (simp only: all)
  then have srt: "sorted_wrt (<) X" "sorted_wrt (<) Y" "\<And>x. x \<in> set X \<Longrightarrow> x < c" "\<And>y. y \<in> set Y \<Longrightarrow> c < y"
    and dist: "distinct (X @ Y)" by (auto simp: sorted_wrt_append strict_sorted_iff)
  have fwd: "fwd_chunk h d = Inr (fw h d)" if "d \<in> set (X @ Y)" for d
    by (rule free_chunk_eqs(1) [OF assms(1,2)]) (use that in \<open>auto simp: assms(3-5)\<close>)
  have ch: "chain (fw h) (bk h) (a # L @ [a])" using assms(6) Cons by (simp add: ring_def)
  then have fa: "fw h a = hd (L @ [a])" by (cases L) auto
  have start: "find_bck h c = (if a = hd (L @ [a]) then Some (Inr (Some a))
      else if a < c then Some (map_res Some (find_below h c a (hd (L @ [a]))))
      else map_option (map_res Some) (find_last h a a (hd (L @ [a]))))"
    using assms(7) fwd [of a] Cons fa by (simp add: find_bck_def)
  have same: "a = hd (L @ [a]) \<longleftrightarrow> L = []" using dist Cons by (cases L) auto
  show ?thesis
  proof (cases X)
    case Nil
    then have "\<not> a < c" "last (Y @ X) = last (a # L)" using Cons srt(4) [of a] by auto
    moreover have "find_last h a a (hd (L @ [a])) = Some (Inr (last (a # L)))"
      by (rule find_last_walk [OF _ ch]) (use fwd dist Cons in auto)
    ultimately show ?thesis using start same Cons by (cases L) simp_all
  next
    case X: (Cons a' X')
    then have a: "a' = a" "L = X' @ Y" and lt: "a < c" using Cons srt(3) by auto
    define t where "t = hd (Y @ [a])"
    have "chain (fw h) (bk h) (a # X' @ [t])"
      using ch chain_append [of "fw h" "bk h" "a # X'" t "tl (Y @ [a])"] by (simp add: a(2) t_def)
    moreover have "\<not> (last (a # X') < t \<and> t < c)"
    proof (cases Y)
      case Nil
      then have "t = a" by (simp add: t_def)
      moreover have "a \<le> last (a # X')" using srt(1) X a(1) by (cases X' rule: rev_cases) auto
      ultimately show ?thesis by simp
    qed (use srt(4) [of t] in \<open>auto simp: t_def\<close>)
    ultimately have "find_below h c a (hd (X' @ [t])) = Inr (last (a # X'))"
      by (intro find_below_walk) (use fwd X a srt in auto)
    moreover have "hd (X' @ [t]) = hd (L @ [a])" by (cases X') (auto simp: a(2) t_def)
    moreover have "last (Y @ X) = last (a # X')" using X a(1) by simp
    ultimately show ?thesis using start same lt Cons a(2) X by auto
  qed
qed

section \<open>The four cases\<close>

text \<open>Header words first, then links: what \<open>links\<close> knows of the chunks of the new tiling.\<close>

lemma links_after_header:
  assumes "cfg h" and "hstep h h' A" and "A \<subseteq> heads (Z h) b bs' \<union> {limit h + Z h}" and "seg h' b None bs'"
  shows "linkable h' (set (bases b bs'))" and "links h' (set (bases b bs')) (fw h) (bk h)"
proof -
  note f = hstep_fields [OF assms(2)]
  have cfg': "cfg h'" using assms(1) f by simp
  show lk: "linkable h' (set (bases b bs'))" by (rule seg_linkable [OF cfg' assms(4)])
  have "stop b bs' = limit h" using assms(4) f by (simp add: seg_def)
  then show "links h' (set (bases b bs')) (fw h) (bk h)"
    using heads_keep_links [OF assms(1,2), of b bs' "fw h" "bk h"] assms(3) seg_roomy(1) [OF cfg' assms(4)]
      lk hstep_linkable [OF assms(2)] by (simp add: f links_def)
qed

lemma set_head_links:
  "linkable (h\<lparr>free_head_chunk := x\<rparr>) D = linkable h D" "links (h\<lparr>free_head_chunk := x\<rparr>) D F K = links h D F K"
  "fw (h\<lparr>free_head_chunk := x\<rparr>) = fw h" "bk (h\<lparr>free_head_chunk := x\<rparr>) = bk h"
  using hstep_linkable [OF hstep_head] by (simp_all add: links_def fw_def bk_def rd_def fun_eq_iff)

lemma free_alone_ok:
  assumes "heap_ok h (xs @ (s, False) # ys)" and "c = stop (heap_base h) xs" and "tag None xs = None"
    and "ys \<noteq> [] \<Longrightarrow> \<not> snd (hd ys)" and "bs' = xs @ (s, True) # ys"
  obtains h' A where "free_alone c s (neighbour h (c + s)) h = Some (Inr h')" and "heap_ok h' bs'"
    and "hstep h h' A" and "A \<subseteq> meta h bs'"
proof -
  define b where "b = heap_base h"
  define X Y where "X = frees b xs" and "Y = frees (c + s) ys"
  define R where "R = Y @ X"
  define D where "D = set (bases b bs')"
  note ok = assms(1) [unfolded heap_ok_def, folded b_def]
  have cfg: "cfg h" and sg: "seg h b None (xs @ (s, False) # ys)" and c: "c = stop b xs" using ok assms(2) by (simp_all add: b_def)
  have old: "frees b (xs @ (s, False) # ys) = X @ Y" and new: "frees b bs' = X @ c # Y"
    by (simp_all add: X_def Y_def c assms(5))
  from mark_free [OF cfg sg c assms(5)] obtain h1 h2 A where
    hd: "set_chunk_freeness (neighbour h (c + s)) True h = Inr h1" "set_size c s None h1 = Inr h2"
    and st: "hstep h h2 A" and A: "A \<subseteq> heads (Z h) b bs' \<union> {limit h + Z h}" and seg2: "seg h2 b None bs'"
    and head2: "free_head_chunk h2 = free_head_chunk h" .
  note f2 = hstep_fields [OF st]
  have cfg2: "cfg h2" using cfg f2 by simp
  note lnk = links_after_header [OF cfg st A seg2, folded D_def]
  have RD: "c \<in> D" "set R \<subseteq> D" using frees_bases [OF cfg2 seg2] unfolding new D_def by (auto simp: R_def)
  have dist: "distinct (c # R)" using frees_distinct [OF cfg2 seg2] unfolding new by (auto simp: R_def)
  have rg: "ring (fw h) (bk h) (X @ Y)" "ring (fw h) (bk h) R"
    using ok old ring_rotate [of _ _ X Y] by (simp_all add: R_def)
  have "ring (fw h2) (bk h2) (X @ Y)"
    by (rule ring_cong [OF rg(1)]) (use lnk(2) RD in \<open>auto simp: links_def R_def\<close>)
  moreover have "ring (fw h2) (bk h2) R" by (rule ring_cong [OF rg(2)]) (use lnk(2) RD in \<open>auto simp: links_def\<close>)
  ultimately have rg2: "ring (fw h2) (bk h2) (X @ Y)" "ring (fw h2) (bk h2) R" .
  have fb: "find_bck h2 c = Some (Inr (if R = [] then None else Some (last R)))"
  proof -
    have "free_head_chunk h2 = head_of (X @ Y)" using head2 ok unfolding old by simp
    from find_bck_ok [OF cfg2 seg2 [unfolded assms(5)] c X_def Y_def rg2(1) this] show ?thesis by (auto simp: R_def)
  qed
  have srt: "sorted_wrt (<) (X @ c # Y)"
    using block_ranges(6) [OF seg_roomy(1) [OF cfg2 seg2] seg_roomy(2) [OF cfg2], of b] by (simp only: new)
  define fin where "fin = head_of (X @ c # Y)"
  obtain h3 where h3: "free_alone c s (neighbour h (c + s)) h = Some (Inr h3)" "hstep h2 h3 (link_words (Z h) (set (c # R)))"
    "ring (fw h3) (bk h3) (c # R)" "free_head_chunk h3 = fin"
  proof (cases "R = []")
    case True
    define g0 where "g0 = h2\<lparr>free_head_chunk := Some c\<rparr>"
    have s0: "hstep h2 g0 {}" by (simp add: g0_def)
    have lnk0: "linkable g0 D" "links g0 D (fw h) (bk h)"
      using lnk by (simp_all add: g0_def set_head_links)
    from set_bck_links [OF lnk0 RD(1) RD(1)] obtain g where g: "set_bck_chunk c c g0 = Inr g"
      "hstep g0 g {c + 3 * Z g0}" "linkable g D" "links g D (fw h) ((bk h)(c := c))" "free_head_chunk g = free_head_chunk g0" .
    from set_fwd_links [OF g(3,4) RD(1) RD(1)] obtain h3 where h3: "set_fwd_chunk c c g = Inr h3"
      "hstep g h3 {c + 2 * Z g}" "links h3 D ((fw h)(c := c)) ((bk h)(c := c))" "free_head_chunk h3 = free_head_chunk g" .
    have "hstep h2 h3 (link_words (Z h) (set (c # R)))"
      using hstep_trans [OF s0 hstep_trans [OF g(2) h3(2)]] True
      by (simp add: link_words_def f2 g0_def hstep_fields(3) [OF g(2)] insert_commute)
    moreover have "ring (fw h3) (bk h3) (c # R)" using h3(3) RD(1) True by (simp add: ring_single links_def)
    moreover have h3f: "free_head_chunk h3 = Some c" using h3(4) g(5) by (simp add: g0_def)
    moreover have "h3\<lparr>free_head_chunk := Some c\<rparr> = h3" using h3f by (metis pt_heap.surjective pt_heap.update_convs(5) pt_heap.simps(5))
    ultimately show ?thesis
      using that [of h3] hd fb True g h3 by (simp add: free_alone_def then_walk_def lower_head_def g0_def fin_def R_def)
  next
    case False
    have mem: "last R \<in> set R" "hd R \<in> set R" using False by simp_all
    then have ends: "last R \<in> D" "hd R \<in> D" "last R \<in> set (frees b bs')" using RD unfolding new by (auto simp: R_def)
    have lf: "fwd_chunk h2 (last R) = Inr (hd R)"
      using free_chunk_eqs(1) [OF cfg2 seg2 ends(3)] rg2(2) ring_closed [OF False] by simp
    from set_fwd_links [OF lnk ends(1) RD(1)] obtain g1 where g1: "set_fwd_chunk (last R) c h2 = Inr g1"
      "hstep h2 g1 {last R + 2 * Z h2}" "linkable g1 D" "links g1 D ((fw h)(last R := c)) (bk h)" "free_head_chunk g1 = free_head_chunk h2" .
    from set_bck_links [OF g1(3,4) ends(2) RD(1)] obtain g2 where g2: "set_bck_chunk (hd R) c g1 = Inr g2"
      "hstep g1 g2 {hd R + 3 * Z g1}" "linkable g2 D" "links g2 D ((fw h)(last R := c)) ((bk h)(hd R := c))" "free_head_chunk g2 = free_head_chunk g1" .
    from set_bck_links [OF g2(3,4) RD(1) ends(1)] obtain g3 where g3: "set_bck_chunk c (last R) g2 = Inr g3"
      "hstep g2 g3 {c + 3 * Z g2}" "linkable g3 D" "links g3 D ((fw h)(last R := c)) ((bk h)(hd R := c, c := last R))"
      "free_head_chunk g3 = free_head_chunk g2" .
    from set_fwd_links [OF g3(3,4) RD(1) ends(2)] obtain g4 where g4: "set_fwd_chunk c (hd R) g3 = Inr g4"
      "hstep g3 g4 {c + 2 * Z g3}" "linkable g4 D" "links g4 D ((fw h)(last R := c, c := hd R)) ((bk h)(hd R := c, c := last R))"
      "free_head_chunk g4 = free_head_chunk g3" .
    define h3 where "h3 = g4\<lparr>free_head_chunk := fin\<rparr>"
    note f = hstep_fields(3) [OF g1(2)] hstep_fields(3) [OF g2(2)] hstep_fields(3) [OF g3(2)]
    have "hstep h2 h3 ({last R + 2 * Z h} \<union> {hd R + 3 * Z h} \<union> {c + 3 * Z h} \<union> {c + 2 * Z h} \<union> {})"
      using hstep_trans [OF hstep_trans [OF hstep_trans [OF hstep_trans [OF g1(2) g2(2)] g3(2)] g4(2)] hstep_head, of fin]
      by (simp add: f f2 h3_def)
    then have "hstep h2 h3 (link_words (Z h) (set (c # R)))"
      by (rule hstep_mono) (use lnk(1) RD False f2 in \<open>auto simp: link_words_def linkable_def\<close>)
    moreover have "fw h3 = fw g4" "bk h3 = bk g4" by (simp_all add: h3_def set_head_links)
    then have "ring (fw h3) (bk h3) (c # R)"
      using g4(4) RD dist False mem ends(1,2) by (intro ring_insert [OF rg(2) dist False]) (auto simp: links_def)
    moreover have "lower_head c g4 = Inr h3"
    proof -
      have "head_of (X @ Y) = Some (hd (X @ Y))" using False by (cases "X @ Y") (auto simp: R_def)
      moreover have "Some (min (hd (X @ Y)) c) = fin"
        using srt False by (cases X; cases Y) (auto simp: fin_def R_def)
      moreover have "free_head_chunk g4 = head_of (X @ Y)" using g4(5) g3(5) g2(5) g1(5) head2 ok unfolding old by simp
      ultimately show ?thesis by (simp add: lower_head_def h3_def)
    qed
    ultimately show ?thesis
      using that [of h3] hd fb False lf g1(1) g2(1) g3(1) g4(1)
      by (simp add: free_alone_def then_walk_def h3_def)
  qed
  have "ring (fw h3) (bk h3) (frees b bs')"
    using h3(3) ring_rotate [of _ _ X "c # Y"] unfolding new by (simp add: R_def)
  moreover have "free_head_chunk h3 = head_of (frees b bs')" unfolding new using h3(4) by (simp add: fin_def)
  moreover have "apart bs'"
  proof -
    have "xs \<noteq> [] \<longrightarrow> \<not> snd (last xs)" using assms(3) by (cases xs rule: rev_cases) (auto split: if_splits)
    then show ?thesis using ok assms(4) by (auto simp: assms(5) apart_append)
  qed
  moreover have "set (c # R) \<subseteq> set (frees b bs')" unfolding new by (auto simp: R_def)
  ultimately have "heap_ok h3 bs'" "hstep h h3 (A \<union> link_words (Z h) (set (c # R)))"
    "A \<union> link_words (Z h) (set (c # R)) \<subseteq> meta h bs'"
    using heap_okI [OF cfg b_def st A seg2 h3(2)] by simp_all
  from that [OF h3(1) this] show ?thesis .
qed


text \<open>The free block before a block is found through its trailing size.\<close>

lemma wrap_small: "cfg h \<Longrightarrow> 0 \<le> v \<Longrightarrow> v < 2 ^ (8 * chunk_size_t_size h) \<Longrightarrow> wrap h v = v"
  by (simp add: wrap_def cfg_simps(1))

lemma wrap_size:
  assumes "cfg h" and "seg h b None (us @ mid @ vs)" and "mid \<noteq> []" and "n = sum_list (map fst mid)"
  shows "wrap h n = n"
proof -
  have p: "part h b None us" and m: "part h (stop b us) (tag None us) mid" and v: "seg h (stop (stop b us) mid) (tag (tag None us) mid) vs"
    using assms(2) by (simp_all add: seg_append part_append seg_def)
  note z = seg_roomy(2) [OF assms(1)]
  have "0 \<le> n" using block_ranges(1) [OF part_roomy [OF m] z, of 0] by (simp add: stop_def assms(4))
  moreover have "stop b us + n \<le> limit h"
    using block_ranges(1) [OF seg_roomy(1) [OF assms(1) v] z, of "stop b us + n"] v by (simp add: seg_def stop_def assms(4))
  moreover have "0 \<le> stop b us" using m assms(3) spans_valid(10) [OF assms(1)] by (cases mid) auto
  ultimately show ?thesis using cfg_simps(3,10) [OF assms(1)] by (intro wrap_small [OF assms(1)]) linarith+
qed

lemma prev_block:
  assumes "cfg h" and "seg h b None (ps @ (q, True) # (s, f) # ys)" and "p = stop b ps"
  shows "prev_chunk h (p + q) = Inr p" and "get_size h p = Inr q" and "is_prev_free h (p + q) = Inr True"
proof -
  have sg: "seg h b None ((ps @ [(q, True)]) @ (s, f) # ys)" using assms(2) by simp
  note bp = seg_block [OF assms(1,2), folded assms(3)] and bc = seg_block [OF assms(1) sg, simplified, folded assms(3)]
  note vp = spans_valid [OF assms(1) bp(1)] and vc = spans_valid [OF assms(1) bc(1)]
  show pf: "is_prev_free h (p + q) = Inr True" using is_prev_free_eq [OF assms(1) vc(2)] bc(3) by simp
  have "prev_size h (p + q) = Inr q"
    using bc(4) vp(7) field_bits(1) [of q 0] by (simp add: prev_size_def load_word_rd [OF assms(1) vc(1)])
  then show "prev_chunk h (p + q) = Inr p"
    using pf vp(10) wrap_small [OF assms(1), of p] vp(8,11) by (simp add: prev_chunk_def)
  show "get_size h p = Inr q" using get_size_eq [OF assms(1) vp(2)] bp(2) by simp
qed

lemma free_between_ok:
  assumes "heap_ok h (ps @ (q, True) # (s, False) # (t, True) # ws)" and "p = stop (heap_base h) ps" and "n = p + q + s"
    and "bs' = ps @ (q + s + t, True) # ws"
  obtains h' A where "free_between (p + q) s n h = Inr h'" and "heap_ok h' bs'" and "hstep h h' A" and "A \<subseteq> meta h bs'"
proof -
  define b where "b = heap_base h"
  define N where "N = q + s + t"
  define X Y where "X = frees b ps" and "Y = frees (n + t) ws"
  define R where "R = Y @ X @ [p]"
  define D where "D = set (bases b bs')"
  define mid where "mid = [(q, True), (s, False), (t, True)]"
  note ok = assms(1) [unfolded heap_ok_def, folded b_def]
  have cfg: "cfg h" and sg: "seg h b None (ps @ (q, True) # (s, False) # (t, True) # ws)" and p: "p = stop b ps"
    using ok assms(2) by (simp_all add: b_def)
  have old: "frees b (ps @ (q, True) # (s, False) # (t, True) # ws) = (X @ [p]) @ n # Y" and new: "frees b bs' = X @ p # Y"
    by (simp_all add: X_def Y_def p assms(3,4) add.assoc)
  have rg: "ring (fw h) (bk h) ((X @ [p]) @ n # Y)" using ok unfolding old by simp
  note r = ring_at [OF rg, of R]
  have sgm: "seg h b None (ps @ mid @ ws)" and sgn: "seg h b None ((ps @ [(q, True), (s, False)]) @ (t, True) # ws)"
    using sg by (simp_all add: mid_def)
  have Nm: "N = sum_list (map fst mid)" and gm: "True = snd (last mid)" by (simp_all add: N_def mid_def)
  note pv = prev_block [OF cfg sg p] and z = seg_roomy(2) [OF cfg]
  note bn = seg_block [OF cfg sgn, simplified, folded p, folded assms(3)]
  note vn = spans_valid [OF cfg bn(1)]
  from absorb_header [OF cfg sgm _ p Nm gm, of bs'] obtain h1 A where h1: "set_size p N None h = Inr h1" and st: "hstep h h1 A"
    and A: "A \<subseteq> heads (Z h) b bs' \<union> {limit h + Z h}" and A2: "A \<subseteq> {p + Z h, p + N}" and seg1: "seg h1 b None bs'"
    and head1: "free_head_chunk h1 = free_head_chunk h"
    using assms(4) by (auto simp: mid_def N_def)
  note f1 = hstep_fields [OF st]
  have cfg1: "cfg h1" using cfg f1 by simp
  note lnk = links_after_header [OF cfg st A seg1, folded D_def]
  have RD: "p \<in> D" "set R \<subseteq> D" and Rn: "R \<noteq> []" and lR: "last R = p"
    using frees_bases [OF cfg1 seg1] unfolding new D_def by (auto simp: R_def)
  have dist: "distinct R" using frees_distinct [OF cfg1 seg1] unfolding new by (auto simp: R_def)
  have qs: "4 * Z h \<le> q" "4 * Z h \<le> s" "4 * Z h \<le> t" using seg_roomy(1) [OF cfg sg] by simp_all
  have out: "n + Z h \<notin> A" "n + t + Z h \<notin> A" "n + 2 * Z h \<notin> A"
    using A2 qs z by (auto simp: assms(3) N_def)
  have "fwd_chunk h1 n = Inr (fw h1 n)"
    using link_chunk_eq(1) [OF cfg1, of n t] bn(1,2,5) hstep_size_of [OF st cfg vn(2) out(1)] hstep_size_of [OF st cfg vn(5) out(2)]
    by (simp add: hstep_spans [OF st])
  moreover have "fw h1 n = hd R" using hstep_links(1) [OF st cfg vn(3) out(3)] r(3) Rn by (simp add: R_def)
  ultimately have nf: "fwd_chunk h1 n = Inr (hd R)" by simp
  have mem: "hd R \<in> set R" "p \<in> set R" using hd_in_set [OF Rn] last_in_set [OF Rn] lR by simp_all
  then have hR: "hd R \<in> D" using RD(2) by auto
  from set_fwd_links [OF lnk RD(1) hR] obtain g where g: "set_fwd_chunk p (hd R) h1 = Inr g"
    "hstep h1 g {p + 2 * Z h1}" "linkable g D" "links g D ((fw h)(p := hd R)) (bk h)" "free_head_chunk g = free_head_chunk h1" .
  from set_bck_links [OF g(3,4) hR RD(1)] obtain h2 where h2: "set_bck_chunk (hd R) p g = Inr h2"
    "hstep g h2 {hd R + 3 * Z g}" "linkable h2 D" "links h2 D ((fw h)(p := hd R)) ((bk h)(hd R := p))"
    "free_head_chunk h2 = free_head_chunk g" .
  have "hstep h1 h2 ({p + 2 * Z h} \<union> {hd R + 3 * Z h})"
    using hstep_trans [OF g(2) h2(2)] by (simp add: f1 hstep_fields(3) [OF g(2)])
  then have st2: "hstep h1 h2 (link_words (Z h) (set R))"
    by (rule hstep_mono) (use lnk(1) RD mem f1 in \<open>auto simp: link_words_def linkable_def\<close>)
  have "ring (fw h2) (bk h2) R"
    using h2(4) RD by (intro ring_remove [OF _ dist Rn, of "fw h" "bk h" n]) (use r(1) in \<open>auto simp: links_def lR R_def\<close>)
  then have "ring (fw h2) (bk h2) (frees b bs')" using ring_rotate [of _ _ "X @ [p]" Y] unfolding new by (simp add: R_def)
  moreover have "free_head_chunk h2 = head_of (frees b bs')"
  proof -
    have "free_head_chunk h = head_of ((X @ [p]) @ n # Y)" using ok unfolding old by simp
    then show ?thesis unfolding new using h2(5) g(5) head1 by (cases X) simp_all
  qed
  moreover have "apart bs'" using ok by (auto simp: assms(4) apart_append)
  moreover have "set R \<subseteq> set (frees b bs')" unfolding new by (auto simp: R_def)
  ultimately have "heap_ok h2 bs'" "hstep h h2 (A \<union> link_words (Z h) (set R))" "A \<union> link_words (Z h) (set R) \<subseteq> meta h bs'"
    using heap_okI [OF cfg b_def st A seg1 st2] by simp_all
  moreover have "free_between (p + q) s n h = Inr h2"
    using pv get_size_eq [OF cfg vn(2)] bn(2) wrap_size [OF cfg sgm _ Nm] h1 nf g(1) h2(1)
    by (simp add: free_between_def N_def mid_def)
  ultimately show ?thesis using that by blast
qed


text \<open>
  The common part of the two cases with one free neighbour: the blocks \<open>mid\<close> become one free block
  at their base, which takes the place of the free chunk \<open>x\<close> among them.
\<close>

lemma free_merge_ok:
  assumes "cfg h" and "seg h b None (us @ mid @ vs)" and "b = heap_base h" and "mid \<noteq> []" and "p = stop b us"
    and "N = sum_list (map fst mid)" and "bs' = us @ (N, True) # vs" and "R = frees (p + N) vs @ frees b us"
    and "ring (fw h) (bk h) (x # R)" and "free_head_chunk h = head_of (frees b bs')" and "apart bs'"
    and "R' = (if R = [] then [p] else R)"
  obtains h' A where "free_merge p N (last R') (hd R') h = Inr h'" and "heap_ok h' bs'" and "hstep h h' A" and "A \<subseteq> meta h bs'"
proof -
  define bs1 where "bs1 = us @ (N, snd (last mid)) # vs"
  define D where "D = set (bases b bs')"
  have D1: "set (bases b bs1) = D" and H1: "heads z b bs1 = heads z b bs'" for z by (simp_all add: D_def bs1_def assms(7))
  have new: "frees b bs' = frees b us @ p # frees (p + N) vs" by (simp add: assms(5,7))
  from absorb_header [OF assms(1,2,4,5,6) refl bs1_def] obtain h1 A1 where h1: "set_size p N None h = Inr h1"
    and st1: "hstep h h1 A1" and A1: "A1 \<subseteq> heads (Z h) b bs1 \<union> {limit h + Z h}" and seg1: "seg h1 b None bs1"
    and head1: "free_head_chunk h1 = free_head_chunk h" .
  note f1 = hstep_fields [OF st1] and lnk = links_after_header [OF assms(1) st1 A1 seg1, unfolded D1]
  have cfg1: "cfg h1" using assms(1) f1 by simp
  have RD: "p \<in> D" "set R \<subseteq> D"
    using block_ranges(4) [of "Z h1" bs' _ b] seg_roomy(1) [OF cfg1 seg1] seg_roomy(2) [OF cfg1]
    by (auto simp: D_def assms(7,8) bs1_def assms(5))
  have RD': "set R' \<subseteq> D" "R' \<noteq> []" "insert p (set R') \<subseteq> set (frees b bs')" "insert p (set R') \<subseteq> D"
    using RD unfolding new by (auto simp: assms(12,8))
  from relink [OF lnk RD(1) RD'(1,2)] obtain h2 where h2:
    "bind_res (set_bck_chunk p (last R') h1) (\<lambda>h1. bind_res (set_fwd_chunk p (hd R') h1) (\<lambda>h2.
        bind_res (set_fwd_chunk (last R') p h2) (set_bck_chunk (hd R') p))) = Inr h2"
    and st2: "hstep h1 h2 (link_words (Z h1) (insert p (set R')))" and lk2: "linkable h2 D"
    and l2: "links h2 D ((fw h)(p := hd R', last R' := p)) ((bk h)(p := last R', hd R' := p))"
    and head2: "free_head_chunk h2 = free_head_chunk h1" .
  note f2 = hstep_fields [OF st2]
  have cfg2: "cfg h2" using cfg1 f2 by simp
  have seg2: "seg h2 b None (us @ (N, snd (last mid)) # vs)"
    unfolding bs1_def [symmetric] using links_keep_seg [OF cfg1 seg1 st2] RD'(4) by (simp only: D1)
  note bl = seg_block [OF cfg2 seg2, folded assms(5)]
  from mark_free [OF cfg2 seg2 assms(5,7)] obtain h3 h4 A2 where
    hd: "set_chunk_freeness (neighbour h2 (p + N)) True h2 = Inr h3" "set_size p N None h3 = Inr h4"
    and st3: "hstep h2 h4 A2" and A2: "A2 \<subseteq> heads (Z h2) b bs' \<union> {limit h2 + Z h2}" and seg4: "seg h4 b None bs'"
    and head4: "free_head_chunk h4 = free_head_chunk h2" .
  note f4 = hstep_fields [OF st3]
  have cfg4: "cfg h4" using cfg2 f4 by simp
  have dist: "distinct (p # R)" using frees_distinct [OF cfg4 seg4] unfolding new by (auto simp: assms(8))
  have rg2: "ring (fw h2) (bk h2) (p # R)"
  proof (cases "R = []")
    case True
    then show ?thesis using l2 RD(1) by (simp add: ring_single links_def assms(12))
  next
    case False
    then have "R' = R" by (simp add: assms(12))
    note l = l2 [unfolded this]
    show ?thesis using False dist l RD by (intro ring_replace [OF assms(9) dist False]) (auto simp: links_def)
  qed
  have "links h4 D (fw h2) (bk h2)" using links_after_header(2) [OF cfg2 st3 A2 seg4] by (simp add: D_def)
  then have "ring (fw h4) (bk h4) (p # R)" using RD by (intro ring_cong [OF rg2]) (auto simp: links_def)
  then have "ring (fw h4) (bk h4) (frees b bs')"
    unfolding new using ring_rotate [of _ _ "frees b us" "p # frees (p + N) vs"] by (simp add: assms(8))
  then have "heap_ok h4 bs'"
    using seg4 cfg4 head1 head2 head4 assms(3,10,11) by (simp add: heap_ok_def f4 f2 f1)
  moreover have "hstep h h4 (A1 \<union> (link_words (Z h) (insert p (set R')) \<union> A2))"
    using hstep_trans [OF st1 hstep_trans [OF st2 st3]] by (simp add: f1)
  moreover have "A1 \<union> (link_words (Z h) (insert p (set R')) \<union> A2) \<subseteq> meta h bs'"
    using A1 A2 H1 link_words_mono [OF RD'(3), of "Z h"] by (auto simp: meta_def f1 f2 simp flip: assms(3))
  moreover have "free_merge p N (last R') (hd R') h = Inr h4"
    using h1 arg_cong [OF h2, of "\<lambda>m. bind_res m (\<lambda>h5. bind_res (next_chunk h5 p) (\<lambda>nx.
        bind_res (set_chunk_freeness nx True h5) (set_size p N None)))"] next_chunk_eq [OF cfg2 bl(1,2)] hd
    by (simp add: free_merge_def bind_res_assoc)
  ultimately show ?thesis using that by blast
qed


lemma free_after_prev_ok:
  assumes "heap_ok h (ps @ (q, True) # (s, False) # ys)" and "p = stop (heap_base h) ps" and "ys \<noteq> [] \<Longrightarrow> \<not> snd (hd ys)"
    and "bs' = ps @ (q + s, True) # ys"
  obtains h' A where "free_after_prev (p + q) s h = Inr h'" and "heap_ok h' bs'" and "hstep h h' A" and "A \<subseteq> meta h bs'"
proof -
  define b where "b = heap_base h"
  define mid where "mid = [(q, True), (s, False)]"
  define X Y where "X = frees b ps" and "Y = frees (p + (q + s)) ys"
  define R where "R = Y @ X"
  define R' where "R' = (if R = [] then [p] else R)"
  note ok = assms(1) [unfolded heap_ok_def, folded b_def]
  have cfg: "cfg h" and sg: "seg h b None (ps @ (q, True) # (s, False) # ys)" and p: "p = stop b ps"
    using ok assms(2) by (simp_all add: b_def)
  have old: "frees b (ps @ (q, True) # (s, False) # ys) = X @ p # Y" and new: "frees b bs' = X @ p # Y"
    by (simp_all add: X_def Y_def p assms(4) add.assoc)
  have rg: "ring (fw h) (bk h) (X @ p # Y)" using ok unfolding old by simp
  note r = ring_at [OF rg R_def]
  have sgm: "seg h b None (ps @ mid @ ys)" and N: "q + s = sum_list (map fst mid)" and ne: "mid \<noteq> []"
    using sg by (simp_all add: mid_def)
  have "free_head_chunk h = head_of (frees b bs')" using ok unfolding old new by simp
  moreover have "apart bs'" using ok assms(3) by (auto simp: assms(4) apart_append)
  ultimately obtain h' A where h': "free_merge p (q + s) (last R') (hd R') h = Inr h'" "heap_ok h' bs'" "hstep h h' A" "A \<subseteq> meta h bs'"
    using free_merge_ok [OF cfg sgm b_def ne p N assms(4) R_def [unfolded X_def Y_def] r(1) _ _ R'_def] by blast
  have "p \<in> set (frees b (ps @ (q, True) # (s, False) # ys))" unfolding old by simp
  note lk = free_chunk_eqs [OF cfg sg this]
  have "bk h p = last R'" "fw h p = hd R'" using r(2,3) by (auto simp: R'_def)
  then have "free_after_prev (p + q) s h = Inr h'"
    using prev_block [OF cfg sg p] lk wrap_size [OF cfg sgm ne N] h'(1) by (simp add: free_after_prev_def add.commute)
  from that [OF this h'(2-4)] show ?thesis .
qed

lemma free_before_next_ok:
  assumes "heap_ok h (xs @ (s, False) # (t, True) # ws)" and "c = stop (heap_base h) xs" and "tag None xs = None"
    and "bs' = xs @ (s + t, True) # ws"
  obtains h' A where "free_before_next c s (c + s) h = Inr h'" and "heap_ok h' bs'" and "hstep h h' A" and "A \<subseteq> meta h bs'"
proof -
  define b where "b = heap_base h"
  define mid where "mid = [(s, False), (t, True)]"
  define X Y where "X = frees b xs" and "Y = frees (c + (s + t)) ws"
  define R where "R = Y @ X"
  define R' where "R' = (if R = [] then [c] else R)"
  note ok = assms(1) [unfolded heap_ok_def, folded b_def]
  have cfg: "cfg h" and sg: "seg h b None (xs @ (s, False) # (t, True) # ws)" and c: "c = stop b xs"
    using ok assms(2) by (simp_all add: b_def)
  have old: "frees b (xs @ (s, False) # (t, True) # ws) = X @ (c + s) # Y" and new: "frees b bs' = X @ c # Y"
    by (simp_all add: X_def Y_def c assms(4) add.assoc)
  have rg: "ring (fw h) (bk h) (X @ (c + s) # Y)" using ok unfolding old by simp
  note r = ring_at [OF rg R_def]
  have sgm: "seg h b None (xs @ mid @ ws)" and N: "s + t = sum_list (map fst mid)" and ne: "mid \<noteq> []"
    and sgn: "seg h b None ((xs @ [(s, False)]) @ (t, True) # ws)"
    using sg by (simp_all add: mid_def)
  note bn = seg_block [OF cfg sgn, simplified, folded c]
  have s: "0 < s" using seg_roomy [OF cfg] sg by fastforce
  have srt: "sorted_wrt (<) (X @ (c + s) # Y)"
    using block_ranges(6) [OF seg_roomy(1) [OF cfg sg] seg_roomy(2) [OF cfg], of b] by (simp only: old)
  have Xc: "x < c" if "x \<in> set X" for x
    using that block_ranges(3,4) [OF part_roomy [OF seg_block(8) [OF cfg sg]] seg_roomy(2) [OF cfg], of x b] seg_roomy(2) [OF cfg]
    by (auto simp: X_def c)
  define h1 where "h1 = h\<lparr>free_head_chunk := head_of (frees b bs')\<rparr>"
  have st1: "hstep h h1 {}" by (simp add: h1_def)
  note f1 = hstep_fields [OF st1]
  have low: "lower_head c h = Inr h1"
  proof -
    have "free_head_chunk h = head_of (X @ (c + s) # Y)" using ok unfolding old by simp
    moreover have "Some (min (hd (X @ [c + s])) c) = head_of (X @ c # Y)" using Xc s by (cases X) auto
    ultimately show ?thesis unfolding h1_def new lower_head_def by (cases X) auto
  qed
  have sg1: "seg h1 b None (xs @ mid @ ws)" and c1: "cfg h1" "b = heap_base h1"
    using seg_frame [OF st1 cfg _ sgm] cfg f1 by (simp_all add: b_def)
  have "apart bs'" using ok assms(3) by (cases xs rule: rev_cases) (auto simp: assms(4) apart_append split: if_splits)
  moreover have "ring (fw h1) (bk h1) ((c + s) # R)" using r(1) by (simp add: h1_def set_head_links)
  moreover have "free_head_chunk h1 = head_of (frees b bs')" by (simp add: h1_def)
  ultimately obtain h' A where h': "free_merge c (s + t) (last R') (hd R') h1 = Inr h'" "heap_ok h' bs'" "hstep h1 h' A" "A \<subseteq> meta h1 bs'"
    using free_merge_ok [OF c1(1) sg1 c1(2) ne c N assms(4) R_def [unfolded X_def Y_def] _ _ _ R'_def] by blast
  have "c + s \<in> set (frees b (xs @ (s, False) # (t, True) # ws))" unfolding old by simp
  note lk = free_chunk_eqs [OF cfg sg this]
  have dist: "distinct ((c + s) # R)" using frees_distinct [OF cfg sg] unfolding old by (auto simp: R_def)
  have "(if bk h (c + s) = fw h (c + s) \<and> bk h (c + s) = c + s then (c, c) else (bk h (c + s), fw h (c + s))) = (last R', hd R')"
    using r(2,3) dist last_in_set [of R] by (cases "R = []") (auto simp: R'_def)
  then have "free_before_next c s (c + s) h = Inr h'"
    using lk get_size_eq [OF cfg spans_valid(2) [OF cfg bn(1)]] bn(2) wrap_size [OF cfg sgm ne N] h'(1) low
    by (simp add: free_before_next_def)
  moreover have "hstep h h' A" using hstep_trans [OF st1 h'(3)] by simp
  moreover have "meta h1 bs' = meta h bs'" by (simp add: meta_def f1)
  ultimately show ?thesis using that h'(2,4) by simp
qed


section \<open>The refinement of free\<close>

text \<open>The abstract release: the block becomes free and is joined with its free neighbours.\<close>

definition join_right :: "int \<Rightarrow> block list \<Rightarrow> int \<times> block list" where
  "join_right s ys = (case ys of (t, True) # ws \<Rightarrow> (s + t, ws) | _ \<Rightarrow> (s, ys))"

definition join_left :: "block list \<Rightarrow> int \<Rightarrow> block list \<times> int" where
  "join_left xs s = (case rev xs of (q, True) # rs \<Rightarrow> (rev rs, q + s) | _ \<Rightarrow> (xs, s))"

definition give_back :: "block list \<Rightarrow> int \<Rightarrow> block list \<Rightarrow> block list" where
  "give_back xs s ys = (let (s1, ws) = join_right s ys; (ps, s2) = join_left xs s1 in ps @ (s2, True) # ws)"

lemma give_back_simps:
  "give_back (ps @ [(q, True)]) s ((t, True) # ws) = ps @ (q + s + t, True) # ws"
  "ys = [] \<or> \<not> snd (hd ys) \<Longrightarrow> give_back (ps @ [(q, True)]) s ys = ps @ (q + s, True) # ys"
  "tag None xs = None \<Longrightarrow> give_back xs s ((t, True) # ws) = xs @ (s + t, True) # ws"
  "tag None xs = None \<Longrightarrow> ys = [] \<or> \<not> snd (hd ys) \<Longrightarrow> give_back xs s ys = xs @ (s, True) # ys"
  by (cases ys; cases xs rule: rev_cases; auto simp: give_back_def join_right_def join_left_def split: bool.splits if_splits)+

lemma is_free_next:
  assumes "cfg h" and "seg h b None (xs @ (s, f) # ys)" and "c = stop b xs"
  shows "(case neighbour h (c + s) of None \<Rightarrow> Inr False | Some n \<Rightarrow> is_free h n) = Inr (ys \<noteq> [] \<and> snd (hd ys))"
proof (cases ys)
  case Nil
  then show ?thesis using seg_block(6) [OF assms(1,2), folded assms(3)] by simp
next
  case (Cons y ws)
  obtain t g where y: "y = (t, g)" by (cases y)
  have "seg h b None ((xs @ [(s, f)]) @ (t, g) # ws)" using assms(2) by (simp add: Cons y)
  note bl = seg_block [OF assms(1) this, simplified, folded assms(3)]
  show ?thesis
    using is_free_eq [OF assms(1) bl(1,2)] bl(5) seg_block(6) [OF assms(1,2), folded assms(3)]
    by (simp add: Cons y)
qed

lemma free_ok:
  assumes "heap_ok h (xs @ (s, False) # ys)" and "bs' = give_back xs s ys"
  obtains h' A where "free (stop (heap_base h) xs + 2 * Z h) h = Some (Inr h')" and "heap_ok h' bs'" and "hstep h h' A"
    and "A \<subseteq> meta h bs'"
proof -
  define b c where "b = heap_base h" and "c = stop b xs"
  note ok = assms(1) [unfolded heap_ok_def, folded b_def]
  have cfg: "cfg h" and sg: "seg h b None (xs @ (s, False) # ys)" using ok by simp_all
  note bl = seg_block [OF cfg sg, folded c_def] and z = seg_roomy(2) [OF cfg]
  note v = spans_valid [OF cfg bl(1)]
  define nx nf pf where "nx = neighbour h (c + s)" and "nf = (ys \<noteq> [] \<and> snd (hd ys))" and "pf = (tag None xs \<noteq> None)"
  have facts: "next_chunk h c = Inr nx" "(case nx of None \<Rightarrow> Inr False | Some n \<Rightarrow> is_free h n) = Inr nf" "is_prev_free h c = Inr pf"
    using next_chunk_eq [OF cfg bl(1,2)] is_free_next [OF cfg sg c_def] is_prev_free_eq [OF cfg v(2)] bl(3)
    by (simp_all add: nx_def nf_def pf_def)
  have start: "free (c + 2 * Z h) h =
      (if \<not> pf \<and> \<not> nf then free_alone c s nx h
       else if pf \<and> nf then Some (free_between c s (the nx) h)
       else if pf then Some (free_after_prev c s h)
       else Some (free_before_next c s (the nx) h))"
    using v(10) z is_free_eq [OF cfg bl(1,2)] bl(2,5) get_size_eq [OF cfg v(2)] facts
    by (simp add: free_def chunk_from_mem_def then_walk_def)
  have "\<exists>h' A. free (c + 2 * Z h) h = Some (Inr h') \<and> heap_ok h' bs' \<and> hstep h h' A \<and> A \<subseteq> meta h bs'"
  proof (cases "tag None xs")
    case None
    show ?thesis
    proof (cases "ys \<noteq> [] \<and> snd (hd ys)")
      case True
      then obtain t ws where ys: "ys = (t, True) # ws" by (cases ys) auto
      have bs': "bs' = xs @ (s + t, True) # ws" using give_back_simps(3) [OF None] by (simp add: assms(2) ys)
      from free_before_next_ok [OF assms(1) [unfolded ys] c_def [unfolded b_def] None bs'] obtain h' A where
        "free_before_next c s (c + s) h = Inr h'" "heap_ok h' bs'" "hstep h h' A" "A \<subseteq> meta h bs'"
        .
      then show ?thesis using start bl(6) None by (auto simp: ys nf_def pf_def nx_def)
    next
      case False
      have bs': "bs' = xs @ (s, True) # ys" using give_back_simps(4) [OF None] False by (simp add: assms(2))
      from free_alone_ok [OF assms(1) c_def [unfolded b_def] None _ bs'] obtain h' A where
        "free_alone c s (neighbour h (c + s)) h = Some (Inr h')" "heap_ok h' bs'" "hstep h h' A" "A \<subseteq> meta h bs'"
        using False by auto
      then show ?thesis using start False None by (auto simp: nf_def pf_def nx_def)
    qed
  next
    case (Some q)
    then obtain ps where xs: "xs = ps @ [(q, True)]"
      by (cases xs rule: rev_cases) (auto split: if_splits)
    define p where "p = stop (heap_base h) ps"
    have c: "c = p + q" by (simp add: c_def p_def xs b_def)
    have okp: "heap_ok h (ps @ (q, True) # (s, False) # ys)" using assms(1) by (simp add: xs)
    show ?thesis
    proof (cases "ys \<noteq> [] \<and> snd (hd ys)")
      case True
      then obtain t ws where ys: "ys = (t, True) # ws" by (cases ys) auto
      have bs': "bs' = ps @ (q + s + t, True) # ws" by (simp add: assms(2) ys xs give_back_simps(1))
      from free_between_ok [OF okp [unfolded ys] p_def refl bs'] obtain h' A where
        "free_between (p + q) s (p + q + s) h = Inr h'" "heap_ok h' bs'" "hstep h h' A" "A \<subseteq> meta h bs'"
        .
      then show ?thesis using start bl(6) Some by (auto simp: ys c nf_def pf_def nx_def)
    next
      case False
      have bs': "bs' = ps @ (q + s, True) # ys" using give_back_simps(2) False by (simp add: assms(2) xs)
      from free_after_prev_ok [OF okp p_def _ bs'] obtain h' A where
        "free_after_prev (p + q) s h = Inr h'" "heap_ok h' bs'" "hstep h h' A" "A \<subseteq> meta h bs'"
        using False by auto
      then show ?thesis using start False Some by (auto simp: c nf_def pf_def)
    qed
  qed
  then show ?thesis using that by (auto simp: c_def b_def)
qed

lemma free_noop:
  assumes "heap_ok h (xs @ (s, True) # ys)"
  shows "free (stop (heap_base h) xs + 2 * Z h) h = Some (Inr h)" and "free 0 h = Some (Inr h)"
proof -
  note ok = assms [unfolded heap_ok_def]
  have cfg: "cfg h" and sg: "seg h (heap_base h) None (xs @ (s, True) # ys)" using ok by simp_all
  note bl = seg_block [OF cfg sg] and z = seg_roomy(2) [OF cfg]
  show "free (stop (heap_base h) xs + 2 * Z h) h = Some (Inr h)"
    using spans_valid(10) [OF cfg bl(1)] z is_free_eq [OF cfg bl(1,2)] bl(5)
    by (simp add: free_def chunk_from_mem_def then_walk_def)
qed (simp add: free_def chunk_from_mem_def)

end
