(* ===== verification/Heap_Program.thy ===== *)
theory Heap_Program
  imports Heap_Free
begin

text \<open>
  Programs on the freelist heap: the bytes that a program owns, stores to them, \<open>calloc\<close> and
  \<open>realloc\<close>, and the states that a program can reach. The properties of the freelist heap stand at
  the end.
\<close>

section \<open>The bytes of the program\<close>

fun owned :: "int \<Rightarrow> int \<Rightarrow> block list \<Rightarrow> int set" where
  "owned z b [] = {}"
| "owned z b ((s, f) # bs) = (if f then {} else {b + 2 * z..<b + s}) \<union> owned z (b + s) bs"

lemma owned_append [simp]: "owned z b (xs @ ys) = owned z b xs \<union> owned z (stop b xs) ys"
  by (induction z b xs rule: owned.induct) auto

lemma owned_split: "x \<in> owned z b bs \<Longrightarrow> \<exists>us s vs. bs = us @ (s, False) # vs \<and> stop b us + 2 * z \<le> x \<and> x < stop b us + s"
proof (induction z b bs rule: owned.induct)
  case (2 z b s f bs)
  show ?case
  proof (cases "x \<in> owned z (b + s) bs")
    case True
    with 2 obtain us t vs where "bs = us @ (t, False) # vs" "stop (b + s) us + 2 * z \<le> x" "x < stop (b + s) us + t" by auto
    then show ?thesis by (intro exI [of _ "(s, f) # us"]) simp
  next
    case False
    with 2 show ?thesis by (intro exI [of _ "[]"]) (auto split: if_splits)
  qed
qed simp

lemma heads_bases: "a \<in> heads z b bs \<Longrightarrow> \<exists>d \<in> set (bases b bs). a = d \<or> a = d + z"
  by (induction z b bs rule: heads.induct) auto

lemma meta_valid:
  assumes "cfg h" and "seg h (heap_base h) None bs" and "a \<in> meta h bs"
  shows "valid h a"
proof -
  have "valid h (limit h + Z h)"
    using cfg_simps [OF assms(1)] dvd_add [OF cfg_simps(7) [OF assms(1)] dvd_refl] by (simp add: valid_def)
  moreover have "valid h d \<and> valid h (d + Z h) \<and> valid h (d + 2 * Z h) \<and> valid h (d + 3 * Z h)"
    if d: "d \<in> set (bases (heap_base h) bs)" for d
  proof -
    obtain xs s f ys where "bs = xs @ (s, f) # ys" "d = stop (heap_base h) xs" using bases_split [OF d] by blast
    with seg_block(1) [OF assms(1)] assms(2) have "spans h d s" by blast
    from spans_valid(1-4) [OF assms(1) this] show ?thesis by simp
  qed
  ultimately show ?thesis
    using assms(3) frees_bases [OF assms(1,2)] by (auto simp: meta_def link_words_def dest!: heads_bases)
qed

text \<open>Metadata and the bytes of the program do not overlap.\<close>

lemma meta_clear:
  assumes "cfg h" and "seg h (heap_base h) None bs" and "a \<in> meta h bs" and "x \<in> owned (Z h) (heap_base h) bs"
  shows "\<not> (a \<le> x \<and> x < a + Z h)"
proof -
  define b where "b = heap_base h"
  obtain us s vs where bs: "bs = us @ (s, False) # vs" and x: "stop b us + 2 * Z h \<le> x" "x < stop b us + s"
    using owned_split [OF assms(4)] unfolding b_def by blast
  define c where "c = stop b us"
  note sg = assms(2) [folded b_def, unfolded bs] and z = seg_roomy(2) [OF assms(1)]
  note bl = seg_block [OF assms(1) sg, folded c_def]
  note ru = block_ranges [OF part_roomy [OF bl(8)] z, where b = b, folded c_def]
    and rv = block_ranges [OF seg_roomy(1) [OF assms(1) bl(7)] z, where b = "c + s"]
  have lim: "c + s \<le> limit h" using bl(1) by (simp add: spans_def)
  have "a < c + 2 * Z h \<or> c + s \<le> a"
  proof -
    consider "a \<in> heads (Z h) b us" | "a = c \<or> a = c + Z h" | "a \<in> heads (Z h) (c + s) vs" | "a = limit h + Z h"
      | d where "d \<in> set (frees b us)" "a = d + 2 * Z h \<or> a = d + 3 * Z h"
      | d where "d \<in> set (frees (c + s) vs)" "a = d + 2 * Z h \<or> a = d + 3 * Z h"
      using assms(3) by (auto simp: meta_def bs c_def link_words_def simp flip: b_def)
    then show ?thesis
    proof cases
      case (5 d)
      then show ?thesis using ru(3) [of d] ru(4) [of d] z by auto
    next
      case (6 d)
      then show ?thesis using rv(3) [of d] rv(4) [of d] z by auto
    qed (use ru(2) [of a] rv(2) [of a] z lim in auto)
  qed
  moreover have "Z h dvd a" "Z h dvd c + 2 * Z h"
    using meta_valid [OF assms(1-3)] spans_valid(3) [OF assms(1) bl(1)] by (simp_all add: valid_def)
  ultimately show ?thesis
    using multiples_apart [of "Z h" a "c + 2 * Z h"] z x unfolding c_def by (cases "a = stop b us + 2 * Z h") auto
qed

lemma hstep_owned:
  assumes "heap_ok h' bs" and "hstep h h' A" and "A \<subseteq> meta h bs" and "x \<in> owned (Z h) (heap_base h) bs"
  shows "contents (memory h') x = contents (memory h) x"
proof -
  note f = hstep_fields [OF assms(2)]
  have "cfg h'" "seg h' (heap_base h') None bs" using assms(1) by (simp_all add: heap_ok_def)
  moreover have "meta h' bs = meta h bs" by (simp add: meta_def f)
  ultimately have "\<not> (a \<le> x \<and> x < a + Z h)" if "a \<in> A" for a
    using meta_clear [of h' bs a x] that assms(3,4) by (auto simp: f)
  then show ?thesis using assms(2) by (auto simp: hstep_def)
qed

text \<open>A heap whose memory differs only in the bytes of the program is as good.\<close>

lemma part_same:
  assumes "\<And>a e. a \<in> heads (Z h) b bs \<Longrightarrow> rd h' e a = rd h e a" and "spans h' = spans h" and "Z h' = Z h" and "part h b p bs"
  shows "part h' b p bs"
  using assms(1,4)
proof (induction b bs arbitrary: p rule: bases.induct)
  case (2 b s f bs)
  then have "rd h' e b = rd h e b" "rd h' e (b + Z h) = rd h e (b + Z h)" for e by simp_all
  moreover have "part h' (b + s) (if f then Some s else None) bs" using 2 by simp
  ultimately show ?case using 2(3) assms(2,3) by (auto simp: size_of_def pfree_def)
qed simp

lemma heap_ok_frame:
  assumes "heap_ok h bs" and "arch_bytes m = arch_bytes (memory h)"
    and "\<And>x. x \<notin> owned (Z h) (heap_base h) bs \<Longrightarrow> contents m x = contents (memory h) x"
  shows "heap_ok (upd_memory h m) bs"
proof -
  define b h' where "b = heap_base h" and "h' = upd_memory h m"
  note ok = assms(1) [unfolded heap_ok_def, folded b_def]
  have cfg: "cfg h" and sg: "seg h b None bs" using ok by simp_all
  have cfg': "cfg h'" using cfg assms(2) by (simp add: cfg_def h'_def)
  have rd: "rd h' e a = rd h e a" if a: "a \<in> meta h bs" for a e
  proof -
    note fit = valid_fits [OF cfg meta_valid [OF cfg sg [unfolded b_def] a]]
    have "word_at m a (chunk_size_t_size h) e = word_at (memory h) a (chunk_size_t_size h) e"
      by (rule word_at_cong [OF fit assms(2)]) (use meta_clear [OF cfg sg [unfolded b_def] a] assms(3) in fastforce)
    then show ?thesis by (simp add: rd_def h'_def)
  qed
  have Z: "Z h' = Z h" "spans h' = spans h" "limit h' = limit h" "memory_endness h' = memory_endness h"
    by (simp_all add: h'_def spans_def fun_eq_iff)
  have "part h' b None bs" by (rule part_same [OF _ Z(2,1)]) (use rd sg in \<open>auto simp: meta_def b_def seg_def\<close>)
  moreover have "pfree h' (limit h) = pfree h (limit h)" using rd [of "limit h + Z h"] Z(1) by (simp add: pfree_def meta_def)
  ultimately have "seg h' b None bs" using sg Z(3) unfolding seg_def by simp
  moreover have "ring (fw h') (bk h') (frees b bs)"
    by (rule ring_cong [of "fw h" "bk h"]) (use ok rd Z(1,4) in \<open>auto simp: fw_def bk_def meta_def link_words_def b_def\<close>)
  ultimately show ?thesis using ok cfg' by (simp add: heap_ok_def h'_def b_def)
qed

lemma store_owned:
  assumes "heap_ok h bs" and "{a..<a + int n} \<subseteq> owned (Z h) (heap_base h) bs" and "fits (memory h) a n"
  obtains m where "mstore (memory h) a v n e = Inr m" and "heap_ok (upd_memory h m) bs" and "arch_bytes m = arch_bytes (memory h)"
    and "\<And>x. \<not> (a \<le> x \<and> x < a + int n) \<Longrightarrow> contents m x = contents (memory h) x"
    and "mload m a n e = Inr (v mod 256 ^ n)"
proof -
  from paged.store_ok [OF assms(3)] obtain m where m: "mstore (memory h) a v n e = Inr m" by blast
  have keep: "contents m x = contents (memory h) x" if "\<not> (a \<le> x \<and> x < a + int n)" for x
    using m that write_bytes_at [OF assms(3)] by (auto simp: mstore_def split: if_splits)
  have am: "arch_bytes m = arch_bytes (memory h)" using m by (auto simp: mstore_def split: if_splits)
  have "heap_ok (upd_memory h m) bs" by (rule heap_ok_frame [OF assms(1) am]) (use keep assms(2) in fastforce)
  from that [OF m this am keep paged.load_same [OF assms(3) m]] show ?thesis .
qed


section \<open>Blocks of the abstract operations\<close>

lemma carve_blocks:
  assumes "0 < z" and "n \<le> s"
  shows "sum_list (map fst (carve z n s)) = s" and "stop b (carve z n s) = b + s"
    and "owned z b (carve z n s) = {b + 2 * z..<b + (if 4 * z \<le> s - n then n else s)}"
    and "{b + 2 * z..<b + n} \<subseteq> owned z b (carve z n s)"
  using assms by (auto simp: carve_def stop_def)

lemma owned_carve:
  assumes "0 < z" and "n \<le> s"
  shows "owned z b (xs @ carve z n s @ ys) = owned z b (xs @ (s, True) # ys) \<union> owned z (stop b xs) (carve z n s)"
  using carve_blocks(2) [OF assms, of "stop b xs"] by (auto simp: Un_ac)

lemma owned_give_back: "owned z b (give_back xs s ys) = owned z b xs \<union> owned z (stop b xs + s) ys"
proof -
  have right: "owned z (b + fst (join_right t vs)) (snd (join_right t vs)) = owned z (b + t) vs" for b t vs
    by (auto simp: join_right_def add.assoc split: list.splits bool.splits)
  have left: "owned z b (fst (join_left us t)) = owned z b us \<and> stop b (fst (join_left us t)) + snd (join_left us t) = stop b us + t" for us t
    by (cases us rule: rev_cases) (auto simp: join_left_def split: bool.splits)
  show ?thesis
    using right [of "stop b xs" s ys] left [of xs "fst (join_right s ys)"]
    by (simp add: give_back_def Let_def case_prod_beta)
qed

text \<open>Releasing what was allocated last gives the blocks back.\<close>

lemma give_back_carve:
  assumes "apart (xs @ (s, True) # ys)" and "carve z n s = (t, False) # rest"
  shows "give_back xs t (rest @ ys) = xs @ (s, True) # ys"
proof -
  have "xs = [] \<or> \<not> snd (last xs)" "ys = [] \<or> \<not> snd (hd ys)" using assms(1) by (auto simp: apart_append)
  moreover from this(1) have "tag None xs = None" by (cases xs rule: rev_cases) (auto split: if_splits)
  ultimately show ?thesis
    using assms(2) give_back_simps(3,4) [of xs] by (auto simp: carve_def split: if_splits)
qed

lemma carve_first: "\<exists>t rest. carve z n s = (t, False) # rest"
  by (simp add: carve_def)

section \<open>The interface of the allocator\<close>

text \<open>
  An allocator on blocks: what a client relies on is where the block is, which blocks there are
  afterwards, and that the bytes of the used blocks are left alone.
\<close>

locale block_allocator =
  fixes inv :: "'h \<Rightarrow> block list \<Rightarrow> bool" and base :: "'h \<Rightarrow> int" and word :: "'h \<Rightarrow> int"
    and need :: "'h \<Rightarrow> int \<Rightarrow> int" and alloc :: "int \<Rightarrow> 'h \<Rightarrow> (int \<times> 'h) res"
    and release :: "int \<Rightarrow> 'h \<Rightarrow> 'h res option" and byte :: "'h \<Rightarrow> int \<Rightarrow> 8 word"
  assumes inv_apart: "inv h bs \<Longrightarrow> apart bs"
    and word_pos: "inv h bs \<Longrightarrow> 0 < word h"
    and alloc_fails: "inv h bs \<Longrightarrow> 0 \<le> req \<Longrightarrow> first_fit (need h req) bs = None \<Longrightarrow> alloc req h = Inr (0, h)"
    and alloc_fits: "inv h bs \<Longrightarrow> 0 \<le> req \<Longrightarrow> first_fit (need h req) bs = Some (xs, s, ys) \<Longrightarrow>
      bs' = xs @ carve (word h) (need h req) s @ ys \<Longrightarrow>
      \<exists>h'. alloc req h = Inr (stop (base h) xs + 2 * word h, h') \<and> inv h' bs' \<and> base h' = base h \<and> word h' = word h
        \<and> (\<forall>x \<in> owned (word h) (base h) bs'. byte h' x = byte h x)"
    and release_used: "inv h (xs @ (s, False) # ys) \<Longrightarrow> bs' = give_back xs s ys \<Longrightarrow>
      \<exists>h'. release (stop (base h) xs + 2 * word h) h = Some (Inr h') \<and> inv h' bs' \<and> base h' = base h \<and> word h' = word h
        \<and> (\<forall>x \<in> owned (word h) (base h) bs'. byte h' x = byte h x)"
begin

lemma alloc_release:
  assumes "inv h bs" and "0 \<le> req" and "first_fit (need h req) bs = Some (xs, s, ys)"
  shows "\<exists>h1 h2. alloc req h = Inr (stop (base h) xs + 2 * word h, h1)
    \<and> release (stop (base h) xs + 2 * word h) h1 = Some (Inr h2) \<and> inv h2 bs
    \<and> (\<forall>x \<in> owned (word h) (base h) bs. byte h2 x = byte h x)"
proof -
  note bs = first_fit_Some [OF assms(3)]
  obtain t rest where t: "carve (word h) (need h req) s = (t, False) # rest" using carve_first by blast
  from alloc_fits [OF assms refl] obtain h1 where h1: "alloc req h = Inr (stop (base h) xs + 2 * word h, h1)"
    "inv h1 (xs @ carve (word h) (need h req) s @ ys)" "base h1 = base h" "word h1 = word h"
    "\<forall>x \<in> owned (word h) (base h) (xs @ carve (word h) (need h req) s @ ys). byte h1 x = byte h x" by blast
  have i1: "inv h1 (xs @ (t, False) # rest @ ys)" using h1(2) by (simp add: t)
  have gb: "bs = give_back xs t (rest @ ys)" using give_back_carve [OF _ t] inv_apart [OF assms(1)] bs(1) by simp
  from release_used [OF i1 gb] h1(3,4) obtain h2 where h2: "release (stop (base h) xs + 2 * word h) h1 = Some (Inr h2)"
    "inv h2 bs" "\<forall>x \<in> owned (word h) (base h) bs. byte h2 x = byte h1 x" by auto
  have "owned (word h) (base h) bs \<subseteq> owned (word h) (base h) (xs @ carve (word h) (need h req) s @ ys)"
    using owned_carve [OF word_pos [OF assms(1)] bs(2)] bs(1) by blast
  with h1(5) h2(3) have "\<forall>x \<in> owned (word h) (base h) bs. byte h2 x = byte h x" by auto
  with h1(1) h2(1,2) show ?thesis by blast
qed

end

interpretation pt: block_allocator heap_ok heap_base Z make_chunk_size "\<lambda>req. malloc (Conc req)" free "\<lambda>h. contents (memory h)"
proof
  fix h bs req xs s ys bs'
  show "apart bs" if "heap_ok h bs" using that by (simp add: heap_ok_def)
  show "0 < Z h" if "heap_ok h bs" using that seg_roomy(2) by (simp add: heap_ok_def)
  show "malloc (Conc req) h = Inr (0, h)" if "heap_ok h bs" "0 \<le> req" "first_fit (make_chunk_size h req) bs = None"
    using malloc_ok [OF that(1,2) refl] that(3) by simp
  show "\<exists>h'. malloc (Conc req) h = Inr (stop (heap_base h) xs + 2 * Z h, h') \<and> heap_ok h' bs' \<and> heap_base h' = heap_base h \<and> Z h' = Z h
      \<and> (\<forall>x \<in> owned (Z h) (heap_base h) bs'. contents (memory h') x = contents (memory h) x)"
    if "heap_ok h bs" "0 \<le> req" "first_fit (make_chunk_size h req) bs = Some (xs, s, ys)"
      "bs' = xs @ carve (Z h) (make_chunk_size h req) s @ ys"
  proof -
    from malloc_ok [OF that(1,2) refl] that(3,4) obtain h' A where h':
      "malloc (Conc req) h = Inr (stop (heap_base h) xs + 2 * Z h, h')" "heap_ok h' bs'" "hstep h h' A" "A \<subseteq> meta h bs'" by auto
    with hstep_owned [OF h'(2-4)] hstep_fields [OF h'(3)] show ?thesis by auto
  qed
  show "\<exists>h'. free (stop (heap_base h) xs + 2 * Z h) h = Some (Inr h') \<and> heap_ok h' bs' \<and> heap_base h' = heap_base h \<and> Z h' = Z h
      \<and> (\<forall>x \<in> owned (Z h) (heap_base h) bs'. contents (memory h') x = contents (memory h) x)"
    if used: "heap_ok h (xs @ (s, False) # ys)" "bs' = give_back xs s ys"
  proof -
    from free_ok [OF used] obtain h' A where h': "free (stop (heap_base h) xs + 2 * Z h) h = Some (Inr h')" "heap_ok h' bs'"
      "hstep h h' A" "A \<subseteq> meta h bs'" .
    with hstep_owned [OF h'(2-4)] hstep_fields [OF h'(3)] show ?thesis by auto
  qed
qed

section \<open>Walking the chunks\<close>

fun picks :: "(bool \<Rightarrow> bool) \<Rightarrow> int \<Rightarrow> block list \<Rightarrow> chunk list" where
  "picks Q b [] = []"
| "picks Q b ((s, f) # bs) = (if Q f then b # picks Q (b + s) bs else picks Q (b + s) bs)"

lemma picks_eqs: "picks (\<lambda>_. True) b bs = bases b bs" "picks (\<lambda>f. f) b bs = frees b bs"
  by (induction b bs rule: bases.induct) simp_all

lemma picks_split: "d \<in> set (picks Q b bs) \<Longrightarrow> \<exists>xs s f ys. bs = xs @ (s, f) # ys \<and> d = stop b xs \<and> Q f"
proof (induction Q b bs rule: picks.induct)
  case (2 Q b s f bs)
  show ?case
  proof (cases "Q f \<and> d = b")
    case True
    then show ?thesis by (intro exI [of _ "[]"]) simp
  next
    case False
    with 2 obtain xs t g ys where "bs = xs @ (t, g) # ys" "d = stop (b + s) xs" "Q g" by (auto split: if_splits)
    then show ?thesis by (intro exI [of _ "(s, f) # xs"]) simp
  qed
qed simp

lemma iterate_blocks:
  assumes "cfg h" and "seg h b p bs" and "\<And>xs s f ys. bs = xs @ (s, f) # ys \<Longrightarrow> cond (stop b xs) = Inr (Q f)"
  shows "iterate h cond (neighbour h b) = Some (Inr (picks Q b bs))"
  using assms(2,3)
proof (induction b bs arbitrary: p rule: bases.induct)
  case (1 b)
  then have "neighbour h b = None" by (simp add: seg_def)
  then show ?case by (subst iterate.simps) simp
next
  case (2 b s f bs)
  have sg: "seg h (b + s) (if f then Some s else None) bs" and sp: "spans h b s" "size_of h b = s" using 2(2) by (simp_all add: seg_Cons)
  have "b \<noteq> limit h" using seg_end [OF assms(1) 2(2)] by simp
  then have nb: "neighbour h b = Some b" by simp
  have "cond (stop (b + s) xs) = Inr (Q g)" if "bs = xs @ (t, g) # ys" for xs t g ys
    using 2(3) [of "(s, f) # xs" t g ys] that by simp
  then have IH: "iterate h cond (neighbour h (b + s)) = Some (Inr (picks Q (b + s) bs))" by (rule 2(1) [OF sg])
  have "cond b = Inr (Q f)" using 2(3) [of "[]" s f bs] by simp
  then show ?case unfolding nb by (subst iterate.simps) (use next_chunk_eq [OF assms(1) sp] IH in simp)
qed

lemma walks:
  assumes "heap_ok h bs"
  shows "chunks h = Some (Inr (bases (heap_base h) bs))" and "free_chunks h = Some (Inr (frees (heap_base h) bs))"
    and "allocated_chunks h = Some (Inr (picks Not (heap_base h) bs))"
proof -
  define b where "b = heap_base h"
  have cfg: "cfg h" and sg: "seg h b None bs" using assms by (simp_all add: heap_ok_def b_def)
  have nb: "neighbour h b = Some b" using cfg_simps(3,9) [OF cfg] by (simp add: b_def)
  have fr: "is_free h (stop b xs) = Inr f" if "bs = xs @ (s, f) # ys" for xs s f ys
    using seg_block [OF cfg sg [unfolded that]] is_free_eq [OF cfg] by simp
  show "chunks h = Some (Inr (bases (heap_base h) bs))"
    using iterate_blocks [OF cfg sg, of "\<lambda>_. Inr True" "\<lambda>_. True"] nb by (simp add: chunks_def picks_eqs b_def)
  show "free_chunks h = Some (Inr (frees (heap_base h) bs))"
    using iterate_blocks [OF cfg sg, of "is_free h" "\<lambda>f. f"] nb fr by (simp add: free_chunks_def picks_eqs b_def)
  show "allocated_chunks h = Some (Inr (picks Not (heap_base h) bs))"
    using iterate_blocks [OF cfg sg, of "\<lambda>c. map_res Not (is_free h c)" Not] nb fr by (simp add: allocated_chunks_def b_def)
qed


section \<open>Live allocations\<close>

text \<open>What a program sees of the heap: base and size of the blocks that it holds.\<close>

fun used :: "int \<Rightarrow> block list \<Rightarrow> (chunk \<times> int) list" where
  "used b [] = []"
| "used b ((s, f) # bs) = (if f then used (b + s) bs else (b, s) # used (b + s) bs)"

lemma used_append [simp]: "used b (xs @ ys) = used b xs @ used (stop b xs) ys"
  by (induction b xs rule: used.induct) simp_all

lemma used_split: "(c, s) \<in> set (used b bs) \<Longrightarrow> \<exists>xs ys. bs = xs @ (s, False) # ys \<and> c = stop b xs"
proof (induction b bs rule: used.induct)
  case (2 b t f bs)
  show ?case
  proof (cases "(c, s) \<in> set (used (b + t) bs)")
    case True
    with 2 obtain xs ys where "bs = xs @ (s, False) # ys" "c = stop (b + t) xs" by (auto split: if_splits)
    then show ?thesis by (intro exI [of _ "(t, f) # xs"] exI [of _ ys]) simp
  next
    case False
    with 2(3) show ?thesis by (intro exI [of _ "[]"] exI [of _ bs]) (auto split: if_splits)
  qed
qed simp

lemma owned_used: "owned z b bs = (\<Union>(c, s) \<in> set (used b bs). {c + 2 * z..<c + s})"
  by (induction z b bs rule: owned.induct) simp_all

lemma used_range:
  assumes "roomy z bs" and "0 < z" and "(c, s) \<in> set (used b bs)"
  shows "b \<le> c" and "c + s \<le> stop b bs" and "4 * z \<le> s"
proof -
  obtain xs ys where bs: "bs = xs @ (s, False) # ys" "c = stop b xs" using used_split [OF assms(3)] by blast
  then have r: "roomy z xs" "roomy z ys" "4 * z \<le> s" using assms(1) by simp_all
  show "b \<le> c" "c + s \<le> stop b bs" "4 * z \<le> s"
    using block_ranges(1) [OF r(1) assms(2), of b] block_ranges(1) [OF r(2) assms(2), of "c + s"] r(3) by (simp_all add: bs)
qed

lemma used_apart:
  assumes "roomy z bs" and "0 < z" and "(c, s) \<in> set (used b bs)" and "(d, t) \<in> set (used b bs)"
  shows "c = d \<and> s = t \<or> c + s \<le> d \<or> d + t \<le> c"
  using assms(1,3,4)
proof (induction b bs rule: used.induct)
  case (2 b u f bs)
  have r: "roomy z bs" using 2(3) by simp
  show ?case using 2 used_range [OF r assms(2), of _ _ "b + u"] by (auto split: if_splits)
qed simp

lemma used_give_back: "set (used b (give_back xs s ys)) = set (used b xs) \<union> set (used (stop b xs + s) ys)"
proof -
  have right: "used (b + fst (join_right t vs)) (snd (join_right t vs)) = used (b + t) vs" for b t vs
    by (auto simp: join_right_def add.assoc split: list.splits bool.splits)
  have left: "used b (fst (join_left us t)) = used b us \<and> stop b (fst (join_left us t)) + snd (join_left us t) = stop b us + t" for us t
    by (cases us rule: rev_cases) (auto simp: join_left_def split: bool.splits)
  show ?thesis
    using right [of "stop b xs" s ys] left [of xs "fst (join_right s ys)"]
    by (simp add: give_back_def Let_def case_prod_beta)
qed

abbreviation live :: "pt_heap \<Rightarrow> block list \<Rightarrow> (chunk \<times> int) set" where
  "live h bs \<equiv> set (used (heap_base h) bs)"

lemma live_block:
  assumes "heap_ok h bs" and "(c, s) \<in> live h bs"
  shows "spans h c s" and "size_of h c = s" and "pfree h (c + s) = False"
proof -
  obtain xs ys where bs: "bs = xs @ (s, False) # ys" "c = stop (heap_base h) xs" using used_split [OF assms(2)] by blast
  have "cfg h" "seg h (heap_base h) None (xs @ (s, False) # ys)" using assms(1) by (simp_all add: heap_ok_def bs)
  from seg_block [OF this] show "spans h c s" "size_of h c = s" "pfree h (c + s) = False" by (simp_all add: bs)
qed

lemma malloc_live:
  assumes "heap_ok h bs" and "0 \<le> req"
  shows "malloc (Conc req) h = Inr (0, h) \<or>
    (\<exists>c t h' A bs'. malloc (Conc req) h = Inr (c + 2 * Z h, h') \<and> heap_ok h' bs' \<and> make_chunk_size h req \<le> t
       \<and> live h bs' = insert (c, t) (live h bs) \<and> (\<forall>(d, u) \<in> live h bs. c + t \<le> d \<or> d + u \<le> c)
       \<and> hstep h h' A \<and> A \<subseteq> meta h bs')"
proof (cases "first_fit (make_chunk_size h req) bs")
  case None
  then show ?thesis using malloc_ok [OF assms refl] by simp
next
  case (Some r)
  define n where "n = make_chunk_size h req"
  obtain xs s ys where r: "r = (xs, s, ys)" by (cases r)
  note bs = first_fit_Some [OF Some [unfolded r], folded n_def]
  define bs' where "bs' = xs @ carve (Z h) n s @ ys"
  obtain h' A where h': "malloc (Conc req) h = Inr (stop (heap_base h) xs + 2 * Z h, h')" "heap_ok h' bs'" "hstep h h' A" "A \<subseteq> meta h bs'"
    using malloc_ok [OF assms refl] Some r by (auto simp: bs'_def n_def)
  define c where "c = stop (heap_base h) xs"
  define t where "t = (if 4 * Z h \<le> s - n then n else s)"
  have z: "0 < Z h" and nb: "heap_base h' = heap_base h" and sz: "Z h' = Z h"
    using assms(1) seg_roomy(2) hstep_fields [OF h'(3)] by (simp_all add: heap_ok_def)
  have new: "live h bs' = insert (c, t) (live h bs)"
    by (auto simp: bs'_def bs(1) carve_def t_def c_def)
  have rm: "roomy (Z h) bs'" using seg_roomy(1) [of h' "heap_base h'" None bs'] h'(2) sz by (simp add: heap_ok_def)
  have "c + t \<le> d \<or> d + u \<le> c" if du: "(d, u) \<in> live h bs" for d u
  proof -
    have "c \<noteq> d"
    proof
      assume "c = d"
      obtain us vs where u: "bs = us @ (u, False) # vs" "d = stop (heap_base h) us" using used_split [OF du] by blast
      have "cfg h" "seg h (heap_base h) None bs" using assms(1) by (simp_all add: heap_ok_def)
      with seg_block(2,5) [of h "heap_base h" None xs s True ys] seg_block(2,5) [of h "heap_base h" None us u False vs]
        bs(1) u \<open>c = d\<close> show False by (simp add: c_def)
    qed
    moreover have "(c, t) \<in> live h bs'" "(d, u) \<in> live h bs'" using that new by auto
    ultimately show ?thesis using used_apart [OF rm z] by blast
  qed
  moreover have "n \<le> t" using bs(2) by (simp add: t_def)
  ultimately show ?thesis using h' new by (intro disjI2 exI [of _ c] exI [of _ t] exI [of _ h'] exI [of _ A] exI [of _ bs'])
    (auto simp: c_def n_def)
qed

lemma free_live:
  assumes "heap_ok h bs" and "(c, s) \<in> live h bs"
  shows "\<exists>h' A bs'. free (c + 2 * Z h) h = Some (Inr h') \<and> heap_ok h' bs' \<and> live h bs' = live h bs - {(c, s)}
    \<and> hstep h h' A \<and> A \<subseteq> meta h bs'"
proof -
  obtain xs ys where bs: "bs = xs @ (s, False) # ys" "c = stop (heap_base h) xs" using used_split [OF assms(2)] by blast
  have z: "0 < Z h" and r: "roomy (Z h) bs" using assms(1) seg_roomy by (auto simp: heap_ok_def)
  have r': "roomy (Z h) xs" "roomy (Z h) ys" "4 * Z h \<le> s" using r by (simp_all add: bs(1))
  from free_ok [OF assms(1) [unfolded bs(1)] refl] obtain h' A where h': "free (c + 2 * Z h) h = Some (Inr h')"
    "heap_ok h' (give_back xs s ys)" "hstep h h' A" "A \<subseteq> meta h (give_back xs s ys)" unfolding bs(2) .
  have "(c, s) \<notin> set (used (heap_base h) xs)" "(c, s) \<notin> set (used (c + s) ys)"
    using used_range(2,3) [OF r'(1) z, of c s "heap_base h"] used_range(1) [OF r'(2) z, of c s "c + s"] r'(3) z bs(2) by auto
  then have "live h (give_back xs s ys) = live h bs - {(c, s)}" by (auto simp: used_give_back bs)
  with h' show ?thesis by blast
qed


section \<open>calloc and realloc\<close>

definition keeps :: "pt_heap \<Rightarrow> pt_heap \<Rightarrow> int set \<Rightarrow> bool" where
  "keeps h h' S \<longleftrightarrow> heap_base h' = heap_base h \<and> heap_size h' = heap_size h \<and> chunk_size_t_size h' = chunk_size_t_size h
     \<and> (\<forall>x \<in> S. contents (memory h') x = contents (memory h) x)"

lemma keeps_hstep:
  assumes "heap_ok h' bs'" and "hstep h h' A" and "A \<subseteq> meta h bs'"
  shows "keeps h h' (owned (Z h) (heap_base h) bs')"
  using hstep_owned [OF assms] hstep_fields [OF assms(2)] by (simp add: keeps_def)

lemma keeps_trans: "keeps h h1 S \<Longrightarrow> keeps h1 h2 T \<Longrightarrow> keeps h h2 (S \<inter> T)"
  by (simp add: keeps_def)

lemma keeps_mono: "keeps h h' S \<Longrightarrow> T \<subseteq> S \<Longrightarrow> keeps h h' T"
  by (auto simp: keeps_def)

lemma live_fits:
  assumes "heap_ok h bs" and "(c, t) \<in> live h bs" and "int n + 2 * Z h \<le> t"
  shows "fits (memory h) (c + 2 * Z h) n" and "{c + 2 * Z h..<c + 2 * Z h + int n} \<subseteq> owned (Z h) (heap_base h) bs"
proof -
  have cfg: "cfg h" using assms(1) by (simp add: heap_ok_def)
  show "fits (memory h) (c + 2 * Z h) n"
    using live_block(1) [OF assms(1,2)] cfg_simps [OF cfg] assms(3) by (auto simp: spans_def)
  show "{c + 2 * Z h..<c + 2 * Z h + int n} \<subseteq> owned (Z h) (heap_base h) bs"
    unfolding owned_used using assms(2,3) by fastforce
qed

lemma calloc_live:
  assumes "heap_ok h bs" and "len = wrap h (nmemb * sz)"
  shows "calloc nmemb sz h = Inr (0, h) \<or>
    (\<exists>c t h' bs'. calloc nmemb sz h = Inr (c + 2 * Z h, h') \<and> heap_ok h' bs' \<and> len + 2 * Z h \<le> t
       \<and> live h bs' = insert (c, t) (live h bs) \<and> (\<forall>(d, u) \<in> live h bs. c + t \<le> d \<or> d + u \<le> c)
       \<and> (\<forall>x \<in> {c + 2 * Z h..<c + 2 * Z h + len}. contents (memory h') x = 0)
       \<and> keeps h h' (owned (Z h) (heap_base h) bs))"
proof -
  have cfg: "cfg h" and tot: "0 \<le> len" using assms by (simp_all add: heap_ok_def wrap_def)
  note z = seg_roomy(2) [OF cfg]
  from malloc_live [OF assms(1) tot] show ?thesis
  proof
    assume "malloc (Conc len) h = Inr (0, h)"
    then show ?thesis using assms(2) by (simp add: calloc_def Let_def)
  next
    assume "\<exists>c t h' A bs'. malloc (Conc len) h = Inr (c + 2 * Z h, h') \<and> heap_ok h' bs' \<and> make_chunk_size h len \<le> t
       \<and> live h bs' = insert (c, t) (live h bs) \<and> (\<forall>(d, u) \<in> live h bs. c + t \<le> d \<or> d + u \<le> c)
       \<and> hstep h h' A \<and> A \<subseteq> meta h bs'"
    then obtain c t h1 A bs' where m: "malloc (Conc len) h = Inr (c + 2 * Z h, h1)" "heap_ok h1 bs'" "make_chunk_size h len \<le> t"
      "live h bs' = insert (c, t) (live h bs)" "\<forall>(d, u) \<in> live h bs. c + t \<le> d \<or> d + u \<le> c"
      "hstep h h1 A" "A \<subseteq> meta h bs'" by blast
    note f = hstep_fields [OF m(6)] and k = keeps_hstep [OF m(2,6,7)]
    have t: "len + 2 * Z h \<le> t" using make_chunk_size(3) [OF cfg tot refl] m(3) by linarith
    have liv: "(c, t) \<in> live h1 bs'" using m(4) f by simp
    have sub: "owned (Z h) (heap_base h) bs \<subseteq> owned (Z h) (heap_base h) bs'" unfolding owned_used m(4) by auto
    note lf = live_fits [OF m(2) liv, of "nat len", unfolded f(1,3)]
    have lf': "fits (memory h1) (c + 2 * Z h) (nat len)"
      "{c + 2 * Z h..<c + 2 * Z h + int (nat len)} \<subseteq> owned (Z h1) (heap_base h1) bs'"
      using lf t tot f by simp_all
    from store_owned [OF m(2) lf'(2,1), of 0 Iend_BE] obtain g where g: "mstore (memory h1) (c + 2 * Z h) 0 (nat len) Iend_BE = Inr g"
      "heap_ok (upd_memory h1 g) bs'" "\<And>x. \<not> (c + 2 * Z h \<le> x \<and> x < c + 2 * Z h + len) \<Longrightarrow> contents g x = contents (memory h1) x"
      using tot by auto
    have nz: "c + 2 * Z h \<noteq> 0" using live_block(1) [OF m(2) liv] f cfg_simps(8) [OF cfg] z by (auto simp: spans_def)
    have zero: "contents g x = 0" if "c + 2 * Z h \<le> x" "x < c + 2 * Z h + len" for x
      using g(1) that write_bytes_at [OF lf'(1)] by (auto simp: mstore_def split: if_splits)
    have call: "calloc nmemb sz h = Inr (c + 2 * Z h, upd_memory h1 g)"
    proof (cases "len = 0")
      case True
      then have "upd_memory h1 g = h1" using g(1) by (simp add: mstore_def)
      then show ?thesis using True m(1) nz assms(2) by (simp add: calloc_def Let_def)
    next
      case False
      then show ?thesis using m(1) nz g(1) assms(2) by (simp add: calloc_def Let_def)
    qed
    have "\<not> (c + 2 * Z h \<le> x \<and> x < c + 2 * Z h + len)" if "x \<in> owned (Z h) (heap_base h) bs" for x
      using that m(5) t z unfolding owned_used by fastforce
    then have "keeps h (upd_memory h1 g) (owned (Z h) (heap_base h) bs)"
      using k g(3) sub by (auto simp: keeps_def)
    then show ?thesis using call g(2) t m(4,5) zero
      by (intro disjI2 exI [of _ c] exI [of _ t] exI [of _ "upd_memory h1 g"] exI [of _ bs']) auto
  qed
qed

text \<open>A used block is split in two used blocks, as \<open>realloc\<close> does before it releases the second.\<close>

lemma split_used:
  assumes "heap_ok h (xs @ (s, False) # ys)" and "c = stop (heap_base h) xs" and "4 * Z h \<le> n" and "2 * Z h dvd n"
    and "4 * Z h \<le> s - n" and "bs' = xs @ (n, False) # (s - n, False) # ys"
  obtains h1 h2 h3 A where "set_size c n (Some False) h = Inr h1" and "next_chunk h1 c = Inr (Some (c + n))"
    and "set_size (c + n) (s - n) (Some False) h1 = Inr h2" and "set_prev_freeness (c + n) False h2 = Inr h3"
    and "heap_ok h3 bs'" and "hstep h h3 A" and "A \<subseteq> meta h bs'"
proof -
  define b where "b = heap_base h"
  note ok = assms(1) [unfolded heap_ok_def, folded b_def]
  have cfg: "cfg h" and sg: "seg h b None (xs @ (s, False) # ys)" and c: "c = stop b xs" using ok assms(2) by (simp_all add: b_def)
  note bl = seg_block [OF cfg sg, folded c] and z = seg_roomy(2) [OF cfg]
  have sp: "spans h (c + n) (s - n)" "spans h c n"
    using bl(1) assms(3-5) z by (auto simp: spans_def intro: dvd_add dvd_diff)
  note v = spans_valid [OF cfg bl(1)] and vn = spans_valid [OF cfg sp(2)]
  have nl: "c + n \<noteq> limit h" using bl(1) assms(5) z by (auto simp: spans_def)
  have e: "c + n + (s - n) = c + s" by simp
  from set_size_step [OF cfg sp(2), of False "Some False"] obtain h1 where h1: "set_size c n (Some False) h = Inr h1"
    "hstep h h1 (size_words h c n (Some False) False)" "size_of h1 c = n" "pfree h1 c = pfree h c" "pfree h1 (c + n) = False"
    "free_head_chunk h1 = free_head_chunk h" by (metis option.simps(5))
  note f1 = hstep_fields [OF h1(2)]
  have c1: "cfg h1" "spans h1 (c + n) (s - n)" "spans h1 c n" using cfg f1 sp by (simp_all add: hstep_spans [OF h1(2)])
  from set_size_step [OF c1(1,2), of False "Some False"] obtain h2 where h2: "set_size (c + n) (s - n) (Some False) h1 = Inr h2"
    "hstep h1 h2 (size_words h1 (c + n) (s - n) (Some False) False)" "size_of h2 (c + n) = s - n" "pfree h2 (c + s) = False"
    "c + s \<noteq> limit h1 \<longrightarrow> size_of h2 (c + s) = size_of h1 (c + s)" "free_head_chunk h2 = free_head_chunk h1"
    unfolding e by (metis option.simps(5))
  note f2 = hstep_fields [OF h2(2)]
  have c2: "cfg h2" "valid h2 (c + n + Z h2)" using c1(1) f2 vn(5) f1 by simp_all
  from set_prev_freeness_step [OF c2, of False] obtain h3 where h3: "set_prev_freeness (c + n) False h2 = Inr h3"
    "hstep h2 h3 {c + n + Z h2}" "size_of h3 (c + n) = size_of h2 (c + n)" "pfree h3 (c + n) = False"
    "free_head_chunk h3 = free_head_chunk h2" .
  define B where "B = size_words h1 (c + n) (s - n) (Some False) False \<union> {c + n + Z h2}"
  define A where "A = size_words h c n (Some False) False \<union> B"
  have st13: "hstep h1 h3 B" unfolding B_def by (rule hstep_trans [OF h2(2) h3(2)])
  have st: "hstep h h3 A" unfolding A_def by (rule hstep_trans [OF h1(2) st13])
  have B: "B = {c + n + Z h, c + s + Z h}" and A: "A = {c + Z h, c + n + Z h, c + s + Z h}"
    by (auto simp: A_def B_def size_words_def f1 f2)
  have own: "size_of h3 c = n" "pfree h3 c = pfree h c"
    using hstep_size_of [OF st13 c1(1), of c] h1(3,4) v(2) assms(3,5) z by (auto simp: f1 B)
  have rdc: "rd h3 Iend_BE c = rd h Iend_BE c" by (rule hstep_rd [OF st cfg v(1)]) (use A assms(3,5) z in auto)
  have "valid h2 (c + s + Z h2)" using v(5) f1 f2 by simp
  then have nxt: "pfree h3 (c + s) = False" "c + s \<noteq> limit h \<longrightarrow> size_of h3 (c + s) = size_of h (c + s)"
    using hstep_size_of [OF h3(2) c2(1), of "c + s"] h2(4,5) hstep_size_of(1) [OF h1(2) cfg v(5)] assms(3,5) z
    by (auto simp: f1 f2 size_words_def)
  have "part h3 b None xs" by (rule part_below [OF cfg bl(8) st]) (use A c assms(3,5) z in auto)
  moreover have "seg h3 (c + s) None ys"
    by (rule seg_retag [OF cfg bl(7) st]) (use A nxt assms(3,5) z in auto)
  ultimately have sg3: "seg h3 b None bs'"
    unfolding assms(6) using sp own rdc bl(3,4) h3(3,4) h2(3) c by (simp add: seg_append seg_Cons hstep_spans [OF st])
  have "c + s + Z h \<in> heads (Z h) (c + s) ys" if "c + s \<noteq> limit h" using that bl(6) by (cases ys) auto
  then have sub: "A \<subseteq> heads (Z h) b bs' \<union> {limit h + Z h}" using c by (cases "c + s = limit h") (auto simp: A assms(6))
  note f3 = hstep_fields [OF st]
  have fr: "frees b bs' = frees b (xs @ (s, False) # ys)" by (simp add: assms(6) add.assoc)
  have "hstep h3 h3 (link_words (Z h) {})" by (simp add: link_words_def)
  moreover have "ring (fw h3) (bk h3) (frees b bs')"
    by (rule ring_cong [of "fw h" "bk h"])
       (use ok fr links_after_header(2) [OF cfg st sub sg3] frees_bases [of h3 b None bs'] cfg f3 sg3 in \<open>auto simp: links_def\<close>)
  moreover have "free_head_chunk h3 = head_of (frees b bs')" unfolding fr using h3(5) h2(6) h1(6) ok by simp
  moreover have "apart bs'" using ok by (auto simp: assms(6) apart_append)
  ultimately have "heap_ok h3 bs'" "hstep h h3 (A \<union> link_words (Z h) {})" "A \<union> link_words (Z h) {} \<subseteq> meta h bs'"
    using heap_okI [OF cfg b_def st sub sg3, of h3 "{}"] by simp_all
  moreover have "next_chunk h1 c = Inr (Some (c + n))" using next_chunk_eq [OF c1(1,3) h1(3)] nl f1 by simp
  ultimately show ?thesis using that [OF h1(1) _ h2(1) h3(1)] by blast
qed


text \<open>The three outcomes of \<open>realloc\<close> on a block of the program: it moves, it shrinks, or it stays.\<close>

definition moved :: "pt_heap \<Rightarrow> block list \<Rightarrow> chunk \<Rightarrow> int \<Rightarrow> chunk \<Rightarrow> int \<Rightarrow> pt_heap \<Rightarrow> bool" where
  "moved h bs c s d t h' \<longleftrightarrow>
     (\<exists>bs'. heap_ok h' bs' \<and> live h bs' = insert (d, t) (live h bs - {(c, s)}))
     \<and> (\<forall>i. 0 \<le> i \<and> i < min s t - 2 * Z h \<longrightarrow>
          contents (memory h') (d + 2 * Z h + i) = contents (memory h) (c + 2 * Z h + i))
     \<and> keeps h h' (\<Union>(e, u) \<in> live h bs - {(c, s)}. {e + 2 * Z h..<e + u})"

lemma realloc_grows:
  assumes "heap_ok h bs" and "(c, s) \<in> live h bs" and "0 < n" and "s < make_chunk_size h n"
  shows "realloc (c + 2 * Z h) (Conc n) h = Some (Inr (0, h)) \<or>
    (\<exists>d t h'. realloc (c + 2 * Z h) (Conc n) h = Some (Inr (d + 2 * Z h, h')) \<and> make_chunk_size h n \<le> t \<and> moved h bs c s d t h')"
proof -
  have cfg: "cfg h" and n: "0 \<le> n" using assms by (simp_all add: heap_ok_def)
  note z = seg_roomy(2) [OF cfg] and bl = live_block [OF assms(1,2)]
  note v = spans_valid [OF cfg bl(1)]
  have s: "4 * Z h \<le> s" using bl(1) by (simp add: spans_def)
  define k where "k = nat (s - 2 * Z h)"
  have k: "int k = s - 2 * Z h" using s z by (simp add: k_def)
  have start: "chunk_from_mem h (c + 2 * Z h) = Some c" "get_size h c = Inr s"
    using v(10) z get_size_eq [OF cfg v(2)] bl(2) by (simp_all add: chunk_from_mem_def)
  from malloc_live [OF assms(1) n] consider "malloc (Conc n) h = Inr (0, h)"
    | d t h1 A bs1 where "malloc (Conc n) h = Inr (d + 2 * Z h, h1)" "heap_ok h1 bs1" "make_chunk_size h n \<le> t"
      "live h bs1 = insert (d, t) (live h bs)" "\<forall>(e, u) \<in> live h bs. d + t \<le> e \<or> e + u \<le> d" "hstep h h1 A" "A \<subseteq> meta h bs1"
    by blast
  then show ?thesis
  proof cases
    case 1
    then show ?thesis using start assms(3,4) by (simp add: realloc_def Let_def then_walk_def)
  next
    case (2 d t h1 A bs1)
    note f = hstep_fields [OF 2(6)] and k1 = keeps_hstep [OF 2(2,6,7)]
    have live1: "(d, t) \<in> live h1 bs1" "(c, s) \<in> live h1 bs1" using 2(4) assms(2) f by auto
    have fit: "fits (memory h1) (c + 2 * Z h) k" "fits (memory h1) (d + 2 * Z h) k"
      and sub: "{d + 2 * Z h..<d + 2 * Z h + int k} \<subseteq> owned (Z h1) (heap_base h1) bs1"
      using live_fits [OF 2(2) live1(2), of k] live_fits [OF 2(2) live1(1), of k] k assms(4) 2(3) by (simp_all add: f)
    from paged.load_ok [OF fit(1)] obtain w where w: "mload (memory h1) (c + 2 * Z h) k Iend_BE = Inr w" by blast
    from store_owned [OF 2(2) sub fit(2), of w Iend_BE] obtain m where m: "mstore (memory h1) (d + 2 * Z h) w k Iend_BE = Inr m"
      "heap_ok (upd_memory h1 m) bs1" "\<And>x. \<not> (d + 2 * Z h \<le> x \<and> x < d + 2 * Z h + int k) \<Longrightarrow> contents m x = contents (memory h1) x"
      by blast
    define h2 where "h2 = upd_memory h1 m"
    have f2: "Z h2 = Z h" "heap_base h2 = heap_base h" by (simp_all add: h2_def f)
    have "(c, s) \<in> live h2 bs1" using live1(2) f f2 by simp
    from free_live [OF m(2) [folded h2_def] this] obtain h3 B bs3 where h3: "free (c + 2 * Z h) h2 = Some (Inr h3)" "heap_ok h3 bs3"
      "live h bs3 = live h bs1 - {(c, s)}" "hstep h2 h3 B" "B \<subseteq> meta h2 bs3" by (auto simp: f2)
    have nd: "d + t \<le> c \<or> c + s \<le> d" using 2(5) assms(2) by auto
    have nc: "(d, t) \<noteq> (c, s)" using nd assms(4) 2(3) s z by auto
    have dz: "d + 2 * Z h \<noteq> 0" using fit(2) live_block(1) [OF 2(2) live1(1)] f cfg_simps(8) [OF cfg] z by (auto simp: spans_def)
    have call: "realloc (c + 2 * Z h) (Conc n) h = Some (Inr (d + 2 * Z h, h3))"
      using start assms(3,4) 2(1) dz w m(1) h3(1) by (simp add: realloc_def Let_def then_walk_def data_ptr_def f k_def h2_def)
    have live3: "live h bs3 = insert (d, t) (live h bs - {(c, s)})" using h3(3) 2(4) nc by auto
    note k3 = keeps_hstep [OF h3(2,4,5), unfolded f2]
    have own1: "owned (Z h) (heap_base h) bs1 = (\<Union>(e, u) \<in> insert (d, t) (live h bs). {e + 2 * Z h..<e + u})"
      and own3: "owned (Z h) (heap_base h) bs3 = (\<Union>(e, u) \<in> insert (d, t) (live h bs - {(c, s)}). {e + 2 * Z h..<e + u})"
      by (simp_all add: owned_used 2(4) live3)
    have data: "contents (memory h3) (d + 2 * Z h + i) = contents (memory h) (c + 2 * Z h + i)" if i: "0 \<le> i" "i < s - 2 * Z h" for i
    proof -
      have "contents m (d + 2 * Z h + int (nat i)) = contents (memory h1) (c + 2 * Z h + int (nat i))"
        by (rule copy_bytes [OF fit w m(1)]) (use i k in linarith)
      moreover have "c + 2 * Z h + i \<in> owned (Z h) (heap_base h) bs1" "d + 2 * Z h + i \<in> owned (Z h) (heap_base h) bs3"
        unfolding own1 own3 using assms(2,4) i 2(3) by fastforce+
      ultimately show ?thesis using i k1 k3 by (simp add: keeps_def h2_def)
    qed
    have "keeps h h3 (\<Union>(e, u) \<in> live h bs - {(c, s)}. {e + 2 * Z h..<e + u})"
    proof -
      have "contents m x = contents (memory h1) x" if "x \<in> (\<Union>(e, u) \<in> live h bs - {(c, s)}. {e + 2 * Z h..<e + u})" for x
        using that 2(3,5) assms(4) k z by (intro m(3)) fastforce
      then have "keeps h1 h2 (\<Union>(e, u) \<in> live h bs - {(c, s)}. {e + 2 * Z h..<e + u})" by (simp add: keeps_def h2_def)
      from keeps_trans [OF keeps_trans [OF k1 this] k3] show ?thesis
        by (rule keeps_mono) (auto simp: own1 own3)
    qed
    then have "moved h bs c s d t h3" using h3(2) live3 data assms(4) 2(3) by (auto simp: moved_def)
    then show ?thesis using call 2(3) by blast
  qed
qed

lemma realloc_shrinks:
  assumes "heap_ok h bs" and "(c, s) \<in> live h bs" and "0 < n" and "n' = make_chunk_size h n" and "n' < s" and "4 * Z h \<le> s - n'"
  shows "\<exists>h'. realloc (c + 2 * Z h) (Conc n) h = Some (Inr (c + 2 * Z h, h')) \<and> moved h bs c s c n' h'"
proof -
  have cfg: "cfg h" and n: "0 \<le> n" using assms by (simp_all add: heap_ok_def)
  note z = seg_roomy(2) [OF cfg] and bl = live_block [OF assms(1,2)] and mk = make_chunk_size [OF cfg n assms(4)]
  note v = spans_valid [OF cfg bl(1)]
  obtain xs ys where bs: "bs = xs @ (s, False) # ys" "c = stop (heap_base h) xs" using used_split [OF assms(2)] by blast
  define bs1 where "bs1 = xs @ (n', False) # (s - n', False) # ys"
  from split_used [OF assms(1) [unfolded bs(1)] bs(2) mk(1,2) assms(6) bs1_def] obtain h1 h2 h3 A where
    h: "set_size c n' (Some False) h = Inr h1" "next_chunk h1 c = Inr (Some (c + n'))"
      "set_size (c + n') (s - n') (Some False) h1 = Inr h2" "set_prev_freeness (c + n') False h2 = Inr h3"
    and h3: "heap_ok h3 bs1" "hstep h h3 A" "A \<subseteq> meta h bs1" .
  note f = hstep_fields [OF h3(2)]
  have "(c + n', s - n') \<in> live h3 bs1" by (simp add: bs1_def bs(2) f)
  from free_live [OF h3(1) this] obtain h4 B bs4 where h4: "free (c + n' + 2 * Z h) h3 = Some (Inr h4)" "heap_ok h4 bs4"
    "live h bs4 = live h bs1 - {(c + n', s - n')}" "hstep h3 h4 B" "B \<subseteq> meta h3 bs4" by (auto simp: f)
  have start: "chunk_from_mem h (c + 2 * Z h) = Some c" "get_size h c = Inr s"
    using v(10) z get_size_eq [OF cfg v(2)] bl(2) by (simp_all add: chunk_from_mem_def)
  have f4: "Z h4 = Z h" using hstep_fields(3) [OF h4(4)] f by simp
  have call: "realloc (c + 2 * Z h) (Conc n) h = Some (Inr (c + 2 * Z h, h4))"
    using start assms(3,5,6) h h4(1) cfg_simps(11) [OF cfg]
    by (simp add: realloc_def Let_def then_walk_def data_ptr_def f f4 flip: assms(4))
  have r: "roomy (Z h) xs" "roomy (Z h) ys" "4 * Z h \<le> s" using seg_roomy(1) [OF cfg, of "heap_base h" None bs] assms(1) by (simp_all add: heap_ok_def bs(1))
  have "(c + n', s - n') \<notin> set (used (heap_base h) xs)" "(c, s) \<notin> set (used (heap_base h) xs)"
    "(c + n', s - n') \<notin> set (used (c + s) ys)" "(c, s) \<notin> set (used (c + s) ys)"
    using used_range(2) [OF r(1) z, of _ _ "heap_base h"] used_range(1) [OF r(2) z, of _ _ "c + s"] mk(1) z assms(6) r(3) bs(2) by fastforce+
  moreover have "live h bs1 = insert (c, n') (insert (c + n', s - n') (set (used (heap_base h) xs) \<union> set (used (c + s) ys)))"
    "live h bs = insert (c, s) (set (used (heap_base h) xs) \<union> set (used (c + s) ys))"
    by (auto simp: bs1_def bs)
  moreover have "n' \<noteq> 0" using mk(1) z by simp
  ultimately have live4: "live h bs4 = insert (c, n') (live h bs - {(c, s)})" using h4(3) by auto
  have own: "owned (Z h) (heap_base h) bs4 = (\<Union>(e, u) \<in> insert (c, n') (live h bs - {(c, s)}). {e + 2 * Z h..<e + u})"
    by (simp add: owned_used live4)
  have "owned (Z h) (heap_base h) bs4 \<subseteq> owned (Z h) (heap_base h) bs1"
    unfolding owned_used using h4(3) by auto
  then have k: "keeps h h4 (owned (Z h) (heap_base h) bs4)"
    using keeps_trans [OF keeps_hstep [OF h3] keeps_hstep [OF h4(2,4,5), unfolded f]] by (auto intro: keeps_mono)
  then have "moved h bs c s c n' h4"
    unfolding moved_def using h4(2) live4 by (auto simp: own keeps_def)
  then show ?thesis using call by blast
qed

lemma realloc_live:
  assumes "heap_ok h bs" and "(c, s) \<in> live h bs" and "0 < n"
  shows "realloc (c + 2 * Z h) (Conc n) h = Some (Inr (0, h)) \<or>
    (\<exists>d t h'. realloc (c + 2 * Z h) (Conc n) h = Some (Inr (d + 2 * Z h, h')) \<and> make_chunk_size h n \<le> t \<and> moved h bs c s d t h')"
proof -
  define n' where "n' = make_chunk_size h n"
  have cfg: "cfg h" using assms by (simp add: heap_ok_def)
  note bl = live_block [OF assms(1,2)] and z = seg_roomy(2) [OF cfg]
  note v = spans_valid [OF cfg bl(1)]
  consider "s < n'" | "n' < s" "4 * Z h \<le> s - n'" | "n' \<le> s" "\<not> (n' < s \<and> 4 * Z h \<le> s - n')" by linarith
  then show ?thesis
  proof cases
    case 1
    then show ?thesis using realloc_grows [OF assms] by (simp add: n'_def)
  next
    case 2
    then show ?thesis using realloc_shrinks [OF assms n'_def] by (auto simp: n'_def)
  next
    case 3
    have "realloc (c + 2 * Z h) (Conc n) h = Some (Inr (c + 2 * Z h, h))"
      using v(10) z get_size_eq [OF cfg v(2)] bl(2) assms(3) 3 cfg_simps(11) [OF cfg]
      by (auto simp: realloc_def chunk_from_mem_def Let_def then_walk_def data_ptr_def simp flip: n'_def)
    moreover have "moved h bs c s c s h" using assms(1,2) by (auto simp: moved_def keeps_def insert_absorb)
    ultimately show ?thesis using 3(1) by (auto simp: n'_def)
  qed
qed

end
