(* ===== verification/Heap_Runs.thy ===== *)
theory Heap_Runs
  imports Heap_Program
begin

text \<open>
  The life of a freelist heap: \<open>init_state\<close> establishes the invariant, a copied state computes the
  same heap again, and the states that a program can reach by the operations of the heap and by
  stores to its own blocks keep the invariant. The properties of the freelist heap follow.
\<close>

section \<open>Initialisation\<close>

text \<open>A region that the freelist heap can manage.\<close>

definition region_ok :: "int \<Rightarrow> int \<Rightarrow> nat \<Rightarrow> bool" where
  "region_ok base sz w \<longleftrightarrow> w \<in> {4, 8} \<and> 2 * int w dvd base \<and> 2 * int w dvd sz \<and> 0 \<le> base \<and> 6 * int w \<le> sz
     \<and> base + sz \<le> 2 ^ (8 * w)"

lemma and_not_low: "x AND NOT (2 ^ k - 1) = x - x mod 2 ^ k" for x :: int
proof -
  have "x = (x AND NOT (mask k)) + take_bit k x"
    by (subst disjunctive_add) (auto simp: bit_simps intro!: bit_eqI)
  then show ?thesis by (simp add: mask_eq_exp_minus_1 take_bit_eq_mod)
qed

lemma aligned_bits:
  assumes "w \<in> {4, 8}" and "2 * int w dvd x"
  shows "x AND (2 * int w - 1) = 0" and "x AND NOT (2 * int w - 1) = x"
proof -
  obtain k where k: "2 * int w = 2 ^ k" using assms(1) that [of 3] that [of 4] by auto
  have "x mod 2 ^ k = 0" using assms(2) unfolding k by simp
  moreover have "x AND (2 ^ k - 1) = x mod 2 ^ k" by (simp add: take_bit_eq_mod)
  ultimately show "x AND (2 * int w - 1) = 0" "x AND NOT (2 * int w - 1) = x"
    unfolding k and_not_low by simp_all
qed

text \<open>Mapping at initialisation adds pages and nothing else.\<close>

lemma init_maps:
  fixes h :: pt_heap
  assumes "g = map_final_page (base_init_state am h)"
  obtains m e where "g = h\<lparr>memory := m, mapped_end := e\<rparr>" and "grows (memory h) m"
proof -
  have e: "\<exists>m e. ensure_mapped a (h\<lparr>mapped_end := x\<rparr>) = h\<lparr>memory := m, mapped_end := e\<rparr> \<and> grows (memory h) m" for a x
  proof -
    note k = hstep_ensure(1) [of "h\<lparr>mapped_end := x\<rparr>" a]
    show ?thesis
      by (intro exI [of _ "memory (ensure_mapped a (h\<lparr>mapped_end := x\<rparr>))"] exI [of _ "mapped_end (ensure_mapped a (h\<lparr>mapped_end := x\<rparr>))"])
        (simp add: ensure_mapped_def Let_def map_range_grows split: option.split)
  qed
  have "\<exists>m e. base_init_state am h = h\<lparr>memory := m, mapped_end := e\<rparr> \<and> grows (memory h) m"
  proof (cases "am \<or> is_mapped (memory h) (heap_base h)")
    case True
    then show ?thesis by (intro exI [of _ "memory h"] exI [of _ "mapped_end h"]) (simp add: base_init_state_def)
  next
    case False
    then show ?thesis using e by (simp add: base_init_state_def init_mapping_def)
  qed
  then obtain m e where b: "base_init_state am h = h\<lparr>memory := m, mapped_end := e\<rparr>" "grows (memory h) m" by blast
  define f where "f = (heap_base h + heap_size h - 1) - (heap_base h + heap_size h - 1) mod page_size"
  define m' where "m' = (case e of None \<Rightarrow> m | Some e \<Rightarrow> if f < e then m else map_range f (region_end h) m)"
  have "g = h\<lparr>memory := m', mapped_end := e\<rparr>"
    by (simp add: assms b(1) map_final_page_def Let_def m'_def f_def split: option.split)
  moreover have "grows (memory h) m'" using b(2) grows_trans [OF b(2) map_range_grows]
    by (simp add: m'_def split: option.split)
  ultimately show ?thesis using that by blast
qed

text \<open>The invariant reads the metadata, the region and the head of the free list, and nothing else.\<close>

lemma heap_ok_same:
  assumes "heap_ok h bs" and "contents (memory h') = contents (memory h)" and "arch_bytes (memory h') = arch_bytes (memory h)"
    and "heap_base h' = heap_base h" and "heap_size h' = heap_size h" and "chunk_size_t_size h' = chunk_size_t_size h"
    and "chunk_min_size h' = chunk_min_size h" and "chunk_align_mask h' = chunk_align_mask h"
    and "memory_endness h' = memory_endness h" and "free_head_chunk h' = free_head_chunk h"
  shows "heap_ok h' bs"
proof -
  have "max_pageno (memory h') = max_pageno (memory h)" by (simp add: max_pageno_def assms(3))
  then have "byte_addr (memory h') a i = byte_addr (memory h) a i" for a i by (simp add: byte_addr_def Let_def case_prod_beta)
  then have rd: "rd h' = rd h" by (simp add: rd_def word_at_def fun_eq_iff assms(2,6))
  have eqs: "spans h' = spans h" "size_of h' = size_of h" "pfree h' = pfree h" "fw h' = fw h" "bk h' = bk h" "cfg h' = cfg h"
    by (simp_all add: spans_def size_of_def pfree_def fw_def bk_def cfg_def rd fun_eq_iff assms)
  have "part h' b p bs = part h b p bs" for b p
    by (induction b bs arbitrary: p rule: bases.induct) (simp_all add: eqs rd)
  then show ?thesis using assms(1) by (simp add: heap_ok_def seg_def eqs assms(4-6,10))
qed

text \<open>\<open>init_state\<close> on a fresh heap makes one free block of the region.\<close>

lemma init_ok:
  assumes "h = SimHeapPTMalloc_init (Some base) (Some sz) m lim e" and "region_ok base sz (arch_bytes m)"
  obtains h' where "init_state am h = Inr h'" and "heap_ok h' [(sz - 2 * int (arch_bytes m), True)]"
    and "heap_base h' = base" and "heap_size h' = sz" and "chunk_size_t_size h' = arch_bytes m" and "initialized h'"
    and "memory_endness h' = e" and "max_variable_size h' = lim"
proof -
  define w where "w = arch_bytes m"
  note r = assms(2) [unfolded region_ok_def, folded w_def]
  from init_maps [OF refl, of am h] obtain m1 e1 where m1: "map_final_page (base_init_state am h) = h\<lparr>memory := m1, mapped_end := e1\<rparr>"
    "grows (memory h) m1" .
  have hf: "memory h = m" "heap_base h = base" "heap_size h = sz" "free_head_chunk_exists h" "free_head_chunk_init_base h = None"
    "\<not> initialized h" "memory_endness h = e" "max_variable_size h = lim"
    by (simp_all add: assms(1) SimHeapPTMalloc_init_def SimHeapBase_init_def sim_heap.defs pt_heap.defs)
  have aw: "arch_bytes m1 = w" using m1(2) hf(1) by (simp add: grows_def w_def)
  define h2 where "h2 = h\<lparr>memory := m1, mapped_end := e1, chunk_size_t_size := w, chunk_min_size := 4 * int w,
    chunk_align_mask := 2 * int w - 1, free_head_chunk := Some base\<rparr>"
  have f2: "heap_base h2 = base" "heap_size h2 = sz" "Z h2 = int w" "chunk_size_t_size h2 = w" "\<not> initialized h2" "free_head_chunk h2 = Some base"
    "memory_endness h2 = e" "max_variable_size h2 = lim" "limit h2 = base + (sz - 2 * int w)"
    by (simp_all add: h2_def hf)
  have cfg: "cfg h2" using r by (auto simp: cfg_def f2) (auto simp: h2_def aw)
  note z = seg_roomy(2) [OF cfg] and al = aligned_bits [of w]
  have N: "4 * int w \<le> sz - 2 * int w" "2 * int w dvd sz - 2 * int w" using r by (auto intro: dvd_diff)
  have sp: "spans h2 base (sz - 2 * int w)" using r N by (simp add: spans_def f2)
  note v = spans_valid [OF cfg sp, unfolded f2]
  define V where "V = (sz - 2 * int w) OR CHUNK_P_MASK"
  have bits: "V AND NOT CHUNK_FLAGS_MASK = sz - 2 * int w" "odd V"
    using v(7) field_bits(1) [OF v(7), of 0] flag_bits(3,4) [of "sz - 2 * int w"] by (simp_all add: V_def)
  have "0 \<le> V" "V < 2 ^ (8 * w)"
    using field_range(5,6) [of "sz - 2 * int w" "8 * w" 0] v(8,9) z by (simp_all add: V_def f2)
  with store_word_step [OF cfg, of "base + int w" V Iend_BE] v(2) obtain h3 where h3: "store_word (base + int w) V Iend_BE h2 = Inr h3"
    "hstep h2 h3 {base + int w}" "rd h3 Iend_BE (base + int w) = V" "free_head_chunk h3 = Some base" by (auto simp: f2)
  note g3 = hstep_fields [OF h3(2)]
  have c3: "cfg h3" "heap_base h3 = base" "heap_size h3 = sz" "chunk_size_t_size h3 = w" using cfg g3 f2 by simp_all
  from set_final_freeness_step [OF c3(1), of True] obtain h4 where h4: "set_final_freeness True h3 = Inr h4"
    "hstep h3 h4 {limit h3 + Z h3}" "pfree h4 (limit h3) = True" "free_head_chunk h4 = free_head_chunk h3" .
  note g4 = hstep_fields [OF h4(2)]
  have st4: "hstep h2 h4 ({base + int w} \<union> {base + sz - int w})" using hstep_trans [OF h3(2) h4(2)] by (simp add: c3)
  note q4 = hstep_fields [OF st4]
  have word: "rd h4 Iend_BE (base + int w) = V"
    using hstep_rd [OF h4(2) c3(1), of "base + int w"] v(2) h3(3) g3 N z by (simp add: c3 f2)
  define bs where "bs = [(sz - 2 * int w, True)]"
  have seg4: "seg h4 base None bs"
    using sp bits word h4(3) by (simp add: bs_def seg_def hstep_spans [OF st4] size_of_def pfree_def q4 f2 c3)
  have c4: "cfg h4" using cfg q4 by simp
  note lk = seg_linkable [OF c4 seg4]
  have lnk: "linkable h4 {base}" "links h4 {base} (fw h4) (bk h4)" using lk by (simp_all add: bs_def links_def)
  from set_fwd_links [OF lnk, of base base] obtain h5 where h5: "set_fwd_chunk base base h4 = Inr h5" "hstep h4 h5 {base + 2 * Z h4}"
    "linkable h5 {base}" "links h5 {base} ((fw h4)(base := base)) (bk h4)" "free_head_chunk h5 = free_head_chunk h4" by auto
  from set_bck_links [OF h5(3,4), of base base] obtain h6 where h6: "set_bck_chunk base base h5 = Inr h6" "hstep h5 h6 {base + 3 * Z h5}"
    "links h6 {base} ((fw h4)(base := base)) ((bk h4)(base := base))" "free_head_chunk h6 = free_head_chunk h5" by auto
  have st6: "hstep h4 h6 (link_words (Z h2) {base})"
    using hstep_trans [OF h5(2) h6(2)] hstep_fields(3) [OF h5(2)] by (simp add: link_words_def q4 insert_commute)
  have sub: "{base + int w} \<union> {base + sz - int w} \<subseteq> heads (Z h2) base bs \<union> {limit h2 + Z h2}"
    by (auto simp: bs_def f2)
  have fr: "frees base bs = [base]" by (simp add: bs_def)
  have "heap_ok h6 bs"
    by (rule heap_okI(1) [OF cfg f2(1) [symmetric] st4 sub seg4 st6])
      (use h6(3,4) h5(5) h4(4) h3(4) in \<open>simp_all add: fr ring_single links_def, simp add: apart_def bs_def\<close>)
  moreover have st: "hstep h2 h6 ({base + int w} \<union> {base + sz - int w} \<union> link_words (Z h2) {base})" by (rule hstep_trans [OF st4 st6])
  define h7 where "h7 = h6\<lparr>initialized := True\<rparr>"
  have "init_state am h = Inr h7"
    unfolding init_state_def Let_def m1(1)
    using h3(1) h4(1) h5(1) h6(1) al r N by (simp add: hf aw h2_def h7_def V_def)
  note q6 = hstep_fields [OF st]
  show ?thesis
  proof (rule that [OF \<open>init_state am h = Inr h7\<close>])
    show "heap_ok h7 [(sz - 2 * int (arch_bytes m), True)]"
      using heap_ok_same [OF \<open>heap_ok h6 bs\<close>, of h7] by (simp add: h7_def bs_def w_def)
  qed (simp_all add: h7_def q6 f2 w_def)
qed

text \<open>A copy of a state computes its heap again.\<close>

lemma copy_ok:
  assumes "heap_ok h bs" and "initialized h"
  obtains h' where "init_state am (pt_copy h) = Inr h'" and "heap_ok h' bs" and "grows (memory h) (memory h')"
    and "heap_base h' = heap_base h" and "initialized h'"
proof -
  have cfg: "cfg h" using assms(1) by (simp add: heap_ok_def)
  note w = cfg_simps(1) [OF cfg]
  from init_maps [OF refl, of am "pt_copy h"] obtain m e where m: "map_final_page (base_init_state am (pt_copy h)) = (pt_copy h)\<lparr>memory := m, mapped_end := e\<rparr>"
    "grows (memory (pt_copy h)) m" .
  have g: "grows (memory h) m" "arch_bytes m = chunk_size_t_size h" using m(2) w by (simp_all add: pt_copy_def grows_def)
  define h' where "h' = (pt_copy h)\<lparr>memory := m, mapped_end := e, chunk_size_t_size := chunk_size_t_size h, chunk_min_size := 4 * Z h,
    chunk_align_mask := 2 * Z h - 1, free_head_chunk := free_head_chunk h\<rparr>"
  have "init_state am (pt_copy h) = Inr h'"
    unfolding init_state_def Let_def m(1) using g(2) assms(2)
    by (cases "free_head_chunk h") (simp_all add: h'_def pt_copy_def)
  moreover have "heap_ok h' bs"
    by (rule heap_ok_same [OF assms(1)]) (use g cfg_simps(11,12) [OF cfg] w in \<open>simp_all add: h'_def pt_copy_def grows_def\<close>)
  moreover have "grows (memory h) (memory h')" using g(1) by (simp add: h'_def)
  moreover have "heap_base h' = heap_base h" "initialized h'" using assms(2) by (simp_all add: h'_def pt_copy_def)
  ultimately show ?thesis using that by blast
qed

section \<open>Programs\<close>

text \<open>
  What a program does with the heap: it allocates, releases and resizes its blocks, releases blocks
  that are free already or nothing at all, and stores to its blocks within their data.
\<close>

inductive pt_step :: "pt_heap \<Rightarrow> pt_heap \<Rightarrow> bool" where
  step_malloc: "0 \<le> req \<Longrightarrow> malloc (Conc req) h = Inr (p, h') \<Longrightarrow> pt_step h h'"
| step_calloc: "calloc nmemb sz h = Inr (p, h') \<Longrightarrow> pt_step h h'"
| step_free: "chunks h = Some (Inr cs) \<Longrightarrow> c \<in> set cs \<Longrightarrow> free (data_ptr h c) h = Some (Inr h') \<Longrightarrow> pt_step h h'"
| step_free_null: "free 0 h = Some (Inr h') \<Longrightarrow> pt_step h h'"
| step_realloc: "allocated_chunks h = Some (Inr cs) \<Longrightarrow> c \<in> set cs \<Longrightarrow> 0 \<le> n \<Longrightarrow>
    realloc (data_ptr h c) (Conc n) h = Some (Inr (p, h')) \<Longrightarrow> pt_step h h'"
| step_store: "allocated_chunks h = Some (Inr cs) \<Longrightarrow> c \<in> set cs \<Longrightarrow> get_data_size h c = Inr len \<Longrightarrow>
    data_ptr h c \<le> a \<Longrightarrow> a + int k \<le> data_ptr h c + len \<Longrightarrow> mstore (memory h) a v k e = Inr m \<Longrightarrow> pt_step h (upd_memory h m)"

inductive_cases pt_stepE: "pt_step h h'"

lemma picks_used: "c \<in> set (picks Not b bs) \<Longrightarrow> \<exists>s. (c, s) \<in> set (used b bs)"
  by (induction b bs rule: used.induct) (auto split: if_splits)

lemma allocated_live:
  assumes "heap_ok h bs" and "allocated_chunks h = Some (Inr cs)" and "c \<in> set cs"
  obtains s where "(c, s) \<in> live h bs"
  using picks_used [of c "heap_base h" bs] walks(3) [OF assms(1)] assms(2,3) by auto

lemma chunk_cases:
  assumes "heap_ok h bs" and "chunks h = Some (Inr cs)" and "c \<in> set cs"
  obtains s where "(c, s) \<in> live h bs" | "free (data_ptr h c) h = Some (Inr h)"
proof -
  have "c \<in> set (bases (heap_base h) bs)" using walks(1) [OF assms(1)] assms(2,3) by simp
  then obtain xs s f ys where bs: "bs = xs @ (s, f) # ys" "c = stop (heap_base h) xs" using bases_split by blast
  show ?thesis
  proof (cases f)
    case True
    then show ?thesis using that(2) free_noop(1) [of h xs s ys] assms(1) by (simp add: bs data_ptr_def)
  next
    case False
    then have "(c, s) \<in> live h bs" by (simp add: bs)
    then show ?thesis by (rule that(1))
  qed
qed

lemma data_size_live:
  assumes "heap_ok h bs" and "(c, s) \<in> live h bs"
  shows "get_data_size h c = Inr (s - 2 * Z h)"
proof -
  have cfg: "cfg h" using assms(1) by (simp add: heap_ok_def)
  note bl = live_block [OF assms] and z = seg_roomy(2) [OF cfg]
  note v = spans_valid [OF cfg bl(1)]
  have "wrap h (s - 2 * Z h) = s - 2 * Z h"
    by (rule wrap_small [OF cfg]) (use bl(1) v(9) z in \<open>simp_all add: spans_def\<close>)
  then show ?thesis using get_size_eq [OF cfg v(2)] is_free_eq [OF cfg bl(1,2)] bl(2,3) by (simp add: get_data_size_def)
qed

text \<open>Every step keeps the invariant and the region.\<close>

abbreviation same_region :: "pt_heap \<Rightarrow> pt_heap \<Rightarrow> bool" where
  "same_region h h' \<equiv> heap_base h' = heap_base h \<and> heap_size h' = heap_size h \<and> chunk_size_t_size h' = chunk_size_t_size h"

lemma keeps_region: "keeps h h' S \<Longrightarrow> same_region h h'"
  by (simp add: keeps_def)

lemma hstep_region: "hstep h h' A \<Longrightarrow> same_region h h'"
  by (simp add: hstep_fields)

lemma realloc_zero:
  assumes "heap_ok h bs" and "(c, s) \<in> live h bs"
  shows "realloc (c + 2 * Z h) (Conc 0) h = map_option (map_res (\<lambda>h'. (0, h'))) (free (c + 2 * Z h) h)"
proof -
  have cfg: "cfg h" using assms(1) by (simp add: heap_ok_def)
  have "0 \<le> c" using spans_valid(10) [OF cfg live_block(1) [OF assms]] .
  then show ?thesis using seg_roomy(2) [OF cfg] by (simp add: realloc_def chunk_from_mem_def Let_def)
qed

lemma step_ok:
  assumes "pt_step h h'" and "heap_ok h bs"
  shows "\<exists>bs'. heap_ok h' bs' \<and> same_region h h'"
  using assms
proof (cases rule: pt_step.cases)
  case (step_malloc req p)
  from malloc_live [OF assms(2) step_malloc(1)] step_malloc(2) assms(2) show ?thesis by (auto dest!: hstep_region)
next
  case (step_calloc nmemb sz p)
  from calloc_live [OF assms(2) refl, of nmemb sz] step_calloc assms(2) show ?thesis by (auto dest!: keeps_region)
next
  case (step_free cs c)
  from chunk_cases [OF assms(2) step_free(1,2)] show ?thesis
  proof cases
    case (1 s)
    from free_live [OF assms(2) this] step_free(3) hstep_region show ?thesis by (force simp: data_ptr_def)
  next
    case 2
    then show ?thesis using step_free(3) assms(2) by auto
  qed
next
  case step_free_null
  then show ?thesis using assms(2) by (auto simp: free_def chunk_from_mem_def)
next
  case (step_realloc cs c n p)
  obtain s where s: "(c, s) \<in> live h bs" using allocated_live [OF assms(2) step_realloc(1,2)] .
  show ?thesis
  proof (cases "n = 0")
    case True
    then show ?thesis
      using free_live [OF assms(2) s] realloc_zero [OF assms(2) s] step_realloc(4) hstep_region by (force simp: data_ptr_def)
  next
    case False
    then show ?thesis
      using realloc_live [OF assms(2) s, of n] step_realloc(3,4) assms(2) keeps_region
      by (auto simp: data_ptr_def moved_def)
  qed
next
  case (step_store cs c len a k v e m)
  obtain s where s: "(c, s) \<in> live h bs" using allocated_live [OF assms(2) step_store(2,3)] .
  have len: "len = s - 2 * Z h" using data_size_live [OF assms(2) s] step_store(4) by simp
  have "{a..<a + int k} \<subseteq> owned (Z h) (heap_base h) bs"
    unfolding owned_used using s step_store(5,6) len by (fastforce simp: data_ptr_def)
  moreover have "fits (memory h) a k"
    using live_fits(1) [OF assms(2) s, of "nat len"] step_store(5,6) len live_block(1) [OF assms(2) s]
    by (auto simp: data_ptr_def spans_def)
  ultimately show ?thesis using store_owned [OF assms(2), of a k v e] step_store(1,7) by fastforce
qed


lemma runs_ok:
  assumes "region_ok base sz (arch_bytes m)" and "init_state am (SimHeapPTMalloc_init (Some base) (Some sz) m lim e) = Inr h0"
    and "pt_step\<^sup>*\<^sup>* h0 h"
  shows "\<exists>bs. heap_ok h bs \<and> heap_base h = base \<and> heap_size h = sz"
  using assms(3)
proof (induction rule: rtranclp_induct)
  case base
  then show ?case using init_ok [OF refl assms(1), of am lim e] assms(2) by fastforce
next
  case (step h1 h2)
  then show ?case using step_ok [OF step(2)] by metis
qed

lemma ops_return:
  assumes "heap_ok h bs" and "0 \<le> n"
  shows "\<exists>p h'. malloc (Conc n) h = Inr (p, h')" and "\<exists>p h'. calloc n' k h = Inr (p, h')"
    and "\<exists>cs. chunks h = Some (Inr cs) \<and> (\<forall>c \<in> set cs. \<exists>h'. free (data_ptr h c) h = Some (Inr h'))"
    and "\<exists>cs. allocated_chunks h = Some (Inr cs) \<and> (\<forall>c \<in> set cs. \<exists>p h'. realloc (data_ptr h c) (Conc n) h = Some (Inr (p, h')))"
proof -
  show "\<exists>p h'. malloc (Conc n) h = Inr (p, h')" using malloc_live [OF assms] by blast
  show "\<exists>p h'. calloc n' k h = Inr (p, h')" using calloc_live [OF assms(1) refl, of n' k] by blast
  have "\<exists>h'. free (data_ptr h c) h = Some (Inr h')" if "c \<in> set cs" "chunks h = Some (Inr cs)" for c cs
    using chunk_cases [OF assms(1) that(2,1)] free_live [OF assms(1)] by (metis data_ptr_def)
  then show "\<exists>cs. chunks h = Some (Inr cs) \<and> (\<forall>c \<in> set cs. \<exists>h'. free (data_ptr h c) h = Some (Inr h'))"
    using walks(1) [OF assms(1)] by blast
  have "\<exists>p h'. realloc (data_ptr h c) (Conc n) h = Some (Inr (p, h'))" if c: "c \<in> set cs" "allocated_chunks h = Some (Inr cs)" for c cs
  proof -
    obtain s where s: "(c, s) \<in> live h bs" using allocated_live [OF assms(1) c(2,1)] .
    show ?thesis
    proof (cases "n = 0")
      case True
      then show ?thesis using free_live [OF assms(1) s] realloc_zero [OF assms(1) s] by (force simp: data_ptr_def)
    next
      case False
      then show ?thesis using realloc_live [OF assms(1) s, of n] assms(2) by (auto simp: data_ptr_def)
    qed
  qed
  then show "\<exists>cs. allocated_chunks h = Some (Inr cs) \<and> (\<forall>c \<in> set cs. \<exists>p h'. realloc (data_ptr h c) (Conc n) h = Some (Inr (p, h')))"
    using walks(3) [OF assms(1)] by blast
qed

end
