(* ===== verification/Heap_Properties.thy ===== *)
theory Heap_Properties
  imports Heap_Runs
begin

text \<open>
  The properties of the freelist heap: the allocator refines first fit on a list of blocks, release
  coalesces, data survives, and the states that a program reaches keep the invariant and are never
  stuck. The witnesses use a heap of 256 bytes of a 32-bit machine.
\<close>

section \<open>A small heap\<close>

definition blank_memory :: paged_memory where
  "blank_memory = \<lparr>arch_bytes = 4, contents = (\<lambda>_. 0), pages = {}\<rparr>"

definition fresh_heap :: pt_heap where
  "fresh_heap = SimHeapPTMalloc_init (Some 0x10000) (Some 0x100) blank_memory 0x1000 Iend_LE"

lemma fresh_region: "region_ok 0x10000 0x100 (arch_bytes blank_memory)"
  by (simp add: region_ok_def blank_memory_def)

lemma fresh_ok:
  obtains h where "init_state False fresh_heap = Inr h" and "heap_ok h [(248, True)]" and "heap_base h = 0x10000" and "Z h = 4"
    and "chunk_size_t_size h = 4" and "initialized h" and "arch_bytes (memory h) = 4" and "make_chunk_size h 5 = 16"
proof -
  from init_ok [OF fresh_heap_def fresh_region, of False] obtain h where h: "init_state False fresh_heap = Inr h"
    "heap_ok h [(248, True)]" "heap_base h = 0x10000" "chunk_size_t_size h = 4" "initialized h"
    by (auto simp: blank_memory_def)
  have "cfg h" using h(2) by (simp add: heap_ok_def)
  then have "arch_bytes (memory h) = 4" "chunk_min_size h = 16" "chunk_align_mask h = 7" using cfg_simps [of h] h(4) by simp_all
  then show ?thesis using that [of h] h by (simp add: make_chunk_size_def)
qed

text \<open>The same heap with one block of the program.\<close>

lemma used_ok:
  obtains h where "heap_ok h [(16, False), (232, True)]" and "heap_base h = 0x10000" and "Z h = 4" and "chunk_size_t_size h = 4"
    and "arch_bytes (memory h) = 4" and "make_chunk_size h 5 = 16" and "make_chunk_size h 20 = 32"
proof -
  obtain h0 where h0: "heap_ok h0 [(248, True)]" "heap_base h0 = 0x10000" "Z h0 = 4" "chunk_size_t_size h0 = 4"
    "arch_bytes (memory h0) = 4" "make_chunk_size h0 5 = 16" using fresh_ok by metis
  have ff: "first_fit 16 [(248, True)] = Some ([], 248, [])" "carve 4 16 248 = [(16, False), (232, True)]"
    by (simp_all add: first_fit_def fit_def carve_def)
  from malloc_ok [OF h0(1), of 5 16] h0 ff obtain h A where h: "heap_ok h [(16, False), (232, True)]" "hstep h0 h A" by auto
  have "cfg h" using h(1) by (simp add: heap_ok_def)
  moreover have f: "heap_base h = 0x10000" "chunk_size_t_size h = 4" using hstep_fields [OF h(2)] h0 by simp_all
  ultimately have "arch_bytes (memory h) = 4" "chunk_min_size h = 16" "chunk_align_mask h = 7" using cfg_simps [of h] by simp_all
  then show ?thesis using that [OF h(1)] f by (simp add: make_chunk_size_def)
qed

section \<open>Allocation and release\<close>

text \<open>
  C1. \<open>malloc\<close> refines first fit: it fails exactly when no free block is large enough and leaves the
  heap alone then; otherwise it takes the first such block, splits it when the rest can be a block,
  returns the address of its data, and changes no byte that the program owns.
\<close>

theorem malloc_first_fit:
  assumes "heap_ok h bs" and "0 \<le> req" and "n = make_chunk_size h req"
  shows "case first_fit n bs of
           None \<Rightarrow> malloc (Conc req) h = Inr (0, h)
         | Some (xs, s, ys) \<Rightarrow> \<exists>h'. malloc (Conc req) h = Inr (stop (heap_base h) xs + 2 * Z h, h')
             \<and> heap_ok h' (xs @ carve (Z h) n s @ ys)
             \<and> (\<forall>x \<in> owned (Z h) (heap_base h) bs. contents (memory h') x = contents (memory h) x)"
proof (cases "first_fit n bs")
  case None
  then show ?thesis using pt.alloc_fails [OF assms(1,2)] assms(3) by simp
next
  case (Some r)
  obtain xs s ys where r: "r = (xs, s, ys)" by (cases r)
  note ff = Some [unfolded r] and bs = first_fit_Some [OF Some [unfolded r]]
  have "owned (Z h) (heap_base h) bs \<subseteq> owned (Z h) (heap_base h) (xs @ carve (Z h) n s @ ys)"
    using owned_carve [OF pt.word_pos [OF assms(1)] bs(2)] bs(1) by blast
  then show ?thesis using pt.alloc_fits [OF assms(1,2) ff [unfolded assms(3)] refl] Some r assms(3) by fastforce
qed

theorem malloc_first_fit_witness:
  "\<exists>h h'. init_state False fresh_heap = Inr h \<and> malloc (Conc 5) h = Inr (0x10008, h') \<and> heap_ok h' [(16, False), (232, True)]"
proof -
  obtain h where h: "init_state False fresh_heap = Inr h" "heap_ok h [(248, True)]" "heap_base h = 0x10000" "Z h = 4"
    "make_chunk_size h 5 = 16" using fresh_ok by metis
  have "first_fit 16 [(248, True)] = Some ([], 248, [])" "carve 4 16 248 = [(16, False), (232, True)]"
    by (simp_all add: first_fit_def fit_def carve_def)
  with malloc_first_fit [OF h(2), of 5 16] h show ?thesis by auto
qed

text \<open>
  C2. \<open>free\<close> refines the release of a block: on the pointer of a used block it ends, the block becomes
  free and one block with its free neighbours, and no byte of the other used blocks changes.
\<close>

theorem free_coalesces:
  assumes "heap_ok h (xs @ (s, False) # ys)"
  shows "\<exists>h'. free (stop (heap_base h) xs + 2 * Z h) h = Some (Inr h') \<and> heap_ok h' (give_back xs s ys)
    \<and> (\<forall>x \<in> owned (Z h) (heap_base h) xs \<union> owned (Z h) (stop (heap_base h) xs + s) ys.
         contents (memory h') x = contents (memory h) x)"
  using pt.release_used [OF assms refl] by (auto simp: owned_give_back)

theorem free_coalesces_witness:
  "\<exists>h h'. heap_ok h [(16, False), (232, True)] \<and> free 0x10008 h = Some (Inr h') \<and> heap_ok h' [(248, True)]"
proof -
  obtain h where h: "heap_ok h [(16, False), (232, True)]" "heap_base h = 0x10000" "Z h = 4" using used_ok by metis
  have "give_back [] 16 [(232, True)] = [(248, True)]" by (simp add: give_back_def join_right_def join_left_def)
  with free_coalesces [of h "[]" 16 "[(232, True)]"] h show ?thesis by auto
qed

text \<open>
  C34. Releasing what was just allocated restores the blocks of the heap and every byte of the used
  blocks.
\<close>

theorem malloc_free_restores:
  assumes "heap_ok h bs" and "0 \<le> req" and "first_fit (make_chunk_size h req) bs = Some (xs, s, ys)"
  shows "\<exists>p h1 h2. malloc (Conc req) h = Inr (p, h1) \<and> free p h1 = Some (Inr h2) \<and> heap_ok h2 bs
    \<and> (\<forall>x \<in> owned (Z h) (heap_base h) bs. contents (memory h2) x = contents (memory h) x)"
  using pt.alloc_release [OF assms] by blast

theorem malloc_free_restores_witness:
  "\<exists>h p h1 h2. heap_ok h [(16, False), (232, True)] \<and> malloc (Conc 5) h = Inr (p, h1) \<and> free p h1 = Some (Inr h2)
     \<and> heap_ok h2 [(16, False), (232, True)]"
proof -
  obtain h where h: "heap_ok h [(16, False), (232, True)]" "make_chunk_size h 5 = 16" using used_ok by metis
  have "first_fit 16 [(16, False), (232, True)] = Some ([(16, False)], 232, [])" by (simp add: first_fit_def fit_def)
  with malloc_free_restores [OF h(1), of 5 "[(16, False)]" 232 "[]"] h show ?thesis by auto
qed

text \<open>
  C35. A block that \<open>malloc\<close> hands out is aligned to two words, lies in the region with room for the
  request, and overlaps no block that the program holds.
\<close>

theorem malloc_block_safe:
  assumes "heap_ok h bs" and "0 \<le> req" and "malloc (Conc req) h = Inr (p, h')" and "p \<noteq> 0"
  shows "2 * Z h dvd p \<and> heap_base h + 2 * Z h \<le> p \<and> p + req \<le> heap_base h + heap_size h - 2 * Z h
    \<and> (\<forall>(c, s) \<in> live h bs. p + req \<le> c \<or> c + s \<le> p)"
proof -
  from malloc_live [OF assms(1,2)] assms(3,4) obtain c t A bs' where m: "p = c + 2 * Z h" "heap_ok h' bs'" "make_chunk_size h req \<le> t"
    "live h bs' = insert (c, t) (live h bs)" "\<forall>(d, u) \<in> live h bs. c + t \<le> d \<or> d + u \<le> c" "hstep h h' A" by auto
  have cfg: "cfg h" using assms(1) by (simp add: heap_ok_def)
  have "(c, t) \<in> live h' bs'" using m(4) hstep_fields [OF m(6)] by simp
  then have sp: "spans h c t" using live_block(1) [OF m(2)] hstep_spans [OF m(6)] by simp
  have "req + 2 * Z h \<le> t" using make_chunk_size(3) [OF cfg assms(2) refl] m(3) by linarith
  moreover have "2 * Z h dvd c + 2 * Z h" using sp by (simp add: spans_def)
  ultimately show ?thesis using sp m(1,5) seg_roomy(2) [OF cfg] by (auto simp: spans_def)
qed

theorem malloc_block_safe_witness:
  "\<exists>h h'. heap_ok h [(16, False), (232, True)] \<and> malloc (Conc 5) h = Inr (0x10018, h') \<and> 2 * Z h dvd (0x10018 :: int)"
proof -
  obtain h where h: "heap_ok h [(16, False), (232, True)]" "heap_base h = 0x10000" "Z h = 4" "make_chunk_size h 5 = 16" using used_ok by metis
  have "first_fit 16 [(16, False), (232, True)] = Some ([(16, False)], 232, [])" by (simp add: first_fit_def fit_def)
  with malloc_ok [OF h(1), of 5 16] h obtain h' where "malloc (Conc 5) h = Inr (0x10018, h')" by auto
  with malloc_block_safe [OF h(1), of 5 "0x10018" h'] h(1) show ?thesis by auto
qed

text \<open>
  C36. \<open>calloc\<close> fails or hands out a block for the product of its arguments at the width of a word:
  the block is cleared, overlaps no other block, and the other blocks keep their bytes.
\<close>

theorem calloc_clears:
  assumes "heap_ok h bs" and "len = wrap h (nmemb * sz)"
  shows "calloc nmemb sz h = Inr (0, h) \<or>
    (\<exists>p c s h' bs'. calloc nmemb sz h = Inr (p, h') \<and> p = c + 2 * Z h \<and> heap_ok h' bs' \<and> len + 2 * Z h \<le> s
       \<and> live h bs' = insert (c, s) (live h bs) \<and> (\<forall>(d, u) \<in> live h bs. c + s \<le> d \<or> d + u \<le> c)
       \<and> (\<forall>x \<in> {p..<p + len}. contents (memory h') x = 0)
       \<and> (\<forall>x \<in> owned (Z h) (heap_base h) bs. contents (memory h') x = contents (memory h) x))"
  using calloc_live [OF assms] by (simp add: keeps_def) blast

theorem calloc_clears_witness:
  "\<exists>h h'. heap_ok h [(16, False), (232, True)] \<and> (calloc 3 2 h = Inr (0, h) \<or>
     (\<exists>p. calloc 3 2 h = Inr (p, h') \<and> (\<forall>x \<in> {p..<p + 6}. contents (memory h') x = 0)))"
proof -
  obtain h where h: "heap_ok h [(16, False), (232, True)]" "arch_bytes (memory h) = 4" using used_ok by metis
  then have "6 = wrap h (3 * 2)" by (simp add: wrap_def)
  from calloc_clears [OF h(1) this] h(1) show ?thesis by blast
qed



section \<open>Initialisation, walks and copies\<close>

text \<open>
  \<open>init_state\<close> on a fresh heap turns an aligned region into one free block: all of the region
  except for the two words at its end that describe the last block.
\<close>

lemma heap_initialises:
  assumes "region_ok base sz (arch_bytes m)"
  shows "\<exists>h. init_state am (SimHeapPTMalloc_init (Some base) (Some sz) m lim e) = Inr h
    \<and> heap_ok h [(sz - 2 * int (arch_bytes m), True)] \<and> heap_base h = base \<and> heap_size h = sz \<and> initialized h"
  using init_ok [OF refl assms, of am lim e] by metis

text \<open>
  C37. The walks over the chunks end and return what the heap holds: all blocks in address order, the
  used ones, and the free ones, which are also the chunks of the free list.
\<close>

theorem chunk_walks:
  assumes "heap_ok h bs"
  shows "chunks h = Some (Inr (bases (heap_base h) bs)) \<and> allocated_chunks h = Some (Inr (map fst (used (heap_base h) bs)))
    \<and> free_chunks h = Some (Inr (frees (heap_base h) bs)) \<and> ring (fw h) (bk h) (frees (heap_base h) bs)"
proof -
  have "picks Not b bs = map fst (used b bs)" for b by (induction b bs rule: used.induct) simp_all
  then show ?thesis using walks [OF assms] assms by (simp add: heap_ok_def)
qed

theorem chunk_walks_witness:
  "\<exists>h. chunks h = Some (Inr [0x10000, 0x10010]) \<and> allocated_chunks h = Some (Inr [0x10000]) \<and> free_chunks h = Some (Inr [0x10010])"
proof -
  obtain h where h: "heap_ok h [(16, False), (232, True)]" "heap_base h = 0x10000" using used_ok by metis
  from chunk_walks [OF h(1)] h(2) show ?thesis by auto
qed

text \<open>
  A copied plugin forgets what it computed from its state; \<open>init_state\<close> in the new state computes
  the same heap again, with the same blocks, and maps at most more pages.
\<close>

lemma copy_recomputes:
  assumes "heap_ok h bs" and "initialized h"
  shows "\<exists>h'. init_state am (pt_copy h) = Inr h' \<and> heap_ok h' bs \<and> free_head_chunk h' = free_head_chunk h
    \<and> contents (memory h') = contents (memory h) \<and> pages (memory h) \<subseteq> pages (memory h')"
proof -
  from copy_ok [OF assms] obtain h' where h': "init_state am (pt_copy h) = Inr h'" "heap_ok h' bs" "grows (memory h) (memory h')"
    "heap_base h' = heap_base h" by metis
  moreover have "free_head_chunk h' = free_head_chunk h" using h'(2,4) assms(1) by (simp add: heap_ok_def)
  ultimately show ?thesis by (auto simp: grows_def)
qed

text \<open>
  Releasing null or a block that is free already changes nothing.
\<close>

lemma double_free_ignored:
  assumes "heap_ok h (xs @ (s, True) # ys)"
  shows "free (stop (heap_base h) xs + 2 * Z h) h = Some (Inr h) \<and> free 0 h = Some (Inr h)"
  using free_noop [OF assms] by simp



section \<open>Programs on the heap\<close>

text \<open>
  C3. Whatever a program does with the heap after its initialisation, by the operations of the heap
  and by stores within its blocks, the metadata in memory stays consistent: there is a list of blocks
  that tiles the region and agrees with the size fields, the flags and the free list.
\<close>

theorem heap_invariant:
  assumes "region_ok base sz (arch_bytes m)" and "init_state am (SimHeapPTMalloc_init (Some base) (Some sz) m lim e) = Inr h0"
    and "pt_step\<^sup>*\<^sup>* h0 h"
  shows "\<exists>bs. heap_ok h bs \<and> heap_base h = base \<and> heap_size h = sz"
  using runs_ok [OF assms] by blast

theorem heap_invariant_witness:
  "\<exists>h h' bs. init_state False fresh_heap = Inr h \<and> pt_step\<^sup>*\<^sup>* h h' \<and> h' \<noteq> h \<and> heap_ok h' bs"
proof -
  obtain h where h: "init_state False fresh_heap = Inr h" "heap_ok h [(248, True)]" "heap_base h = 0x10000" "Z h = 4"
    "make_chunk_size h 5 = 16" using fresh_ok by metis
  have "first_fit 16 [(248, True)] = Some ([], 248, [])" "carve 4 16 248 = [(16, False), (232, True)]"
    by (simp_all add: first_fit_def fit_def carve_def)
  with malloc_ok [OF h(2), of 5 16] h obtain h' where h': "malloc (Conc 5) h = Inr (0x10008, h')" "heap_ok h' [(16, False), (232, True)]" by auto
  then have st: "pt_step\<^sup>*\<^sup>* h h'" using step_malloc [of 5 h "0x10008" h'] by auto
  have "h' \<noteq> h" using walks(1) [OF h(2)] walks(1) [OF h'(2)] by auto
  moreover obtain bs where "heap_ok h' bs"
    using heap_invariant [OF fresh_region h(1) [unfolded fresh_heap_def] st] by blast
  ultimately show ?thesis using h(1) st by blast
qed

text \<open>
  C4. In every state that a program can reach no operation is stuck: \<open>malloc\<close> and \<open>calloc\<close> return, the
  walks end, \<open>free\<close> of any chunk ends without an error, and so does \<open>realloc\<close> of any block in use.
\<close>

theorem heap_never_stuck:
  assumes "region_ok base sz (arch_bytes m)" and "init_state am (SimHeapPTMalloc_init (Some base) (Some sz) m lim e) = Inr h0"
    and "pt_step\<^sup>*\<^sup>* h0 h" and "0 \<le> n"
  shows "(\<exists>p h'. malloc (Conc n) h = Inr (p, h')) \<and> (\<exists>p h'. calloc n k h = Inr (p, h'))
    \<and> (\<exists>cs. chunks h = Some (Inr cs) \<and> (\<forall>c \<in> set cs. \<exists>h'. free (data_ptr h c) h = Some (Inr h')))
    \<and> (\<exists>cs. allocated_chunks h = Some (Inr cs) \<and> (\<forall>c \<in> set cs. \<exists>p h'. realloc (data_ptr h c) (Conc n) h = Some (Inr (p, h'))))"
proof -
  obtain bs where ok: "heap_ok h bs" using runs_ok [OF assms(1-3)] by blast
  show ?thesis using ops_return [OF ok assms(4)] by blast
qed

theorem heap_never_stuck_witness:
  "\<exists>h p h'. init_state False fresh_heap = Inr h \<and> malloc (Conc 1000) h = Inr (p, h')"
proof -
  obtain h where h: "init_state False fresh_heap = Inr h" using fresh_ok by metis
  from heap_never_stuck [OF fresh_region h [unfolded fresh_heap_def] rtranclp.rtrancl_refl, of 1000] h show ?thesis by auto
qed

end
