(* ===== verification/Claripy_AST.thy ===== *)
theory Claripy_AST
  imports Backend_Word
begin

text \<open>
  Symbolic expressions of claripy (\<open>claripy/ast/base.py\<close>, \<open>ast/bv.py\<close>, \<open>ast/bool.py\<close>): trees of
  operations over bit-vectors and booleans, with the length of a bit-vector, the flag
  \<open>symbolic\<close>, the value under an assignment of the symbols, and the well-formedness that
  the checks of \<open>operations.py\<close> enforce. An operation without symbols is evaluated at once by the
  concrete backend, as \<open>Base.__new__\<close> does; \<open>convert_bv\<close> is that evaluation.

  The operations are the ones that have a simplifier. An operation without one (division,
  rotation, negation and the operations on floats and strings) is to the simplifiers the
  same as a symbol: they look at the operations of the tree only, so it stands as a \<open>BVS\<close> or a
  \<open>BoolS\<close>. Trees carry no annotations. claripy interns trees by their hash, so that the operator
  \<open>is\<close> on two trees is equality; collisions of the 64 bit hash are left out.
\<close>

section \<open>Trees\<close>

text \<open>The bit-vector operations with any number of arguments, with two and with one.\<close>

datatype nop = NAdd | NMul | NAnd | NOr | NXor

datatype bop = BSub | BShl | BSar | BLshr

datatype uop = UInv | URev

datatype cmp = CEq | CNe | CULT | CULE | CUGT | CUGE | CSLT | CSLE | CSGT | CSGE

datatype bv =
    BVS string nat
  | BVVal int nat
  | NOp nop "bv list"
  | BOp bop bv bv
  | UOp uop bv
  | ConcatN "bv list"
  | ExtractN nat nat bv
  | ZeroExtN nat bv
  | SignExtN nat bv
  | IfBV bl bv bv
and bl =
    BoolS string
  | BoolVal bool
  | Cmp cmp bv bv
  | BoolEq bl bl
  | BoolNe bl bl
  | AndN "bl list"
  | OrN "bl list"
  | NotN bl
  | IfBool bl bl bl

text \<open>The attribute \<open>length\<close>, as the length calculations of \<open>operations.py\<close> give it.\<close>

fun len :: "bv \<Rightarrow> nat" where
  "len (BVS x n) = n"
| "len (BVVal v n) = n"
| "len (NOp f as) = (case map len as of [] \<Rightarrow> 0 | n # _ \<Rightarrow> n)"
| "len (BOp f a b) = len a"
| "len (UOp f a) = len a"
| "len (ConcatN as) = sum_list (map len as)"
| "len (ExtractN high low a) = high + 1 - low"
| "len (ZeroExtN n a) = len a + n"
| "len (SignExtN n a) = len a + n"
| "len (IfBV c a b) = len a"

text \<open>The attribute \<open>symbolic\<close>: some symbol occurs.\<close>

fun symbolic :: "bv \<Rightarrow> bool" and symbolicb :: "bl \<Rightarrow> bool" where
  "symbolic (BVS x n) = True"
| "symbolic (BVVal v n) = False"
| "symbolic (NOp f as) = list_ex symbolic as"
| "symbolic (BOp f a b) = (symbolic a \<or> symbolic b)"
| "symbolic (UOp f a) = symbolic a"
| "symbolic (ConcatN as) = list_ex symbolic as"
| "symbolic (ExtractN h l a) = symbolic a"
| "symbolic (ZeroExtN n a) = symbolic a"
| "symbolic (SignExtN n a) = symbolic a"
| "symbolic (IfBV c a b) = (symbolicb c \<or> symbolic a \<or> symbolic b)"
| "symbolicb (BoolS x) = True"
| "symbolicb (BoolVal p) = False"
| "symbolicb (Cmp f a b) = (symbolic a \<or> symbolic b)"
| "symbolicb (BoolEq p q) = (symbolicb p \<or> symbolicb q)"
| "symbolicb (BoolNe p q) = (symbolicb p \<or> symbolicb q)"
| "symbolicb (AndN ps) = list_ex symbolicb ps"
| "symbolicb (OrN ps) = list_ex symbolicb ps"
| "symbolicb (NotN p) = symbolicb p"
| "symbolicb (IfBool c p q) = (symbolicb c \<or> symbolicb p \<or> symbolicb q)"

section \<open>Values\<close>

text \<open>An assignment gives each bit-vector symbol, by name and width, and each boolean symbol a value.\<close>

datatype env = Env (bv_of: "string \<Rightarrow> nat \<Rightarrow> int") (bool_of: "string \<Rightarrow> bool")

fun nop_val :: "nop \<Rightarrow> int list \<Rightarrow> int" where
  "nop_val NAdd vs = sum_list vs"
| "nop_val NMul vs = prod_list vs"
| "nop_val NAnd vs = foldr (AND) vs (- 1)"
| "nop_val NOr vs = foldr (OR) vs 0"
| "nop_val NXor vs = foldr (XOR) vs 0"

fun bop_val :: "bop \<Rightarrow> nat \<Rightarrow> int \<Rightarrow> int \<Rightarrow> int" where
  "bop_val BSub n v w = v - w"
| "bop_val BShl n v w = push_bit (nat w) v"
| "bop_val BSar n v w = drop_bit (nat w) (signed_take_bit (n - 1) v)"
| "bop_val BLshr n v w = drop_bit (nat w) v"

fun uop_val :: "uop \<Rightarrow> nat \<Rightarrow> int \<Rightarrow> int" where
  "uop_val UInv n v = NOT v"
| "uop_val URev n v = reverse_loop n v 0 (byte_offsets n)"

fun cmp_val :: "cmp \<Rightarrow> nat \<Rightarrow> int \<Rightarrow> int \<Rightarrow> bool" where
  "cmp_val CEq n v w = (v = w)"
| "cmp_val CNe n v w = (v \<noteq> w)"
| "cmp_val CULT n v w = (v < w)"
| "cmp_val CULE n v w = (v \<le> w)"
| "cmp_val CUGT n v w = (w < v)"
| "cmp_val CUGE n v w = (w \<le> v)"
| "cmp_val CSLT n v w = (signed_take_bit (n - 1) v < signed_take_bit (n - 1) w)"
| "cmp_val CSLE n v w = (signed_take_bit (n - 1) v \<le> signed_take_bit (n - 1) w)"
| "cmp_val CSGT n v w = (signed_take_bit (n - 1) w < signed_take_bit (n - 1) v)"
| "cmp_val CSGE n v w = (signed_take_bit (n - 1) w \<le> signed_take_bit (n - 1) v)"

text \<open>A concatenation, most significant part first: widths and values.\<close>

fun cat_val :: "(nat \<times> int) list \<Rightarrow> int" where
  "cat_val [] = 0"
| "cat_val ((n, v) # xs) = push_bit (sum_list (map fst xs)) v OR cat_val xs"

fun bval :: "env \<Rightarrow> bv \<Rightarrow> int" and holds :: "env \<Rightarrow> bl \<Rightarrow> bool" where
  "bval e (BVS x n) = take_bit n (bv_of e x n)"
| "bval e (BVVal v n) = v"
| "bval e (NOp f as) = take_bit (len (NOp f as)) (nop_val f (map (bval e) as))"
| "bval e (BOp f a b) = take_bit (len a) (bop_val f (len a) (bval e a) (bval e b))"
| "bval e (UOp f a) = take_bit (len a) (uop_val f (len a) (bval e a))"
| "bval e (ConcatN as) = cat_val (map (\<lambda>a. (len a, bval e a)) as)"
| "bval e (ExtractN h l a) = take_bit (h + 1 - l) (drop_bit l (bval e a))"
| "bval e (ZeroExtN n a) = bval e a"
| "bval e (SignExtN n a) = take_bit (len a + n) (signed_take_bit (len a - 1) (bval e a))"
| "bval e (IfBV c a b) = (if holds e c then bval e a else bval e b)"
| "holds e (BoolS x) = bool_of e x"
| "holds e (BoolVal p) = p"
| "holds e (Cmp f a b) = cmp_val f (len a) (bval e a) (bval e b)"
| "holds e (BoolEq p q) = (holds e p = holds e q)"
| "holds e (BoolNe p q) = (holds e p \<noteq> holds e q)"
| "holds e (AndN ps) = list_all (holds e) ps"
| "holds e (OrN ps) = list_ex (holds e) ps"
| "holds e (NotN p) = (\<not> holds e p)"
| "holds e (IfBool c p q) = (if holds e c then holds e p else holds e q)"

text \<open>
  Well-formed trees: the widths of the arguments agree (\<open>length_same_check\<close>), an extraction is in
  range (\<open>extract_check\<close>), constants are in range (\<open>BVV\<close>), a byte reversal has whole bytes. An empty
  vector is a constant only, and the operations that the simplifiers always remove do not occur: an
  extension by nothing, a concatenation with an empty part, an operation on fewer than two arguments.
\<close>

fun wf_bv :: "bv \<Rightarrow> bool" and wf_bl :: "bl \<Rightarrow> bool" where
  "wf_bv (BVS x n) = (0 < n)"
| "wf_bv (BVVal v n) = (0 \<le> v \<and> v < 2 ^ n)"
| "wf_bv (NOp f as) = (2 \<le> length as \<and> list_all wf_bv as \<and> list_all (\<lambda>a. len a = len (NOp f as)) as \<and> 0 < len (NOp f as))"
| "wf_bv (BOp f a b) = (wf_bv a \<and> wf_bv b \<and> len b = len a \<and> 0 < len a)"
| "wf_bv (UOp f a) = (wf_bv a \<and> 0 < len a \<and> (f = URev \<longrightarrow> len a mod 8 = 0))"
| "wf_bv (ConcatN as) = (2 \<le> length as \<and> list_all wf_bv as \<and> list_all (\<lambda>a. 0 < len a) as)"
| "wf_bv (ExtractN h l a) = (wf_bv a \<and> l \<le> h \<and> h < len a)"
| "wf_bv (ZeroExtN n a) = (wf_bv a \<and> 0 < len a \<and> 0 < n)"
| "wf_bv (SignExtN n a) = (wf_bv a \<and> 0 < len a \<and> 0 < n)"
| "wf_bv (IfBV c a b) = (wf_bl c \<and> wf_bv a \<and> wf_bv b \<and> len b = len a \<and> 0 < len a)"
| "wf_bl (BoolS x) = True"
| "wf_bl (BoolVal p) = True"
| "wf_bl (Cmp f a b) = (wf_bv a \<and> wf_bv b \<and> len b = len a \<and> 0 < len a)"
| "wf_bl (BoolEq p q) = (wf_bl p \<and> wf_bl q)"
| "wf_bl (BoolNe p q) = (wf_bl p \<and> wf_bl q)"
| "wf_bl (AndN ps) = (2 \<le> length ps \<and> list_all wf_bl ps)"
| "wf_bl (OrN ps) = (2 \<le> length ps \<and> list_all wf_bl ps)"
| "wf_bl (NotN p) = wf_bl p"
| "wf_bl (IfBool c p q) = (wf_bl c \<and> wf_bl p \<and> wf_bl q)"

section \<open>Evaluation by the concrete backend\<close>

text \<open>
  \<open>Backend.convert\<close> with the operations of the concrete backend: the arguments first, then the
  operation. A symbol has no value there.
\<close>

fun nop_code :: "nop \<Rightarrow> claripy_op" where
  "nop_code NAdd = Op_add" | "nop_code NMul = Op_mul" | "nop_code NAnd = Op_and"
| "nop_code NOr = Op_or" | "nop_code NXor = Op_xor"

fun bop_code :: "bop \<Rightarrow> claripy_op" where
  "bop_code BSub = Op_sub" | "bop_code BShl = Op_lshift" | "bop_code BSar = Op_rshift"
| "bop_code BLshr = Op_LShR"

fun uop_code :: "uop \<Rightarrow> claripy_op" where
  "uop_code UInv = Op_invert" | "uop_code URev = Op_Reverse"

fun cmp_code :: "cmp \<Rightarrow> claripy_op" where
  "cmp_code CEq = Op_eq" | "cmp_code CNe = Op_ne" | "cmp_code CULT = Op_ULT"
| "cmp_code CULE = Op_ULE" | "cmp_code CUGT = Op_UGT" | "cmp_code CUGE = Op_UGE"
| "cmp_code CSLT = Op_SLT" | "cmp_code CSLE = Op_SLE" | "cmp_code CSGT = Op_SGT"
| "cmp_code CSGE = Op_SGE"

definition apply_op :: "claripy_op \<Rightarrow> carg res list \<Rightarrow> carg res" where
  "apply_op f ms = bind_res (list_res ms) (op_raw f)"

fun bool_compare :: "(bool \<Rightarrow> bool \<Rightarrow> bool) \<Rightarrow> carg res \<Rightarrow> carg res \<Rightarrow> carg res" where
  "bool_compare f (Inr (CBool p)) (Inr (CBool q)) = Inr (CBool (f p q))"
| "bool_compare f (Inl err) y = Inl err"
| "bool_compare f (Inr x) (Inl err) = Inl err"
| "bool_compare f (Inr x) (Inr y) = Inl TypeError"

fun convert_bv :: "bv \<Rightarrow> carg res" and convert_bl :: "bl \<Rightarrow> carg res" where
  "convert_bv (BVS x n) = Inl BackendError"
| "convert_bv (BVVal v n) = apply_op Op_BVV [Inr (CInt v), Inr (CInt (int n))]"
| "convert_bv (NOp f as) = apply_op (nop_code f) (map convert_bv as)"
| "convert_bv (BOp f a b) = apply_op (bop_code f) [convert_bv a, convert_bv b]"
| "convert_bv (UOp f a) = apply_op (uop_code f) [convert_bv a]"
| "convert_bv (ConcatN as) = apply_op Op_Concat (map convert_bv as)"
| "convert_bv (ExtractN h l a) = apply_op Op_Extract [Inr (CInt (int h)), Inr (CInt (int l)), convert_bv a]"
| "convert_bv (ZeroExtN n a) = apply_op Op_ZeroExt [Inr (CInt (int n)), convert_bv a]"
| "convert_bv (SignExtN n a) = apply_op Op_SignExt [Inr (CInt (int n)), convert_bv a]"
| "convert_bv (IfBV c a b) = apply_op Op_If [convert_bl c, convert_bv a, convert_bv b]"
| "convert_bl (BoolS x) = Inl BackendError"
| "convert_bl (BoolVal p) = Inr (CBool p)"
| "convert_bl (Cmp f a b) = apply_op (cmp_code f) [convert_bv a, convert_bv b]"
| "convert_bl (BoolEq p q) = bool_compare (=) (convert_bl p) (convert_bl q)"
| "convert_bl (BoolNe p q) = bool_compare (\<noteq>) (convert_bl p) (convert_bl q)"
| "convert_bl (AndN ps) = apply_op Op_BoolAnd (map convert_bl ps)"
| "convert_bl (OrN ps) = apply_op Op_BoolOr (map convert_bl ps)"
| "convert_bl (NotN p) = apply_op Op_BoolNot [convert_bl p]"
| "convert_bl (IfBool c p q) = apply_op Op_If [convert_bl c, convert_bl p, convert_bl q]"

section \<open>Values stay in range\<close>

lemma wf_NOp_args: "wf_bv (NOp f as) \<Longrightarrow> a \<in> set as \<Longrightarrow> wf_bv a \<and> len a = len (NOp f as) \<and> 0 < len a"
  by (simp add: list_all_iff)

lemma len_NOp: "as \<noteq> [] \<Longrightarrow> len (NOp f as) = len (hd as)"
  by (cases as) simp_all

lemma bit_cat_val_Cons:
  assumes "\<And>i. bit v i \<Longrightarrow> i < n" and "\<And>i. bit (cat_val xs) i \<Longrightarrow> i < sum_list (map fst xs)"
  shows "bit (cat_val ((n, v) # xs)) i \<Longrightarrow> i < n + sum_list (map fst xs)"
  using assms by (fastforce simp: bit_or_iff bit_push_bit_iff)

lemma bit_cat_val: "(\<And>n v i. (n, v) \<in> set xs \<Longrightarrow> bit v i \<Longrightarrow> i < n) \<Longrightarrow> bit (cat_val xs) i \<Longrightarrow> i < sum_list (map fst xs)"
proof (induction xs arbitrary: i)
  case (Cons x xs)
  obtain n v where x: "x = (n, v)" by (cases x)
  show ?case using bit_cat_val_Cons [of v n xs i] Cons x by auto
qed simp

lemma nonneg_bit_range:
  assumes "take_bit n v = (v :: int)" and "bit v i"
  shows "i < n"
  using assms by (metis bit_take_bit_iff)

lemma take_bit_selfI: "(\<And>i. bit v i \<Longrightarrow> i < n) \<Longrightarrow> take_bit n v = (v :: int)"
  by (rule bit_eqI) (auto simp: bit_take_bit_iff)

lemma bval_in_width:
  "wf_bv a \<Longrightarrow> take_bit (len a) (bval e a) = bval e a" and "wf_bl p \<Longrightarrow> True"
proof (induction a and p rule: wf_bv_wf_bl.induct)
  case (6 as)
  have "i < n" if "(n, v) \<in> set (map (\<lambda>a. (len a, bval e a)) as)" "bit v i" for n v i
    using that 6 by (auto simp: list_all_iff intro: nonneg_bit_range)
  from bit_cat_val [OF this] show ?case
    by (intro take_bit_selfI) (fastforce simp: o_def)
next
  case (8 n a)
  then show ?case by (auto intro!: take_bit_selfI dest: nonneg_bit_range)
qed (auto simp: take_bit_int_eq_self)

lemma bval_range:
  assumes "wf_bv a"
  shows "0 \<le> bval e a" and "bval e a < 2 ^ len a"
  using bval_in_width [OF assms, of e] by (metis take_bit_nonnegative, metis take_bit_int_less_exp)

lemma bit_bval: "wf_bv a \<Longrightarrow> bit (bval e a) i \<Longrightarrow> i < len a"
  using bval_in_width by (rule nonneg_bit_range)

text \<open>The value of a tree without symbols is the same under each assignment.\<close>

lemma not_symbolic_value:
  "\<not> symbolic a \<Longrightarrow> bval e a = bval e' a"
  and not_symbolic_holds: "\<not> symbolicb p \<Longrightarrow> holds e p = holds e' p"
proof (induction a and p rule: symbolic_symbolicb.induct)
  case (3 f as)
  then have "map (bval e) as = map (bval e') as" by (auto simp: list_ex_iff)
  then show ?case by (simp only: bval.simps)
next
  case (6 as)
  then have "map (\<lambda>a. (len a, bval e a)) as = map (\<lambda>a. (len a, bval e' a)) as" by (auto simp: list_ex_iff)
  then show ?case by (simp only: bval.simps)
qed (auto simp: list_ex_iff list_all_iff)

section \<open>The values are those of the concrete backend\<close>

lemma reduce_bvv:
  assumes "\<And>x y. f (Bv (bvv n x)) (Bv (bvv n y)) = Inr (bvv n (g x y))"
  shows "reduce_op f (map (bvv n) (v # vs)) = Inr (bvv n (foldl g v vs))"
  by (induction vs arbitrary: v) (simp_all add: assms)

lemma foldl_foldr:
  assumes "\<And>x y w. g (g x y) w = g x (g y w)" and "\<And>x. g x z = x"
  shows "foldl g v vs = g v (foldr g vs z)"
  by (induction vs arbitrary: v) (simp_all add: assms)

lemma bv_args_map: "bv_args (map (\<lambda>v. CBv (h v)) vs) = Inr (map h vs)"
  by (induction vs) simp_all

lemma bool_args_map: "bool_args (map (\<lambda>v. CBool (h v)) vs) = Inr (map h vs)"
  by (induction vs) simp_all

lemma list_res_map: "(\<And>x. x \<in> set xs \<Longrightarrow> f x = Inr (g x)) \<Longrightarrow> list_res (map f xs) = Inr (map g xs)"
  by (induction xs) simp_all

lemma reduce_args_nop:
  assumes "0 < n"
  shows "op_raw (nop_code f) (map (\<lambda>v. CBv (bvv n v)) (v # vs)) = Inr (CBv (bvv n (nop_val f (v # vs))))"
proof -
  have "bv_args (CBv (bvv n v) # map (\<lambda>v. CBv (bvv n v)) vs) = Inr (map (bvv n) (v # vs))"
    using bv_args_map [of "bvv n" "v # vs"] by simp
  moreover have "reduce_op BVV_add (map (bvv n) (v # vs)) = Inr (bvv n (nop_val NAdd (v # vs)))"
    "reduce_op BVV_mul (map (bvv n) (v # vs)) = Inr (bvv n (nop_val NMul (v # vs)))"
    "reduce_op BVV_and (map (bvv n) (v # vs)) = Inr (bvv n (nop_val NAnd (v # vs)))"
    "reduce_op BVV_or (map (bvv n) (v # vs)) = Inr (bvv n (nop_val NOr (v # vs)))"
    "reduce_op BVV_xor (map (bvv n) (v # vs)) = Inr (bvv n (nop_val NXor (v # vs)))"
    using assms reduce_bvv [of BVV_add n "(+)" v vs] reduce_bvv [of BVV_mul n "(*)" v vs]
      reduce_bvv [of BVV_and n "(AND)" v vs] reduce_bvv [of BVV_or n "(OR)" v vs]
      reduce_bvv [of BVV_xor n "(XOR)" v vs]
      foldl_foldr [of "(+)" 0 v vs] foldl_foldr [of "(*)" 1 v vs] foldl_foldr [of "(AND)" "- 1" v vs]
      foldl_foldr [of "(OR)" 0 v vs] foldl_foldr [of "(XOR)" 0 v vs]
    by (simp_all add: bv_simps ac_simps sum_list.eq_foldr prod_list.eq_foldr)
  ultimately show ?thesis by (cases f) (simp_all add: reduce_args_def)
qed

lemma concat_value_cat:
  "concat_value v (map (\<lambda>(n, w). bvv n w) xs) =
     push_bit (sum_list (map fst xs)) v OR cat_val (map (\<lambda>(n, w). (n, take_bit n w)) xs)"
proof (induction xs arbitrary: v)
  case (Cons x xs)
  have "sum_list (map (fst \<circ> (\<lambda>(n, w). (n, take_bit n w))) ys) = sum_list (map fst ys)"
    for ys :: "(nat \<times> int) list"
    by (induction ys) auto
  with Cons show ?case by (cases x) (simp add: or.assoc add.commute)
qed simp

lemma convert_value:
  "wf_bv a \<Longrightarrow> \<not> symbolic a \<Longrightarrow> convert_bv a = Inr (CBv (bvv (len a) (bval e a)))"
  and convert_value_bl: "wf_bl p \<Longrightarrow> \<not> symbolicb p \<Longrightarrow> convert_bl p = Inr (CBool (holds e p))"
proof (induction a and p rule: wf_bv_wf_bl.induct)
  case (2 v n)
  then show ?case
    by (cases "n = 0") (auto simp: apply_op_def BVV_init_eq_Inr)
next
  case (3 f as)
  let ?n = "len (NOp f as)"
  have "map convert_bv as = map (\<lambda>a. Inr (CBv (bvv ?n (bval e a)))) as"
    using 3 by (auto simp: list_all_iff list_ex_iff)
  moreover obtain b bs where "as = b # bs" using 3 by (cases as) auto
  ultimately show ?case
    using 3 reduce_args_nop [of ?n f "bval e b" "map (bval e) bs"]
    by (simp add: apply_op_def list_res_map [where g = "\<lambda>a. CBv (bvv ?n (bval e a))"] bvv_eq_iff o_def)
next
  case (4 f a b)
  moreover from 4 have "take_bit (len a) (bval e b) = bval e b" using bval_in_width [of b e] by simp
  ultimately show ?case
    by (cases f) (simp_all add: apply_op_def bv_simps bvv_eq_iff bval_in_width reduce_args_def)
next
  case (5 f a)
  then show ?case
    by (cases f) (auto simp: apply_op_def bv_simps bvv_eq_iff bval_in_width Reverse_bvv)
next
  case (6 as)
  have "list_res (map convert_bv as) = Inr (map (\<lambda>a. CBv (bvv (len a) (bval e a))) as)"
    by (rule list_res_map) (use 6 in \<open>auto simp: list_all_iff list_ex_iff\<close>)
  moreover have "0 < sum_list (map len as)" using 6 by (cases as) auto
  moreover have "map (\<lambda>a. (len a, take_bit (len a) (bval e a))) as = map (\<lambda>a. (len a, bval e a)) as"
    using 6 by (auto simp: list_all_iff bval_in_width)
  then have "concat_value 0 (map (\<lambda>a. bvv (len a) (bval e a)) as) = bval e (ConcatN as)"
    using concat_value_cat [of 0 "map (\<lambda>a. (len a, bval e a)) as"] by (simp add: o_def del: map_eq_conv)
  ultimately show ?case by (simp add: apply_op_def bv_args_map Concat_eq o_def)
next
  case (7 h l a)
  then show ?case
    by (auto simp: apply_op_def bv_simps bvv_eq_iff bval_in_width nat_add_distrib of_nat_diff nat_diff_distrib)
next
  case (8 n a)
  then show ?case by (auto simp: apply_op_def bv_simps bvv_eq_iff bval_in_width nat_add_distrib)
next
  case (9 n a)
  then show ?case by (auto simp: apply_op_def bv_simps bvv_eq_iff bval_in_width nat_add_distrib)
next
  case (13 f a b)
  moreover from 13 have "take_bit (len a) (bval e b) = bval e b" using bval_in_width [of b e] by simp
  ultimately show ?case by (cases f) (auto simp: apply_op_def bv_simps bval_in_width)
next
  case (16 ps)
  have "list_res (map convert_bl ps) = Inr (map (\<lambda>p. CBool (holds e p)) ps)"
    by (rule list_res_map) (use 16 in \<open>auto simp: list_all_iff list_ex_iff\<close>)
  then show ?case by (simp add: apply_op_def bool_args_map And_all_def list_all_iff)
next
  case (17 ps)
  have "list_res (map convert_bl ps) = Inr (map (\<lambda>p. CBool (holds e p)) ps)"
    by (rule list_res_map) (use 17 in \<open>auto simp: list_all_iff list_ex_iff\<close>)
  then show ?case by (simp add: apply_op_def bool_args_map Or_any_def list_ex_iff)
qed (auto simp: apply_op_def Not_bool_def bvv_eq_iff)



end
