(* ===== verification/Simplifications.thy ===== *)
theory Simplifications
  imports Claripy_AST "HOL-Library.Monad_Syntax"
begin

text \<open>
  The simplifiers of claripy (\<open>claripy/simplifications.py\<close>). Each operation of the interface first asks its
  simplifier for a replacement (\<open>operations.op\<close>, \<open>simplify\<close>) and builds the plain node only when
  there is none. The simplifiers build their results with the operations again, so each definition
  here takes the table of the operations, a \<open>ctors\<close>, as a parameter; \<open>step\<close> is one level of the mutual
  recursion, and \<open>ctors_at n\<close> is the table in which operations nest at most \<open>n\<close> deep. A simplifier
  returns \<open>None\<close> where Python returns \<open>None\<close>.
\<close>

section \<open>Nodes\<close>

text \<open>
  \<open>Base.__new__\<close>: an operation without symbols is evaluated by the concrete backend, unless the
  backend cannot.
\<close>

definition node :: "bv \<Rightarrow> bv" where
  "node a =
     (if symbolic a then a
      else case convert_bv a of
             Inr (CBv v) \<Rightarrow> BVVal (bv_value v) (bits v)
           | _ \<Rightarrow> a)"

definition nodeb :: "bl \<Rightarrow> bl" where
  "nodeb p =
     (if symbolicb p then p
      else case convert_bl p of
             Inr (CBool b) \<Rightarrow> BoolVal b
           | _ \<Rightarrow> p)"

text \<open>\<open>is_true\<close> and \<open>is_false\<close> (\<open>algorithm/bool_check.py\<close>): what the concrete backend can tell.\<close>

definition is_true :: "bl \<Rightarrow> bool" where
  "is_true p \<longleftrightarrow> convert_bl p = Inr (CBool True)"

definition is_false :: "bl \<Rightarrow> bool" where
  "is_false p \<longleftrightarrow> convert_bl p = Inr (CBool False)"

text \<open>\<open>BV._from_int\<close>: a Python integer beside a bit-vector.\<close>

definition bvv_like :: "bv \<Rightarrow> int \<Rightarrow> bv" where
  "bvv_like like value =
     (let n = (if len like = 0 then 64 else len like) in BVVal (take_bit n value) n)"

section \<open>The table of operations\<close>

record ctors =
  mk_cmp :: "cmp \<Rightarrow> bv \<Rightarrow> bv \<Rightarrow> bl"
  mk_beq :: "bl \<Rightarrow> bl \<Rightarrow> bl"
  mk_bne :: "bl \<Rightarrow> bl \<Rightarrow> bl"
  mk_nop :: "nop \<Rightarrow> bv list \<Rightarrow> bv"
  mk_bop :: "bop \<Rightarrow> bv \<Rightarrow> bv \<Rightarrow> bv"
  mk_uop :: "uop \<Rightarrow> bv \<Rightarrow> bv"
  mk_concat :: "bv list \<Rightarrow> bv"
  mk_extract :: "nat \<Rightarrow> nat \<Rightarrow> bv \<Rightarrow> bv"
  mk_zext :: "nat \<Rightarrow> bv \<Rightarrow> bv"
  mk_sext :: "nat \<Rightarrow> bv \<Rightarrow> bv"
  mk_if :: "bl \<Rightarrow> bv \<Rightarrow> bv \<Rightarrow> bv"
  mk_ifb :: "bl \<Rightarrow> bl \<Rightarrow> bl \<Rightarrow> bl"
  mk_and :: "bl list \<Rightarrow> bl"
  mk_or :: "bl list \<Rightarrow> bl"
  mk_not :: "bl \<Rightarrow> bl"

text \<open>The test \<open>(a == v).is_true()\<close> with an integer \<open>v\<close>.\<close>

definition equals :: "ctors \<Rightarrow> bv \<Rightarrow> int \<Rightarrow> bool" where
  "equals k a v \<longleftrightarrow> is_true (mk_cmp k CEq a (bvv_like a v))"

definition same :: "ctors \<Rightarrow> bv \<Rightarrow> bv \<Rightarrow> bool" where
  "same k a b \<longleftrightarrow> is_true (mk_cmp k CEq a b)"

fun is_concat :: "bv \<Rightarrow> bool" where
  "is_concat (ConcatN as) = True"
| "is_concat _ = False"

fun is_bvv :: "bv \<Rightarrow> bool" where
  "is_bvv (BVVal v n) = True"
| "is_bvv _ = False"

fun bvv_val :: "bv \<Rightarrow> int option" where
  "bvv_val (BVVal v n) = Some v"
| "bvv_val _ = None"

fun two :: "'a list \<Rightarrow> ('a \<times> 'a) option" where
  "two [x, y] = Some (x, y)"
| "two _ = None"

definition bvv_is :: "int \<Rightarrow> bv \<Rightarrow> bool" where
  "bvv_is v a = (case a of BVVal w _ \<Rightarrow> w = v | _ \<Rightarrow> False)"

fun is_reverse :: "bv \<Rightarrow> bool" where
  "is_reverse (UOp URev a) = True"
| "is_reverse _ = False"

text \<open>Early returns in sequence.\<close>

definition orelse :: "'a option \<Rightarrow> 'a option \<Rightarrow> 'a option" where
  "orelse x y = (case x of None \<Rightarrow> y | Some v \<Rightarrow> Some v)"

section \<open>Concat\<close>

text \<open>The first loop: consecutive constants are joined.\<close>

function merge_concrete :: "ctors \<Rightarrow> bv list \<Rightarrow> bv list" where
  "merge_concrete k (previous # current # as) =
     (let concatted = mk_concat k [previous, current] in
      if \<not> (symbolic previous \<or> symbolic current) \<and> \<not> is_concat concatted
      then merge_concrete k (concatted # as)
      else previous # merge_concrete k (current # as))"
| "merge_concrete k [a] = [a]"
| "merge_concrete k [] = []"
  by pat_completeness auto
termination by (relation "measure (\<lambda>(k, as). length as)") auto

text \<open>The second loop: empty parts go, nested concatenations are spliced in.\<close>

definition flatten_concat :: "bv list \<Rightarrow> bv list" where
  "flatten_concat as =
     concat (map (\<lambda>a. if len a = 0 then [] else case a of ConcatN bs \<Rightarrow> bs | _ \<Rightarrow> [a]) as)"

text \<open>
  The third loop: adjacent extractions from one value are joined. The arguments already passed are
  kept in reverse; \<open>prev\<close> holds \<open>prev_left\<close>, \<open>prev_right\<close> and \<open>prev_var\<close>.
\<close>

fun merge_extracts ::
  "ctors \<Rightarrow> (nat \<times> nat \<times> bv) option \<Rightarrow> bv list \<Rightarrow> bv list \<Rightarrow> bool \<Rightarrow> bool \<times> bv list" where
  "merge_extracts k prev passed [] simplified = (simplified, rev passed)"
| "merge_extracts k prev passed (a # as) simplified =
     (case a of
        ExtractN high low var \<Rightarrow>
          (case prev of
             Some (prev_left, prev_right, prev_var) \<Rightarrow>
               if prev_var = var \<and> prev_right = high + 1
               then merge_extracts k (Some (prev_left, low, prev_var))
                      (mk_extract k prev_left low prev_var # tl passed) as True
               else merge_extracts k (Some (high, low, var)) (a # passed) as simplified
           | None \<Rightarrow> merge_extracts k (Some (high, low, var)) (a # passed) as simplified)
      | _ \<Rightarrow> merge_extracts k None (a # passed) as simplified)"

definition concat_simplifier :: "ctors \<Rightarrow> bv list \<Rightarrow> bv option" where
  "concat_simplifier k orig_args =
     (if length orig_args = 1 then Some (hd orig_args)
      else
        let args = (if list_ex symbolic orig_args then merge_concrete k orig_args else orig_args);
            simplified = (length args < length orig_args \<or> list_ex (\<lambda>a. len a = 0 \<or> is_concat a) args);
            (simplified, args) = merge_extracts k None [] (flatten_concat args) simplified
        in if simplified then Some (mk_concat k args) else None)"

section \<open>Shifts\<close>

text \<open>The two right shifts share their text: a value whose high part is zero is shifted out.\<close>

definition shifted_out :: "ctors \<Rightarrow> bv \<Rightarrow> bv \<Rightarrow> bool" where
  "shifted_out k val shift =
     (case val of
        ConcatN (v # vs) \<Rightarrow>
          equals k v 0 \<and> is_true (mk_cmp k CUGT shift (bvv_like shift (int (len val - len v))))
      | ZeroExtN n v \<Rightarrow> is_true (mk_cmp k CUGT shift (bvv_like shift (int (len val - n))))
      | _ \<Rightarrow> False)"

definition rshift_simplifier :: "ctors \<Rightarrow> bv \<Rightarrow> bv \<Rightarrow> bv option" where
  "rshift_simplifier k val shift =
     (if equals k shift 0 then Some val
      else if shifted_out k val shift then Some (BVVal 0 (len val))
      else None)"

definition lshr_simplifier :: "ctors \<Rightarrow> bv \<Rightarrow> bv \<Rightarrow> bv option" where
  "lshr_simplifier k val shift =
     (if equals k shift 0 then Some val
      else if shifted_out k val shift then Some (BVVal 0 (len val))
      else None)"

definition lshift_simplifier :: "ctors \<Rightarrow> bv \<Rightarrow> bv \<Rightarrow> bv option" where
  "lshift_simplifier k val shift =
     (if equals k shift 0 then Some val
      else case val of
             BOp BShl real_val inner_shift \<Rightarrow>
               Some (mk_bop k BShl real_val (mk_nop k NAdd [inner_shift, shift]))
           | _ \<Rightarrow> None)"

section \<open>Comparisons\<close>

text \<open>\<open>and_mask_comparing_against_constant_simplifier\<close>, with the loop over the bits of the mask.\<close>

function mask_bits :: "int \<Rightarrow> nat \<Rightarrow> bool \<Rightarrow> nat \<times> bool" where
  "mask_bits v zero_bits mask_allones =
     (if v \<le> 0 then (zero_bits, mask_allones)
      else mask_bits (drop_bit 1 v) (zero_bits - 1) (mask_allones \<and> v AND 1 = 0))"
  by pat_completeness auto
termination
  by (relation "measure (\<lambda>(v, z, m). nat v)") (auto simp: drop_bit_eq_div)

declare mask_bits.simps [simp del]

fun and_mask_comparing_against_constant_simplifier ::
  "ctors \<Rightarrow> cmp \<Rightarrow> bv \<Rightarrow> bv \<Rightarrow> bl option" where
  "and_mask_comparing_against_constant_simplifier k f (NOp NAnd [a_arg0, BVVal m n]) b =
     (let (zero_bits, mask_allones) = mask_bits m n True;
          b_higher = mk_extract k (len b - 1) (len b - zero_bits) b
      in
      if f \<notin> {CEq, CNe} \<or> \<not> is_bvv b \<or> zero_bits = 0 then None
      else if equals k b_higher 0 then
        if zero_bits = len b then Some (mk_cmp k f (BVVal 0 (len b)) b)
        else
          let idx = len b - 1 - zero_bits;
              b_highbit_idx =
                (if len b mod 8 = 0 \<and> (idx + 1) mod 8 \<noteq> 0 then idx + (8 - (idx + 1) mod 8) else idx);
              b_lower = mk_extract k b_highbit_idx 0 b;
              a_lower = mk_extract k b_highbit_idx 0 a_arg0
          in
          if mask_allones then Some (mk_cmp k f a_lower b_lower)
          else if b_highbit_idx = len b - 1 then None
          else Some (mk_cmp k f (mk_nop k NAnd [a_lower, bvv_like a_lower m]) b_lower)
      else if is_false (mk_cmp k CEq b_higher (bvv_like b_higher 0)) then
        Some (BoolVal (f \<noteq> CEq))
      else None)"
| "and_mask_comparing_against_constant_simplifier k f _ b = None"

text \<open>The value that \<open>Extract(hi, 0, ...)\<close> sees as zero-extended, when its high bits are zero.\<close>

fun zero_extended :: "nat \<Rightarrow> bv \<Rightarrow> bv option" where
  "zero_extended a_hi (ConcatN [a_concat_expr0, a_inner_expr]) =
     (if bvv_is 0 a_concat_expr0 \<and> len a_concat_expr0 \<ge> len (ConcatN [a_concat_expr0, a_inner_expr]) - a_hi
      then Some a_inner_expr else None)"
| "zero_extended a_hi (ZeroExtN a_zeroext_bits a_inner_expr) =
     (if a_zeroext_bits \<ge> len (ZeroExtN a_zeroext_bits a_inner_expr) - a_hi then Some a_inner_expr else None)"
| "zero_extended a_hi _ = None"

definition zeroext_extract_comparing_against_constant_simplifier ::
  "ctors \<Rightarrow> cmp \<Rightarrow> bv \<Rightarrow> bv \<Rightarrow> bl option" where
  "zeroext_extract_comparing_against_constant_simplifier k f a b =
     (case a of
        ExtractN a_hi low a_arg \<Rightarrow>
          if low \<noteq> 0 then None
          else (case zero_extended a_hi a_arg of
                  None \<Rightarrow> None
                | Some a_inner_expr \<Rightarrow>
                    let to_extend = len b - len a_inner_expr in
                    if to_extend = 0 then Some (mk_cmp k f a_inner_expr b)
                    else Some (mk_cmp k f (mk_zext k to_extend a_inner_expr) b))
      | _ \<Rightarrow> None)"

text \<open>The number of high bits that an extension or a zero in front makes zero, and what is below.\<close>

fun zero_high_bits :: "bv \<Rightarrow> (nat \<times> bv) option" where
  "zero_high_bits (ZeroExtN a_zeroext_bits inner) = Some (a_zeroext_bits, inner)"
| "zero_high_bits (ConcatN [zero, inner]) = (if bvv_is 0 zero then Some (len zero, inner) else None)"
| "zero_high_bits _ = None"

definition zeroext_comparing_against_simplifier :: "ctors \<Rightarrow> cmp \<Rightarrow> bv \<Rightarrow> bv \<Rightarrow> bl option" where
  "zeroext_comparing_against_simplifier k f a b =
     (if f \<notin> {CEq, CNe, CUGE} \<or> \<not> is_bvv b then None
      else case zero_high_bits a of
             None \<Rightarrow> None
           | Some (removable_high_bits, inner) \<Rightarrow>
               let b_highbits = mk_extract k (len b - 1) (len b - removable_high_bits) b in
               if equals k b_highbits 0 then
                 Some (mk_cmp k f inner (mk_extract k (len b - removable_high_bits - 1) 0 b))
               else if is_false (mk_cmp k CEq b_highbits (bvv_like b_highbits 0)) then Some (BoolVal (f = CNe))
               else None)"

text \<open>
  The rules on \<open>x ^ y == 0\<close>, with \<open>f\<close> for \<open>==\<close> and \<open>g\<close> for \<open>!=\<close>; \<open>ne_simplifier\<close> has them with the two
  exchanged. \<open>xor_mask\<close> is the value compared with zero for \<open>x\<close> masked with \<open>y\<close>, the mask second or first.
\<close>

fun xor_mask :: "ctors \<Rightarrow> bv \<Rightarrow> bv \<Rightarrow> bv option" where
  "xor_mask k (NOp NAnd (z0 # z1 # zs)) (BVVal m n) =
     (if bvv_is m z1 then Some (NOp NAnd (z0 # z1 # zs))
      else if bvv_is m z0 then Some (mk_nop k NAnd [z1, z0])
      else None)"
| "xor_mask k _ _ = None"

fun xor_zero_simplifier :: "ctors \<Rightarrow> cmp \<Rightarrow> cmp \<Rightarrow> bv \<Rightarrow> bv \<Rightarrow> bl option" where
  "xor_zero_simplifier k f g (NOp NXor [x, y]) b =
     (if \<not> bvv_is 0 b then None
      else if bvv_is 1 y then Some (mk_cmp k f x (bvv_like x 1))
      else if bvv_is 1 x then Some (mk_cmp k f y (bvv_like y 1))
      else map_option (\<lambda>z. mk_cmp k g z (bvv_like z 0)) (xor_mask k x y))"
| "xor_zero_simplifier k f g _ b = None"

text \<open>\<open>SIMPLE_OPS\<close>, and the loop that compares the constant low bits.\<close>

fun simple_op :: "bv \<Rightarrow> bool" where
  "simple_op (ConcatN as) = True"
| "simple_op (SignExtN n a) = True"
| "simple_op (ZeroExtN n a) = True"
| "simple_op _ = False"

fun bits_differ :: "ctors \<Rightarrow> (bv \<Rightarrow> bv \<Rightarrow> bool) \<Rightarrow> bv \<Rightarrow> bv \<Rightarrow> nat list \<Rightarrow> bool" where
  "bits_differ k differ a b [] = False"
| "bits_differ k differ a b (i # is) =
     (let a_bit = mk_extract k i i a; b_bit = mk_extract k i i b in
      if symbolic a_bit then False
      else if symbolic b_bit then False
      else if differ a_bit b_bit then True
      else bits_differ k differ a b is)"

fun if_args :: "bv \<Rightarrow> (bl \<times> bv \<times> bv) option" where
  "if_args (IfBV c x y) = Some (c, x, y)"
| "if_args _ = None"

fun if_bool_args :: "bl \<Rightarrow> (bl \<times> bl \<times> bl) option" where
  "if_bool_args (IfBool c x y) = Some (c, x, y)"
| "if_bool_args _ = None"

definition eq_if_simplifier :: "ctors \<Rightarrow> bv \<Rightarrow> bv \<Rightarrow> bl option" where
  "eq_if_simplifier k a b =
     orelse
       (case if_args a of
          Some (c, x, y) \<Rightarrow>
            if x = b \<and> is_true (mk_cmp k CNe y b) then Some c
            else if y = b \<and> is_true (mk_cmp k CNe x b) then Some (mk_not k c)
            else None
        | _ \<Rightarrow> None)
       (case if_args b of
          Some (c, x, y) \<Rightarrow>
            if x = a \<and> is_true (mk_cmp k CNe y b) then Some c
            else if y = a \<and> is_true (mk_cmp k CNe x a) then Some (mk_not k c)
            else None
        | _ \<Rightarrow> None)"

definition ne_if_simplifier :: "ctors \<Rightarrow> bv \<Rightarrow> bv \<Rightarrow> bl option" where
  "ne_if_simplifier k a b =
     orelse
       (case if_args a of
          Some (c, x, y) \<Rightarrow>
            if y = b \<and> is_true (mk_cmp k CNe x b) then Some c
            else if x = b \<and> is_true (mk_cmp k CNe y b) then Some (mk_not k c)
            else None
        | _ \<Rightarrow> None)
       (case if_args b of
          Some (c, x, y) \<Rightarrow>
            if y = a \<and> is_true (mk_cmp k CNe x a) then Some c
            else if x = a \<and> is_true (mk_cmp k CNe y a) then Some (mk_not k c)
            else None
        | _ \<Rightarrow> None)"

fun both_reversed :: "bv \<Rightarrow> bv \<Rightarrow> (bv \<times> bv) option" where
  "both_reversed (UOp URev x) (UOp URev y) = Some (x, y)"
| "both_reversed _ _ = None"

text \<open>\<open>expr - c1 == c2\<close> becomes \<open>expr == c1 + c2\<close>.\<close>

fun eq_sub_simplifier :: "ctors \<Rightarrow> bv \<Rightarrow> bv \<Rightarrow> bl option" where
  "eq_sub_simplifier k (BOp BSub x y) b =
     (if is_bvv y \<and> is_bvv b then Some (mk_cmp k CEq x (mk_nop k NAdd [y, b])) else None)"
| "eq_sub_simplifier k _ b = None"

definition eq_bits_simplifier :: "ctors \<Rightarrow> bv \<Rightarrow> bv \<Rightarrow> bl option" where
  "eq_bits_simplifier k a b =
     (if (simple_op a \<or> simple_op b) \<and> len a > 1 \<and> len a = len b
         \<and> bits_differ k (\<lambda>x y. is_false (mk_cmp k CEq x y)) a b [0..<len a]
      then Some (BoolVal False) else None)"

definition eq_simplifier :: "ctors \<Rightarrow> bv \<Rightarrow> bv \<Rightarrow> bl option" where
  "eq_simplifier k a b =
     (if a = b then Some (BoolVal True)
      else case both_reversed a b of
        Some (x, y) \<Rightarrow> Some (mk_cmp k CEq x y)
      | None \<Rightarrow>
        if is_bvv a \<and> \<not> is_bvv b then Some (mk_cmp k CEq b a)
        else
        orelse (eq_sub_simplifier k a b)
        (orelse (xor_zero_simplifier k CEq CNe a b)
        (orelse (eq_if_simplifier k a b)
        (orelse (and_mask_comparing_against_constant_simplifier k CEq a b)
        (orelse (zeroext_extract_comparing_against_constant_simplifier k CEq a b)
        (orelse (zeroext_comparing_against_simplifier k CEq a b)
          (eq_bits_simplifier k a b)))))))"

text \<open>
  In \<open>ne_simplifier\<close> the test \<open>a.op == SIMPLE_OPS\<close> compares a string with a tuple: it never holds.
\<close>

definition ne_bits_simplifier :: "ctors \<Rightarrow> bv \<Rightarrow> bv \<Rightarrow> bl option" where
  "ne_bits_simplifier k a b =
     (if simple_op b \<and> len a > 1 \<and> len a = len b
         \<and> bits_differ k (\<lambda>x y. is_true (mk_cmp k CNe x y)) a b [0..<len a]
      then Some (BoolVal True) else None)"

definition ne_simplifier :: "ctors \<Rightarrow> bv \<Rightarrow> bv \<Rightarrow> bl option" where
  "ne_simplifier k a b =
     (if a = b then Some (BoolVal False)
      else case both_reversed a b of
        Some (x, y) \<Rightarrow> Some (mk_cmp k CNe x y)
      | None \<Rightarrow>
        if is_bvv a \<and> \<not> is_bvv b then Some (mk_cmp k CNe b a)
        else
        orelse (ne_if_simplifier k a b)
        (orelse (xor_zero_simplifier k CNe CEq a b)
        (orelse (and_mask_comparing_against_constant_simplifier k CNe a b)
        (orelse (zeroext_extract_comparing_against_constant_simplifier k CNe a b)
        (orelse (zeroext_comparing_against_simplifier k CNe a b)
          (ne_bits_simplifier k a b))))))"

definition ge_simplifier :: "ctors \<Rightarrow> bv \<Rightarrow> bv \<Rightarrow> bl option" where
  "ge_simplifier k a b = zeroext_comparing_against_simplifier k CUGE a b"

text \<open>The two simplifiers on booleans: the rules of the other sorts do not apply.\<close>

definition beq_simplifier :: "ctors \<Rightarrow> bl \<Rightarrow> bl \<Rightarrow> bl option" where
  "beq_simplifier k a b =
     (if a = b then Some (BoolVal True)
      else if b = BoolVal True then Some a
      else if a = BoolVal True then Some b
      else if b = BoolVal False then Some (mk_not k a)
      else if a = BoolVal False then Some (mk_not k b)
      else
      orelse
        (case if_bool_args a of
           Some (c, x, y) \<Rightarrow>
             if x = b \<and> is_true (mk_bne k y b) then Some c
             else if y = b \<and> is_true (mk_bne k x b) then Some (mk_not k c)
             else None
         | _ \<Rightarrow> None)
        (case if_bool_args b of
           Some (c, x, y) \<Rightarrow>
             if x = a \<and> is_true (mk_bne k y b) then Some c
             else if y = a \<and> is_true (mk_bne k x a) then Some (mk_not k c)
             else None
         | _ \<Rightarrow> None))"

definition bne_simplifier :: "ctors \<Rightarrow> bl \<Rightarrow> bl \<Rightarrow> bl option" where
  "bne_simplifier k a b =
     (if a = b then Some (BoolVal False)
      else
      orelse
        (case if_bool_args a of
           Some (c, x, y) \<Rightarrow>
             if y = b \<and> is_true (mk_bne k x b) then Some c
             else if x = b \<and> is_true (mk_bne k y b) then Some (mk_not k c)
             else None
         | _ \<Rightarrow> None)
        (case if_bool_args b of
           Some (c, x, y) \<Rightarrow>
             if y = a \<and> is_true (mk_bne k x a) then Some c
             else if x = a \<and> is_true (mk_bne k y a) then Some (mk_not k c)
             else None
         | _ \<Rightarrow> None))"

section \<open>Byte reversal\<close>

text \<open>The loop that recognises the bytes of one value in increasing order.\<close>

fun ascending_bytes :: "bv \<Rightarrow> nat \<Rightarrow> bv list \<Rightarrow> bool" where
  "ascending_bytes first_ast i [] = True"
| "ascending_bytes first_ast i (a # as) =
     (case a of
        ExtractN high low x \<Rightarrow>
          first_ast = x \<and> high = (i + 1) * 8 - 1 \<and> low = i * 8 \<and> ascending_bytes first_ast (i + 1) as
      | _ \<Rightarrow> False)"

fun reverse_arg :: "bv \<Rightarrow> bv" where
  "reverse_arg (UOp URev a) = a"
| "reverse_arg a = a"

definition reverse_concat_simplifier :: "ctors \<Rightarrow> bv list \<Rightarrow> bv option" where
  "reverse_concat_simplifier k args =
     orelse
       (case (hd args, last args) of
          (ExtractN _ _ first_ast, ExtractN upper_bound _ _) \<Rightarrow>
            if ascending_bytes first_ast 0 args then
              Some (if len first_ast = upper_bound + 1 then first_ast else mk_extract k upper_bound 0 first_ast)
            else None
        | _ \<Rightarrow> None)
       (if list_all (\<lambda>a. len a = 8) args then Some (mk_concat k (rev args))
        else if list_all is_reverse args \<and> list_all (\<lambda>a. len a mod 8 = 0) args then
          Some (mk_concat k (map reverse_arg (rev args)))
        else None)"

definition bv_reverse_simplifier :: "ctors \<Rightarrow> bv \<Rightarrow> bv option" where
  "bv_reverse_simplifier k body =
     (if is_reverse body then Some (reverse_arg body)
      else if len body = 8 then Some body
      else case body of
             ConcatN args \<Rightarrow> reverse_concat_simplifier k args
           | ExtractN hi lo (UOp URev x) \<Rightarrow>
               if (hi + 1) mod 8 = 0 \<and> lo mod 8 = 0
               then Some (mk_extract k (len x - lo - 1) (len x - hi - 1) x)
               else None
           | _ \<Rightarrow> None)"

section \<open>Flattening\<close>

text \<open>\<open>_deduplicate_filter\<close>: the first occurrence of each argument stays.\<close>

fun dedup :: "'a list \<Rightarrow> 'a list \<Rightarrow> 'a list" where
  "dedup seen [] = []"
| "dedup seen (a # as) = (if a \<in> set seen then dedup seen as else a # dedup (a # seen) as)"

definition deduplicate_filter :: "'a list \<Rightarrow> 'a list" where
  "deduplicate_filter args = dedup [] args"

text \<open>\<open>_flattening_filter\<close> of the exclusive or: an argument stays once if it occurs an odd number of times.\<close>

definition xor_filter :: "'a list \<Rightarrow> 'a list" where
  "xor_filter args = dedup [] (filter (\<lambda>a. odd (count_list args a)) args)"

definition splice_nop :: "nop \<Rightarrow> bv list \<Rightarrow> bv list" where
  "splice_nop f args =
     concat (map (\<lambda>a. case a of
                        NOp g bs \<Rightarrow> if g = f \<and> length bs < 1000 then bs else [a]
                      | _ \<Rightarrow> [a]) args)"

definition collapse_values :: "nop \<Rightarrow> bv list \<Rightarrow> bv list" where
  "collapse_values f new_args =
     (let value_args = filter is_bvv new_args; other_args = filter (\<lambda>a. \<not> is_bvv a) new_args in
      if other_args \<noteq> [] \<and> length value_args > 1
      then other_args @ [node (NOp f value_args)] else new_args)"

text \<open>\<open>_flatten_simplifier\<close> on bit-vectors; \<open>initial\<close> is the keyword argument \<open>initial_value\<close>.\<close>

definition flatten_simplifier ::
  "nop \<Rightarrow> (bv list \<Rightarrow> bv list) \<Rightarrow> bv option \<Rightarrow> bv list \<Rightarrow> bv option" where
  "flatten_simplifier f filter_func initial args =
     (let new_args = filter_func (collapse_values f (splice_nop f args)) in
      if new_args = [] \<and> initial \<noteq> None then initial
      else if length new_args = 1 then Some (hd new_args)
      else Some (node (NOp f new_args)))"

definition splice_and :: "bl list \<Rightarrow> bl list" where
  "splice_and args =
     concat (map (\<lambda>a. case a of AndN bs \<Rightarrow> if length bs < 1000 then bs else [a] | _ \<Rightarrow> [a]) args)"

definition splice_or :: "bl list \<Rightarrow> bl list" where
  "splice_or args =
     concat (map (\<lambda>a. case a of OrN bs \<Rightarrow> if length bs < 1000 then bs else [a] | _ \<Rightarrow> [a]) args)"

definition flatten_bool :: "(bl list \<Rightarrow> bl) \<Rightarrow> bl list \<Rightarrow> bl" where
  "flatten_bool build new_args =
     (let new_args = deduplicate_filter new_args in
      if length new_args = 1 then hd new_args else nodeb (build new_args))"

section \<open>Booleans\<close>

fun is_boolv :: "bl \<Rightarrow> bool" where
  "is_boolv (BoolVal p) = True"
| "is_boolv _ = False"

text \<open>The arguments of a boolean node that has two, each a bit-vector or a boolean.\<close>

datatype tree = Vec bv | Truth bl

fun two_args :: "bl \<Rightarrow> (tree \<times> tree) option" where
  "two_args (Cmp f a b) = Some (Vec a, Vec b)"
| "two_args (BoolEq p q) = Some (Truth p, Truth q)"
| "two_args (BoolNe p q) = Some (Truth p, Truth q)"
| "two_args (AndN [p, q]) = Some (Truth p, Truth q)"
| "two_args (OrN [p, q]) = Some (Truth p, Truth q)"
| "two_args _ = None"

fun tree_symbolic :: "tree \<Rightarrow> bool" where
  "tree_symbolic (Vec a) = symbolic a"
| "tree_symbolic (Truth p) = symbolicb p"

fun is_eq :: "bl \<Rightarrow> bool" where
  "is_eq (Cmp CEq a b) = True"
| "is_eq (BoolEq p q) = True"
| "is_eq _ = False"

fun is_ne :: "bl \<Rightarrow> bool" where
  "is_ne (Cmp CNe a b) = True"
| "is_ne (BoolNe p q) = True"
| "is_ne _ = False"

text \<open>The operand that the first two conditions share, if it is symbolic.\<close>

fun target_of :: "bl list \<Rightarrow> tree option" where
  "target_of (p # q # ps) =
     (case (two_args p, two_args q) of
        (Some (x0, x1), Some (y0, y1)) \<Rightarrow>
          if tree_symbolic x0 \<and> (x0 = y0 \<or> x0 = y1) then Some x0
          else if tree_symbolic x1 \<and> (x1 = y0 \<or> x1 = y1) then Some x1
          else None
      | _ \<Rightarrow> None)"
| "target_of _ = None"

text \<open>The loop that collects what the target is equal to and what it differs from.\<close>

fun eq_ne_lists :: "tree \<Rightarrow> bl list \<Rightarrow> (tree list \<times> tree list) option" where
  "eq_ne_lists target_var [] = Some ([], [])"
| "eq_ne_lists target_var (arg # args) =
     do {
       (x, y) \<leftarrow> two_args arg;
       other \<leftarrow> (if x = target_var then Some y else if y = target_var then Some x else None);
       (eqs, nes) \<leftarrow> eq_ne_lists target_var args;
       if is_eq arg then Some (other # eqs, nes)
       else if is_ne arg then Some (eqs, other # nes)
       else None
     }"

fun tree_bvv :: "tree \<Rightarrow> bool" where
  "tree_bvv (Vec (BVVal v n)) = True"
| "tree_bvv _ = False"

fun tree_value :: "tree \<Rightarrow> int" where
  "tree_value (Vec (BVVal v n)) = v"
| "tree_value _ = 0"

definition single_target :: "ctors \<Rightarrow> bl \<Rightarrow> bl list \<Rightarrow> bl" where
  "single_target k flattened fargs =
     (case target_of fargs of
        None \<Rightarrow> flattened
      | Some target_var \<Rightarrow>
          (case eq_ne_lists target_var fargs of
             None \<Rightarrow> flattened
           | Some (eq_list, ne_list) \<Rightarrow>
               if eq_list = [] then flattened
               else if list_ex (\<lambda>ne. ne \<in> set eq_list) ne_list then BoolVal False
               else if list_all tree_bvv eq_list \<and> list_all tree_bvv ne_list then
                 (if list_ex (\<lambda>eq. tree_value eq \<noteq> tree_value (hd eq_list)) eq_list then BoolVal False
                  else case (target_var, hd eq_list) of
                         (Vec t, Vec c) \<Rightarrow> mk_cmp k CEq t c
                       | _ \<Rightarrow> flattened)
               else flattened))"

text \<open>The rules on two conditions: \<open>a == 0 && a == 1\<close> and \<open>a >= c && a != c\<close>.\<close>

fun cmp_args :: "cmp \<Rightarrow> bl \<Rightarrow> (bv \<times> bv) option" where
  "cmp_args f (Cmp g a b) = (if f = g then Some (a, b) else None)"
| "cmp_args f _ = None"

definition contradicting :: "bl list \<Rightarrow> bool" where
  "contradicting args =
     (case args of
        [p, q] \<Rightarrow>
          (case (cmp_args CEq p, cmp_args CEq q) of
             (Some (a, c), Some (b, d)) \<Rightarrow> a = b \<and> is_bvv c \<and> is_bvv d \<and> bvv_val c \<noteq> bvv_val d
           | _ \<Rightarrow> False)
      | _ \<Rightarrow> False)"

definition strict_ge :: "ctors \<Rightarrow> bl list \<Rightarrow> bl option" where
  "strict_ge k args =
     (case args of
        [p, q] \<Rightarrow>
          (case (cmp_args CUGE p, cmp_args CNe q) of
             (Some (a, c), Some (b, d)) \<Rightarrow> if a = b \<and> c = d then Some (mk_cmp k CUGT a c) else None
           | _ \<Rightarrow> None)
      | _ \<Rightarrow> None)"

text \<open>
  The second loop of the code over the arguments looks for boolean constants again, which the filter before
  it has removed, so that it changes nothing.
\<close>

definition boolean_and_simplifier :: "ctors \<Rightarrow> bl list \<Rightarrow> bl option" where
  "boolean_and_simplifier k orig_args =
     (if list_ex (\<lambda>a. a = BoolVal False) orig_args then Some (BoolVal False)
      else
        let args = filter (\<lambda>a. \<not> is_boolv a) orig_args in
        if length args = 1 then Some (hd args)
        else if args = [] then Some (BoolVal True)
        else if contradicting args then Some (BoolVal False)
        else
        orelse (strict_ge k args)
          (let flattened = flatten_bool AndN (splice_and args) in
           case flattened of
             AndN fargs \<Rightarrow>
               if length fargs = 1 then Some (hd fargs)
               else if list_ex (\<lambda>arg. two_args arg = None) fargs then Some flattened
               else Some (single_target k flattened fargs)
           | _ \<Rightarrow> Some flattened))"

definition boolean_or_simplifier :: "ctors \<Rightarrow> bl list \<Rightarrow> bl option" where
  "boolean_or_simplifier k args =
     (if list_ex (\<lambda>a. a = BoolVal True) args then Some (BoolVal True)
      else if list_ex is_boolv args then
        (let new_args = filter (\<lambda>a. \<not> is_boolv a) args in
         if length new_args = 1 then Some (hd new_args)
         else if new_args = [] then Some (BoolVal False)
         else Some (mk_or k new_args))
      else Some (flatten_bool OrN (splice_or args)))"

fun boolean_not_simplifier :: "ctors \<Rightarrow> bl \<Rightarrow> bl option" where
  "boolean_not_simplifier k (Cmp f a b) =
     Some (mk_cmp k
       (case f of
          CEq \<Rightarrow> CNe | CNe \<Rightarrow> CEq
        | CSLT \<Rightarrow> CSGE | CSLE \<Rightarrow> CSGT | CSGT \<Rightarrow> CSLE | CSGE \<Rightarrow> CSLT
        | CULT \<Rightarrow> CUGE | CULE \<Rightarrow> CUGT | CUGT \<Rightarrow> CULE | CUGE \<Rightarrow> CULT) a b)"
| "boolean_not_simplifier k (BoolEq p q) = Some (mk_bne k p q)"
| "boolean_not_simplifier k (BoolNe p q) = Some (mk_beq k p q)"
| "boolean_not_simplifier k (NotN p) = Some p"
| "boolean_not_simplifier k _ = None"

section \<open>Arithmetic\<close>

definition bitwise_add_simplifier :: "ctors \<Rightarrow> bv list \<Rightarrow> bv option" where
  "bitwise_add_simplifier k args =
     orelse
       (case args of
          [BOp BSub x y, z] \<Rightarrow>
            if is_bvv z \<and> is_bvv y then Some (mk_bop k BSub x (mk_bop k BSub y z)) else None
        | _ \<Rightarrow> None)
       (flatten_simplifier NAdd (filter (\<lambda>a. \<not> bvv_is 0 a)) (Some (BVVal 0 (len (hd args)))) args)"

definition bitwise_mul_simplifier :: "ctors \<Rightarrow> bv list \<Rightarrow> bv option" where
  "bitwise_mul_simplifier k args = flatten_simplifier NMul (\<lambda>as. as) None args"

definition bitwise_sub_simplifier :: "ctors \<Rightarrow> bv \<Rightarrow> bv \<Rightarrow> bv option" where
  "bitwise_sub_simplifier k a b =
     (if is_bvv b then
        if bvv_is 0 b then Some a
        else case a of
               BOp BSub x y \<Rightarrow>
                 if is_bvv y then Some (mk_bop k BSub x (mk_nop k NAdd [y, b])) else None
             | NOp NAdd xs \<Rightarrow>
                 if \<not> is_bvv (last xs) then None
                 else if length xs = 2 then Some (mk_nop k NAdd [hd xs, mk_bop k BSub (last xs) b])
                 else Some (node (NOp NAdd (butlast xs @ [mk_bop k BSub (last xs) b])))
             | _ \<Rightarrow> None
      else if a = b \<or> same k a b then Some (BVVal 0 (len a))
      else None)"

section \<open>Bitwise operations\<close>

text \<open>Two arguments in either order: the one that satisfies \<open>P\<close>, the second one first, and the other.\<close>

definition pick :: "('a \<Rightarrow> bool) \<Rightarrow> 'a list \<Rightarrow> ('a \<times> 'a) option" where
  "pick P xs =
     (case xs of
        [x, y] \<Rightarrow> if P y then Some (x, y) else if P x then Some (y, x) else None
      | _ \<Rightarrow> None)"

fun nop_args :: "nop \<Rightarrow> bv \<Rightarrow> bv list option" where
  "nop_args f (NOp g as) = (if f = g then Some as else None)"
| "nop_args f _ = None"

fun bop_args :: "bop \<Rightarrow> bv \<Rightarrow> (bv \<times> bv) option" where
  "bop_args f (BOp g a b) = (if f = g then Some (a, b) else None)"
| "bop_args f _ = None"

text \<open>
  The idioms for the signed maximum and minimum: the match, and the decision between the two. The
  code checks the number of arguments of every operation of the idiom but of \<open>u\<close>.
\<close>

definition minmax_match :: "bv \<Rightarrow> bv \<Rightarrow> (bv \<times> bv \<times> bv \<times> bv list) option" where
  "minmax_match a b =
     do {
       (q, y) \<leftarrow> pick (\<lambda>z. nop_args NAnd z \<noteq> None) [a, b];
       y_args \<leftarrow> nop_args NAnd y;
       (x, t) \<leftarrow> pick (\<lambda>z. nop_args NXor z \<noteq> None) y_args;
       (w, dist) \<leftarrow> bop_args BSar x;
       w_args \<leftarrow> (if dist = BVVal (int (len a) - 1) (len a) then nop_args NXor w else None);
       (v, s) \<leftarrow> pick (\<lambda>z. bop_args BSub z \<noteq> None) w_args;
       v_args \<leftarrow> nop_args NAnd v;
       (u, t2) \<leftarrow> pick (\<lambda>z. z = t) v_args;
       u_args \<leftarrow> nop_args NXor u;
       t_args \<leftarrow> nop_args NXor t;
       (r, q2) \<leftarrow> pick (\<lambda>z. z = q) (rev t_args);
       Some (q, r, s, u_args)
     }"

definition bitwise_xor_simplifier_minmax :: "ctors \<Rightarrow> bv \<Rightarrow> bv \<Rightarrow> bv option" where
  "bitwise_xor_simplifier_minmax k a b =
     do {
       (q, r, s, u_args) \<leftarrow> minmax_match a b;
       (s0, s1) \<leftarrow> bop_args BSub s;
       let u0 = u_args ! 0; u1 = u_args ! 1 in
       if u0 = s \<and> u1 = q \<or> u0 = q \<and> u1 = s then
         if s0 = q \<and> s1 = r then Some (mk_if k (mk_cmp k CSLE q r) r q) else None
       else if u0 = s \<and> u1 = r \<or> u0 = r \<and> u1 = s then
         if s0 = r \<and> s1 = q then Some (mk_if k (mk_cmp k CSLE q r) q r) else None
       else None
     }"

definition bitwise_xor_simplifier :: "ctors \<Rightarrow> bv list \<Rightarrow> bv option" where
  "bitwise_xor_simplifier k args =
     orelse
       (case args of
          [a, b] \<Rightarrow>
            if a = BVVal 0 (len a) then Some b
            else if b = BVVal 0 (len a) then Some a
            else if a = b \<or> same k a b then Some (BVVal 0 (len a))
            else bitwise_xor_simplifier_minmax k a b
        | _ \<Rightarrow> None)
       (flatten_simplifier NXor xor_filter (Some (BVVal 0 (len (hd args)))) args)"

definition bitwise_or_simplifier :: "ctors \<Rightarrow> bv list \<Rightarrow> bv option" where
  "bitwise_or_simplifier k args =
     orelse
       (case args of
          [a, b] \<Rightarrow>
            if a = BVVal 0 (len a) then Some b
            else if b = BVVal 0 (len a) then Some a
            else if is_bvv a \<and> is_bvv b then
              (if a = b \<and> same k a b then Some a else if a = b then Some a else None)
            else if same k a b then Some a
            else if a = b then Some a
            else None
        | _ \<Rightarrow> None)
       (flatten_simplifier NOr deduplicate_filter None args)"

text \<open>
  \<open>rotate_shift_mask_simplifier\<close>: \<open>bitwidth\<close> is the sum of the two amounts, not the width of the value.
\<close>

definition rotate_match :: "bv \<Rightarrow> bv \<Rightarrow> (bv \<times> int \<times> int \<times> int) option" where
  "rotate_match a b =
     do {
       mask_value \<leftarrow> bvv_val b;
       (a_0, a_1) \<leftarrow> Option.bind (nop_args NOr a) two;
       (a_00, a_01) \<leftarrow> bop_args BShl a_0;
       (a_10, a_11) \<leftarrow> bop_args BLshr a_1;
       lshift \<leftarrow> bvv_val a_01;
       rshift \<leftarrow> bvv_val a_11;
       let bitwidth = lshift + rshift;
           m = take_bit (nat bitwidth) (push_bit (nat rshift) mask_value) OR drop_bit (nat lshift) mask_value
       in
       if a_00 = a_10 \<and> (bitwidth = 32 \<and> m = 0xFFFF \<or> bitwidth = 64 \<and> m = 0xFFFFFFFF)
       then Some (a_00, lshift, rshift, m) else None
     }"

definition rotate_shift_mask_simplifier :: "ctors \<Rightarrow> bv \<Rightarrow> bv \<Rightarrow> bv option" where
  "rotate_shift_mask_simplifier k a b =
     do {
       (a_00, lshift, rshift, m) \<leftarrow> rotate_match a b;
       let masked_a = mk_nop k NAnd [a_00, bvv_like a_00 m] in
       Some (mk_nop k NOr [mk_bop k BShl masked_a (bvv_like masked_a lshift),
                           mk_bop k BSar masked_a (bvv_like masked_a rshift)])
     }"

text \<open>\<open>if(cond0, 1, 0) & if(cond1, 1, 0)\<close>.\<close>

fun and_if_simplifier :: "ctors \<Rightarrow> bv \<Rightarrow> bv \<Rightarrow> bv option" where
  "and_if_simplifier k (IfBV cond0 a1 a2) (IfBV cond1 b1 b2) =
     (let one = BVVal (take_bit (len a1) 1) (len a1); zero = BVVal 0 (len a2) in
      if same k a1 one \<and> same k a2 zero \<and> same k b1 one \<and> same k b2 zero
      then Some (mk_if k (mk_and k [cond0, cond1]) one zero)
      else None)"
| "and_if_simplifier k _ _ = None"

definition bitwise_and_simplifier :: "ctors \<Rightarrow> bv list \<Rightarrow> bv option" where
  "bitwise_and_simplifier k args =
     orelse
       (case args of
          [a, b] \<Rightarrow>
            orelse (rotate_shift_mask_simplifier k a b)
              (if bvv_is (2 ^ len a - 1) a then Some b
               else if bvv_is (2 ^ len b - 1) b then Some a
               else if a = b then Some a
               else if \<not> (is_bvv a \<and> is_bvv b) \<and> same k a b then Some a
               else if bvv_is 0 a then Some (BVVal 0 (len a))
               else if bvv_is 0 b then Some (BVVal 0 (len a))
               else
               orelse
                 (case a of
                    ConcatN [a0, a1] \<Rightarrow>
                      if equals k b (2 ^ (len a - len a0) - 1) then Some (mk_zext k (len a0) a1) else None
                  | _ \<Rightarrow> None)
                 (and_if_simplifier k a b))
        | _ \<Rightarrow> None)
       (flatten_simplifier NAnd deduplicate_filter None args)"

text \<open>
  \<open>invert_simplifier\<close> tests \<open>expr.args[2].args[0] == 0\<close> whatever the operation of the third argument is.
  Where that first argument is a tree, the comparison is a tree as well and its use as a condition
  raises; where it is the upper bound of an extraction or an amount of extension, the number is
  compared; the name of a symbol and a condition are never equal to zero.
\<close>

fun first_arg_is_0 :: "bv \<Rightarrow> bool res" where
  "first_arg_is_0 (BVS x n) = Inr False"
| "first_arg_is_0 (BVVal v n) = Inr (v = 0)"
| "first_arg_is_0 (ExtractN high low a) = Inr (high = 0)"
| "first_arg_is_0 (ZeroExtN n a) = Inr (n = 0)"
| "first_arg_is_0 (SignExtN n a) = Inr (n = 0)"
| "first_arg_is_0 (IfBV c a b) = Inr False"
| "first_arg_is_0 _ = Inl ClaripyOperationError"

definition invert_simplifier :: "ctors \<Rightarrow> bv \<Rightarrow> bv option res" where
  "invert_simplifier k expr =
     (case expr of
        IfBV c x y \<Rightarrow>
          if bvv_is 1 x then
            map_res (\<lambda>zero. if zero then Some (mk_if k (mk_not k c) x y) else None) (first_arg_is_0 y)
          else Inr None
      | _ \<Rightarrow> Inr None)"

section \<open>Extensions and extraction\<close>

text \<open>
  \<open>zeroext_simplifier\<close> builds \<open>ZeroExt(n + e.args[0], e.args[1])\<close> for a nested extension but does not
  return it.
\<close>

definition zeroext_simplifier :: "ctors \<Rightarrow> nat \<Rightarrow> bv \<Rightarrow> bv option" where
  "zeroext_simplifier k n e = (if n = 0 then Some e else None)"

definition signext_simplifier :: "ctors \<Rightarrow> nat \<Rightarrow> bv \<Rightarrow> bv option" where
  "signext_simplifier k n e = (if n = 0 then Some e else None)"

text \<open>\<open>Concat(*reversed([a.reversed for a in args]))\<close> for \<open>Reverse(Concat(args))\<close>.\<close>

fun reverse_of_concat :: "bv \<Rightarrow> bv list option" where
  "reverse_of_concat (UOp URev (ConcatN as)) =
     (if list_all (\<lambda>a. len a mod 8 = 0) as then Some as else None)"
| "reverse_of_concat _ = None"

definition reversed_concat :: "ctors \<Rightarrow> bv list \<Rightarrow> bv" where
  "reversed_concat k as = mk_concat k (rev (map (mk_uop k URev) as))"

text \<open>The first rewriting of the value: an extension to a concatenation, a reversal moved inside.\<close>

definition extract_head :: "ctors \<Rightarrow> bv \<Rightarrow> bv" where
  "extract_head k val =
     (let val = (case val of
                   ZeroExtN n v \<Rightarrow> if n = 0 then v else mk_concat k [BVVal 0 n, v]
                 | _ \<Rightarrow> val)
      in case reverse_of_concat val of
           Some as \<Rightarrow> reversed_concat k as
         | None \<Rightarrow> val)"

text \<open>
  The loop over the arguments of a concatenation, from position \<open>pos\<close> down: the index of the argument
  that holds the bit \<open>x\<close>, and the place of the bit in it.
\<close>

fun locate :: "nat \<Rightarrow> nat \<Rightarrow> nat \<Rightarrow> bv list \<Rightarrow> (nat \<times> nat) option" where
  "locate x pos i [] = None"
| "locate x pos i (v # vs) =
     (if pos - len v \<le> x \<and> x < pos then Some (i, x - (pos - len v))
      else locate x (pos - len v) (i + 1) vs)"

text \<open>A range outside the concatenation, where the loop finds nothing, is refused by \<open>extract_check\<close>.\<close>

definition extract_concat :: "ctors \<Rightarrow> nat \<Rightarrow> nat \<Rightarrow> bv list \<Rightarrow> bv" where
  "extract_concat k high low args =
     (case (locate high (len (ConcatN args)) 0 args, locate low (len (ConcatN args)) 0 args) of
        (Some (high_i, high_loc), Some (low_i, low_loc)) \<Rightarrow>
          let used = take (low_i + 1 - high_i) (drop high_i args) in
          if length used = 1 then
            (let new_high = low_loc + high - low; result = hd used in
             if new_high = len result - 1 \<and> low_loc = 0 then result else mk_extract k new_high low_loc result)
          else
            let used = (if high_loc \<noteq> len (hd used) then mk_extract k high_loc 0 (hd used) # tl used else used);
                used = (if low_loc \<noteq> 0
                        then butlast used @ [mk_extract k (len (last used) - 1) low_loc (last used)] else used)
            in mk_concat k used
      | _ \<Rightarrow> node (ExtractN high low (ConcatN args)))"

text \<open>The last rules: bitwise operations, conditionals on constants and inversion.\<close>

definition extract_inside :: "ctors \<Rightarrow> nat \<Rightarrow> nat \<Rightarrow> bv \<Rightarrow> bv option" where
  "extract_inside k high low val =
     (case val of
        NOp f as \<Rightarrow>
          if f \<in> {NAnd, NOr, NXor} then Some (mk_nop k f (map (mk_extract k high low) as)) else None
      | IfBV c x y \<Rightarrow>
          if is_bvv x \<and> is_bvv y then Some (mk_if k c (mk_extract k high low x) (mk_extract k high low y))
          else None
      | UOp UInv a \<Rightarrow> Some (mk_uop k UInv (mk_extract k high low a))
      | _ \<Rightarrow> None)"

definition extract_tail :: "ctors \<Rightarrow> nat \<Rightarrow> nat \<Rightarrow> bv \<Rightarrow> bv option" where
  "extract_tail k high low val =
     (if is_reverse val \<and> high - low + 1 = 8 \<and> low mod 8 = 0 then
        let new_byte_pos = len val div 8 - low div 8 - 1
        in Some (mk_extract k ((new_byte_pos + 1) * 8 - 1) (new_byte_pos * 8) (reverse_arg val))
      else case val of
        ConcatN args \<Rightarrow> Some (extract_concat k high low args)
      | ExtractN _ inner_low x \<Rightarrow>
          (let new_low = inner_low + low in Some (mk_extract k (new_low + (high - low)) new_low x))
      | _ \<Rightarrow>
          (case reverse_of_concat val of
             Some as \<Rightarrow>
               let val = mk_extract k high low (reversed_concat k as)
               in if \<not> symbolic val then Some val else extract_inside k high low val
           | None \<Rightarrow> extract_inside k high low val))"

definition extract_simplifier :: "ctors \<Rightarrow> nat \<Rightarrow> nat \<Rightarrow> bv \<Rightarrow> bv option" where
  "extract_simplifier k high low val =
     (if high - low + 1 = len val then Some val
      else case val of
        SignExtN n v \<Rightarrow>
          if low = 0 \<and> high + 1 = len v then Some v else extract_tail k high low (extract_head k val)
      | ZeroExtN n v \<Rightarrow>
          if low = 0 \<and> high + 1 = len v then Some v else extract_tail k high low (extract_head k val)
      | _ \<Rightarrow> extract_tail k high low (extract_head k val))"

section \<open>Conditionals\<close>

text \<open>
  \<open>If\<close> (\<open>ast/bool.py\<close>) simplifies inline, for the two sorts alike; \<open>if_simplifier\<close> is never called.
\<close>

definition nested_true :: "ctors \<Rightarrow> bl \<Rightarrow> bv \<Rightarrow> bv \<Rightarrow> bv option" where
  "nested_true k c a b =
     (case if_args a of
        Some (c', x, y) \<Rightarrow>
          if c' = c then Some (mk_if k c x b)
          else if c' = mk_not k c then Some (mk_if k c y b)
          else None
      | None \<Rightarrow> None)"

definition nested_false :: "ctors \<Rightarrow> bl \<Rightarrow> bv \<Rightarrow> bv \<Rightarrow> bv option" where
  "nested_false k c a b =
     (case if_args b of
        Some (c', x, y) \<Rightarrow>
          if c' = c then Some (mk_if k c a y)
          else if c' = mk_not k c then Some (mk_if k c a x)
          else None
      | None \<Rightarrow> None)"

definition If_bv_op :: "ctors \<Rightarrow> bl \<Rightarrow> bv \<Rightarrow> bv \<Rightarrow> bv" where
  "If_bv_op k c a b =
     (if is_true c then a
      else if is_false c then b
      else case orelse (nested_true k c a b) (nested_false k c a b) of
             Some r \<Rightarrow> r
           | None \<Rightarrow> if a = b then a else node (IfBV c a b))"

definition nested_trueb :: "ctors \<Rightarrow> bl \<Rightarrow> bl \<Rightarrow> bl \<Rightarrow> bl option" where
  "nested_trueb k c a b =
     (case if_bool_args a of
        Some (c', x, y) \<Rightarrow>
          if c' = c then Some (mk_ifb k c x b)
          else if c' = mk_not k c then Some (mk_ifb k c y b)
          else None
      | None \<Rightarrow> None)"

definition nested_falseb :: "ctors \<Rightarrow> bl \<Rightarrow> bl \<Rightarrow> bl \<Rightarrow> bl option" where
  "nested_falseb k c a b =
     (case if_bool_args b of
        Some (c', x, y) \<Rightarrow>
          if c' = c then Some (mk_ifb k c a y)
          else if c' = mk_not k c then Some (mk_ifb k c a x)
          else None
      | None \<Rightarrow> None)"

definition If_bool_op :: "ctors \<Rightarrow> bl \<Rightarrow> bl \<Rightarrow> bl \<Rightarrow> bl" where
  "If_bool_op k c a b =
     (if is_true c then a
      else if is_false c then b
      else case orelse (nested_trueb k c a b) (nested_falseb k c a b) of
             Some r \<Rightarrow> r
           | None \<Rightarrow>
               if a = b then a
               else if a = BoolVal True \<and> b = BoolVal False then c
               else if a = BoolVal False \<and> b = BoolVal True then mk_not k c
               else nodeb (IfBool c a b))"

section \<open>Dispatch\<close>

text \<open>\<open>simplify\<close> with the table \<open>_all_simplifiers\<close>, by the sort of the operation.\<close>

definition simplify_cmp :: "ctors \<Rightarrow> cmp \<Rightarrow> bv \<Rightarrow> bv \<Rightarrow> bl option" where
  "simplify_cmp k f a b =
     (case f of CEq \<Rightarrow> eq_simplifier k a b | CNe \<Rightarrow> ne_simplifier k a b | CUGE \<Rightarrow> ge_simplifier k a b | _ \<Rightarrow> None)"

definition simplify_nop :: "ctors \<Rightarrow> nop \<Rightarrow> bv list \<Rightarrow> bv option" where
  "simplify_nop k f as =
     (case f of
        NAdd \<Rightarrow> bitwise_add_simplifier k as | NMul \<Rightarrow> bitwise_mul_simplifier k as
      | NAnd \<Rightarrow> bitwise_and_simplifier k as | NOr \<Rightarrow> bitwise_or_simplifier k as
      | NXor \<Rightarrow> bitwise_xor_simplifier k as)"

definition simplify_bop :: "ctors \<Rightarrow> bop \<Rightarrow> bv \<Rightarrow> bv \<Rightarrow> bv option" where
  "simplify_bop k f a b =
     (case f of
        BSub \<Rightarrow> bitwise_sub_simplifier k a b | BShl \<Rightarrow> lshift_simplifier k a b
      | BSar \<Rightarrow> rshift_simplifier k a b | BLshr \<Rightarrow> lshr_simplifier k a b)"

definition simplify_uop :: "ctors \<Rightarrow> uop \<Rightarrow> bv \<Rightarrow> bv option res" where
  "simplify_uop k f a =
     (case f of UInv \<Rightarrow> invert_simplifier k a | URev \<Rightarrow> Inr (bv_reverse_simplifier k a))"

text \<open>
  \<open>op\<close> of \<open>operations.py\<close>: the simplifier first, the plain node where it returns \<open>None\<close>. An exception of
  a simplifier ends the construction of the whole tree; the table, which is total, goes on with
  the plain node there, so that it speaks of the constructions that return.
\<close>

definition op_bv :: "bv \<Rightarrow> bv option \<Rightarrow> bv" where
  "op_bv plain simplified = (case simplified of Some r \<Rightarrow> r | None \<Rightarrow> node plain)"

definition op_bl :: "bl \<Rightarrow> bl option \<Rightarrow> bl" where
  "op_bl plain simplified = (case simplified of Some r \<Rightarrow> r | None \<Rightarrow> nodeb plain)"

definition returned :: "'a option res \<Rightarrow> 'a option" where
  "returned m = (case m of Inr x \<Rightarrow> x | Inl _ \<Rightarrow> None)"

definition step :: "ctors \<Rightarrow> ctors" where
  "step k =
     \<lparr>mk_cmp = (\<lambda>f a b. op_bl (Cmp f a b) (simplify_cmp k f a b)),
      mk_beq = (\<lambda>p q. op_bl (BoolEq p q) (beq_simplifier k p q)),
      mk_bne = (\<lambda>p q. op_bl (BoolNe p q) (bne_simplifier k p q)),
      mk_nop = (\<lambda>f as. op_bv (NOp f as) (simplify_nop k f as)),
      mk_bop = (\<lambda>f a b. op_bv (BOp f a b) (simplify_bop k f a b)),
      mk_uop = (\<lambda>f a. op_bv (UOp f a) (returned (simplify_uop k f a))),
      mk_concat = (\<lambda>as. op_bv (ConcatN as) (concat_simplifier k as)),
      mk_extract = (\<lambda>h l a. op_bv (ExtractN h l a) (extract_simplifier k h l a)),
      mk_zext = (\<lambda>n a. op_bv (ZeroExtN n a) (zeroext_simplifier k n a)),
      mk_sext = (\<lambda>n a. op_bv (SignExtN n a) (signext_simplifier k n a)),
      mk_if = If_bv_op k,
      mk_ifb = If_bool_op k,
      mk_and = (\<lambda>ps. op_bl (AndN ps) (boolean_and_simplifier k ps)),
      mk_or = (\<lambda>ps. op_bl (OrN ps) (boolean_or_simplifier k ps)),
      mk_not = (\<lambda>p. op_bl (NotN p) (boolean_not_simplifier k p))\<rparr>"

text \<open>
  The table at depth \<open>n\<close>. At depth zero the plain nodes are built, without the extensions by nothing
  and the empty parts of a concatenation that no table keeps.
\<close>

definition plain_concat :: "bv list \<Rightarrow> bv" where
  "plain_concat as =
     (case filter (\<lambda>a. len a \<noteq> 0) as of
        [] \<Rightarrow> BVVal 0 0
      | [a] \<Rightarrow> a
      | bs \<Rightarrow> node (ConcatN bs))"

definition plain_ctors :: ctors where
  "plain_ctors =
     \<lparr>mk_cmp = (\<lambda>f a b. nodeb (Cmp f a b)),
      mk_beq = (\<lambda>p q. nodeb (BoolEq p q)),
      mk_bne = (\<lambda>p q. nodeb (BoolNe p q)),
      mk_nop = (\<lambda>f as. node (NOp f as)),
      mk_bop = (\<lambda>f a b. node (BOp f a b)),
      mk_uop = (\<lambda>f a. node (UOp f a)),
      mk_concat = plain_concat,
      mk_extract = (\<lambda>h l a. node (ExtractN h l a)),
      mk_zext = (\<lambda>n a. if n = 0 then a else node (ZeroExtN n a)),
      mk_sext = (\<lambda>n a. if n = 0 then a else node (SignExtN n a)),
      mk_if = (\<lambda>c a b. node (IfBV c a b)),
      mk_ifb = (\<lambda>c p q. nodeb (IfBool c p q)),
      mk_and = (\<lambda>ps. case ps of [p] \<Rightarrow> p | _ \<Rightarrow> nodeb (AndN ps)),
      mk_or = (\<lambda>ps. case ps of [p] \<Rightarrow> p | _ \<Rightarrow> nodeb (OrN ps)),
      mk_not = (\<lambda>p. nodeb (NotN p))\<rparr>"

primrec ctors_at :: "nat \<Rightarrow> ctors" where
  "ctors_at 0 = plain_ctors"
| "ctors_at (Suc n) = step (ctors_at n)"

end
