(* ===== verification/Simplify_Base.thy ===== *)
theory Simplify_Base
  imports Simplifications Flag_Arith
begin

text \<open>
  What it means that a constructed tree stands for a plain node: it is well formed, it has the
  width, and it has the same value under every assignment. The locale \<open>sound_ctors\<close> is the contract
  of a table of operations; inside it the operations are rewritten to the values of the
  plain nodes, which is what the soundness proofs of the simplifiers use.
\<close>

definition sim :: "bv \<Rightarrow> bv \<Rightarrow> bool" where
  "sim r a \<longleftrightarrow> wf_bv r \<and> len r = len a \<and> (\<forall>e. bval e r = bval e a)"

definition simb :: "bl \<Rightarrow> bl \<Rightarrow> bool" where
  "simb p q \<longleftrightarrow> wf_bl p \<and> (\<forall>e. holds e p = holds e q)"

lemma simI: "wf_bv r \<Longrightarrow> len r = len a \<Longrightarrow> (\<And>e. bval e r = bval e a) \<Longrightarrow> sim r a"
  by (simp add: sim_def)

lemma simbI: "wf_bl p \<Longrightarrow> (\<And>e. holds e p = holds e q) \<Longrightarrow> simb p q"
  by (simp add: simb_def)

lemma sim_refl: "wf_bv a \<Longrightarrow> sim a a"
  by (simp add: sim_def)

lemma simb_refl: "wf_bl p \<Longrightarrow> simb p p"
  by (simp add: simb_def)

lemma sim_trans: "sim a b \<Longrightarrow> sim b c \<Longrightarrow> sim a c"
  by (simp add: sim_def)

section \<open>Evaluation of trees with symbols\<close>

lemma list_res_Inl: "x \<in> set xs \<Longrightarrow> f x = Inl err \<Longrightarrow> \<exists>err'. list_res (map f xs) = Inl err'"
proof (induction xs)
  case (Cons y ys)
  then show ?case by (cases "f y"; cases "list_res (map f ys)") auto
qed simp

lemma apply_op_Inl: "list_res ms = Inl err \<Longrightarrow> apply_op f ms = Inl err"
  by (simp add: apply_op_def)

lemma apply_op_raises:
  "\<exists>x \<in> set xs. \<exists>err. g x = Inl err \<Longrightarrow> \<exists>err. apply_op f (map g xs) = Inl err"
  using list_res_Inl apply_op_Inl by metis

lemma bool_compare_raises: "(\<exists>err. x = Inl err) \<or> (\<exists>err. y = Inl err) \<Longrightarrow> \<exists>err. bool_compare f x y = Inl err"
  by (cases x; cases y) auto

lemma symbolic_convert:
  "symbolic a \<Longrightarrow> \<exists>err. convert_bv a = Inl err"
  and symbolicb_convert: "symbolicb p \<Longrightarrow> \<exists>err. convert_bl p = Inl err"
proof (induction a and p rule: symbolic_symbolicb.induct)
  case (3 f as)
  then have "\<exists>x \<in> set as. \<exists>err. convert_bv x = Inl err" by (fastforce simp: list_ex_iff)
  then show ?case by (simp add: apply_op_raises)
next
  case (6 as)
  then have "\<exists>x \<in> set as. \<exists>err. convert_bv x = Inl err" by (fastforce simp: list_ex_iff)
  then show ?case by (simp add: apply_op_raises)
next
  case (10 c a b)
  then show ?case by (cases "convert_bl c"; cases "convert_bv a"; cases "convert_bv b") (auto simp: apply_op_def)
next
  case (14 p q)
  then show ?case by (auto intro: bool_compare_raises)
next
  case (15 p q)
  then show ?case by (auto intro: bool_compare_raises)
next
  case (16 ps)
  then have "\<exists>x \<in> set ps. \<exists>err. convert_bl x = Inl err" by (fastforce simp: list_ex_iff)
  then show ?case by (simp add: apply_op_raises)
next
  case (17 ps)
  then have "\<exists>x \<in> set ps. \<exists>err. convert_bl x = Inl err" by (fastforce simp: list_ex_iff)
  then show ?case by (simp add: apply_op_raises)
next
  case (19 c p q)
  then show ?case by (cases "convert_bl c"; cases "convert_bl p"; cases "convert_bl q") (auto simp: apply_op_def)
next
  case (4 f a b)
  then show ?case by (cases "convert_bv a"; cases "convert_bv b") (auto simp: apply_op_def)
next
  case (13 f a b)
  then show ?case by (cases "convert_bv a"; cases "convert_bv b") (auto simp: apply_op_def)
qed (auto simp: apply_op_def)

lemma is_true_holds: "wf_bl p \<Longrightarrow> is_true p \<Longrightarrow> holds e p"
  using convert_value_bl [of p e] symbolicb_convert [of p] by (cases "symbolicb p") (auto simp: is_true_def)

lemma is_false_holds: "wf_bl p \<Longrightarrow> is_false p \<Longrightarrow> \<not> holds e p"
  using convert_value_bl [of p e] symbolicb_convert [of p] by (cases "symbolicb p") (auto simp: is_false_def)

lemma node_sim:
  assumes "\<not> symbolic a \<Longrightarrow> convert_bv a = Inr (CBv (bvv (len a) (bval e a)))"
    and "symbolic a \<Longrightarrow> wf_bv a" and "\<And>e. take_bit (len a) (bval e a) = bval e a"
  shows "sim (node a) a"
proof (cases "symbolic a")
  case False
  then have "bval e a = bval e' a" for e' by (rule not_symbolic_value)
  moreover have "0 \<le> bval e a" "bval e a < 2 ^ len a"
    by (metis assms(3) take_bit_nonnegative, metis assms(3) take_bit_int_less_exp)
  ultimately show ?thesis using False assms by (simp add: node_def sim_def)
qed (use assms in \<open>simp add: node_def sim_refl\<close>)

lemma node_wf: "wf_bv a \<Longrightarrow> sim (node a) a"
  using convert_value bval_in_width by (intro node_sim) auto

lemma nodeb_wf: "wf_bl p \<Longrightarrow> simb (nodeb p) p"
proof (cases "symbolicb p")
  case False
  assume p: "wf_bl p"
  fix e0
  have "simb (BoolVal (holds e0 p)) p"
    by (intro simbI) (simp_all add: not_symbolic_holds [OF False, of e0])
  with False p show ?thesis using convert_value_bl [of p e0] by (simp add: nodeb_def)
qed (simp add: nodeb_def simb_refl)

lemma len_bvv_like [simp]: "0 < len a \<Longrightarrow> len (bvv_like a v) = len a"
  by (simp add: bvv_like_def Let_def)

lemma wf_bvv_like [simp]: "0 < len a \<Longrightarrow> wf_bv (bvv_like a v)"
  by (simp add: bvv_like_def Let_def)

lemma bval_bvv_like [simp]: "0 < len a \<Longrightarrow> bval e (bvv_like a v) = take_bit (len a) v"
  by (simp add: bvv_like_def Let_def)

lemma wf_BVVal_0 [simp]: "wf_bv (BVVal 0 n)"
  by simp

lemma if_args_Some: "if_args a = Some (c, x, y) \<longleftrightarrow> a = IfBV c x y"
  by (cases a) auto

lemma if_bool_args_Some: "if_bool_args p = Some (c, x, y) \<longleftrightarrow> p = IfBool c x y"
  by (cases p) auto

lemma orelse_Some: "orelse x y = Some r \<longleftrightarrow> x = Some r \<or> x = None \<and> y = Some r"
  by (cases x) (simp_all add: orelse_def)

lemma orelse_SomeE:
  assumes "orelse x y = Some r"
  obtains "x = Some r" | "y = Some r"
  using assms by (auto simp: orelse_Some)

section \<open>The contract of a table of operations\<close>

locale sound_ctors =
  fixes k :: ctors
  assumes cmp_sim: "wf_bl (Cmp f a b) \<Longrightarrow> simb (mk_cmp k f a b) (Cmp f a b)"
    and beq_sim: "wf_bl p \<Longrightarrow> wf_bl q \<Longrightarrow> simb (mk_beq k p q) (BoolEq p q)"
    and bne_sim: "wf_bl p \<Longrightarrow> wf_bl q \<Longrightarrow> simb (mk_bne k p q) (BoolNe p q)"
    and nop_sim: "wf_bv (NOp g as) \<Longrightarrow> sim (mk_nop k g as) (NOp g as)"
    and bop_sim: "wf_bv (BOp h a b) \<Longrightarrow> sim (mk_bop k h a b) (BOp h a b)"
    and uop_sim: "wf_bv (UOp u a) \<Longrightarrow> sim (mk_uop k u a) (UOp u a)"
    and concat_sim: "list_all wf_bv as \<Longrightarrow> sim (mk_concat k as) (ConcatN as)"
    and extract_sim: "wf_bv (ExtractN hi lo a) \<Longrightarrow> sim (mk_extract k hi lo a) (ExtractN hi lo a)"
    and zext_sim: "wf_bv a \<Longrightarrow> 0 < len a \<Longrightarrow> sim (mk_zext k n a) (ZeroExtN n a)"
    and sext_sim: "wf_bv a \<Longrightarrow> 0 < len a \<Longrightarrow> sim (mk_sext k n a) (SignExtN n a)"
    and if_sim: "wf_bv (IfBV p a b) \<Longrightarrow> sim (mk_if k p a b) (IfBV p a b)"
    and ifb_sim: "wf_bl (IfBool p q r) \<Longrightarrow> simb (mk_ifb k p q r) (IfBool p q r)"
    and and_sim: "ps \<noteq> [] \<Longrightarrow> list_all wf_bl ps \<Longrightarrow> simb (mk_and k ps) (AndN ps)"
    and or_sim: "ps \<noteq> [] \<Longrightarrow> list_all wf_bl ps \<Longrightarrow> simb (mk_or k ps) (OrN ps)"
    and not_sim: "wf_bl p \<Longrightarrow> simb (mk_not k p) (NotN p)"
begin

lemma cmp_simps [simp]:
  assumes "wf_bv a" and "wf_bv b" and "len b = len a" and "0 < len a"
  shows "wf_bl (mk_cmp k f a b)" and "holds e (mk_cmp k f a b) = cmp_val f (len a) (bval e a) (bval e b)"
  using cmp_sim [of f a b] assms by (simp_all add: simb_def)

lemma bool_simps [simp]:
  assumes "wf_bl p" and "wf_bl q"
  shows "wf_bl (mk_beq k p q)" and "holds e (mk_beq k p q) = (holds e p = holds e q)"
    and "wf_bl (mk_bne k p q)" and "holds e (mk_bne k p q) = (holds e p \<noteq> holds e q)"
  using beq_sim [of p q] bne_sim [of p q] assms by (simp_all add: simb_def)

lemma not_simps [simp]:
  assumes "wf_bl p"
  shows "wf_bl (mk_not k p)" and "holds e (mk_not k p) = (\<not> holds e p)"
  using not_sim [OF assms] by (simp_all add: simb_def)

lemma nop_simps [simp]:
  assumes "wf_bv (NOp g as)"
  shows "wf_bv (mk_nop k g as)" and "len (mk_nop k g as) = len (hd as)"
    and "bval e (mk_nop k g as) = take_bit (len (hd as)) (nop_val g (map (bval e) as))"
proof -
  have "as \<noteq> []" using assms by auto
  with nop_sim [OF assms] len_NOp [of as g]
  show "wf_bv (mk_nop k g as)" "len (mk_nop k g as) = len (hd as)"
    "bval e (mk_nop k g as) = take_bit (len (hd as)) (nop_val g (map (bval e) as))"
    by (simp_all add: sim_def del: len.simps)
qed

lemma bop_simps [simp]:
  assumes "wf_bv a" and "wf_bv b" and "len b = len a" and "0 < len a"
  shows "wf_bv (mk_bop k h a b)" and "len (mk_bop k h a b) = len a"
    and "bval e (mk_bop k h a b) = take_bit (len a) (bop_val h (len a) (bval e a) (bval e b))"
  using bop_sim [of h a b] assms by (simp_all add: sim_def)

lemma uop_simps [simp]:
  assumes "wf_bv (UOp u a)"
  shows "wf_bv (mk_uop k u a)" and "len (mk_uop k u a) = len a"
    and "bval e (mk_uop k u a) = take_bit (len a) (uop_val u (len a) (bval e a))"
  using uop_sim [OF assms] assms by (simp_all add: sim_def)

lemma concat_simps [simp]:
  assumes "list_all wf_bv as"
  shows "wf_bv (mk_concat k as)" and "len (mk_concat k as) = sum_list (map len as)"
    and "bval e (mk_concat k as) = cat_val (map (\<lambda>a. (len a, bval e a)) as)"
  using concat_sim [OF assms] by (simp_all add: sim_def)

lemma extract_simps [simp]:
  assumes "wf_bv a" and "lo \<le> hi" and "hi < len a"
  shows "wf_bv (mk_extract k hi lo a)" and "len (mk_extract k hi lo a) = Suc hi - lo"
    and "bval e (mk_extract k hi lo a) = take_bit (Suc hi - lo) (drop_bit lo (bval e a))"
  using extract_sim [of hi lo a] assms by (simp_all add: sim_def)

lemma ext_simps [simp]:
  assumes "wf_bv a" and "0 < len a"
  shows "wf_bv (mk_zext k n a)" and "len (mk_zext k n a) = len a + n" and "bval e (mk_zext k n a) = bval e a"
    and "wf_bv (mk_sext k n a)" and "len (mk_sext k n a) = len a + n"
    and "bval e (mk_sext k n a) = take_bit (len a + n) (signed_take_bit (len a - 1) (bval e a))"
  using zext_sim [OF assms, of n] sext_sim [OF assms, of n] by (simp_all add: sim_def)

lemma if_simps [simp]:
  assumes "wf_bl p" and "wf_bv a" and "wf_bv b" and "len b = len a" and "0 < len a"
  shows "wf_bv (mk_if k p a b)" and "len (mk_if k p a b) = len a"
    and "bval e (mk_if k p a b) = (if holds e p then bval e a else bval e b)"
  using if_sim [of p a b] assms by (simp_all add: sim_def)

lemma ifb_simps [simp]:
  assumes "wf_bl p" and "wf_bl q" and "wf_bl r"
  shows "wf_bl (mk_ifb k p q r)" and "holds e (mk_ifb k p q r) = (if holds e p then holds e q else holds e r)"
  using ifb_sim [of p q r] assms by (simp_all add: simb_def)

lemma and_or_simps [simp]:
  assumes "ps \<noteq> []" and "list_all wf_bl ps"
  shows "wf_bl (mk_and k ps)" and "holds e (mk_and k ps) = list_all (holds e) ps"
    and "wf_bl (mk_or k ps)" and "holds e (mk_or k ps) = list_ex (holds e) ps"
  using and_sim [OF assms] or_sim [OF assms] by (simp_all add: simb_def)

text \<open>The tests that the simplifiers make with \<open>is_true\<close>.\<close>

lemma equals_value: "equals k a v \<Longrightarrow> wf_bv a \<Longrightarrow> 0 < len a \<Longrightarrow> bval e a = take_bit (len a) v"
  using is_true_holds [of "mk_cmp k CEq a (bvv_like a v)" e] by (simp add: equals_def)

lemma same_value: "same k a b \<Longrightarrow> wf_bv a \<Longrightarrow> wf_bv b \<Longrightarrow> len b = len a \<Longrightarrow> 0 < len a \<Longrightarrow> bval e a = bval e b"
  using is_true_holds [of "mk_cmp k CEq a b" e] by (simp add: same_def)

lemma cmp_is_true:
  "is_true (mk_cmp k f a b) \<Longrightarrow> wf_bv a \<Longrightarrow> wf_bv b \<Longrightarrow> len b = len a \<Longrightarrow> 0 < len a \<Longrightarrow>
     cmp_val f (len a) (bval e a) (bval e b)"
  using is_true_holds [of "mk_cmp k f a b" e] by simp

lemma cmp_is_false:
  "is_false (mk_cmp k f a b) \<Longrightarrow> wf_bv a \<Longrightarrow> wf_bv b \<Longrightarrow> len b = len a \<Longrightarrow> 0 < len a \<Longrightarrow>
     \<not> cmp_val f (len a) (bval e a) (bval e b)"
  using is_false_holds [of "mk_cmp k f a b" e] by simp

end

end
