(* ===== verification/Simplify_Concat.thy ===== *)
theory Simplify_Concat
  imports Simplify_Base
begin

text \<open>
  Concatenation, shifts and extensions: the value of a concatenation bit by bit, and the soundness of the
  simplifiers of \<open>Concat\<close>, of the shifts and of the extensions.
\<close>

section \<open>Values of concatenations\<close>

abbreviation parts :: "env \<Rightarrow> bv list \<Rightarrow> (nat \<times> int) list" where
  "parts e as \<equiv> map (\<lambda>a. (len a, bval e a)) as"

abbreviation width :: "bv list \<Rightarrow> nat" where
  "width as \<equiv> sum_list (map len as)"

lemma cat_val_append:
  "cat_val (xs @ ys) = push_bit (sum_list (map fst ys)) (cat_val xs) OR cat_val ys"
  by (induction xs rule: cat_val.induct) (simp_all add: or.assoc push_bit_or add.commute)

lemma parts_fst [simp]: "map fst (parts e as) = map len as"
  by (simp add: o_def)

lemma bit_cat_parts: "list_all wf_bv as \<Longrightarrow> bit (cat_val (parts e as)) i \<Longrightarrow> i < width as"
  using bit_cat_val [of "parts e as" i] by (auto simp: list_all_iff o_def intro: bit_bval)

lemma bit_cat_append:
  assumes "list_all wf_bv bs"
  shows "bit (cat_val (parts e as @ parts e bs)) i \<longleftrightarrow>
           (if i < width bs then bit (cat_val (parts e bs)) i else bit (cat_val (parts e as)) (i - width bs))"
  using bit_cat_parts [OF assms, of e i] by (auto simp: cat_val_append bit_or_iff bit_push_bit_iff o_def)

lemma cat_single [simp]: "cat_val [(n, v)] = v"
  by simp

lemma cat_pair: "cat_val [(n, v), (m, w)] = push_bit m v OR w"
  by simp

lemma cat_empty_part: "wf_bv a \<Longrightarrow> len a = 0 \<Longrightarrow> bval e a = 0"
  using bval_range [of a e] by simp

text \<open>Replacing a segment by one with the same width and value.\<close>

lemma cat_val_replace:
  assumes "cat_val ys = cat_val zs" and "sum_list (map fst ys) = sum_list (map fst zs)"
  shows "cat_val (xs @ ys @ ws) = cat_val (xs @ zs @ ws)"
  using assms by (simp add: cat_val_append push_bit_or)

lemma cat_val_flatten:
  "cat_val (concat xss) = cat_val (map (\<lambda>xs. (sum_list (map fst xs), cat_val xs)) xss)"
proof (induction xss)
  case (Cons xs xss)
  have "sum_list (map fst (concat xss)) = sum_list (map (fst \<circ> (\<lambda>xs. (sum_list (map fst xs), cat_val xs))) xss)"
    by (induction xss) simp_all
  with Cons show ?case by (simp add: cat_val_append)
qed simp

section \<open>Concat\<close>

text \<open>A list of parts that stands for the same concatenation.\<close>

definition same_parts :: "bv list \<Rightarrow> bv list \<Rightarrow> bool" where
  "same_parts as bs \<longleftrightarrow> list_all wf_bv as \<and> width as = width bs
     \<and> (\<forall>e. cat_val (parts e as) = cat_val (parts e bs))"

lemma same_parts_refl: "list_all wf_bv as \<Longrightarrow> same_parts as as"
  by (simp add: same_parts_def)

lemma same_parts_trans: "same_parts as bs \<Longrightarrow> same_parts bs cs \<Longrightarrow> same_parts as cs"
  by (simp add: same_parts_def)

lemma same_parts_Cons: "wf_bv a \<Longrightarrow> same_parts as bs \<Longrightarrow> same_parts (a # as) (a # bs)"
  by (simp add: same_parts_def o_def)

lemma same_parts_append:
  "same_parts as bs \<Longrightarrow> same_parts cs ds \<Longrightarrow> same_parts (as @ cs) (bs @ ds)"
  by (simp add: same_parts_def cat_val_append o_def)

lemma same_parts_sim: "sim r (ConcatN as) \<Longrightarrow> same_parts [r] as"
  by (simp add: same_parts_def sim_def)

lemma same_parts_single: "sim r a \<Longrightarrow> same_parts [r] [a]"
  by (simp add: same_parts_def sim_def)

lemma same_parts_single_sym: "wf_bv a \<Longrightarrow> sim r a \<Longrightarrow> same_parts [a] [r]"
  by (simp add: same_parts_def sim_def)

lemma same_parts_flatten:
  assumes "list_all wf_bv as"
  shows "same_parts (flatten_concat as) as"
  using assms
proof (induction as)
  case (Cons a as)
  have one: "same_parts (if len a = 0 then [] else case a of ConcatN bs \<Rightarrow> bs | _ \<Rightarrow> [a]) [a]"
    using Cons.prems cat_empty_part [of a] by (auto simp: same_parts_def o_def split: bv.splits)
  show ?case
    using same_parts_append [OF one Cons.IH] Cons.prems by (simp add: flatten_concat_def)
qed (simp add: flatten_concat_def same_parts_def)

lemma wf_flatten: "list_all wf_bv as \<Longrightarrow> list_all (\<lambda>a. 0 < len a) (flatten_concat as)"
  by (induction as) (auto simp: flatten_concat_def split: bv.splits)

text \<open>The state of the third loop: the last part passed is the extraction that \<open>prev\<close> names.\<close>

definition prev_ok :: "(nat \<times> nat \<times> bv) option \<Rightarrow> bv list \<Rightarrow> bool" where
  "prev_ok prev passed =
     (case prev of
        None \<Rightarrow> True
      | Some (left, right, var) \<Rightarrow>
          passed \<noteq> [] \<and> wf_bv (ExtractN left right var) \<and> sim (hd passed) (ExtractN left right var))"

lemma extract_join:
  assumes "wf_bv (ExtractN left (high + 1) var)" and "wf_bv (ExtractN high low var)"
  shows "same_parts [ExtractN left low var] [ExtractN left (high + 1) var, ExtractN high low var]"
proof -
  have "take_bit (left + 1 - low) (drop_bit low v) =
        push_bit (high + 1 - low) (take_bit (left - high) (drop_bit (high + 1) v)) OR
        take_bit (high + 1 - low) (drop_bit low v)" for v :: int
    by (rule bit_eqI) (use assms in \<open>auto simp: bit_simps elim!: back_subst [of "bit v"]\<close>)
  then show ?thesis using assms by (auto simp: same_parts_def)
qed

lemma merge_extracts_kept: "simplified \<Longrightarrow> fst (merge_extracts k prev passed as simplified)"
  by (induction k prev passed as simplified rule: merge_extracts.induct)
    (auto split: bv.splits option.splits)

lemma length_merge_concrete: "length (merge_concrete k as) \<le> length as"
  by (induction k as rule: merge_concrete.induct) (auto simp: Let_def)

lemma merge_concrete_kept: "length (merge_concrete k as) = length as \<Longrightarrow> merge_concrete k as = as"
proof (induction k as rule: merge_concrete.induct)
  case (1 k previous current as)
  then show ?case
    using length_merge_concrete [of k "mk_concat k [previous, current] # as"]
    by (auto simp: Let_def split: if_splits)
qed simp_all

lemma concat_kept:
  assumes "concat_simplifier k as = None"
  shows "list_all (\<lambda>a. 0 < len a) as"
proof -
  define args where "args = (if list_ex symbolic as then merge_concrete k as else as)"
  define s where "s = (length args < length as \<or> list_ex (\<lambda>a. len a = 0 \<or> is_concat a) args)"
  have "\<not> fst (merge_extracts k None [] (flatten_concat args) s)"
    using assms by (auto simp: concat_simplifier_def Let_def args_def s_def split: prod.splits if_splits)
  then have "\<not> s" using merge_extracts_kept by blast
  then have "args = as" "\<not> list_ex (\<lambda>a. len a = 0) args"
    using length_merge_concrete [of k as] merge_concrete_kept [of k as]
    by (auto simp: s_def args_def list_ex_iff split: if_splits)
  then show ?thesis by (simp add: list_all_iff list_ex_iff)
qed

context sound_ctors
begin

lemma merge_concrete_parts: "k' = k \<Longrightarrow> list_all wf_bv as \<Longrightarrow> same_parts (merge_concrete k' as) as"
proof (induction k' as rule: merge_concrete.induct)
  case (1 k' previous current as)
  show ?case
  proof (cases "\<not> (symbolic previous \<or> symbolic current) \<and> \<not> is_concat (mk_concat k [previous, current])")
    case True
    have "sim (mk_concat k [previous, current]) (ConcatN [previous, current])"
      using "1.prems" by (intro concat_sim) simp
    from same_parts_sim [OF this] have "same_parts ([mk_concat k [previous, current]] @ as) ([previous, current] @ as)"
      using "1.prems" by (intro same_parts_append same_parts_refl) simp_all
    with True "1.IH"(1) "1.prems" show ?thesis
      by (auto simp: Let_def intro: same_parts_trans)
  next
    case False
    with "1.IH"(2) "1.prems" show ?thesis by (auto simp: Let_def intro: same_parts_Cons)
  qed
qed (simp_all add: same_parts_refl)

lemma merge_extracts_parts:
  "prev_ok prev passed \<Longrightarrow> list_all wf_bv (passed @ as) \<Longrightarrow>
   same_parts (snd (merge_extracts k prev passed as simplified)) (rev passed @ as)"
proof (induction as arbitrary: prev passed simplified)
  case (Cons a as)
  have rest: "same_parts (snd (merge_extracts k p (a # passed) as s)) (rev passed @ a # as)"
    if "prev_ok p (a # passed)" for p s
    using Cons.IH [of p "a # passed" s] Cons.prems that by simp
  have start: "prev_ok (Some (high, low, var)) (a # passed)" if "a = ExtractN high low var" for high low var
    using that Cons.prems by (simp add: prev_ok_def sim_refl)
  show ?case
  proof (cases "\<exists>left high low var. prev = Some (left, high + 1, var) \<and> a = ExtractN high low var")
    case True
    then obtain left high low var where prev: "prev = Some (left, high + 1, var)" and a: "a = ExtractN high low var"
      by blast
    define m where "m = mk_extract k left low var"
    obtain p ps where passed: "passed = p # ps" and wf: "wf_bv (ExtractN left (high + 1) var)"
      and p: "sim p (ExtractN left (high + 1) var)"
      using Cons.prems(1) prev by (cases passed) (auto simp: prev_ok_def)
    have wf': "wf_bv (ExtractN left low var)" and wf_a: "wf_bv a" and wfs: "list_all wf_bv ps" "list_all wf_bv as"
      using wf Cons.prems a passed by auto
    then have m: "sim m (ExtractN left low var)" unfolding m_def by (intro extract_sim)
    have "same_parts [m] [ExtractN left (high + 1) var, a]"
      using same_parts_single [OF m] extract_join [of left high var low] wf wf_a a by (auto intro: same_parts_trans)
    moreover have "same_parts ([ExtractN left (high + 1) var] @ [a]) ([p] @ [a])"
      using wf p wf_a by (intro same_parts_append same_parts_single_sym same_parts_refl) simp_all
    ultimately have "same_parts [m] [p, a]" by (auto intro: same_parts_trans)
    then have "same_parts (rev ps @ [m] @ as) (rev ps @ [p, a] @ as)"
      using wfs by (intro same_parts_append same_parts_refl) simp_all
    moreover have "same_parts (snd (merge_extracts k (Some (left, low, var)) (m # ps) as True)) (rev (m # ps) @ as)"
      using m wf' wfs by (intro Cons.IH) (simp_all add: prev_ok_def sim_def)
    ultimately show ?thesis
      using prev a passed by (auto simp: m_def intro: same_parts_trans)
  next
    case False
    have "same_parts (snd (merge_extracts k None (a # passed) as simplified)) (rev passed @ a # as)"
      by (rule rest) (simp add: prev_ok_def)
    then show ?thesis
      by (cases a) (use False start rest in \<open>auto split: option.splits\<close>)
  qed
qed (simp add: same_parts_refl)

lemma concat_simplifier_sim:
  assumes "concat_simplifier k as = Some r" and "list_all wf_bv as"
  shows "sim r (ConcatN as)"
proof (cases "length as = 1")
  case True
  then obtain a where "as = [a]" by (auto simp: length_Suc_conv)
  with assms show ?thesis by (simp add: concat_simplifier_def sim_def)
next
  case False
  define args where "args = (if list_ex symbolic as then merge_concrete k as else as)"
  obtain s where r: "r = mk_concat k (snd (merge_extracts k None [] (flatten_concat args) s))"
    using assms(1) False by (auto simp: concat_simplifier_def Let_def args_def split: prod.splits if_splits)
      (metis snd_conv)+
  have "same_parts args as" using assms(2) by (simp add: args_def merge_concrete_parts same_parts_refl)
  moreover have "same_parts (flatten_concat args) args" if "list_all wf_bv args"
    using that by (rule same_parts_flatten)
  ultimately have flat: "same_parts (flatten_concat args) as"
    by (metis same_parts_def same_parts_trans)
  then have "same_parts (snd (merge_extracts k None [] (flatten_concat args) s)) (flatten_concat args)"
    using merge_extracts_parts [of None "[]" "flatten_concat args" s] by (simp add: prev_ok_def same_parts_def)
  with flat have "same_parts (snd (merge_extracts k None [] (flatten_concat args) s)) as"
    using same_parts_trans by blast
  then show ?thesis using concat_sim by (auto simp: r same_parts_def sim_def)
qed

lemma concat_op_sim: "list_all wf_bv as \<Longrightarrow> sim (op_bv (ConcatN as) (concat_simplifier k as)) (ConcatN as)"
proof (cases "concat_simplifier k as")
  case None
  assume wf: "list_all wf_bv as"
  show ?thesis
  proof (cases "as = []")
    case True
    then show ?thesis
      using None by (simp add: op_bv_def node_def apply_op_def Concat_init BVV_init_empty [of 0] sim_def)
  next
    case False
    have "length as \<noteq> 1" "list_all (\<lambda>a. 0 < len a) as"
      using None concat_kept [of k as] by (auto simp: concat_simplifier_def)
    with False wf have "wf_bv (ConcatN as)"
      by (cases as) (auto simp: numeral_2_eq_2 Suc_le_eq)
    with None show ?thesis by (simp add: op_bv_def node_wf)
  qed
qed (simp add: op_bv_def concat_simplifier_sim)

section \<open>Shifts and extensions\<close>

lemma cat_range: "list_all wf_bv as \<Longrightarrow> cat_val (parts e as) < 2 ^ width as"
proof -
  assume "list_all wf_bv as"
  then have "take_bit (width as) (cat_val (parts e as)) = cat_val (parts e as)"
    by (intro take_bit_selfI bit_cat_parts)
  then show ?thesis by (metis take_bit_int_less_exp)
qed

lemma take_bit_width: "m < n \<Longrightarrow> take_bit n (int m) = int m"
  using less_exp [of n] by (intro take_bit_int_eq_self) (simp_all add: less_trans)

lemma shifted_out_value:
  assumes "shifted_out k val shift" and "wf_bv val" and "wf_bv shift" and "len shift = len val"
  obtains m where "m < len val" and "\<And>e. bval e val < 2 ^ m" and "\<And>e. int m < bval e shift"
proof -
  have pos: "0 < len val" using assms(1,2) by (auto simp: shifted_out_def split: bv.splits list.splits)
  have shift: "int m < bval e shift"
    if "is_true (mk_cmp k CUGT shift (bvv_like shift (int m)))" "m < len val" for m e
    using cmp_is_true [OF that(1), of e] that(2) assms pos by (simp add: take_bit_width)
  consider v vs where "val = ConcatN (v # vs)" | n v where "val = ZeroExtN n v"
    using assms(1) by (auto simp: shifted_out_def split: bv.splits list.splits)
  then show ?thesis
  proof cases
    case 1
    have v: "bval e v = 0" for e
      using 1 assms(1,2) equals_value [of v 0 e] by (simp add: shifted_out_def)
    have "bval e val < 2 ^ width vs" for e
      using cat_range [of vs e] 1 v assms(2) by simp
    with 1 assms(1,2) show ?thesis
      by (intro that [of "width vs"]) (auto simp: shifted_out_def intro: shift)
  next
    case 2
    with assms(1,2) bval_range [of v] show ?thesis
      by (intro that [of "len v"]) (auto simp: shifted_out_def intro: shift)
  qed
qed

lemma drop_bit_small: "0 \<le> v \<Longrightarrow> v < 2 ^ m \<Longrightarrow> int m < w \<Longrightarrow> drop_bit (nat w) (v :: int) = 0"
proof -
  assume v: "0 \<le> v" "v < 2 ^ m" and w: "int m < w"
  have "(2 :: int) ^ m \<le> 2 ^ nat w" using w by (intro power_increasing) auto
  then have "v < 2 ^ nat w" using v(2) by (rule less_le_trans [rotated])
  then show ?thesis using v(1) by (simp add: drop_bit_eq_div)
qed

lemma rshift_simplifier_sim:
  assumes "rshift_simplifier k val shift = Some r" and "wf_bv (BOp BSar val shift)"
  shows "sim r (BOp BSar val shift)"
proof (cases "equals k shift 0")
  case True
  then have "bval e shift = 0" for e using assms(2) equals_value [of shift 0 e] by simp
  with True assms show ?thesis
    by (auto simp: rshift_simplifier_def bval_in_width take_bit_signed_take_bit intro!: simI)
next
  case False
  then have out: "shifted_out k val shift" and r: "r = BVVal 0 (len val)"
    using assms(1) by (auto simp: rshift_simplifier_def split: if_splits)
  obtain m where m: "m < len val" "\<And>e. bval e val < 2 ^ m" "\<And>e. int m < bval e shift"
    using shifted_out_value [OF out] assms(2) by auto
  have "signed_take_bit (len val - 1) (bval e val) = bval e val" for e
    using m(1) m(2) [of e] bval_range [of val e] assms(2)
    by (intro signed_take_bit_int_eq_self) (auto intro: less_le_trans order_trans [of _ 0])
  moreover have "drop_bit (nat (bval e shift)) (bval e val) = 0" for e
    using m(2,3) bval_range(1) [of val e] assms(2) by (intro drop_bit_small) auto
  ultimately show ?thesis using r assms(2) by (auto intro!: simI)
qed

lemma lshr_simplifier_sim:
  assumes "lshr_simplifier k val shift = Some r" and "wf_bv (BOp BLshr val shift)"
  shows "sim r (BOp BLshr val shift)"
proof (cases "equals k shift 0")
  case True
  then have "bval e shift = 0" for e using assms(2) equals_value [of shift 0 e] by simp
  with True assms show ?thesis
    by (auto simp: lshr_simplifier_def bval_in_width intro!: simI)
next
  case False
  then have out: "shifted_out k val shift" and r: "r = BVVal 0 (len val)"
    using assms(1) by (auto simp: lshr_simplifier_def split: if_splits)
  obtain m where m: "m < len val" "\<And>e. bval e val < 2 ^ m" "\<And>e. int m < bval e shift"
    using shifted_out_value [OF out] assms(2) by auto
  then have "drop_bit (nat (bval e shift)) (bval e val) = 0" for e
    using bval_range(1) [of val e] assms(2) by (intro drop_bit_small) auto
  then show ?thesis using r assms(2) by (auto intro!: simI)
qed

lemma lshift_simplifier_sim:
  assumes "lshift_simplifier k val shift = Some r" and "wf_bv (BOp BShl val shift)"
    and "\<And>x y e. val = BOp BShl x y \<Longrightarrow> bval e y + bval e shift < 2 ^ len val"
  shows "sim r (BOp BShl val shift)"
proof (cases "equals k shift 0")
  case True
  then have "bval e shift = 0" for e using assms(2) equals_value [of shift 0 e] by simp
  with True assms show ?thesis
    by (auto simp: lshift_simplifier_def bval_in_width intro!: simI)
next
  case False
  then obtain x y where val: "val = BOp BShl x y"
    and r: "r = mk_bop k BShl x (mk_nop k NAdd [y, shift])"
    using assms(1) by (auto simp: lshift_simplifier_def split: bv.splits bop.splits)
  have sum: "take_bit (len x) (bval e y + bval e shift) = bval e y + bval e shift" for e
    using assms(2) assms(3) [of x y e] val bval_range [of y e] bval_range [of shift e]
    by (intro take_bit_int_eq_self) auto
  have "take_bit (len x) (push_bit (nat (bval e y + bval e shift)) (bval e x)) =
        take_bit (len x) (push_bit (nat (bval e shift)) (take_bit (len x) (push_bit (nat (bval e y)) (bval e x))))" for e
    using assms(2) val bval_range [of y e] bval_range [of shift e]
    by (intro bit_eqI) (auto simp: bit_simps nat_add_distrib diff_diff_left add.commute)
  then show ?thesis using val r assms(2) sum by (auto intro!: simI)
qed

end

end
