(* ===== verification/Simplify_Compare.thy ===== *)
theory Simplify_Compare
  imports Simplify_Concat
begin

text \<open>
  Soundness of the simplifiers of the comparisons: the result of \<open>eq_simplifier\<close>, \<open>ne_simplifier\<close> and
  \<open>ge_simplifier\<close> holds under the same assignments as the comparison. One rule needs a condition:
  \<open>(x & m) ^ m == 0\<close> may be replaced by \<open>x & m != 0\<close> only for a mask of one bit.
\<close>

section \<open>Exclusive or against zero\<close>

lemma xor_zero_iff: "v XOR w = 0 \<longleftrightarrow> v = (w :: int)"
  by (auto simp: bit_eq_iff bit_xor_iff)

lemma take_bit_xor_zero:
  "take_bit n v = v \<Longrightarrow> take_bit n w = w \<Longrightarrow> take_bit n (v XOR w) = 0 \<longleftrightarrow> v = (w :: int)"
  by (simp add: xor_zero_iff)

definition one_bit :: "nat \<Rightarrow> int \<Rightarrow> bool" where
  "one_bit n m \<longleftrightarrow> list_ex (\<lambda>i. m = 2 ^ i) [0..<n]"

lemma one_bit_exp: "one_bit n m \<Longrightarrow> \<exists>i. m = 2 ^ i"
  by (auto simp: one_bit_def list_ex_iff)

text \<open>Where the rule on a mask applies, the mask has one bit and no third argument is dropped.\<close>

fun mask_ok :: "bv \<Rightarrow> bv \<Rightarrow> bool" where
  "mask_ok (NOp NAnd (z0 # z1 # zs)) (BVVal m n) =
     ((bvv_is m z1 \<longrightarrow> one_bit n m) \<and> (\<not> bvv_is m z1 \<and> bvv_is m z0 \<longrightarrow> one_bit n m \<and> zs = []))"
| "mask_ok _ _ = True"

fun mask_rule_ok :: "bv \<Rightarrow> bool" where
  "mask_rule_ok (NOp NXor [x, y]) = mask_ok x y"
| "mask_rule_ok _ = True"

lemma bvv_is_value: "bvv_is v a \<Longrightarrow> bval e a = v"
  by (auto simp: bvv_is_def split: bv.splits)

lemma masked_one_bit:
  assumes m: "m = 2 ^ i" and v: "v AND m = (v :: int)"
  shows "v = m \<longleftrightarrow> v \<noteq> 0"
proof -
  have only: "j = i" if "bit v j" for j
  proof -
    have "bit (v AND m) j" using that v by simp
    then show ?thesis by (simp add: m bit_and_iff bit_exp_iff)
  qed
  have "v = m" if nz: "v \<noteq> 0"
  proof -
    obtain j where j: "bit v j" using nz by (auto simp: bit_eq_iff)
    then have "bit v i" using only [OF j] by simp
    then have "bit v n = bit m n" for n using only [of n] by (auto simp: m bit_exp_iff)
    then show ?thesis by (simp add: bit_eq_iff)
  qed
  then show ?thesis using m by auto
qed

lemma bit_foldr_and: "bit (foldr (AND) vs (- 1 :: int)) i \<longleftrightarrow> list_all (\<lambda>v. bit v i) vs"
  by (induction vs) (simp_all add: bit_and_iff)

lemma and_absorbs:
  "m \<in> set vs \<Longrightarrow> take_bit n (foldr (AND) vs (- 1)) AND m = take_bit n (foldr (AND) vs (- 1 :: int))"
  by (rule bit_eqI) (auto simp: bit_and_iff bit_take_bit_iff bit_foldr_and list_all_iff)

context sound_ctors
begin

lemma xor_mask_value:
  assumes "xor_mask k x y = Some z" and "mask_ok x y" and "wf_bv x" and "0 < len x"
  shows "wf_bv z \<and> len z = len x \<and> (bval e x = bval e y \<longleftrightarrow> bval e z \<noteq> 0)"
proof -
  obtain z0 z1 zs m n where x: "x = NOp NAnd (z0 # z1 # zs)" and y: "y = BVVal m n"
    using assms(1) by (elim xor_mask.elims) auto
  have wfs: "wf_bv z0" "wf_bv z1" "len z1 = len z0" "0 < len z0" using assms(3) x by auto
  have "one_bit n m" and m: "m \<in> set (map (bval e) (z0 # z1 # zs))"
    and z: "wf_bv z \<and> len z = len x \<and> bval e z = bval e x"
    using assms x y wfs bvv_is_value [of m z1 e] bvv_is_value [of m z0 e]
    by (auto split: if_splits simp: and.commute simp del: take_bit_and)
  have "bval e x AND m = bval e x"
    using and_absorbs [OF m, of "len x"] x by simp
  with one_bit_exp [OF \<open>one_bit n m\<close>] have "bval e x = m \<longleftrightarrow> bval e x \<noteq> 0"
    using masked_one_bit by blast
  with z y show ?thesis by simp
qed

lemma xor_zero_simplifier_simb:
  assumes rule: "xor_zero_simplifier k f g a b = Some r" and wf: "wf_bl (Cmp f a b)"
    and fg: "f = CEq \<and> g = CNe \<or> f = CNe \<and> g = CEq" and ok: "mask_rule_ok a"
  shows "simb r (Cmp f a b)"
proof -
  obtain x y where a: "a = NOp NXor [x, y]" and b: "bvv_is 0 b"
    using rule by (cases "(k, f, g, a, b)" rule: xor_zero_simplifier.cases) (auto split: if_splits)
  have wfs: "wf_bv x" "wf_bv y" "len y = len x" "0 < len x" "len b = len x"
    using wf a by auto
  have val_iff: "holds e (Cmp f a b) = ((bval e x = bval e y) = (f = CEq))" for e
    using fg wfs bval_in_width [of x e] bval_in_width [of y e] bvv_is_value [OF b, of e]
    by (auto simp: a take_bit_xor_zero simp flip: take_bit_xor)
  have one: "take_bit (len x) 1 = (1 :: int)" using wfs by simp
  consider "bvv_is 1 y" "r = mk_cmp k f x (bvv_like x 1)" | "bvv_is 1 x" "r = mk_cmp k f y (bvv_like y 1)"
    | z where "xor_mask k x y = Some z" "r = mk_cmp k g z (bvv_like z 0)"
    using rule b by (auto simp: a split: if_splits)
  then show ?thesis
  proof cases
    case 1
    then show ?thesis using fg wfs one val_iff bvv_is_value [of 1 y] by (intro simbI) auto
  next
    case 2
    then show ?thesis using fg wfs one val_iff bvv_is_value [of 1 x] by (intro simbI) auto
  next
    case 3
    then have z: "wf_bv z" "len z = len x" "\<And>e. bval e x = bval e y \<longleftrightarrow> bval e z \<noteq> 0"
      using xor_mask_value [OF 3(1)] ok a wfs by simp_all
    have "holds e r = holds e (Cmp f a b)" for e
      unfolding val_iff 3(2) z(3) using fg wfs z(1,2) by auto
    then show ?thesis using 3(2) wfs z(1,2) by (intro simbI) auto
  qed
qed

section \<open>Conditionals against one of their branches\<close>

lemma cmp_ne_value:
  "is_true (mk_cmp k CNe x y) \<Longrightarrow> wf_bv x \<Longrightarrow> wf_bv y \<Longrightarrow> len y = len x \<Longrightarrow> 0 < len x \<Longrightarrow> bval e x \<noteq> bval e y"
  using cmp_is_true [of CNe x y e] by simp

lemma eq_if_simplifier_simb:
  assumes rule: "eq_if_simplifier k a b = Some r" and wf: "wf_bl (Cmp CEq a b)"
  shows "simb r (Cmp CEq a b)"
  using rule unfolding eq_if_simplifier_def
proof (rule orelse_SomeE)
  assume left: "(case if_args a of
      Some (c, x, y) \<Rightarrow>
        if x = b \<and> is_true (mk_cmp k CNe y b) then Some c
        else if y = b \<and> is_true (mk_cmp k CNe x b) then Some (mk_not k c) else None
    | None \<Rightarrow> None) = Some r"
  then obtain c x y where a: "if_args a = Some (c, x, y)" by (auto split: option.splits)
  have "x = b \<and> is_true (mk_cmp k CNe y b) \<and> r = c \<or> y = b \<and> is_true (mk_cmp k CNe x b) \<and> r = mk_not k c"
    using left unfolding a by (simp split: if_splits)
  then show ?thesis
    using wf a cmp_ne_value [of x y] cmp_ne_value [of y x] by (auto simp: if_args_Some simb_def)
next
  assume right: "(case if_args b of
      Some (c, x, y) \<Rightarrow>
        if x = a \<and> is_true (mk_cmp k CNe y b) then Some c
        else if y = a \<and> is_true (mk_cmp k CNe x a) then Some (mk_not k c) else None
    | None \<Rightarrow> None) = Some r"
  then obtain c x y where b: "if_args b = Some (c, x, y)" by (auto split: option.splits)
  have "x = a \<and> is_true (mk_cmp k CNe y b) \<and> r = c \<or> y = a \<and> is_true (mk_cmp k CNe x a) \<and> r = mk_not k c"
    using right unfolding b by (simp split: if_splits)
  then show ?thesis
    using wf b cmp_ne_value [of x y] cmp_ne_value [of y x] cmp_ne_value [of y b]
    by (auto simp: if_args_Some simb_def split: if_splits; metis)
qed

lemma ne_if_simplifier_simb:
  assumes rule: "ne_if_simplifier k a b = Some r" and wf: "wf_bl (Cmp CNe a b)"
  shows "simb r (Cmp CNe a b)"
  using rule unfolding ne_if_simplifier_def
proof (rule orelse_SomeE)
  assume left: "(case if_args a of
      Some (c, x, y) \<Rightarrow>
        if y = b \<and> is_true (mk_cmp k CNe x b) then Some c
        else if x = b \<and> is_true (mk_cmp k CNe y b) then Some (mk_not k c) else None
    | None \<Rightarrow> None) = Some r"
  then obtain c x y where a: "if_args a = Some (c, x, y)" by (auto split: option.splits)
  have "y = b \<and> is_true (mk_cmp k CNe x b) \<and> r = c \<or> x = b \<and> is_true (mk_cmp k CNe y b) \<and> r = mk_not k c"
    using left unfolding a by (simp split: if_splits)
  then show ?thesis
    using wf a cmp_ne_value [of x y] cmp_ne_value [of y x] by (auto simp: if_args_Some simb_def)
next
  assume right: "(case if_args b of
      Some (c, x, y) \<Rightarrow>
        if y = a \<and> is_true (mk_cmp k CNe x a) then Some c
        else if x = a \<and> is_true (mk_cmp k CNe y a) then Some (mk_not k c) else None
    | None \<Rightarrow> None) = Some r"
  then obtain c x y where b: "if_args b = Some (c, x, y)" by (auto split: option.splits)
  have "y = a \<and> is_true (mk_cmp k CNe x a) \<and> r = c \<or> x = a \<and> is_true (mk_cmp k CNe y a) \<and> r = mk_not k c"
    using right unfolding b by (simp split: if_splits)
  then show ?thesis
    using wf b cmp_ne_value [of x y] cmp_ne_value [of y x] cmp_ne_value [of y b]
    by (auto simp: if_args_Some simb_def split: if_splits; metis)
qed

section \<open>High bits that are zero\<close>

lemma drop_bit_zero_iff: "0 \<le> v \<Longrightarrow> drop_bit n v = 0 \<longleftrightarrow> v < 2 ^ n" for v :: int
  by (auto simp: drop_bit_eq_div zdiv_eq_0_iff)

text \<open>The high \<open>n\<close> bits of a value of width \<open>w + n\<close>.\<close>

lemma high_bits:
  assumes "wf_bv b" and "len b = w + n" and "0 < n"
  shows "wf_bv (mk_extract k (len b - 1) (len b - n) b)" and "len (mk_extract k (len b - 1) (len b - n) b) = n"
    and "bval e (mk_extract k (len b - 1) (len b - n) b) = drop_bit w (bval e b)"
proof -
  have "i < n" if "bit (drop_bit w (bval e b)) i" for i
    using bit_bval [OF assms(1), of e "w + i"] assms(2) that by (simp add: bit_drop_bit_eq)
  then have "take_bit n (drop_bit w (bval e b)) = drop_bit w (bval e b)" by (rule take_bit_selfI)
  then show "wf_bv (mk_extract k (len b - 1) (len b - n) b)" "len (mk_extract k (len b - 1) (len b - n) b) = n"
    "bval e (mk_extract k (len b - 1) (len b - n) b) = drop_bit w (bval e b)"
    using assms by simp_all
qed

lemma high_bits_zero:
  assumes "wf_bv b" and "len b = w + n" and "0 < n"
    and "equals k (mk_extract k (len b - 1) (len b - n) b) 0"
  shows "bval e b < 2 ^ w"
proof -
  have "bval e (mk_extract k (len b - 1) (len b - n) b) = 0"
    using equals_value [OF assms(4)] high_bits(1,2) [OF assms(1-3)] assms(3) by simp
  then show ?thesis
    using high_bits(3) [OF assms(1-3), of e] bval_range(1) [OF assms(1)] drop_bit_zero_iff by simp
qed

lemma high_bits_nonzero:
  assumes "wf_bv b" and "len b = w + n" and "0 < n"
    and "b' = mk_extract k (len b - 1) (len b - n) b" and "is_false (mk_cmp k CEq b' (bvv_like b' 0))"
  shows "2 ^ w \<le> bval e b"
proof -
  have "bval e b' \<noteq> 0"
    using cmp_is_false [OF assms(5)] high_bits(1,2) [OF assms(1-3)] assms(3,4) by simp
  then show ?thesis
    using high_bits(3) [OF assms(1-3), of e] bval_range(1) [OF assms(1)] drop_bit_zero_iff [of "bval e b" w]
    by (simp add: assms(4))
qed

lemma zero_high_bits_value:
  "zero_high_bits a = Some (n, inner) \<Longrightarrow> wf_bv a \<Longrightarrow>
     wf_bv inner \<and> len a = len inner + n \<and> 0 < n \<and> 0 < len inner \<and> bval e a = bval e inner"
  by (induction a rule: zero_high_bits.induct) (auto split: if_splits dest: bvv_is_value [of _ _ e])

lemma zeroext_comparing_simb:
  assumes rule: "zeroext_comparing_against_simplifier k f a b = Some r" and wf: "wf_bl (Cmp f a b)"
  shows "simb r (Cmp f a b)"
proof -
  obtain n inner where high: "zero_high_bits a = Some (n, inner)" and f: "f \<in> {CEq, CNe, CUGE}"
    using rule by (auto simp: zeroext_comparing_against_simplifier_def split: if_splits option.splits)
  define b' where "b' = mk_extract k (len b - 1) (len b - n) b"
  have a: "wf_bv inner" "len a = len inner + n" "0 < n" "0 < len inner" "\<And>e. bval e a = bval e inner"
    using zero_high_bits_value [OF high] wf by simp_all
  have b: "wf_bv b" "len b = len inner + n" using wf a by simp_all
  have small: "bval e inner < 2 ^ len inner" for e using bval_range a by blast
  show ?thesis
  proof (cases "equals k b' 0")
    case True
    then have "bval e b < 2 ^ len inner" for e
      using high_bits_zero [OF b a(3)] by (simp add: b'_def)
    then have low: "take_bit (len inner) (bval e b) = bval e b" for e
      using bval_range(1) [OF b(1)] by (intro take_bit_int_eq_self) auto
    have r: "r = mk_cmp k f inner (mk_extract k (len inner - 1) 0 b)"
      using rule True high b by (auto simp: zeroext_comparing_against_simplifier_def b'_def split: if_splits)
    show ?thesis unfolding r using a b low wf f by (intro simbI) auto
  next
    case False
    then have "is_false (mk_cmp k CEq b' (bvv_like b' 0))" and r: "r = BoolVal (f = CNe)"
      using rule high by (auto simp: zeroext_comparing_against_simplifier_def b'_def Let_def split: if_splits)
    then have "2 ^ len inner \<le> bval e b" for e
      using high_bits_nonzero [OF b a(3) b'_def] by blast
    then have "bval e a < bval e b" for e unfolding a(5) using small less_le_trans by blast
    then have "bval e a \<noteq> bval e b" "\<not> bval e b \<le> bval e a" for e by (simp_all add: less_imp_neq not_le)
    then show ?thesis unfolding r using f by (intro simbI) auto
  qed
qed

lemma zero_extended_value:
  "zero_extended h a = Some inner \<Longrightarrow> wf_bv a \<Longrightarrow> h < len a \<Longrightarrow>
     wf_bv inner \<and> len inner \<le> h \<and> 0 < len inner \<and> bval e a = bval e inner"
  by (induction h a rule: zero_extended.induct) (auto split: if_splits dest: bvv_is_value [of _ _ e])

lemma zeroext_extract_comparing_simb:
  assumes rule: "zeroext_extract_comparing_against_constant_simplifier k f a b = Some r" and wf: "wf_bl (Cmp f a b)"
  shows "simb r (Cmp f a b)"
proof -
  obtain h x inner where a: "a = ExtractN h 0 x" and ext: "zero_extended h x = Some inner"
    and r: "r = (if len b - len inner = 0 then mk_cmp k f inner b
                 else mk_cmp k f (mk_zext k (len b - len inner) inner) b)"
    using rule
    by (auto simp: zeroext_extract_comparing_against_constant_simplifier_def Let_def
        split: bv.splits if_splits option.splits)
  have x: "wf_bv inner" "len inner \<le> h" "0 < len inner" "\<And>e. bval e x = bval e inner"
    using zero_extended_value [OF ext] wf a by simp_all
  have "take_bit (Suc h) (bval e inner) = bval e inner" for e
    using bit_bval [OF x(1), of e] x(2) by (intro take_bit_selfI) fastforce
  then show ?thesis unfolding r using wf a x by (intro simbI) auto
qed

end

section \<open>Reversals\<close>

lemma bit_reverse:
  assumes "wf_bv (UOp URev x)"
  shows "bit (bval e (UOp URev x)) i \<longleftrightarrow> i < len x \<and> bit (bval e x) (mirror_bit (len x) i)"
  using assms by (auto simp: bit_take_bit_iff bit_reverse_bytes)

lemma reverse_inject:
  assumes "wf_bv (UOp URev x)" and "wf_bv (UOp URev y)" and "len y = len x"
  shows "bval e (UOp URev x) = bval e (UOp URev y) \<longleftrightarrow> bval e x = bval e y"
proof
  assume eq: "bval e (UOp URev x) = bval e (UOp URev y)"
  have n: "len x mod 8 = 0" using assms(1) by simp
  have "bit (bval e x) i = bit (bval e y) i" if "i < len x" for i
    using bit_reverse [OF assms(1), of e "mirror_bit (len x) i"] bit_reverse [OF assms(2), of e "mirror_bit (len x) i"]
      mirror_bit_mirror [OF n that] eq assms(3) by simp
  then have "bit (bval e x) i = bit (bval e y) i" for i
    using bit_bval [of x e i] bit_bval [of y e i] assms by (cases "i < len x") auto
  then show "bval e x = bval e y" by (simp add: bit_eq_iff)
qed (use assms in simp)

section \<open>Masks\<close>

lemma mask_bits_False: "snd (mask_bits v z False) = False"
proof (induction "nat v" arbitrary: v z rule: less_induct)
  case less
  show ?case
  proof (cases "v \<le> 0")
    case False
    then have "nat (drop_bit 1 v) < nat v" by (simp add: drop_bit_eq_div)
    from less [OF this] False show ?thesis by (subst mask_bits.simps) simp
  qed (subst mask_bits.simps, simp)
qed

text \<open>The loop counts the bits of the mask: below \<open>zero_bits\<close> the mask fits, and \<open>mask_allones\<close> is lost.\<close>

lemma mask_bits_spec:
  "0 \<le> v \<Longrightarrow> v < 2 ^ z \<Longrightarrow> mask_bits v z ones = (z', ones') \<Longrightarrow>
     z' \<le> z \<and> v < 2 ^ (z - z') \<and> (v = 0 \<longrightarrow> z' = z) \<and> (v \<noteq> 0 \<longrightarrow> z' < z \<and> \<not> ones')"
proof (induction "nat v" arbitrary: v z ones rule: less_induct)
  case less
  show ?case
  proof (cases "v = 0")
    case True
    with less.prems show ?thesis by (subst (asm) mask_bits.simps) simp
  next
    case False
    define w where "w = drop_bit 1 v"
    have w: "0 \<le> w" "v = 2 * w + v mod 2" "nat w < nat v"
      using less.prems False by (simp_all add: w_def drop_bit_eq_div)
    obtain y where z: "z = Suc y" using less.prems False by (cases z) auto
    have "w < 2 ^ y" using less.prems(2) by (simp add: w_def z drop_bit_eq_div)
    moreover have rest: "mask_bits w y (ones \<and> v AND 1 = 0) = (z', ones')"
      using less.prems(1,3) False z by (subst (asm) mask_bits.simps) (simp add: w_def)
    ultimately have IH: "z' \<le> y \<and> w < 2 ^ (y - z') \<and> (w = 0 \<longrightarrow> z' = y) \<and> (w \<noteq> 0 \<longrightarrow> z' < y \<and> \<not> ones')"
      using less.hyps [OF w(3) w(1)] by blast
    have "v < 2 * 2 ^ (y - z')" using w IH pos_mod_bound [of 2 v] by linarith
    moreover have "\<not> ones'" if "w = 0"
    proof -
      have "v AND 1 = 1" using w False that less.prems(1) by (simp add: and_one_eq)
      then show ?thesis using mask_bits_False [of w y] rest by simp
    qed
    ultimately show ?thesis using IH False by (auto simp: z Suc_diff_le)
  qed
qed

lemma aligned_index:
  assumes "0 < w" and "w \<le> (n :: nat)"
    and "i = (if n mod 8 = 0 \<and> (w - 1 + 1) mod 8 \<noteq> 0 then w - 1 + (8 - (w - 1 + 1) mod 8) else w - 1)"
  shows "w \<le> i + 1 \<and> i < n"
proof (cases "n mod 8 = 0 \<and> w mod 8 \<noteq> 0")
  case True
  define p q t where "p = n div 8" and "q = w div 8" and "t = w mod 8"
  have n: "n = 8 * p" and w: "w = 8 * q + t" and t: "0 < t" "t < 8"
    using True by (auto simp: p_def q_def t_def)
  then have "q < p" using assms(2) by linarith
  then have "w + (8 - t) \<le> n" using n w t by linarith
  then have "w + (8 - w mod 8) \<le> n" by (simp add: t_def)
  moreover have "i = w - 1 + (8 - w mod 8)" using True assms by simp
  moreover have "w mod 8 < 8" by simp
  ultimately show ?thesis using assms(1) by linarith
qed (use assms in auto)

lemma take_bit_mono: "take_bit m v = v \<Longrightarrow> m \<le> n \<Longrightarrow> take_bit n v = (v :: int)"
  by (metis min.absorb2 take_bit_take_bit)

context sound_ctors
begin

lemma and_mask_comparing_simb:
  assumes rule: "and_mask_comparing_against_constant_simplifier k f a b = Some r" and wf: "wf_bl (Cmp f a b)"
  shows "simb r (Cmp f a b)"
proof -
  obtain x m n where a: "a = NOp NAnd [x, BVVal m n]"
    using rule by (elim and_mask_comparing_against_constant_simplifier.elims) auto
  obtain z ones where mb: "mask_bits m n True = (z, ones)" by force
  define w b' where "w = n - z" and "b' = mk_extract k (len b - 1) (len b - z) b"
  have wfs: "wf_bv x" "len x = n" "0 < n" "wf_bv b" "len b = n" "0 \<le> m" "m < 2 ^ n"
    using wf a by auto
  have f: "f \<in> {CEq, CNe}" and z: "0 < z"
    using rule a mb by (auto simp: Let_def split: if_splits)
  have mask: "z \<le> n" "m < 2 ^ w" "m = 0 \<longrightarrow> z = n" "m \<noteq> 0 \<longrightarrow> z < n \<and> \<not> ones"
    using mask_bits_spec [OF wfs(6,7) mb] by (auto simp: w_def)
  then have lenb: "len b = w + z" using wfs by (simp add: w_def)
  have tm: "take_bit w m = m" using wfs mask by (intro take_bit_int_eq_self) auto
  have val: "bval e a = bval e x AND m" for e
    using wfs tm bval_in_width [of x e] take_bit_mono [of w m n] by (simp add: a w_def)
  show ?thesis
  proof (cases "equals k b' 0")
    case True
    have "bval e b < 2 ^ w" for e
      using high_bits_zero [OF wfs(4) lenb z] True by (simp add: b'_def)
    then have tb: "take_bit w (bval e b) = bval e b" for e
      using bval_range(1) [OF wfs(4)] by (intro take_bit_int_eq_self) auto
    show ?thesis
    proof (cases "z = n")
      case zn: True
      with mask have "m = 0" by auto
      moreover have "r = mk_cmp k f (BVVal 0 n) b"
        using rule True z f unfolding a and_mask_comparing_against_constant_simplifier.simps mb
        by (simp add: zn wfs b'_def Let_def split: if_splits)
      moreover have "len a = n" using wfs a by simp
      ultimately show ?thesis using val wfs by (intro simbI) simp_all
    next
      case False
      define i where "i = (if n mod 8 = 0 \<and> (w - 1 + 1) mod 8 \<noteq> 0 then w - 1 + (8 - (w - 1 + 1) mod 8) else w - 1)"
      have i: "w \<le> i + 1" "i < n" using aligned_index [of w n i] False mask by (auto simp: w_def i_def)
      have idx: "n - 1 - z = w - 1" by (simp add: w_def)
      have r: "r = mk_cmp k f (mk_nop k NAnd [mk_extract k i 0 x, bvv_like (mk_extract k i 0 x) m]) (mk_extract k i 0 b)"
        using rule True False z f wfs mb a mask
        by (simp add: b'_def i_def [unfolded idx [symmetric]] Let_def split: if_splits) auto
      have "take_bit (Suc i) (bval e x) AND m = bval e x AND m" for e
      proof -
        have "bit m j \<Longrightarrow> j < Suc i" for j using nonneg_bit_range [OF tm, of j] i by simp
        then show ?thesis by (intro bit_eqI) (auto simp: bit_and_iff bit_take_bit_iff)
      qed
      moreover have "take_bit (Suc i) m = m" "take_bit (Suc i) (bval e b) = bval e b" for e
        using tm tb take_bit_mono i by auto
      ultimately show ?thesis unfolding r using wfs i val f by (intro simbI) auto
    qed
  next
    case False
    then have "is_false (mk_cmp k CEq b' (bvv_like b' 0))" and r: "r = BoolVal (f \<noteq> CEq)"
      using rule mb z f a by (auto simp: b'_def Let_def split: if_splits)
    then have "2 ^ w \<le> bval e b" for e
      using high_bits_nonzero [OF wfs(4) lenb z b'_def] by blast
    moreover have "bval e a < 2 ^ w" for e
      unfolding val using AND_upper2 [OF wfs(6), of "bval e x"] mask(2) by linarith
    ultimately have "bval e a \<noteq> bval e b" for e by (metis not_le)
    then show ?thesis unfolding r using f by (intro simbI) auto
  qed
qed

section \<open>Constant bits\<close>

lemma bits_differ_value:
  assumes "bits_differ k differ a b is" and "\<forall>i\<in>set is. i < len a" and "wf_bl (Cmp f a b)"
    and "\<And>x y. differ x y \<Longrightarrow> wf_bv x \<Longrightarrow> wf_bv y \<Longrightarrow> len y = len x \<Longrightarrow> 0 < len x \<Longrightarrow> bval e x \<noteq> bval e y"
  shows "bval e a \<noteq> bval e b"
  using assms
proof (induction "is")
  case (Cons i "is")
  show ?case
  proof (cases "differ (mk_extract k i i a) (mk_extract k i i b)")
    case True
    from Cons.prems(4) [OF True] Cons.prems(2,3) show ?thesis by auto
  next
    case False
    with Cons show ?thesis by (auto simp: Let_def split: if_splits)
  qed
qed simp

lemma sub_compare:
  assumes "take_bit n x = x" and "take_bit n b = b"
  shows "take_bit n (x - y) = b \<longleftrightarrow> x = take_bit n (y + (b :: int))"
proof -
  have "x = take_bit n (y + b)" if "b = take_bit n (x - y)"
    unfolding that using assms(1) by (simp add: take_bit_eq_mod mod_simps)
  moreover have "take_bit n (x - y) = b" if "x = take_bit n (y + b)"
    unfolding that using assms(2) by (simp add: take_bit_eq_mod mod_simps)
  ultimately show ?thesis by auto
qed

section \<open>The simplifiers of the comparisons\<close>

lemma flip_simb:
  assumes "wf_bl (Cmp f a b)" and "f \<in> {CEq, CNe}"
  shows "simb (mk_cmp k f b a) (Cmp f a b)"
  using assms by (intro simbI) auto

lemma both_reversed_Some: "both_reversed a b = Some (x, y) \<longleftrightarrow> a = UOp URev x \<and> b = UOp URev y"
  by (cases "(a, b)" rule: both_reversed.cases) auto

lemma eq_sub_simplifier_simb:
  assumes "eq_sub_simplifier k a b = Some r" and "wf_bl (Cmp CEq a b)"
  shows "simb r (Cmp CEq a b)"
proof -
  obtain x y where a: "a = BOp BSub x y" and r: "r = mk_cmp k CEq x (mk_nop k NAdd [y, b])"
    using assms(1) by (elim eq_sub_simplifier.elims) (auto split: if_splits)
  have "take_bit (len x) (bval e x - bval e y) = bval e b \<longleftrightarrow> bval e x = take_bit (len x) (bval e y + bval e b)" for e
    using assms(2) a bval_in_width [of x e] bval_in_width [of b e] by (intro sub_compare) auto
  then show ?thesis unfolding r using assms(2) a by (intro simbI) auto
qed

lemma eq_bits_simplifier_simb:
  assumes "eq_bits_simplifier k a b = Some r" and "wf_bl (Cmp CEq a b)"
  shows "simb r (Cmp CEq a b)"
proof -
  have differ: "bits_differ k (\<lambda>x y. is_false (mk_cmp k CEq x y)) a b [0..<len a]" and r: "r = BoolVal False"
    using assms(1) by (auto simp: eq_bits_simplifier_def split: if_splits)
  have "bval e a \<noteq> bval e b" for e
    by (rule bits_differ_value [OF differ _ assms(2)]) (use cmp_is_false [of CEq _ _ e] in auto)
  then show ?thesis unfolding r by (intro simbI) auto
qed

lemma ne_bits_simplifier_simb:
  assumes "ne_bits_simplifier k a b = Some r" and "wf_bl (Cmp CNe a b)"
  shows "simb r (Cmp CNe a b)"
proof -
  have differ: "bits_differ k (\<lambda>x y. is_true (mk_cmp k CNe x y)) a b [0..<len a]" and r: "r = BoolVal True"
    using assms(1) by (auto simp: ne_bits_simplifier_def split: if_splits)
  have "bval e a \<noteq> bval e b" for e
    by (rule bits_differ_value [OF differ _ assms(2)]) (use cmp_is_true [of CNe _ _ e] in auto)
  then show ?thesis unfolding r by (intro simbI) auto
qed

lemma reversed_simb:
  assumes "both_reversed a b = Some (x, y)" and "wf_bl (Cmp f a b)" and "f \<in> {CEq, CNe}"
  shows "simb (mk_cmp k f x y) (Cmp f a b)"
  using assms reverse_inject [of x y] by (intro simbI) (auto simp: both_reversed_Some)

lemmas compare_rules = xor_zero_simplifier_simb and_mask_comparing_simb zeroext_extract_comparing_simb
  zeroext_comparing_simb

lemma eq_simplifier_simb:
  assumes "eq_simplifier k a b = Some r" and wf: "wf_bl (Cmp CEq a b)" and ok: "mask_rule_ok a"
  shows "simb r (Cmp CEq a b)"
proof (cases "a = b \<or> both_reversed a b \<noteq> None \<or> is_bvv a \<and> \<not> is_bvv b")
  case True
  then consider "a = b" "r = BoolVal True" | x y where "both_reversed a b = Some (x, y)" "r = mk_cmp k CEq x y"
    | "r = mk_cmp k CEq b a"
    using assms(1) by (auto simp: eq_simplifier_def split: if_splits option.splits prod.splits)
  then show ?thesis
    using wf reversed_simb [of a b _ _ CEq] flip_simb by cases (auto intro: simbI)
next
  case False
  then have cond: "a \<noteq> b" "both_reversed a b = None" "\<not> (is_bvv a \<and> \<not> is_bvv b)" by blast+
  then have "orelse (eq_sub_simplifier k a b) (orelse (xor_zero_simplifier k CEq CNe a b) (orelse (eq_if_simplifier k a b)
        (orelse (and_mask_comparing_against_constant_simplifier k CEq a b)
        (orelse (zeroext_extract_comparing_against_constant_simplifier k CEq a b)
        (orelse (zeroext_comparing_against_simplifier k CEq a b) (eq_bits_simplifier k a b)))))) = Some r"
    using assms(1) by (simp only: eq_simplifier_def cond if_False option.case)
  then show ?thesis
    by (elim orelse_SomeE)
      (rule compare_rules eq_sub_simplifier_simb eq_if_simplifier_simb eq_bits_simplifier_simb,
        assumption, use wf ok in simp_all)+
qed

lemma ne_simplifier_simb:
  assumes "ne_simplifier k a b = Some r" and wf: "wf_bl (Cmp CNe a b)" and ok: "mask_rule_ok a"
  shows "simb r (Cmp CNe a b)"
proof (cases "a = b \<or> both_reversed a b \<noteq> None \<or> is_bvv a \<and> \<not> is_bvv b")
  case True
  then consider "a = b" "r = BoolVal False" | x y where "both_reversed a b = Some (x, y)" "r = mk_cmp k CNe x y"
    | "r = mk_cmp k CNe b a"
    using assms(1) by (auto simp: ne_simplifier_def split: if_splits option.splits prod.splits)
  then show ?thesis
    using wf reversed_simb [of a b _ _ CNe] flip_simb by cases (auto intro: simbI)
next
  case False
  then have cond: "a \<noteq> b" "both_reversed a b = None" "\<not> (is_bvv a \<and> \<not> is_bvv b)" by blast+
  then have "orelse (ne_if_simplifier k a b) (orelse (xor_zero_simplifier k CNe CEq a b)
        (orelse (and_mask_comparing_against_constant_simplifier k CNe a b)
        (orelse (zeroext_extract_comparing_against_constant_simplifier k CNe a b)
        (orelse (zeroext_comparing_against_simplifier k CNe a b) (ne_bits_simplifier k a b))))) = Some r"
    using assms(1) by (simp only: ne_simplifier_def cond if_False option.case)
  then show ?thesis
    by (elim orelse_SomeE)
      (rule compare_rules ne_if_simplifier_simb ne_bits_simplifier_simb,
        assumption, use wf ok in simp_all)+
qed

lemma ge_simplifier_simb:
  "ge_simplifier k a b = Some r \<Longrightarrow> wf_bl (Cmp CUGE a b) \<Longrightarrow> simb r (Cmp CUGE a b)"
  unfolding ge_simplifier_def by (rule zeroext_comparing_simb)

lemma simplify_cmp_simb:
  assumes "simplify_cmp k f a b = Some r" and "wf_bl (Cmp f a b)" and "mask_rule_ok a"
  shows "simb r (Cmp f a b)"
  using assms by (cases f) (auto simp: simplify_cmp_def intro: eq_simplifier_simb ne_simplifier_simb ge_simplifier_simb)

section \<open>Comparisons of booleans\<close>

lemma bne_value: "is_true (mk_bne k p q) \<Longrightarrow> wf_bl p \<Longrightarrow> wf_bl q \<Longrightarrow> holds e p \<noteq> holds e q"
  using is_true_holds [of "mk_bne k p q" e] by simp

lemma beq_if_simb:
  assumes rule: "orelse
        (case if_bool_args a of
           Some (c, x, y) \<Rightarrow>
             if x = b \<and> is_true (mk_bne k y b) then Some c
             else if y = b \<and> is_true (mk_bne k x b) then Some (mk_not k c) else None
         | _ \<Rightarrow> None)
        (case if_bool_args b of
           Some (c, x, y) \<Rightarrow>
             if x = a \<and> is_true (mk_bne k y b) then Some c
             else if y = a \<and> is_true (mk_bne k x a) then Some (mk_not k c) else None
         | _ \<Rightarrow> None) = Some r"
    and wf: "wf_bl a" "wf_bl b"
  shows "simb r (BoolEq a b)"
  using rule
proof (rule orelse_SomeE)
  assume left: "(case if_bool_args a of
           Some (c, x, y) \<Rightarrow>
             if x = b \<and> is_true (mk_bne k y b) then Some c
             else if y = b \<and> is_true (mk_bne k x b) then Some (mk_not k c) else None
         | _ \<Rightarrow> None) = Some r"
  then obtain c x y where a: "if_bool_args a = Some (c, x, y)" by (auto split: option.splits)
  have "x = b \<and> is_true (mk_bne k y b) \<and> r = c \<or> y = b \<and> is_true (mk_bne k x b) \<and> r = mk_not k c"
    using left unfolding a by (simp split: if_splits)
  then show ?thesis
    using wf a bne_value [of x y] bne_value [of y x] by (auto simp: if_bool_args_Some simb_def)
next
  assume right: "(case if_bool_args b of
           Some (c, x, y) \<Rightarrow>
             if x = a \<and> is_true (mk_bne k y b) then Some c
             else if y = a \<and> is_true (mk_bne k x a) then Some (mk_not k c) else None
         | _ \<Rightarrow> None) = Some r"
  then obtain c x y where b: "if_bool_args b = Some (c, x, y)" by (auto split: option.splits)
  have "x = a \<and> is_true (mk_bne k y b) \<and> r = c \<or> y = a \<and> is_true (mk_bne k x a) \<and> r = mk_not k c"
    using right unfolding b by (simp split: if_splits)
  then show ?thesis
    using wf b bne_value [of x y] bne_value [of y x] bne_value [of y b]
    by (auto simp: if_bool_args_Some simb_def split: if_splits; metis)
qed

lemma bne_if_simb:
  assumes rule: "orelse
        (case if_bool_args a of
           Some (c, x, y) \<Rightarrow>
             if y = b \<and> is_true (mk_bne k x b) then Some c
             else if x = b \<and> is_true (mk_bne k y b) then Some (mk_not k c) else None
         | _ \<Rightarrow> None)
        (case if_bool_args b of
           Some (c, x, y) \<Rightarrow>
             if y = a \<and> is_true (mk_bne k x a) then Some c
             else if x = a \<and> is_true (mk_bne k y a) then Some (mk_not k c) else None
         | _ \<Rightarrow> None) = Some r"
    and wf: "wf_bl a" "wf_bl b"
  shows "simb r (BoolNe a b)"
  using rule
proof (rule orelse_SomeE)
  assume left: "(case if_bool_args a of
           Some (c, x, y) \<Rightarrow>
             if y = b \<and> is_true (mk_bne k x b) then Some c
             else if x = b \<and> is_true (mk_bne k y b) then Some (mk_not k c) else None
         | _ \<Rightarrow> None) = Some r"
  then obtain c x y where a: "if_bool_args a = Some (c, x, y)" by (auto split: option.splits)
  have "y = b \<and> is_true (mk_bne k x b) \<and> r = c \<or> x = b \<and> is_true (mk_bne k y b) \<and> r = mk_not k c"
    using left unfolding a by (simp split: if_splits)
  then show ?thesis
    using wf a bne_value [of x y] bne_value [of y x] by (auto simp: if_bool_args_Some simb_def)
next
  assume right: "(case if_bool_args b of
           Some (c, x, y) \<Rightarrow>
             if y = a \<and> is_true (mk_bne k x a) then Some c
             else if x = a \<and> is_true (mk_bne k y a) then Some (mk_not k c) else None
         | _ \<Rightarrow> None) = Some r"
  then obtain c x y where b: "if_bool_args b = Some (c, x, y)" by (auto split: option.splits)
  have "y = a \<and> is_true (mk_bne k x a) \<and> r = c \<or> x = a \<and> is_true (mk_bne k y a) \<and> r = mk_not k c"
    using right unfolding b by (simp split: if_splits)
  then show ?thesis
    using wf b bne_value [of x y] bne_value [of y x] bne_value [of y b]
    by (auto simp: if_bool_args_Some simb_def split: if_splits; metis)
qed

lemma beq_simplifier_simb:
  assumes "beq_simplifier k a b = Some r" and "wf_bl a" and "wf_bl b"
  shows "simb r (BoolEq a b)"
proof (cases "a = b \<or> a \<in> {BoolVal True, BoolVal False} \<or> b \<in> {BoolVal True, BoolVal False}")
  case True
  then show ?thesis using assms by (auto simp: beq_simplifier_def simb_def split: if_splits)
next
  case False
  then show ?thesis
    using assms by (intro beq_if_simb [where a = a and b = b]) (simp_all add: beq_simplifier_def)
qed

lemma bne_simplifier_simb:
  assumes "bne_simplifier k a b = Some r" and "wf_bl a" and "wf_bl b"
  shows "simb r (BoolNe a b)"
proof (cases "a = b")
  case True
  then show ?thesis using assms by (auto simp: bne_simplifier_def simb_def)
next
  case False
  then show ?thesis
    using assms by (intro bne_if_simb [where a = a and b = b]) (simp_all add: bne_simplifier_def)
qed

end

end
