(* ===== verification/Simplify_Bool.thy ===== *)
theory Simplify_Bool
  imports Simplify_Compare
begin

text \<open>
  Soundness of the simplifiers of \<open>And\<close>, \<open>Or\<close> and \<open>Not\<close> and of the conditional \<open>If\<close>.
\<close>

section \<open>Flattening\<close>

lemma set_dedup: "set (dedup seen as) = set as - set seen"
  by (induction seen as rule: dedup.induct) auto

lemma set_deduplicate [simp]: "set (deduplicate_filter as) = set as"
  by (simp add: deduplicate_filter_def set_dedup)

lemma deduplicate_nonempty [simp]: "deduplicate_filter as = [] \<longleftrightarrow> as = []"
  by (metis set_deduplicate set_empty)

lemma all_deduplicate [simp]: "list_all P (deduplicate_filter as) = list_all P as"
  "list_ex P (deduplicate_filter as) = list_ex P as"
  by (simp_all add: list_all_iff list_ex_iff)

lemma splice_and_all:
  assumes "list_all wf_bl ps" and "ps \<noteq> []"
  shows "list_all wf_bl (splice_and ps)" and "splice_and ps \<noteq> []"
    and "list_all (holds e) (splice_and ps) = list_all (holds e) ps"
proof -
  show "list_all wf_bl (splice_and ps)" "list_all (holds e) (splice_and ps) = list_all (holds e) ps"
    using assms(1) by (induction ps) (auto simp: splice_and_def split: bl.splits)
  show "splice_and ps \<noteq> []"
    using assms by (cases ps) (auto simp: splice_and_def split: bl.splits)
qed

lemma splice_or_all:
  assumes "list_all wf_bl ps" and "ps \<noteq> []"
  shows "list_all wf_bl (splice_or ps)" and "splice_or ps \<noteq> []"
    and "list_ex (holds e) (splice_or ps) = list_ex (holds e) ps"
proof -
  show "list_all wf_bl (splice_or ps)" "list_ex (holds e) (splice_or ps) = list_ex (holds e) ps"
    using assms(1) by (induction ps) (auto simp: splice_or_def split: bl.splits)
  show "splice_or ps \<noteq> []"
    using assms by (cases ps) (auto simp: splice_or_def split: bl.splits)
qed

lemma flatten_and_simb:
  assumes "list_all wf_bl ps" and "ps \<noteq> []"
  shows "simb (flatten_bool AndN (splice_and ps)) (AndN ps)"
proof -
  define qs where "qs = deduplicate_filter (splice_and ps)"
  have qs: "list_all wf_bl qs" "qs \<noteq> []" "\<And>e. list_all (holds e) qs = list_all (holds e) ps"
    using splice_and_all [OF assms] by (simp_all add: qs_def)
  show ?thesis
  proof (cases "length qs = 1")
    case True
    then obtain q where "qs = [q]" by (auto simp: length_Suc_conv)
    with qs show ?thesis by (simp add: flatten_bool_def simb_def flip: qs_def)
  next
    case False
    with qs have "wf_bl (AndN qs)" by (cases qs) (auto simp: numeral_2_eq_2 Suc_le_eq)
    with False qs nodeb_wf [of "AndN qs"] show ?thesis by (simp add: flatten_bool_def simb_def flip: qs_def)
  qed
qed

lemma flatten_or_simb:
  assumes "list_all wf_bl ps" and "ps \<noteq> []"
  shows "simb (flatten_bool OrN (splice_or ps)) (OrN ps)"
proof -
  define qs where "qs = deduplicate_filter (splice_or ps)"
  have qs: "list_all wf_bl qs" "qs \<noteq> []" "\<And>e. list_ex (holds e) qs = list_ex (holds e) ps"
    using splice_or_all [OF assms] by (simp_all add: qs_def)
  show ?thesis
  proof (cases "length qs = 1")
    case True
    then obtain q where "qs = [q]" by (auto simp: length_Suc_conv)
    with qs show ?thesis by (simp add: flatten_bool_def simb_def flip: qs_def)
  next
    case False
    with qs have "wf_bl (OrN qs)" by (cases qs) (auto simp: numeral_2_eq_2 Suc_le_eq)
    with False qs nodeb_wf [of "OrN qs"] show ?thesis by (simp add: flatten_bool_def simb_def flip: qs_def)
  qed
qed

section \<open>Conditions on one operand\<close>

text \<open>Equality of two operands under an assignment; a bit-vector is never equal to a boolean.\<close>

fun tree_eq :: "env \<Rightarrow> tree \<Rightarrow> tree \<Rightarrow> bool" where
  "tree_eq e (Vec a) (Vec b) = (bval e a = bval e b)"
| "tree_eq e (Truth p) (Truth q) = (holds e p = holds e q)"
| "tree_eq e _ _ = False"

fun tree_like :: "tree \<Rightarrow> tree \<Rightarrow> bool" where
  "tree_like (Vec a) (Vec b) = (wf_bv a \<and> wf_bv b \<and> len a = len b \<and> 0 < len a)"
| "tree_like (Truth p) (Truth q) = True"
| "tree_like _ _ = False"

lemma tree_eq_sym: "tree_eq e x y = tree_eq e y x"
  by (cases x; cases y) auto

lemma tree_like_sym: "tree_like x y = tree_like y x"
  by (cases x; cases y) auto

lemma two_args_holds:
  assumes "two_args p = Some (x, y)" and "wf_bl p"
  shows "is_eq p \<Longrightarrow> holds e p = tree_eq e x y \<and> tree_like x y"
    and "is_ne p \<Longrightarrow> holds e p = (\<not> tree_eq e x y) \<and> tree_like x y"
  using assms by (induction p rule: two_args.induct; auto elim: is_eq.elims is_ne.elims)+

lemma eq_ne_lists_holds:
  "eq_ne_lists t ps = Some (eqs, nes) \<Longrightarrow> list_all wf_bl ps \<Longrightarrow>
     (list_all (holds e) ps \<longleftrightarrow> list_all (tree_eq e t) eqs \<and> list_all (\<lambda>u. \<not> tree_eq e t u) nes)
     \<and> list_all (tree_like t) eqs \<and> list_all (tree_like t) nes"
proof (induction ps arbitrary: eqs nes)
  case (Cons p ps)
  obtain x y other eqs' nes' where xy: "two_args p = Some (x, y)"
    and other: "x = t \<and> other = y \<or> y = t \<and> other = x" and rest: "eq_ne_lists t ps = Some (eqs', nes')"
    and kind: "is_eq p \<and> eqs = other # eqs' \<and> nes = nes' \<or> is_ne p \<and> eqs = eqs' \<and> nes = other # nes'"
    using Cons.prems(1)
    by (auto simp: bind_eq_Some_conv split: if_splits)
  have IH: "(list_all (holds e) ps \<longleftrightarrow> list_all (tree_eq e t) eqs' \<and> list_all (\<lambda>u. \<not> tree_eq e t u) nes')
     \<and> list_all (tree_like t) eqs' \<and> list_all (tree_like t) nes'"
    using Cons.IH [OF rest] Cons.prems(2) by simp
  show ?case
    using kind two_args_holds [OF xy, of e] other IH Cons.prems(2) tree_eq_sym [of e x y] tree_like_sym [of x y]
    by auto
qed simp

context sound_ctors
begin

lemma single_target_simb:
  assumes wf: "wf_bl (AndN ps)"
  shows "simb (single_target k (AndN ps) ps) (AndN ps)"
proof (cases "\<exists>t eqs nes. target_of ps = Some t \<and> eq_ne_lists t ps = Some (eqs, nes) \<and> eqs \<noteq> []")
  case False
  then show ?thesis using wf by (auto simp: single_target_def simb_refl split: option.splits)
next
  case True
  then obtain t c eqs nes where t: "target_of ps = Some t" and lists: "eq_ne_lists t ps = Some (c # eqs, nes)"
    by (auto simp: neq_Nil_conv)
  have hold: "list_all (holds e) ps \<longleftrightarrow> list_all (tree_eq e t) (c # eqs) \<and> list_all (\<lambda>u. \<not> tree_eq e t u) nes"
    and like: "list_all (tree_like t) (c # eqs)" "list_all (tree_like t) nes" for e
    using eq_ne_lists_holds [OF lists] wf by auto
  define both where "both = list_ex (\<lambda>ne. ne \<in> set (c # eqs)) nes"
  define all_const where "all_const \<longleftrightarrow> list_all tree_bvv (c # eqs) \<and> list_all tree_bvv nes"
  define clash where "clash = list_ex (\<lambda>eq. tree_value eq \<noteq> tree_value c) (c # eqs)"
  have result: "single_target k (AndN ps) ps =
      (if both then BoolVal False
       else if all_const then (if clash then BoolVal False
                            else case (t, c) of (Vec t, Vec c) \<Rightarrow> mk_cmp k CEq t c | _ \<Rightarrow> AndN ps)
       else AndN ps)"
    by (simp add: single_target_def t lists both_def all_const_def clash_def)
  show ?thesis
  proof (cases "both \<or> \<not> all_const")
    case True
    have "\<not> list_all (holds e) ps" if both for e
      using that hold [of e] by (auto simp: both_def list_all_iff list_ex_iff)
    with True wf show ?thesis by (auto simp: result simb_def)
  next
    case False
    then obtain a v n where c: "t = Vec a" "c = Vec (BVVal v n)"
      using like by (cases "(t, c)" rule: tree_like.cases) (auto simp: all_const_def elim: tree_bvv.elims)
    have a: "wf_bv a" "0 < n" "len a = n" "0 \<le> v" "v < 2 ^ n" using like c by auto
    have const: "\<exists>w. u = Vec (BVVal w n) \<and> (tree_eq e t u \<longleftrightarrow> bval e a = w)" if "u \<in> set (c # eqs) \<union> set nes" for u e
    proof -
      have "tree_bvv u" "tree_like t u" using that False like by (auto simp: all_const_def list_all_iff)
      then show ?thesis using c a by (cases u) (auto elim: tree_bvv.elims)
    qed
    show ?thesis
    proof (cases clash)
      case True
      then obtain u where u: "u \<in> set eqs" "tree_value u \<noteq> v" by (auto simp: clash_def c list_ex_iff)
      have "\<not> list_all (holds e) ps" for e
        using const [of u e] const [of c e] u hold [of e] c by (auto simp: list_all_iff)
      then show ?thesis using False True by (auto simp: result simb_def)
    next
      case no: False
      have eqs: "tree_eq e t u \<longleftrightarrow> bval e a = v" if "u \<in> set (c # eqs)" for u e
      proof -
        have "tree_value u = v" using that no by (auto simp: clash_def c list_ex_iff)
        then show ?thesis using const [of u e] that by auto
      qed
      have nes: "\<not> tree_eq e t u" if "u \<in> set nes" "bval e a = v" for u e
        using const [of u e] that False c by (auto simp: both_def list_ex_iff)
      have "list_all (holds e) ps \<longleftrightarrow> bval e a = v" for e
        using hold [of e] eqs [of _ e] nes [of _ e] by (auto simp: list_all_iff)
      then show ?thesis using False no a by (auto simp: result simb_def c)
    qed
  qed
qed

end

section \<open>And, Or, Not\<close>

lemma cmp_args_Some: "cmp_args f p = Some (a, b) \<longleftrightarrow> p = Cmp f a b"
  by (cases p) auto

lemma contradicting_holds: "contradicting ps \<Longrightarrow> \<not> list_all (holds e) ps"
  by (auto simp: contradicting_def cmp_args_Some split: list.splits option.splits elim!: is_bvv.elims)

lemma filter_boolv:
  assumes "BoolVal False \<notin> set ps"
  shows "list_all (holds e) (filter (\<lambda>p. \<not> is_boolv p) ps) = list_all (holds e) ps"
proof -
  have "holds e p" if "p \<in> set ps" "is_boolv p" for p
  proof -
    obtain b where "p = BoolVal b" using \<open>is_boolv p\<close> by (cases p) auto
    with that assms show ?thesis by (cases b) auto
  qed
  then show ?thesis by (auto simp: list_all_iff)
qed

lemma filter_boolv_or:
  assumes "BoolVal True \<notin> set ps"
  shows "list_ex (holds e) (filter (\<lambda>p. \<not> is_boolv p) ps) = list_ex (holds e) ps"
proof -
  have "\<not> holds e p" if "p \<in> set ps" "is_boolv p" for p
  proof -
    obtain b where "p = BoolVal b" using \<open>is_boolv p\<close> by (cases p) auto
    with that assms show ?thesis by (cases b) auto
  qed
  then show ?thesis by (auto simp: list_ex_iff)
qed

context sound_ctors
begin

lemma strict_ge_simb:
  assumes "strict_ge k ps = Some r" and "list_all wf_bl ps"
  shows "simb r (AndN ps)"
proof -
  obtain a c where "ps = [Cmp CUGE a c, Cmp CNe a c]" "r = mk_cmp k CUGT a c"
    using assms(1) by (auto simp: strict_ge_def cmp_args_Some split: list.splits option.splits if_splits)
  then show ?thesis using assms(2) by (intro simbI) auto
qed

lemma and_rest_simb:
  assumes "list_all wf_bl ps" and "ps \<noteq> []"
    and "(let flattened = flatten_bool AndN (splice_and ps) in
           case flattened of
             AndN fargs \<Rightarrow>
               if length fargs = 1 then Some (hd fargs)
               else if list_ex (\<lambda>arg. two_args arg = None) fargs then Some flattened
               else Some (single_target k flattened fargs)
           | _ \<Rightarrow> Some flattened) = Some r"
  shows "simb r (AndN ps)"
proof -
  define flattened where "flattened = flatten_bool AndN (splice_and ps)"
  have flat: "simb flattened (AndN ps)" unfolding flattened_def using assms(1,2) by (rule flatten_and_simb)
  show ?thesis
  proof (cases "r = flattened")
    case False
    then obtain fargs where f: "flattened = AndN fargs"
      and r: "length fargs = 1 \<or> r = single_target k flattened fargs"
      using assms(3) unfolding flattened_def [symmetric] Let_def by (auto split: bl.splits if_splits)
    have "wf_bl (AndN fargs)" using flat f by (simp add: simb_def)
    then have "simb r flattened" using r single_target_simb [of fargs] f by auto
    then show ?thesis using flat by (simp add: simb_def)
  qed (use flat in simp)
qed

lemma boolean_and_simplifier_simb:
  assumes rule: "boolean_and_simplifier k ps = Some r" and wf: "list_all wf_bl ps" "ps \<noteq> []"
  shows "simb r (AndN ps)"
proof (cases "BoolVal False \<in> set ps")
  case True
  then show ?thesis using rule by (auto simp: boolean_and_simplifier_def simb_def list_ex_iff list_all_iff)
next
  case False
  define qs where "qs = filter (\<lambda>p. \<not> is_boolv p) ps"
  have qs: "list_all wf_bl qs" "\<And>e. list_all (holds e) qs = list_all (holds e) ps"
    using wf filter_boolv [OF False] by (auto simp: qs_def list_all_iff)
  have simp_rule: "boolean_and_simplifier k ps =
      (if length qs = 1 then Some (hd qs) else if qs = [] then Some (BoolVal True)
       else if contradicting qs then Some (BoolVal False)
       else orelse (strict_ge k qs)
          (let flattened = flatten_bool AndN (splice_and qs) in
           case flattened of
             AndN fargs \<Rightarrow>
               if length fargs = 1 then Some (hd fargs)
               else if list_ex (\<lambda>arg. two_args arg = None) fargs then Some flattened
               else Some (single_target k flattened fargs)
           | _ \<Rightarrow> Some flattened))"
    using False by (auto simp: boolean_and_simplifier_def list_ex_iff Let_def qs_def)
  consider q where "qs = [q]" "r = q" | "qs = []" "r = BoolVal True" | "contradicting qs" "r = BoolVal False"
    | "qs \<noteq> []" "simb r (AndN qs)"
    using rule unfolding simp_rule
    by (auto simp: length_Suc_conv split: if_splits elim!: orelse_SomeE
        intro: strict_ge_simb [OF _ qs(1)] and_rest_simb [OF qs(1)])
  then show ?thesis
    using qs contradicting_holds by cases (auto simp: simb_def)
qed

lemma boolean_or_simplifier_simb:
  assumes rule: "boolean_or_simplifier k ps = Some r" and wf: "list_all wf_bl ps" "ps \<noteq> []"
  shows "simb r (OrN ps)"
proof (cases "BoolVal True \<in> set ps")
  case True
  then show ?thesis using rule by (auto simp: boolean_or_simplifier_def simb_def list_ex_iff)
next
  case False
  define qs where "qs = filter (\<lambda>p. \<not> is_boolv p) ps"
  have qs: "list_all wf_bl qs" "\<And>e. list_ex (holds e) qs = list_ex (holds e) ps"
    using wf filter_boolv_or [OF False] by (auto simp: qs_def list_all_iff)
  consider q where "qs = [q]" "r = q" | "qs = []" "r = BoolVal False" | "qs \<noteq> []" "r = mk_or k qs"
    | "r = flatten_bool OrN (splice_or ps)"
    using rule False
    by (auto simp: boolean_or_simplifier_def list_ex_iff Let_def length_Suc_conv qs_def split: if_splits)
  then show ?thesis
    using qs flatten_or_simb [OF wf] by cases (auto simp: simb_def)
qed

lemma boolean_not_simplifier_simb:
  "boolean_not_simplifier k p = Some r \<Longrightarrow> wf_bl p \<Longrightarrow> simb r (NotN p)"
  by (cases p) (auto simp: simb_def split: cmp.splits)

section \<open>If\<close>

lemma nested_true_sim:
  assumes "nested_true k c a b = Some r" and "wf_bv (IfBV c a b)"
  shows "sim r (IfBV c a b)"
proof -
  obtain c' x y where args: "if_args a = Some (c', x, y)"
    using assms(1) by (auto simp: nested_true_def split: option.splits)
  have "c' = c \<and> r = mk_if k c x b \<or> c' = mk_not k c \<and> r = mk_if k c y b"
    using assms(1) by (auto simp: nested_true_def args split: if_splits)
  then show ?thesis using assms(2) args by (auto simp: if_args_Some sim_def)
qed

lemma nested_false_sim:
  assumes "nested_false k c a b = Some r" and "wf_bv (IfBV c a b)"
  shows "sim r (IfBV c a b)"
proof -
  obtain c' x y where args: "if_args b = Some (c', x, y)"
    using assms(1) by (auto simp: nested_false_def split: option.splits)
  have "c' = c \<and> r = mk_if k c a y \<or> c' = mk_not k c \<and> r = mk_if k c a x"
    using assms(1) by (auto simp: nested_false_def args split: if_splits)
  then show ?thesis using assms(2) args by (auto simp: if_args_Some sim_def)
qed

lemma If_bv_op_sim:
  assumes wf: "wf_bv (IfBV c a b)"
  shows "sim (If_bv_op k c a b) (IfBV c a b)"
proof (cases "is_true c \<or> is_false c")
  case True
  then have "is_true c \<and> (\<forall>e. holds e c) \<or> \<not> is_true c \<and> is_false c \<and> (\<forall>e. \<not> holds e c)"
    using wf is_true_holds [of c] is_false_holds [of c] by auto
  with wf show ?thesis by (elim disjE) (simp_all add: If_bv_op_def sim_def)
next
  case False
  show ?thesis
  proof (cases "orelse (nested_true k c a b) (nested_false k c a b)")
    case None
    then have "If_bv_op k c a b = (if a = b then a else node (IfBV c a b))"
      using False by (simp add: If_bv_op_def)
    moreover have "sim a (IfBV c a b)" if "a = b"
      using wf unfolding that by (simp add: sim_def)
    ultimately show ?thesis using node_wf [OF wf] by simp
  next
    case (Some r)
    then have "sim r (IfBV c a b)"
      using nested_true_sim [OF _ wf] nested_false_sim [OF _ wf] by (rule orelse_SomeE)
    then show ?thesis using False Some by (simp add: If_bv_op_def)
  qed
qed

lemma nested_trueb_simb:
  assumes "nested_trueb k c a b = Some r" and "wf_bl (IfBool c a b)"
  shows "simb r (IfBool c a b)"
proof -
  obtain c' x y where args: "if_bool_args a = Some (c', x, y)"
    using assms(1) by (auto simp: nested_trueb_def split: option.splits)
  have "c' = c \<and> r = mk_ifb k c x b \<or> c' = mk_not k c \<and> r = mk_ifb k c y b"
    using assms(1) by (auto simp: nested_trueb_def args split: if_splits)
  then show ?thesis using assms(2) args by (auto simp: if_bool_args_Some simb_def)
qed

lemma nested_falseb_simb:
  assumes "nested_falseb k c a b = Some r" and "wf_bl (IfBool c a b)"
  shows "simb r (IfBool c a b)"
proof -
  obtain c' x y where args: "if_bool_args b = Some (c', x, y)"
    using assms(1) by (auto simp: nested_falseb_def split: option.splits)
  have "c' = c \<and> r = mk_ifb k c a y \<or> c' = mk_not k c \<and> r = mk_ifb k c a x"
    using assms(1) by (auto simp: nested_falseb_def args split: if_splits)
  then show ?thesis using assms(2) args by (auto simp: if_bool_args_Some simb_def)
qed

lemma If_bool_op_simb:
  assumes wf: "wf_bl (IfBool c a b)"
  shows "simb (If_bool_op k c a b) (IfBool c a b)"
proof (cases "is_true c \<or> is_false c")
  case True
  then have "is_true c \<and> (\<forall>e. holds e c) \<or> \<not> is_true c \<and> is_false c \<and> (\<forall>e. \<not> holds e c)"
    using wf is_true_holds [of c] is_false_holds [of c] by auto
  with wf show ?thesis by (elim disjE) (simp_all add: If_bool_op_def simb_def)
next
  case False
  show ?thesis
  proof (cases "orelse (nested_trueb k c a b) (nested_falseb k c a b)")
    case None
    then show ?thesis
      using False wf nodeb_wf [OF wf] by (simp add: If_bool_op_def simb_def)
  next
    case (Some r)
    then have "simb r (IfBool c a b)"
      using nested_trueb_simb [OF _ wf] nested_falseb_simb [OF _ wf] by (rule orelse_SomeE)
    then show ?thesis using False Some by (simp add: If_bool_op_def)
  qed
qed

end

end
