(* ===== verification/Simplify_Bitwise.thy ===== *)
theory Simplify_Bitwise
  imports Simplify_Bool
begin

text \<open>
  Soundness of the simplifiers of the arithmetic and bitwise operations. The operations with any number
  of arguments are commutative monoids modulo the width; the flattening is proved once for
  them and for the three filters that it is used with.
\<close>

section \<open>The operations as monoids\<close>

fun nop_comb :: "nop \<Rightarrow> int \<Rightarrow> int \<Rightarrow> int" where
  "nop_comb NAdd = (+)" | "nop_comb NMul = (*)" | "nop_comb NAnd = (AND)" | "nop_comb NOr = (OR)"
| "nop_comb NXor = (XOR)"

lemma nop_val_Cons [simp]: "nop_val f (v # vs) = nop_comb f v (nop_val f vs)"
  by (cases f) simp_all

lemma nop_comb_ac:
  "nop_comb f (nop_comb f v w) x = nop_comb f v (nop_comb f w x)" "nop_comb f v w = nop_comb f w v"
  "nop_comb f v (nop_comb f w x) = nop_comb f w (nop_comb f v x)"
  by (cases f; simp add: ac_simps)+

lemma nop_comb_unit: "nop_comb f (nop_val f []) v = v" "nop_comb f v (nop_val f []) = v"
  by (cases f; simp)+

lemma nop_val_append: "nop_val f (vs @ ws) = nop_comb f (nop_val f vs) (nop_val f ws)"
  by (induction vs) (simp_all add: nop_comb_unit nop_comb_ac(1))

lemma nop_comb_cong:
  assumes "take_bit n v = take_bit n v'" and "take_bit n w = take_bit n w'"
  shows "take_bit n (nop_comb f v w) = take_bit n (nop_comb f v' w')"
proof (cases f)
  case NAdd
  with assms show ?thesis by (metis nop_comb.simps(1) take_bit_add)
next
  case NMul
  with assms show ?thesis by (metis nop_comb.simps(2) take_bit_mult)
qed (use assms in simp_all)

lemma nop_val_partition:
  "nop_val f (map v (filter P xs @ filter (\<lambda>x. \<not> P x) xs)) = nop_val f (map v xs)"
  by (induction xs) (auto simp: nop_val_append nop_comb_ac(1) nop_comb_ac(3))

lemma nop_val_partition':
  "nop_comb f (nop_val f (map v (filter (\<lambda>x. \<not> P x) xs))) (nop_val f (map v (filter P xs))) = nop_val f (map v xs)"
  using nop_val_partition [of f v P xs] by (simp add: nop_val_append nop_comb_ac(2))

section \<open>Flattening\<close>

text \<open>Arguments of one width, and lists of them with the same value modulo the width.\<close>

definition args_ok :: "nat \<Rightarrow> bv list \<Rightarrow> bool" where
  "args_ok n as \<longleftrightarrow> 0 < n \<and> list_all (\<lambda>a. wf_bv a \<and> len a = n) as"

definition same_args :: "nop \<Rightarrow> nat \<Rightarrow> bv list \<Rightarrow> bv list \<Rightarrow> bool" where
  "same_args f n as bs \<longleftrightarrow>
     args_ok n as \<and> (\<forall>e. take_bit n (nop_val f (map (bval e) as)) = take_bit n (nop_val f (map (bval e) bs)))"

lemma same_args_trans: "same_args f n as bs \<Longrightarrow> same_args f n bs cs \<Longrightarrow> same_args f n as cs"
  by (simp add: same_args_def)

lemma wf_NOp_ok: "wf_bv (NOp f as) \<Longrightarrow> args_ok (len (hd as)) as"
  by (cases as) (auto simp: args_ok_def list_all_iff)

lemma ok_wf_NOp: "args_ok n as \<Longrightarrow> 2 \<le> length as \<Longrightarrow> wf_bv (NOp f as) \<and> len (NOp f as) = n"
  by (cases as) (auto simp: args_ok_def list_all_iff)

lemma splice_same:
  assumes "args_ok n as"
  shows "same_args f n (splice_nop f as) as" and "as \<noteq> [] \<Longrightarrow> splice_nop f as \<noteq> []"
proof -
  let ?s = "\<lambda>a. case a of NOp g bs \<Rightarrow> if g = f \<and> length bs < 1000 then bs else [a] | _ \<Rightarrow> [a]"
  have one: "args_ok n (?s a) \<and> ?s a \<noteq> []
      \<and> (\<forall>e. take_bit n (nop_val f (map (bval e) (?s a))) = take_bit n (bval e a))"
    if a: "wf_bv a" "len a = n" "0 < n" for a
  proof (cases "\<exists>bs. a = NOp f bs")
    case True
    then obtain bs where bs: "a = NOp f bs" by blast
    then have ne: "bs \<noteq> []" using a by auto
    then have "len (hd bs) = n" using len_NOp [of bs f] a bs by (simp del: len.simps(3))
    moreover from this have "args_ok n bs" using wf_NOp_ok [of f bs] a bs by simp
    moreover note ne
    ultimately show ?thesis using bs a by (auto simp: args_ok_def nop_comb_unit)
  next
    case False
    with a show ?thesis by (cases a) (auto simp: args_ok_def nop_comb_unit)
  qed
  show "same_args f n (splice_nop f as) as"
    using assms
  proof (induction as)
    case (Cons a as)
    then have IH: "same_args f n (splice_nop f as) as" and a: "wf_bv a" "len a = n" "0 < n"
      by (simp_all add: args_ok_def)
    have "splice_nop f (a # as) = ?s a @ splice_nop f as" by (simp add: splice_nop_def)
    with IH one [OF a] show ?case
      by (auto simp: same_args_def args_ok_def nop_val_append intro!: nop_comb_cong)
  qed (simp add: splice_nop_def same_args_def)
  show "splice_nop f as \<noteq> []" if "as \<noteq> []"
    using that one assms by (cases as) (auto simp: splice_nop_def args_ok_def)
qed

lemma collapse_same:
  assumes "args_ok n as"
  shows "same_args f n (collapse_values f as) as" and "as \<noteq> [] \<Longrightarrow> collapse_values f as \<noteq> []"
proof -
  define vs os where "vs = filter is_bvv as" and "os = filter (\<lambda>a. \<not> is_bvv a) as"
  have "same_args f n (collapse_values f as) as \<and> (as \<noteq> [] \<longrightarrow> collapse_values f as \<noteq> [])"
  proof (cases "os \<noteq> [] \<and> length vs > 1")
    case True
    have ok: "args_ok n vs" "args_ok n os" using assms by (auto simp: args_ok_def vs_def os_def list_all_iff)
    have v: "sim (node (NOp f vs)) (NOp f vs)" "len (NOp f vs) = n"
      using ok_wf_NOp [OF ok(1), of f] True node_wf by auto
    have "take_bit n (nop_comb f (nop_val f (map (bval e) os)) (bval e (node (NOp f vs)))) =
          take_bit n (nop_comb f (nop_val f (map (bval e) os)) (nop_val f (map (bval e) vs)))" for e
      using v by (intro nop_comb_cong) (simp_all add: sim_def del: len.simps(3))
    then show ?thesis
      using True ok v nop_val_partition' [of f _ is_bvv as]
      by (simp add: collapse_values_def same_args_def args_ok_def nop_val_append nop_comb_unit sim_def Let_def
          flip: vs_def os_def)
  next
    case False
    then show ?thesis using assms by (auto simp: collapse_values_def same_args_def Let_def vs_def os_def)
  qed
  then show "same_args f n (collapse_values f as) as" "as \<noteq> [] \<Longrightarrow> collapse_values f as \<noteq> []" by simp_all
qed

lemma flatten_simplifier_sim:
  assumes rule: "flatten_simplifier f filter_func initial as = Some r" and wf: "wf_bv (NOp f as)"
    and filter: "\<And>bs. args_ok (len (hd as)) bs \<Longrightarrow> bs \<noteq> [] \<Longrightarrow> same_args f (len (hd as)) (filter_func bs) bs"
    and empty: "\<And>bs. args_ok (len (hd as)) bs \<Longrightarrow> bs \<noteq> [] \<Longrightarrow> filter_func bs = [] \<Longrightarrow>
                  initial = Some (BVVal (nop_val f []) (len (hd as))) \<and> nop_val f [] = 0"
  shows "sim r (NOp f as)"
proof -
  define n bs cs where "n = len (hd as)" and "bs = collapse_values f (splice_nop f as)" and "cs = filter_func bs"
  have ok: "args_ok n as" and ne: "as \<noteq> []" using wf_NOp_ok [OF wf] wf by (auto simp: n_def)
  have bs: "same_args f n bs as" "bs \<noteq> []"
    using splice_same [OF ok, of f] collapse_same [of n "splice_nop f as" f] ne
    by (auto simp: bs_def same_args_def)
  then have cs: "same_args f n cs as"
    using filter [of bs] by (auto simp: cs_def n_def same_args_def)
  have val: "bval e (NOp f as) = take_bit n (nop_val f (map (bval e) as))" and len: "len (NOp f as) = n" for e
    using ne len_NOp [of as f] by (simp_all add: n_def del: len.simps(3))
  show ?thesis
  proof (cases "cs = []")
    case True
    then have "initial = Some (BVVal (nop_val f []) n) \<and> nop_val f [] = 0"
      using empty [of bs] bs by (simp add: cs_def n_def same_args_def)
    moreover from this have r: "r = BVVal 0 n"
      using True rule by (simp add: flatten_simplifier_def Let_def flip: bs_def cs_def)
    ultimately show ?thesis
      using True cs val len unfolding r by (simp add: sim_def same_args_def del: len.simps(3) bval.simps(3))
  next
    case False
    show ?thesis
    proof (cases "length cs = 1")
      case True
      then obtain c where c: "cs = [c]" by (auto simp: length_Suc_conv)
      then have "r = c" using rule by (simp add: flatten_simplifier_def Let_def flip: bs_def cs_def)
      with c cs show ?thesis
        using val len bval_in_width [of c]
        by (simp add: sim_def same_args_def args_ok_def nop_comb_unit del: len.simps(3) bval.simps(3))
    next
      case len2: False
      then have "2 \<le> length cs" using False by (cases cs) (auto simp: Suc_le_eq numeral_2_eq_2)
      then have w: "wf_bv (NOp f cs)" "len (NOp f cs) = n"
        using ok_wf_NOp [of n cs f] cs by (auto simp: same_args_def)
      have "r = node (NOp f cs)"
        using rule False len2 by (simp add: flatten_simplifier_def Let_def flip: bs_def cs_def)
      then show ?thesis
        using node_wf [OF w(1)] cs val len w(2) by (simp add: sim_def same_args_def del: len.simps(3))
    qed
  qed
qed

section \<open>The filters\<close>

lemma args_ok_subset: "args_ok n as \<Longrightarrow> set bs \<subseteq> set as \<Longrightarrow> args_ok n bs"
  by (auto simp: args_ok_def list_all_iff)

lemma filter_zero_same: "args_ok n as \<Longrightarrow> same_args NAdd n (filter (\<lambda>a. \<not> bvv_is 0 a) as) as"
proof -
  assume ok: "args_ok n as"
  have "sum_list (map (bval e) (filter (\<lambda>a. \<not> bvv_is 0 a) as)) = sum_list (map (bval e) as)" for e
    by (induction as) (auto dest: bvv_is_value [of _ _ e])
  then show ?thesis using args_ok_subset [OF ok, of "filter (\<lambda>a. \<not> bvv_is 0 a) as"] by (auto simp: same_args_def)
qed

lemma bit_foldr_or: "bit (foldr (OR) vs (0 :: int)) i \<longleftrightarrow> list_ex (\<lambda>v. bit v i) vs"
  by (induction vs) (simp_all add: bit_or_iff)

lemma foldr_set:
  assumes "set vs = set ws"
  shows "foldr (AND) vs (- 1 :: int) = foldr (AND) ws (- 1)" and "foldr (OR) vs (0 :: int) = foldr (OR) ws 0"
  using assms by (intro bit_eqI; simp add: bit_foldr_and bit_foldr_or list_all_iff list_ex_iff)+

lemma dedup_same:
  assumes "args_ok n as" and "f = NAnd \<or> f = NOr"
  shows "same_args f n (deduplicate_filter as) as"
proof -
  have "set (map (bval e) (deduplicate_filter as)) = set (map (bval e) as)" for e by simp
  from foldr_set [OF this] show ?thesis
    using assms args_ok_subset [OF assms(1), of "deduplicate_filter as"] by (auto simp: same_args_def)
qed

lemma distinct_dedup: "distinct (dedup seen as)"
  by (induction seen as rule: dedup.induct) (auto simp: set_dedup)

lemma bit_foldr_xor: "bit (foldr (XOR) vs (0 :: int)) i \<longleftrightarrow> odd (sum_list (map (\<lambda>v. of_bool (bit v i)) vs) :: nat)"
  by (induction vs) (auto simp: bit_xor_iff)

lemma odd_sum_odd:
  fixes c g :: "'a \<Rightarrow> nat"
  assumes "finite A"
  shows "odd (\<Sum>a\<in>A. c a * g a) \<longleftrightarrow> odd (\<Sum>a\<in>{a \<in> A. odd (c a)}. g a)"
  using assms
proof (induction A)
  case (insert x A)
  have "{a \<in> insert x A. odd (c a)} = (if odd (c x) then insert x {a \<in> A. odd (c a)} else {a \<in> A. odd (c a)})"
    by auto
  with insert show ?case by auto
qed simp

lemma xor_filter_same: "args_ok n as \<Longrightarrow> same_args NXor n (xor_filter as) as"
proof -
  assume ok: "args_ok n as"
  have set: "set (xor_filter as) = {a \<in> set as. odd (count_list as a)}" and dist: "distinct (xor_filter as)"
    by (auto simp: xor_filter_def set_dedup distinct_dedup)
  have "foldr (XOR) (map (bval e) (xor_filter as)) 0 = foldr (XOR) (map (bval e) as) 0" for e
  proof (rule bit_eqI)
    fix i
    let ?g = "\<lambda>a. of_bool (bit (bval e a) i) :: nat"
    have "sum_list (map ?g (xor_filter as)) = (\<Sum>a\<in>{a \<in> set as. odd (count_list as a)}. ?g a)"
      using dist by (simp add: sum_list_distinct_conv_sum_set set)
    moreover have "sum_list (map ?g as) = (\<Sum>a\<in>set as. count_list as a * ?g a)"
      by (rule sum_list_map_eq_sum_count)
    ultimately show "bit (foldr (XOR) (map (bval e) (xor_filter as)) 0) i = bit (foldr (XOR) (map (bval e) as) 0) i"
      using odd_sum_odd [of "set as" "count_list as" ?g] by (simp add: bit_foldr_xor o_def)
  qed
  moreover have "args_ok n (xor_filter as)" using ok by (rule args_ok_subset) (auto simp: set)
  ultimately show ?thesis by (simp add: same_args_def)
qed

section \<open>Arithmetic\<close>

lemma is_bvv_value: "is_bvv a \<Longrightarrow> \<exists>v n. a = BVVal v n"
  by (cases a) auto

context sound_ctors
begin

lemma bitwise_add_simplifier_sim:
  assumes rule: "bitwise_add_simplifier k as = Some r" and wf: "wf_bv (NOp NAdd as)"
  shows "sim r (NOp NAdd as)"
  using rule unfolding bitwise_add_simplifier_def
proof (rule orelse_SomeE)
  assume "(case as of
        [BOp BSub x y, z] \<Rightarrow>
          if is_bvv z \<and> is_bvv y then Some (mk_bop k BSub x (mk_bop k BSub y z)) else None
      | _ \<Rightarrow> None) = Some r"
  then obtain x y z where as: "as = [BOp BSub x y, z]" and r: "r = mk_bop k BSub x (mk_bop k BSub y z)"
    by (auto split: list.splits bv.splits bop.splits if_splits)
  have "take_bit n (u - take_bit n (v - w)) = take_bit n (take_bit n (u - v) + w)" for n and u v w :: int
    by (simp add: take_bit_eq_mod mod_simps algebra_simps)
  then show ?thesis unfolding r as using wf as by (intro simI) auto
next
  assume "flatten_simplifier NAdd (filter (\<lambda>a. \<not> bvv_is 0 a)) (Some (BVVal 0 (len (hd as)))) as = Some r"
  then show ?thesis using wf by (rule flatten_simplifier_sim) (simp_all add: filter_zero_same)
qed

lemma bitwise_mul_simplifier_sim:
  assumes "bitwise_mul_simplifier k as = Some r" and "wf_bv (NOp NMul as)"
  shows "sim r (NOp NMul as)"
  by (rule flatten_simplifier_sim [OF assms(1) [unfolded bitwise_mul_simplifier_def] assms(2)])
    (auto simp: same_args_def)

lemma nop_val_butlast:
  assumes "as \<noteq> []"
  shows "nop_val f (map v as) = nop_comb f (nop_val f (map v (butlast as))) (v (last as))"
proof -
  have "map v as = map v (butlast as) @ [v (last as)]"
    using assms by (metis append_butlast_last_id list.simps(8,9) map_append)
  then show ?thesis by (simp add: nop_val_append nop_comb_unit)
qed

lemma bitwise_sub_simplifier_sim:
  assumes rule: "bitwise_sub_simplifier k a b = Some r" and wf: "wf_bv (BOp BSub a b)"
  shows "sim r (BOp BSub a b)"
proof -
  have wfs: "wf_bv a" "wf_bv b" "len b = len a" "0 < len a" using wf by simp_all
  have const: "\<exists>x y. a = BOp BSub x y \<and> r = mk_bop k BSub x (mk_nop k NAdd [y, b])
      \<or> a = NOp NAdd [x, y] \<and> r = mk_nop k NAdd [x, mk_bop k BSub y b]
      \<or> (\<exists>xs. a = NOp NAdd xs \<and> r = node (NOp NAdd (butlast xs @ [mk_bop k BSub (last xs) b])))"
    if "is_bvv b" "\<not> bvv_is 0 b"
  proof (cases a)
    case (NOp f xs)
    then show ?thesis
      using rule that
      by (cases "length xs = 2") (auto simp: bitwise_sub_simplifier_def length_Suc_conv numeral_2_eq_2
          split: if_splits nop.splits)
  next
    case (BOp f x y)
    then show ?thesis
      using rule that by (auto simp: bitwise_sub_simplifier_def split: if_splits bop.splits)
  qed (use rule that in \<open>simp_all add: bitwise_sub_simplifier_def\<close>)
  consider (zero) "bvv_is 0 b" "r = a"
    | (sub) x y where "a = BOp BSub x y" "r = mk_bop k BSub x (mk_nop k NAdd [y, b])"
    | (add2) x y where "a = NOp NAdd [x, y]" "r = mk_nop k NAdd [x, mk_bop k BSub y b]"
    | (add) xs where "a = NOp NAdd xs" "r = node (NOp NAdd (butlast xs @ [mk_bop k BSub (last xs) b]))"
    | (equal) "a = b \<or> same k a b" "r = BVVal 0 (len a)"
  proof (cases "is_bvv b \<and> \<not> bvv_is 0 b")
    case True
    with const that(2-4) show thesis by blast
  next
    case False
    define eqv where "eqv \<longleftrightarrow> a = b \<or> same k a b"
    have "bvv_is 0 b \<and> r = a \<or> eqv \<and> r = BVVal 0 (len a)"
      using rule False by (auto simp: bitwise_sub_simplifier_def simp flip: eqv_def split: if_splits)
    with that(1,5) show thesis unfolding eqv_def by blast
  qed
  then show ?thesis
  proof cases
    case zero
    then show ?thesis using wfs bvv_is_value [OF zero(1)] bval_in_width [of a] by (intro simI) auto
  next
    case sub
    have "take_bit n (u - take_bit n (v + w)) = take_bit n (take_bit n (u - v) - w)" for n and u v w :: int
      by (simp add: take_bit_eq_mod mod_simps algebra_simps)
    then show ?thesis using sub wfs by (intro simI) auto
  next
    case add2
    have "take_bit n (u + take_bit n (v - w)) = take_bit n (take_bit n (u + v) - w)" for n and u v w :: int
      by (simp add: take_bit_eq_mod mod_simps algebra_simps)
    then show ?thesis using add2 wfs by (intro simI) auto
  next
    case add
    define n where "n = len a"
    have "xs \<noteq> []" using wfs add by auto
    moreover have "args_ok n xs"
      using wf_NOp_ok [of NAdd xs] len_NOp [OF calculation, of NAdd] wfs(1) add(1) by (simp add: n_def del: len.simps(3))
    ultimately have xs: "xs \<noteq> []" "args_ok n xs" "2 \<le> length xs" "0 < n"
      using wfs add by (auto simp: n_def)
    let ?l = "mk_bop k BSub (last xs) b"
    have last: "wf_bv (last xs)" "len (last xs) = n" using xs by (auto simp: args_ok_def list_all_iff)
    then have l: "wf_bv ?l" "len ?l = n" "\<And>e. bval e ?l = take_bit n (bval e (last xs) - bval e b)"
      using wfs by (simp_all add: n_def)
    have ys: "args_ok n (butlast xs @ [?l])"
      using xs l by (auto simp: args_ok_def list_all_iff dest: in_set_butlastD)
    have "2 \<le> length (butlast xs @ [?l])" using xs(3) by simp
    note w = ok_wf_NOp [OF ys this, of NAdd]
    have node: "sim r (NOp NAdd (butlast xs @ [?l]))" "len (NOp NAdd (butlast xs @ [?l])) = n"
      unfolding add(2) using w node_wf by blast+
    have "take_bit n (u + take_bit n (v - w)) = take_bit n (take_bit n (u + v) - w)" for u v w :: int
      by (simp add: take_bit_eq_mod mod_simps algebra_simps)
    then have "bval e (NOp NAdd (butlast xs @ [?l])) = bval e (BOp BSub a b)" for e
      using node(2) nop_val_butlast [OF xs(1), of NAdd "bval e"] l(3) [of e] len_NOp [OF xs(1), of NAdd]
      by (simp add: add(1) n_def del: len.simps(3))
    then show ?thesis using node by (simp add: sim_def n_def del: len.simps(3) bval.simps(3))
  next
    case equal
    then have "bval e a = bval e b" for e using same_value [of a b e] wfs by auto
    then show ?thesis using equal(2) wfs by (intro simI) auto
  qed
qed

end

section \<open>The signed maximum and minimum\<close>

lemma select_by_sign:
  assumes n: "0 < n" and Q: "take_bit n Q = Q" and R: "take_bit n R = (R :: int)"
    and S: "S = take_bit n (c - d)" and cd: "c = Q \<and> d = R \<or> c = R \<and> d = Q"
    and W: "W = ((S XOR c) AND (Q XOR R)) XOR S"
  shows "Q XOR (take_bit n (drop_bit (n - 1) (signed_take_bit (n - 1) W)) AND (Q XOR R)) =
           (if signed_take_bit (n - 1) c < signed_take_bit (n - 1) d then R else Q)"
proof -
  have "bit W (n - 1) \<longleftrightarrow> (bit (c - d) (n - 1) \<noteq> bit ((c XOR d) AND (c XOR (c - d - 0))) (n - 1))"
    using n cd by (auto simp: W S bit_xor_iff bit_and_iff bit_take_bit_iff)
  also have "\<dots> \<longleftrightarrow> signed_take_bit (n - 1) c < signed_take_bit (n - 1) d"
    using overflow_bit(2) [OF n, of 0 c d] negative_iff [OF n, of "c - d"] signed_less_iff [OF n, of c d] by simp
  finally have sign: "bit W (n - 1) \<longleftrightarrow> signed_take_bit (n - 1) c < signed_take_bit (n - 1) d" .
  have all: "take_bit n (- 1) AND (Q XOR R) = Q XOR R"
  proof -
    have "take_bit n (Q XOR R) = Q XOR R" using Q R by simp
    then show ?thesis by (metis and.commute and.right_neutral take_bit_and)
  qed
  have "Q XOR (Q XOR R) = R" by (simp flip: xor.assoc)
  then show ?thesis unfolding sign_fill using sign all by (simp del: take_bit_minus_one_eq_mask)
qed

lemma pick_Some: "pick P xs = Some (x, y) \<Longrightarrow> P y \<and> (xs = [x, y] \<or> xs = [y, x])"
  by (auto simp: pick_def split: list.splits if_splits)

lemma nop_args_Some: "nop_args f a = Some as \<longleftrightarrow> a = NOp f as"
  by (cases a) auto

lemma bop_args_Some: "bop_args f a = Some (x, y) \<longleftrightarrow> a = BOp f x y"
  by (cases a) auto

lemma xor_pair_value:
  "wf_bv (NOp NXor [a, b]) \<Longrightarrow> bval e (NOp NXor [a, b]) = bval e a XOR bval e b"
  using bval_in_width [of a e] bval_in_width [of b e] by simp

lemma and_pair_value:
  "wf_bv (NOp NAnd [a, b]) \<Longrightarrow> bval e (NOp NAnd [a, b]) = bval e a AND bval e b"
  using bval_in_width [of a e] bval_in_width [of b e] by simp

text \<open>What the match says about the values, in either order of the arguments.\<close>

lemma pair_values:
  assumes "wf_bv (NOp f as)" and "as = [a, b] \<or> as = [b, a]"
  shows "wf_bv a" and "wf_bv b" and "len b = len a" and "len (NOp f as) = len a" and "0 < len a"
    and "f = NXor \<Longrightarrow> bval e (NOp f as) = bval e a XOR bval e b"
    and "f = NAnd \<Longrightarrow> bval e (NOp f as) = bval e a AND bval e b"
  using assms xor_pair_value [of a b e] xor_pair_value [of b a e] and_pair_value [of a b e] and_pair_value [of b a e]
  by (auto simp: ac_simps)

definition minmax_ok :: "bv \<Rightarrow> bv \<Rightarrow> bool" where
  "minmax_ok a b = (case minmax_match a b of Some (q, r, s, u_args) \<Rightarrow> length u_args = 2 | None \<Rightarrow> True)"

lemma minmax_match_value:
  assumes m: "minmax_match a b = Some (q, r, s, us)" and wf: "wf_bv (NOp NXor [a, b])"
    and us: "us = [s, c] \<or> us = [c, s]" and c: "c = q \<and> s = BOp BSub q r \<or> c = r \<and> s = BOp BSub r q"
  shows "wf_bv q \<and> wf_bv r \<and> len q = len a \<and> len r = len a \<and> 0 < len a
     \<and> (\<forall>e. bval e (NOp NXor [a, b]) =
          (if signed_take_bit (len a - 1) (bval e c) <
              signed_take_bit (len a - 1) (bval e (if c = q then r else q)) then bval e r else bval e q))"
proof -
  obtain y ys x t w dist ws v vs u t2 ts q2 where
    y: "pick (\<lambda>z. nop_args NAnd z \<noteq> None) [a, b] = Some (q, y)" "y = NOp NAnd ys"
    and x: "pick (\<lambda>z. nop_args NXor z \<noteq> None) ys = Some (x, t)" "x = BOp BSar w dist"
    and dist: "dist = BVVal (int (len a) - 1) (len a)" and w: "w = NOp NXor ws"
    and v: "pick (\<lambda>z. bop_args BSub z \<noteq> None) ws = Some (v, s)" "v = NOp NAnd vs"
    and u: "pick (\<lambda>z. z = t) vs = Some (u, t2)" "u = NOp NXor us" and t: "t = NOp NXor ts"
    and r: "pick (\<lambda>z. z = q) (rev ts) = Some (r, q2)"
    using m by (auto simp: minmax_match_def bind_eq_Some_conv nop_args_Some bop_args_Some split: if_splits)
  have ab: "[a, b] = [q, y] \<or> [a, b] = [y, q]" and ys: "ys = [x, t] \<or> ys = [t, x]"
    and ws: "ws = [v, s] \<or> ws = [s, v]" and vs: "vs = [u, t] \<or> vs = [t, u]" and ts: "ts = [q, r] \<or> ts = [r, q]"
    using pick_Some [OF y(1)] pick_Some [OF x(1)] pick_Some [OF v(1)] pick_Some [OF u(1)] pick_Some [OF r]
    by (auto simp: rev_eq_Cons_iff)
  note z_val = pair_values [OF wf ab]
  have wf_y: "wf_bv (NOp NAnd ys)" using z_val y(2) by simp
  note y_val = pair_values [OF wf_y ys]
  have wf_x: "wf_bv (BOp BSar w dist)" using y_val x(2) by simp
  have wf_w: "wf_bv (NOp NXor ws)" using wf_x w by simp
  note w_val = pair_values [OF wf_w ws]
  have wf_v: "wf_bv (NOp NAnd vs)" using w_val v(2) by simp
  note v_val = pair_values [OF wf_v vs]
  have wf_u: "wf_bv (NOp NXor us)" using v_val u(2) by simp
  note u_val = pair_values [OF wf_u us]
  have wf_t: "wf_bv (NOp NXor ts)" using y_val t by simp
  note t_val = pair_values [OF wf_t ts]
  define n where "n = len a"
  have len: "len q = n" "len r = n" "len y = n" "len x = n" "len w = n" "len s = n" "0 < n"
    using z_val(1-5) y_val(1-5) w_val(1-5) v_val(1-5) t_val(1-5) ab y(2) x(2) w t v(2)
    by (auto simp: n_def simp del: len.simps(3) wf_bv.simps(3))
  define d where "d = (if c = q then r else q)"
  have s: "s = BOp BSub c d" using c by (auto simp: d_def)
  have cd: "c = q \<and> d = r \<or> c = r \<and> d = q" using c by (auto simp: d_def)
  have "bval e (NOp NXor [a, b]) =
      (if signed_take_bit (n - 1) (bval e c) < signed_take_bit (n - 1) (bval e d) then bval e r else bval e q)" for e
  proof -
    let ?S = "bval e s" and ?T = "bval e q XOR bval e r"
    have S: "?S = take_bit n (bval e c - bval e d)" using len(6) s by simp
    have "bval e w = ((?S XOR bval e c) AND ?T) XOR ?S"
      unfolding w w_val(6) [OF refl] v(2) v_val(7) [OF refl] u(2) u_val(6) [OF refl] t t_val(6) [OF refl] by simp
    note sel = select_by_sign [OF len(7) _ _ S _ this]
    have "bval e x = take_bit n (drop_bit (n - 1) (signed_take_bit (n - 1) (bval e w)))"
      unfolding x(2) dist using len by (simp add: n_def nat_diff_distrib)
    then have "bval e (NOp NXor [a, b]) =
        bval e q XOR (take_bit n (drop_bit (n - 1) (signed_take_bit (n - 1) (bval e w))) AND ?T)"
      unfolding z_val(6) [OF refl] y(2) y_val(7) [OF refl] t t_val(6) [OF refl] by simp
    then show ?thesis
      using sel bval_in_width [of q e] bval_in_width [of r e] z_val(1) t_val(2) len cd by auto
  qed
  then show ?thesis using z_val(1) t_val(2) len unfolding d_def n_def by blast
qed

section \<open>Rotation under a mask\<close>

text \<open>The rule needs that the two amounts add up to the width of the value.\<close>

definition rotate_ok :: "bv \<Rightarrow> bv \<Rightarrow> bool" where
  "rotate_ok a b =
     (case rotate_match a b of Some (x, lshift, rshift, m) \<Rightarrow> int (len x) = lshift + rshift | None \<Rightarrow> True)"

lemma rotate_mask_value:
  fixes A M :: int
  assumes "n = l + r" and "take_bit n A = A" and "take_bit n M = M"
    and "m = take_bit n (push_bit r M) OR drop_bit l M"
  shows "take_bit n (take_bit n (push_bit l A) OR drop_bit r A) AND M =
           take_bit n (push_bit l (A AND m)) OR drop_bit r (A AND m)"
proof (rule bit_eqI)
  fix i
  have A: "bit A j \<Longrightarrow> j < n" and M: "bit M j \<Longrightarrow> j < n" for j
    using assms(2,3) nonneg_bit_range by blast+
  have m: "bit m j \<longleftrightarrow> j < n \<and> r \<le> j \<and> bit M (j - r) \<or> bit M (j + l)" for j
    by (auto simp: assms(4) bit_simps add.commute)
  have "bit m (i - l) = bit M i" if "l \<le> i" "i < n"
    using that M [of i] by (auto simp: m assms(1))
  moreover have "bit m (i + r) = bit M i" if "i < l"
    using that M [of i] M [of "i + r + l"] by (auto simp: m assms(1))
  moreover have "\<not> bit A (i + r)" if "l \<le> i" using A [of "i + r"] that assms(1) by auto
  ultimately show "bit (take_bit n (take_bit n (push_bit l A) OR drop_bit r A) AND M) i =
      bit (take_bit n (push_bit l (A AND m)) OR drop_bit r (A AND m)) i"
    using A M assms(1) by (cases "l \<le> i"; cases "i < n") (auto simp: bit_simps add.commute)
qed

lemma bvv_val_Some: "bvv_val a = Some v \<Longrightarrow> \<exists>n. a = BVVal v n"
  by (cases a) auto

lemma two_Some: "two xs = Some (x, y) \<longleftrightarrow> xs = [x, y]"
  by (cases xs rule: two.cases) auto

lemma rotate_match_Some:
  assumes "rotate_match a b = Some (x, l, r, m)"
  obtains n1 n2 n3 v where "a = NOp NOr [BOp BShl x (BVVal l n1), BOp BLshr x (BVVal r n2)]" and "b = BVVal v n3"
    and "m = take_bit (nat (l + r)) (push_bit (nat r) v) OR drop_bit (nat l) v"
    and "l + r = 32 \<and> m = 0xFFFF \<or> l + r = 64 \<and> m = 0xFFFFFFFF"
proof -
  obtain v a_0 a_1 a_01 a_11 where "bvv_val b = Some v" "nop_args NOr a = Some [a_0, a_1]"
    "bop_args BShl a_0 = Some (x, a_01)" "bop_args BLshr a_1 = Some (x, a_11)"
    "bvv_val a_01 = Some l" "bvv_val a_11 = Some r"
    "m = take_bit (nat (l + r)) (push_bit (nat r) v) OR drop_bit (nat l) v"
    "l + r = 32 \<and> m = 0xFFFF \<or> l + r = 64 \<and> m = 0xFFFFFFFF"
    using assms by (auto simp: rotate_match_def bind_eq_Some_conv two_Some Let_def split: if_splits)
  with that show thesis by (auto simp: nop_args_Some bop_args_Some dest!: bvv_val_Some)
qed

text \<open>
  The rule on the inversion of a conditional compares the first argument of the last argument with
  zero, and the value 1 at any width: it is right for \<open>If(c, 1, 0)\<close> on one bit.
\<close>

definition invert_ok :: "bv \<Rightarrow> bool" where
  "invert_ok a =
     (case a of
        IfBV c x y \<Rightarrow> bvv_is 1 x \<and> first_arg_is_0 y = Inr True \<longrightarrow> len x = 1 \<and> bvv_is 0 y
      | _ \<Rightarrow> True)"

text \<open>The conditions on the two operations with a fragile idiom.\<close>

definition nop_rule_ok :: "nop \<Rightarrow> bv list \<Rightarrow> bool" where
  "nop_rule_ok f as =
     (case as of
        [a, b] \<Rightarrow> (case f of NAnd \<Rightarrow> rotate_ok a b | NXor \<Rightarrow> minmax_ok a b | _ \<Rightarrow> True)
      | _ \<Rightarrow> True)"

context sound_ctors
begin

lemma two_choices:
  "(if p then if q then Some x else None else if p' then if q' then Some y else None else None) = Some r \<Longrightarrow>
     p \<and> q \<and> r = x \<or> p' \<and> q' \<and> r = y"
  by (auto split: if_splits)

lemma chain_choices:
  "(if p then Some x else if q then Some y else if t then Some z else rest) = Some r \<Longrightarrow>
     p \<and> r = x \<or> q \<and> r = y \<or> t \<and> r = z \<or> rest = Some r"
  by (auto split: if_splits)

lemma minmax_simplifier_sim:
  assumes rule: "bitwise_xor_simplifier_minmax k a b = Some res" and wf: "wf_bv (NOp NXor [a, b])"
    and ok: "minmax_ok a b"
  shows "sim res (NOp NXor [a, b])"
proof -
  obtain q r s us s0 s1 where m: "minmax_match a b = Some (q, r, s, us)" and s: "bop_args BSub s = Some (s0, s1)"
    and rest: "(let u0 = us ! 0; u1 = us ! 1 in
       if u0 = s \<and> u1 = q \<or> u0 = q \<and> u1 = s then
         if s0 = q \<and> s1 = r then Some (mk_if k (mk_cmp k CSLE q r) r q) else None
       else if u0 = s \<and> u1 = r \<or> u0 = r \<and> u1 = s then
         if s0 = r \<and> s1 = q then Some (mk_if k (mk_cmp k CSLE q r) q r) else None
       else None) = Some res"
  proof -
    obtain q r s us where m: "minmax_match a b = Some (q, r, s, us)"
      using rule by (cases "minmax_match a b") (auto simp: bitwise_xor_simplifier_minmax_def)
    moreover obtain s0 s1 where "bop_args BSub s = Some (s0, s1)"
      using rule by (cases "bop_args BSub s") (auto simp: bitwise_xor_simplifier_minmax_def m)
    ultimately show thesis
      using rule by (intro that [of q r s us s0 s1]) (simp_all add: bitwise_xor_simplifier_minmax_def split del: if_split)
  qed
  have s: "s = BOp BSub s0 s1" using s by (simp add: bop_args_Some)
  have res: "(us ! 0 = s \<and> us ! 1 = q \<or> us ! 0 = q \<and> us ! 1 = s) \<and> s0 = q \<and> s1 = r
                \<and> res = mk_if k (mk_cmp k CSLE q r) r q
            \<or> (us ! 0 = s \<and> us ! 1 = r \<or> us ! 0 = r \<and> us ! 1 = s) \<and> s0 = r \<and> s1 = q
                \<and> res = mk_if k (mk_cmp k CSLE q r) q r"
    using two_choices [OF rest [unfolded Let_def]] by blast
  have "length us = 2" using ok m by (simp add: minmax_ok_def)
  then obtain u0 u1 where us: "us = [u0, u1]" by (auto simp: length_Suc_conv numeral_2_eq_2)
  have eq: "bval e r = bval e q"
    if "signed_take_bit (len q - 1) (bval e q) = signed_take_bit (len q - 1) (bval e r)"
      "wf_bv q" "wf_bv r" "len r = len q" "0 < len q" for e
    using signed_take_bit_eq_iff [OF that(5)] bval_in_width [OF that(2)] bval_in_width [OF that(3)] that(1,4) by auto
  consider (max) "us = [s, q] \<or> us = [q, s]" "s = BOp BSub q r" "res = mk_if k (mk_cmp k CSLE q r) r q"
    | (min) "us = [s, r] \<or> us = [r, s]" "s = BOp BSub r q" "res = mk_if k (mk_cmp k CSLE q r) q r"
    using res s us by (simp only: nth_Cons_0 One_nat_def nth_Cons_Suc) blast
  then show ?thesis
  proof cases
    case max
    note m_val = minmax_match_value [OF m wf max(1)]
    have val: "wf_bv q" "wf_bv r" "len q = len a" "len r = len a" "0 < len a"
      "\<And>e. bval e (NOp NXor [a, b]) = (if signed_take_bit (len a - 1) (bval e q) < signed_take_bit (len a - 1) (bval e r)
          then bval e r else bval e q)"
      using m_val max(2) by (simp_all del: bval.simps(3))
    then show ?thesis unfolding max(3) using eq by (intro simI) (auto simp del: bval.simps(3))
  next
    case min
    note m_val = minmax_match_value [OF m wf min(1)]
    have val: "wf_bv q" "wf_bv r" "len q = len a" "len r = len a" "0 < len a"
      "\<And>e. bval e (NOp NXor [a, b]) = (if signed_take_bit (len a - 1) (bval e r) < signed_take_bit (len a - 1) (bval e q)
          then bval e r else bval e q)"
      using m_val min(2) by (auto simp del: bval.simps(3))
    then show ?thesis unfolding min(3) by (intro simI) (auto simp del: bval.simps(3))
  qed
qed

lemma bitwise_xor_simplifier_sim:
  assumes rule: "bitwise_xor_simplifier k as = Some r" and wf: "wf_bv (NOp NXor as)"
    and ok: "\<And>a b. as = [a, b] \<Longrightarrow> minmax_ok a b"
  shows "sim r (NOp NXor as)"
  using rule unfolding bitwise_xor_simplifier_def
proof (rule orelse_SomeE)
  assume "(case as of
      [a, b] \<Rightarrow>
        if a = BVVal 0 (len a) then Some b
        else if b = BVVal 0 (len a) then Some a
        else if a = b \<or> same k a b then Some (BVVal 0 (len a))
        else bitwise_xor_simplifier_minmax k a b
    | _ \<Rightarrow> None) = Some r"
  then obtain a b where as: "as = [a, b]" and cases: "(if a = BVVal 0 (len a) then Some b
        else if b = BVVal 0 (len a) then Some a
        else if a = b \<or> same k a b then Some (BVVal 0 (len a))
        else bitwise_xor_simplifier_minmax k a b) = Some r"
    by (auto split: list.splits)
  have wfs: "wf_bv a" "wf_bv b" "len b = len a" "0 < len a" using wf as by simp_all
  note val = xor_pair_value [OF wf [unfolded as]]
  have len: "len (NOp NXor as) = len a" using as by simp
  consider "a = BVVal 0 (len a)" "r = b" | "b = BVVal 0 (len a)" "r = a" | "a = b \<or> same k a b" "r = BVVal 0 (len a)"
    | "bitwise_xor_simplifier_minmax k a b = Some r"
    using chain_choices [OF cases] by blast
  then show ?thesis
  proof cases
    case 1
    then have "bval e a = 0" for e by (metis bval.simps(2))
    then show ?thesis using 1(2) wfs val as by (intro simI) (simp_all del: bval.simps(3))
  next
    case 2
    then have "bval e b = 0" for e by (metis bval.simps(2))
    then show ?thesis using 2(2) wfs val as by (intro simI) (simp_all del: bval.simps(3))
  next
    case 3
    then have "bval e a = bval e b" for e using same_value [of a b e] wfs by auto
    then show ?thesis using 3(2) wfs val as by (intro simI) (simp_all del: bval.simps(3))
  next
    case 4
    then show ?thesis using minmax_simplifier_sim [OF 4] wf ok as by simp
  qed
next
  assume "flatten_simplifier NXor xor_filter (Some (BVVal 0 (len (hd as)))) as = Some r"
  then show ?thesis using wf by (rule flatten_simplifier_sim) (simp_all add: xor_filter_same)
qed

lemma if_choices:
  "(if p then Some x else if q then Some y
    else if s then (if t \<and> u then Some z else if t then Some z else None)
    else if u then Some z else if t then Some z else None) = Some r \<Longrightarrow>
     p \<and> r = x \<or> q \<and> r = y \<or> (t \<or> u) \<and> r = z"
  by (auto split: if_splits)

lemma bitwise_or_simplifier_sim:
  assumes rule: "bitwise_or_simplifier k as = Some r" and wf: "wf_bv (NOp NOr as)"
  shows "sim r (NOp NOr as)"
  using rule unfolding bitwise_or_simplifier_def
proof (rule orelse_SomeE)
  assume "(case as of
      [a, b] \<Rightarrow>
        if a = BVVal 0 (len a) then Some b
        else if b = BVVal 0 (len a) then Some a
        else if is_bvv a \<and> is_bvv b then
          (if a = b \<and> same k a b then Some a else if a = b then Some a else None)
        else if same k a b then Some a
        else if a = b then Some a
        else None
    | _ \<Rightarrow> None) = Some r"
  then obtain a b where as: "as = [a, b]" and cases: "(if a = BVVal 0 (len a) then Some b
        else if b = BVVal 0 (len a) then Some a
        else if is_bvv a \<and> is_bvv b then
          (if a = b \<and> same k a b then Some a else if a = b then Some a else None)
        else if same k a b then Some a
        else if a = b then Some a
        else None) = Some r"
    by (auto split: list.splits)
  have wfs: "wf_bv a" "wf_bv b" "len b = len a" "0 < len a" using wf as by simp_all
  have val: "bval e (NOp NOr as) = bval e a OR bval e b" for e
    using wfs bval_in_width [of a e] bval_in_width [of b e] by (simp add: as)
  consider "a = BVVal 0 (len a)" "r = b" | "b = BVVal 0 (len a)" "r = a" | "a = b \<or> same k a b" "r = a"
    using if_choices [OF cases] by blast
  then show ?thesis
  proof cases
    case 1
    then have "bval e a = 0" for e by (metis bval.simps(2))
    then show ?thesis using 1(2) wfs val as by (intro simI) (simp_all del: bval.simps(3))
  next
    case 2
    then have "bval e b = 0" for e by (metis bval.simps(2))
    then show ?thesis using 2(2) wfs val as by (intro simI) (simp_all del: bval.simps(3))
  next
    case 3
    then have "bval e a = bval e b" for e using same_value [of a b e] wfs by auto
    then show ?thesis using 3(2) wfs val as by (intro simI) (simp_all del: bval.simps(3))
  qed
next
  assume "flatten_simplifier NOr deduplicate_filter None as = Some r"
  then show ?thesis using wf by (rule flatten_simplifier_sim) (simp_all add: dedup_same)
qed

lemma nonneg_signed_take_bit:
  assumes "take_bit n v = (v :: int)" and "\<not> bit v (n - 1)"
  shows "signed_take_bit (n - 1) v = v"
  using assms by (cases n) (simp_all add: signed_take_bit_eq_take_bit_minus)

lemma rotate_shift_mask_simplifier_sim:
  assumes rule: "rotate_shift_mask_simplifier k a b = Some r" and wf: "wf_bv (NOp NAnd [a, b])"
    and ok: "rotate_ok a b"
  shows "sim r (NOp NAnd [a, b])"
proof -
  obtain x l s m where match: "rotate_match a b = Some (x, l, s, m)"
    and r: "r = (let y = mk_nop k NAnd [x, bvv_like x m] in
       mk_nop k NOr [mk_bop k BShl y (bvv_like y l), mk_bop k BSar y (bvv_like y s)])"
    using rule by (auto simp: rotate_shift_mask_simplifier_def bind_eq_Some_conv Let_def)
  from rotate_match_Some [OF match] obtain n1 n2 n3 v
    where a: "a = NOp NOr [BOp BShl x (BVVal l n1), BOp BLshr x (BVVal s n2)]" and b: "b = BVVal v n3"
      and m: "m = take_bit (nat (l + s)) (push_bit (nat s) v) OR drop_bit (nat l) v"
      and lim: "l + s = 32 \<and> m = 0xFFFF \<or> l + s = 64 \<and> m = 0xFFFFFFFF" .
  define n where "n = len x"
  have n: "int n = l + s" using ok match by (simp add: rotate_ok_def n_def)
  have wfs: "wf_bv x" "0 \<le> l" "0 \<le> s" "0 \<le> v" "v < 2 ^ n" "0 < n" "n1 = n" "n2 = n" "n3 = n"
    "l < 2 ^ n" "s < 2 ^ n"
    using wf a b by (auto simp: n_def)
  have nat: "nat (l + s) = n" "n = nat l + nat s" using n wfs(2,3) by auto
  have small: "take_bit n m = m" "\<not> bit m (n - 1)"
    using lim n by (auto simp: take_bit_int_eq_self_iff bit_iff_odd nat_eq_iff [symmetric])
  define y where "y = mk_nop k NAnd [x, bvv_like x m]"
  have y: "wf_bv y" "len y = n" "bval e y = bval e x AND m" for e
    using wfs small(1) bval_in_width [of x e] by (simp_all add: y_def n_def)
  have lt: "take_bit n l = l" "take_bit n s = s" using wfs by (simp_all add: take_bit_int_eq_self_iff)
  have pos: "signed_take_bit (n - 1) (bval e x AND m) = bval e x AND m" for e
    using small(2) bval_in_width [OF wfs(1), of e] wfs(6)
    by (intro nonneg_signed_take_bit) (auto simp: n_def bit_and_iff small(1) [unfolded n_def])
  have "sim r (NOp NOr [BOp BShl y (BVVal l n), BOp BSar y (BVVal s n)])"
    unfolding r by (intro simI) (use wfs y lt in \<open>simp_all add: Let_def flip: y_def\<close>)
  moreover have "bval e (NOp NOr [BOp BShl y (BVVal l n), BOp BSar y (BVVal s n)]) = bval e (NOp NAnd [a, b])" for e
    using rotate_mask_value [OF nat(2), of "bval e x" v m] bval_in_width [OF wfs(1), of e] wfs m nat(1) pos [of e]
      y(2,3) n_def
    by (simp add: a b take_bit_int_eq_self_iff)
  ultimately show ?thesis using wf y(2) by (simp add: sim_def a n_def)
qed

lemma and_if_simplifier_sim:
  assumes "and_if_simplifier k a b = Some r" and "wf_bv (NOp NAnd [a, b])"
  shows "sim r (NOp NAnd [a, b])"
proof -
  obtain c x y d u v where a: "a = IfBV c x y" and b: "b = IfBV d u v"
    and eqs: "same k x (BVVal (take_bit (len x) 1) (len x))" "same k y (BVVal 0 (len y))"
      "same k u (BVVal (take_bit (len x) 1) (len x))" "same k v (BVVal 0 (len y))"
    and r: "r = mk_if k (mk_and k [c, d]) (BVVal (take_bit (len x) 1) (len x)) (BVVal 0 (len y))"
    using assms(1) by (cases "(k, a, b)" rule: and_if_simplifier.cases) (auto simp: Let_def split: if_splits)
  have wfs: "wf_bl c" "wf_bl d" "wf_bv x" "wf_bv y" "wf_bv u" "wf_bv v" "len y = len x" "len u = len x"
    "len v = len x" "0 < len x"
    using assms(2) a b by auto
  have one: "take_bit (len x) (1 :: int) = 1" using wfs(10) by simp
  have vals: "bval e x = 1" "bval e y = 0" "bval e u = 1" "bval e v = 0" for e
    using same_value [OF eqs(1), of e] same_value [OF eqs(2), of e] same_value [OF eqs(3), of e]
      same_value [OF eqs(4), of e] wfs one by simp_all
  show ?thesis unfolding r a b using wfs one vals by (intro simI) auto
qed

lemma all_ones_and: "take_bit n v = v \<Longrightarrow> v AND (2 ^ n - 1) = (v :: int)"
  by (metis take_bit_eq_mask mask_eq_exp_minus_1)

lemma concat_pair_mask:
  fixes v w :: int
  assumes "take_bit n w = w"
  shows "(push_bit n v OR w) AND (2 ^ n - 1) = w"
proof -
  have "(push_bit n v OR w) AND (2 ^ n - 1) = take_bit n (push_bit n v OR w)"
    by (simp only: take_bit_eq_mask mask_eq_exp_minus_1)
  then show ?thesis using assms by (simp add: take_bit_or take_bit_push_bit)
qed

lemma concat_mask_sim:
  assumes eq: "equals k b (2 ^ (len (ConcatN [x, y]) - len x) - 1)" and wf: "wf_bv (NOp NAnd [ConcatN [x, y], b])"
  shows "sim (mk_zext k (len x) y) (NOp NAnd [ConcatN [x, y], b])"
proof -
  have wfs: "wf_bv x" "wf_bv y" "wf_bv b" "0 < len x" "0 < len y" "len b = len x + len y" using wf by auto
  have "(2 :: int) ^ len y \<le> 2 ^ len b" by (rule power_increasing) (simp_all add: wfs(6))
  then have "(2 :: int) ^ len y - 1 < 2 ^ len b" by linarith
  then have mask: "bval e b = 2 ^ len y - 1" for e
    using equals_value [OF eq wfs(3), of e] wfs by (simp add: take_bit_int_eq_self)
  have "bval e (NOp NAnd [ConcatN [x, y], b]) = bval e (ConcatN [x, y]) AND bval e b" for e
    using wf by (rule and_pair_value)
  also have "\<dots> e = bval e y" for e
    using concat_pair_mask [OF bval_in_width [OF wfs(2), of e], of "bval e x"] by (simp add: mask)
  finally show ?thesis using wfs by (intro simI) (simp_all del: bval.simps(3))
qed

lemma and_choices:
  "(if p then Some x else if q then Some y else if u then Some y else if v then Some y
    else if z then Some w else if z' then Some w else orelse m m') = Some r \<Longrightarrow>
     p \<and> r = x \<or> (q \<or> u \<or> v) \<and> r = y \<or> (z \<or> z') \<and> r = w \<or> m = Some r \<or> m' = Some r"
  by (auto simp: orelse_Some split: if_splits)

lemma and_pair_simplifier_sim:
  assumes cases: "(if bvv_is (2 ^ len a - 1) a then Some b
               else if bvv_is (2 ^ len b - 1) b then Some a
               else if a = b then Some a
               else if \<not> (is_bvv a \<and> is_bvv b) \<and> same k a b then Some a
               else if bvv_is 0 a then Some (BVVal 0 (len a))
               else if bvv_is 0 b then Some (BVVal 0 (len a))
               else
               orelse
                 (case a of
                    ConcatN [a0, a1] \<Rightarrow>
                      if equals k b (2 ^ (len a - len a0) - 1) then Some (mk_zext k (len a0) a1) else None
                  | _ \<Rightarrow> None)
                 (and_if_simplifier k a b)) = Some r"
    and wf: "wf_bv (NOp NAnd [a, b])"
  shows "sim r (NOp NAnd [a, b])"
proof -
  have wfs: "wf_bv a" "wf_bv b" "len b = len a" "0 < len a" using wf by simp_all
  note val = and_pair_value [OF wf]
  have ones: "v AND (2 ^ len a - 1) = v" if "take_bit (len a) v = v" for v :: int
    using all_ones_and that by blast
  consider (ones_a) "bvv_is (2 ^ len a - 1) a" "r = b"
    | (same) "bvv_is (2 ^ len b - 1) b \<or> a = b \<or> same k a b" "r = a"
    | (zero) "bvv_is 0 a \<or> bvv_is 0 b" "r = BVVal 0 (len a)"
    | (concat) "(case a of
                    ConcatN [a0, a1] \<Rightarrow>
                      if equals k b (2 ^ (len a - len a0) - 1) then Some (mk_zext k (len a0) a1) else None
                  | _ \<Rightarrow> None) = Some r"
    | (ifs) "and_if_simplifier k a b = Some r"
    using and_choices [OF cases] by (elim disjE conjE) (simp_all only: simp_thms)
  then show ?thesis
  proof cases
    case ones_a
    then show ?thesis
      using wfs val bvv_is_value [OF ones_a(1)] ones bval_in_width [OF wfs(2)]
      by (intro simI) (simp_all add: and.commute [of "2 ^ len a - 1"] del: bval.simps(3))
  next
    case same
    have "bval e a AND bval e b = bval e a" for e
      using same(1)
    proof (elim disjE)
      assume "bvv_is (2 ^ len b - 1) b"
      then show ?thesis
        using bvv_is_value [of "2 ^ len b - 1" b e] ones [OF bval_in_width [OF wfs(1)], of e] wfs(3) by simp
    next
      assume "same k a b"
      then show ?thesis using same_value [of a b e] wfs by simp
    qed simp
    then show ?thesis using same(2) wfs val by (intro simI) (simp_all del: bval.simps(3))
  next
    case zero
    then have "bval e a AND bval e b = 0" for e using bvv_is_value [of 0 _ e] by auto
    then show ?thesis using zero(2) wfs val by (intro simI) (simp_all del: bval.simps(3))
  next
    case concat
    then show ?thesis
      using concat_mask_sim [of b] wf by (auto split: bv.splits list.splits if_splits simp del: len.simps(6))
  next
    case ifs
    then show ?thesis using wf by (rule and_if_simplifier_sim)
  qed
qed

lemma bitwise_and_simplifier_sim:
  assumes rule: "bitwise_and_simplifier k as = Some r" and wf: "wf_bv (NOp NAnd as)"
    and ok: "\<And>a b. as = [a, b] \<Longrightarrow> rotate_ok a b"
  shows "sim r (NOp NAnd as)"
  using rule unfolding bitwise_and_simplifier_def
proof (rule orelse_SomeE)
  let ?pair = "\<lambda>a b. if bvv_is (2 ^ len a - 1) a then Some b
               else if bvv_is (2 ^ len b - 1) b then Some a
               else if a = b then Some a
               else if \<not> (is_bvv a \<and> is_bvv b) \<and> same k a b then Some a
               else if bvv_is 0 a then Some (BVVal 0 (len a))
               else if bvv_is 0 b then Some (BVVal 0 (len a))
               else
               orelse
                 (case a of
                    ConcatN [a0, a1] \<Rightarrow>
                      if equals k b (2 ^ (len a - len a0) - 1) then Some (mk_zext k (len a0) a1) else None
                  | _ \<Rightarrow> None)
                 (and_if_simplifier k a b)"
  assume "(case as of [a, b] \<Rightarrow> orelse (rotate_shift_mask_simplifier k a b) (?pair a b) | _ \<Rightarrow> None) = Some r"
  then obtain a b where as: "as = [a, b]" and cases: "orelse (rotate_shift_mask_simplifier k a b) (?pair a b) = Some r"
    by (cases as rule: two.cases) simp_all
  from cases show ?thesis
  proof (rule orelse_SomeE)
    assume "rotate_shift_mask_simplifier k a b = Some r"
    then show ?thesis using wf ok as by (simp add: rotate_shift_mask_simplifier_sim)
  next
    assume "?pair a b = Some r"
    then show ?thesis unfolding as by (rule and_pair_simplifier_sim) (use wf as in simp)
  qed
next
  assume "flatten_simplifier NAnd deduplicate_filter None as = Some r"
  then show ?thesis using wf by (rule flatten_simplifier_sim) (simp_all add: dedup_same)
qed

text \<open>The inversion, where the conditional is one of one bit and its last argument is the constant zero.\<close>

lemma invert_simplifier_sim:
  assumes rule: "invert_simplifier k a = Inr (Some r)" and wf: "wf_bv (UOp UInv a)" and ok: "invert_ok a"
  shows "sim r (UOp UInv a)"
proof -
  obtain c x y where a: "a = IfBV c x y" and x: "bvv_is 1 x" and y: "first_arg_is_0 y = Inr True"
    and r: "r = mk_if k (mk_not k c) x y"
    using rule by (auto simp: invert_simplifier_def map_res_def split: bv.splits if_splits sum.splits)
  have one: "len x = 1" "bvv_is 0 y" using ok a x y by (simp_all add: invert_ok_def)
  have wfs: "wf_bl c" "wf_bv x" "wf_bv y" "len y = 1" using wf a one(1) by simp_all
  have "bval e x = 1" "bval e y = 0" for e using bvv_is_value x one(2) by blast+
  then show ?thesis
    unfolding r a using wfs one(1) by (intro simI) (auto simp: take_bit_Suc)
qed

lemma simplify_nop_sim:
  assumes "simplify_nop k f as = Some r" and "wf_bv (NOp f as)" and "nop_rule_ok f as"
  shows "sim r (NOp f as)"
proof -
  have "rotate_ok a b" if "f = NAnd" "as = [a, b]" for a b using assms(3) that by (simp add: nop_rule_ok_def)
  moreover have "minmax_ok a b" if "f = NXor" "as = [a, b]" for a b
    using assms(3) that by (simp add: nop_rule_ok_def)
  ultimately show ?thesis
    using assms(1,2) bitwise_add_simplifier_sim bitwise_mul_simplifier_sim bitwise_and_simplifier_sim
      bitwise_or_simplifier_sim bitwise_xor_simplifier_sim
    by (cases f) (simp_all add: simplify_nop_def del: wf_bv.simps)
qed

end

end
