(* ===== verification/Simplify_Extract.thy ===== *)
theory Simplify_Extract
  imports Simplify_Bitwise
begin

text \<open>
  Soundness of the simplifiers of byte reversal, extension and extraction. A reversal is described
  by the bit that it puts at each place; reversal and concatenation meet in one lemma,
  \<open>reverse_cat\<close>.
\<close>

section \<open>Byte reversal\<close>

lemma multiple_of_8: "n mod 8 = 0 \<Longrightarrow> \<exists>m. n = 8 * (m :: nat)"
  by presburger

lemma mirror_bit_add:
  assumes "a mod 8 = 0" and "b mod 8 = 0" and "i < a + b"
  shows "mirror_bit (a + b) i = (if i < a then b + mirror_bit a i else mirror_bit b (i - a))"
proof -
  obtain p q where pq: "a = 8 * p" "b = 8 * q" using assms multiple_of_8 by metis
  define j r where "j = i div 8" and "r = i mod 8"
  have i: "i = 8 * j + r" "r < 8" by (simp_all add: j_def r_def)
  show ?thesis
  proof (cases "i < a")
    case True
    then have "j < p" using i pq by linarith
    then show ?thesis using True unfolding mirror_bit_def j_def [symmetric] r_def [symmetric] pq by simp
  next
    case False
    then have "p \<le> j" using i pq by linarith
    then have "i - a = 8 * (j - p) + r" using i pq by simp
    then have "(i - a) div 8 = j - p" "(i - a) mod 8 = r" using i(2) by simp_all
    with False \<open>p \<le> j\<close> show ?thesis
      unfolding mirror_bit_def j_def [symmetric] r_def [symmetric] by (simp add: pq)
  qed
qed

lemma mirror_bit_byte: "i < 8 \<Longrightarrow> mirror_bit 8 i = i"
  by (simp add: mirror_bit_def)

lemma mirror_bit_slice:
  assumes "n mod 8 = 0" and "(hi + 1) mod 8 = 0" and "lo mod 8 = 0" and "lo \<le> hi" and "hi < n" and "i < hi + 1 - lo"
  shows "mirror_bit n (mirror_bit (hi + 1 - lo) i + lo) = i + (n - hi - 1)"
proof -
  obtain p q s where pq: "n = 8 * p" "hi + 1 = 8 * q" "lo = 8 * s" using assms(1-3) multiple_of_8 by metis
  define j r where "j = i div 8" and "r = i mod 8"
  have i: "i = 8 * j + r" "r < 8" by (simp_all add: j_def r_def)
  have j: "j < q - s" "s \<le> q" "q \<le> p" using assms(4-6) i pq by linarith+
  have "mirror_bit (hi + 1 - lo) i = 8 * (q - s - 1 - j) + r"
    unfolding mirror_bit_def j_def [symmetric] r_def [symmetric] pq using j by simp
  then have "mirror_bit (hi + 1 - lo) i + lo = 8 * (q - 1 - j) + r" using j pq by simp
  moreover have "mirror_bit n (8 * (q - 1 - j) + r) = 8 * (p - q + j) + r"
    unfolding mirror_bit_def pq(1) using j i(2) by simp
  moreover have "n - hi - 1 = 8 * (p - q)" using pq by simp
  ultimately show ?thesis using i by simp
qed

lemma wf_reverse: "wf_bv (UOp URev a) \<longleftrightarrow> wf_bv a \<and> 0 < len a \<and> len a mod 8 = 0"
  by auto

lemma reverse_eqI:
  assumes "wf_bv (UOp URev a)" and "wf_bv r" and "len r = len a"
    and "\<And>e i. i < len a \<Longrightarrow> bit (bval e r) i = bit (bval e a) (mirror_bit (len a) i)"
  shows "sim r (UOp URev a)"
proof (rule simI)
  fix e
  show "bval e r = bval e (UOp URev a)"
  proof (rule bit_eqI)
    fix i
    show "bit (bval e r) i = bit (bval e (UOp URev a)) i"
      using bit_reverse [OF assms(1), of e i] assms(4) [of i e] bit_bval [OF assms(2), of e i] assms(3) by auto
  qed
qed (use assms in simp_all)

lemma reverse_reverse_sim: "wf_bv (UOp URev a) \<Longrightarrow> sim a (UOp URev (UOp URev a))"
  by (rule reverse_eqI) (auto simp: bit_reverse mirror_bit_mirror simp del: bval.simps)

lemma reverse_byte_sim: "wf_bv a \<Longrightarrow> len a = 8 \<Longrightarrow> sim a (UOp URev a)"
  by (rule reverse_eqI) (auto simp: mirror_bit_byte)

text \<open>The reversal of a concatenation is the concatenation of the reversed parts, in reverse order.\<close>

lemma bit_reverse_cat:
  assumes "list_all (\<lambda>a. wf_bv (UOp URev a)) as" and "i < width as"
  shows "bit (cat_val (parts e (rev (map (UOp URev) as)))) i = bit (cat_val (parts e as)) (mirror_bit (width as) i)"
  using assms
proof (induction as arbitrary: i)
  case (Cons a as)
  let ?r = "rev (map (UOp URev) as)"
  have wf: "list_all wf_bv as" "list_all wf_bv [UOp URev a]" "width as mod 8 = 0" "len a mod 8 = 0"
    using Cons.prems(1) by (induction as) (auto simp: mod_add_eq [symmetric])
  have "bit (cat_val (parts e (?r @ [UOp URev a]))) i =
      (if i < len a then bit (bval e (UOp URev a)) i else bit (cat_val (parts e ?r)) (i - len a))"
    using bit_cat_append [OF wf(2), of e ?r i] by (simp del: bval.simps)
  also have "\<dots> = (if i < len a then bit (bval e a) (mirror_bit (len a) i)
      else bit (cat_val (parts e as)) (mirror_bit (width as) (i - len a)))"
    using Cons.IH [of "i - len a"] Cons.prems bit_reverse [of a e i] by (auto simp del: bval.simps)
  also have "\<dots> = bit (cat_val (parts e (a # as))) (mirror_bit (len a + width as) i)"
    using bit_cat_append [OF wf(1), of e "[a]" "mirror_bit (len a + width as) i"] Cons.prems(2)
      mirror_bit_add [OF wf(4,3), of i] mirror_bit_mirror(1) [of "width as" "i - len a"] wf(3)
    by (auto simp: o_def)
  finally show ?case by simp
qed simp

lemma same_parts_map:
  assumes "\<And>a. a \<in> set as \<Longrightarrow> sim (f a) (g a)"
  shows "same_parts (map f as) (map g as)"
  using assms
proof (induction as)
  case (Cons a as)
  then have "same_parts ([f a] @ map f as) ([g a] @ map g as)"
    by (intro same_parts_append same_parts_single) auto
  then show ?case by simp
qed (simp add: same_parts_def)

text \<open>Each \<open>f a\<close> stands for the reversal of \<open>a\<close>.\<close>

lemma reverse_cat:
  assumes "wf_bv (UOp URev (ConcatN as))" and "list_all (\<lambda>a. len a mod 8 = 0) as"
    and "\<And>a. a \<in> set as \<Longrightarrow> wf_bv (UOp URev a) \<Longrightarrow> sim (f a) (UOp URev a)"
    and "sim r (ConcatN (rev (map f as)))"
  shows "sim r (UOp URev (ConcatN as))"
proof -
  have rv: "wf_bv (UOp URev a)" if "a \<in> set as" for a using assms(1,2) that by (auto simp: list_all_iff)
  have "same_parts (map f (rev as)) (map (UOp URev) (rev as))"
    by (rule same_parts_map) (use rv assms(3) in simp)
  then have p: "same_parts (rev (map f as)) (rev (map (UOp URev) as))" by (simp add: rev_map)
  have w: "width (rev (map (UOp URev) as)) = width as" by (simp add: o_def rev_map [symmetric] sum_list.rev del: rev_map)
  show ?thesis
  proof (rule reverse_eqI)
    fix e i
    assume "i < len (ConcatN as)"
    then show "bit (bval e r) i = bit (bval e (ConcatN as)) (mirror_bit (len (ConcatN as)) i)"
      using bit_reverse_cat [of as i e] rv p assms(4) by (simp add: list_all_iff same_parts_def sim_def)
  qed (use assms p w in \<open>auto simp: sim_def same_parts_def\<close>)
qed

text \<open>The bytes of one value from the lowest on: in reverse order they are the value.\<close>

lemma ascending_bytes_value:
  assumes "ascending_bytes x i as" and "list_all wf_bv as"
  shows "width as = 8 * length as \<and> list_all (\<lambda>a. len a = 8) as
     \<and> (\<forall>e. cat_val (parts e (rev as)) = take_bit (8 * length as) (drop_bit (8 * i) (bval e x)))"
  using assms
proof (induction x i as rule: ascending_bytes.induct)
  case (2 x i a as)
  then obtain a': "a = ExtractN ((i + 1) * 8 - 1) (i * 8) x" and asc: "ascending_bytes x (i + 1) as"
    by (auto split: bv.splits)
  have IH: "width as = 8 * length as" "list_all (\<lambda>a. len a = 8) as"
    "\<And>e. cat_val (parts e (rev as)) = take_bit (8 * length as) (drop_bit (8 * (i + 1)) (bval e x))"
    using "2.IH" [of "(i + 1) * 8 - 1" "i * 8" x] asc a' "2.prems" by auto
  have "push_bit 8 (take_bit m (drop_bit (8 * (i + 1)) v)) OR take_bit 8 (drop_bit (8 * i) v) =
      take_bit (8 + m) (drop_bit (8 * i) v)" for m and v :: int
    by (rule bit_eqI) (auto simp: bit_simps elim!: back_subst [of "bit v"])
  then show ?case using IH a' by (simp add: cat_val_append mult.commute)
qed simp

lemma ascending_last:
  "ascending_bytes x i as \<Longrightarrow> as \<noteq> [] \<Longrightarrow>
     last as = ExtractN (8 * (i + length as) - 1) (8 * (i + length as - 1)) x"
proof (induction x i as rule: ascending_bytes.induct)
  case (2 x i a as)
  then show ?case by (cases "as = []") (auto simp: mult.commute split: bv.splits)
qed simp

context sound_ctors
begin

lemma reverse_concat_simplifier_sim:
  assumes rule: "reverse_concat_simplifier k as = Some r" and wf: "wf_bv (UOp URev (ConcatN as))"
  shows "sim r (UOp URev (ConcatN as))"
  using rule unfolding reverse_concat_simplifier_def
proof (rule orelse_SomeE)
  have wfs: "list_all wf_bv as" "as \<noteq> []" using wf by auto
  have bytes: "sim r (UOp URev (ConcatN as))" if "list_all (\<lambda>a. len a = 8) as" "sim r (ConcatN (rev as))" for r
    by (rule reverse_cat [OF wf, where f = "\<lambda>a. a"]) (use that reverse_byte_sim in \<open>auto simp: list_all_iff\<close>)
  {
    assume "(case (hd as, last as) of
          (ExtractN _ _ first_ast, ExtractN upper_bound _ _) \<Rightarrow>
            if ascending_bytes first_ast 0 as then
              Some (if len first_ast = upper_bound + 1 then first_ast else mk_extract k upper_bound 0 first_ast)
            else None
        | _ \<Rightarrow> None) = Some r"
    then obtain h l x u l' y where hd: "hd as = ExtractN h l x" and last: "last as = ExtractN u l' y"
      and asc: "ascending_bytes x 0 as" and r: "r = (if len x = u + 1 then x else mk_extract k u 0 x)"
      by (auto split: bv.splits if_splits)
    note val = ascending_bytes_value [OF asc wfs(1)]
    have last_wf: "wf_bv (last as)" using wfs by (simp add: list_all_iff)
    have u: "u + 1 = 8 * length as" "wf_bv x" "u < len x"
      using ascending_last [OF asc wfs(2)] last wfs last_wf by auto
    have "sim r (ConcatN (rev as))"
      unfolding r using u val bval_in_width [of x] by (intro simI) (auto simp: rev_map [symmetric] sum_list.rev)
    then show "sim r (UOp URev (ConcatN as))" using val bytes by blast
  next
    assume "(if list_all (\<lambda>a. len a = 8) as then Some (mk_concat k (rev as))
        else if list_all is_reverse as \<and> list_all (\<lambda>a. len a mod 8 = 0) as then
          Some (mk_concat k (map reverse_arg (rev as)))
        else None) = Some r"
    then consider "list_all (\<lambda>a. len a = 8) as" "r = mk_concat k (rev as)"
      | "list_all is_reverse as" "list_all (\<lambda>a. len a mod 8 = 0) as" "r = mk_concat k (map reverse_arg (rev as))"
      by (auto split: if_splits)
    then show "sim r (UOp URev (ConcatN as))"
    proof cases
      case 1
      then show ?thesis using bytes concat_sim [of "rev as"] wfs by (simp add: list_all_iff)
    next
      case 2
      have inner: "sim (reverse_arg a) (UOp URev a)" if a: "a \<in> set as" for a
      proof -
        have "is_reverse a" using 2(1) a by (simp add: list_all_iff)
        then obtain x where "a = UOp URev x" by (auto elim: is_reverse.elims)
        then show ?thesis using reverse_reverse_sim [of x] wfs(1) a by (auto simp: list_all_iff)
      qed
      moreover have "sim r (ConcatN (rev (map reverse_arg as)))"
        unfolding 2(3) rev_map using inner by (intro concat_sim) (auto simp: list_all_iff sim_def)
      ultimately show ?thesis using reverse_cat [OF wf 2(2)] by blast
    qed
  }
qed

lemma bv_reverse_simplifier_sim:
  assumes rule: "bv_reverse_simplifier k a = Some r" and wf: "wf_bv (UOp URev a)"
  shows "sim r (UOp URev a)"
proof -
  consider x where "a = UOp URev x" "r = x" | "len a = 8" "r = a"
    | as where "a = ConcatN as" "reverse_concat_simplifier k as = Some r"
    | hi lo x where "a = ExtractN hi lo (UOp URev x)" "(hi + 1) mod 8 = 0" "lo mod 8 = 0"
        "r = mk_extract k (len x - lo - 1) (len x - hi - 1) x"
    using rule by (auto simp: bv_reverse_simplifier_def split: if_splits bv.splits uop.splits elim!: is_reverse.elims)
  then show ?thesis
  proof cases
    case 1
    then show ?thesis using reverse_reverse_sim [of x] wf by auto
  next
    case 2
    then show ?thesis using reverse_byte_sim [of a] wf by simp
  next
    case 3
    then show ?thesis using reverse_concat_simplifier_sim wf by blast
  next
    case 4
    have x: "wf_bv (UOp URev x)" "lo \<le> hi" "hi < len x" using wf 4(1) by auto
    let ?e = "ExtractN (len x - lo - 1) (len x - hi - 1) x"
    have r: "sim r ?e" unfolding 4(4) by (rule extract_sim) (use x in auto)
    have w: "Suc (len x - lo - 1) - (len x - hi - 1) = hi + 1 - lo" using x by linarith
    show ?thesis
    proof (rule reverse_eqI [OF wf])
      fix e i
      assume i: "i < len a"
      have m: "mirror_bit (hi + 1 - lo) i < hi + 1 - lo"
        using mirror_bit_mirror(1) [of "hi + 1 - lo" i] wf i 4(1) by auto
      have "bit (bval e r) i = bit (bval e x) (i + (len x - hi - 1))"
        using r i w by (simp add: sim_def bit_simps 4(1) add.commute)
      also have "\<dots> = bit (bval e x) (mirror_bit (len x) (mirror_bit (hi + 1 - lo) i + lo))"
        using mirror_bit_slice [OF _ 4(2,3) x(2,3), of i] x(1) i 4(1) by simp
      also have "\<dots> = bit (bval e (UOp URev x)) (mirror_bit (hi + 1 - lo) i + lo)"
        using bit_reverse [OF x(1)] m x(3) by (auto simp del: bval.simps)
      also have "\<dots> = bit (bval e a) (mirror_bit (len a) i)"
        unfolding 4(1) using m by (simp add: bit_simps add.commute del: bval.simps(5))
      finally show "bit (bval e r) i = bit (bval e a) (mirror_bit (len a) i)" .
    qed (use r w 4(1) in \<open>auto simp: sim_def\<close>)
  qed
qed

end

section \<open>Extraction from a concatenation\<close>

lemma locate_Some:
  assumes "locate x (width vs) i vs = Some (j, at)"
  shows "\<exists>pre v post. vs = pre @ v # post \<and> j = i + length pre \<and> x = at + width post \<and> at < len v"
  using assms
proof (induction vs arbitrary: i)
  case (Cons v vs)
  show ?case
  proof (cases "width vs \<le> x \<and> x < len v + width vs")
    case True
    with Cons.prems show ?thesis by (intro exI [of _ "[]"] exI [of _ v] exI [of _ vs]) auto
  next
    case False
    then have "locate x (width vs) (i + 1) vs = Some (j, at)" using Cons.prems by auto
    from Cons.IH [OF this] obtain pre u post where "vs = pre @ u # post" "j = i + 1 + length pre"
      "x = at + width post" "at < len u" by blast
    then show ?thesis by (intro exI [of _ "v # pre"] exI [of _ u] exI [of _ post]) simp
  qed
qed simp

lemma locate_found: "x < width vs \<Longrightarrow> \<exists>j at. locate x (width vs) i vs = Some (j, at)"
  by (induction vs arbitrary: i) auto

text \<open>A range of bits inside a segment of the parts.\<close>

lemma cat_segment:
  assumes "list_all wf_bv (pre @ seg @ post)" and "from + n \<le> width seg"
  shows "take_bit n (drop_bit (from + width post) (cat_val (parts e (pre @ seg @ post)))) =
           take_bit n (drop_bit from (cat_val (parts e seg)))"
proof (rule bit_eqI)
  fix i
  have "bit (cat_val (parts e (pre @ seg @ post))) (from + width post + i) = bit (cat_val (parts e seg)) (from + i)"
    if "i < n"
    using bit_cat_append [of "seg @ post" e pre "from + width post + i"]
      bit_cat_append [of post e seg "from + width post + i"] that assms
    by simp
  then show "bit (take_bit n (drop_bit (from + width post) (cat_val (parts e (pre @ seg @ post))))) i =
      bit (take_bit n (drop_bit from (cat_val (parts e seg)))) i"
    by (auto simp: bit_simps add.commute add.left_commute)
qed

lemma append_position:
  assumes "pre @ v # post = pre' @ v' # post'"
  shows "length pre = length pre' \<Longrightarrow> pre = pre' \<and> v = v' \<and> post = post'"
    and "length pre < length pre' \<Longrightarrow> \<exists>mid. pre' = pre @ v # mid \<and> post = mid @ v' # post'"
  using assms by (auto simp: append_eq_append_conv2 append_eq_Cons_conv Cons_eq_append_conv)

text \<open>The two ends cut off a segment of at least two parts.\<close>

lemma cut_ends:
  assumes wf: "list_all wf_bv (u # mid @ [v])" and h: "h < len u" and l: "l < len v"
  shows "take_bit (h + 1 + width mid + (len v - l)) (drop_bit l (cat_val (parts e (u # mid @ [v])))) =
           cat_val ((h + 1, take_bit (h + 1) (bval e u)) # parts e mid @ [(len v - l, drop_bit l (bval e v))])"
    (is "take_bit ?n (drop_bit l ?c) = ?d")
proof (rule bit_eqI)
  fix i
  have c: "bit ?c j \<longleftrightarrow> (if j < len v then bit (bval e v) j
      else if j < len v + width mid then bit (cat_val (parts e mid)) (j - len v)
      else bit (bval e u) (j - len v - width mid))" for j
    using bit_cat_append [of "[v]" e "u # mid" j] bit_cat_append [of mid e "[u]" "j - len v"] wf
    by (auto simp del: cat_val.simps(2))
  have mid: "bit (cat_val (parts e mid)) j \<Longrightarrow> j < width mid" for j
    using bit_cat_parts [of mid e j] wf by simp
  have v: "bit (bval e v) j \<Longrightarrow> j < len v" for j using bit_bval [of v e j] wf by simp
  have d: "bit ?d j \<longleftrightarrow> (if j < len v - l then bit (bval e v) (j + l)
      else if j < len v - l + width mid then bit (cat_val (parts e mid)) (j - (len v - l))
      else j - (len v - l) - width mid < h + 1 \<and> bit (bval e u) (j - (len v - l) - width mid))" for j
    using mid [of "j - (len v - l)"] v [of "j + l"]
    by (auto simp: cat_val_append bit_simps o_def add.commute)
  define C D where "C = ?c" and "D = ?d"
  note c = c [folded C_def] and d = d [folded D_def]
  have "bit (take_bit ?n (drop_bit l C)) i = bit D i"
  proof (cases "i < len v - l")
    case True
    then show ?thesis using l by (auto simp: bit_simps c d add.commute)
  next
    case False
    then obtain j where i: "i = (len v - l) + j" by (metis le_add_diff_inverse not_less)
    then have "l + i = len v + j" using l by simp
    then show ?thesis by (auto simp: bit_simps c d i)
  qed
  then show "bit (take_bit ?n (drop_bit l ?c)) i = bit ?d i" by (simp only: C_def D_def)
qed

context sound_ctors
begin

lemma extract_concat_sim:
  assumes wf: "wf_bv (ExtractN high low (ConcatN as))"
  shows "sim (extract_concat k high low as) (ExtractN high low (ConcatN as))"
proof -
  have wfs: "list_all wf_bv as" "list_all (\<lambda>a. 0 < len a) as" "low \<le> high" "high < width as" using wf by auto
  obtain hi hat li lat where lh: "locate high (width as) 0 as = Some (hi, hat)"
    and ll: "locate low (width as) 0 as = Some (li, lat)"
    using locate_found [of high as 0] locate_found [of low as 0] wfs by force
  obtain pre u post where h: "as = pre @ u # post" "hi = length pre" "high = hat + width post" "hat < len u"
    using locate_Some [OF lh] by auto
  obtain pre' v post' where l: "as = pre' @ v # post'" "li = length pre'" "low = lat + width post'" "lat < len v"
    using locate_Some [OF ll] by auto
  have eq: "pre @ u # post = pre' @ v # post'" using h(1) l(1) by simp
  have order: "hi \<le> li"
  proof (rule ccontr)
    assume "\<not> hi \<le> li"
    then obtain mid where "post' = mid @ u # post" using append_position(2) [OF eq [symmetric]] h(2) l(2) by auto
    then show False using h(3,4) l(3) wfs(3) by simp
  qed
  define used where "used = take (li + 1 - hi) (drop hi as)"
  show ?thesis
  proof (cases "hi = li")
    case True
    then have same: "pre = pre'" "u = v" "post = post'" using append_position(1) [OF eq] h(2) l(2) by simp_all
    have used: "used = [v]" using True l(1,2) by (simp add: used_def)
    define n where "n = high + 1 - low"
    have n: "lat + n \<le> len v" "0 < n" "high + 1 - low = n" using h(3,4) l(3) same wfs(3) by (auto simp: n_def)
    have v: "wf_bv v" using wfs(1) l(1) by simp
    have val: "bval e (ExtractN high low (ConcatN as)) = take_bit n (drop_bit lat (bval e v))" for e
      using cat_segment [of pre' "[v]" post' lat n e] wfs(1) n l(1,3) by simp
    have top: "lat + high - low = lat + n - 1" using n wfs(3) by (simp add: n_def)
    have res: "extract_concat k high low as =
        (if lat + high - low = len v - 1 \<and> lat = 0 then v else mk_extract k (lat + high - low) lat v)"
      unfolding extract_concat_def len.simps lh ll prod.case option.case used_def [symmetric] Let_def used by auto
    show ?thesis
    proof (cases "lat + high - low = len v - 1 \<and> lat = 0")
      case True
      then have "n = len v" using top n by linarith
      then show ?thesis
        using True res v val n bval_in_width [OF v] by (intro simI) (simp_all del: bval.simps)
    next
      case False
      then show ?thesis
        using res v val n top by (intro simI) (auto simp del: bval.simps)
    qed
  next
    case False
    then obtain mid where mid: "pre' = pre @ u # mid" "post = mid @ v # post'"
      using append_position(2) [OF eq] order h(2) l(2) by auto
    have as: "as = pre @ (u # mid @ [v]) @ post'" using l(1) mid by simp
    have used: "used = u # mid @ [v]" using h(2) l(2) mid(1) by (simp add: used_def as)
    define w where "w = (if lat \<noteq> 0 then mk_extract k (len v - 1) lat v else v)"
    have wfuv: "wf_bv u" "wf_bv v" "list_all wf_bv mid" "list_all wf_bv (u # mid @ [v])" using wfs(1) as by simp_all
    have res: "extract_concat k high low as = mk_concat k (mk_extract k hat 0 u # mid @ [w])"
      using h(4)
      unfolding extract_concat_def len.simps lh ll prod.case option.case used_def [symmetric] Let_def used
      by (simp add: w_def)
    have w: "wf_bv w" "len w = len v - lat" "bval e w = drop_bit lat (bval e v)" for e
    proof -
      have "take_bit (len v - lat) (drop_bit lat (bval e v)) = drop_bit lat (bval e v)"
        using bval_in_width [OF wfuv(2), of e] by (metis drop_bit_take_bit)
      then show "wf_bv w" "len w = len v - lat" "bval e w = drop_bit lat (bval e v)"
        using wfuv(2) l(4) by (simp_all add: w_def)
    qed
    define n where "n = high + 1 - low"
    have n: "n = hat + 1 + width mid + (len v - lat)" using h(3) l(3,4) mid(2) by (simp add: n_def)
    have "bval e (ExtractN high low (ConcatN as)) =
        take_bit n (drop_bit lat (cat_val (parts e (u # mid @ [v]))))" for e
      using cat_segment [of pre "u # mid @ [v]" post' lat n e] wfs(1) as n l(3,4) h(4) by (simp add: n_def)
    then have val: "bval e (ExtractN high low (ConcatN as)) =
        cat_val ((hat + 1, take_bit (hat + 1) (bval e u)) # parts e mid @ [(len v - lat, drop_bit lat (bval e v))])" for e
      using cut_ends [OF wfuv(4) h(4) l(4), of e] by (simp add: n)
    show ?thesis
      unfolding res using wfuv w h(4) val n by (intro simI) (simp_all add: n_def del: bval.simps)
  qed
qed

section \<open>Extraction\<close>

lemma reverse_of_concat_Some:
  "reverse_of_concat a = Some as \<Longrightarrow> a = UOp URev (ConcatN as) \<and> list_all (\<lambda>a. len a mod 8 = 0) as"
  by (cases a rule: reverse_of_concat.cases) (auto split: if_splits)

lemma reversed_concat_sim:
  assumes "wf_bv (UOp URev (ConcatN as))" and "list_all (\<lambda>a. len a mod 8 = 0) as"
  shows "sim (reversed_concat k as) (UOp URev (ConcatN as))"
proof (rule reverse_cat [OF assms, where f = "mk_uop k URev"])
  have "wf_bv (UOp URev a)" if "a \<in> set as" for a using assms that by (auto simp: list_all_iff)
  then show "sim (reversed_concat k as) (ConcatN (rev (map (mk_uop k URev) as)))"
    unfolding reversed_concat_def by (intro concat_sim) (simp add: list_all_iff)
qed (rule uop_sim)

lemma extract_head_sim: "wf_bv a \<Longrightarrow> sim (extract_head k a) a"
proof -
  assume wf: "wf_bv a"
  define b where "b = (case a of ZeroExtN n v \<Rightarrow> if n = 0 then v else mk_concat k [BVVal 0 n, v] | _ \<Rightarrow> a)"
  have b: "sim b a" using wf by (cases a) (auto simp: b_def sim_def)
  then have "sim (case reverse_of_concat b of Some as \<Rightarrow> reversed_concat k as | None \<Rightarrow> b) b"
    using reversed_concat_sim by (auto simp: sim_def dest!: reverse_of_concat_Some split: option.splits)
  then show ?thesis using b sim_trans by (auto simp: extract_head_def Let_def simp flip: b_def)
qed

lemma extract_of_sim: "sim a b \<Longrightarrow> sim r (ExtractN h l a) \<Longrightarrow> sim r (ExtractN h l b)"
  by (simp add: sim_def)

text \<open>One byte of a reversed value.\<close>

lemma extract_byte_sim:
  assumes wf: "wf_bv (ExtractN high low (UOp URev x))" and byte: "high - low + 1 = 8" "low mod 8 = 0"
  shows "sim (mk_extract k ((len x div 8 - low div 8 - 1 + 1) * 8 - 1) ((len x div 8 - low div 8 - 1) * 8) x)
           (ExtractN high low (UOp URev x))"
proof -
  have x: "wf_bv (UOp URev x)" "low \<le> high" "high < len x" using wf by simp_all
  obtain m where m: "len x = 8 * m" using x multiple_of_8 by auto
  obtain q where q: "low = 8 * q" using byte(2) multiple_of_8 by auto
  have high: "high = low + 7" using byte(1) x(2) by linarith
  have "q < m" using high q x(3) m by linarith
  then obtain p where p: "m = q + 1 + p" using less_iff_Suc_add by auto
  have pos: "len x div 8 - low div 8 - 1 = p" by (simp add: m q p)
  let ?e = "ExtractN (8 * p + 7) (8 * p) x"
  have r: "sim (mk_extract k ((p + 1) * 8 - 1) (p * 8) x) ?e"
  proof -
    have "(p + 1) * 8 - 1 = 8 * p + 7" "p * 8 = 8 * p" by simp_all
    then show ?thesis using extract_sim [of "8 * p + 7" "8 * p" x] x m p by (simp only:) simp
  qed
  have "bit (take_bit 8 (drop_bit (8 * p) (bval e x))) i = bit (take_bit 8 (drop_bit low (bval e (UOp URev x)))) i" for e i
  proof -
    have "mirror_bit (len x) (low + i) = 8 * p + i" if "i < 8"
      using that by (simp add: mirror_bit_def q m p)
    then show ?thesis
      using bit_reverse [OF x(1), of e "low + i"] high x(3) by (auto simp: bit_simps simp del: bval.simps)
  qed
  then have "take_bit 8 (drop_bit (8 * p) (bval e x)) = take_bit 8 (drop_bit low (bval e (UOp URev x)))" for e
    by (simp add: bit_eq_iff)
  then have "sim ?e (ExtractN high low (UOp URev x))"
    using x m p high by (intro simI) (simp_all del: bval.simps(5) add: Suc_diff_le)
  then show ?thesis unfolding pos using r sim_trans by blast
qed

lemma bitwise_slice:
  assumes "f \<in> {NAnd, NOr, NXor}"
  shows "take_bit n (nop_val f (map (\<lambda>v. take_bit n (drop_bit l v)) vs)) = take_bit n (drop_bit l (nop_val f vs))"
  using assms by (induction vs) (auto simp: drop_bit_and drop_bit_or drop_bit_xor)

lemma extract_inside_sim:
  assumes rule: "extract_inside k high low a = Some r" and wf: "wf_bv (ExtractN high low a)"
  shows "sim r (ExtractN high low a)"
proof -
  have wfs: "wf_bv a" "low \<le> high" "high < len a" using wf by simp_all
  consider f as where "a = NOp f as" "f \<in> {NAnd, NOr, NXor}" "r = mk_nop k f (map (mk_extract k high low) as)"
    | c x y where "a = IfBV c x y" "r = mk_if k c (mk_extract k high low x) (mk_extract k high low y)"
    | x where "a = UOp UInv x" "r = mk_uop k UInv (mk_extract k high low x)"
    using rule by (auto simp: extract_inside_def split: bv.splits uop.splits if_splits)
  then show ?thesis
  proof cases
    case 1
    define n m where "n = len a" and "m = high + 1 - low"
    have "as \<noteq> []" using wfs(1) 1(1) by auto
    note as = this len_NOp [OF this, of f, folded 1(1) n_def, symmetric]
    then have as: "as \<noteq> []" "args_ok n as" "2 \<le> length as" "len (hd as) = n"
      using wfs(1) wf_NOp_ok [of f as] 1(1) by (simp_all del: len.simps(3))
    have b: "wf_bv (mk_extract k high low x)" "len (mk_extract k high low x) = m"
      "bval e (mk_extract k high low x) = take_bit m (drop_bit low (bval e x))" if "x \<in> set as" for x e
      using as(2) that wfs(2,3) by (auto simp: args_ok_def list_all_iff n_def m_def)
    have "args_ok m (map (mk_extract k high low) as)"
      using b wfs(2) by (auto simp: args_ok_def list_all_iff m_def)
    then have w: "wf_bv (NOp f (map (mk_extract k high low) as))" "len (hd (map (mk_extract k high low) as)) = m"
      using ok_wf_NOp [of m "map (mk_extract k high low) as" f] as len_NOp [of "map (mk_extract k high low) as" f]
      by (auto simp del: len.simps(3))
    have "map (\<lambda>x. bval e (mk_extract k high low x)) as = map (\<lambda>v. take_bit m (drop_bit low v)) (map (bval e) as)" for e
      using b by simp
    then have val: "bval e r = take_bit m (drop_bit low (nop_val f (map (bval e) as)))" for e
      using nop_simps(3) [OF w(1), of e] w(2) bitwise_slice [OF 1(2), of m low "map (bval e) as"]
      by (simp add: 1(3) o_def del: map_eq_conv)
    have "take_bit m (drop_bit low (take_bit n v)) = take_bit m (drop_bit low v)" for v :: int
      using wfs(2,3) by (intro bit_eqI) (auto simp: bit_simps n_def m_def)
    then show ?thesis
      using val w nop_simps(1,2) [OF w(1)] 1(3) len_NOp [OF as(1), of f] as(4)
      by (intro simI) (simp_all add: m_def 1(1) del: len.simps(3))
  next
    case 2
    then show ?thesis using wfs by (intro simI) auto
  next
    case 3
    define n m where "n = len a" and "m = high + 1 - low"
    have "take_bit m (NOT (take_bit m (drop_bit low v))) = take_bit m (drop_bit low (take_bit n (NOT v)))" for v :: int
      using wfs(2,3) by (intro bit_eqI) (auto simp: bit_simps n_def m_def)
    then show ?thesis using wfs 3 by (intro simI) (auto simp: n_def m_def)
  qed
qed

text \<open>
  After the first rewriting the value is no longer a reversed concatenation, except where the new
  concatenation itself was rewritten to one; the code then extracts a second time from what it
  has extracted already.
\<close>

lemma extract_tail_sim:
  assumes rule: "extract_tail k high low a = Some r" and wf: "wf_bv (ExtractN high low a)"
    and ok: "reverse_of_concat a = None"
  shows "sim r (ExtractN high low a)"
proof (cases "is_reverse a \<and> high - low + 1 = 8 \<and> low mod 8 = 0")
  case True
  then obtain x where a: "a = UOp URev x" by (auto elim: is_reverse.elims)
  have r: "r = mk_extract k ((len x div 8 - low div 8 - 1 + 1) * 8 - 1) ((len x div 8 - low div 8 - 1) * 8) x"
    using rule True a by (simp add: extract_tail_def Let_def)
  show ?thesis unfolding r a by (rule extract_byte_sim) (use True wf a in auto)
next
  case False
  consider as where "a = ConcatN as" "r = extract_concat k high low as"
    | h l x where "a = ExtractN h l x" "r = mk_extract k (l + low + (high - low)) (l + low) x"
    | "extract_inside k high low a = Some r"
    using rule ok False by (cases a) (auto simp: extract_tail_def Let_def split: option.splits)
  then show ?thesis
  proof cases
    case 1
    then show ?thesis using extract_concat_sim wf by simp
  next
    case 2
    have x: "wf_bv x" "l \<le> h" "h < len x" "low \<le> high" "high < h + 1 - l" using wf 2(1) by auto
    have "take_bit (high + 1 - low) (drop_bit low (take_bit (h + 1 - l) (drop_bit l v))) =
        take_bit (high + 1 - low) (drop_bit (l + low) v)" for v :: int
      using x by (intro bit_eqI) (auto simp: bit_simps add.commute add.left_commute)
    moreover have "Suc (l + low + (high - low)) - (l + low) = high + 1 - low" using x by simp
    ultimately show ?thesis using x 2 by (intro simI) auto
  next
    case 3
    then show ?thesis using wf by (rule extract_inside_sim)
  qed
qed

lemma extension_choice:
  "(case a of SignExtN n v \<Rightarrow> if P v then Some v else rest | ZeroExtN n v \<Rightarrow> if P v then Some v else rest
    | _ \<Rightarrow> rest) = Some r \<Longrightarrow>
     (\<exists>n v. (a = SignExtN n v \<or> a = ZeroExtN n v) \<and> P v \<and> r = v) \<or> rest = Some r"
  by (cases a) (auto split: if_splits)

lemma extract_simplifier_sim:
  assumes rule: "extract_simplifier k high low a = Some r" and wf: "wf_bv (ExtractN high low a)"
    and ok: "reverse_of_concat (extract_head k a) = None"
  shows "sim r (ExtractN high low a)"
proof -
  have wfs: "wf_bv a" "low \<le> high" "high < len a" using wf by simp_all
  consider "high - low + 1 = len a" "r = a"
    | n v where "a = SignExtN n v \<or> a = ZeroExtN n v" "low = 0" "high + 1 = len v" "r = v"
    | "extract_tail k high low (extract_head k a) = Some r"
  proof (cases "high - low + 1 = len a")
    case False
    then have "(case a of
        SignExtN n v \<Rightarrow> if low = 0 \<and> high + 1 = len v then Some v else extract_tail k high low (extract_head k a)
      | ZeroExtN n v \<Rightarrow> if low = 0 \<and> high + 1 = len v then Some v else extract_tail k high low (extract_head k a)
      | _ \<Rightarrow> extract_tail k high low (extract_head k a)) = Some r"
      using rule unfolding extract_simplifier_def by (simp only: if_False)
    from extension_choice [OF this] that(2,3) show thesis by blast
  next
    case True
    then have "a = r" using rule unfolding extract_simplifier_def by (simp only: if_True simp_thms option.inject)
    with True that(1) show thesis by blast
  qed
  then show ?thesis
  proof cases
    case 1
    then have "low = 0" "high + 1 = len a" using wfs by linarith+
    then show ?thesis using 1 wfs bval_in_width [of a] by (intro simI) auto
  next
    case 2
    have v: "wf_bv v" "0 < len v" using 2(1) wfs(1) by auto
    have "take_bit (len v) (signed_take_bit (len v - 1) u) = take_bit (len v) u" for u :: int
      using v(2) by (simp add: take_bit_signed_take_bit)
    then show ?thesis using 2 v bval_in_width [of v] by (intro simI) (auto simp: ac_simps)
  next
    case 3
    note head = extract_head_sim [OF wfs(1)]
    have "wf_bv (ExtractN high low (extract_head k a))" using head wfs by (simp add: sim_def)
    from extract_tail_sim [OF 3 this ok] show ?thesis by (rule extract_of_sim [OF head])
  qed
qed

lemma ext_simplifier_sim:
  assumes "zeroext_simplifier k n a = Some r \<or> signext_simplifier k n a = Some r" and "wf_bv a" and "0 < len a"
  shows "sim r (ZeroExtN n a) \<and> sim r (SignExtN n a)"
proof -
  have "n = 0" "r = a"
    using assms(1) by (auto simp: zeroext_simplifier_def signext_simplifier_def split: if_splits)
  moreover have "take_bit (len a) (signed_take_bit (len a - 1) u) = take_bit (len a) u" for u :: int
    using assms(3) by (simp add: take_bit_signed_take_bit)
  ultimately show ?thesis using assms bval_in_width [of a] by (auto intro!: simI)
qed

end

end
