(* ===== verification/Simplify_Sound.thy ===== *)
theory Simplify_Sound
  imports Simplify_Extract
begin

text \<open>
  The tables of operations. A simplifier whose nested operations keep the value keeps the value
  itself, except on the shapes of trees that the conditions \<open>mask_rule_ok\<close>, \<open>nop_rule_ok\<close>,
  \<open>shift_sum_ok\<close>, \<open>uop_rule_ok\<close> and \<open>extract_rule_ok\<close> exclude. \<open>checked_at n\<close> is the table of the code at
  depth \<open>n\<close> with the plain node built on those shapes: it satisfies the contract \<open>sound_ctors\<close> at every
  depth, and it is the table that the clients of the operations are interpreted with.
\<close>

section \<open>The excluded shapes\<close>

text \<open>The amounts of two left shifts are added at the width of the value, where the sum can wrap.\<close>

definition shift_sum_ok :: "bop \<Rightarrow> bv \<Rightarrow> bv \<Rightarrow> bool" where
  "shift_sum_ok f a b =
     (case (f, a) of
        (BShl, BOp BShl x y) \<Rightarrow>
          (case (bvv_val y, bvv_val b) of (Some v, Some w) \<Rightarrow> v + w < 2 ^ len a | _ \<Rightarrow> False)
      | _ \<Rightarrow> True)"

definition uop_rule_ok :: "uop \<Rightarrow> bv \<Rightarrow> bool" where
  "uop_rule_ok f a = (f = UInv \<longrightarrow> invert_ok a)"

definition extract_rule_ok :: "ctors \<Rightarrow> bv \<Rightarrow> bool" where
  "extract_rule_ok k a \<longleftrightarrow> reverse_of_concat (extract_head k a) = None"

definition checked_step :: "ctors \<Rightarrow> ctors" where
  "checked_step k = (step k)
     \<lparr>mk_cmp := (\<lambda>f a b. if mask_rule_ok a then mk_cmp (step k) f a b else nodeb (Cmp f a b)),
      mk_nop := (\<lambda>f as. if nop_rule_ok f as then mk_nop (step k) f as else node (NOp f as)),
      mk_bop := (\<lambda>f a b. if shift_sum_ok f a b then mk_bop (step k) f a b else node (BOp f a b)),
      mk_uop := (\<lambda>f a. if uop_rule_ok f a then mk_uop (step k) f a else node (UOp f a)),
      mk_extract := (\<lambda>h l a. if extract_rule_ok k a then mk_extract (step k) h l a else node (ExtractN h l a))\<rparr>"

primrec checked_at :: "nat \<Rightarrow> ctors" where
  "checked_at 0 = plain_ctors"
| "checked_at (Suc n) = checked_step (checked_at n)"

section \<open>Plain nodes\<close>

lemma op_bv_sim: "(\<And>r. m = Some r \<Longrightarrow> sim r a) \<Longrightarrow> (m = None \<Longrightarrow> wf_bv a) \<Longrightarrow> sim (op_bv a m) a"
  using node_wf by (cases m) (auto simp: op_bv_def)

lemma op_bl_simb: "(\<And>r. m = Some r \<Longrightarrow> simb r p) \<Longrightarrow> (m = None \<Longrightarrow> wf_bl p) \<Longrightarrow> simb (op_bl p m) p"
  using nodeb_wf by (cases m) (auto simp: op_bl_def)

lemma filter_parts: "list_all wf_bv as \<Longrightarrow> same_parts (filter (\<lambda>a. len a \<noteq> 0) as) as"
proof (induction as)
  case (Cons a as)
  then have IH: "same_parts (filter (\<lambda>a. len a \<noteq> 0) as) as" by simp
  show ?case
  proof (cases "len a = 0")
    case True
    have "same_parts (filter (\<lambda>a. len a \<noteq> 0) as) (a # as)"
      using IH True cat_empty_part [of a] Cons.prems by (simp add: same_parts_def o_def)
    with True show ?thesis by simp
  qed (use IH Cons.prems same_parts_Cons in simp)
qed (simp add: same_parts_def)

lemma plain_concat_sim: "list_all wf_bv as \<Longrightarrow> sim (plain_concat as) (ConcatN as)"
proof -
  assume "list_all wf_bv as"
  define bs where "bs = filter (\<lambda>a. len a \<noteq> 0) as"
  have bs: "same_parts bs as" "list_all (\<lambda>a. 0 < len a) bs"
    using filter_parts [OF \<open>list_all wf_bv as\<close>] by (auto simp: bs_def list_all_iff)
  show ?thesis
  proof (cases "length bs \<le> 1")
    case True
    then consider "bs = []" | b where "bs = [b]" by (cases bs) auto
    then show ?thesis
      using bs unfolding plain_concat_def bs_def [symmetric] by cases (auto simp: sim_def same_parts_def)
  next
    case False
    then have "plain_concat as = node (ConcatN bs)"
      unfolding plain_concat_def bs_def [symmetric] by (auto split: list.splits)
    moreover have "sim (node (ConcatN bs)) (ConcatN bs)"
      using False bs by (intro node_wf) (simp add: same_parts_def)
    ultimately show ?thesis using bs by (simp add: sim_def same_parts_def)
  qed
qed

lemma plain_ext_sim:
  assumes "wf_bv a" and "0 < len a"
  shows "sim (if n = 0 then a else node (ZeroExtN n a)) (ZeroExtN n a)"
    and "sim (if n = 0 then a else node (SignExtN n a)) (SignExtN n a)"
proof -
  have "take_bit (len a) (signed_take_bit (len a - 1) u) = take_bit (len a) u" for u :: int
    using assms(2) by (simp add: take_bit_signed_take_bit)
  then have "sim a (ZeroExtN 0 a)" "sim a (SignExtN 0 a)"
    using assms bval_in_width [OF assms(1)] by (auto intro!: simI)
  moreover have "sim (node (ZeroExtN n a)) (ZeroExtN n a)" "sim (node (SignExtN n a)) (SignExtN n a)" if "n \<noteq> 0"
    using assms that by (auto intro!: node_wf)
  ultimately show "sim (if n = 0 then a else node (ZeroExtN n a)) (ZeroExtN n a)"
    and "sim (if n = 0 then a else node (SignExtN n a)) (SignExtN n a)" by auto
qed

lemma bool_list_cases: "ps \<noteq> [] \<Longrightarrow> (\<exists>p. ps = [p]) \<or> 2 \<le> length ps"
  by (cases ps rule: two.cases) auto

lemma plain_and_simb:
  assumes "ps \<noteq> []" and "list_all wf_bl ps"
  shows "simb (case ps of [p] \<Rightarrow> p | _ \<Rightarrow> nodeb (AndN ps)) (AndN ps)"
    and "simb (case ps of [p] \<Rightarrow> p | _ \<Rightarrow> nodeb (OrN ps)) (OrN ps)"
proof -
  from bool_list_cases [OF assms(1)] consider p where "ps = [p]" | p q qs where "ps = p # q # qs"
    by (cases ps rule: two.cases) auto
  then show "simb (case ps of [p] \<Rightarrow> p | _ \<Rightarrow> nodeb (AndN ps)) (AndN ps)"
    and "simb (case ps of [p] \<Rightarrow> p | _ \<Rightarrow> nodeb (OrN ps)) (OrN ps)"
    using assms nodeb_wf [of "AndN ps"] nodeb_wf [of "OrN ps"] by (cases; simp add: simb_def)+
qed

lemma sound_plain: "sound_ctors plain_ctors"
proof
  show "simb (mk_not plain_ctors p) (NotN p)" if "wf_bl p" for p
    using nodeb_wf [of "NotN p"] that by (simp add: plain_ctors_def)
  show "simb (mk_beq plain_ctors p q) (BoolEq p q)" "simb (mk_bne plain_ctors p q) (BoolNe p q)"
    if "wf_bl p" "wf_bl q" for p q
    using nodeb_wf [of "BoolEq p q"] nodeb_wf [of "BoolNe p q"] that by (simp_all add: plain_ctors_def)
qed (simp_all add: plain_ctors_def node_wf nodeb_wf plain_concat_sim plain_ext_sim plain_and_simb
    del: wf_bv.simps wf_bl.simps)

section \<open>One level of the recursion\<close>

context sound_ctors
begin

lemma shift_ok_value:
  assumes "shift_sum_ok BShl (BOp BShl x y) b" and "wf_bv (BOp BShl (BOp BShl x y) b)"
  shows "bval e y + bval e b < 2 ^ len (BOp BShl x y)"
  using assms by (auto simp: shift_sum_ok_def split: option.splits dest!: bvv_val_Some)

lemma simplify_bop_sim:
  assumes "simplify_bop k f a b = Some r" and "wf_bv (BOp f a b)" and "shift_sum_ok f a b"
  shows "sim r (BOp f a b)"
proof (cases f)
  case BShl
  show ?thesis unfolding BShl
    by (rule lshift_simplifier_sim)
      (use assms BShl shift_ok_value in \<open>auto simp: simplify_bop_def simp del: wf_bv.simps bval.simps len.simps\<close>)
qed (use assms bitwise_sub_simplifier_sim rshift_simplifier_sim lshr_simplifier_sim in
    \<open>simp_all add: simplify_bop_def del: wf_bv.simps\<close>)

lemma simplify_uop_sim:
  assumes "simplify_uop k f a = Inr (Some r)" and "wf_bv (UOp f a)" and "uop_rule_ok f a"
  shows "sim r (UOp f a)"
  using assms invert_simplifier_sim bv_reverse_simplifier_sim
  by (cases f) (simp_all add: simplify_uop_def uop_rule_ok_def del: wf_bv.simps)

lemma returned_Some: "returned m = Some r \<longleftrightarrow> m = Inr (Some r)"
  by (auto simp: returned_def split: sum.splits)

lemma bool_single: "boolean_and_simplifier k [p] \<noteq> None \<and> boolean_or_simplifier k [p] \<noteq> None"
  by (auto simp: boolean_and_simplifier_def boolean_or_simplifier_def Let_def)

lemma checked_step_sound: "sound_ctors (checked_step k)"
proof
  fix f a b
  assume wf: "wf_bl (Cmp f a b)"
  then show "simb (mk_cmp (checked_step k) f a b) (Cmp f a b)"
    using nodeb_wf [OF wf] simplify_cmp_simb [of f a b]
    by (auto simp: checked_step_def step_def intro!: op_bl_simb simp del: wf_bl.simps)
next
  fix p q
  assume "wf_bl p" "wf_bl q"
  then show "simb (mk_beq (checked_step k) p q) (BoolEq p q)" "simb (mk_bne (checked_step k) p q) (BoolNe p q)"
    using beq_simplifier_simb bne_simplifier_simb
    by (auto simp: checked_step_def step_def intro!: op_bl_simb)
next
  fix g as
  assume wf: "wf_bv (NOp g as)"
  then show "sim (mk_nop (checked_step k) g as) (NOp g as)"
    using node_wf [OF wf] simplify_nop_sim [of g as]
    by (auto simp: checked_step_def step_def intro!: op_bv_sim simp del: wf_bv.simps)
next
  fix h a b
  assume wf: "wf_bv (BOp h a b)"
  then show "sim (mk_bop (checked_step k) h a b) (BOp h a b)"
    using node_wf [OF wf] simplify_bop_sim [of h a b]
    by (auto simp: checked_step_def step_def intro!: op_bv_sim simp del: wf_bv.simps)
next
  fix u a
  assume wf: "wf_bv (UOp u a)"
  then show "sim (mk_uop (checked_step k) u a) (UOp u a)"
    using node_wf [OF wf] simplify_uop_sim [of u a]
    by (auto simp: checked_step_def step_def returned_Some intro!: op_bv_sim simp del: wf_bv.simps)
next
  fix as
  assume "list_all wf_bv as"
  then show "sim (mk_concat (checked_step k) as) (ConcatN as)"
    using concat_op_sim by (simp add: checked_step_def step_def)
next
  fix hi lo a
  assume wf: "wf_bv (ExtractN hi lo a)"
  then show "sim (mk_extract (checked_step k) hi lo a) (ExtractN hi lo a)"
    using node_wf [OF wf] extract_simplifier_sim [of hi lo a]
    by (auto simp: checked_step_def step_def extract_rule_ok_def intro!: op_bv_sim simp del: wf_bv.simps)
next
  fix n a
  assume "wf_bv a" "0 < len a"
  then show "sim (mk_zext (checked_step k) n a) (ZeroExtN n a)" "sim (mk_sext (checked_step k) n a) (SignExtN n a)"
    using ext_simplifier_sim [of n a]
    by (auto simp: checked_step_def step_def zeroext_simplifier_def signext_simplifier_def intro!: op_bv_sim
        split: if_splits)
next
  fix p a b
  assume "wf_bv (IfBV p a b)"
  then show "sim (mk_if (checked_step k) p a b) (IfBV p a b)"
    using If_bv_op_sim by (simp add: checked_step_def step_def)
next
  fix p q r
  assume "wf_bl (IfBool p q r)"
  then show "simb (mk_ifb (checked_step k) p q r) (IfBool p q r)"
    using If_bool_op_simb by (simp add: checked_step_def step_def)
next
  fix ps
  assume ps: "ps \<noteq> []" "list_all wf_bl ps"
  have "2 \<le> length ps" if "boolean_and_simplifier k ps = None \<or> boolean_or_simplifier k ps = None"
    using bool_list_cases [OF ps(1)] bool_single that by metis
  then show "simb (mk_and (checked_step k) ps) (AndN ps)" "simb (mk_or (checked_step k) ps) (OrN ps)"
    using boolean_and_simplifier_simb [of ps] boolean_or_simplifier_simb [of ps] ps
    by (auto simp: checked_step_def step_def intro!: op_bl_simb)
next
  fix p
  assume "wf_bl p"
  then show "simb (mk_not (checked_step k) p) (NotN p)"
    using boolean_not_simplifier_simb by (auto simp: checked_step_def step_def intro!: op_bl_simb)
qed

end

lemma sound_checked_at: "sound_ctors (checked_at n)"
proof (induction n)
  case (Suc n)
  then show ?case using sound_ctors.checked_step_sound [OF Suc] by simp
qed (simp add: sound_plain)

interpretation checked: sound_ctors "checked_at n" for n
  by (rule sound_checked_at)

section \<open>Properties\<close>



text \<open>An instance of each condition that fails, with the value that the code gives.\<close>

definition ex_env :: env where
  "ex_env = Env (\<lambda>x n. if x = ''x'' then 1 else if x = ''q'' then 1 else if x = ''r'' then 255
                        else if x = ''y'' then 2 ^ 32 else 128) (\<lambda>_. True)"

definition ex_minmax :: "bv list" where
  "ex_minmax =
     (let q = BVS ''q'' 8; r = BVS ''r'' 8; s = BOp BSub q r; t = NOp NXor [q, r];
          w = NOp NXor [NOp NAnd [NOp NXor [s, q, BVS ''z'' 8], t], s]
      in [q, NOp NAnd [BOp BSar w (BVVal 7 8), t]])"

definition ex_rotate :: "bv list" where
  "ex_rotate =
     [NOp NOr [BOp BShl (BVS ''y'' 64) (BVVal 16 64), BOp BLshr (BVS ''y'' 64) (BVVal 16 64)], BVVal 0xFFFF0000 64]"

lemma ex_rotate_result:
  "mk_nop (ctors_at 1) NAnd ex_rotate =
     NOp NOr [BOp BShl (NOp NAnd [BVS ''y'' 64, BVVal 0xFFFF 64]) (BVVal 16 64),
              BOp BSar (NOp NAnd [BVS ''y'' 64, BVVal 0xFFFF 64]) (BVVal 16 64)]"
proof -
  have "rotate_match (ex_rotate ! 0) (ex_rotate ! 1) = Some (BVS ''y'' 64, 16, 16, 0xFFFF)"
    by (simp add: ex_rotate_def rotate_match_def take_bit_eq_mod push_bit_eq_mult drop_bit_eq_div)
  then show ?thesis
    by (simp add: ex_rotate_def step_def op_bv_def simplify_nop_def bitwise_and_simplifier_def orelse_def
        rotate_shift_mask_simplifier_def plain_ctors_def node_def bvv_like_def Let_def take_bit_eq_mod)
qed

lemma ex_minmax_result:
  "mk_nop (ctors_at 2) NXor ex_minmax =
     IfBV (Cmp CSLE (BVS ''q'' 8) (BVS ''r'' 8)) (BVS ''r'' 8) (BVS ''q'' 8)"
  by code_simp

lemma ex_shift_result:
  "mk_bop (ctors_at 2) BShl (BOp BShl (BVS ''x'' 8) (BVVal 200 8)) (BVVal 56 8) = BVS ''x'' 8"
  by code_simp

lemma ex_mask_result:
  "mk_cmp (ctors_at 2) CEq (NOp NXor [NOp NAnd [BVS ''x'' 8, BVVal 3 8], BVVal 3 8]) (BVVal 0 8) =
     Cmp CNe (NOp NAnd [BVS ''x'' 8, BVVal 3 8]) (BVVal 0 8)"
  by code_simp

lemma ex_invert_result:
  "mk_uop (ctors_at 2) UInv (IfBV (BoolS ''c'') (BVVal 1 8) (BVVal 0 8)) =
     IfBV (NotN (BoolS ''c'')) (BVVal 1 8) (BVVal 0 8)"
  by code_simp


text \<open>
  Inverting a conditional whose first value is the constant 1 raises \<open>ClaripyOperationError\<close> when the
  second value is an operation on trees: \<open>invert_simplifier\<close> uses the comparison of its first argument with
  zero as a condition.
\<close>

lemma invert_raises:
  "simplify_uop k UInv (IfBV c (BVVal 1 n) (NOp g (y # ys))) = Inl ClaripyOperationError
   \<and> simplify_uop k UInv (IfBV c (BVVal 1 n) (BOp h y z)) = Inl ClaripyOperationError
   \<and> simplify_uop k UInv (IfBV c (BVVal 1 n) (UOp u y)) = Inl ClaripyOperationError
   \<and> simplify_uop k UInv (IfBV c (BVVal 1 n) (ConcatN (y # ys))) = Inl ClaripyOperationError"
  by (simp add: simplify_uop_def invert_simplifier_def bvv_is_def)

text \<open>
  C19. \<open>is_true\<close> and \<open>is_false\<close> are exact on trees without symbols and never answer on others: a condition is
  reported true, or false, exactly when it has no symbols and is true, or false.
\<close>

theorem bool_checks_exact:
  assumes "wf_bl p"
  shows "(is_true p \<longleftrightarrow> \<not> symbolicb p \<and> holds e p) \<and> (is_false p \<longleftrightarrow> \<not> symbolicb p \<and> \<not> holds e p)"
  using convert_value_bl [OF assms, of e] symbolicb_convert [of p]
  by (cases "symbolicb p") (auto simp: is_true_def is_false_def)

theorem bool_checks_exact_witness:
  "is_true (Cmp CULT (BVVal 3 8) (BVVal 4 8)) \<and> \<not> is_true (Cmp CEq (BVS ''x'' 8) (BVS ''x'' 8))"
  using bool_checks_exact [of "Cmp CULT (BVVal 3 8) (BVVal 4 8)" ex_env]
    bool_checks_exact [of "Cmp CEq (BVS ''x'' 8) (BVS ''x'' 8)" ex_env] by simp

end
