(* ===== verification/Tree_Algorithms.thy ===== *)
theory Tree_Algorithms
  imports Simplify_Sound
begin

text \<open>
  The algorithms on trees of \<open>claripy/algorithm/\<close>: \<open>excavate_ite\<close>, which moves conditionals to the root,
  \<open>burrow_ite\<close>, which moves them to the leaves (\<open>ite_relocation.py\<close>), and the replacement of subtrees
  (\<open>replace.py\<close>). They are clients of the operations: what is shown of them is shown inside the locale
  \<open>sound_ctors\<close>, for each table that keeps the values. The queues of the code hold the arguments that are
  still to be visited and the results for the arguments already visited, so that a loop is a
  recursion over the tree, arguments from left to right. The caches of the first two
  only hold results of earlier calls.
\<close>

section \<open>Excavation\<close>

text \<open>
  The two lists of arguments under the condition and under its negation: an argument that is no
  conditional is in both, one with the condition or its negation is split, any other one makes
  the excavation give up. \<open>if_of\<close> gives the arguments of a conditional, \<open>neg\<close> is \<open>~cond\<close>.
\<close>

fun split_ifs :: "('a \<Rightarrow> (bl \<times> 'a \<times> 'a) option) \<Rightarrow> bl \<Rightarrow> bl \<Rightarrow> 'a list \<Rightarrow> ('a list \<times> 'a list) option" where
  "split_ifs if_of cond neg [] = Some ([], [])"
| "split_ifs if_of cond neg (a # as) =
     (case (case if_of a of
              None \<Rightarrow> Some (a, a)
            | Some (c, x, y) \<Rightarrow> if c = cond then Some (x, y) else if c = neg then Some (y, x) else None) of
        None \<Rightarrow> None
      | Some (t, f) \<Rightarrow> map_option (\<lambda>(ts, fs). (t # ts, f # fs)) (split_ifs if_of cond neg as))"

text \<open>\<open>ite_args.index(True)\<close> and the condition of that argument.\<close>

fun first_cond :: "('a \<Rightarrow> (bl \<times> 'a \<times> 'a) option) \<Rightarrow> 'a list \<Rightarrow> bl option" where
  "first_cond if_of [] = None"
| "first_cond if_of (a # as) = (case if_of a of Some (c, x, y) \<Rightarrow> Some c | None \<Rightarrow> first_cond if_of as)"

text \<open>
  The treatment of one operation, once its arguments are excavated; \<open>like\<close> is \<open>make_like\<close> of the operation
  with \<open>simplify=True\<close>, \<open>mkif\<close> is \<open>If\<close>.
\<close>

definition pull_ifs ::
  "ctors \<Rightarrow> ('a \<Rightarrow> (bl \<times> 'a \<times> 'a) option) \<Rightarrow> (bl \<Rightarrow> 'r \<Rightarrow> 'r \<Rightarrow> 'r) \<Rightarrow> ('a list \<Rightarrow> 'r) \<Rightarrow> 'a list \<Rightarrow> 'r" where
  "pull_ifs k if_of mkif like args =
     (case first_cond if_of args of
        None \<Rightarrow> like args
      | Some cond \<Rightarrow>
          (case split_ifs if_of cond (mk_not k cond) args of
             None \<Rightarrow> like args
           | Some (ts, fs) \<Rightarrow> mkif cond (like ts) (like fs)))"

fun excavate_bv :: "ctors \<Rightarrow> bv \<Rightarrow> bv" and excavate_bl :: "ctors \<Rightarrow> bl \<Rightarrow> bl" where
  "excavate_bv k (BVS x n) = BVS x n"
| "excavate_bv k (BVVal v n) = BVVal v n"
| "excavate_bv k (NOp f as) = pull_ifs k if_args (mk_if k) (mk_nop k f) (map (excavate_bv k) as)"
| "excavate_bv k (BOp f a b) =
     pull_ifs k if_args (mk_if k) (\<lambda>xs. mk_bop k f (xs ! 0) (xs ! 1)) [excavate_bv k a, excavate_bv k b]"
| "excavate_bv k (UOp f a) = pull_ifs k if_args (mk_if k) (\<lambda>xs. mk_uop k f (xs ! 0)) [excavate_bv k a]"
| "excavate_bv k (ConcatN as) = pull_ifs k if_args (mk_if k) (mk_concat k) (map (excavate_bv k) as)"
| "excavate_bv k (ExtractN h l a) = pull_ifs k if_args (mk_if k) (\<lambda>xs. mk_extract k h l (xs ! 0)) [excavate_bv k a]"
| "excavate_bv k (ZeroExtN n a) = pull_ifs k if_args (mk_if k) (\<lambda>xs. mk_zext k n (xs ! 0)) [excavate_bv k a]"
| "excavate_bv k (SignExtN n a) = pull_ifs k if_args (mk_if k) (\<lambda>xs. mk_sext k n (xs ! 0)) [excavate_bv k a]"
| "excavate_bv k (IfBV c a b) = mk_if k (excavate_bl k c) (excavate_bv k a) (excavate_bv k b)"
| "excavate_bl k (BoolS x) = BoolS x"
| "excavate_bl k (BoolVal v) = BoolVal v"
| "excavate_bl k (Cmp f a b) =
     pull_ifs k if_args (mk_ifb k) (\<lambda>xs. mk_cmp k f (xs ! 0) (xs ! 1)) [excavate_bv k a, excavate_bv k b]"
| "excavate_bl k (BoolEq p q) =
     pull_ifs k if_bool_args (mk_ifb k) (\<lambda>xs. mk_beq k (xs ! 0) (xs ! 1)) [excavate_bl k p, excavate_bl k q]"
| "excavate_bl k (BoolNe p q) =
     pull_ifs k if_bool_args (mk_ifb k) (\<lambda>xs. mk_bne k (xs ! 0) (xs ! 1)) [excavate_bl k p, excavate_bl k q]"
| "excavate_bl k (AndN ps) = pull_ifs k if_bool_args (mk_ifb k) (mk_and k) (map (excavate_bl k) ps)"
| "excavate_bl k (OrN ps) = pull_ifs k if_bool_args (mk_ifb k) (mk_or k) (map (excavate_bl k) ps)"
| "excavate_bl k (NotN p) = pull_ifs k if_bool_args (mk_ifb k) (\<lambda>xs. mk_not k (xs ! 0)) [excavate_bl k p]"
| "excavate_bl k (IfBool c p q) = mk_ifb k (excavate_bl k c) (excavate_bl k p) (excavate_bl k q)"

text \<open>What the two lists stand for: under each assignment one of them has the values of the arguments.\<close>

lemma split_ifs_bv:
  assumes "split_ifs if_args cond neg as = Some (ts, fs)" and "list_all (\<lambda>a. wf_bv a \<and> 0 < len a) as"
    and "wf_bl cond" and "\<And>e. holds e neg = (\<not> holds e cond)"
  shows "list_all (\<lambda>a. wf_bv a \<and> 0 < len a) ts \<and> list_all (\<lambda>a. wf_bv a \<and> 0 < len a) fs
     \<and> map len ts = map len as \<and> map len fs = map len as
     \<and> (\<forall>e. map (bval e) as = (if holds e cond then map (bval e) ts else map (bval e) fs))"
  using assms(1,2)
proof (induction as arbitrary: ts fs)
  case (Cons a as)
  obtain t f ts' fs' where tf: "ts = t # ts'" "fs = f # fs'" and rest: "split_ifs if_args cond neg as = Some (ts', fs')"
    and a: "(case if_args a of None \<Rightarrow> Some (a, a)
            | Some (c, x, y) \<Rightarrow> if c = cond then Some (x, y) else if c = neg then Some (y, x) else None) = Some (t, f)"
    using Cons.prems(1) by (auto split: option.splits)
  have wf: "wf_bv a" "0 < len a" using Cons.prems by simp_all
  have "wf_bv t \<and> wf_bv f \<and> len t = len a \<and> len f = len a \<and> (\<forall>e. bval e a = (if holds e cond then bval e t else bval e f))"
  proof (cases "if_args a")
    case (Some cxy)
    then obtain c x y where "a = IfBV c x y" by (cases cxy) (auto simp: if_args_Some)
    then show ?thesis using a wf assms(4) by (auto split: if_splits)
  qed (use a wf in auto)
  with Cons.IH [OF rest] Cons.prems wf show ?case by (auto simp: tf)
qed simp

lemma split_ifs_bl:
  assumes "split_ifs if_bool_args cond neg ps = Some (ts, fs)" and "list_all wf_bl ps"
    and "wf_bl cond" and "\<And>e. holds e neg = (\<not> holds e cond)"
  shows "list_all wf_bl ts \<and> list_all wf_bl fs \<and> length ts = length ps \<and> length fs = length ps
     \<and> (\<forall>e. map (holds e) ps = (if holds e cond then map (holds e) ts else map (holds e) fs))"
  using assms(1,2)
proof (induction ps arbitrary: ts fs)
  case (Cons a as)
  obtain t f ts' fs' where tf: "ts = t # ts'" "fs = f # fs'" and rest: "split_ifs if_bool_args cond neg as = Some (ts', fs')"
    and a: "(case if_bool_args a of None \<Rightarrow> Some (a, a)
            | Some (c, x, y) \<Rightarrow> if c = cond then Some (x, y) else if c = neg then Some (y, x) else None) = Some (t, f)"
    using Cons.prems(1) by (auto split: option.splits)
  have wf: "wf_bl a" using Cons.prems by simp
  have "wf_bl t \<and> wf_bl f \<and> (\<forall>e. holds e a = (if holds e cond then holds e t else holds e f))"
  proof (cases "if_bool_args a")
    case (Some cxy)
    then obtain c x y where "a = IfBool c x y" by (cases cxy) (auto simp: if_bool_args_Some)
    then show ?thesis using a wf assms(4) by (auto split: if_splits)
  qed (use a wf in auto)
  with Cons.IH [OF rest] Cons.prems wf show ?case by (auto simp: tf)
qed simp

lemma first_cond_wf: "first_cond if_args as = Some c \<Longrightarrow> list_all wf_bv as \<Longrightarrow> wf_bl c"
  by (induction as) (auto simp: if_args_Some split: option.splits)

lemma first_cond_wfb: "first_cond if_bool_args ps = Some c \<Longrightarrow> list_all wf_bl ps \<Longrightarrow> wf_bl c"
  by (induction ps) (auto simp: if_bool_args_Some split: option.splits)

text \<open>The value of a node depends on the widths and the values of its arguments only.\<close>

definition by_value :: "nat \<Rightarrow> (bv list \<Rightarrow> bv) \<Rightarrow> bool" where
  "by_value m N \<longleftrightarrow> (\<forall>e xs ys. length xs = m \<and> map len xs = map len ys \<longrightarrow>
     len (N xs) = len (N ys) \<and> (map (bval e) xs = map (bval e) ys \<longrightarrow> bval e (N xs) = bval e (N ys)))"

definition good_args :: "bv list \<Rightarrow> bool" where
  "good_args as \<longleftrightarrow> list_all (\<lambda>a. wf_bv a \<and> 0 < len a) as"

lemma parts_zip: "parts e as = zip (map len as) (map (bval e) as)"
  by (induction as) simp_all

lemma by_valueI:
  assumes "\<And>e xs ys. length xs = m \<Longrightarrow> length ys = m \<Longrightarrow> map len xs = map len ys \<Longrightarrow>
      len (N xs) = len (N ys) \<and> (map (bval e) xs = map (bval e) ys \<longrightarrow> bval e (N xs) = bval e (N ys))"
  shows "by_value m N"
  unfolding by_value_def using assms map_eq_imp_length_eq by metis

lemma by_value_lists: "by_value m (NOp f)" "by_value m ConcatN"
proof -
  have len: "len (NOp f xs) = len (NOp f ys)" "len (ConcatN xs) = len (ConcatN ys)"
    if "map len xs = map len ys" for xs ys
    unfolding len.simps that by simp_all
  show "by_value m (NOp f)"
  proof (intro by_valueI conjI impI)
    fix e xs ys
    assume l: "map len xs = map len ys"
    then show "len (NOp f xs) = len (NOp f ys)" by (rule len)
    assume "map (bval e) xs = map (bval e) ys"
    then show "bval e (NOp f xs) = bval e (NOp f ys)" unfolding bval.simps len(1) [OF l] by (simp only:)
  qed
  show "by_value m ConcatN"
  proof (intro by_valueI conjI impI)
    fix e xs ys
    assume l: "map len xs = map len ys"
    then show "len (ConcatN xs) = len (ConcatN ys)" by (rule len)
    assume "map (bval e) xs = map (bval e) ys"
    then show "bval e (ConcatN xs) = bval e (ConcatN ys)" unfolding bval.simps parts_zip l by (simp only:)
  qed
qed

lemma length_one: "length xs = Suc 0 \<Longrightarrow> xs = [xs ! 0]"
  by (cases xs) auto

lemma by_value_single:
  assumes "\<And>e x y. len x = len y \<Longrightarrow> len (N x) = len (N y) \<and> (bval e x = bval e y \<longrightarrow> bval e (N x) = bval e (N y))"
  shows "by_value (Suc 0) (\<lambda>xs. N (xs ! 0))"
proof (rule by_valueI)
  fix e xs ys
  assume "length xs = Suc 0" "length ys = Suc 0" "map len xs = map len ys"
  then obtain x y where "xs = [x]" "ys = [y]" "len x = len y" using length_one by (metis list.map(2) list.inject)
  with assms [of x y e] show "len (N (xs ! 0)) = len (N (ys ! 0))
      \<and> (map (bval e) xs = map (bval e) ys \<longrightarrow> bval e (N (xs ! 0)) = bval e (N (ys ! 0)))" by simp
qed

lemma by_value_pair: "by_value 2 (\<lambda>xs. BOp b (xs ! 0) (xs ! 1))"
proof (rule by_valueI)
  fix e xs ys
  assume "length xs = 2" "length ys = 2" and l: "map len xs = map len ys"
  then obtain x x' y y' where "xs = [x, x']" "ys = [y, y']"
    by (auto simp: length_Suc_conv numeral_2_eq_2)
  with l show "len (BOp b (xs ! 0) (xs ! 1)) = len (BOp b (ys ! 0) (ys ! 1))
      \<and> (map (bval e) xs = map (bval e) ys \<longrightarrow>
           bval e (BOp b (xs ! 0) (xs ! 1)) = bval e (BOp b (ys ! 0) (ys ! 1)))" by simp
qed

lemma wf_NOp_like:
  assumes wf: "wf_bv (NOp f as)" and xs: "good_args xs" "map len xs = map len as"
  shows "wf_bv (NOp f xs)"
proof (rule conjunct1 [OF ok_wf_NOp])
  show "2 \<le> length xs" using map_eq_imp_length_eq [OF xs(2)] wf by simp
  have "len x \<in> set (map len as)" if "x \<in> set xs" for x
    using that xs(2) by (metis image_eqI list.set_map)
  then show "args_ok (len (NOp f as)) xs"
    using xs(1) wf wf_NOp_args [OF wf] by (auto simp: args_ok_def good_args_def list_all_iff simp del: len.simps)
qed

lemma wf_ConcatN_like:
  "wf_bv (ConcatN as) \<Longrightarrow> good_args xs \<Longrightarrow> map len xs = map len as \<Longrightarrow> wf_bv (ConcatN xs)"
  by (auto simp: good_args_def list_all_iff dest: map_eq_imp_length_eq)

context sound_ctors
begin

lemma split_ifs_neg: "wf_bl c \<Longrightarrow> holds e (mk_not k c) = (\<not> holds e c)"
  by simp

lemma pull_ifs_sim:
  assumes args: "good_args as" and N: "by_value (length as) N" "wf_bv (N as)" "0 < len (N as)"
    and like: "\<And>xs. good_args xs \<Longrightarrow> map len xs = map len as \<Longrightarrow> sim (like xs) (N xs)"
  shows "sim (pull_ifs k if_args (mk_if k) like as) (N as)"
proof (cases "first_cond if_args as")
  case None
  then show ?thesis using like [of as] args by (simp add: pull_ifs_def)
next
  case (Some c)
  have c: "wf_bl c" using first_cond_wf [OF Some] args by (auto simp: good_args_def list_all_iff)
  show ?thesis
  proof (cases "split_ifs if_args c (mk_not k c) as")
    case None
    then show ?thesis using Some like [of as] args by (simp add: pull_ifs_def)
  next
    case split: (Some tf)
    obtain ts fs where tf: "tf = (ts, fs)" by (cases tf)
    note s = split_ifs_bv [OF split [unfolded tf] args [unfolded good_args_def] c split_ifs_neg [OF c]]
    have ts: "sim (like ts) (N ts)" "sim (like fs) (N fs)" "length ts = length as" "length fs = length as"
      using s like [of ts] like [of fs] by (auto simp: good_args_def dest: map_eq_imp_length_eq)
    have len: "len (N ts) = len (N as)" "len (N fs) = len (N as)"
      using N(1) s ts(3,4) unfolding by_value_def by blast+
    have "bval e (N as) = (if holds e c then bval e (N ts) else bval e (N fs))" for e
      using N(1) s ts(3,4) unfolding by_value_def by (metis (no_types, lifting))
    moreover have "pull_ifs k if_args (mk_if k) like as = mk_if k c (like ts) (like fs)"
      by (simp add: pull_ifs_def Some split tf)
    ultimately show ?thesis using ts(1,2) c len N(3) by (intro simI) (auto simp: sim_def)
  qed
qed

lemma pull_ifs_cmp_simb:
  assumes args: "good_args [a, b]" "len b = len a"
  shows "simb (pull_ifs k if_args (mk_ifb k) (\<lambda>xs. mk_cmp k f (xs ! 0) (xs ! 1)) [a, b]) (Cmp f a b)"
proof (cases "first_cond if_args [a, b]")
  case None
  then show ?thesis using args by (simp add: pull_ifs_def good_args_def cmp_sim)
next
  case (Some c)
  have c: "wf_bl c" using first_cond_wf [OF Some] args by (auto simp: good_args_def list_all_iff)
  show ?thesis
  proof (cases "split_ifs if_args c (mk_not k c) [a, b]")
    case None
    then show ?thesis using Some args by (simp add: pull_ifs_def good_args_def cmp_sim del: first_cond.simps)
  next
    case split: (Some tf)
    obtain ts fs where tf: "tf = (ts, fs)" by (cases tf)
    note s = split_ifs_bv [OF split [unfolded tf] args(1) [unfolded good_args_def] c split_ifs_neg [OF c]]
    obtain t1 t2 f1 f2 where lists: "ts = [t1, t2]" "fs = [f1, f2]"
      using s by (auto dest!: map_eq_imp_length_eq simp: length_Suc_conv)
    have "pull_ifs k if_args (mk_ifb k) (\<lambda>xs. mk_cmp k f (xs ! 0) (xs ! 1)) [a, b] =
        mk_ifb k c (mk_cmp k f t1 t2) (mk_cmp k f f1 f2)"
      by (simp only: pull_ifs_def Some split tf lists option.case prod.case) simp
    then show ?thesis
      using s lists args c by (intro simbI) (auto simp: good_args_def split: if_splits)
  qed
qed

lemma pull_ifs_simb:
  assumes args: "list_all wf_bl ps"
    and N: "\<And>e xs. length xs = length ps \<Longrightarrow> map (holds e) xs = map (holds e) ps \<Longrightarrow> holds e (N xs) = holds e (N ps)"
    and like: "\<And>xs. list_all wf_bl xs \<Longrightarrow> length xs = length ps \<Longrightarrow> simb (like xs) (N xs)"
  shows "simb (pull_ifs k if_bool_args (mk_ifb k) like ps) (N ps)"
proof (cases "first_cond if_bool_args ps")
  case None
  then show ?thesis using like [of ps] args by (simp add: pull_ifs_def)
next
  case (Some c)
  have c: "wf_bl c" using first_cond_wfb [OF Some] args by blast
  show ?thesis
  proof (cases "split_ifs if_bool_args c (mk_not k c) ps")
    case None
    then show ?thesis using Some like [of ps] args by (simp add: pull_ifs_def)
  next
    case split: (Some tf)
    obtain ts fs where tf: "tf = (ts, fs)" by (cases tf)
    note s = split_ifs_bl [OF split [unfolded tf] args c split_ifs_neg [OF c]]
    have ts: "simb (like ts) (N ts)" "simb (like fs) (N fs)" using s like by auto
    have "holds e (N ps) = (if holds e c then holds e (N ts) else holds e (N fs))" for e
      using N [of ts e] N [of fs e] s by auto
    moreover have "pull_ifs k if_bool_args (mk_ifb k) like ps = mk_ifb k c (like ts) (like fs)"
      by (simp add: pull_ifs_def Some split tf)
    ultimately show ?thesis using ts c by (intro simbI) (auto simp: simb_def)
  qed
qed

lemma excavate_args:
  assumes N: "by_value (length as) N" "wf_bv (N as)" "0 < len (N as)" "good_args as"
    and g: "\<And>a. a \<in> set as \<Longrightarrow> sim (g a) a"
    and wf: "\<And>xs. good_args xs \<Longrightarrow> map len xs = map len as \<Longrightarrow> wf_bv (N xs)"
    and like: "\<And>xs. good_args xs \<Longrightarrow> map len xs = map len as \<Longrightarrow> sim (like xs) (N xs)"
  shows "sim (pull_ifs k if_args (mk_if k) like (map g as)) (N as)"
proof -
  let ?as = "map g as"
  have args: "good_args ?as" "map len ?as = map len as" "\<And>e. map (bval e) ?as = map (bval e) as"
    using g N(4) by (auto simp: good_args_def list_all_iff sim_def)
  have val: "len (N ?as) = len (N as)" "\<And>e. bval e (N ?as) = bval e (N as)"
    using N(1) args(2,3) unfolding by_value_def by (metis length_map)+
  have "sim (pull_ifs k if_args (mk_if k) like ?as) (N ?as)"
  proof (rule pull_ifs_sim [OF args(1)])
    show "wf_bv (N ?as)" using wf args by blast
    show "by_value (length ?as) N" "0 < len (N ?as)" using N val by simp_all
    show "sim (like xs) (N xs)" if "good_args xs" "map len xs = map len ?as" for xs
      using that args(2) like by simp
  qed
  with val show ?thesis by (simp add: sim_def)
qed

lemma excavate_one:
  assumes "by_value (Suc 0) (\<lambda>xs. N (xs ! 0))" and "sim (g a) a" and "wf_bv a" "0 < len a" and "0 < len (N a)"
    and N: "\<And>x. wf_bv x \<Longrightarrow> len x = len a \<Longrightarrow> wf_bv (N x) \<and> sim (like x) (N x)"
  shows "sim (pull_ifs k if_args (mk_if k) (\<lambda>xs. like (xs ! 0)) [g a]) (N a)"
proof -
  have one: "wf_bv (xs ! 0) \<and> len (xs ! 0) = len a" if "good_args xs" "map len xs = map len [a]" for xs
    using that by (cases xs) (auto simp: good_args_def)
  have "sim (pull_ifs k if_args (mk_if k) (\<lambda>xs. like (xs ! 0)) (map g [a])) (N ([a] ! 0))"
    by (rule excavate_args) (use assms one in \<open>auto simp: good_args_def\<close>)
  then show ?thesis by simp
qed

lemma excavate_pair:
  assumes "sim (g a) a" "sim (g b) b" and "wf_bv (BOp f a b)"
  shows "sim (pull_ifs k if_args (mk_if k) (\<lambda>xs. mk_bop k f (xs ! 0) (xs ! 1)) [g a, g b]) (BOp f a b)"
proof -
  have two: "wf_bv (BOp f (xs ! 0) (xs ! 1))" if "good_args xs" "map len xs = map len [a, b]" for xs
    using that assms(3) by (cases xs rule: two.cases) (auto simp: good_args_def)
  have "sim (pull_ifs k if_args (mk_if k) (\<lambda>xs. mk_bop k f (xs ! 0) (xs ! 1)) (map g [a, b]))
      (BOp f ([a, b] ! 0) ([a, b] ! 1))"
    by (rule excavate_args)
      (use assms two bop_sim by_value_pair in \<open>auto simp: good_args_def numeral_2_eq_2 simp del: bval.simps\<close>)
  then show ?thesis by simp
qed

lemma excavate_lists:
  assumes "\<And>a. a \<in> set as \<Longrightarrow> sim (g a) a"
  shows "wf_bv (NOp f as) \<Longrightarrow> sim (pull_ifs k if_args (mk_if k) (mk_nop k f) (map g as)) (NOp f as)"
    and "wf_bv (ConcatN as) \<Longrightarrow> sim (pull_ifs k if_args (mk_if k) (mk_concat k) (map g as)) (ConcatN as)"
proof -
  assume wf: "wf_bv (NOp f as)"
  have good: "good_args as" using wf_NOp_args [OF wf] unfolding good_args_def list_all_iff by blast
  note wf' = wf_NOp_like [OF wf]
  show "sim (pull_ifs k if_args (mk_if k) (mk_nop k f) (map g as)) (NOp f as)"
    by (rule excavate_args) (use wf wf' good assms nop_sim by_value_lists in \<open>auto simp del: bval.simps len.simps\<close>)
next
  assume wf: "wf_bv (ConcatN as)"
  note wf' = wf_ConcatN_like [OF wf]
  show "sim (pull_ifs k if_args (mk_if k) (mk_concat k) (map g as)) (ConcatN as)"
  proof (rule excavate_args)
    show "0 < len (ConcatN as)" using wf by (cases as) auto
    show "good_args as" using wf by (simp add: good_args_def list_all_iff)
    show "sim (mk_concat k xs) (ConcatN xs)" if "good_args xs" for xs
      using that by (intro concat_sim) (simp add: good_args_def list_all_iff)
  qed (fact wf wf' assms by_value_lists)+
qed

lemma excavate_bools:
  assumes "\<And>p. p \<in> set ps \<Longrightarrow> simb (g p) p" and "\<And>xs. list_all wf_bl xs \<Longrightarrow> length xs = length ps \<Longrightarrow> simb (like xs) (N xs)"
    and "\<And>e xs ys. length xs = length ps \<Longrightarrow> map (holds e) xs = map (holds e) ys \<Longrightarrow> holds e (N xs) = holds e (N ys)"
  shows "simb (pull_ifs k if_bool_args (mk_ifb k) like (map g ps)) (N ps)"
proof -
  have "simb (pull_ifs k if_bool_args (mk_ifb k) like (map g ps)) (N (map g ps))"
  proof (rule pull_ifs_simb)
    show "list_all wf_bl (map g ps)" using assms(1) by (simp add: list_all_iff simb_def)
    show "simb (like xs) (N xs)" if "list_all wf_bl xs" "length xs = length (map g ps)" for xs
      using assms(2) that by simp
    show "holds e (N xs) = holds e (N (map g ps))"
      if "length xs = length (map g ps)" "map (holds e) xs = map (holds e) (map g ps)" for e xs
      using assms(3) that length_map by metis
  qed
  moreover have "map (holds e) (map g ps) = map (holds e) ps" for e using assms(1) by (simp add: simb_def)
  then have "holds e (N (map g ps)) = holds e (N ps)" for e using assms(3) [of "map g ps" e ps] by simp
  ultimately show ?thesis by (simp add: simb_def)
qed

lemma excavate_connectives:
  assumes "\<And>p. p \<in> set ps \<Longrightarrow> simb (g p) p" and "2 \<le> length ps"
  shows "simb (pull_ifs k if_bool_args (mk_ifb k) (mk_and k) (map g ps)) (AndN ps)"
    and "simb (pull_ifs k if_bool_args (mk_ifb k) (mk_or k) (map g ps)) (OrN ps)"
proof -
  have all: "list_all (holds e) xs = list_all (\<lambda>v. v) (map (holds e) xs)"
    "list_ex (holds e) xs = list_ex (\<lambda>v. v) (map (holds e) xs)" for e xs
    by (induction xs) auto
  have ne: "xs \<noteq> []" if "length xs = length ps" for xs :: "bl list" using that assms(2) by auto
  show "simb (pull_ifs k if_bool_args (mk_ifb k) (mk_and k) (map g ps)) (AndN ps)"
    by (rule excavate_bools) (use assms ne and_sim in \<open>simp_all add: all del: map_eq_conv\<close>)
  show "simb (pull_ifs k if_bool_args (mk_ifb k) (mk_or k) (map g ps)) (OrN ps)"
    by (rule excavate_bools) (use assms ne or_sim in \<open>simp_all add: all del: map_eq_conv\<close>)
qed

lemma excavate_bool_pair:
  assumes "simb (g p) p" "simb (g q) q"
  shows "simb (pull_ifs k if_bool_args (mk_ifb k) (\<lambda>xs. mk_beq k (xs ! 0) (xs ! 1)) [g p, g q]) (BoolEq p q)"
    and "simb (pull_ifs k if_bool_args (mk_ifb k) (\<lambda>xs. mk_bne k (xs ! 0) (xs ! 1)) [g p, g q]) (BoolNe p q)"
    and "simb (pull_ifs k if_bool_args (mk_ifb k) (\<lambda>xs. mk_not k (xs ! 0)) [g p]) (NotN p)"
proof -
  have "simb (pull_ifs k if_bool_args (mk_ifb k) (\<lambda>xs. mk_beq k (xs ! 0) (xs ! 1)) (map g [p, q]))
      (BoolEq ([p, q] ! 0) ([p, q] ! 1))"
    by (rule excavate_bools) (use assms beq_sim in \<open>auto simp: length_Suc_conv\<close>)
  moreover have "simb (pull_ifs k if_bool_args (mk_ifb k) (\<lambda>xs. mk_bne k (xs ! 0) (xs ! 1)) (map g [p, q]))
      (BoolNe ([p, q] ! 0) ([p, q] ! 1))"
    by (rule excavate_bools) (use assms bne_sim in \<open>auto simp: length_Suc_conv\<close>)
  moreover have "simb (pull_ifs k if_bool_args (mk_ifb k) (\<lambda>xs. mk_not k (xs ! 0)) (map g [p])) (NotN ([p] ! 0))"
    by (rule excavate_bools) (use assms not_sim in \<open>auto simp: length_Suc_conv\<close>)
  ultimately show "simb (pull_ifs k if_bool_args (mk_ifb k) (\<lambda>xs. mk_beq k (xs ! 0) (xs ! 1)) [g p, g q]) (BoolEq p q)"
    and "simb (pull_ifs k if_bool_args (mk_ifb k) (\<lambda>xs. mk_bne k (xs ! 0) (xs ! 1)) [g p, g q]) (BoolNe p q)"
    and "simb (pull_ifs k if_bool_args (mk_ifb k) (\<lambda>xs. mk_not k (xs ! 0)) [g p]) (NotN p)"
    by simp_all
qed

lemma excavate_sim:
  "wf_bv a \<Longrightarrow> sim (excavate_bv k a) a" and excavate_simb: "wf_bl p \<Longrightarrow> simb (excavate_bl k p) p"
proof (induction a and p rule: wf_bv_wf_bl.induct)
  case (3 f as)
  then have "sim (excavate_bv k a) a" if "a \<in> set as" for a using that by (auto simp: list_all_iff)
  then show ?case unfolding excavate_bv.simps using 3 by (intro excavate_lists)
next
  case (6 as)
  then have "sim (excavate_bv k a) a" if "a \<in> set as" for a using that by (auto simp: list_all_iff)
  then show ?case unfolding excavate_bv.simps using 6 by (intro excavate_lists)
next
  case (4 f a b)
  then show ?case unfolding excavate_bv.simps by (intro excavate_pair) auto
next
  case (5 f a)
  then show ?case unfolding excavate_bv.simps
    by (intro excavate_one by_value_single) (auto intro!: uop_sim)
next
  case (7 h l a)
  then show ?case unfolding excavate_bv.simps
    by (intro excavate_one by_value_single) (auto intro!: extract_sim)
next
  case (8 n a)
  then show ?case unfolding excavate_bv.simps
    by (intro excavate_one by_value_single) (auto intro!: zext_sim)
next
  case (9 n a)
  then show ?case unfolding excavate_bv.simps
    by (intro excavate_one by_value_single) (auto intro!: sext_sim)
next
  case (10 c a b)
  then have s: "simb (excavate_bl k c) c" "sim (excavate_bv k a) a" "sim (excavate_bv k b) b" by auto
  then show ?case using 10 by (intro simI) (simp_all add: sim_def simb_def)
next
  case (13 f a b)
  then have s: "sim (excavate_bv k a) a" "sim (excavate_bv k b) b" by auto
  with 13 have "simb (excavate_bl k (Cmp f a b)) (Cmp f (excavate_bv k a) (excavate_bv k b))"
    unfolding excavate_bl.simps by (intro pull_ifs_cmp_simb) (auto simp: good_args_def sim_def)
  with s show ?case by (simp add: simb_def sim_def del: excavate_bl.simps)
next
  case (16 ps)
  then have "simb (excavate_bl k p) p" if "p \<in> set ps" for p using that by (auto simp: list_all_iff)
  then show ?case unfolding excavate_bl.simps using 16 by (intro excavate_connectives) auto
next
  case (17 ps)
  then have "simb (excavate_bl k p) p" if "p \<in> set ps" for p using that by (auto simp: list_all_iff)
  then show ?case unfolding excavate_bl.simps using 17 by (intro excavate_connectives) auto
next
  case (19 c p q)
  then have "simb (excavate_bl k c) c" "simb (excavate_bl k p) p" "simb (excavate_bl k q) q" by auto
  then show ?case by (intro simbI) (simp_all add: simb_def)
next
  case (14 p q)
  then show ?case unfolding excavate_bl.simps by (intro excavate_bool_pair) auto
next
  case (15 p q)
  then show ?case unfolding excavate_bl.simps by (intro excavate_bool_pair) auto
qed (auto simp: sim_refl simb_refl excavate_bool_pair)

end

section \<open>Replacement\<close>

text \<open>The attribute \<open>variables\<close>.\<close>

fun variables_bv :: "bv \<Rightarrow> string set" and variables_bl :: "bl \<Rightarrow> string set" where
  "variables_bv (BVS x n) = {x}"
| "variables_bv (BVVal v n) = {}"
| "variables_bv (NOp f as) = \<Union> (set (map variables_bv as))"
| "variables_bv (BOp f a b) = variables_bv a \<union> variables_bv b"
| "variables_bv (UOp f a) = variables_bv a"
| "variables_bv (ConcatN as) = \<Union> (set (map variables_bv as))"
| "variables_bv (ExtractN h l a) = variables_bv a"
| "variables_bv (ZeroExtN n a) = variables_bv a"
| "variables_bv (SignExtN n a) = variables_bv a"
| "variables_bv (IfBV c a b) = variables_bl c \<union> variables_bv a \<union> variables_bv b"
| "variables_bl (BoolS x) = {x}"
| "variables_bl (BoolVal v) = {}"
| "variables_bl (Cmp f a b) = variables_bv a \<union> variables_bv b"
| "variables_bl (BoolEq p q) = variables_bl p \<union> variables_bl q"
| "variables_bl (BoolNe p q) = variables_bl p \<union> variables_bl q"
| "variables_bl (AndN ps) = \<Union> (set (map variables_bl ps))"
| "variables_bl (OrN ps) = \<Union> (set (map variables_bl ps))"
| "variables_bl (NotN p) = variables_bl p"
| "variables_bl (IfBool c p q) = variables_bl c \<union> variables_bl p \<union> variables_bl q"

text \<open>
  The dictionary of replacements, by the sort of the tree, which the algorithm extends as it goes. A tree
  is found by its hash; the model looks up the tree itself.
\<close>

record replacements =
  rep_bv :: "bv \<Rightarrow> bv option"
  rep_bl :: "bl \<Rightarrow> bl option"

text \<open>
  A node whose arguments have been visited: a new node where one of them was replaced (\<open>make_like\<close> without
  simplification), which is stored, else the node itself.
\<close>

definition rebuilt_bv :: "bv \<Rightarrow> bv \<Rightarrow> replacements \<Rightarrow> bv \<times> replacements" where
  "rebuilt_bv a b s = (if b = a then (a, s) else (node b, s\<lparr>rep_bv := (rep_bv s)(a \<mapsto> node b)\<rparr>))"

definition rebuilt_bl :: "bl \<Rightarrow> bl \<Rightarrow> replacements \<Rightarrow> bl \<times> replacements" where
  "rebuilt_bl p q s = (if q = p then (p, s) else (nodeb q, s\<lparr>rep_bl := (rep_bl s)(p \<mapsto> nodeb q)\<rparr>))"

text \<open>A leaf goes through \<open>leaf_operation\<close>, a pair of functions here, one for each sort.\<close>

type_synonym leaf_op = "(bv \<Rightarrow> bv) \<times> (bl \<Rightarrow> bl)"

definition leaf_bv :: "leaf_op \<Rightarrow> bv \<Rightarrow> replacements \<Rightarrow> bv \<times> replacements" where
  "leaf_bv lf a s =
     (let b = fst lf a in (b, if b = a then s else s\<lparr>rep_bv := (rep_bv s)(a \<mapsto> b)\<rparr>))"

definition leaf_bl :: "leaf_op \<Rightarrow> bl \<Rightarrow> replacements \<Rightarrow> bl \<times> replacements" where
  "leaf_bl lf p s =
     (let q = snd lf p in (q, if q = p then s else s\<lparr>rep_bl := (rep_bl s)(p \<mapsto> q)\<rparr>))"

fun replace_bv :: "leaf_op \<Rightarrow> string set \<Rightarrow> bv \<Rightarrow> replacements \<Rightarrow> bv \<times> replacements"
  and replace_bl :: "leaf_op \<Rightarrow> string set \<Rightarrow> bl \<Rightarrow> replacements \<Rightarrow> bl \<times> replacements"
  and replace_bvs :: "leaf_op \<Rightarrow> string set \<Rightarrow> bv list \<Rightarrow> replacements \<Rightarrow> bv list \<times> replacements"
  and replace_bls :: "leaf_op \<Rightarrow> string set \<Rightarrow> bl list \<Rightarrow> replacements \<Rightarrow> bl list \<times> replacements" where
  "replace_bv lf V a s =
     (case rep_bv s a of
        Some b \<Rightarrow> (b, s)
      | None \<Rightarrow>
          if \<not> V \<subseteq> variables_bv a then (a, s)
          else case a of
            BVS x n \<Rightarrow> leaf_bv lf a s
          | BVVal v n \<Rightarrow> leaf_bv lf a s
          | NOp f as \<Rightarrow> (let (bs, s) = replace_bvs lf V as s in rebuilt_bv a (NOp f bs) s)
          | BOp f x y \<Rightarrow>
              (let (x, s) = replace_bv lf V x s; (y, s) = replace_bv lf V y s in rebuilt_bv a (BOp f x y) s)
          | UOp f x \<Rightarrow> (let (x, s) = replace_bv lf V x s in rebuilt_bv a (UOp f x) s)
          | ConcatN as \<Rightarrow> (let (bs, s) = replace_bvs lf V as s in rebuilt_bv a (ConcatN bs) s)
          | ExtractN h l x \<Rightarrow> (let (x, s) = replace_bv lf V x s in rebuilt_bv a (ExtractN h l x) s)
          | ZeroExtN n x \<Rightarrow> (let (x, s) = replace_bv lf V x s in rebuilt_bv a (ZeroExtN n x) s)
          | SignExtN n x \<Rightarrow> (let (x, s) = replace_bv lf V x s in rebuilt_bv a (SignExtN n x) s)
          | IfBV c x y \<Rightarrow>
              (let (c, s) = replace_bl lf V c s; (x, s) = replace_bv lf V x s; (y, s) = replace_bv lf V y s
               in rebuilt_bv a (IfBV c x y) s))"
| "replace_bl lf V p s =
     (case rep_bl s p of
        Some q \<Rightarrow> (q, s)
      | None \<Rightarrow>
          if \<not> V \<subseteq> variables_bl p then (p, s)
          else case p of
            BoolS x \<Rightarrow> leaf_bl lf p s
          | BoolVal v \<Rightarrow> leaf_bl lf p s
          | Cmp f x y \<Rightarrow>
              (let (x, s) = replace_bv lf V x s; (y, s) = replace_bv lf V y s in rebuilt_bl p (Cmp f x y) s)
          | BoolEq x y \<Rightarrow>
              (let (x, s) = replace_bl lf V x s; (y, s) = replace_bl lf V y s in rebuilt_bl p (BoolEq x y) s)
          | BoolNe x y \<Rightarrow>
              (let (x, s) = replace_bl lf V x s; (y, s) = replace_bl lf V y s in rebuilt_bl p (BoolNe x y) s)
          | AndN ps \<Rightarrow> (let (qs, s) = replace_bls lf V ps s in rebuilt_bl p (AndN qs) s)
          | OrN ps \<Rightarrow> (let (qs, s) = replace_bls lf V ps s in rebuilt_bl p (OrN qs) s)
          | NotN x \<Rightarrow> (let (x, s) = replace_bl lf V x s in rebuilt_bl p (NotN x) s)
          | IfBool c x y \<Rightarrow>
              (let (c, s) = replace_bl lf V c s; (x, s) = replace_bl lf V x s; (y, s) = replace_bl lf V y s
               in rebuilt_bl p (IfBool c x y) s))"
| "replace_bvs lf V [] s = ([], s)"
| "replace_bvs lf V (a # as) s =
     (let (b, s) = replace_bv lf V a s; (bs, s) = replace_bvs lf V as s in (b # bs, s))"
| "replace_bls lf V [] s = ([], s)"
| "replace_bls lf V (p # ps) s =
     (let (q, s) = replace_bl lf V p s; (qs, s) = replace_bls lf V ps s in (q # qs, s))"

text \<open>\<open>_check_replaceability\<close> and \<open>replace\<close>: the sorts are compared, the widths are not.\<close>

fun replace :: "tree \<Rightarrow> tree \<Rightarrow> tree \<Rightarrow> tree res" where
  "replace expr (Vec old) (Vec new) =
     (let s = \<lparr>rep_bv = [old \<mapsto> new], rep_bl = Map.empty\<rparr> in
      Inr (case expr of
             Vec a \<Rightarrow> Vec (fst (replace_bv (\<lambda>a. a, \<lambda>p. p) (variables_bv old) a s))
           | Truth p \<Rightarrow> Truth (fst (replace_bl (\<lambda>a. a, \<lambda>p. p) (variables_bv old) p s))))"
| "replace expr (Truth old) (Truth new) =
     (let s = \<lparr>rep_bv = Map.empty, rep_bl = [old \<mapsto> new]\<rparr> in
      Inr (case expr of
             Vec a \<Rightarrow> Vec (fst (replace_bv (\<lambda>a. a, \<lambda>p. p) (variables_bl old) a s))
           | Truth p \<Rightarrow> Truth (fst (replace_bl (\<lambda>a. a, \<lambda>p. p) (variables_bl old) p s))))"
| "replace expr _ _ = Inl ClaripyReplacementError"

text \<open>\<open>b\<close> has under \<open>e\<close> the value that \<open>a\<close> has under \<open>e'\<close>.\<close>

definition stands :: "env \<Rightarrow> env \<Rightarrow> bv \<Rightarrow> bv \<Rightarrow> bool" where
  "stands e e' a b \<longleftrightarrow> wf_bv b \<and> len b = len a \<and> bval e b = bval e' a"

definition standsb :: "env \<Rightarrow> env \<Rightarrow> bl \<Rightarrow> bl \<Rightarrow> bool" where
  "standsb e e' p q \<longleftrightarrow> wf_bl q \<and> holds e q = holds e' p"

definition dict_ok :: "replacements \<Rightarrow> env \<Rightarrow> env \<Rightarrow> replacements \<Rightarrow> bool" where
  "dict_ok ks e e' s \<longleftrightarrow> dom (rep_bv ks) \<subseteq> dom (rep_bv s) \<and> dom (rep_bl ks) \<subseteq> dom (rep_bl s)
     \<and> (\<forall>a b. rep_bv s a = Some b \<longrightarrow> wf_bv a \<longrightarrow> stands e e' a b)
     \<and> (\<forall>p q. rep_bl s p = Some q \<longrightarrow> wf_bl p \<longrightarrow> standsb e e' p q)"

text \<open>What the replacement of leaves and the trees that are passed over have to satisfy; \<open>ks\<close> is the dictionary at the start.\<close>

definition leaves_ok :: "replacements \<Rightarrow> env \<Rightarrow> env \<Rightarrow> leaf_op \<Rightarrow> bool" where
  "leaves_ok ks e e' lf \<longleftrightarrow>
     (\<forall>x n. 0 < n \<and> rep_bv ks (BVS x n) = None \<longrightarrow> stands e e' (BVS x n) (fst lf (BVS x n)))
     \<and> (\<forall>v n. wf_bv (BVVal v n) \<and> rep_bv ks (BVVal v n) = None \<longrightarrow> stands e e' (BVVal v n) (fst lf (BVVal v n)))
     \<and> (\<forall>x. rep_bl ks (BoolS x) = None \<longrightarrow> standsb e e' (BoolS x) (snd lf (BoolS x)))
     \<and> (\<forall>v. rep_bl ks (BoolVal v) = None \<longrightarrow> standsb e e' (BoolVal v) (snd lf (BoolVal v)))"

definition skips_ok :: "env \<Rightarrow> env \<Rightarrow> string set \<Rightarrow> bool" where
  "skips_ok e e' V \<longleftrightarrow> (\<forall>a. \<not> V \<subseteq> variables_bv a \<longrightarrow> bval e a = bval e' a)
     \<and> (\<forall>p. \<not> V \<subseteq> variables_bl p \<longrightarrow> holds e p = holds e' p)"

definition bv_result :: "replacements \<Rightarrow> env \<Rightarrow> env \<Rightarrow> bv \<Rightarrow> bv \<times> replacements \<Rightarrow> bool" where
  "bv_result ks e e' a = (\<lambda>(b, s). stands e e' a b \<and> dict_ok ks e e' s)"

definition bl_result :: "replacements \<Rightarrow> env \<Rightarrow> env \<Rightarrow> bl \<Rightarrow> bl \<times> replacements \<Rightarrow> bool" where
  "bl_result ks e e' p = (\<lambda>(q, s). standsb e e' p q \<and> dict_ok ks e e' s)"

lemma dict_ok_store:
  "dict_ok ks e e' s \<Longrightarrow> stands e e' a b \<Longrightarrow> dict_ok ks e e' (s\<lparr>rep_bv := (rep_bv s)(a \<mapsto> b)\<rparr>)"
  "dict_ok ks e e' s \<Longrightarrow> standsb e e' p q \<Longrightarrow> dict_ok ks e e' (s\<lparr>rep_bl := (rep_bl s)(p \<mapsto> q)\<rparr>)"
  by (auto simp: dict_ok_def)

lemma dict_ok_None:
  assumes "dict_ok ks e e' s"
  shows "rep_bv s a = None \<Longrightarrow> rep_bv ks a = None" and "rep_bl s p = None \<Longrightarrow> rep_bl ks p = None"
  using assms by (auto simp: dict_ok_def dom_def)

lemma rebuilt_bv_result: "stands e e' a b \<Longrightarrow> dict_ok ks e e' s \<Longrightarrow> bv_result ks e e' a (rebuilt_bv a b s)"
  using node_wf [of b] dict_ok_store(1) [of ks e e' s a "node b"]
  by (auto simp: rebuilt_bv_def bv_result_def stands_def sim_def)

lemma rebuilt_bl_result: "standsb e e' p q \<Longrightarrow> dict_ok ks e e' s \<Longrightarrow> bl_result ks e e' p (rebuilt_bl p q s)"
  using nodeb_wf [of q] dict_ok_store(2) [of ks e e' s p "nodeb q"]
  by (auto simp: rebuilt_bl_def bl_result_def standsb_def simb_def)

lemma leaf_result:
  assumes "leaves_ok ks e e' lf" and "dict_ok ks e e' s"
  shows "wf_bv (BVS x n) \<Longrightarrow> rep_bv s (BVS x n) = None \<Longrightarrow> bv_result ks e e' (BVS x n) (leaf_bv lf (BVS x n) s)"
    and "wf_bv (BVVal v n) \<Longrightarrow> rep_bv s (BVVal v n) = None \<Longrightarrow> bv_result ks e e' (BVVal v n) (leaf_bv lf (BVVal v n) s)"
    and "rep_bl s (BoolS x) = None \<Longrightarrow> bl_result ks e e' (BoolS x) (leaf_bl lf (BoolS x) s)"
    and "rep_bl s (BoolVal u) = None \<Longrightarrow> bl_result ks e e' (BoolVal u) (leaf_bl lf (BoolVal u) s)"
  using assms dict_ok_None [OF assms(2)] by (auto simp: leaf_bv_def leaf_bl_def bv_result_def bl_result_def leaves_ok_def Let_def
      intro!: dict_ok_store simp del: wf_bv.simps(2))

text \<open>Nodes stand for nodes where the arguments do.\<close>

lemma stands_nodes:
  "stands e e' a x \<Longrightarrow> stands e e' b y \<Longrightarrow> wf_bv (BOp f a b) \<Longrightarrow> stands e e' (BOp f a b) (BOp f x y)"
  "stands e e' a x \<Longrightarrow> wf_bv (UOp u a) \<Longrightarrow> stands e e' (UOp u a) (UOp u x)"
  "stands e e' a x \<Longrightarrow> wf_bv (ExtractN h l a) \<Longrightarrow> stands e e' (ExtractN h l a) (ExtractN h l x)"
  "stands e e' a x \<Longrightarrow> wf_bv (ZeroExtN n a) \<Longrightarrow> stands e e' (ZeroExtN n a) (ZeroExtN n x)"
  "stands e e' a x \<Longrightarrow> wf_bv (SignExtN n a) \<Longrightarrow> stands e e' (SignExtN n a) (SignExtN n x)"
  "standsb e e' c p \<Longrightarrow> stands e e' a x \<Longrightarrow> stands e e' b y \<Longrightarrow> wf_bv (IfBV c a b) \<Longrightarrow>
     stands e e' (IfBV c a b) (IfBV p x y)"
  "stands e e' a x \<Longrightarrow> stands e e' b y \<Longrightarrow> wf_bl (Cmp g a b) \<Longrightarrow> standsb e e' (Cmp g a b) (Cmp g x y)"
  by (auto simp: stands_def standsb_def)

lemma standsb_nodes:
  "standsb e e' p x \<Longrightarrow> standsb e e' q y \<Longrightarrow> standsb e e' (BoolEq p q) (BoolEq x y)"
  "standsb e e' p x \<Longrightarrow> standsb e e' q y \<Longrightarrow> standsb e e' (BoolNe p q) (BoolNe x y)"
  "standsb e e' p x \<Longrightarrow> standsb e e' (NotN p) (NotN x)"
  "standsb e e' c z \<Longrightarrow> standsb e e' p x \<Longrightarrow> standsb e e' q y \<Longrightarrow> standsb e e' (IfBool c p q) (IfBool z x y)"
  by (auto simp: standsb_def)

lemma stands_lists:
  assumes "list_all2 (stands e e') as bs"
  shows "wf_bv (NOp f as) \<Longrightarrow> stands e e' (NOp f as) (NOp f bs)"
    and "wf_bv (ConcatN as) \<Longrightarrow> stands e e' (ConcatN as) (ConcatN bs)"
proof -
  have maps: "map len bs = map len as" "map (bval e) bs = map (bval e') as" "list_all wf_bv bs" "length bs = length as"
    using assms by (induction rule: list_all2_induct) (auto simp: stands_def)
  have len: "len (NOp f bs) = len (NOp f as)" "len (ConcatN bs) = len (ConcatN as)"
    unfolding len.simps maps(1) by simp_all
  have val: "bval e (NOp f bs) = bval e' (NOp f as)" "bval e (ConcatN bs) = bval e' (ConcatN as)"
    unfolding bval.simps parts_zip maps(1,2) len(1) by simp_all
  have all: "list_all (\<lambda>a. P (len a)) bs = list_all (\<lambda>a. P (len a)) as" for P
    using maps(1) by (metis (mono_tags, lifting) list.pred_map comp_def list.pred_cong)
  show "stands e e' (NOp f as) (NOp f bs)" if "wf_bv (NOp f as)"
    using that len(1) val(1) maps(3,4) all [of "\<lambda>m. m = len (NOp f as)"]
    unfolding stands_def wf_bv.simps by metis
  show "stands e e' (ConcatN as) (ConcatN bs)" if "wf_bv (ConcatN as)"
    using that len(2) val(2) maps(3,4) all [of "\<lambda>m. 0 < m"] unfolding stands_def wf_bv.simps by metis
qed

lemma standsb_lists:
  assumes "list_all2 (standsb e e') ps qs"
  shows "wf_bl (AndN ps) \<Longrightarrow> standsb e e' (AndN ps) (AndN qs)"
    and "wf_bl (OrN ps) \<Longrightarrow> standsb e e' (OrN ps) (OrN qs)"
proof -
  have "list_all wf_bl qs" "list_all (holds e) qs = list_all (holds e') ps" "length qs = length ps"
    "list_ex (holds e) qs = list_ex (holds e') ps"
    using assms by (induction rule: list_all2_induct) (auto simp: standsb_def)
  then show "wf_bl (AndN ps) \<Longrightarrow> standsb e e' (AndN ps) (AndN qs)"
    and "wf_bl (OrN ps) \<Longrightarrow> standsb e e' (OrN ps) (OrN qs)" by (simp_all add: standsb_def)
qed

definition bvs_result :: "replacements \<Rightarrow> env \<Rightarrow> env \<Rightarrow> bv list \<Rightarrow> bv list \<times> replacements \<Rightarrow> bool" where
  "bvs_result ks e e' as = (\<lambda>(bs, s). list_all2 (stands e e') as bs \<and> dict_ok ks e e' s)"

definition bls_result :: "replacements \<Rightarrow> env \<Rightarrow> env \<Rightarrow> bl list \<Rightarrow> bl list \<times> replacements \<Rightarrow> bool" where
  "bls_result ks e e' ps = (\<lambda>(qs, s). list_all2 (standsb e e') ps qs \<and> dict_ok ks e e' s)"

lemmas result_defs = bv_result_def bl_result_def bvs_result_def bls_result_def

declare replace_bv.simps [simp del] replace_bl.simps [simp del]

lemma visit_bv:
  assumes "wf_bv a" and "dict_ok ks e e' s" and "skips_ok e e' V"
    and "rep_bv s a = None \<Longrightarrow> V \<subseteq> variables_bv a \<Longrightarrow> bv_result ks e e' a r"
  shows "bv_result ks e e' a (case rep_bv s a of Some b \<Rightarrow> (b, s) | None \<Rightarrow> if \<not> V \<subseteq> variables_bv a then (a, s) else r)"
  using assms by (auto simp: bv_result_def dict_ok_def skips_ok_def stands_def split: option.splits)

lemma visit_bl:
  assumes "wf_bl p" and "dict_ok ks e e' s" and "skips_ok e e' V"
    and "rep_bl s p = None \<Longrightarrow> V \<subseteq> variables_bl p \<Longrightarrow> bl_result ks e e' p r"
  shows "bl_result ks e e' p (case rep_bl s p of Some q \<Rightarrow> (q, s) | None \<Rightarrow> if \<not> V \<subseteq> variables_bl p then (p, s) else r)"
  using assms by (auto simp: bl_result_def dict_ok_def skips_ok_def standsb_def split: option.splits)

text \<open>A visited argument: its result stands for it, and the dictionary that goes on is in order.\<close>

lemma bv_visited:
  assumes "bv_result ks e e' x r" and "\<And>b s. r = (b, s) \<Longrightarrow> stands e e' x b \<Longrightarrow> dict_ok ks e e' s \<Longrightarrow> Q (F b s)"
  shows "Q (let (b, s) = r in F b s)"
  using assms by (cases r) (auto simp: bv_result_def)

lemma bl_visited:
  assumes "bl_result ks e e' x r" and "\<And>b s. r = (b, s) \<Longrightarrow> standsb e e' x b \<Longrightarrow> dict_ok ks e e' s \<Longrightarrow> Q (F b s)"
  shows "Q (let (b, s) = r in F b s)"
  using assms by (cases r) (auto simp: bl_result_def)

lemma bvs_visited:
  assumes "bvs_result ks e e' x r" and "\<And>b s. r = (b, s) \<Longrightarrow> list_all2 (stands e e') x b \<Longrightarrow> dict_ok ks e e' s \<Longrightarrow> Q (F b s)"
  shows "Q (let (b, s) = r in F b s)"
  using assms by (cases r) (auto simp: bvs_result_def)

lemma bls_visited:
  assumes "bls_result ks e e' x r" and "\<And>b s. r = (b, s) \<Longrightarrow> list_all2 (standsb e e') x b \<Longrightarrow> dict_ok ks e e' s \<Longrightarrow> Q (F b s)"
  shows "Q (let (b, s) = r in F b s)"
  using assms by (cases r) (auto simp: bls_result_def)

lemmas visited_rules = bv_visited [of _ _ _ _ _ "bv_result _ _ _ _"] bv_visited [of _ _ _ _ _ "bl_result _ _ _ _"]
  bl_visited [of _ _ _ _ _ "bv_result _ _ _ _"] bl_visited [of _ _ _ _ _ "bl_result _ _ _ _"]
  bvs_visited [of _ _ _ _ _ "bv_result _ _ _ _"] bls_visited [of _ _ _ _ _ "bl_result _ _ _ _"]

lemmas node_rules = rebuilt_bv_result rebuilt_bl_result stands_nodes standsb_nodes stands_lists standsb_lists

lemma replace_bvs_result:
  assumes "\<And>a s. a \<in> set as \<Longrightarrow> dict_ok ks e e' s \<Longrightarrow> bv_result ks e e' a (replace_bv lf V a s)" and "dict_ok ks e e' s"
  shows "bvs_result ks e e' as (replace_bvs lf V as s)"
  using assms
proof (induction as arbitrary: s)
  case (Cons a as)
  show ?case
    unfolding replace_bvs.simps
  proof (rule bv_visited [where Q = "bvs_result ks e e' (a # as)"])
    fix b s'
    assume b: "stands e e' a b" "dict_ok ks e e' s'"
    have "bvs_result ks e e' as (replace_bvs lf V as s')" by (rule Cons.IH) (use Cons.prems b in auto)
    then show "bvs_result ks e e' (a # as) (let (bs, s) = replace_bvs lf V as s' in (b # bs, s))"
      by (rule bvs_visited) (simp add: bvs_result_def b(1))
  qed (use Cons.prems in simp)
qed (simp add: bvs_result_def)

lemma replace_bls_result:
  assumes "\<And>p s. p \<in> set ps \<Longrightarrow> dict_ok ks e e' s \<Longrightarrow> bl_result ks e e' p (replace_bl lf V p s)" and "dict_ok ks e e' s"
  shows "bls_result ks e e' ps (replace_bls lf V ps s)"
  using assms
proof (induction ps arbitrary: s)
  case (Cons p ps)
  show ?case
    unfolding replace_bls.simps
  proof (rule bl_visited [where Q = "bls_result ks e e' (p # ps)"])
    fix q s'
    assume q: "standsb e e' p q" "dict_ok ks e e' s'"
    have "bls_result ks e e' ps (replace_bls lf V ps s')" by (rule Cons.IH) (use Cons.prems q in auto)
    then show "bls_result ks e e' (p # ps) (let (qs, s) = replace_bls lf V ps s' in (q # qs, s))"
      by (rule bls_visited) (simp add: bls_result_def q(1))
  qed (use Cons.prems in simp)
qed (simp add: bls_result_def)

lemmas argument_rules = visited_rules node_rules leaf_result

lemma replace_result:
  assumes leaves: "leaves_ok ks e e' lf" and skips: "skips_ok e e' V"
  shows "wf_bv a \<Longrightarrow> dict_ok ks e e' s \<Longrightarrow> bv_result ks e e' a (replace_bv lf V a s)"
    and "wf_bl p \<Longrightarrow> dict_ok ks e e' s \<Longrightarrow> bl_result ks e e' p (replace_bl lf V p s)"
proof (induction a and p arbitrary: s and s rule: wf_bv_wf_bl.induct)
  case (1 x n)
  show ?case unfolding replace_bv.simps [of lf V "BVS x n"]
    by (rule visit_bv [OF "1.prems" skips], unfold bv.case, intro argument_rules)
      (use 1 leaves in auto)
next
  case (2 v n)
  show ?case unfolding replace_bv.simps [of lf V "BVVal v n"]
    by (rule visit_bv [OF "2.prems" skips], unfold bv.case, intro argument_rules)
      (use 2 leaves in auto)
next
  case (3 f as)
  show ?case unfolding replace_bv.simps [of lf V "NOp f as"]
    by (rule visit_bv [OF "3.prems" skips], unfold bv.case, intro argument_rules)
      (use 3 in \<open>auto simp: list_all_iff intro!: replace_bvs_result\<close>)
next
  case (4 f a b)
  show ?case unfolding replace_bv.simps [of lf V "BOp f a b"]
    by (rule visit_bv [OF "4.prems" skips], unfold bv.case, intro argument_rules)
      (use 4 in auto)
next
  case (5 f a)
  show ?case unfolding replace_bv.simps [of lf V "UOp f a"]
    by (rule visit_bv [OF "5.prems" skips], unfold bv.case, intro argument_rules)
      (use 5 in auto)
next
  case (6 as)
  show ?case unfolding replace_bv.simps [of lf V "ConcatN as"]
    by (rule visit_bv [OF "6.prems" skips], unfold bv.case, intro argument_rules)
      (use 6 in \<open>auto simp: list_all_iff intro!: replace_bvs_result\<close>)
next
  case (7 h l a)
  show ?case unfolding replace_bv.simps [of lf V "ExtractN h l a"]
    by (rule visit_bv [OF "7.prems" skips], unfold bv.case, intro argument_rules)
      (use 7 in auto)
next
  case (8 n a)
  show ?case unfolding replace_bv.simps [of lf V "ZeroExtN n a"]
    by (rule visit_bv [OF "8.prems" skips], unfold bv.case, intro argument_rules)
      (use 8 in auto)
next
  case (9 n a)
  show ?case unfolding replace_bv.simps [of lf V "SignExtN n a"]
    by (rule visit_bv [OF "9.prems" skips], unfold bv.case, intro argument_rules)
      (use 9 in auto)
next
  case (10 c a b)
  show ?case unfolding replace_bv.simps [of lf V "IfBV c a b"]
    by (rule visit_bv [OF "10.prems" skips], unfold bv.case, intro argument_rules)
      (use 10 in auto)
next
  case (11 x)
  show ?case unfolding replace_bl.simps [of lf V "BoolS x"]
    by (rule visit_bl [OF "11.prems" skips], unfold bl.case, intro argument_rules)
      (use 11 leaves in auto)
next
  case (12 v)
  show ?case unfolding replace_bl.simps [of lf V "BoolVal v"]
    by (rule visit_bl [OF "12.prems" skips], unfold bl.case, intro argument_rules)
      (use 12 leaves in auto)
next
  case (13 f a b)
  show ?case unfolding replace_bl.simps [of lf V "Cmp f a b"]
    by (rule visit_bl [OF "13.prems" skips], unfold bl.case, intro argument_rules)
      (use 13 in auto)
next
  case (14 p q)
  show ?case unfolding replace_bl.simps [of lf V "BoolEq p q"]
    by (rule visit_bl [OF "14.prems" skips], unfold bl.case, intro argument_rules)
      (use 14 in auto)
next
  case (15 p q)
  show ?case unfolding replace_bl.simps [of lf V "BoolNe p q"]
    by (rule visit_bl [OF "15.prems" skips], unfold bl.case, intro argument_rules)
      (use 15 in auto)
next
  case (16 ps)
  show ?case unfolding replace_bl.simps [of lf V "AndN ps"]
    by (rule visit_bl [OF "16.prems" skips], unfold bl.case, intro argument_rules)
      (use 16 in \<open>auto simp: list_all_iff intro!: replace_bls_result\<close>)
next
  case (17 ps)
  show ?case unfolding replace_bl.simps [of lf V "OrN ps"]
    by (rule visit_bl [OF "17.prems" skips], unfold bl.case, intro argument_rules)
      (use 17 in \<open>auto simp: list_all_iff intro!: replace_bls_result\<close>)
next
  case (18 p)
  show ?case unfolding replace_bl.simps [of lf V "NotN p"]
    by (rule visit_bl [OF "18.prems" skips], unfold bl.case, intro argument_rules)
      (use 18 in auto)
next
  case (19 c p q)
  show ?case unfolding replace_bl.simps [of lf V "IfBool c p q"]
    by (rule visit_bl [OF "19.prems" skips], unfold bl.case, intro argument_rules)
      (use 19 in auto)
qed

text \<open>The assignment in which a symbol has another value.\<close>

definition bind_symbol :: "string \<Rightarrow> nat \<Rightarrow> int \<Rightarrow> env \<Rightarrow> env" where
  "bind_symbol x n v e = Env (\<lambda>y m. if y = x \<and> m = n then v else bv_of e y m) (bool_of e)"

lemma bind_other:
  "x \<notin> variables_bv a \<Longrightarrow> bval (bind_symbol x n v e) a = bval e a"
  and bind_otherb: "x \<notin> variables_bl p \<Longrightarrow> holds (bind_symbol x n v e) p = holds e p"
proof (induction a and p rule: variables_bv_variables_bl.induct)
  case (3 f as)
  then have "map (bval (bind_symbol x n v e)) as = map (bval e) as" by auto
  then show ?case by (simp only: bval.simps)
next
  case (6 as)
  then have "map (\<lambda>a. (len a, bval (bind_symbol x n v e) a)) as = map (\<lambda>a. (len a, bval e a)) as" by auto
  then show ?case by (simp only: bval.simps)
qed (auto simp: bind_symbol_def list_all_iff list_ex_iff)

lemma symbol_leaves:
  assumes "wf_bv new" and "len new = n"
  shows "leaves_ok \<lparr>rep_bv = [BVS x n \<mapsto> new], rep_bl = Map.empty\<rparr> e (bind_symbol x n (bval e new) e) (\<lambda>a. a, \<lambda>p. p)"
    and "dict_ok \<lparr>rep_bv = [BVS x n \<mapsto> new], rep_bl = Map.empty\<rparr> e (bind_symbol x n (bval e new) e)
      \<lparr>rep_bv = [BVS x n \<mapsto> new], rep_bl = Map.empty\<rparr>"
    and "skips_ok e (bind_symbol x n (bval e new) e) {x}"
proof -
  note def = leaves_ok_def dict_ok_def stands_def standsb_def bind_symbol_def
  show "leaves_ok \<lparr>rep_bv = [BVS x n \<mapsto> new], rep_bl = Map.empty\<rparr> e (bind_symbol x n (bval e new) e) (\<lambda>a. a, \<lambda>p. p)"
    by (auto simp: def)
  show "dict_ok \<lparr>rep_bv = [BVS x n \<mapsto> new], rep_bl = Map.empty\<rparr> e (bind_symbol x n (bval e new) e)
      \<lparr>rep_bv = [BVS x n \<mapsto> new], rep_bl = Map.empty\<rparr>"
    using assms bval_in_width [OF assms(1), of e] by (auto simp: def split: if_splits)
  show "skips_ok e (bind_symbol x n (bval e new) e) {x}"
    by (simp add: skips_ok_def bind_other bind_otherb)
qed

lemma equal_leaves:
  "leaves_ok ks e e (\<lambda>a. a, \<lambda>p. p)" "skips_ok e e V"
  "wf_bv new \<Longrightarrow> len new = len old \<Longrightarrow> bval e old = bval e new \<Longrightarrow>
     dict_ok \<lparr>rep_bv = [old \<mapsto> new], rep_bl = Map.empty\<rparr> e e \<lparr>rep_bv = [old \<mapsto> new], rep_bl = Map.empty\<rparr>"
  by (auto simp: leaves_ok_def skips_ok_def dict_ok_def stands_def standsb_def split: if_splits)

section \<open>Properties\<close>



text \<open>
  C10. Replacing a symbol is substitution: \<open>replace\<close> of a symbol by a tree of its width returns, for trees of
  both sorts, a well-formed tree whose value is that of the original with the symbol bound to the
  value of the new tree. The dictionary that is extended on the way and the trees that are passed
  over for their variables make no difference.
\<close>

theorem replace_symbol_substitutes:
  assumes "wf_bv a" and "wf_bl p" and "wf_bv new" and "len new = n"
  shows "\<exists>r q. replace (Vec a) (Vec (BVS x n)) (Vec new) = Inr (Vec r)
    \<and> replace (Truth p) (Vec (BVS x n)) (Vec new) = Inr (Truth q)
    \<and> wf_bv r \<and> len r = len a \<and> wf_bl q
    \<and> (\<forall>e. bval e r = bval (bind_symbol x n (bval e new) e) a
           \<and> holds e q = holds (bind_symbol x n (bval e new) e) p)"
proof -
  let ?s = "\<lparr>rep_bv = [BVS x n \<mapsto> new], rep_bl = Map.empty\<rparr> :: replacements"
  note ok = symbol_leaves [OF assms(3,4), where x = x]
  have "bv_result ?s e (bind_symbol x n (bval e new) e) a (replace_bv (\<lambda>a. a, \<lambda>p. p) {x} a ?s)"
    "bl_result ?s e (bind_symbol x n (bval e new) e) p (replace_bl (\<lambda>a. a, \<lambda>p. p) {x} p ?s)" for e
    using replace_result [OF ok(1,3)] assms(1,2) ok(2) by auto
  then show ?thesis by (auto simp: bv_result_def bl_result_def stands_def standsb_def case_prod_beta)
qed

theorem replace_symbol_substitutes_witness:
  "\<exists>r. replace (Vec (NOp NAdd [BVS ''x'' 8, BVS ''y'' 8])) (Vec (BVS ''x'' 8)) (Vec (BVVal 7 8)) = Inr (Vec r)
     \<and> bval ex_env r = 7"
  using replace_symbol_substitutes [of "NOp NAdd [BVS ''x'' 8, BVS ''y'' 8]" "BoolVal True" "BVVal 7 8" 8 "''x''"]
  by (auto simp: ex_env_def bind_symbol_def take_bit_eq_mod)

text \<open>
  C17. Replacing equals by equals: where a tree and its replacement of the same width have the same value
  under an assignment, the result of \<open>replace\<close> has the value of the original under it, wherever the
  tree occurred.
\<close>

theorem replace_equal_keeps_value:
  assumes "wf_bv a" and "wf_bv new" and "len new = len old"
  shows "\<exists>r. replace (Vec a) (Vec old) (Vec new) = Inr (Vec r)
    \<and> (\<forall>e. bval e old = bval e new \<longrightarrow> wf_bv r \<and> len r = len a \<and> bval e r = bval e a)"
proof -
  let ?s = "\<lparr>rep_bv = [old \<mapsto> new], rep_bl = Map.empty\<rparr> :: replacements"
  have "bv_result ?s e e a (replace_bv (\<lambda>a. a, \<lambda>p. p) (variables_bv old) a ?s)" if "bval e old = bval e new" for e
    using replace_result(1) [OF equal_leaves(1,2)] equal_leaves(3) [OF assms(2,3) that] assms(1) by blast
  then show ?thesis by (auto simp: bv_result_def stands_def case_prod_beta)
qed

theorem replace_equal_keeps_value_witness:
  "\<exists>r. replace (Vec (BOp BSub (NOp NXor [BVS ''x'' 8, BVS ''x'' 8]) (BVVal 1 8)))
          (Vec (NOp NXor [BVS ''x'' 8, BVS ''x'' 8])) (Vec (BVVal 0 8)) = Inr (Vec r) \<and> bval ex_env r = 255"
  using replace_equal_keeps_value [of "BOp BSub (NOp NXor [BVS ''x'' 8, BVS ''x'' 8]) (BVVal 1 8)" "BVVal 0 8"
      "NOp NXor [BVS ''x'' 8, BVS ''x'' 8]"]
  by (auto simp: ex_env_def take_bit_eq_mod)


end
