(* ===== verification/Tree_Burrow.thy ===== *)
theory Tree_Burrow
  imports Tree_Algorithms
begin

text \<open>
  \<open>burrow_ite\<close> of \<open>claripy/algorithm/ite_relocation.py\<close>: a conditional between two nodes of the same operation
  that share an argument is moved below the operation. The recursion continues on what \<open>If\<close>
  returns, so it has fuel; that the size of the tree is fuel enough is shown here. The result is
  \<open>None\<close> without fuel, else a tree or an exception. Numbers among the arguments are compared by
  value, which is what the operator \<open>is\<close> of the code does for the numbers up to 256 that Python keeps.
\<close>

section \<open>Outcomes\<close>

type_synonym 'a outcome = "'a res option"

definition bind_out :: "'a outcome \<Rightarrow> ('a \<Rightarrow> 'b outcome) \<Rightarrow> 'b outcome" where
  "bind_out m f = (case m of None \<Rightarrow> None | Some (Inl err) \<Rightarrow> Some (Inl err) | Some (Inr x) \<Rightarrow> f x)"

abbreviation done_with :: "'a \<Rightarrow> 'a outcome" where
  "done_with x \<equiv> Some (Inr x)"

fun all_out :: "'a outcome list \<Rightarrow> 'a list outcome" where
  "all_out [] = done_with []"
| "all_out (m # ms) = bind_out m (\<lambda>x. bind_out (all_out ms) (\<lambda>xs. done_with (x # xs)))"

section \<open>Burrowing\<close>

text \<open>
  \<open>matches\<close> and \<open>different_idx\<close>: the index of the first argument that differs, when exactly one
  argument is shared and not all are.
\<close>

definition different_idx :: "'a list \<Rightarrow> 'a list \<Rightarrow> nat option" where
  "different_idx xs ys =
     (let matches = map2 (=) xs ys in
      if count_list matches True \<noteq> 1 \<or> list_all (\<lambda>m. m) matches then None
      else Some (length (takeWhile (\<lambda>m. m) matches)))"

text \<open>
  The end of \<open>_burrow_ite\<close> for a conditional \<open>expr\<close> between two nodes with arguments \<open>xs\<close> and \<open>ys\<close>; \<open>inner\<close> is the
  inner \<open>If\<close>, \<open>again\<close> the recursive call and \<open>build\<close> the construction of the node.
\<close>

definition burrow_args ::
  "('a \<Rightarrow> 'a \<Rightarrow> 'a outcome) \<Rightarrow> ('a \<Rightarrow> 'a outcome) \<Rightarrow> ('a list \<Rightarrow> 'r) \<Rightarrow> 'r \<Rightarrow> 'a list \<Rightarrow> 'a list \<Rightarrow> 'r outcome" where
  "burrow_args inner again build expr xs ys =
     (if length xs \<noteq> length ys then done_with expr
      else case different_idx xs ys of
             None \<Rightarrow> done_with expr
           | Some i \<Rightarrow> bind_out (inner (xs ! i) (ys ! i)) (\<lambda>z. bind_out (again z) (\<lambda>z. done_with (build (xs[i := z])))))"

text \<open>\<open>If\<close> refuses bit-vectors of different lengths.\<close>

definition inner_if :: "ctors \<Rightarrow> bl \<Rightarrow> bv \<Rightarrow> bv \<Rightarrow> bv outcome" where
  "inner_if k c x y = (if len x \<noteq> len y then Some (Inl ClaripyTypeError) else done_with (mk_if k c x y))"

definition inner_ifb :: "ctors \<Rightarrow> bl \<Rightarrow> bl \<Rightarrow> bl \<Rightarrow> bl outcome" where
  "inner_ifb k c x y = done_with (mk_ifb k c x y)"

fun is_leaf_bv :: "bv \<Rightarrow> bool" where
  "is_leaf_bv (BVS x n) = True"
| "is_leaf_bv (BVVal v n) = True"
| "is_leaf_bv _ = False"

fun is_leaf_bl :: "bl \<Rightarrow> bool" where
  "is_leaf_bl (BoolS x) = True"
| "is_leaf_bl (BoolVal v) = True"
| "is_leaf_bl _ = False"

text \<open>
  A conditional between extensions: the amounts are arguments as well, and \<open>If\<close> refuses two numbers. Of
  an extraction the two bounds are arguments, so that with one argument shared the first that differs
  is a bound.
\<close>

definition burrow_ext ::
  "ctors \<Rightarrow> (bv \<Rightarrow> bv outcome) \<Rightarrow> bl \<Rightarrow> (nat \<Rightarrow> bv \<Rightarrow> bv) \<Rightarrow> bv \<Rightarrow> nat \<Rightarrow> bv \<Rightarrow> nat \<Rightarrow> bv \<Rightarrow> bv outcome" where
  "burrow_ext k again c ext expr n x m y =
     (if (n = m) = (x = y) then done_with expr
      else if n \<noteq> m then Some (Inl ClaripyTypeError)
      else bind_out (inner_if k c x y) (\<lambda>z. bind_out (again z) (\<lambda>z. done_with (node (ext n z)))))"

definition burrow_extract :: "bv \<Rightarrow> nat \<Rightarrow> nat \<Rightarrow> bv \<Rightarrow> nat \<Rightarrow> nat \<Rightarrow> bv \<Rightarrow> bv outcome" where
  "burrow_extract expr h l x h' l' y =
     (if count_list [h = h', l = l', x = y] True = 1 then Some (Inl ClaripyTypeError) else done_with expr)"

definition burrow_if_bv :: "ctors \<Rightarrow> (bv \<Rightarrow> bv outcome) \<Rightarrow> bl \<Rightarrow> bv \<Rightarrow> bv \<Rightarrow> bv outcome" where
  "burrow_if_bv k again c t f =
     (let expr = IfBV c t f in
      if is_leaf_bl c \<or> is_leaf_bv t \<or> is_leaf_bv f then done_with expr
      else case t of
        NOp g xs \<Rightarrow>
          (case f of
             NOp g' ys \<Rightarrow> if g = g' then burrow_args (inner_if k c) again (\<lambda>zs. node (NOp g zs)) expr xs ys
                            else done_with expr
           | _ \<Rightarrow> done_with expr)
      | BOp g x y \<Rightarrow>
          (case f of
             BOp g' x' y' \<Rightarrow>
               if g = g' then burrow_args (inner_if k c) again (\<lambda>zs. node (BOp g (zs ! 0) (zs ! 1))) expr [x, y] [x', y']
               else done_with expr
           | _ \<Rightarrow> done_with expr)
      | ConcatN xs \<Rightarrow>
          (case f of
             ConcatN ys \<Rightarrow> burrow_args (inner_if k c) again (\<lambda>zs. node (ConcatN zs)) expr xs ys
           | _ \<Rightarrow> done_with expr)
      | ExtractN h l x \<Rightarrow>
          (case f of ExtractN h' l' y \<Rightarrow> burrow_extract expr h l x h' l' y | _ \<Rightarrow> done_with expr)
      | ZeroExtN n x \<Rightarrow>
          (case f of ZeroExtN m y \<Rightarrow> burrow_ext k again c ZeroExtN expr n x m y | _ \<Rightarrow> done_with expr)
      | SignExtN n x \<Rightarrow>
          (case f of SignExtN m y \<Rightarrow> burrow_ext k again c SignExtN expr n x m y | _ \<Rightarrow> done_with expr)
      | _ \<Rightarrow> done_with expr)"

definition burrow_if_bl ::
  "ctors \<Rightarrow> (bv \<Rightarrow> bv outcome) \<Rightarrow> (bl \<Rightarrow> bl outcome) \<Rightarrow> bl \<Rightarrow> bl \<Rightarrow> bl \<Rightarrow> bl outcome" where
  "burrow_if_bl k again againb c t f =
     (let expr = IfBool c t f in
      if is_leaf_bl c \<or> is_leaf_bl t \<or> is_leaf_bl f then done_with expr
      else case t of
        Cmp g x y \<Rightarrow>
          (case f of
             Cmp g' x' y' \<Rightarrow>
               if g = g' then burrow_args (inner_if k c) again (\<lambda>zs. nodeb (Cmp g (zs ! 0) (zs ! 1))) expr [x, y] [x', y']
               else done_with expr
           | _ \<Rightarrow> done_with expr)
      | BoolEq x y \<Rightarrow>
          (case f of
             BoolEq x' y' \<Rightarrow>
               burrow_args (inner_ifb k c) againb (\<lambda>zs. nodeb (BoolEq (zs ! 0) (zs ! 1))) expr [x, y] [x', y']
           | _ \<Rightarrow> done_with expr)
      | BoolNe x y \<Rightarrow>
          (case f of
             BoolNe x' y' \<Rightarrow>
               burrow_args (inner_ifb k c) againb (\<lambda>zs. nodeb (BoolNe (zs ! 0) (zs ! 1))) expr [x, y] [x', y']
           | _ \<Rightarrow> done_with expr)
      | AndN xs \<Rightarrow>
          (case f of
             AndN ys \<Rightarrow> burrow_args (inner_ifb k c) againb (\<lambda>zs. nodeb (AndN zs)) expr xs ys
           | _ \<Rightarrow> done_with expr)
      | OrN xs \<Rightarrow>
          (case f of
             OrN ys \<Rightarrow> burrow_args (inner_ifb k c) againb (\<lambda>zs. nodeb (OrN zs)) expr xs ys
           | _ \<Rightarrow> done_with expr)
      | _ \<Rightarrow> done_with expr)"

fun burrow_bv :: "ctors \<Rightarrow> nat \<Rightarrow> bv \<Rightarrow> bv outcome" and burrow_bl :: "ctors \<Rightarrow> nat \<Rightarrow> bl \<Rightarrow> bl outcome" where
  "burrow_bv k 0 a = None"
| "burrow_bv k (Suc n) a =
     (case a of
        BVS x m \<Rightarrow> done_with a
      | BVVal v m \<Rightarrow> done_with a
      | NOp f as \<Rightarrow> bind_out (all_out (map (burrow_bv k n) as)) (\<lambda>bs. done_with (node (NOp f bs)))
      | BOp f x y \<Rightarrow>
          bind_out (burrow_bv k n x) (\<lambda>x. bind_out (burrow_bv k n y) (\<lambda>y. done_with (node (BOp f x y))))
      | UOp f x \<Rightarrow> bind_out (burrow_bv k n x) (\<lambda>x. done_with (node (UOp f x)))
      | ConcatN as \<Rightarrow> bind_out (all_out (map (burrow_bv k n) as)) (\<lambda>bs. done_with (node (ConcatN bs)))
      | ExtractN h l x \<Rightarrow> bind_out (burrow_bv k n x) (\<lambda>x. done_with (node (ExtractN h l x)))
      | ZeroExtN m x \<Rightarrow> bind_out (burrow_bv k n x) (\<lambda>x. done_with (node (ZeroExtN m x)))
      | SignExtN m x \<Rightarrow> bind_out (burrow_bv k n x) (\<lambda>x. done_with (node (SignExtN m x)))
      | IfBV c x y \<Rightarrow> burrow_if_bv k (burrow_bv k n) c x y)"
| "burrow_bl k 0 p = None"
| "burrow_bl k (Suc n) p =
     (case p of
        BoolS x \<Rightarrow> done_with p
      | BoolVal v \<Rightarrow> done_with p
      | Cmp f x y \<Rightarrow>
          bind_out (burrow_bv k n x) (\<lambda>x. bind_out (burrow_bv k n y) (\<lambda>y. done_with (nodeb (Cmp f x y))))
      | BoolEq x y \<Rightarrow>
          bind_out (burrow_bl k n x) (\<lambda>x. bind_out (burrow_bl k n y) (\<lambda>y. done_with (nodeb (BoolEq x y))))
      | BoolNe x y \<Rightarrow>
          bind_out (burrow_bl k n x) (\<lambda>x. bind_out (burrow_bl k n y) (\<lambda>y. done_with (nodeb (BoolNe x y))))
      | AndN ps \<Rightarrow> bind_out (all_out (map (burrow_bl k n) ps)) (\<lambda>qs. done_with (nodeb (AndN qs)))
      | OrN ps \<Rightarrow> bind_out (all_out (map (burrow_bl k n) ps)) (\<lambda>qs. done_with (nodeb (OrN qs)))
      | NotN x \<Rightarrow> bind_out (burrow_bl k n x) (\<lambda>x. done_with (nodeb (NotN x)))
      | IfBool c x y \<Rightarrow> burrow_if_bl k (burrow_bv k n) (burrow_bl k n) c x y)"

section \<open>Trees with operations on two arguments\<close>

text \<open>
  The count of shared arguments is the count of differing ones where an operation has two arguments. The
  trees considered have no operation on more than two trees; boolean constants, which
  the operations remove, do not occur. The flag \<open>xt\<close> says whether extractions may occur: with two of them
  below a conditional the code fails with an exception, and nowhere else.
\<close>

fun pairs_bv :: "bool \<Rightarrow> bv \<Rightarrow> bool" and pairs_bl :: "bool \<Rightarrow> bl \<Rightarrow> bool" where
  "pairs_bv xt (BVS x n) = True"
| "pairs_bv xt (BVVal v n) = True"
| "pairs_bv xt (NOp f as) = (length as = 2 \<and> list_all (pairs_bv xt) as)"
| "pairs_bv xt (BOp f a b) = (pairs_bv xt a \<and> pairs_bv xt b)"
| "pairs_bv xt (UOp f a) = pairs_bv xt a"
| "pairs_bv xt (ConcatN as) = (length as = 2 \<and> list_all (pairs_bv xt) as)"
| "pairs_bv xt (ExtractN h l a) = (xt \<and> pairs_bv xt a)"
| "pairs_bv xt (ZeroExtN n a) = pairs_bv xt a"
| "pairs_bv xt (SignExtN n a) = pairs_bv xt a"
| "pairs_bv xt (IfBV c a b) = (pairs_bl xt c \<and> pairs_bv xt a \<and> pairs_bv xt b)"
| "pairs_bl xt (BoolS x) = True"
| "pairs_bl xt (BoolVal v) = False"
| "pairs_bl xt (Cmp f a b) = (pairs_bv xt a \<and> pairs_bv xt b)"
| "pairs_bl xt (BoolEq p q) = (pairs_bl xt p \<and> pairs_bl xt q)"
| "pairs_bl xt (BoolNe p q) = (pairs_bl xt p \<and> pairs_bl xt q)"
| "pairs_bl xt (AndN ps) = (length ps = 2 \<and> list_all (pairs_bl xt) ps)"
| "pairs_bl xt (OrN ps) = (length ps = 2 \<and> list_all (pairs_bl xt) ps)"
| "pairs_bl xt (NotN p) = pairs_bl xt p"
| "pairs_bl xt (IfBool c p q) = (pairs_bl xt c \<and> pairs_bl xt p \<and> pairs_bl xt q)"

text \<open>A table whose \<open>If\<close> keeps to such trees and gives none that is larger than the plain node.\<close>

definition modest :: "bool \<Rightarrow> ctors \<Rightarrow> bool" where
  "modest xt k \<longleftrightarrow>
     (\<forall>c a b. pairs_bv xt (IfBV c a b) \<longrightarrow> pairs_bv xt (mk_if k c a b) \<and> size (mk_if k c a b) \<le> size (IfBV c a b))
     \<and> (\<forall>c p q. pairs_bl xt (IfBool c p q) \<longrightarrow>
          (pairs_bl xt (mk_ifb k c p q) \<or> is_leaf_bl (mk_ifb k c p q)) \<and> size (mk_ifb k c p q) \<le> size (IfBool c p q))"

lemma node_cases: "node a = a \<or> (\<exists>v n. node a = BVVal v n)"
  by (auto simp: node_def split: sum.splits carg.splits)

lemma nodeb_cases: "nodeb p = p \<or> (\<exists>v. nodeb p = BoolVal v)"
  by (auto simp: nodeb_def split: sum.splits carg.splits)

lemma node_modest: "pairs_bv xt a \<Longrightarrow> pairs_bv xt (node a) \<and> size (node a) \<le> size a"
  using node_cases [of a] by auto

lemma nodeb_modest: "pairs_bl xt p \<Longrightarrow> (pairs_bl xt (nodeb p) \<or> is_leaf_bl (nodeb p)) \<and> size (nodeb p) \<le> size p"
  using nodeb_cases [of p] by auto

lemma plain_modest: "modest xt plain_ctors"
  unfolding modest_def plain_ctors_def ctors.select_convs using node_modest nodeb_modest by blast

lemma nested_modest:
  assumes "modest xt k" and "pairs_bv xt (IfBV c a b)" and "orelse (nested_true k c a b) (nested_false k c a b) = Some r"
  shows "pairs_bv xt r \<and> size r \<le> size (IfBV c a b)"
proof -
  have keep: "pairs_bv xt (mk_if k c u v) \<and> size (mk_if k c u v) \<le> size (IfBV c u v)" if "pairs_bv xt u" "pairs_bv xt v" for u v
    using assms(1,2) that by (auto simp: modest_def)
  from assms(3) show ?thesis
  proof (rule orelse_SomeE)
    assume "nested_true k c a b = Some r"
    then obtain c' x y where a: "a = IfBV c' x y" and r: "r = mk_if k c x b \<or> r = mk_if k c y b"
      by (auto simp: nested_true_def if_args_Some split: option.splits if_splits)
    then show ?thesis using keep [of x b] keep [of y b] assms(2) by auto
  next
    assume "nested_false k c a b = Some r"
    then obtain c' x y where b: "b = IfBV c' x y" and r: "r = mk_if k c a y \<or> r = mk_if k c a x"
      by (auto simp: nested_false_def if_args_Some split: option.splits if_splits)
    then show ?thesis using keep [of a x] keep [of a y] assms(2) by auto
  qed
qed

lemma nestedb_modest:
  assumes "modest xt k" and "pairs_bl xt (IfBool c a b)" and "orelse (nested_trueb k c a b) (nested_falseb k c a b) = Some r"
  shows "(pairs_bl xt r \<or> is_leaf_bl r) \<and> size r \<le> size (IfBool c a b)"
proof -
  have keep: "(pairs_bl xt (mk_ifb k c u v) \<or> is_leaf_bl (mk_ifb k c u v)) \<and> size (mk_ifb k c u v) \<le> size (IfBool c u v)"
    if "pairs_bl xt u" "pairs_bl xt v" for u v
    using assms(1,2) that by (auto simp: modest_def)
  from assms(3) show ?thesis
  proof (rule orelse_SomeE)
    assume "nested_trueb k c a b = Some r"
    then obtain c' x y where a: "a = IfBool c' x y" and r: "r = mk_ifb k c x b \<or> r = mk_ifb k c y b"
      by (auto simp: nested_trueb_def if_bool_args_Some split: option.splits if_splits)
    then show ?thesis using keep [of x b] keep [of y b] assms(2) by auto
  next
    assume "nested_falseb k c a b = Some r"
    then obtain c' x y where b: "b = IfBool c' x y" and r: "r = mk_ifb k c a y \<or> r = mk_ifb k c a x"
      by (auto simp: nested_falseb_def if_bool_args_Some split: option.splits if_splits)
    then show ?thesis using keep [of a x] keep [of a y] assms(2) by auto
  qed
qed

lemma If_bv_op_modest:
  assumes "modest xt k" and "pairs_bv xt (IfBV c a b)"
  shows "pairs_bv xt (If_bv_op k c a b) \<and> size (If_bv_op k c a b) \<le> size (IfBV c a b)"
  using assms nested_modest [OF assms] node_modest [OF assms(2)]
  by (auto simp: If_bv_op_def split: option.splits)

lemma If_bool_op_modest:
  assumes "modest xt k" and "pairs_bl xt (IfBool c a b)"
  shows "(pairs_bl xt (If_bool_op k c a b) \<or> is_leaf_bl (If_bool_op k c a b)) \<and> size (If_bool_op k c a b) \<le> size (IfBool c a b)"
  using assms nestedb_modest [OF assms] nodeb_modest [OF assms(2)]
  by (auto simp: If_bool_op_def split: option.splits)

lemma checked_if: "mk_if (checked_step k) = If_bv_op k" "mk_ifb (checked_step k) = If_bool_op k"
  by (simp_all add: checked_step_def step_def)

lemma modest_checked_at: "modest xt (checked_at n)"
proof (induction n)
  case (Suc n)
  then show ?case
    using If_bv_op_modest [OF Suc] If_bool_op_modest [OF Suc]
    unfolding checked_at.simps modest_def [of xt "checked_step (checked_at n)"] checked_if by blast
qed (simp add: plain_modest)

section \<open>Soundness\<close>

text \<open>
  What the outcome is to be: a tree that stands for the one given or, where there are extractions, the
  exception that \<open>If\<close> raised.
\<close>

definition burrowed_bv :: "bool \<Rightarrow> bv \<Rightarrow> bv outcome \<Rightarrow> bool" where
  "burrowed_bv xt a m \<longleftrightarrow> xt \<and> m = Some (Inl ClaripyTypeError) \<or> (\<exists>r. m = done_with r \<and> sim r a)"

definition burrowed_bl :: "bool \<Rightarrow> bl \<Rightarrow> bl outcome \<Rightarrow> bool" where
  "burrowed_bl xt p m \<longleftrightarrow> xt \<and> m = Some (Inl ClaripyTypeError) \<or> (\<exists>r. m = done_with r \<and> simb r p)"

lemma bind_outI:
  assumes "xt \<and> m = Some (Inl err) \<or> (\<exists>r. m = done_with r \<and> S r)" and "xt \<longrightarrow> P (Some (Inl err))" and "\<And>z. S z \<Longrightarrow> P (f z)"
  shows "P (bind_out m f)"
  using assms by (auto simp: bind_out_def)

lemma burrowed_errors: "xt \<longrightarrow> burrowed_bv xt a (Some (Inl ClaripyTypeError))" "xt \<longrightarrow> burrowed_bl xt p (Some (Inl ClaripyTypeError))"
  by (simp_all add: burrowed_bv_def burrowed_bl_def)

lemma burrowed_bindI:
  assumes "burrowed_bv xt x m"
  shows "(\<And>z. sim z x \<Longrightarrow> burrowed_bv xt a (f z)) \<Longrightarrow> burrowed_bv xt a (bind_out m f)"
    and "(\<And>z. sim z x \<Longrightarrow> burrowed_bl xt p (g z)) \<Longrightarrow> burrowed_bl xt p (bind_out m g)"
proof -
  note m = assms [unfolded burrowed_bv_def]
  show "burrowed_bv xt a (bind_out m f)" if "\<And>z. sim z x \<Longrightarrow> burrowed_bv xt a (f z)"
    by (rule bind_outI [where P = "burrowed_bv xt _", OF m burrowed_errors(1)]) (rule that)
  show "burrowed_bl xt p (bind_out m g)" if "\<And>z. sim z x \<Longrightarrow> burrowed_bl xt p (g z)"
    by (rule bind_outI [where P = "burrowed_bl xt _", OF m burrowed_errors(2)]) (rule that)
qed

lemma burrowed_bindbI:
  assumes "burrowed_bl xt x m" and "\<And>z. simb z x \<Longrightarrow> burrowed_bl xt p (f z)"
  shows "burrowed_bl xt p (bind_out m f)"
  by (rule bind_outI [where P = "burrowed_bl xt _", OF assms(1) [unfolded burrowed_bl_def] burrowed_errors(2)]) (rule assms(2))

lemma burrowed_doneI:
  "wf_bv r \<Longrightarrow> sim r a \<Longrightarrow> burrowed_bv xt a (done_with (node r))" "sim r a \<Longrightarrow> burrowed_bv xt a (done_with r)"
  "wf_bl q \<Longrightarrow> simb q p \<Longrightarrow> burrowed_bl xt p (done_with (nodeb q))" "simb q p \<Longrightarrow> burrowed_bl xt p (done_with q)"
  using node_wf [of r] nodeb_wf [of q] by (auto simp: burrowed_bv_def burrowed_bl_def sim_def simb_def)

lemma sim_stands: "sim r a \<longleftrightarrow> (\<forall>e. stands e e a r)"
  by (auto simp: sim_def stands_def)

lemma simb_stands: "simb r p \<longleftrightarrow> (\<forall>e. standsb e e p r)"
  by (auto simp: simb_def standsb_def)

lemma all_out_sim:
  assumes "\<And>a. a \<in> set as \<Longrightarrow> burrowed_bv xt a (g a)"
  shows "xt \<and> all_out (map g as) = Some (Inl ClaripyTypeError) \<or>
    (\<exists>bs. all_out (map g as) = done_with bs \<and> list_all2 (\<lambda>a b. sim b a) as bs)"
  using assms
proof (induction as)
  case (Cons a as)
  have rest: "xt \<and> all_out (map g as) = Some (Inl ClaripyTypeError) \<or>
      (\<exists>bs. all_out (map g as) = done_with bs \<and> list_all2 (\<lambda>a b. sim b a) as bs)"
    using Cons by simp
  have "burrowed_bv xt a (g a)" using Cons by simp
  then consider xt "g a = Some (Inl ClaripyTypeError)" | b where "g a = done_with b" "sim b a"
    unfolding burrowed_bv_def by blast
  then show ?case using rest by cases (auto simp: bind_out_def)
qed simp

lemma all_out_simb:
  assumes "\<And>a. a \<in> set as \<Longrightarrow> burrowed_bl xt a (g a)"
  shows "xt \<and> all_out (map g as) = Some (Inl ClaripyTypeError) \<or>
    (\<exists>bs. all_out (map g as) = done_with bs \<and> list_all2 (\<lambda>a b. simb b a) as bs)"
  using assms
proof (induction as)
  case (Cons a as)
  have rest: "xt \<and> all_out (map g as) = Some (Inl ClaripyTypeError) \<or>
      (\<exists>bs. all_out (map g as) = done_with bs \<and> list_all2 (\<lambda>a b. simb b a) as bs)"
    using Cons by simp
  have "burrowed_bl xt a (g a)" using Cons by simp
  then consider xt "g a = Some (Inl ClaripyTypeError)" | b where "g a = done_with b" "simb b a"
    unfolding burrowed_bl_def by blast
  then show ?case using rest by cases (auto simp: bind_out_def)
qed simp

lemma sim_lists:
  assumes "list_all2 (\<lambda>a b. sim b a) as bs"
  shows "wf_bv (NOp f as) \<Longrightarrow> sim (NOp f bs) (NOp f as)" and "wf_bv (ConcatN as) \<Longrightarrow> sim (ConcatN bs) (ConcatN as)"
proof -
  have "list_all2 (stands e e) as bs" for e
    using assms by (rule list_all2_mono) (simp add: sim_stands)
  then show "wf_bv (NOp f as) \<Longrightarrow> sim (NOp f bs) (NOp f as)" and "wf_bv (ConcatN as) \<Longrightarrow> sim (ConcatN bs) (ConcatN as)"
    unfolding sim_stands using stands_lists by blast+
qed

lemma simb_lists:
  assumes "list_all2 (\<lambda>a b. simb b a) ps qs"
  shows "wf_bl (AndN ps) \<Longrightarrow> simb (AndN qs) (AndN ps)" and "wf_bl (OrN ps) \<Longrightarrow> simb (OrN qs) (OrN ps)"
proof -
  have "list_all2 (standsb e e) ps qs" for e
    using assms by (rule list_all2_mono) (simp add: simb_stands)
  then show "wf_bl (AndN ps) \<Longrightarrow> simb (AndN qs) (AndN ps)" and "wf_bl (OrN ps) \<Longrightarrow> simb (OrN qs) (OrN ps)"
    unfolding simb_stands using standsb_lists by blast+
qed

lemma simD: "sim r a \<Longrightarrow> wf_bv r" "simb q p \<Longrightarrow> wf_bl q"
  by (simp_all add: sim_def simb_def)

lemma burrowed_lists:
  assumes "\<And>a. a \<in> set as \<Longrightarrow> burrowed_bv xt a (g a)"
  shows "wf_bv (NOp f as) \<Longrightarrow> burrowed_bv xt (NOp f as) (bind_out (all_out (map g as)) (\<lambda>bs. done_with (node (NOp f bs))))"
    and "wf_bv (ConcatN as) \<Longrightarrow> burrowed_bv xt (ConcatN as) (bind_out (all_out (map g as)) (\<lambda>bs. done_with (node (ConcatN bs))))"
proof -
  have out: "xt \<and> all_out (map g as) = Some (Inl ClaripyTypeError) \<or>
      (\<exists>bs. all_out (map g as) = done_with bs \<and> list_all2 (\<lambda>a b. sim b a) as bs)"
    using assms by (rule all_out_sim)
  show "burrowed_bv xt (NOp f as) (bind_out (all_out (map g as)) (\<lambda>bs. done_with (node (NOp f bs))))" if "wf_bv (NOp f as)"
    by (rule bind_outI [where P = "burrowed_bv xt _", OF out burrowed_errors(1)]) (rule burrowed_doneI(1); use that sim_lists simD in blast)
  show "burrowed_bv xt (ConcatN as) (bind_out (all_out (map g as)) (\<lambda>bs. done_with (node (ConcatN bs))))" if "wf_bv (ConcatN as)"
    by (rule bind_outI [where P = "burrowed_bv xt _", OF out burrowed_errors(1)]) (rule burrowed_doneI(1); use that sim_lists simD in blast)
qed

lemma burrowed_connectives:
  assumes "\<And>p. p \<in> set ps \<Longrightarrow> burrowed_bl xt p (g p)"
  shows "wf_bl (AndN ps) \<Longrightarrow> burrowed_bl xt (AndN ps) (bind_out (all_out (map g ps)) (\<lambda>qs. done_with (nodeb (AndN qs))))"
    and "wf_bl (OrN ps) \<Longrightarrow> burrowed_bl xt (OrN ps) (bind_out (all_out (map g ps)) (\<lambda>qs. done_with (nodeb (OrN qs))))"
proof -
  have out: "xt \<and> all_out (map g ps) = Some (Inl ClaripyTypeError) \<or>
      (\<exists>qs. all_out (map g ps) = done_with qs \<and> list_all2 (\<lambda>a b. simb b a) ps qs)"
    using assms by (rule all_out_simb)
  show "burrowed_bl xt (AndN ps) (bind_out (all_out (map g ps)) (\<lambda>qs. done_with (nodeb (AndN qs))))" if "wf_bl (AndN ps)"
    by (rule bind_outI [where P = "burrowed_bl xt _", OF out burrowed_errors(2)]) (rule burrowed_doneI(3); use that simb_lists simD in blast)
  show "burrowed_bl xt (OrN ps) (bind_out (all_out (map g ps)) (\<lambda>qs. done_with (nodeb (OrN qs))))" if "wf_bl (OrN ps)"
    by (rule bind_outI [where P = "burrowed_bl xt _", OF out burrowed_errors(2)]) (rule burrowed_doneI(3); use that simb_lists simD in blast)
qed

lemma different_two:
  assumes "different_idx xs ys = Some i" and "length xs = 2" and "length ys = 2"
  shows "i < 2 \<and> (\<forall>z. xs[i := z] = ys[i := z])"
proof -
  obtain a b c d where l: "xs = [a, b]" "ys = [c, d]"
    using assms(2,3) by (auto simp: length_Suc_conv numeral_2_eq_2)
  with assms(1) show ?thesis
    by (cases "a = c"; cases "b = d") (auto simp: different_idx_def Let_def)
qed

lemma map_update_same: "f z = f (xs ! i) \<Longrightarrow> map f (xs[i := z]) = map f xs"
  by (metis list_update_id map_update)

lemma lens_two:
  assumes "length xs = 2" "length ys = 2" "i < 2" "\<forall>z. xs[i := z] = ys[i := z]" "sum_list (map len xs) = sum_list (map len ys)"
  shows "len (xs ! i) = len (ys ! i)"
proof -
  obtain a b c d where l: "xs = [a, b]" "ys = [c, d]"
    using assms(1,2) by (auto simp: length_Suc_conv numeral_2_eq_2)
  from assms(3) have "i = 0 \<or> i = 1" by auto
  then show ?thesis using assms(4,5) unfolding l by (elim disjE) simp_all
qed

text \<open>The ways in which the last step ends, on bit-vectors and on booleans.\<close>

lemma burrow_args_cases:
  fixes xs ys :: "bv list"
  assumes lists: "length xs = 2" "length ys = 2" "good_args xs" "good_args ys"
    and lens: "\<And>i. i < 2 \<Longrightarrow> (\<forall>z. xs[i := z] = ys[i := z]) \<Longrightarrow> len (xs ! i) = len (ys ! i)"
    and again: "\<And>i. i < 2 \<Longrightarrow> len (xs ! i) = len (ys ! i) \<Longrightarrow>
      burrowed_bv xt (IfBV c (xs ! i) (ys ! i)) (again (mk_if k c (xs ! i) (ys ! i)))"
    and expr: "P (done_with expr)" and err: "xt \<longrightarrow> P (Some (Inl ClaripyTypeError))"
    and build: "\<And>zs. good_args zs \<Longrightarrow> length zs = 2 \<Longrightarrow> map len zs = map len xs \<Longrightarrow> map len zs = map len ys \<Longrightarrow>
      (\<And>e. map (bval e) zs = (if holds e c then map (bval e) xs else map (bval e) ys)) \<Longrightarrow> P (done_with (build zs))"
  shows "P (burrow_args (inner_if k c) again build expr xs ys)"
proof (cases "different_idx xs ys")
  case None
  then show ?thesis using lists expr by (simp add: burrow_args_def)
next
  case (Some i)
  note i = different_two [OF Some lists(1,2)]
  have True: "len (xs ! i) = len (ys ! i)" using lens i by blast
  have res: "burrow_args (inner_if k c) again build expr xs ys =
      bind_out (again (mk_if k c (xs ! i) (ys ! i))) (\<lambda>z. done_with (build (xs[i := z])))"
    using Some lists True by (simp add: burrow_args_def inner_if_def bind_out_def)
  have out: "xt \<and> again (mk_if k c (xs ! i) (ys ! i)) = Some (Inl ClaripyTypeError) \<or>
      (\<exists>z. again (mk_if k c (xs ! i) (ys ! i)) = done_with z \<and> sim z (IfBV c (xs ! i) (ys ! i)))"
    using again [of i] i True by (simp add: burrowed_bv_def)
  have "P (done_with (build (xs[i := z])))" if z: "sim z (IfBV c (xs ! i) (ys ! i))" for z
  proof (rule build)
    have zlen: "len z = len (xs ! i)" "len z = len (ys ! i)" using z True by (simp_all add: sim_def)
    show "good_args (xs[i := z])"
      using z lists(1,3) conjunct1 [OF i] zlen(1) by (auto simp: good_args_def list_all_length nth_list_update sim_def)
    show "map len (xs[i := z]) = map len xs" using zlen(1) by (rule map_update_same)
    have "map len (ys[i := z]) = map len ys" using zlen(2) by (rule map_update_same)
    then show "map len (xs[i := z]) = map len ys" using i by simp
    show "map (bval e) (xs[i := z]) = (if holds e c then map (bval e) xs else map (bval e) ys)" for e
    proof (cases "holds e c")
      case True
      then have "bval e z = bval e (xs ! i)" using z by (simp add: sim_def)
      from map_update_same [of "bval e", OF this] True show ?thesis by simp
    next
      case False
      then have "bval e z = bval e (ys ! i)" using z by (simp add: sim_def)
      from map_update_same [of "bval e", OF this] False show ?thesis using i by simp
    qed
  qed (use lists in simp)
  then show ?thesis unfolding res by (intro bind_outI [where P = P, OF out err])
qed

lemma burrow_argsb_cases:
  fixes xs ys :: "bl list"
  assumes lists: "length xs = 2" "length ys = 2" "list_all wf_bl xs" "list_all wf_bl ys"
    and again: "\<And>i. i < 2 \<Longrightarrow> burrowed_bl xt (IfBool c (xs ! i) (ys ! i)) (again (mk_ifb k c (xs ! i) (ys ! i)))"
    and expr: "P (done_with expr)" and err: "xt \<longrightarrow> P (Some (Inl ClaripyTypeError))"
    and build: "\<And>zs. list_all wf_bl zs \<Longrightarrow> length zs = 2 \<Longrightarrow>
      (\<And>e. map (holds e) zs = (if holds e c then map (holds e) xs else map (holds e) ys)) \<Longrightarrow> P (done_with (build zs))"
  shows "P (burrow_args (inner_ifb k c) again build expr xs ys)"
proof (cases "different_idx xs ys")
  case None
  then show ?thesis using lists expr by (simp add: burrow_args_def)
next
  case (Some i)
  note i = different_two [OF Some lists(1,2)]
  have res: "burrow_args (inner_ifb k c) again build expr xs ys =
      bind_out (again (mk_ifb k c (xs ! i) (ys ! i))) (\<lambda>z. done_with (build (xs[i := z])))"
    using Some lists by (simp add: burrow_args_def inner_ifb_def bind_out_def)
  have out: "xt \<and> again (mk_ifb k c (xs ! i) (ys ! i)) = Some (Inl ClaripyTypeError) \<or>
      (\<exists>z. again (mk_ifb k c (xs ! i) (ys ! i)) = done_with z \<and> simb z (IfBool c (xs ! i) (ys ! i)))"
    using again [of i] i by (simp add: burrowed_bl_def)
  have "P (done_with (build (xs[i := z])))" if z: "simb z (IfBool c (xs ! i) (ys ! i))" for z
  proof (rule build)
    show "list_all wf_bl (xs[i := z])"
      using z lists(1,3) conjunct1 [OF i] by (auto simp: list_all_length nth_list_update simb_def)
    show "map (holds e) (xs[i := z]) = (if holds e c then map (holds e) xs else map (holds e) ys)" for e
    proof (cases "holds e c")
      case True
      then have "holds e z = holds e (xs ! i)" using z by (simp add: simb_def)
      from map_update_same [of "holds e", OF this] True show ?thesis by simp
    next
      case False
      then have "holds e z = holds e (ys ! i)" using z by (simp add: simb_def)
      from map_update_same [of "holds e", OF this] False show ?thesis using i by simp
    qed
  qed (use lists in simp)
  then show ?thesis unfolding res by (intro bind_outI [where P = P, OF out err])
qed

text \<open>The node that is built stands for the conditional.\<close>

lemma built_sim:
  assumes N: "by_value 2 N" "wf_bv (N zs)" and zs: "length zs = 2" "map len zs = map len xs" "map len zs = map len ys"
    and val: "\<And>e. map (bval e) zs = (if holds e c then map (bval e) xs else map (bval e) ys)"
  shows "burrowed_bv xt (IfBV c (N xs) (N ys)) (done_with (node (N zs)))"
proof (rule burrowed_doneI(1) [OF N(2)], rule simI [OF N(2)])
  show "len (N zs) = len (IfBV c (N xs) (N ys))" using N(1) zs unfolding by_value_def len.simps by metis
  show "bval e (N zs) = bval e (IfBV c (N xs) (N ys))" for e
  proof (cases "holds e c")
    case True
    then have "map (bval e) zs = map (bval e) xs" using val by simp
    then show ?thesis using N(1) zs(1,2) True unfolding by_value_def by simp
  next
    case False
    then have "map (bval e) zs = map (bval e) ys" using val by simp
    then show ?thesis using N(1) zs(1,3) False unfolding by_value_def by simp
  qed
qed

lemma burrow_if_bv_cases:
  "burrow_if_bv k again c t f = done_with (IfBV c t f)
   \<or> (\<exists>g xs ys. t = NOp g xs \<and> f = NOp g ys \<and> burrow_if_bv k again c t f =
        burrow_args (inner_if k c) again (\<lambda>zs. node (NOp g zs)) (IfBV c t f) xs ys)
   \<or> (\<exists>xs ys. t = ConcatN xs \<and> f = ConcatN ys \<and> burrow_if_bv k again c t f =
        burrow_args (inner_if k c) again (\<lambda>zs. node (ConcatN zs)) (IfBV c t f) xs ys)
   \<or> (\<exists>g x y x' y'. t = BOp g x y \<and> f = BOp g x' y' \<and> burrow_if_bv k again c t f =
        burrow_args (inner_if k c) again (\<lambda>zs. node (BOp g (zs ! 0) (zs ! 1))) (IfBV c t f) [x, y] [x', y'])
   \<or> (\<exists>h l x h' l' y. t = ExtractN h l x \<and> f = ExtractN h' l' y \<and> burrow_if_bv k again c t f =
        burrow_extract (IfBV c t f) h l x h' l' y)
   \<or> (\<exists>n x m y. t = ZeroExtN n x \<and> f = ZeroExtN m y \<and> burrow_if_bv k again c t f =
        burrow_ext k again c ZeroExtN (IfBV c t f) n x m y)
   \<or> (\<exists>n x m y. t = SignExtN n x \<and> f = SignExtN m y \<and> burrow_if_bv k again c t f =
        burrow_ext k again c SignExtN (IfBV c t f) n x m y)"
  by (cases t; cases f) (auto simp: burrow_if_bv_def Let_def)

lemma burrow_if_bl_cases:
  "burrow_if_bl k again againb c t f = done_with (IfBool c t f)
   \<or> (\<exists>g x y x' y'. t = Cmp g x y \<and> f = Cmp g x' y' \<and> burrow_if_bl k again againb c t f =
        burrow_args (inner_if k c) again (\<lambda>zs. nodeb (Cmp g (zs ! 0) (zs ! 1))) (IfBool c t f) [x, y] [x', y'])
   \<or> (\<exists>x y x' y'. t = BoolEq x y \<and> f = BoolEq x' y' \<and> burrow_if_bl k again againb c t f =
        burrow_args (inner_ifb k c) againb (\<lambda>zs. nodeb (BoolEq (zs ! 0) (zs ! 1))) (IfBool c t f) [x, y] [x', y'])
   \<or> (\<exists>x y x' y'. t = BoolNe x y \<and> f = BoolNe x' y' \<and> burrow_if_bl k again againb c t f =
        burrow_args (inner_ifb k c) againb (\<lambda>zs. nodeb (BoolNe (zs ! 0) (zs ! 1))) (IfBool c t f) [x, y] [x', y'])
   \<or> (\<exists>xs ys. t = AndN xs \<and> f = AndN ys \<and> burrow_if_bl k again againb c t f =
        burrow_args (inner_ifb k c) againb (\<lambda>zs. nodeb (AndN zs)) (IfBool c t f) xs ys)
   \<or> (\<exists>xs ys. t = OrN xs \<and> f = OrN ys \<and> burrow_if_bl k again againb c t f =
        burrow_args (inner_ifb k c) againb (\<lambda>zs. nodeb (OrN zs)) (IfBool c t f) xs ys)"
  by (cases t; cases f) (auto simp: burrow_if_bl_def Let_def)

lemma size_args:
  "x \<in> set xs \<Longrightarrow> size x < size (NOp g xs)" "x \<in> set xs \<Longrightarrow> size x < size (ConcatN xs)"
  "p \<in> set ps \<Longrightarrow> size p < size (AndN ps)" "p \<in> set ps \<Longrightarrow> size p < size (OrN ps)"
  by (simp_all add: less_Suc_eq_le size_list_estimation')

lemma two_nth: "length xs = 2 \<Longrightarrow> i < 2 \<Longrightarrow> xs ! i \<in> set xs"
  by simp

context sound_ctors
begin

lemma burrow_inner:
  assumes "modest xt k" and "wf_bl c" "pairs_bl xt c" and "wf_bv x" "wf_bv y" "pairs_bv xt x" "pairs_bv xt y" "len x = len y" "0 < len x"
    and again: "\<And>z. wf_bv z \<Longrightarrow> pairs_bv xt z \<Longrightarrow> size z \<le> size (IfBV c x y) \<Longrightarrow> burrowed_bv xt z (again z)"
  shows "burrowed_bv xt (IfBV c x y) (again (mk_if k c x y))"
proof -
  have s: "sim (mk_if k c x y) (IfBV c x y)" using assms by (intro if_sim) simp
  moreover have "pairs_bv xt (mk_if k c x y) \<and> size (mk_if k c x y) \<le> size (IfBV c x y)"
    using assms(1-9) by (simp add: modest_def)
  ultimately have "burrowed_bv xt (mk_if k c x y) (again (mk_if k c x y))" using again simD by blast
  with s show ?thesis using sim_trans by (auto simp: burrowed_bv_def)
qed

lemma burrow_innerb:
  assumes "modest xt k" and "wf_bl c" "pairs_bl xt c" and "wf_bl x" "wf_bl y" "pairs_bl xt x" "pairs_bl xt y"
    and again: "\<And>z. wf_bl z \<Longrightarrow> pairs_bl xt z \<or> is_leaf_bl z \<Longrightarrow> size z \<le> size (IfBool c x y) \<Longrightarrow> burrowed_bl xt z (again z)"
  shows "burrowed_bl xt (IfBool c x y) (again (mk_ifb k c x y))"
proof -
  have s: "simb (mk_ifb k c x y) (IfBool c x y)" using assms by (intro ifb_sim) simp
  moreover have "(pairs_bl xt (mk_ifb k c x y) \<or> is_leaf_bl (mk_ifb k c x y)) \<and> size (mk_ifb k c x y) \<le> size (IfBool c x y)"
    using assms(1-7) by (simp add: modest_def)
  ultimately have "burrowed_bl xt (mk_ifb k c x y) (again (mk_ifb k c x y))" using again simD by blast
  with s show ?thesis by (auto simp: burrowed_bl_def simb_def)
qed

text \<open>One conditional between two nodes with lists of arguments.\<close>

lemma burrow_nodes:
  assumes k: "modest xt k" "wf_bl c" "pairs_bl xt c" and N: "by_value 2 N" "wf_bv (IfBV c (N xs) (N ys))"
    and xs: "length xs = 2" "good_args xs" "list_all (pairs_bv xt) xs" and ys: "length ys = 2" "good_args ys" "list_all (pairs_bv xt) ys"
    and lens: "sum_list (map len xs) = sum_list (map len ys)"
    and wf: "\<And>zs. good_args zs \<Longrightarrow> map len zs = map len xs \<Longrightarrow> wf_bv (N zs)"
    and size: "\<And>x. x \<in> set xs \<Longrightarrow> size x < size (N xs)" "\<And>y. y \<in> set ys \<Longrightarrow> size y < size (N ys)"
    and again: "\<And>z. wf_bv z \<Longrightarrow> pairs_bv xt z \<Longrightarrow> size z < size (IfBV c (N xs) (N ys)) \<Longrightarrow> burrowed_bv xt z (again z)"
  shows "burrowed_bv xt (IfBV c (N xs) (N ys))
    (burrow_args (inner_if k c) again (\<lambda>zs. node (N zs)) (IfBV c (N xs) (N ys)) xs ys)"
proof (rule burrow_args_cases [OF xs(1) ys(1) xs(2) ys(2)])
  fix i
  assume i: "(i :: nat) < 2" and len: "len (xs ! i) = len (ys ! i)"
  note x = two_nth [OF xs(1) i] and y = two_nth [OF ys(1) i]
  show "burrowed_bv xt (IfBV c (xs ! i) (ys ! i)) (again (mk_if k c (xs ! i) (ys ! i)))"
    by (rule burrow_inner [OF k])
      (use x y xs ys len size(1) [OF x] size(2) [OF y] again in \<open>auto simp: good_args_def list_all_iff\<close>)
next
  show "burrowed_bv xt (IfBV c (N xs) (N ys)) (done_with (IfBV c (N xs) (N ys)))"
    using N(2) by (intro burrowed_doneI sim_refl)
next
  show "len (xs ! i) = len (ys ! i)" if "i < 2" "\<forall>z. xs[i := z] = ys[i := z]" for i
    by (rule lens_two [OF xs(1) ys(1) that lens])
next
  fix zs
  assume "good_args zs" "length zs = 2" "map len zs = map len xs" "map len zs = map len ys"
    "\<And>e. map (bval e) zs = (if holds e c then map (bval e) xs else map (bval e) ys)"
  then show "burrowed_bv xt (IfBV c (N xs) (N ys)) (done_with (node (N zs)))" by (intro built_sim [OF N(1)] wf)
qed (rule burrowed_errors)

lemma burrow_ext_ok:
  assumes k: "modest xt k" "wf_bl c" "pairs_bl xt c" and ext: "ext = ZeroExtN \<or> ext = SignExtN"
    and wf: "wf_bv (IfBV c (ext n x) (ext m y))" and pairs: "pairs_bv xt x" "pairs_bv xt y"
    and again: "\<And>z. wf_bv z \<Longrightarrow> pairs_bv xt z \<Longrightarrow> size z < size (IfBV c (ext n x) (ext m y)) \<Longrightarrow> burrowed_bv xt z (again z)"
  shows "burrowed_bv xt (IfBV c (ext n x) (ext m y)) (burrow_ext k again c ext (IfBV c (ext n x) (ext m y)) n x m y)"
proof -
  let ?expr = "IfBV c (ext n x) (ext m y)"
  have wfs: "wf_bv x" "wf_bv y" "0 < len x" "0 < len y" "0 < n" "len (ext n x) = len (ext m y)" using wf ext by auto
  have sizes: "size (ext n x) = Suc (size x)" "size (ext m y) = Suc (size y)" using ext by auto
  have len: "len x = len y" if "n = m" using that wfs(6) ext by auto
  consider "burrow_ext k again c ext ?expr n x m y = done_with ?expr"
    | "n = m" "burrow_ext k again c ext ?expr n x m y =
        bind_out (again (mk_if k c x y)) (\<lambda>z. done_with (node (ext n z)))"
  proof (cases "(n = m) = (x = y)")
    case True
    then show ?thesis using that(1) by (simp add: burrow_ext_def)
  next
    case False
    moreover have "n = m" if "x = y" using that wfs(6) ext by auto
    ultimately show ?thesis using that(2) len by (cases "n = m") (simp_all add: burrow_ext_def inner_if_def bind_out_def)
  qed
  then show ?thesis
  proof cases
    case 1
    then show ?thesis using wf burrowed_doneI(2) [OF sim_refl] by (simp del: wf_bv.simps)
  next
    case 2
    have inner: "burrowed_bv xt (IfBV c x y) (again (mk_if k c x y))"
      by (rule burrow_inner [OF k]) (use wfs pairs len 2(1) sizes again in auto)
    show ?thesis
      unfolding 2(2)
    proof (rule burrowed_bindI(1) [OF inner], rule burrowed_doneI(1))
      fix z
      assume z: "sim z (IfBV c x y)"
      then show "wf_bv (ext n z)" using ext wfs by (auto simp: sim_def)
      then show "sim (ext n z) ?expr" using z ext len 2(1) by (intro simI) (auto simp: sim_def)
    qed
  qed
qed

lemma width_NOp: "wf_bv (NOp g xs) \<Longrightarrow> width xs = length xs * len (NOp g xs)"
proof -
  assume wf: "wf_bv (NOp g xs)"
  have "map len xs = map (\<lambda>_. len (NOp g xs)) xs" using wf_NOp_args [OF wf] by (intro map_cong refl) blast
  then show ?thesis by (simp only: sum_list_triv of_nat_id)
qed

lemma burrow_if_bv_ok:
  assumes k: "modest xt k" and wf: "wf_bv (IfBV c t f)" and pairs: "pairs_bv xt (IfBV c t f)"
    and again: "\<And>z. wf_bv z \<Longrightarrow> pairs_bv xt z \<Longrightarrow> size z < size (IfBV c t f) \<Longrightarrow> burrowed_bv xt z (again z)"
  shows "burrowed_bv xt (IfBV c t f) (burrow_if_bv k again c t f)"
proof -
  have c: "wf_bl c" "pairs_bl xt c" and wfs: "wf_bv t" "wf_bv f" using wf pairs by auto
  have same: "burrowed_bv xt (IfBV c t f) (done_with (IfBV c t f))" using wf by (intro burrowed_doneI sim_refl)
  from burrow_if_bv_cases [of k again c t f]
  consider "burrow_if_bv k again c t f = done_with (IfBV c t f)"
    | g xs ys where "t = NOp g xs" "f = NOp g ys"
        "burrow_if_bv k again c t f = burrow_args (inner_if k c) again (\<lambda>zs. node (NOp g zs)) (IfBV c t f) xs ys"
    | xs ys where "t = ConcatN xs" "f = ConcatN ys"
        "burrow_if_bv k again c t f = burrow_args (inner_if k c) again (\<lambda>zs. node (ConcatN zs)) (IfBV c t f) xs ys"
    | g x y x' y' where "t = BOp g x y" "f = BOp g x' y'"
        "burrow_if_bv k again c t f =
           burrow_args (inner_if k c) again (\<lambda>zs. node (BOp g (zs ! 0) (zs ! 1))) (IfBV c t f) [x, y] [x', y']"
    | h l x h' l' y where "t = ExtractN h l x" "f = ExtractN h' l' y"
        "burrow_if_bv k again c t f = burrow_extract (IfBV c t f) h l x h' l' y"
    | n x m y where "t = ZeroExtN n x" "f = ZeroExtN m y"
        "burrow_if_bv k again c t f = burrow_ext k again c ZeroExtN (IfBV c t f) n x m y"
    | n x m y where "t = SignExtN n x" "f = SignExtN m y"
        "burrow_if_bv k again c t f = burrow_ext k again c SignExtN (IfBV c t f) n x m y"
    by (elim disjE exE conjE)
  then show ?thesis
  proof cases
    case 1
    then show ?thesis using same by simp
  next
    case (2 g xs ys)
    have "good_args xs" "good_args ys"
      using wf_NOp_args [of g xs] wf_NOp_args [of g ys] wfs 2(1,2) unfolding good_args_def list_all_iff by blast+
    moreover have "width xs = width ys"
      using width_NOp [OF wfs(1) [unfolded 2]] width_NOp [OF wfs(2) [unfolded 2]] wf pairs 2(1,2) by (simp del: len.simps wf_bv.simps(3))
    ultimately show ?thesis
      unfolding 2(3) unfolding 2(1,2)
      by (intro burrow_nodes [OF k c by_value_lists(1)])
        (use wf pairs again 2 wf_NOp_like [OF wfs(1) [unfolded 2]] size_args in \<open>simp_all del: wf_bv.simps(3) len.simps bv.size\<close>)
  next
    case (3 xs ys)
    have "good_args xs" "good_args ys" using wfs 3(1,2) by (simp_all add: good_args_def list_all_iff)
    moreover have "width xs = width ys" using wf 3(1,2) by simp
    ultimately show ?thesis
      unfolding 3(3) unfolding 3(1,2)
      by (intro burrow_nodes [OF k c by_value_lists(2)])
        (use wf pairs again 3 wf_ConcatN_like [OF wfs(1) [unfolded 3]] size_args in \<open>simp_all del: wf_bv.simps(6) len.simps bv.size\<close>)
  next
    case (4 g x y x' y')
    have "wf_bv (BOp g (zs ! 0) (zs ! 1))" if "good_args zs" "map len zs = map len [x, y]" for zs
      using that wfs(1) 4(1) by (cases zs rule: two.cases) (auto simp: good_args_def)
    then have "burrowed_bv xt (IfBV c (BOp g ([x, y] ! 0) ([x, y] ! 1)) (BOp g ([x', y'] ! 0) ([x', y'] ! 1)))
       (burrow_args (inner_if k c) again (\<lambda>zs. node (BOp g (zs ! 0) (zs ! 1)))
         (IfBV c (BOp g ([x, y] ! 0) ([x, y] ! 1)) (BOp g ([x', y'] ! 0) ([x', y'] ! 1))) [x, y] [x', y'])"
      by (intro burrow_nodes [OF k c by_value_pair]) (use wf pairs again 4 in \<open>auto simp: good_args_def\<close>)
    then show ?thesis unfolding 4(3) unfolding 4(1,2) by simp
  next
    case (5 h l x h' l' y)
    then have xt using pairs by simp
    then show ?thesis using 5 same burrowed_errors by (simp add: burrow_extract_def)
  next
    case (6 n x m y)
    then show ?thesis
      unfolding 6(3) unfolding 6(1,2)
      by (intro burrow_ext_ok [OF k c]) (use wf pairs again 6 in \<open>simp_all del: wf_bv.simps\<close>)
  next
    case (7 n x m y)
    then show ?thesis
      unfolding 7(3) unfolding 7(1,2)
      by (intro burrow_ext_ok [OF k c]) (use wf pairs again 7 in \<open>simp_all del: wf_bv.simps\<close>)
  qed
qed

text \<open>The same for conditionals between booleans.\<close>

lemma burrow_nodesb:
  assumes k: "modest xt k" "wf_bl c" "pairs_bl xt c" and wf: "wf_bl (IfBool c (N xs) (N ys))"
    and xs: "length xs = 2" "list_all wf_bl xs" "list_all (pairs_bl xt) xs" and ys: "length ys = 2" "list_all wf_bl ys" "list_all (pairs_bl xt) ys"
    and N: "\<And>zs. list_all wf_bl zs \<Longrightarrow> length zs = 2 \<Longrightarrow> wf_bl (N zs)"
      "\<And>e us vs. length us = 2 \<Longrightarrow> map (holds e) us = map (holds e) vs \<Longrightarrow> holds e (N us) = holds e (N vs)"
    and size: "\<And>x. x \<in> set xs \<Longrightarrow> size x < size (N xs)" "\<And>y. y \<in> set ys \<Longrightarrow> size y < size (N ys)"
    and again: "\<And>z. wf_bl z \<Longrightarrow> pairs_bl xt z \<or> is_leaf_bl z \<Longrightarrow> size z < size (IfBool c (N xs) (N ys)) \<Longrightarrow> burrowed_bl xt z (again z)"
  shows "burrowed_bl xt (IfBool c (N xs) (N ys))
    (burrow_args (inner_ifb k c) again (\<lambda>zs. nodeb (N zs)) (IfBool c (N xs) (N ys)) xs ys)"
proof (rule burrow_argsb_cases [OF xs(1) ys(1) xs(2) ys(2)])
  fix i
  assume i: "(i :: nat) < 2"
  note x = two_nth [OF xs(1) i] and y = two_nth [OF ys(1) i]
  show "burrowed_bl xt (IfBool c (xs ! i) (ys ! i)) (again (mk_ifb k c (xs ! i) (ys ! i)))"
    by (rule burrow_innerb [OF k])
      (use x y xs ys size(1) [OF x] size(2) [OF y] again in \<open>auto simp: list_all_iff\<close>)
next
  show "burrowed_bl xt (IfBool c (N xs) (N ys)) (done_with (IfBool c (N xs) (N ys)))"
    using wf by (intro burrowed_doneI simb_refl)
next
  fix zs
  assume zs: "list_all wf_bl zs" "length zs = 2"
    and val: "\<And>e. map (holds e) zs = (if holds e c then map (holds e) xs else map (holds e) ys)"
  have "holds e (N zs) = holds e (IfBool c (N xs) (N ys))" for e
    using N(2) [OF zs(2), of e xs] N(2) [OF zs(2), of e ys] val [of e] by (cases "holds e c") simp_all
  then show "burrowed_bl xt (IfBool c (N xs) (N ys)) (done_with (nodeb (N zs)))"
    using N(1) [OF zs] by (intro burrowed_doneI simbI)
qed (rule burrowed_errors)

lemma list_all_pair: "length zs = 2 \<Longrightarrow> list_all P zs \<longleftrightarrow> P (zs ! 0) \<and> P (zs ! 1)"
  by (cases zs rule: two.cases) auto

lemma map_pair_holds:
  "length us = 2 \<Longrightarrow> map (holds e) us = map (holds e) vs \<Longrightarrow>
     holds e (us ! 0) = holds e (vs ! 0) \<and> holds e (us ! 1) = holds e (vs ! 1)"
  by (cases us rule: two.cases; cases vs rule: two.cases) auto

lemma holds_lists:
  "list_all (holds e) us = list_all (\<lambda>v. v) (map (holds e) us)" "list_ex (holds e) us = list_ex (\<lambda>v. v) (map (holds e) us)"
  by (induction us) simp_all

lemma connectives_by_value:
  assumes "map (holds e) us = map (holds e) vs"
  shows "holds e (AndN us) = holds e (AndN vs)" and "holds e (OrN us) = holds e (OrN vs)"
  unfolding holds.simps holds_lists assms by (rule refl)+

lemma equalities_by_value:
  assumes "length us = 2" and "map (holds e) us = map (holds e) vs"
  shows "holds e (BoolEq (us ! 0) (us ! 1)) = holds e (BoolEq (vs ! 0) (vs ! 1))"
    and "holds e (BoolNe (us ! 0) (us ! 1)) = holds e (BoolNe (vs ! 0) (vs ! 1))"
  using map_pair_holds [OF assms] by simp_all

lemma size_of_two: "(p :: bl) = x \<or> p = y \<Longrightarrow> size p < Suc (size x + size y)"
  by auto

lemma burrow_cmp_ok:
  assumes k: "modest xt k" "wf_bl c" "pairs_bl xt c" and wf: "wf_bl (IfBool c (Cmp g x y) (Cmp g x' y'))"
    and pairs: "pairs_bv xt x" "pairs_bv xt y" "pairs_bv xt x'" "pairs_bv xt y'"
    and again: "\<And>z. wf_bv z \<Longrightarrow> pairs_bv xt z \<Longrightarrow> size z < size (IfBool c (Cmp g x y) (Cmp g x' y')) \<Longrightarrow> burrowed_bv xt z (again z)"
  shows "burrowed_bl xt (IfBool c (Cmp g x y) (Cmp g x' y'))
    (burrow_args (inner_if k c) again (\<lambda>zs. nodeb (Cmp g (zs ! 0) (zs ! 1))) (IfBool c (Cmp g x y) (Cmp g x' y')) [x, y] [x', y'])"
proof (rule burrow_args_cases)
  fix i
  assume i: "(i :: nat) < 2" and len: "len ([x, y] ! i) = len ([x', y'] ! i)"
  then have "i = 0 \<or> i = 1" by auto
  then show "burrowed_bv xt (IfBV c ([x, y] ! i) ([x', y'] ! i)) (again (mk_if k c ([x, y] ! i) ([x', y'] ! i)))"
    by (intro burrow_inner [OF k]) (use wf pairs len again in auto)
next
  show "len ([x, y] ! i) = len ([x', y'] ! i)" if "i < 2" "\<forall>z. [x, y][i := z] = [x', y'][i := z]" for i
    using wf that by (auto simp: less_2_cases_iff)
next
  show "burrowed_bl xt (IfBool c (Cmp g x y) (Cmp g x' y')) (done_with (IfBool c (Cmp g x y) (Cmp g x' y')))"
    using wf by (intro burrowed_doneI simb_refl)
next
  fix zs
  assume zs: "good_args zs" "length zs = 2" "map len zs = map len [x, y]" "map len zs = map len [x', y']"
    and val: "\<And>e. map (bval e) zs = (if holds e c then map (bval e) [x, y] else map (bval e) [x', y'])"
  obtain u v where uv: "zs = [u, v]" using zs(2) by (auto simp: length_Suc_conv numeral_2_eq_2)
  have "simb (Cmp g u v) (IfBool c (Cmp g x y) (Cmp g x' y'))"
  proof (rule simbI)
    show "wf_bl (Cmp g u v)" using zs uv wf by (auto simp: good_args_def)
    show "holds e (Cmp g u v) = holds e (IfBool c (Cmp g x y) (Cmp g x' y'))" for e
      using val [of e] zs(3,4) uv by (cases "holds e c") simp_all
  qed
  then show "burrowed_bl xt (IfBool c (Cmp g x y) (Cmp g x' y')) (done_with (nodeb (Cmp g (zs ! 0) (zs ! 1))))"
    using simD(2) by (auto simp: uv intro!: burrowed_doneI(3))
qed (use wf in \<open>auto simp: good_args_def burrowed_errors\<close>)

lemma burrow_if_bl_ok:
  assumes k: "modest xt k" and wf: "wf_bl (IfBool c t f)" and pairs: "pairs_bl xt (IfBool c t f)"
    and again: "\<And>z. wf_bv z \<Longrightarrow> pairs_bv xt z \<Longrightarrow> size z < size (IfBool c t f) \<Longrightarrow> burrowed_bv xt z (again z)"
    and againb: "\<And>z. wf_bl z \<Longrightarrow> pairs_bl xt z \<or> is_leaf_bl z \<Longrightarrow> size z < size (IfBool c t f) \<Longrightarrow> burrowed_bl xt z (againb z)"
  shows "burrowed_bl xt (IfBool c t f) (burrow_if_bl k again againb c t f)"
proof -
  have c: "wf_bl c" "pairs_bl xt c" using wf pairs by auto
  from burrow_if_bl_cases [of k again againb c t f]
  consider "burrow_if_bl k again againb c t f = done_with (IfBool c t f)"
    | g x y x' y' where "t = Cmp g x y" "f = Cmp g x' y'" "burrow_if_bl k again againb c t f =
        burrow_args (inner_if k c) again (\<lambda>zs. nodeb (Cmp g (zs ! 0) (zs ! 1))) (IfBool c t f) [x, y] [x', y']"
    | x y x' y' where "t = BoolEq x y" "f = BoolEq x' y'" "burrow_if_bl k again againb c t f =
        burrow_args (inner_ifb k c) againb (\<lambda>zs. nodeb (BoolEq (zs ! 0) (zs ! 1))) (IfBool c t f) [x, y] [x', y']"
    | x y x' y' where "t = BoolNe x y" "f = BoolNe x' y'" "burrow_if_bl k again againb c t f =
        burrow_args (inner_ifb k c) againb (\<lambda>zs. nodeb (BoolNe (zs ! 0) (zs ! 1))) (IfBool c t f) [x, y] [x', y']"
    | xs ys where "t = AndN xs" "f = AndN ys" "burrow_if_bl k again againb c t f =
        burrow_args (inner_ifb k c) againb (\<lambda>zs. nodeb (AndN zs)) (IfBool c t f) xs ys"
    | xs ys where "t = OrN xs" "f = OrN ys" "burrow_if_bl k again againb c t f =
        burrow_args (inner_ifb k c) againb (\<lambda>zs. nodeb (OrN zs)) (IfBool c t f) xs ys"
    by (elim disjE exE conjE)
  then show ?thesis
  proof cases
    case 1
    then show ?thesis using burrowed_doneI(4) [OF simb_refl [OF wf]] by simp
  next
    case (2 g x y x' y')
    show ?thesis unfolding 2(3) unfolding 2(1,2)
      by (rule burrow_cmp_ok [OF k c]) (use wf pairs again 2 in \<open>simp_all del: wf_bl.simps\<close>)
  next
    case (3 x y x' y')
    have "burrowed_bl xt (IfBool c (BoolEq ([x, y] ! 0) ([x, y] ! 1)) (BoolEq ([x', y'] ! 0) ([x', y'] ! 1)))
      (burrow_args (inner_ifb k c) againb (\<lambda>zs. nodeb (BoolEq (zs ! 0) (zs ! 1)))
        (IfBool c (BoolEq ([x, y] ! 0) ([x, y] ! 1)) (BoolEq ([x', y'] ! 0) ([x', y'] ! 1))) [x, y] [x', y'])"
      by (rule burrow_nodesb [OF k c]) (use wf pairs againb 3 equalities_by_value(1) in \<open>simp_all add: list_all_pair size_of_two\<close>)
    then show ?thesis unfolding 3(3) unfolding 3(1,2) by simp
  next
    case (4 x y x' y')
    have "burrowed_bl xt (IfBool c (BoolNe ([x, y] ! 0) ([x, y] ! 1)) (BoolNe ([x', y'] ! 0) ([x', y'] ! 1)))
      (burrow_args (inner_ifb k c) againb (\<lambda>zs. nodeb (BoolNe (zs ! 0) (zs ! 1)))
        (IfBool c (BoolNe ([x, y] ! 0) ([x, y] ! 1)) (BoolNe ([x', y'] ! 0) ([x', y'] ! 1))) [x, y] [x', y'])"
      by (rule burrow_nodesb [OF k c]) (use wf pairs againb 4 equalities_by_value(2) in \<open>simp_all add: list_all_pair size_of_two\<close>)
    then show ?thesis unfolding 4(3) unfolding 4(1,2) by simp
  next
    case (5 xs ys)
    show ?thesis unfolding 5(3) unfolding 5(1,2)
    proof (rule burrow_nodesb [OF k c, where N = AndN])
      show "holds e (AndN us) = holds e (AndN vs)" if "map (holds e) us = map (holds e) vs" for e us vs
        using that by (rule connectives_by_value(1))
      show "size x < size (AndN xs)" if "x \<in> set xs" for x using that by (rule size_args(3))
      show "size x < size (AndN ys)" if "x \<in> set ys" for x using that by (rule size_args(3))
    qed (use wf pairs againb 5 in \<open>simp_all del: bl.size\<close>)
  next
    case (6 xs ys)
    show ?thesis unfolding 6(3) unfolding 6(1,2)
    proof (rule burrow_nodesb [OF k c, where N = OrN])
      show "holds e (OrN us) = holds e (OrN vs)" if "map (holds e) us = map (holds e) vs" for e us vs
        using that by (rule connectives_by_value(2))
      show "size x < size (OrN xs)" if "x \<in> set xs" for x using that by (rule size_args(4))
      show "size x < size (OrN ys)" if "x \<in> set ys" for x using that by (rule size_args(4))
    qed (use wf pairs againb 6 in \<open>simp_all del: bl.size\<close>)
  qed
qed

lemma sim_nodes:
  "sim x a \<Longrightarrow> sim y b \<Longrightarrow> wf_bv (BOp f a b) \<Longrightarrow> sim (BOp f x y) (BOp f a b)"
  "sim x a \<Longrightarrow> wf_bv (UOp u a) \<Longrightarrow> sim (UOp u x) (UOp u a)"
  "sim x a \<Longrightarrow> wf_bv (ExtractN h l a) \<Longrightarrow> sim (ExtractN h l x) (ExtractN h l a)"
  "sim x a \<Longrightarrow> wf_bv (ZeroExtN n a) \<Longrightarrow> sim (ZeroExtN n x) (ZeroExtN n a)"
  "sim x a \<Longrightarrow> wf_bv (SignExtN n a) \<Longrightarrow> sim (SignExtN n x) (SignExtN n a)"
  "sim x a \<Longrightarrow> sim y b \<Longrightarrow> wf_bl (Cmp g a b) \<Longrightarrow> simb (Cmp g x y) (Cmp g a b)"
  "simb p c \<Longrightarrow> simb q d \<Longrightarrow> simb (BoolEq p q) (BoolEq c d)"
  "simb p c \<Longrightarrow> simb q d \<Longrightarrow> simb (BoolNe p q) (BoolNe c d)"
  "simb p c \<Longrightarrow> simb (NotN p) (NotN c)"
  unfolding sim_stands simb_stands by (simp_all add: stands_nodes standsb_nodes del: wf_bv.simps wf_bl.simps)

lemma burrowed_nodeI: "sim r a \<Longrightarrow> burrowed_bv xt a (done_with (node r))" "simb q p \<Longrightarrow> burrowed_bl xt p (done_with (nodeb q))"
  using burrowed_doneI(1,3) simD by blast+

lemmas burrowed_rules = burrowed_bindI burrowed_bindbI burrowed_nodeI sim_nodes

lemma burrow_bv_step:
  assumes k: "modest xt k" and a: "wf_bv a" "pairs_bv xt a" "size a < Suc n"
    and bv: "\<And>b. wf_bv b \<Longrightarrow> pairs_bv xt b \<Longrightarrow> size b < n \<Longrightarrow> burrowed_bv xt b (burrow_bv k n b)"
  shows "burrowed_bv xt a (burrow_bv k (Suc n) a)"
proof (cases a)
  case (NOp f as)
  have "burrowed_bv xt b (burrow_bv k n b)" if "b \<in> set as" for b
  proof (rule bv)
    show "wf_bv b" using that a(1) wf_NOp_args [of f as] unfolding NOp list_all_iff by blast
    show "pairs_bv xt b" using that a(2) unfolding NOp by (simp add: list_all_iff)
    show "size b < n" using size_args(1) [OF that, of f] a(3) unfolding NOp by (simp del: bv.size)
  qed
  from burrowed_lists(1) [of as, OF this] show ?thesis using a NOp by simp
next
  case (BOp f x y)
  have "burrowed_bv xt x (burrow_bv k n x)" "burrowed_bv xt y (burrow_bv k n y)" by (intro bv; use a BOp in simp)+
  then show ?thesis using a(1) unfolding BOp burrow_bv.simps bv.case by (intro burrowed_rules)
next
  case (UOp f x)
  have "burrowed_bv xt x (burrow_bv k n x)" by (intro bv; use a UOp in simp)+
  then show ?thesis using a(1) unfolding UOp burrow_bv.simps bv.case by (intro burrowed_rules)
next
  case (ConcatN as)
  have "burrowed_bv xt b (burrow_bv k n b)" if "b \<in> set as" for b
    using bv [of b] a size_args(2) [OF that] that ConcatN by (auto simp: list_all_iff simp del: bv.size)
  from burrowed_lists(2) [of as, OF this] show ?thesis using a ConcatN by simp
next
  case (ExtractN h l x)
  have "burrowed_bv xt x (burrow_bv k n x)"
  proof (rule bv)
    show "wf_bv x" "size x < n" using a ExtractN by simp_all
    show "pairs_bv xt x" using a(2) unfolding ExtractN pairs_bv.simps by blast
  qed
  then show ?thesis using a(1) unfolding ExtractN burrow_bv.simps bv.case by (intro burrowed_rules)
next
  case (ZeroExtN m x)
  have "burrowed_bv xt x (burrow_bv k n x)" by (intro bv; use a ZeroExtN in simp)+
  then show ?thesis using a(1) unfolding ZeroExtN burrow_bv.simps bv.case by (intro burrowed_rules)
next
  case (SignExtN m x)
  have "burrowed_bv xt x (burrow_bv k n x)" by (intro bv; use a SignExtN in simp)+
  then show ?thesis using a(1) unfolding SignExtN burrow_bv.simps bv.case by (intro burrowed_rules)
next
  case (IfBV c x y)
  show ?thesis unfolding IfBV burrow_bv.simps bv.case
    by (rule burrow_if_bv_ok [OF k]) (use a bv IfBV in \<open>simp_all del: wf_bv.simps bv.size\<close>)
qed (use a in \<open>simp_all add: burrowed_doneI sim_refl\<close>)

lemma burrow_bl_step:
  assumes k: "modest xt k" and p: "wf_bl p" "pairs_bl xt p \<or> is_leaf_bl p" "size p < Suc n"
    and bv: "\<And>b. wf_bv b \<Longrightarrow> pairs_bv xt b \<Longrightarrow> size b < n \<Longrightarrow> burrowed_bv xt b (burrow_bv k n b)"
    and bl: "\<And>q. wf_bl q \<Longrightarrow> pairs_bl xt q \<or> is_leaf_bl q \<Longrightarrow> size q < n \<Longrightarrow> burrowed_bl xt q (burrow_bl k n q)"
  shows "burrowed_bl xt p (burrow_bl k (Suc n) p)"
proof (cases p)
  case (Cmp f x y)
  have "burrowed_bv xt x (burrow_bv k n x)" "burrowed_bv xt y (burrow_bv k n y)" using p Cmp by (auto intro: bv)
  then show ?thesis using p(1) unfolding Cmp burrow_bl.simps bl.case by (intro burrowed_rules)
next
  case (BoolEq x y)
  have "burrowed_bl xt x (burrow_bl k n x)" "burrowed_bl xt y (burrow_bl k n y)" using p BoolEq by (auto intro: bl)
  then show ?thesis unfolding BoolEq burrow_bl.simps bl.case by (intro burrowed_rules)
next
  case (BoolNe x y)
  have "burrowed_bl xt x (burrow_bl k n x)" "burrowed_bl xt y (burrow_bl k n y)" using p BoolNe by (auto intro: bl)
  then show ?thesis unfolding BoolNe burrow_bl.simps bl.case by (intro burrowed_rules)
next
  case (AndN ps)
  have "burrowed_bl xt q (burrow_bl k n q)" if "q \<in> set ps" for q
    using bl [of q] p size_args(3) [OF that] that AndN by (auto simp: list_all_iff simp del: bl.size)
  from burrowed_connectives(1) [of ps, OF this] show ?thesis using p AndN by simp
next
  case (OrN ps)
  have "burrowed_bl xt q (burrow_bl k n q)" if "q \<in> set ps" for q
    using bl [of q] p size_args(4) [OF that] that OrN by (auto simp: list_all_iff simp del: bl.size)
  from burrowed_connectives(2) [of ps, OF this] show ?thesis using p OrN by simp
next
  case (NotN x)
  have "burrowed_bl xt x (burrow_bl k n x)" using p NotN by (auto intro: bl)
  then show ?thesis unfolding NotN burrow_bl.simps bl.case by (intro burrowed_rules)
next
  case (IfBool c x y)
  show ?thesis unfolding IfBool burrow_bl.simps bl.case
    by (rule burrow_if_bl_ok [OF k]) (use p bv bl IfBool in \<open>simp_all del: wf_bl.simps bl.size\<close>)
qed (use p in \<open>simp_all add: burrowed_doneI simb_refl\<close>)

lemma burrow_ok:
  assumes "modest xt k"
  shows "(wf_bv a \<longrightarrow> pairs_bv xt a \<longrightarrow> size a < n \<longrightarrow> burrowed_bv xt a (burrow_bv k n a))
    \<and> (wf_bl p \<longrightarrow> pairs_bl xt p \<or> is_leaf_bl p \<longrightarrow> size p < n \<longrightarrow> burrowed_bl xt p (burrow_bl k n p))"
proof (induction n arbitrary: a p)
  case (Suc n)
  then show ?case using burrow_bv_step [OF assms, of a n] burrow_bl_step [OF assms, of p n] by blast
qed simp

end


text \<open>\<open>If(c == d, x + y, x + z)\<close>, which becomes \<open>x + If(c == d, y, z)\<close>.\<close>

definition ex_sums :: bv where
  "ex_sums = IfBV (Cmp CEq (BVS ''c'' 8) (BVS ''d'' 8)) (NOp NAdd [BVS ''x'' 8, BVS ''y'' 8]) (NOp NAdd [BVS ''x'' 8, BVS ''z'' 8])"


text \<open>Two trees outside those considered: three parts, and two bytes of one vector.\<close>

definition ex_cond :: bl where
  "ex_cond = Cmp CEq (BVS ''q'' 8) (BVS ''r'' 8)"

definition ex_parts :: bv where
  "ex_parts = IfBV ex_cond (ConcatN [BVS ''a'' 8, BVS ''b'' 8, BVS ''x'' 8]) (ConcatN [BVS ''a'' 8, BVS ''c'' 8, BVS ''d'' 8])"

definition ex_burrowed :: bv where
  "ex_burrowed = ConcatN [BVS ''a'' 8, IfBV ex_cond (BVS ''b'' 8) (BVS ''c'' 8), BVS ''x'' 8]"

definition ex_bytes :: bv where
  "ex_bytes = IfBV ex_cond (ExtractN 7 0 (BVS ''x'' 16)) (ExtractN 15 8 (BVS ''x'' 16))"


end
