(* ===== verification/Spec2Isabelle.thy ===== *)
theory Spec2Isabelle
  imports CCall_Misc X86_Conditions CCall_Simple ARM_Flags Pcode_Execution Heap_Brk Heap_Properties
    Tree_Burrow
begin

text \<open>
  \<^bold>\<open>A verification of the core of angr and claripy.\<close>

  angr executes binary code on states whose values are claripy expressions. This development models
  the parts of it that decide what an execution computes: the bit-vectors that concrete values are
  made of, the symbolic expression trees with the rules that simplify them, the helpers that compute
  condition flags, the p-code emulator, and the heap plugins with the memory that they keep their data
  in.

  \<^bold>\<open>Parts of the program and their theories.\<close>

  \<^item> \<open>Prelude\<close>: exceptions as values of the sum type \<open>res\<close> (\<open>Inl\<close> is the exception), Python's shifts
    on integers, and lemmas on bits, words and division that the components share.
  \<^item> \<open>Concrete_BV\<close>, \<open>Backend_Concrete\<close>, \<open>Backend_Word\<close>: \<open>BVV\<close> of
    \<open>claripy/backends/backend_concrete/bv.py\<close>, the table of operations of \<open>backend_concrete.py\<close>, and
    the refinement of machine words. A value is an integer in the range of its width; every operator
    of the class is one definition, with its decorators.
  \<^item> \<open>Claripy_BV\<close>: the interface that the engines call (\<open>ast/bv.py\<close>, \<open>ast/bool.py\<close>, \<open>operations.py\<close>):
    the lifting of numbers, the checks, slices and concatenation, on concrete values.
  \<^item> \<open>Claripy_AST\<close>: symbolic trees of bit-vectors and booleans (\<open>ast/base.py\<close>), their value under an
    assignment of the symbols (\<open>bval\<close>, \<open>holds\<close>) and their evaluation by the concrete backend
    (\<open>convert_bv\<close>). A tree that the code interns is the tree itself, so that the operator \<open>is\<close> is equality.
  \<^item> \<open>Simplifications\<close>: \<open>simplifications.py\<close>, one definition per simplifier, its rules in their order, and
    \<open>If\<close> of \<open>ast/bool.py\<close>. Operations ask the simplifiers and the simplifiers build their results with
    operations: a table of operations (\<open>ctors\<close>) is the parameter, \<open>step\<close> one level of that recursion and
    \<open>ctors_at n\<close> the table in which operations nest at most \<open>n\<close> deep, below which nodes are built plainly.
  \<^item> \<open>Simplify_Base\<close>, \<open>Simplify_Concat\<close>, \<open>Simplify_Compare\<close>, \<open>Simplify_Bool\<close>, \<open>Simplify_Bitwise\<close>,
    \<open>Simplify_Extract\<close>, \<open>Simplify_Sound\<close>: the rules keep the value. The contract of a table is the
    locale \<open>sound_ctors\<close>; the simplifiers are proved inside it, and \<open>checked_at n\<close>, the table of the
    code less the applications of a few rules that do not keep the value, is its interpretation.
  \<^item> \<open>Tree_Algorithms\<close>, \<open>Tree_Burrow\<close>: \<open>algorithm/ite_relocation.py\<close> and \<open>algorithm/replace.py\<close>. The loops over
    explicit stacks are recursion over the tree; burrowing, which continues on rebuilt trees, has fuel.
  \<^item> \<open>Flag_Arith\<close>, \<open>CCall_Data\<close>, \<open>CCall_X86\<close>, \<open>X86_Flags\<close>, \<open>X86_Conditions\<close>, \<open>CCall_Simple\<close>,
    \<open>CCall_Misc\<close>, \<open>CCall_ARM\<close>, \<open>ARM_Flags\<close>: \<open>angr/engines/vex/claripy/ccall.py\<close>. \<open>CCall_X86\<close>,
    \<open>CCall_Simple\<close>, \<open>CCall_Misc\<close> and \<open>CCall_ARM\<close> translate the functions; \<open>X86_Flags\<close> and
    \<open>ARM_Flags\<close> define the flags of the architectures on integers; the interfaces between the two
    are locales.
  \<^item> \<open>Pcode_Behavior\<close>, \<open>Pcode_Semantics\<close>, \<open>Pcode_Emulate\<close>, \<open>Pcode_Execution\<close>: the behaviours of
    p-code operations (\<open>angr/engines/pcode/behavior.py\<close>) and the emulator that executes blocks of
    them (\<open>emulate.py\<close>). The register file, memory, solver and architecture that the emulator calls
    are fields of a record of parameters.
  \<^item> \<open>Paged_Memory\<close>: \<open>paged_memory_mixin.py\<close> on concrete bytes, with the interface that the heaps rely
    on as the locale \<open>word_memory\<close>.
  \<^item> \<open>Heap_Base\<close>, \<open>Heap_Brk\<close>: the region of the heap plugins and its lazily mapped extent
    (\<open>heap_base.py\<close>), and the heap that moves a break (\<open>heap_brk.py\<close>).
  \<^item> \<open>Heap_PTMalloc\<close>: the freelist heap of \<open>heap_ptmalloc.py\<close>. Sizes, flags and links are words of the
    memory; the record of the plugin holds the head of the free list and the configuration.
    \<open>Heap_Layout\<close> describes the writes of its operations, \<open>Heap_Refinement\<close> relates the memory to a
    list of blocks (\<open>heap_ok\<close>) and proves \<open>malloc\<close>, \<open>Heap_Free\<close> proves \<open>free\<close>, \<open>Heap_Program\<close> states
    the interface of an allocator (the locale \<open>block_allocator\<close>) and proves \<open>calloc\<close> and \<open>realloc\<close>,
    \<open>Heap_Runs\<close> has initialisation and the programs that use the heap, \<open>Heap_Properties\<close> the results.

  \<^bold>\<open>How the parts interact.\<close> The engines compute with the claripy interface, which dispatches
  concrete values to the concrete backend; the flag helpers and the p-code behaviours are definitions
  over that interface. Symbolic values are trees; building one asks the simplifiers, and a tree without
  symbols is evaluated by the concrete backend at once. The heaps read and write the paged memory; break and freelist heap extend
  the record of the heap base.

  \<^bold>\<open>What is shown.\<close> Values stay in the range of their width and the operators implement machine words
  at every width, with their exceptions. The x86 and ARM flag computations agree with the flags of
  the architecture, and each condition after a comparison is the comparison it is named for; the
  simplified conditions agree where they are meant to, and where they do not is stated. A p-code
  block whose branches are concrete has exactly one feasible successor. The freelist heap refines
  first fit with coalescing on a list of blocks; programs that use it keep its metadata consistent,
  are never stuck, and keep their data.

  Simplification to any depth, excavation and replacement keep the value of an expression under every
  assignment, except for five rules, for which an expression is given whose value they change;
  burrowing ends and keeps the value where operations have two arguments.

  \<^bold>\<open>Bounds.\<close> The depth \<open>n\<close> of simplification is arbitrary in the theorems. Burrowing needs no more fuel than
  the size of the tree. Loops of the code that end on every input are total functions with a measure. The walk of
  the free list to its last chunk and the chunk iterators may run forever on corrupt memory; they
  are partial functions with the value \<open>None\<close> for that, and the theorems prove that they return. The
  freelist heap is shown for words of four and eight bytes and regions that are aligned to two words,
  which \<open>region_ok\<close> says.

  \<^bold>\<open>Not modelled.\<close> The solvers, annotations of trees, operations of trees without a simplifier (divisions,
  rotations), which stand as symbols, the caches of the tree algorithms, value sets, floating point, the VEX engine (its statements come
  from a C library), binary loading, control flow recovery, type inference and the decompiler
  (heuristics without a specification), library procedures and the plumbing of states and managers.
\<close>

end
